(* ===== verification/Prelude.thy ===== *)
theory Prelude
  imports Main "HOL-Library.Word" "HOL-Library.Char_ord" "HOL-Library.List_Lexorder"
    "HOL-Library.Product_Lexorder"
begin

text \<open>
  Shared vocabulary of the development.

  \<^item> Results: a fallible Rust function returns \<open>'e + 'a\<close>, \<open>Inl\<close> being the error.
    \<open>and_then\<close> is the \<^verbatim>\<open>?\<close> operator and \<open>ensure\<close> the \<^verbatim>\<open>ensure!\<close> macro. Their
    success and failure are characterised by equivalences in the simpset, so that a
    hypothesis "the operation returned \<open>Inr y\<close>" unfolds into the list of guards it passed.
  \<^item> Machine integers: \<open>u64\<close> is a 64-bit word with Rust's \<^verbatim>\<open>checked_add\<close> and
    \<^verbatim>\<open>checked_sub\<close>; lengths (\<^verbatim>\<open>usize\<close>) are natural numbers whose checked operations
    carry the bound of the 64-bit targets.
  \<^item> Strings: a Rust \<^verbatim>\<open>str\<close> is the list of its UTF-8 bytes, so \<^verbatim>\<open>len()\<close> is
    \<open>length\<close>, and \<^verbatim>\<open>chars()\<close> is the UTF-8 decoder \<open>str_chars\<close>.
  \<^item> The locale \<open>wire_enum\<close>: the contract of an enum that is written to and read from
    its wire spelling.
\<close>

section \<open>Results\<close>

named_theorems result_simps

definition and_then :: "'e + 'a \<Rightarrow> ('a \<Rightarrow> 'e + 'b) \<Rightarrow> 'e + 'b" where
  "and_then m k = (case m of Inl e \<Rightarrow> Inl e | Inr x \<Rightarrow> k x)"

definition ensure :: "bool \<Rightarrow> 'e \<Rightarrow> 'e + 'a \<Rightarrow> 'e + 'a" where
  "ensure b e k = (if b then k else Inl e)"

definition map_err :: "('e \<Rightarrow> 'f) \<Rightarrow> 'e + 'a \<Rightarrow> 'f + 'a" where
  "map_err f m = (case m of Inl e \<Rightarrow> Inl (f e) | Inr x \<Rightarrow> Inr x)"

definition ok_or :: "'a option \<Rightarrow> 'e \<Rightarrow> 'e + 'a" where
  "ok_or v e = (case v of None \<Rightarrow> Inl e | Some x \<Rightarrow> Inr x)"

definition is_ok :: "'e + 'a \<Rightarrow> bool" where
  "is_ok m = (case m of Inl _ \<Rightarrow> False | Inr _ \<Rightarrow> True)"

lemma and_then_eval [simp]:
  "and_then (Inr x) k = k x"
  "and_then (Inl e) k = Inl e"
  by (simp_all add: and_then_def)

lemma and_then_Inr_iff [simp]:
  "and_then m k = Inr y \<longleftrightarrow> (\<exists>x. m = Inr x \<and> k x = Inr y)"
  by (cases m) (simp_all add: and_then_def)

lemma and_then_Inl_iff [result_simps]:
  "and_then m k = Inl e \<longleftrightarrow> m = Inl e \<or> (\<exists>x. m = Inr x \<and> k x = Inl e)"
  by (cases m) (simp_all add: and_then_def)

lemma ensure_eval [simp]:
  "ensure True e k = k"
  "ensure False e k = Inl e"
  by (simp_all add: ensure_def)

lemma ensure_Inr_iff [simp]: "ensure b e k = Inr y \<longleftrightarrow> b \<and> k = Inr y"
  by (simp add: ensure_def)

lemma ensure_Inl_iff [result_simps]:
  "ensure b e k = Inl e' \<longleftrightarrow> (if b then k = Inl e' else e = e')"
  by (simp add: ensure_def)

lemma map_err_eval [simp]:
  "map_err f (Inr x) = Inr x"
  "map_err f (Inl e) = Inl (f e)"
  by (simp_all add: map_err_def)

lemma map_err_Inr_iff [simp]: "map_err f m = Inr y \<longleftrightarrow> m = Inr y"
  by (cases m) simp_all

lemma map_err_Inl_iff [result_simps]: "map_err f m = Inl d \<longleftrightarrow> (\<exists>e. m = Inl e \<and> d = f e)"
  by (cases m) auto

lemma ok_or_eval [simp]:
  "ok_or (Some x) e = Inr x"
  "ok_or None e = Inl e"
  by (simp_all add: ok_or_def)

lemma ok_or_Inr_iff [simp]: "ok_or v e = Inr x \<longleftrightarrow> v = Some x"
  by (cases v) simp_all

lemma ok_or_Inl_iff [result_simps]: "ok_or v e = Inl d \<longleftrightarrow> v = None \<and> d = e"
  by (cases v) auto

lemma is_ok_eval [simp]:
  "is_ok (Inr x)"
  "\<not> is_ok (Inl e)"
  by (simp_all add: is_ok_def)

lemma is_ok_iff: "is_ok m \<longleftrightarrow> (\<exists>x. m = Inr x)"
  by (cases m) simp_all

lemma is_ok_and_then [simp]: "is_ok (and_then m k) \<longleftrightarrow> (\<exists>x. m = Inr x \<and> is_ok (k x))"
  by (cases m) simp_all

lemma is_ok_ensure [simp]: "is_ok (ensure b e k) \<longleftrightarrow> b \<and> is_ok k"
  by (simp add: ensure_def)

text \<open>\<^verbatim>\<open>iter().map(f).collect::<Result<Vec<_>>>()\<close>: stops at the first error.\<close>

fun collect_results :: "('a \<Rightarrow> 'e + 'b) \<Rightarrow> 'a list \<Rightarrow> 'e + 'b list" where
  "collect_results f [] = Inr []"
| "collect_results f (x # xs) =
     and_then (f x) (\<lambda>y. and_then (collect_results f xs) (\<lambda>ys. Inr (y # ys)))"

lemma collect_results_Inr_iff:
  "collect_results f xs = Inr ys \<longleftrightarrow> list_all2 (\<lambda>x y. f x = Inr y) xs ys"
proof (induction xs arbitrary: ys)
  case Nil
  show ?case by auto
next
  case (Cons x xs)
  show ?case by (cases ys) (auto simp: Cons.IH)
qed

section \<open>Machine integers\<close>

type_synonym u64 = "64 word"
type_synonym u32 = "32 word"
type_synonym uuid = "128 word"

definition u64_checked_add :: "u64 \<Rightarrow> u64 \<Rightarrow> u64 option" where
  "u64_checked_add a b = (if unat a + unat b < 2 ^ 64 then Some (a + b) else None)"

definition u64_checked_sub :: "u64 \<Rightarrow> u64 \<Rightarrow> u64 option" where
  "u64_checked_sub a b = (if b \<le> a then Some (a - b) else None)"

lemma u64_checked_add_Some [simp]:
  "u64_checked_add a b = Some c \<longleftrightarrow> unat a + unat b < 2 ^ 64 \<and> c = a + b"
  by (auto simp: u64_checked_add_def)

lemma u64_checked_add_None [simp]:
  "u64_checked_add a b = None \<longleftrightarrow> 2 ^ 64 \<le> unat a + unat b"
  by (auto simp: u64_checked_add_def)

lemma unat_u64_add: "unat (a :: u64) + unat b < 2 ^ 64 \<Longrightarrow> unat (a + b) = unat a + unat b"
  by (simp add: unat_word_ariths)

lemma u64_checked_sub_Some [simp]:
  "u64_checked_sub a b = Some c \<longleftrightarrow> b \<le> a \<and> c = a - b"
  by (auto simp: u64_checked_sub_def)

lemma u64_checked_sub_None [simp]: "u64_checked_sub a b = None \<longleftrightarrow> a < b"
  by (auto simp: u64_checked_sub_def)

definition usize_checked_add :: "nat \<Rightarrow> nat \<Rightarrow> nat option" where
  "usize_checked_add a b = (if a + b < 2 ^ 64 then Some (a + b) else None)"

definition usize_checked_sub :: "nat \<Rightarrow> nat \<Rightarrow> nat option" where
  "usize_checked_sub a b = (if b \<le> a then Some (a - b) else None)"

lemma usize_checked_add_Some [simp]:
  "usize_checked_add a b = Some c \<longleftrightarrow> a + b < 2 ^ 64 \<and> c = a + b"
  by (auto simp: usize_checked_add_def)

lemma usize_checked_sub_Some [simp]:
  "usize_checked_sub a b = Some c \<longleftrightarrow> b \<le> a \<and> c = a - b"
  by (auto simp: usize_checked_sub_def)

section \<open>Strings\<close>

text \<open>\<^verbatim>\<open>to_string()\<close> of an unsigned number.\<close>

fun decimal :: "nat \<Rightarrow> string" where
  "decimal n = (if n < 10 then [char_of (48 + n)] else decimal (n div 10) @ [char_of (48 + n mod 10)])"

declare decimal.simps [simp del]

definition is_ascii_alphanumeric :: "char \<Rightarrow> bool" where
  "is_ascii_alphanumeric c =
     (let b = (of_char c :: nat)
      in (48 \<le> b \<and> b \<le> 57) \<or> (65 \<le> b \<and> b \<le> 90) \<or> (97 \<le> b \<and> b \<le> 122))"

text \<open>
  UTF-8 decoding of a byte list. A Rust \<^verbatim>\<open>str\<close> is always well formed; a truncated
  sequence, which cannot occur there, decodes to its leading byte.
\<close>

fun utf8_decode :: "nat list \<Rightarrow> nat list" where
  "utf8_decode [] = []"
| "utf8_decode (a # bs) =
     (if a < 128 then a # utf8_decode bs
      else if a < 224 then
        (case bs of b # cs \<Rightarrow> ((a mod 32) * 64 + b mod 64) # utf8_decode cs | [] \<Rightarrow> [a])
      else if a < 240 then
        (case bs of b # c # cs \<Rightarrow>
           ((a mod 16) * 4096 + (b mod 64) * 64 + c mod 64) # utf8_decode cs | _ \<Rightarrow> [a])
      else
        (case bs of b # c # d # cs \<Rightarrow>
           ((a mod 8) * 262144 + (b mod 64) * 4096 + (c mod 64) * 64 + d mod 64) # utf8_decode cs
         | _ \<Rightarrow> [a]))"

definition utf8_encode :: "nat \<Rightarrow> nat list" where
  "utf8_encode c =
     (if c < 128 then [c]
      else if c < 2048 then [192 + c div 64, 128 + c mod 64]
      else if c < 65536 then [224 + c div 4096, 128 + c div 64 mod 64, 128 + c mod 64]
      else [240 + c div 262144, 128 + c div 4096 mod 64, 128 + c div 64 mod 64, 128 + c mod 64])"

definition str_chars :: "string \<Rightarrow> nat list" where
  "str_chars s = utf8_decode (map of_char s)"

definition push_char :: "nat \<Rightarrow> string" where
  "push_char c = map char_of (utf8_encode c)"

text \<open>\<^verbatim>\<open>char::is_control\<close>: the Unicode category Cc.\<close>

definition is_control :: "nat \<Rightarrow> bool" where
  "is_control c = (c < 32 \<or> (127 \<le> c \<and> c < 160))"

lemma utf8_continuation: "(128 + r mod 64) mod 64 = r mod (64::nat)"
  by (subst mod_add_eq [symmetric]) simp

lemma utf8_lead:
  "q < 32 \<Longrightarrow> (192 + q) mod 32 = (q::nat)"
  "q < 16 \<Longrightarrow> (224 + q) mod 16 = q"
  "q < 8 \<Longrightarrow> (240 + q) mod 8 = q"
  by (subst mod_add_eq [symmetric], simp)+

lemma utf8_split:
  "(c div 4096) * 4096 + (c div 64 mod 64) * 64 + c mod 64 = (c::nat)"
  "(c div 262144) * 262144 + (c div 4096 mod 64) * 4096 + (c div 64 mod 64) * 64 + c mod 64 = c"
proof -
  have a: "c div 4096 = c div 64 div 64" and b: "c div 262144 = c div 4096 div 64"
    by (simp_all add: div_mult2_eq [symmetric])
  have x: "c div 64 div 64 * 64 + c div 64 mod 64 = c div 64" by (rule div_mult_mod_eq)
  have y: "c div 64 * 64 + c mod 64 = c" by (rule div_mult_mod_eq)
  have z: "c div 4096 div 64 * 64 + c div 4096 mod 64 = c div 4096" by (rule div_mult_mod_eq)
  show "(c div 4096) * 4096 + (c div 64 mod 64) * 64 + c mod 64 = c" using a x y by linarith
  with b z show "(c div 262144) * 262144 + (c div 4096 mod 64) * 4096 + (c div 64 mod 64) * 64 + c mod 64 = c" by linarith
qed

lemma utf8_decode_encode:
  assumes "c < 2097152"
  shows "utf8_decode (utf8_encode c @ bs) = c # utf8_decode bs"
proof -
  consider "c < 128" | "128 \<le> c" "c < 2048" | "2048 \<le> c" "c < 65536" | "65536 \<le> c"
    by linarith
  then show ?thesis
  proof cases
    case 1
    then show ?thesis by (simp add: utf8_encode_def)
  next
    case 2
    then have "c div 64 < 32" by (simp add: less_mult_imp_div_less)
    with 2 show ?thesis by (simp add: utf8_encode_def utf8_lead utf8_continuation)
  next
    case 3
    then have "c div 4096 < 16" by (simp add: less_mult_imp_div_less)
    with 3 show ?thesis by (simp add: utf8_encode_def utf8_lead utf8_continuation utf8_split)
  next
    case 4
    from assms have "c div 262144 < 8" by (simp add: less_mult_imp_div_less)
    with 4 show ?thesis by (simp add: utf8_encode_def utf8_lead utf8_continuation utf8_split)
  qed
qed

lemma utf8_encode_byte: "c < 2097152 \<Longrightarrow> b \<in> set (utf8_encode c) \<Longrightarrow> b < 256"
proof -
  assume c: "c < 2097152" and b: "b \<in> set (utf8_encode c)"
  have "128 + r mod 64 < (256::nat)" for r
    using mod_less_divisor [of 64 r] by linarith
  moreover have "c < 2048 \<Longrightarrow> c div 64 < 32" "c < 65536 \<Longrightarrow> c div 4096 < 16" "c div 262144 < 8"
    using c by (simp_all add: less_mult_imp_div_less)
  ultimately show "b < 256"
    using b by (auto simp: utf8_encode_def split: if_splits)
qed

lemma of_char_push_char: "c < 2097152 \<Longrightarrow> map of_char (push_char c) = utf8_encode c"
  using utf8_encode_byte by (auto simp: push_char_def of_char_of intro!: map_idI)

lemma str_chars_Nil [simp]: "str_chars [] = []"
  by (simp add: str_chars_def)

lemma str_chars_push_char:
  "c < 2097152 \<Longrightarrow> str_chars (push_char c @ s) = c # str_chars s"
  by (simp add: str_chars_def of_char_push_char utf8_decode_encode)

lemma str_chars_concat:
  "\<forall>c \<in> set cs. c < 2097152 \<Longrightarrow> str_chars (concat (map push_char cs)) = cs"
  by (induction cs) (simp_all add: str_chars_push_char)

lemma utf8_decode_bound: "\<forall>b \<in> set bs. b < 256 \<Longrightarrow> c \<in> set (utf8_decode bs) \<Longrightarrow> c < 2097152"
proof (induction bs arbitrary: c rule: utf8_decode.induct)
  case 1
  then show ?case by simp
next
  case (2 a bs)
  have m: "x mod 64 < 64" "x mod 32 < 32" "x mod 16 < 16" "x mod 8 < 8" for x :: nat by simp_all
  have b2: "(x mod 32) * 64 + y mod 64 < 2097152" for x y :: nat using m [of x] m [of y] by linarith
  have b3: "(x mod 16) * 4096 + (y mod 64) * 64 + z mod 64 < 2097152" for x y z :: nat
    using m [of x] m [of y] m [of z] by linarith
  have b4: "(x mod 8) * 262144 + (y mod 64) * 4096 + (z mod 64) * 64 + w mod 64 < 2097152"
    for x y z w :: nat using m [of x] m [of y] m [of z] m [of w] by linarith
  from 2 show ?case by (auto simp: b2 b3 b4 split: if_split_asm list.split_asm)
qed

lemma str_chars_bound: "c \<in> set (str_chars s) \<Longrightarrow> c < 2097152"
  by (rule utf8_decode_bound [of "map of_char s"]) (auto simp: str_chars_def)

lemma str_chars_ascii: "\<forall>c \<in> set s. (of_char c :: nat) < 128 \<Longrightarrow> str_chars s = map of_char s"
  by (induction s) (simp_all add: str_chars_def)

section \<open>Sorted lists without repetition\<close>

text \<open>\<^verbatim>\<open>sort\<close> followed by \<^verbatim>\<open>dedup\<close>.\<close>

definition sort_dedup :: "'a::linorder list \<Rightarrow> 'a list" where
  "sort_dedup xs = remdups_adj (sort xs)"

abbreviation ascending :: "'a::linorder list \<Rightarrow> bool" where
  "ascending xs \<equiv> sorted xs \<and> distinct xs"

lemma remdups_adj_sorted_distinct: "sorted (xs :: 'a::linorder list) \<Longrightarrow> distinct (remdups_adj xs)"
  by (induction xs rule: remdups_adj.induct) (auto simp: order.order_iff_strict)

lemma sort_dedup_ascending [simp]: "ascending (sort_dedup xs)"
  by (simp add: sort_dedup_def remdups_adj_sorted_distinct)

lemma sort_dedup_set [simp]: "set (sort_dedup xs) = set xs"
  by (simp add: sort_dedup_def)

lemma ascending_unique: "ascending xs \<Longrightarrow> ascending ys \<Longrightarrow> set xs = set ys \<Longrightarrow> xs = ys"
  by (rule sorted_distinct_set_unique) simp_all

lemma sort_dedup_ascending_id [simp]: "ascending xs \<Longrightarrow> sort_dedup xs = xs"
  by (rule ascending_unique) simp_all

lemma sort_dedup_Nil_iff [simp]: "sort_dedup xs = [] \<longleftrightarrow> xs = []"
  by (metis set_empty sort_dedup_set)

lemma sort_dedup_filter_append:
  assumes "ascending xs" "set ys \<inter> set xs = {}"
  shows "filter (\<lambda>x. x \<notin> set ys) (sort_dedup (xs @ ys)) = xs"
proof (rule ascending_unique)
  show "ascending (filter (\<lambda>x. x \<notin> set ys) (sort_dedup (xs @ ys)))"
    using sort_dedup_ascending [of "xs @ ys"] by (simp add: sorted_filter [where f = id, simplified])
qed (use assms in auto)

lemma length_sort_dedup: "length (sort_dedup xs) = card (set xs)"
  by (metis distinct_card sort_dedup_ascending sort_dedup_set)

lemma ascending_filter: "ascending xs \<Longrightarrow> ascending (filter P xs)"
  by (simp add: sorted_filter [where f = id, simplified])

section \<open>Enums with a wire spelling\<close>

locale wire_enum =
  fixes to_wire :: "'a \<Rightarrow> string"
    and from_wire :: "string \<Rightarrow> 'a option"
  assumes wire_roundtrip: "from_wire (to_wire x) = Some x"
    and wire_strict: "from_wire s = Some x \<Longrightarrow> to_wire x = s"
begin

lemma from_wire_iff: "from_wire s = Some x \<longleftrightarrow> s = to_wire x"
  using wire_roundtrip wire_strict by blast

lemma to_wire_eq_iff: "to_wire x = to_wire y \<longleftrightarrow> x = y"
  using wire_roundtrip by (metis option.inject)

lemma from_wire_None_iff: "from_wire s = None \<longleftrightarrow> (\<forall>x. s \<noteq> to_wire x)"
  using from_wire_iff by (metis not_Some_eq)

end

end
