(* ===== verification/Json.thy ===== *)
theory Json
  imports Prelude
begin

text \<open>
  The JSON data model the program computes with. A \<open>json\<close> value stands for a
  \<^verbatim>\<open>serde_json::Value\<close> and, with repeated keys kept in reading order, for the document a
  hand-written \<^verbatim>\<open>Visitor\<close> walks through. The text format itself (\<^verbatim>\<open>to_vec\<close>,
  \<^verbatim>\<open>from_slice\<close>) belongs to the serde crates and is a parameter wherever it is used.
\<close>

datatype jnumber = PosInt u64 | NegInt int | Float u64

datatype json =
    JNull
  | JBool bool
  | JNumber jnumber
  | JString string
  | JArray "json list"
  | JObject "(string \<times> json) list"

definition jget :: "json \<Rightarrow> string \<Rightarrow> json option" where
  "jget v k = (case v of JObject fs \<Rightarrow> map_of fs k | _ \<Rightarrow> None)"

text \<open>\<^verbatim>\<open>value["key"]\<close>: a missing key reads as \<^verbatim>\<open>null\<close>.\<close>

definition jindex :: "json \<Rightarrow> string \<Rightarrow> json" where
  "jindex v k = (case jget v k of None \<Rightarrow> JNull | Some x \<Rightarrow> x)"

definition as_str :: "json \<Rightarrow> string option" where
  "as_str v = (case v of JString s \<Rightarrow> Some s | _ \<Rightarrow> None)"

definition as_bool :: "json \<Rightarrow> bool option" where
  "as_bool v = (case v of JBool b \<Rightarrow> Some b | _ \<Rightarrow> None)"

definition as_u64 :: "json \<Rightarrow> u64 option" where
  "as_u64 v = (case v of JNumber (PosInt n) \<Rightarrow> Some n | _ \<Rightarrow> None)"

definition as_array :: "json \<Rightarrow> json list option" where
  "as_array v = (case v of JArray xs \<Rightarrow> Some xs | _ \<Rightarrow> None)"

definition is_object :: "json \<Rightarrow> bool" where
  "is_object v = (case v of JObject _ \<Rightarrow> True | _ \<Rightarrow> False)"

definition juint :: "u64 \<Rightarrow> json" where
  "juint n = JNumber (PosInt n)"

text \<open>\<^verbatim>\<open>Serialize for Option<T>\<close>: absence is \<^verbatim>\<open>null\<close>.\<close>

definition jopt :: "('a \<Rightarrow> json) \<Rightarrow> 'a option \<Rightarrow> json" where
  "jopt f v = (case v of None \<Rightarrow> JNull | Some x \<Rightarrow> f x)"

lemma jget_JObject [simp]: "jget (JObject fs) k = map_of fs k"
  by (simp add: jget_def)

lemma as_str_simps [simp]:
  "as_str (JString s) = Some s"
  "as_str v = Some s \<longleftrightarrow> v = JString s"
  "Some s = as_str v \<longleftrightarrow> v = JString s"
  by (auto simp: as_str_def split: json.splits)

lemma as_bool_simps [simp]:
  "as_bool (JBool b) = Some b"
  "as_bool v = Some b \<longleftrightarrow> v = JBool b"
  by (simp_all add: as_bool_def split: json.splits)

lemma as_u64_simps [simp]:
  "as_u64 (juint n) = Some n"
  "as_u64 v = Some n \<longleftrightarrow> v = juint n"
  "Some n = as_u64 v \<longleftrightarrow> v = juint n"
  by (auto simp: as_u64_def juint_def split: json.splits jnumber.splits)

lemma juint_inject [simp]: "juint a = juint b \<longleftrightarrow> a = b"
  by (simp add: juint_def)

lemma juint_distinct [simp]:
  "juint a \<noteq> JNull" "JNull \<noteq> juint a" "juint a \<noteq> JString s" "JString s \<noteq> juint a"
  by (simp_all add: juint_def)

lemma jopt_simps [simp]:
  "jopt f None = JNull"
  "jopt f (Some x) = f x"
  by (simp_all add: jopt_def)

section \<open>Typed reads of one value\<close>

text \<open>\<^verbatim>\<open>next_value::<T>()\<close> of a map visitor: the typed value, or no value when the JSON has
  another shape.\<close>

definition read_string :: "json \<Rightarrow> string option" where
  "read_string = as_str"

definition read_u64 :: "json \<Rightarrow> u64 option" where
  "read_u64 = as_u64"

definition read_option :: "(json \<Rightarrow> 'a option) \<Rightarrow> json \<Rightarrow> 'a option option" where
  "read_option f v = (case v of JNull \<Rightarrow> Some None | _ \<Rightarrow> map_option Some (f v))"

lemma read_simps [simp]:
  "read_string (JString s) = Some s"
  "read_u64 (juint n) = Some n"
  by (simp_all add: read_string_def read_u64_def)

lemma read_option_not_null: "v \<noteq> JNull \<Longrightarrow> read_option f v = map_option Some (f v)"
  by (simp add: read_option_def split: json.splits)

lemma read_option_jopt:
  "(\<And>x. f (g x) = Some x) \<Longrightarrow> (\<And>x. g x \<noteq> JNull) \<Longrightarrow> read_option f (jopt g v) = Some v"
  by (cases v) (simp_all add: read_option_not_null, simp add: read_option_def)

section \<open>Map visitors\<close>

text \<open>
  A hand-written \<^verbatim>\<open>visit_map\<close> is a loop over the document's fields that fills a record of
  slots. \<open>visit_fields\<close> is the loop; its first argument is the \<^verbatim>\<open>match\<close> on one field.
  The only deserialisation error is \<^verbatim>\<open>invalid_json\<close>, written \<open>None\<close>.
\<close>

fun visit_fields :: "(string \<Rightarrow> json \<Rightarrow> 's \<Rightarrow> 's option) \<Rightarrow> (string \<times> json) list \<Rightarrow> 's \<Rightarrow> 's option"
where
  "visit_fields step [] s = Some s"
| "visit_fields step ((k, v) # fs) s =
     (case step k v s of None \<Rightarrow> None | Some s' \<Rightarrow> visit_fields step fs s')"

definition deserialize_map ::
  "(string \<Rightarrow> json \<Rightarrow> 's \<Rightarrow> 's option) \<Rightarrow> 's \<Rightarrow> ('s \<Rightarrow> 'a option) \<Rightarrow> json \<Rightarrow> 'a option" where
  "deserialize_map step s0 finish v =
     (case v of JObject fs \<Rightarrow> Option.bind (visit_fields step fs s0) finish | _ \<Rightarrow> None)"

lemma deserialize_map_Some_iff:
  "deserialize_map step s0 finish v = Some x \<longleftrightarrow>
     (\<exists>fs s. v = JObject fs \<and> visit_fields step fs s0 = Some s \<and> finish s = Some x)"
  by (auto simp: deserialize_map_def bind_eq_Some_conv split: json.splits)

text \<open>The slot discipline of every visitor: a field is accepted only while its slot is still
  unseen, and accepting it marks exactly that slot.\<close>

locale field_visitor =
  fixes step :: "string \<Rightarrow> json \<Rightarrow> 's \<Rightarrow> 's option"
    and seen :: "'s \<Rightarrow> string \<Rightarrow> bool"
  assumes step_fresh: "step k v s = Some s' \<Longrightarrow> \<not> seen s k \<and> seen s' = (seen s)(k := True)"
begin

lemma visit_fields_seen:
  "visit_fields step fs s = Some s' \<Longrightarrow>
     distinct (map fst fs) \<and> (\<forall>k \<in> set (map fst fs). \<not> seen s k) \<and>
     (\<forall>k. seen s' k \<longleftrightarrow> seen s k \<or> k \<in> set (map fst fs))"
proof (induction fs arbitrary: s)
  case Nil
  then show ?case by simp
next
  case (Cons f fs)
  obtain k v where f: "f = (k, v)" by fastforce
  from Cons.prems f obtain s1 where s1: "step k v s = Some s1"
    and rest: "visit_fields step fs s1 = Some s'"
    by (auto split: option.splits)
  from step_fresh [OF s1] Cons.IH [OF rest] f show ?case by (auto split: if_splits)
qed

lemma accepted_fields:
  assumes "deserialize_map step s0 finish v = Some x"
    and "\<And>k. \<not> seen s0 k"
    and "\<And>s y k. finish s = Some y \<Longrightarrow> seen s k \<longleftrightarrow> k \<in> K y"
  shows "\<exists>fs. v = JObject fs \<and> distinct (map fst fs) \<and> set (map fst fs) = K x"
proof -
  from assms(1) obtain fs s where v: "v = JObject fs"
    and fs: "visit_fields step fs s0 = Some s" and x: "finish s = Some x"
    unfolding deserialize_map_Some_iff by blast
  from visit_fields_seen [OF fs] assms(2) assms(3) [OF x]
  have "distinct (map fst fs)" and "set (map fst fs) = K x" by auto
  with v show ?thesis by blast
qed

end

text \<open>One slot of a visitor: what it finally holds is the typed read of the field of its name.\<close>

locale visitor_slot = field_visitor +
  fixes key :: string
    and get :: "'a \<Rightarrow> 'v option"
    and reader :: "json \<Rightarrow> 'v option"
  assumes slot_step: "step k v s = Some s' \<Longrightarrow> get s' = (if k = key then reader v else get s)"
begin

lemma slot_value:
  "visit_fields step fs s = Some s' \<Longrightarrow>
     get s' = (case map_of fs key of None \<Rightarrow> get s | Some v \<Rightarrow> reader v)"
proof (induction fs arbitrary: s)
  case Nil
  then show ?case by simp
next
  case (Cons f fs)
  obtain k v where f: "f = (k, v)" by fastforce
  from Cons.prems f obtain s1 where s1: "step k v s = Some s1"
    and rest: "visit_fields step fs s1 = Some s'"
    by (auto split: option.splits)
  have "map_of fs key = None" if "k = key"
    using visit_fields_seen [OF Cons.prems] f that by (simp add: map_of_eq_None_iff)
  with slot_step [OF s1] Cons.IH [OF rest] f show ?case by (auto split: option.splits)
qed

end

end
