(* ===== verification/Activity_Operation.thy ===== *)
theory Activity_Operation
  imports Prelude
begin

text \<open>
  The operation names of the activity contract (\<^verbatim>\<open>src/src/activity/contract.rs\<close>): the
  enum \<^verbatim>\<open>ActivityOperation\<close>, the wire spelling its \<^verbatim>\<open>Serialize\<close> instance writes
  (snake case, with the renamed 1Password entries) and the literal \<^verbatim>\<open>match\<close> of its
  \<^verbatim>\<open>Deserialize\<close> instance, kept as the table of its arms in source order. The
  two are shown to be inverse to each other and interpret \<open>wire_enum\<close>.
\<close>

datatype (plugins only:) activity_operation =
    SessionStart
  | SessionStop
  | SessionRestart
  | SessionPermissionMode
  | SessionPermissionAllow
  | SessionPermissionRevoke
  | SessionPermissionGrant
  | SessionPermissionUngrant
  | SessionRestartPolicy
  | SessionForget
  | SessionCrash
  | SessionAutoRestart
  | SupervisorUpgrade
  | ReadFile
  | WriteFile
  | GitAdd
  | GitCommit
  | GitFetch
  | GitPull
  | GitPush
  | GitBranchCreate
  | GitBranchDelete
  | GitRemoteBranchDelete
  | GitSwitch
  | GitWorktreeAdd
  | GitWorktreeCreate
  | GitWorktreeList
  | GitWorktreeRemove
  | GitWorktreePrune
  | GithubWorkflowDispatch
  | GithubWorkflowRunGet
  | GithubPrList
  | GithubPrGet
  | GithubPrClose
  | Execute
  | StartCommand
  | StopJob
  | LocalAgentRun
  | DevToolRun
  | GetImage
  | EvidenceRead
  | RepositoryCloneBare
  | CodexStatus
  | CodexTaskStart
  | CodexTaskGet
  | CodexTaskControl
  | OpencodeStatus
  | OpencodeTaskStart
  | OpencodeTaskGet
  | OpencodeTaskControl
  | DevinStatus
  | DevinTaskStart
  | DevinTaskGet
  | DevinTaskControl
  | DevinCloudStatus
  | DevinCloudTaskStart
  | DevinCloudTaskGet
  | DevinCloudTaskControl
  | ListDirectory
  | ApplyPatch
  | PollJob
  | JobList
  | TaskList
  | CheckpointSave
  | CheckpointLoad
  | WorkHandoff
  | FrictionSummary
  | LearningCandidateList
  | Recall
  | RecallFeedback
  | OnePasswordMcpDiscover
  | OnePasswordMcpReadResource
  | OnePasswordMcpCall
  | OnePasswordItemGet
  | OnePasswordSecretResolve
  | OnePasswordServiceAccountStatus
  | OnePasswordServiceAccountRun
  | KintoneMcpStatus
  | KintoneMcpDiscover
  | KintoneMcpCall
  | KintoneCliStatus
  | KintoneCliRun
  | WithoutSandbox

primrec operation_wire :: "activity_operation \<Rightarrow> string" where
  "operation_wire SessionStart = ''session_start''"
| "operation_wire SessionStop = ''session_stop''"
| "operation_wire SessionRestart = ''session_restart''"
| "operation_wire SessionPermissionMode = ''session_permission_mode''"
| "operation_wire SessionPermissionAllow = ''session_permission_allow''"
| "operation_wire SessionPermissionRevoke = ''session_permission_revoke''"
| "operation_wire SessionPermissionGrant = ''session_permission_grant''"
| "operation_wire SessionPermissionUngrant = ''session_permission_ungrant''"
| "operation_wire SessionRestartPolicy = ''session_restart_policy''"
| "operation_wire SessionForget = ''session_forget''"
| "operation_wire SessionCrash = ''session_crash''"
| "operation_wire SessionAutoRestart = ''session_auto_restart''"
| "operation_wire SupervisorUpgrade = ''supervisor_upgrade''"
| "operation_wire ReadFile = ''read_file''"
| "operation_wire WriteFile = ''write_file''"
| "operation_wire GitAdd = ''git_add''"
| "operation_wire GitCommit = ''git_commit''"
| "operation_wire GitFetch = ''git_fetch''"
| "operation_wire GitPull = ''git_pull''"
| "operation_wire GitPush = ''git_push''"
| "operation_wire GitBranchCreate = ''git_branch_create''"
| "operation_wire GitBranchDelete = ''git_branch_delete''"
| "operation_wire GitRemoteBranchDelete = ''git_remote_branch_delete''"
| "operation_wire GitSwitch = ''git_switch''"
| "operation_wire GitWorktreeAdd = ''git_worktree_add''"
| "operation_wire GitWorktreeCreate = ''git_worktree_create''"
| "operation_wire GitWorktreeList = ''git_worktree_list''"
| "operation_wire GitWorktreeRemove = ''git_worktree_remove''"
| "operation_wire GitWorktreePrune = ''git_worktree_prune''"
| "operation_wire GithubWorkflowDispatch = ''github_workflow_dispatch''"
| "operation_wire GithubWorkflowRunGet = ''github_workflow_run_get''"
| "operation_wire GithubPrList = ''github_pr_list''"
| "operation_wire GithubPrGet = ''github_pr_get''"
| "operation_wire GithubPrClose = ''github_pr_close''"
| "operation_wire Execute = ''execute''"
| "operation_wire StartCommand = ''start_command''"
| "operation_wire StopJob = ''stop_job''"
| "operation_wire LocalAgentRun = ''local_agent_run''"
| "operation_wire DevToolRun = ''dev_tool_run''"
| "operation_wire GetImage = ''get_image''"
| "operation_wire EvidenceRead = ''evidence_read''"
| "operation_wire RepositoryCloneBare = ''repository_clone_bare''"
| "operation_wire CodexStatus = ''codex_status''"
| "operation_wire CodexTaskStart = ''codex_task_start''"
| "operation_wire CodexTaskGet = ''codex_task_get''"
| "operation_wire CodexTaskControl = ''codex_task_control''"
| "operation_wire OpencodeStatus = ''opencode_status''"
| "operation_wire OpencodeTaskStart = ''opencode_task_start''"
| "operation_wire OpencodeTaskGet = ''opencode_task_get''"
| "operation_wire OpencodeTaskControl = ''opencode_task_control''"
| "operation_wire DevinStatus = ''devin_status''"
| "operation_wire DevinTaskStart = ''devin_task_start''"
| "operation_wire DevinTaskGet = ''devin_task_get''"
| "operation_wire DevinTaskControl = ''devin_task_control''"
| "operation_wire DevinCloudStatus = ''devin_cloud_status''"
| "operation_wire DevinCloudTaskStart = ''devin_cloud_task_start''"
| "operation_wire DevinCloudTaskGet = ''devin_cloud_task_get''"
| "operation_wire DevinCloudTaskControl = ''devin_cloud_task_control''"
| "operation_wire ListDirectory = ''list_directory''"
| "operation_wire ApplyPatch = ''apply_patch''"
| "operation_wire PollJob = ''poll_job''"
| "operation_wire JobList = ''job_list''"
| "operation_wire TaskList = ''task_list''"
| "operation_wire CheckpointSave = ''checkpoint_save''"
| "operation_wire CheckpointLoad = ''checkpoint_load''"
| "operation_wire WorkHandoff = ''work_handoff''"
| "operation_wire FrictionSummary = ''friction_summary''"
| "operation_wire LearningCandidateList = ''learning_candidate_list''"
| "operation_wire Recall = ''recall''"
| "operation_wire RecallFeedback = ''recall_feedback''"
| "operation_wire OnePasswordMcpDiscover = ''onepassword_mcp_discover''"
| "operation_wire OnePasswordMcpReadResource = ''onepassword_mcp_read_resource''"
| "operation_wire OnePasswordMcpCall = ''onepassword_mcp_call''"
| "operation_wire OnePasswordItemGet = ''onepassword_item_get''"
| "operation_wire OnePasswordSecretResolve = ''onepassword_secret_resolve''"
| "operation_wire OnePasswordServiceAccountStatus = ''onepassword_service_account_status''"
| "operation_wire OnePasswordServiceAccountRun = ''onepassword_service_account_run''"
| "operation_wire KintoneMcpStatus = ''kintone_mcp_status''"
| "operation_wire KintoneMcpDiscover = ''kintone_mcp_discover''"
| "operation_wire KintoneMcpCall = ''kintone_mcp_call''"
| "operation_wire KintoneCliStatus = ''kintone_cli_status''"
| "operation_wire KintoneCliRun = ''kintone_cli_run''"
| "operation_wire WithoutSandbox = ''without_sandbox''"

definition operation_table :: "(string \<times> activity_operation) list" where
  "operation_table =
    [(''session_start'', SessionStart),
     (''session_stop'', SessionStop),
     (''session_restart'', SessionRestart),
     (''session_permission_mode'', SessionPermissionMode),
     (''session_permission_allow'', SessionPermissionAllow),
     (''session_permission_revoke'', SessionPermissionRevoke),
     (''session_permission_grant'', SessionPermissionGrant),
     (''session_permission_ungrant'', SessionPermissionUngrant),
     (''session_restart_policy'', SessionRestartPolicy),
     (''session_forget'', SessionForget),
     (''session_crash'', SessionCrash),
     (''session_auto_restart'', SessionAutoRestart),
     (''supervisor_upgrade'', SupervisorUpgrade),
     (''read_file'', ReadFile),
     (''write_file'', WriteFile),
     (''git_add'', GitAdd),
     (''git_commit'', GitCommit),
     (''git_fetch'', GitFetch),
     (''git_pull'', GitPull),
     (''git_push'', GitPush),
     (''git_branch_create'', GitBranchCreate),
     (''git_branch_delete'', GitBranchDelete),
     (''git_remote_branch_delete'', GitRemoteBranchDelete),
     (''git_switch'', GitSwitch),
     (''git_worktree_add'', GitWorktreeAdd),
     (''git_worktree_create'', GitWorktreeCreate),
     (''git_worktree_list'', GitWorktreeList),
     (''git_worktree_remove'', GitWorktreeRemove),
     (''git_worktree_prune'', GitWorktreePrune),
     (''github_workflow_dispatch'', GithubWorkflowDispatch),
     (''github_workflow_run_get'', GithubWorkflowRunGet),
     (''github_pr_list'', GithubPrList),
     (''github_pr_get'', GithubPrGet),
     (''github_pr_close'', GithubPrClose),
     (''execute'', Execute),
     (''start_command'', StartCommand),
     (''stop_job'', StopJob),
     (''local_agent_run'', LocalAgentRun),
     (''dev_tool_run'', DevToolRun),
     (''get_image'', GetImage),
     (''evidence_read'', EvidenceRead),
     (''repository_clone_bare'', RepositoryCloneBare),
     (''codex_status'', CodexStatus),
     (''codex_task_start'', CodexTaskStart),
     (''codex_task_get'', CodexTaskGet),
     (''codex_task_control'', CodexTaskControl),
     (''opencode_status'', OpencodeStatus),
     (''opencode_task_start'', OpencodeTaskStart),
     (''opencode_task_get'', OpencodeTaskGet),
     (''opencode_task_control'', OpencodeTaskControl),
     (''devin_status'', DevinStatus),
     (''devin_task_start'', DevinTaskStart),
     (''devin_task_get'', DevinTaskGet),
     (''devin_task_control'', DevinTaskControl),
     (''devin_cloud_status'', DevinCloudStatus),
     (''devin_cloud_task_start'', DevinCloudTaskStart),
     (''devin_cloud_task_get'', DevinCloudTaskGet),
     (''devin_cloud_task_control'', DevinCloudTaskControl),
     (''list_directory'', ListDirectory),
     (''apply_patch'', ApplyPatch),
     (''poll_job'', PollJob),
     (''job_list'', JobList),
     (''task_list'', TaskList),
     (''checkpoint_save'', CheckpointSave),
     (''checkpoint_load'', CheckpointLoad),
     (''work_handoff'', WorkHandoff),
     (''friction_summary'', FrictionSummary),
     (''learning_candidate_list'', LearningCandidateList),
     (''recall'', Recall),
     (''recall_feedback'', RecallFeedback),
     (''onepassword_mcp_discover'', OnePasswordMcpDiscover),
     (''onepassword_mcp_read_resource'', OnePasswordMcpReadResource),
     (''onepassword_mcp_call'', OnePasswordMcpCall),
     (''onepassword_item_get'', OnePasswordItemGet),
     (''onepassword_secret_resolve'', OnePasswordSecretResolve),
     (''onepassword_service_account_status'', OnePasswordServiceAccountStatus),
     (''onepassword_service_account_run'', OnePasswordServiceAccountRun),
     (''kintone_mcp_status'', KintoneMcpStatus),
     (''kintone_mcp_discover'', KintoneMcpDiscover),
     (''kintone_mcp_call'', KintoneMcpCall),
     (''kintone_cli_status'', KintoneCliStatus),
     (''kintone_cli_run'', KintoneCliRun),
     (''without_sandbox'', WithoutSandbox)]"

definition operation_from_wire :: "string \<Rightarrow> activity_operation option" where
  "operation_from_wire s = map_of operation_table s"

lemma operation_table_distinct: "distinct (map fst operation_table)"
  unfolding operation_table_def by (simp only: list.map fst_conv) code_simp

lemma operation_table_wire: "list_all (\<lambda>(w, x). operation_wire x = w) operation_table"
  unfolding operation_table_def by (simp only: list.pred_inject operation_wire.simps prod.case)

lemma operation_table_complete: "x \<in> set (map snd operation_table)"
  unfolding operation_table_def by (cases x) simp_all

lemma operation_in_table: "(operation_wire x, x) \<in> set operation_table"
proof -
  from operation_table_complete obtain w where "(w, x) \<in> set operation_table"
    by (metis imageE list.set_map prod.collapse)
  moreover with operation_table_wire have "operation_wire x = w"
    by (auto simp: list_all_iff)
  ultimately show ?thesis by simp
qed

interpretation operation_wire_enum: wire_enum operation_wire operation_from_wire
proof unfold_locales
  fix x
  show "operation_from_wire (operation_wire x) = Some x"
    unfolding operation_from_wire_def
    using operation_table_distinct operation_in_table by (rule map_of_is_SomeI)
next
  fix s x
  assume "operation_from_wire s = Some x"
  then have "(s, x) \<in> set operation_table"
    unfolding operation_from_wire_def by (rule map_of_SomeD)
  with operation_table_wire show "operation_wire x = s"
    by (auto simp: list_all_iff)
qed

text \<open>Equality of operations is equality of their wire spelling.\<close>

instantiation activity_operation :: equal
begin

definition equal_activity_operation_def:
  "equal_class.equal x y \<longleftrightarrow> operation_wire x = operation_wire y"

instance
  by standard (simp add: equal_activity_operation_def operation_wire_enum.to_wire_eq_iff)

end

end
