(* ===== verification/Activity_Contract.thy ===== *)
theory Activity_Contract
  imports Json Activity_Operation
begin

text \<open>
  The activity wire contract, \<^verbatim>\<open>src/src/activity/contract.rs\<close>: typed updates and events,
  their validation, their serialisation and the hand-written visitors that read them back.
  Documents are \<open>json\<close> values; the text format (\<^verbatim>\<open>serde_json\<close>) and the textual form of a
  UUID are the parameters collected in the record \<open>serde\<close>.
\<close>

section \<open>Enums\<close>

datatype contract_error = UnknownSchema | InvalidValue | InvalidSummary | TooLarge | InvalidJson

datatype activity_state = Started | WaitingApproval | Running | Completed | Failed | Cancelled

primrec state_wire :: "activity_state \<Rightarrow> string" where
  "state_wire Started = ''started''"
| "state_wire WaitingApproval = ''waiting_approval''"
| "state_wire Running = ''running''"
| "state_wire Completed = ''completed''"
| "state_wire Failed = ''failed''"
| "state_wire Cancelled = ''cancelled''"

definition state_from_wire :: "string \<Rightarrow> activity_state option" where
  "state_from_wire s =
     (if s = ''started'' then Some Started
      else if s = ''waiting_approval'' then Some WaitingApproval
      else if s = ''running'' then Some Running
      else if s = ''completed'' then Some Completed
      else if s = ''failed'' then Some Failed
      else if s = ''cancelled'' then Some Cancelled
      else None)"

datatype activity_error_kind =
    InvalidInput | SandboxDenied | ApprovalDenied | RuntimeUnavailable
  | ChildFailed | SandboxSetupFailed | ProtocolFailed | OperationFailed

primrec error_kind_as_str :: "activity_error_kind \<Rightarrow> string" where
  "error_kind_as_str InvalidInput = ''invalid_input''"
| "error_kind_as_str SandboxDenied = ''sandbox_denied''"
| "error_kind_as_str ApprovalDenied = ''approval_denied''"
| "error_kind_as_str RuntimeUnavailable = ''runtime_unavailable''"
| "error_kind_as_str ChildFailed = ''child_failed''"
| "error_kind_as_str SandboxSetupFailed = ''sandbox_setup_failed''"
| "error_kind_as_str ProtocolFailed = ''protocol_failed''"
| "error_kind_as_str OperationFailed = ''operation_failed''"

definition error_kind_from_wire :: "string \<Rightarrow> activity_error_kind option" where
  "error_kind_from_wire s =
     (if s = ''invalid_input'' then Some InvalidInput
      else if s = ''sandbox_denied'' then Some SandboxDenied
      else if s = ''approval_denied'' then Some ApprovalDenied
      else if s = ''runtime_unavailable'' then Some RuntimeUnavailable
      else if s = ''child_failed'' then Some ChildFailed
      else if s = ''sandbox_setup_failed'' then Some SandboxSetupFailed
      else if s = ''protocol_failed'' then Some ProtocolFailed
      else if s = ''operation_failed'' then Some OperationFailed
      else None)"

datatype activity_remote = Origin | Other

primrec remote_wire :: "activity_remote \<Rightarrow> string" where
  "remote_wire Origin = ''origin''"
| "remote_wire Other = ''other''"

definition remote_from_wire :: "string \<Rightarrow> activity_remote option" where
  "remote_from_wire s =
     (if s = ''origin'' then Some Origin else if s = ''other'' then Some Other else None)"

datatype activity_cancellation_reason = StopRequested | SessionStopped | Timeout

primrec reason_wire :: "activity_cancellation_reason \<Rightarrow> string" where
  "reason_wire StopRequested = ''stop_requested''"
| "reason_wire SessionStopped = ''session_stopped''"
| "reason_wire Timeout = ''timeout''"

definition reason_from_wire :: "string \<Rightarrow> activity_cancellation_reason option" where
  "reason_from_wire s =
     (if s = ''stop_requested'' then Some StopRequested
      else if s = ''session_stopped'' then Some SessionStopped
      else if s = ''timeout'' then Some Timeout
      else None)"

datatype activity_result = Accepted

primrec result_wire :: "activity_result \<Rightarrow> string" where
  "result_wire Accepted = ''accepted''"

definition result_from_wire :: "string \<Rightarrow> activity_result option" where
  "result_from_wire s = (if s = ''accepted'' then Some Accepted else None)"

datatype activity_upgrade_phase =
    Committed | SupervisorHandoff | SessionsVerifying
  | IngressRestarting | EndpointVerifying | PluginReconciling

primrec phase_wire :: "activity_upgrade_phase \<Rightarrow> string" where
  "phase_wire Committed = ''committed''"
| "phase_wire SupervisorHandoff = ''supervisor_handoff''"
| "phase_wire SessionsVerifying = ''sessions_verifying''"
| "phase_wire IngressRestarting = ''ingress_restarting''"
| "phase_wire EndpointVerifying = ''endpoint_verifying''"
| "phase_wire PluginReconciling = ''plugin_reconciling''"

definition phase_from_wire :: "string \<Rightarrow> activity_upgrade_phase option" where
  "phase_from_wire s =
     (if s = ''committed'' then Some Committed
      else if s = ''supervisor_handoff'' then Some SupervisorHandoff
      else if s = ''sessions_verifying'' then Some SessionsVerifying
      else if s = ''ingress_restarting'' then Some IngressRestarting
      else if s = ''endpoint_verifying'' then Some EndpointVerifying
      else if s = ''plugin_reconciling'' then Some PluginReconciling
      else None)"

interpretation state_enum: wire_enum state_wire state_from_wire
  by unfold_locales (rename_tac x, case_tac x, auto simp: state_from_wire_def split: if_splits)

interpretation error_kind_enum: wire_enum error_kind_as_str error_kind_from_wire
  by unfold_locales (rename_tac x, case_tac x, auto simp: error_kind_from_wire_def split: if_splits)

interpretation remote_enum: wire_enum remote_wire remote_from_wire
  by unfold_locales (rename_tac x, case_tac x, auto simp: remote_from_wire_def split: if_splits)

interpretation reason_enum: wire_enum reason_wire reason_from_wire
  by unfold_locales (rename_tac x, case_tac x, auto simp: reason_from_wire_def split: if_splits)

interpretation result_enum: wire_enum result_wire result_from_wire
  by unfold_locales (rename_tac x, case_tac x, auto simp: result_from_wire_def split: if_splits)

interpretation phase_enum: wire_enum phase_wire phase_from_wire
  by unfold_locales (rename_tac x, case_tac x, auto simp: phase_from_wire_def split: if_splits)

lemmas wire_roundtrips [simp] =
  state_enum.wire_roundtrip error_kind_enum.wire_roundtrip remote_enum.wire_roundtrip
  reason_enum.wire_roundtrip result_enum.wire_roundtrip phase_enum.wire_roundtrip
  operation_wire_enum.wire_roundtrip

section \<open>Summaries\<close>

datatype activity_summary =
    Empty
  | Failure activity_error_kind
  | Git activity_remote
  | Cancellation activity_cancellation_reason
  | Result activity_result
  | UpgradePhase activity_upgrade_phase

text \<open>The derived \<^verbatim>\<open>Serialize\<close> instance: internally tagged with \<^verbatim>\<open>kind\<close>.\<close>

primrec summary_fields :: "activity_summary \<Rightarrow> (string \<times> json) list" where
  "summary_fields Empty = [(''kind'', JString ''empty'')]"
| "summary_fields (Failure k) =
     [(''kind'', JString ''failure''), (''error'', JString (error_kind_as_str k))]"
| "summary_fields (Git r) = [(''kind'', JString ''git''), (''remote'', JString (remote_wire r))]"
| "summary_fields (Cancellation r) =
     [(''kind'', JString ''cancellation''), (''reason'', JString (reason_wire r))]"
| "summary_fields (Result r) =
     [(''kind'', JString ''result''), (''result'', JString (result_wire r))]"
| "summary_fields (UpgradePhase p) =
     [(''kind'', JString ''upgrade_phase''), (''phase'', JString (phase_wire p))]"

definition serialize_summary :: "activity_summary \<Rightarrow> json" where
  "serialize_summary s = JObject (summary_fields s)"

definition set_once :: "'a option \<Rightarrow> 'a option \<Rightarrow> 'a option option" where
  "set_once slot value =
     (if slot \<noteq> None then None else (case value of None \<Rightarrow> None | Some v \<Rightarrow> Some (Some v)))"

lemma set_once_Some [simp]:
  "set_once slot value = Some r \<longleftrightarrow> slot = None \<and> (\<exists>v. value = Some v \<and> r = Some v)"
  by (auto simp: set_once_def split: option.splits)

record summary_slots =
  sl_kind :: "string option"
  sl_error :: "string option"
  sl_remote :: "string option"
  sl_reason :: "string option"
  sl_result :: "string option"
  sl_phase :: "string option"

definition no_summary_slots :: summary_slots where
  "no_summary_slots = \<lparr>sl_kind = None, sl_error = None, sl_remote = None, sl_reason = None,
     sl_result = None, sl_phase = None\<rparr>"

definition summary_visit_field :: "string \<Rightarrow> json \<Rightarrow> summary_slots \<Rightarrow> summary_slots option" where
  "summary_visit_field k v s =
     (if k = ''kind'' then map_option (\<lambda>x. s\<lparr>sl_kind := x\<rparr>) (set_once (sl_kind s) (read_string v))
      else if k = ''error'' then
        map_option (\<lambda>x. s\<lparr>sl_error := x\<rparr>) (set_once (sl_error s) (read_string v))
      else if k = ''remote'' then
        map_option (\<lambda>x. s\<lparr>sl_remote := x\<rparr>) (set_once (sl_remote s) (read_string v))
      else if k = ''reason'' then
        map_option (\<lambda>x. s\<lparr>sl_reason := x\<rparr>) (set_once (sl_reason s) (read_string v))
      else if k = ''result'' then
        map_option (\<lambda>x. s\<lparr>sl_result := x\<rparr>) (set_once (sl_result s) (read_string v))
      else if k = ''phase'' then
        map_option (\<lambda>x. s\<lparr>sl_phase := x\<rparr>) (set_once (sl_phase s) (read_string v))
      else None)"

definition summary_of_slots :: "summary_slots \<Rightarrow> activity_summary option" where
  "summary_of_slots s =
     (case sl_kind s of
        None \<Rightarrow> None
      | Some kind \<Rightarrow>
          (if kind = ''empty'' \<and> sl_error s = None \<and> sl_remote s = None \<and> sl_reason s = None
              \<and> sl_result s = None \<and> sl_phase s = None
           then Some Empty
           else if kind = ''failure'' \<and> sl_error s \<noteq> None \<and> sl_remote s = None
              \<and> sl_reason s = None \<and> sl_result s = None \<and> sl_phase s = None
           then Option.bind (sl_error s) (\<lambda>e. map_option Failure (error_kind_from_wire e))
           else if kind = ''git'' \<and> sl_error s = None \<and> sl_remote s \<noteq> None
              \<and> sl_reason s = None \<and> sl_result s = None \<and> sl_phase s = None
           then Option.bind (sl_remote s) (\<lambda>e. map_option Git (remote_from_wire e))
           else if kind = ''cancellation'' \<and> sl_error s = None \<and> sl_remote s = None
              \<and> sl_reason s \<noteq> None \<and> sl_result s = None \<and> sl_phase s = None
           then Option.bind (sl_reason s) (\<lambda>e. map_option Cancellation (reason_from_wire e))
           else if kind = ''result'' \<and> sl_error s = None \<and> sl_remote s = None
              \<and> sl_reason s = None \<and> sl_result s \<noteq> None \<and> sl_phase s = None
           then Option.bind (sl_result s) (\<lambda>e. map_option Result (result_from_wire e))
           else if kind = ''upgrade_phase'' \<and> sl_error s = None \<and> sl_remote s = None
              \<and> sl_reason s = None \<and> sl_result s = None \<and> sl_phase s \<noteq> None
           then Option.bind (sl_phase s) (\<lambda>e. map_option UpgradePhase (phase_from_wire e))
           else None))"

definition deserialize_summary :: "json \<Rightarrow> activity_summary option" where
  "deserialize_summary = deserialize_map summary_visit_field no_summary_slots summary_of_slots"

definition summary_seen :: "summary_slots \<Rightarrow> string \<Rightarrow> bool" where
  "summary_seen s k \<longleftrightarrow>
     (k = ''kind'' \<and> sl_kind s \<noteq> None) \<or> (k = ''error'' \<and> sl_error s \<noteq> None)
     \<or> (k = ''remote'' \<and> sl_remote s \<noteq> None) \<or> (k = ''reason'' \<and> sl_reason s \<noteq> None)
     \<or> (k = ''result'' \<and> sl_result s \<noteq> None) \<or> (k = ''phase'' \<and> sl_phase s \<noteq> None)"

lemma summary_visit_field_key:
  "summary_visit_field k v s = Some s' \<Longrightarrow>
     k = ''kind'' \<or> k = ''error'' \<or> k = ''remote'' \<or> k = ''reason'' \<or> k = ''result'' \<or> k = ''phase''"
  by (simp add: summary_visit_field_def split: if_split_asm)

lemma summary_visit_field_seen:
  assumes "summary_visit_field k v s = Some s'"
  shows "\<not> summary_seen s k" and "summary_seen s' j = (summary_seen s j \<or> j = k)"
proof -
  have "\<not> summary_seen s k \<and> summary_seen s' j = (summary_seen s j \<or> j = k)"
    using summary_visit_field_key [OF assms] assms
    by (elim disjE; cases "j = k"; clarsimp simp: summary_visit_field_def summary_seen_def)
  then show "\<not> summary_seen s k" and "summary_seen s' j = (summary_seen s j \<or> j = k)"
    by simp_all
qed

interpretation summary_visitor: field_visitor summary_visit_field summary_seen
  by unfold_locales (simp add: summary_visit_field_seen fun_eq_iff)

lemma summary_visit_roundtrip: "deserialize_summary (serialize_summary s) = Some s"
  by (cases s)
    (simp_all add: deserialize_summary_def serialize_summary_def deserialize_map_def
      summary_visit_field_def no_summary_slots_def summary_of_slots_def set_once_def)

lemma summary_of_slots_seen:
  "summary_of_slots s = Some x \<Longrightarrow> summary_seen s k \<longleftrightarrow> k \<in> set (map fst (summary_fields x))"
  by (cases x; simp add: summary_seen_def summary_of_slots_def bind_eq_Some_conv
      split: option.split_asm if_split_asm)

lemma deserialize_summary_fields:
  assumes "deserialize_summary v = Some s"
  shows "\<exists>fs. v = JObject fs \<and> distinct (map fst fs) \<and> set (map fst fs) = set (map fst (summary_fields s))"
  using assms unfolding deserialize_summary_def
proof (rule summary_visitor.accepted_fields)
  show "\<not> summary_seen no_summary_slots k" for k
    by (simp add: summary_seen_def no_summary_slots_def)
qed (rule summary_of_slots_seen)

fun as_safe_summary :: "activity_summary \<Rightarrow> string" where
  "as_safe_summary Empty = []"
| "as_safe_summary (Failure InvalidInput) = ''error=invalid_input''"
| "as_safe_summary (Failure SandboxDenied) = ''error=sandbox_denied''"
| "as_safe_summary (Failure ApprovalDenied) = ''error=approval_denied''"
| "as_safe_summary (Failure RuntimeUnavailable) = ''error=runtime_unavailable''"
| "as_safe_summary (Failure ChildFailed) = ''error=child_failed''"
| "as_safe_summary (Failure SandboxSetupFailed) = ''error=sandbox_setup_failed''"
| "as_safe_summary (Failure ProtocolFailed) = ''error=protocol_failed''"
| "as_safe_summary (Failure OperationFailed) = ''error=operation_failed''"
| "as_safe_summary (Git Origin) = ''remote=origin''"
| "as_safe_summary (Git Other) = ''remote=other''"
| "as_safe_summary (Cancellation StopRequested) = ''reason=stop_requested''"
| "as_safe_summary (Cancellation SessionStopped) = ''reason=session_stopped''"
| "as_safe_summary (Cancellation Timeout) = ''reason=timeout''"
| "as_safe_summary (Result Accepted) = ''result=accepted''"
| "as_safe_summary (UpgradePhase Committed) = ''phase=committed''"
| "as_safe_summary (UpgradePhase SupervisorHandoff) = ''phase=supervisor_handoff''"
| "as_safe_summary (UpgradePhase SessionsVerifying) = ''phase=sessions_verifying''"
| "as_safe_summary (UpgradePhase IngressRestarting) = ''phase=ingress_restarting''"
| "as_safe_summary (UpgradePhase EndpointVerifying) = ''phase=endpoint_verifying''"
| "as_safe_summary (UpgradePhase PluginReconciling) = ''phase=plugin_reconciling''"

section \<open>Validation\<close>

definition ACTIVITY_SCHEMA_VERSION :: u64 where "ACTIVITY_SCHEMA_VERSION = 1"

definition MAX_ACTIVITY_SUMMARY_BYTES :: nat where "MAX_ACTIVITY_SUMMARY_BYTES = 512"

definition MAX_ACTIVITY_EVENT_BYTES :: nat where "MAX_ACTIVITY_EVENT_BYTES = 2048"

definition terminal_state :: "activity_state \<Rightarrow> bool" where
  "terminal_state st = (st = Completed \<or> st = Failed \<or> st = Cancelled)"

definition validate_duration :: "activity_state \<Rightarrow> u64 option \<Rightarrow> contract_error + unit" where
  "validate_duration st duration =
     (if terminal_state st = (duration = None) then Inl InvalidValue else Inr ())"

definition session_id_byte :: "char \<Rightarrow> bool" where
  "session_id_byte c = (is_ascii_alphanumeric c \<or> c = CHR ''-'' \<or> c = CHR ''_'' \<or> c = CHR ''.'')"

definition validate_session_identity ::
  "string option \<Rightarrow> uuid option \<Rightarrow> contract_error + unit" where
  "validate_session_identity session_id session_instance =
     (case session_id of
        None \<Rightarrow> (if session_instance = None then Inr () else Inl InvalidValue)
      | Some sid \<Rightarrow>
          (if \<not> (1 \<le> length sid \<and> length sid \<le> 64) \<or> sid = ''.'' \<or> sid = ''..''
              \<or> \<not> list_all session_id_byte sid
           then Inl InvalidValue else Inr ()))"

text \<open>Control characters and the bidirectional formatting characters.\<close>

definition unsafe_char :: "nat \<Rightarrow> bool" where
  "unsafe_char c = (is_control c \<or> c = 0x061c \<or> c = 0x200e \<or> c = 0x200f
     \<or> (0x202a \<le> c \<and> c \<le> 0x202e) \<or> (0x2066 \<le> c \<and> c \<le> 0x2069))"

definition validate_safe_summary :: "string \<Rightarrow> contract_error + unit" where
  "validate_safe_summary summary =
     (if MAX_ACTIVITY_SUMMARY_BYTES < length summary \<or> list_ex unsafe_char (str_chars summary)
      then Inl InvalidSummary else Inr ())"

section \<open>Updates, stamps and events\<close>

record activity_update =
  au_schema_version :: u64
  au_operation_id :: uuid
  au_operation :: activity_operation
  au_state :: activity_state
  au_duration_ms :: "u64 option"
  au_summary :: activity_summary

record event_stamp =
  es_sequence :: u64
  es_timestamp_ms :: u64
  es_session_id :: "string option"
  es_session_instance :: "uuid option"

record activity_event =
  ev_schema_version :: u64
  ev_sequence :: u64
  ev_operation_id :: uuid
  ev_timestamp_ms :: u64
  ev_session_id :: "string option"
  ev_session_instance :: "uuid option"
  ev_operation :: activity_operation
  ev_state :: activity_state
  ev_duration_ms :: "u64 option"
  ev_safe_summary :: string

definition validate_update :: "activity_update \<Rightarrow> contract_error + unit" where
  "validate_update u =
     (if au_schema_version u \<noteq> ACTIVITY_SCHEMA_VERSION then Inl UnknownSchema
      else and_then (validate_duration (au_state u) (au_duration_ms u))
        (\<lambda>_. validate_safe_summary (as_safe_summary (au_summary u))))"

definition validate_stamp :: "event_stamp \<Rightarrow> contract_error + unit" where
  "validate_stamp st =
     (if es_sequence st = 0 then Inl InvalidValue
      else validate_session_identity (es_session_id st) (es_session_instance st))"

definition validate_event :: "activity_event \<Rightarrow> contract_error + unit" where
  "validate_event e =
     (if ev_schema_version e \<noteq> ACTIVITY_SCHEMA_VERSION then Inl UnknownSchema
      else if ev_sequence e = 0 then Inl InvalidValue
      else and_then (validate_duration (ev_state e) (ev_duration_ms e))
        (\<lambda>_. and_then (validate_session_identity (ev_session_id e) (ev_session_instance e))
          (\<lambda>_. validate_safe_summary (ev_safe_summary e))))"

definition update_with_schema_version ::
  "u64 \<Rightarrow> uuid \<Rightarrow> activity_operation \<Rightarrow> activity_state \<Rightarrow> u64 option \<Rightarrow> activity_summary
     \<Rightarrow> contract_error + activity_update" where
  "update_with_schema_version v oid op st duration summary =
     (let u = \<lparr>au_schema_version = v, au_operation_id = oid, au_operation = op, au_state = st,
        au_duration_ms = duration, au_summary = summary\<rparr>
      in and_then (validate_update u) (\<lambda>_. Inr u))"

definition update_new ::
  "uuid \<Rightarrow> activity_operation \<Rightarrow> activity_state \<Rightarrow> u64 option \<Rightarrow> activity_summary
     \<Rightarrow> contract_error + activity_update" where
  "update_new = update_with_schema_version ACTIVITY_SCHEMA_VERSION"

definition stamp_new ::
  "u64 \<Rightarrow> u64 \<Rightarrow> string option \<Rightarrow> uuid option \<Rightarrow> contract_error + event_stamp" where
  "stamp_new sequence timestamp session_id session_instance =
     (let st = \<lparr>es_sequence = sequence, es_timestamp_ms = timestamp, es_session_id = session_id,
        es_session_instance = session_instance\<rparr>
      in and_then (validate_stamp st) (\<lambda>_. Inr st))"

definition event_of :: "activity_update \<Rightarrow> event_stamp \<Rightarrow> activity_event" where
  "event_of u st = \<lparr>ev_schema_version = au_schema_version u, ev_sequence = es_sequence st,
     ev_operation_id = au_operation_id u, ev_timestamp_ms = es_timestamp_ms st,
     ev_session_id = es_session_id st, ev_session_instance = es_session_instance st,
     ev_operation = au_operation u, ev_state = au_state u, ev_duration_ms = au_duration_ms u,
     ev_safe_summary = as_safe_summary (au_summary u)\<rparr>"

definition event_from_update :: "activity_update \<Rightarrow> event_stamp \<Rightarrow> contract_error + activity_event" where
  "event_from_update u st =
     and_then (validate_update u) (\<lambda>_.
     and_then (validate_stamp st) (\<lambda>_.
     and_then (validate_event (event_of u st)) (\<lambda>_. Inr (event_of u st))))"

text \<open>Every typed summary renders to text that passes its own check, so an update fails only
  on its schema version or on the presence of a duration.\<close>

lemma safe_summary_valid [simp]: "validate_safe_summary (as_safe_summary s) = Inr ()"
  by (cases s rule: as_safe_summary.cases)
    (simp_all add: validate_safe_summary_def MAX_ACTIVITY_SUMMARY_BYTES_def str_chars_def
      unsafe_char_def is_control_def)

lemma validate_duration_ok [simp]:
  "validate_duration st d = Inr u \<longleftrightarrow> (terminal_state st \<longleftrightarrow> d \<noteq> None)"
  by (auto simp: validate_duration_def)

lemma validate_update_ok:
  "validate_update u = Inr () \<longleftrightarrow>
     au_schema_version u = ACTIVITY_SCHEMA_VERSION \<and>
     (terminal_state (au_state u) \<longleftrightarrow> au_duration_ms u \<noteq> None)"
  by (auto simp: validate_update_def)

lemma validate_event_ok:
  "validate_event e = Inr () \<longleftrightarrow>
     ev_schema_version e = ACTIVITY_SCHEMA_VERSION \<and> ev_sequence e \<noteq> 0 \<and>
     (terminal_state (ev_state e) \<longleftrightarrow> ev_duration_ms e \<noteq> None) \<and>
     validate_session_identity (ev_session_id e) (ev_session_instance e) = Inr () \<and>
     validate_safe_summary (ev_safe_summary e) = Inr ()"
  by (auto simp: validate_event_def)

lemma validate_stamp_ok:
  "validate_stamp st = Inr () \<longleftrightarrow>
     es_sequence st \<noteq> 0 \<and> validate_session_identity (es_session_id st) (es_session_instance st) = Inr ()"
  by (auto simp: validate_stamp_def)

lemma stamp_new_Inr_iff:
  "stamp_new q t sid inst = Inr st \<longleftrightarrow>
     q \<noteq> 0 \<and> validate_session_identity sid inst = Inr () \<and>
     st = \<lparr>es_sequence = q, es_timestamp_ms = t, es_session_id = sid, es_session_instance = inst\<rparr>"
  by (auto simp: stamp_new_def Let_def validate_stamp_ok)

lemma update_new_Inr_iff:
  "update_new oid op st d s = Inr u \<longleftrightarrow>
     (terminal_state st \<longleftrightarrow> d \<noteq> None) \<and>
     u = \<lparr>au_schema_version = ACTIVITY_SCHEMA_VERSION, au_operation_id = oid, au_operation = op,
       au_state = st, au_duration_ms = d, au_summary = s\<rparr>"
  by (auto simp: update_new_def update_with_schema_version_def Let_def validate_update_ok)

lemma event_of_valid:
  "validate_update u = Inr () \<Longrightarrow> validate_stamp st = Inr () \<Longrightarrow> validate_event (event_of u st) = Inr ()"
  by (simp add: validate_update_ok validate_stamp_ok validate_event_ok event_of_def)

lemma event_from_update_ok:
  "validate_update u = Inr () \<Longrightarrow> validate_stamp st = Inr () \<Longrightarrow>
     event_from_update u st = Inr (event_of u st)"
  by (simp add: event_from_update_def event_of_valid)

section \<open>Wire format\<close>

text \<open>
  What the contract takes from the serde and uuid crates: the textual form of a UUID and the
  JSON text of a document. \<open>from_slice\<close> yields the document with its fields in reading
  order, repeated ones included, which is what the visitors walk through.
\<close>

record serde =
  uuid_print :: "uuid \<Rightarrow> string"
  uuid_parse :: "string \<Rightarrow> uuid option"
  to_vec :: "json \<Rightarrow> string"
  from_slice :: "string \<Rightarrow> json option"

definition uuid_roundtrips :: "serde \<Rightarrow> uuid \<Rightarrow> bool" where
  "uuid_roundtrips S u = (uuid_parse S (uuid_print S u) = Some u)"

definition json_roundtrips :: "serde \<Rightarrow> json \<Rightarrow> bool" where
  "json_roundtrips S j = (from_slice S (to_vec S j) = Some j)"

definition juuid :: "serde \<Rightarrow> uuid \<Rightarrow> json" where
  "juuid S u = JString (uuid_print S u)"

definition read_uuid :: "serde \<Rightarrow> json \<Rightarrow> uuid option" where
  "read_uuid S v = Option.bind (as_str v) (uuid_parse S)"

definition read_operation :: "json \<Rightarrow> activity_operation option" where
  "read_operation v = Option.bind (as_str v) operation_from_wire"

definition read_state :: "json \<Rightarrow> activity_state option" where
  "read_state v = Option.bind (as_str v) state_from_wire"

definition update_fields :: "serde \<Rightarrow> activity_update \<Rightarrow> (string \<times> json) list" where
  "update_fields S u =
     [(''schema_version'', juint (au_schema_version u)),
      (''operation_id'', juuid S (au_operation_id u)),
      (''operation'', JString (operation_wire (au_operation u))),
      (''state'', JString (state_wire (au_state u))),
      (''duration_ms'', jopt juint (au_duration_ms u)),
      (''summary'', serialize_summary (au_summary u))]"

definition serialize_update :: "serde \<Rightarrow> activity_update \<Rightarrow> json" where
  "serialize_update S u = JObject (update_fields S u)"

record update_slots =
  uw_schema_version :: "u64 option"
  uw_operation_id :: "uuid option"
  uw_operation :: "activity_operation option"
  uw_state :: "activity_state option"
  uw_duration_ms :: "u64 option"
  uw_duration_seen :: bool
  uw_summary :: "activity_summary option"

definition no_update_slots :: update_slots where
  "no_update_slots = \<lparr>uw_schema_version = None, uw_operation_id = None, uw_operation = None,
     uw_state = None, uw_duration_ms = None, uw_duration_seen = False, uw_summary = None\<rparr>"

definition update_visit_field :: "serde \<Rightarrow> string \<Rightarrow> json \<Rightarrow> update_slots \<Rightarrow> update_slots option" where
  "update_visit_field S k v s =
     (if k = ''schema_version'' then
        map_option (\<lambda>x. s\<lparr>uw_schema_version := x\<rparr>) (set_once (uw_schema_version s) (read_u64 v))
      else if k = ''operation_id'' then
        map_option (\<lambda>x. s\<lparr>uw_operation_id := x\<rparr>) (set_once (uw_operation_id s) (read_uuid S v))
      else if k = ''operation'' then
        map_option (\<lambda>x. s\<lparr>uw_operation := x\<rparr>) (set_once (uw_operation s) (read_operation v))
      else if k = ''state'' then
        map_option (\<lambda>x. s\<lparr>uw_state := x\<rparr>) (set_once (uw_state s) (read_state v))
      else if k = ''duration_ms'' then
        (if uw_duration_seen s then None
         else map_option (\<lambda>x. s\<lparr>uw_duration_seen := True, uw_duration_ms := x\<rparr>)
           (read_option read_u64 v))
      else if k = ''summary'' then
        map_option (\<lambda>x. s\<lparr>uw_summary := x\<rparr>) (set_once (uw_summary s) (deserialize_summary v))
      else None)"

definition update_of_slots :: "update_slots \<Rightarrow> activity_update option" where
  "update_of_slots s =
     (if \<not> uw_duration_seen s then None
      else case (uw_schema_version s, uw_operation_id s, uw_operation s, uw_state s, uw_summary s) of
        (Some v, Some oid, Some op, Some st, Some sm) \<Rightarrow>
          Some \<lparr>au_schema_version = v, au_operation_id = oid, au_operation = op, au_state = st,
            au_duration_ms = uw_duration_ms s, au_summary = sm\<rparr>
      | _ \<Rightarrow> None)"

definition deserialize_update_wire :: "serde \<Rightarrow> json \<Rightarrow> activity_update option" where
  "deserialize_update_wire S =
     deserialize_map (update_visit_field S) no_update_slots update_of_slots"

definition deserialize_update :: "serde \<Rightarrow> json \<Rightarrow> activity_update option" where
  "deserialize_update S v =
     (case deserialize_update_wire S v of
        None \<Rightarrow> None
      | Some u \<Rightarrow> (if is_ok (validate_update u) then Some u else None))"

definition encode_update :: "serde \<Rightarrow> activity_update \<Rightarrow> contract_error + string" where
  "encode_update S u =
     and_then (validate_update u) (\<lambda>_.
       let bytes = to_vec S (serialize_update S u)
       in if MAX_ACTIVITY_EVENT_BYTES < length bytes then Inl TooLarge else Inr bytes)"

definition decode_update :: "serde \<Rightarrow> string \<Rightarrow> contract_error + activity_update" where
  "decode_update S bytes =
     (if MAX_ACTIVITY_EVENT_BYTES < length bytes then Inl TooLarge
      else and_then (ok_or (Option.bind (from_slice S bytes) (deserialize_update_wire S)) InvalidJson)
        (\<lambda>u. and_then (validate_update u) (\<lambda>_. Inr u)))"

definition event_fields :: "serde \<Rightarrow> activity_event \<Rightarrow> (string \<times> json) list" where
  "event_fields S e =
     [(''schema_version'', juint (ev_schema_version e)),
      (''sequence'', juint (ev_sequence e)),
      (''operation_id'', juuid S (ev_operation_id e)),
      (''timestamp_ms'', juint (ev_timestamp_ms e)),
      (''session_id'', jopt JString (ev_session_id e)),
      (''session_instance'', jopt (juuid S) (ev_session_instance e)),
      (''operation'', JString (operation_wire (ev_operation e))),
      (''state'', JString (state_wire (ev_state e))),
      (''duration_ms'', jopt juint (ev_duration_ms e)),
      (''safe_summary'', JString (ev_safe_summary e))]"

definition serialize_envelope :: "serde \<Rightarrow> activity_event \<Rightarrow> json" where
  "serialize_envelope S e =
     JObject [(''type'', JString ''activity''), (''event'', JObject (event_fields S e))]"

record event_slots =
  ew_schema_version :: "u64 option"
  ew_sequence :: "u64 option"
  ew_operation_id :: "uuid option"
  ew_timestamp_ms :: "u64 option"
  ew_session_id :: "string option"
  ew_session_id_seen :: bool
  ew_session_instance :: "uuid option"
  ew_session_instance_seen :: bool
  ew_operation :: "activity_operation option"
  ew_state :: "activity_state option"
  ew_duration_ms :: "u64 option"
  ew_duration_seen :: bool
  ew_safe_summary :: "string option"

definition no_event_slots :: event_slots where
  "no_event_slots = \<lparr>ew_schema_version = None, ew_sequence = None, ew_operation_id = None,
     ew_timestamp_ms = None, ew_session_id = None, ew_session_id_seen = False,
     ew_session_instance = None, ew_session_instance_seen = False, ew_operation = None,
     ew_state = None, ew_duration_ms = None, ew_duration_seen = False, ew_safe_summary = None\<rparr>"

definition event_visit_field :: "serde \<Rightarrow> string \<Rightarrow> json \<Rightarrow> event_slots \<Rightarrow> event_slots option" where
  "event_visit_field S k v s =
     (if k = ''schema_version'' then
        map_option (\<lambda>x. s\<lparr>ew_schema_version := x\<rparr>) (set_once (ew_schema_version s) (read_u64 v))
      else if k = ''sequence'' then
        map_option (\<lambda>x. s\<lparr>ew_sequence := x\<rparr>) (set_once (ew_sequence s) (read_u64 v))
      else if k = ''operation_id'' then
        map_option (\<lambda>x. s\<lparr>ew_operation_id := x\<rparr>) (set_once (ew_operation_id s) (read_uuid S v))
      else if k = ''timestamp_ms'' then
        map_option (\<lambda>x. s\<lparr>ew_timestamp_ms := x\<rparr>) (set_once (ew_timestamp_ms s) (read_u64 v))
      else if k = ''session_id'' then
        (if ew_session_id_seen s then None
         else map_option (\<lambda>x. s\<lparr>ew_session_id_seen := True, ew_session_id := x\<rparr>)
           (read_option read_string v))
      else if k = ''session_instance'' then
        (if ew_session_instance_seen s then None
         else map_option (\<lambda>x. s\<lparr>ew_session_instance_seen := True, ew_session_instance := x\<rparr>)
           (read_option (read_uuid S) v))
      else if k = ''operation'' then
        map_option (\<lambda>x. s\<lparr>ew_operation := x\<rparr>) (set_once (ew_operation s) (read_operation v))
      else if k = ''state'' then
        map_option (\<lambda>x. s\<lparr>ew_state := x\<rparr>) (set_once (ew_state s) (read_state v))
      else if k = ''duration_ms'' then
        (if ew_duration_seen s then None
         else map_option (\<lambda>x. s\<lparr>ew_duration_seen := True, ew_duration_ms := x\<rparr>)
           (read_option read_u64 v))
      else if k = ''safe_summary'' then
        map_option (\<lambda>x. s\<lparr>ew_safe_summary := x\<rparr>) (set_once (ew_safe_summary s) (read_string v))
      else None)"

definition event_of_slots :: "event_slots \<Rightarrow> activity_event option" where
  "event_of_slots s =
     (if \<not> ew_session_id_seen s \<or> \<not> ew_session_instance_seen s \<or> \<not> ew_duration_seen s then None
      else case (ew_schema_version s, ew_sequence s, ew_operation_id s, ew_timestamp_ms s,
                 ew_operation s, ew_state s, ew_safe_summary s) of
        (Some v, Some q, Some oid, Some t, Some op, Some st, Some sm) \<Rightarrow>
          Some \<lparr>ev_schema_version = v, ev_sequence = q, ev_operation_id = oid, ev_timestamp_ms = t,
            ev_session_id = ew_session_id s, ev_session_instance = ew_session_instance s,
            ev_operation = op, ev_state = st, ev_duration_ms = ew_duration_ms s,
            ev_safe_summary = sm\<rparr>
      | _ \<Rightarrow> None)"

definition deserialize_event_wire :: "serde \<Rightarrow> json \<Rightarrow> activity_event option" where
  "deserialize_event_wire S = deserialize_map (event_visit_field S) no_event_slots event_of_slots"

record envelope_slots =
  en_type :: "string option"
  en_event :: "activity_event option"

definition envelope_visit_field ::
  "serde \<Rightarrow> string \<Rightarrow> json \<Rightarrow> envelope_slots \<Rightarrow> envelope_slots option" where
  "envelope_visit_field S k v s =
     (if k = ''type'' then
        map_option (\<lambda>x. s\<lparr>en_type := x\<rparr>) (set_once (en_type s) (read_string v))
      else if k = ''event'' then
        map_option (\<lambda>x. s\<lparr>en_event := x\<rparr>) (set_once (en_event s) (deserialize_event_wire S v))
      else None)"

definition envelope_of_slots :: "envelope_slots \<Rightarrow> activity_event option" where
  "envelope_of_slots s = (if en_type s \<noteq> Some ''activity'' then None else en_event s)"

definition deserialize_envelope :: "serde \<Rightarrow> json \<Rightarrow> activity_event option" where
  "deserialize_envelope S =
     deserialize_map (envelope_visit_field S) \<lparr>en_type = None, en_event = None\<rparr> envelope_of_slots"

definition encode_event :: "serde \<Rightarrow> activity_event \<Rightarrow> contract_error + string" where
  "encode_event S e =
     and_then (validate_event e) (\<lambda>_.
       let bytes = to_vec S (serialize_envelope S e)
       in if MAX_ACTIVITY_EVENT_BYTES < length bytes then Inl TooLarge else Inr bytes)"

definition decode_event :: "serde \<Rightarrow> string \<Rightarrow> contract_error + activity_event" where
  "decode_event S bytes =
     (if MAX_ACTIVITY_EVENT_BYTES < length bytes then Inl TooLarge
      else and_then (ok_or (Option.bind (from_slice S bytes) (deserialize_envelope S)) InvalidJson)
        (\<lambda>e. and_then (validate_event e) (\<lambda>_. Inr e)))"

end
