(* ===== verification/Activity_Codec.thy ===== *)
theory Activity_Codec
  imports Activity_Contract
begin

text \<open>
  Correctness of the activity wire format: what is encoded is read back, and a document is
  read only when it carries exactly the fields of the contract, each once, with a valid value.
  The visitors of \<open>Activity_Contract\<close> are interpretations of \<open>field_visitor\<close>.
\<close>

section \<open>The visitors fill each slot once\<close>

definition update_seen :: "update_slots \<Rightarrow> string \<Rightarrow> bool" where
  "update_seen s k \<longleftrightarrow>
     (k = ''schema_version'' \<and> uw_schema_version s \<noteq> None)
     \<or> (k = ''operation_id'' \<and> uw_operation_id s \<noteq> None)
     \<or> (k = ''operation'' \<and> uw_operation s \<noteq> None) \<or> (k = ''state'' \<and> uw_state s \<noteq> None)
     \<or> (k = ''duration_ms'' \<and> uw_duration_seen s) \<or> (k = ''summary'' \<and> uw_summary s \<noteq> None)"

lemma update_visit_field_key:
  "update_visit_field S k v s = Some s' \<Longrightarrow>
     k = ''schema_version'' \<or> k = ''operation_id'' \<or> k = ''operation'' \<or> k = ''state''
     \<or> k = ''duration_ms'' \<or> k = ''summary''"
  by (simp add: update_visit_field_def split: if_split_asm)

lemma update_visit_field_seen:
  assumes "update_visit_field S k v s = Some s'"
  shows "\<not> update_seen s k \<and> update_seen s' j = (update_seen s j \<or> j = k)"
  using update_visit_field_key [OF assms] assms
  by (elim disjE; cases "j = k";
      clarsimp simp: update_visit_field_def update_seen_def split: if_split_asm)

interpretation update_visitor: field_visitor "update_visit_field S" update_seen for S
  by unfold_locales (simp add: update_visit_field_seen fun_eq_iff)

definition event_seen :: "event_slots \<Rightarrow> string \<Rightarrow> bool" where
  "event_seen s k \<longleftrightarrow>
     (k = ''schema_version'' \<and> ew_schema_version s \<noteq> None)
     \<or> (k = ''sequence'' \<and> ew_sequence s \<noteq> None)
     \<or> (k = ''operation_id'' \<and> ew_operation_id s \<noteq> None)
     \<or> (k = ''timestamp_ms'' \<and> ew_timestamp_ms s \<noteq> None)
     \<or> (k = ''session_id'' \<and> ew_session_id_seen s)
     \<or> (k = ''session_instance'' \<and> ew_session_instance_seen s)
     \<or> (k = ''operation'' \<and> ew_operation s \<noteq> None) \<or> (k = ''state'' \<and> ew_state s \<noteq> None)
     \<or> (k = ''duration_ms'' \<and> ew_duration_seen s)
     \<or> (k = ''safe_summary'' \<and> ew_safe_summary s \<noteq> None)"

lemma event_visit_field_key:
  "event_visit_field S k v s = Some s' \<Longrightarrow>
     k = ''schema_version'' \<or> k = ''sequence'' \<or> k = ''operation_id'' \<or> k = ''timestamp_ms''
     \<or> k = ''session_id'' \<or> k = ''session_instance'' \<or> k = ''operation'' \<or> k = ''state''
     \<or> k = ''duration_ms'' \<or> k = ''safe_summary''"
  by (simp add: event_visit_field_def split: if_split_asm)

lemma event_visit_field_seen:
  assumes "event_visit_field S k v s = Some s'"
  shows "\<not> event_seen s k \<and> event_seen s' j = (event_seen s j \<or> j = k)"
  using event_visit_field_key [OF assms] assms
  by (elim disjE; cases "j = k";
      clarsimp simp: event_visit_field_def event_seen_def split: if_split_asm)

interpretation event_visitor: field_visitor "event_visit_field S" event_seen for S
  by unfold_locales (simp add: event_visit_field_seen fun_eq_iff)

definition envelope_seen :: "envelope_slots \<Rightarrow> string \<Rightarrow> bool" where
  "envelope_seen s k \<longleftrightarrow> (k = ''type'' \<and> en_type s \<noteq> None) \<or> (k = ''event'' \<and> en_event s \<noteq> None)"

lemma envelope_visit_field_seen:
  assumes "envelope_visit_field S k v s = Some s'"
  shows "\<not> envelope_seen s k \<and> envelope_seen s' j = (envelope_seen s j \<or> j = k)"
proof -
  from assms have "k = ''type'' \<or> k = ''event''"
    by (simp add: envelope_visit_field_def split: if_split_asm)
  then show ?thesis using assms
    by (elim disjE; cases "j = k"; clarsimp simp: envelope_visit_field_def envelope_seen_def)
qed

interpretation envelope_visitor: field_visitor "envelope_visit_field S" envelope_seen for S
  by unfold_locales (simp add: envelope_visit_field_seen fun_eq_iff)

interpretation envelope_type:
  visitor_slot "envelope_visit_field S" envelope_seen "''type''" en_type read_string for S
  by unfold_locales (auto simp: envelope_visit_field_def split: if_split_asm)

interpretation envelope_event:
  visitor_slot "envelope_visit_field S" envelope_seen "''event''" en_event "deserialize_event_wire S"
  for S
  by unfold_locales (auto simp: envelope_visit_field_def split: if_split_asm)

section \<open>Reading back what was written\<close>

lemma read_uuid_juuid [simp]: "uuid_roundtrips S u \<Longrightarrow> read_uuid S (juuid S u) = Some u"
  by (simp add: read_uuid_def juuid_def uuid_roundtrips_def)

lemma juuid_not_null [simp]: "juuid S u \<noteq> JNull"
  by (simp add: juuid_def)

lemma read_wire [simp]:
  "read_operation (JString (operation_wire op)) = Some op"
  "read_state (JString (state_wire st)) = Some st"
  by (simp_all add: read_operation_def read_state_def)

lemma read_optional [simp]:
  "read_option read_u64 (jopt juint d) = Some d"
  "read_option read_string (jopt JString sid) = Some sid"
  by (simp_all add: read_option_jopt)

lemma read_optional_uuid [simp]:
  "pred_option (uuid_roundtrips S) i \<Longrightarrow> read_option (read_uuid S) (jopt (juuid S) i) = Some i"
  by (cases i) (simp_all add: read_option_not_null, simp add: read_option_def)

lemma update_wire_roundtrip:
  assumes "uuid_roundtrips S (au_operation_id u)"
  shows "deserialize_update_wire S (serialize_update S u) = Some u"
  using assms
  by (simp add: deserialize_update_wire_def serialize_update_def update_fields_def
      deserialize_map_def update_visit_field_def no_update_slots_def set_once_def
      summary_visit_roundtrip update_of_slots_def)

lemma event_wire_roundtrip:
  assumes "uuid_roundtrips S (ev_operation_id e)"
    and "pred_option (uuid_roundtrips S) (ev_session_instance e)"
  shows "deserialize_event_wire S (JObject (event_fields S e)) = Some e"
  using assms
  by (simp add: deserialize_event_wire_def event_fields_def deserialize_map_def
      event_visit_field_def no_event_slots_def set_once_def event_of_slots_def)

lemma envelope_roundtrip:
  assumes "uuid_roundtrips S (ev_operation_id e)"
    and "pred_option (uuid_roundtrips S) (ev_session_instance e)"
  shows "deserialize_envelope S (serialize_envelope S e) = Some e"
  using event_wire_roundtrip [OF assms]
  by (simp add: deserialize_envelope_def serialize_envelope_def deserialize_map_def
      envelope_visit_field_def envelope_of_slots_def set_once_def)

section \<open>Documents that are accepted\<close>

lemma event_of_slots_seen:
  "event_of_slots s = Some e \<Longrightarrow> event_seen s k \<longleftrightarrow> k \<in> set (map fst (event_fields S e'))"
  by (simp add: event_of_slots_def event_seen_def event_fields_def
      split: if_split_asm option.split_asm)

lemma update_of_slots_seen:
  "update_of_slots s = Some u \<Longrightarrow> update_seen s k \<longleftrightarrow> k \<in> set (map fst (update_fields S u'))"
  by (simp add: update_of_slots_def update_seen_def update_fields_def
      split: if_split_asm option.split_asm)

lemma deserialize_event_fields:
  assumes "deserialize_event_wire S v = Some e"
  shows "\<exists>fs. v = JObject fs \<and> distinct (map fst fs) \<and> set (map fst fs) = set (map fst (event_fields S e))"
  using assms unfolding deserialize_event_wire_def
proof (rule event_visitor.accepted_fields)
  show "\<not> event_seen no_event_slots k" for k
    by (simp add: event_seen_def no_event_slots_def)
qed (rule event_of_slots_seen)

lemma deserialize_update_fields:
  assumes "deserialize_update_wire S v = Some u"
  shows "\<exists>fs. v = JObject fs \<and> distinct (map fst fs) \<and> set (map fst fs) = set (map fst (update_fields S u))"
  using assms unfolding deserialize_update_wire_def
proof (rule update_visitor.accepted_fields)
  show "\<not> update_seen no_update_slots k" for k
    by (simp add: update_seen_def no_update_slots_def)
qed (rule update_of_slots_seen)

lemma deserialize_envelope_event:
  assumes "deserialize_envelope S v = Some e"
  shows "\<exists>fs ed. v = JObject fs \<and> distinct (map fst fs) \<and> set (map fst fs) = {''type'', ''event''} \<and>
     map_of fs ''type'' = Some (JString ''activity'') \<and> map_of fs ''event'' = Some ed \<and>
     deserialize_event_wire S ed = Some e"
proof -
  let ?s0 = "\<lparr>en_type = None, en_event = None\<rparr>"
  from assms obtain fs s where v: "v = JObject fs"
    and fs: "visit_fields (envelope_visit_field S) fs ?s0 = Some s"
    and fin: "envelope_of_slots s = Some e"
    unfolding deserialize_envelope_def deserialize_map_Some_iff by blast
  from fin have ty: "en_type s = Some ''activity''" and ev: "en_event s = Some e"
    by (simp_all add: envelope_of_slots_def split: if_split_asm)
  from envelope_visitor.visit_fields_seen [OF fs] ty ev
  have "distinct (map fst fs)" and "k \<in> set (map fst fs) \<longleftrightarrow> k = ''type'' \<or> k = ''event''" for k
    by (auto simp: envelope_seen_def)
  then have "distinct (map fst fs)" and "set (map fst fs) = {''type'', ''event''}"
    by blast+
  moreover from envelope_type.slot_value [OF fs] ty have "map_of fs ''type'' = Some (JString ''activity'')"
    by (simp add: read_string_def split: option.split_asm)
  moreover from envelope_event.slot_value [OF fs] ev
  obtain ed where "map_of fs ''event'' = Some ed" "deserialize_event_wire S ed = Some e"
    by (auto split: option.split_asm)
  ultimately show ?thesis using v by blast
qed

section \<open>Properties\<close>

text \<open>C1. Round trip of the event envelope. If encoding an event succeeds, then decoding the
  bytes gives the event back, provided the JSON crate reads back the envelope it wrote and the
  UUID crate parses the identifiers it printed.\<close>

theorem event_codec_roundtrip:
  assumes "uuid_roundtrips S (ev_operation_id e)"
    and "pred_option (uuid_roundtrips S) (ev_session_instance e)"
    and "json_roundtrips S (serialize_envelope S e)"
    and "encode_event S e = Inr bytes"
  shows "decode_event S bytes = Inr e"
  using assms envelope_roundtrip [OF assms(1,2)]
  by (auto simp: encode_event_def decode_event_def Let_def json_roundtrips_def split: if_split_asm)

definition sample_event :: activity_event where
  "sample_event = \<lparr>ev_schema_version = 1, ev_sequence = 7, ev_operation_id = 5,
     ev_timestamp_ms = 1000, ev_session_id = Some ''work'', ev_session_instance = Some 9,
     ev_operation = CodexTaskStart, ev_state = Completed, ev_duration_ms = Some 12,
     ev_safe_summary = ''result=accepted''\<rparr>"

text \<open>A concrete pair of crates for the witnesses: UUIDs are printed in unary and the only text
  is the one-byte name of the sample document.\<close>

definition sample_serde :: serde where
  "sample_serde = \<lparr>uuid_print = (\<lambda>u. replicate (unat u) CHR ''1''),
     uuid_parse = (\<lambda>s. Some (of_nat (length s))), to_vec = (\<lambda>_. ''e''), from_slice = (\<lambda>_. None)\<rparr>"

definition sample_crates :: serde where
  "sample_crates = sample_serde\<lparr>from_slice := (\<lambda>_. Some (serialize_envelope sample_serde sample_event))\<rparr>"

lemma sample_crates_ok:
  "uuid_roundtrips sample_crates (ev_operation_id sample_event)"
  "pred_option (uuid_roundtrips sample_crates) (ev_session_instance sample_event)"
  "json_roundtrips sample_crates (serialize_envelope sample_crates sample_event)"
  by (simp_all add: uuid_roundtrips_def json_roundtrips_def serialize_envelope_def event_fields_def
      juuid_def sample_crates_def sample_serde_def sample_event_def)

lemma sample_event_valid: "validate_event sample_event = Inr ()"
  by (simp add: validate_event_ok sample_event_def terminal_state_def
      ACTIVITY_SCHEMA_VERSION_def validate_session_identity_def session_id_byte_def
      is_ascii_alphanumeric_def validate_safe_summary_def MAX_ACTIVITY_SUMMARY_BYTES_def
      str_chars_def unsafe_char_def is_control_def)

lemma sample_event_encodes: "encode_event sample_crates sample_event = Inr ''e''"
  by (simp add: encode_event_def sample_event_valid MAX_ACTIVITY_EVENT_BYTES_def sample_crates_def
      sample_serde_def)

lemma sample_event_decodes: "decode_event sample_crates ''e'' = Inr sample_event"
proof -
  have "Option.bind (from_slice sample_crates ''e'') (deserialize_envelope sample_crates) = Some sample_event"
    using sample_crates_ok(3) envelope_roundtrip [OF sample_crates_ok(1,2)]
    by (simp add: json_roundtrips_def sample_crates_def sample_serde_def)
  then show ?thesis
    by (simp add: decode_event_def sample_event_valid MAX_ACTIVITY_EVENT_BYTES_def)
qed

theorem event_codec_roundtrip_witness: "decode_event sample_crates ''e'' = Inr sample_event"
  by (rule event_codec_roundtrip [OF sample_crates_ok sample_event_encodes])

text \<open>A decoded event is valid and came from an envelope of at most 2048 bytes that carries
  exactly the fields \<^verbatim>\<open>type\<close> and \<^verbatim>\<open>event\<close>, once each, whose event object in turn carries
  exactly the ten fields of the contract, once each: unknown, repeated or missing fields are
  never accepted.\<close>

theorem decode_event_strict:
  assumes "decode_event S bytes = Inr e"
  shows "validate_event e = Inr () \<and> length bytes \<le> MAX_ACTIVITY_EVENT_BYTES \<and>
    (\<exists>fs efs. from_slice S bytes = Some (JObject fs) \<and>
       distinct (map fst fs) \<and> set (map fst fs) = {''type'', ''event''} \<and>
       map_of fs ''type'' = Some (JString ''activity'') \<and> map_of fs ''event'' = Some (JObject efs) \<and>
       distinct (map fst efs) \<and>
       set (map fst efs) = {''schema_version'', ''sequence'', ''operation_id'', ''timestamp_ms'',
         ''session_id'', ''session_instance'', ''operation'', ''state'', ''duration_ms'', ''safe_summary''})"
proof -
  from assms obtain j where small: "length bytes \<le> MAX_ACTIVITY_EVENT_BYTES"
    and j: "from_slice S bytes = Some j" and env: "deserialize_envelope S j = Some e"
    and valid: "validate_event e = Inr ()"
    by (auto simp: decode_event_def bind_eq_Some_conv split: if_split_asm)
  from deserialize_envelope_event [OF env] obtain fs ed where
    fs: "j = JObject fs" "distinct (map fst fs)" "set (map fst fs) = {''type'', ''event''}"
      "map_of fs ''type'' = Some (JString ''activity'')" "map_of fs ''event'' = Some ed"
    and ed: "deserialize_event_wire S ed = Some e" by blast
  from deserialize_event_fields [OF ed] obtain efs where
    efs: "ed = JObject efs" "distinct (map fst efs)" "set (map fst efs) = set (map fst (event_fields S e))"
    by blast
  have "set (map fst (event_fields S e)) = {''schema_version'', ''sequence'', ''operation_id'',
      ''timestamp_ms'', ''session_id'', ''session_instance'', ''operation'', ''state'',
      ''duration_ms'', ''safe_summary''}"
    by (simp only: event_fields_def list.map list.set fst_conv)
  with small valid j fs efs show ?thesis by (metis (no_types))
qed

theorem decode_event_strict_witness:
  "decode_event sample_crates ''e'' = Inr sample_event \<and> validate_event sample_event = Inr () \<and>
   length ''e'' \<le> MAX_ACTIVITY_EVENT_BYTES"
  using decode_event_strict [OF sample_event_decodes] sample_event_decodes by blast

end
