(* ===== verification/Activity_Scope.thy ===== *)
theory Activity_Scope
  imports Activity_Contract
begin

text \<open>
  The activity scope, \<^verbatim>\<open>src/src/activity/scope.rs\<close>: one operation's state machine. The
  emitter is the argument \<open>em\<close>, a step on its own state; the monotonic clock is the argument
  \<open>now\<close> of the call that reads it, in nanoseconds. The mutex is the field \<open>sc_poisoned\<close>:
  the only way taking it can fail. \<open>recording\<close> wraps an emitter with the list of updates
  that were handed to it, which the properties are about.
\<close>

datatype activity_emit_error = Full | Closed | InvalidInput | InvariantViolation

datatype activity_emission = NotAttempted | Accepted | Rejected activity_emit_error

datatype scope_error = InvalidTransition | AlreadyTerminal | InvariantViolation

type_synonym 'm emitter = "activity_update \<Rightarrow> 'm \<Rightarrow> (activity_emit_error + unit) \<times> 'm"

record activity_scope =
  sc_operation :: activity_operation
  sc_operation_id :: uuid
  sc_started_at :: nat
  sc_default_summary :: activity_summary
  sc_current :: activity_state
  sc_terminal :: bool
  sc_poisoned :: bool
  sc_started_emission :: activity_emission

definition emit :: "'m emitter \<Rightarrow> activity_update \<Rightarrow> 'm \<Rightarrow> activity_emission \<times> 'm" where
  "emit em u m =
     (case em u m of (Inr _, m') \<Rightarrow> (Accepted, m') | (Inl error, m') \<Rightarrow> (Rejected error, m'))"

definition is_terminal :: "activity_state \<Rightarrow> bool" where
  "is_terminal st = (st = Completed \<or> st = Failed \<or> st = Cancelled)"

primrec is_valid_transition :: "activity_state \<Rightarrow> activity_state \<Rightarrow> bool" where
  "is_valid_transition Started n =
     (n = WaitingApproval \<or> n = Running \<or> n = Completed \<or> n = Failed \<or> n = Cancelled)"
| "is_valid_transition WaitingApproval n = (n = Running \<or> n = Failed \<or> n = Cancelled)"
| "is_valid_transition Running n =
     (n = WaitingApproval \<or> n = Completed \<or> n = Failed \<or> n = Cancelled)"
| "is_valid_transition Completed n = False"
| "is_valid_transition Failed n = False"
| "is_valid_transition Cancelled n = False"

text \<open>\<^verbatim>\<open>u64::try_from(as_millis()).unwrap_or(u64::MAX)\<close>\<close>

definition duration_millis_saturating :: "nat \<Rightarrow> u64" where
  "duration_millis_saturating nanos =
     (let ms = nanos div 1000000 in if ms < 2 ^ 64 then of_nat ms else - 1)"

definition elapsed_millis_saturating :: "nat \<Rightarrow> nat \<Rightarrow> u64" where
  "elapsed_millis_saturating started_at now =
     (let elapsed = (if started_at \<le> now then now - started_at else 0)
      in duration_millis_saturating elapsed)"

definition terminal_duration :: "activity_state \<Rightarrow> nat \<Rightarrow> nat \<Rightarrow> u64 option" where
  "terminal_duration st started_at now =
     (if is_terminal st then Some (elapsed_millis_saturating started_at now) else None)"

definition transition ::
  "'m emitter \<Rightarrow> activity_state \<Rightarrow> activity_summary \<Rightarrow> nat \<Rightarrow> activity_scope \<Rightarrow> 'm
     \<Rightarrow> (scope_error + activity_emission) \<times> activity_scope \<times> 'm" where
  "transition em next summary now sc m =
     (if sc_poisoned sc then (Inl scope_error.InvariantViolation, sc, m)
      else if sc_terminal sc then (Inl AlreadyTerminal, sc, m)
      else if next = Started then (Inl InvalidTransition, sc, m)
      else if next = sc_current sc then (Inr NotAttempted, sc, m)
      else if \<not> is_valid_transition (sc_current sc) next then (Inl InvalidTransition, sc, m)
      else case update_new (sc_operation_id sc) (sc_operation sc) next
             (terminal_duration next (sc_started_at sc) now) summary of
          Inl _ \<Rightarrow> (Inl scope_error.InvariantViolation, sc, m)
        | Inr u \<Rightarrow>
            (let sc' = sc\<lparr>sc_current := next, sc_terminal := is_terminal next\<rparr>;
                 (emission, m') = emit em u m
             in (Inr emission, sc', m')))"

definition finish ::
  "'m emitter \<Rightarrow> activity_state \<Rightarrow> activity_summary \<Rightarrow> nat \<Rightarrow> activity_scope \<Rightarrow> 'm
     \<Rightarrow> (scope_error + activity_emission) \<times> activity_scope \<times> 'm" where
  "finish em terminal summary now sc m =
     (if \<not> is_terminal terminal then (Inl InvalidTransition, sc, m)
      else transition em terminal summary now sc m)"

text \<open>The public methods of a scope handle.\<close>

datatype scope_call =
    TransitionTo activity_state activity_summary
  | Finish activity_state activity_summary
  | SetRunning
  | SetWaitingApproval
  | Complete
  | Fail
  | Cancel
  | CompleteWithSummary activity_summary
  | FailWithSummary activity_summary
  | CancelWithSummary activity_summary

primrec scope_apply ::
  "'m emitter \<Rightarrow> scope_call \<Rightarrow> nat \<Rightarrow> activity_scope \<Rightarrow> 'm
     \<Rightarrow> (scope_error + activity_emission) \<times> activity_scope \<times> 'm" where
  "scope_apply em (TransitionTo st s) now sc m = transition em st s now sc m"
| "scope_apply em (Finish st s) now sc m = finish em st s now sc m"
| "scope_apply em SetRunning now sc m = transition em Running (sc_default_summary sc) now sc m"
| "scope_apply em SetWaitingApproval now sc m =
     transition em WaitingApproval (sc_default_summary sc) now sc m"
| "scope_apply em Complete now sc m = finish em Completed (sc_default_summary sc) now sc m"
| "scope_apply em Fail now sc m = finish em Failed (sc_default_summary sc) now sc m"
| "scope_apply em Cancel now sc m = finish em Cancelled (sc_default_summary sc) now sc m"
| "scope_apply em (CompleteWithSummary s) now sc m = finish em Completed s now sc m"
| "scope_apply em (FailWithSummary s) now sc m = finish em Failed s now sc m"
| "scope_apply em (CancelWithSummary s) now sc m = finish em Cancelled s now sc m"

text \<open>Construction: \<open>None\<close> is the panic of the \<^verbatim>\<open>expect\<close> on the start update.\<close>

definition new_with_identity ::
  "'m emitter \<Rightarrow> activity_operation \<Rightarrow> uuid \<Rightarrow> activity_summary \<Rightarrow> nat \<Rightarrow> 'm
     \<Rightarrow> (activity_scope \<times> 'm) option" where
  "new_with_identity em op oid default_summary now m =
     (case update_new oid op Started None default_summary of
        Inl _ \<Rightarrow> None
      | Inr u \<Rightarrow>
          (let (emission, m') = emit em u m
           in Some (\<lparr>sc_operation = op, sc_operation_id = oid, sc_started_at = now,
                sc_default_summary = default_summary, sc_current = Started, sc_terminal = False,
                sc_poisoned = False, sc_started_emission = emission\<rparr>, m')))"

fun scope_run :: "'m emitter \<Rightarrow> (scope_call \<times> nat) list \<Rightarrow> activity_scope \<Rightarrow> 'm \<Rightarrow> activity_scope \<times> 'm"
where
  "scope_run em [] sc m = (sc, m)"
| "scope_run em ((c, now) # cs) sc m =
     (case scope_apply em c now sc m of (_, sc', m') \<Rightarrow> scope_run em cs sc' m')"

definition recording :: "'m emitter \<Rightarrow> ('m \<times> activity_update list) emitter" where
  "recording em u ml = (case em u (fst ml) of (r, m') \<Rightarrow> (r, (m', snd ml @ [u])))"

section \<open>Invariant\<close>

lemma is_terminal_terminal_state: "is_terminal = terminal_state"
  by (simp add: fun_eq_iff is_terminal_def terminal_state_def)

lemma valid_transition_source: "is_valid_transition a b \<Longrightarrow> \<not> is_terminal a"
  by (cases a) (simp_all add: is_terminal_def)

text \<open>The log ends in the scope's current state, follows the transition table from
  \<^verbatim>\<open>started\<close>, and carries the scope's identity.\<close>

definition scope_inv :: "activity_scope \<Rightarrow> activity_update list \<Rightarrow> bool" where
  "scope_inv sc us \<longleftrightarrow>
     us \<noteq> [] \<and> au_state (hd us) = Started \<and> au_state (last us) = sc_current sc \<and>
     successively is_valid_transition (map au_state us) \<and>
     sc_terminal sc = is_terminal (sc_current sc) \<and>
     (\<forall>u \<in> set us. validate_update u = Inr () \<and> au_operation_id u = sc_operation_id sc \<and>
        au_operation u = sc_operation sc)"

lemma successively_snoc:
  "xs \<noteq> [] \<Longrightarrow> successively P (xs @ [y]) \<longleftrightarrow> successively P xs \<and> P (last xs) y"
  by (simp add: successively_append_iff)

lemma emit_recording:
  "emit (recording em) u (m, us) = (r, (m', us')) \<Longrightarrow> us' = us @ [u]"
  by (auto simp: emit_def recording_def split: prod.splits sum.splits)

lemma transition_cases:
  assumes "transition em next summary now sc m = (r, sc', m')"
  shows "(sc' = sc \<and> m' = m) \<or>
    (\<exists>u e. \<not> sc_terminal sc \<and> is_valid_transition (sc_current sc) next \<and>
       update_new (sc_operation_id sc) (sc_operation sc) next
         (terminal_duration next (sc_started_at sc) now) summary = Inr u \<and>
       sc' = sc\<lparr>sc_current := next, sc_terminal := is_terminal next\<rparr> \<and> emit em u m = (e, m') \<and> r = Inr e)"
proof (cases "update_new (sc_operation_id sc) (sc_operation sc) next
    (terminal_duration next (sc_started_at sc) now) summary")
  case (Inl e)
  with assms show ?thesis by (simp add: transition_def split: if_split_asm)
next
  case (Inr u)
  obtain e m1 where "emit em u m = (e, m1)" by fastforce
  with Inr assms show ?thesis by (simp add: transition_def Let_def split: if_split_asm)
qed

lemma transition_inv:
  assumes inv: "scope_inv sc us"
    and step: "transition (recording em) next summary now sc (m, us) = (r, sc', (m', us'))"
  shows "scope_inv sc' us' \<and> sc_operation_id sc' = sc_operation_id sc \<and> sc_operation sc' = sc_operation sc"
  using transition_cases [OF step]
proof (elim disjE exE conjE)
  assume "sc' = sc" and "(m', us') = (m, us)"
  with inv show ?thesis by simp
next
  fix u e
  assume valid: "is_valid_transition (sc_current sc) next"
    and u: "update_new (sc_operation_id sc) (sc_operation sc) next
      (terminal_duration next (sc_started_at sc) now) summary = Inr u"
    and sc': "sc' = sc\<lparr>sc_current := next, sc_terminal := is_terminal next\<rparr>"
    and e: "emit (recording em) u (m, us) = (e, (m', us'))"
  from u have fields: "au_state u = next" "au_operation_id u = sc_operation_id sc"
    "au_operation u = sc_operation sc" "validate_update u = Inr ()"
    by (auto simp: update_new_Inr_iff validate_update_ok)
  from inv have "us \<noteq> []" by (simp add: scope_inv_def)
  with inv valid fields emit_recording [OF e] show ?thesis
    by (simp add: scope_inv_def sc' successively_snoc last_map)
qed

lemma finish_inv:
  assumes "scope_inv sc us"
    and "finish (recording em) next summary now sc (m, us) = (r, sc', (m', us'))"
  shows "scope_inv sc' us' \<and> sc_operation_id sc' = sc_operation_id sc \<and> sc_operation sc' = sc_operation sc"
  using assms transition_inv unfolding finish_def by (metis prod.inject)

lemma scope_apply_inv:
  assumes "scope_inv sc us"
    and "scope_apply (recording em) c now sc (m, us) = (r, sc', (m', us'))"
  shows "scope_inv sc' us' \<and> sc_operation_id sc' = sc_operation_id sc \<and> sc_operation sc' = sc_operation sc"
  using assms by (cases c) (auto dest: transition_inv finish_inv)

lemma scope_run_inv:
  assumes "scope_inv sc us"
    and "scope_run (recording em) cs sc (m, us) = (sc', (m', us'))"
  shows "scope_inv sc' us' \<and> sc_operation_id sc' = sc_operation_id sc \<and> sc_operation sc' = sc_operation sc"
  using assms
proof (induction cs arbitrary: sc m us)
  case Nil
  then show ?case by simp
next
  case (Cons cn cs)
  obtain c now where cn: "cn = (c, now)" by fastforce
  obtain r sc1 m1 us1 where step: "scope_apply (recording em) c now sc (m, us) = (r, sc1, (m1, us1))"
    by (metis prod.collapse)
  from Cons.prems(2) cn step have rest: "scope_run (recording em) cs sc1 (m1, us1) = (sc', (m', us'))"
    by simp
  from scope_apply_inv [OF Cons.prems(1) step] Cons.IH [OF _ rest] show ?case by simp
qed

lemma new_with_identity_inv:
  "\<exists>sc m'. new_with_identity (recording em) op oid s now (m, []) = Some (sc, m') \<and>
     scope_inv sc (snd m') \<and> sc_operation_id sc = oid \<and> sc_operation sc = op"
proof -
  obtain u where u: "update_new oid op Started None s = Inr u"
    and st: "au_state u = Started" "validate_update u = Inr ()" "au_operation_id u = oid" "au_operation u = op"
    by (auto simp: update_new_Inr_iff validate_update_ok terminal_state_def)
  obtain r m1 us1 where e: "emit (recording em) u (m, []) = (r, (m1, us1))" by (metis prod.collapse)
  with emit_recording [OF e] u st show ?thesis
    by (simp add: new_with_identity_def scope_inv_def is_terminal_def)
qed

section \<open>Properties\<close>

text \<open>C2. Whatever methods are called on a scope, in whatever order and with whatever emitter,
  construction never panics and the updates handed to the emitter form one lifecycle: the first
  is \<^verbatim>\<open>started\<close>, each next state is reached by a transition of the table (so at most the last
  one is terminal), all carry the scope's operation and identity, and all pass the contract's
  validation.\<close>

theorem scope_emits_lifecycle:
  "\<exists>sc m1 sc' m' us. new_with_identity (recording em) op oid s now (m, []) = Some (sc, m1) \<and>
     scope_run (recording em) calls sc m1 = (sc', (m', us)) \<and>
     us \<noteq> [] \<and> au_state (hd us) = Started \<and> au_state (last us) = sc_current sc' \<and>
     successively is_valid_transition (map au_state us) \<and>
     (\<forall>u \<in> set us. validate_update u = Inr () \<and> au_operation_id u = oid \<and> au_operation u = op)"
proof -
  from new_with_identity_inv [of em op oid s now m] obtain sc m1 where
    new: "new_with_identity (recording em) op oid s now (m, []) = Some (sc, m1)"
    and inv: "scope_inv sc (snd m1)" and ids: "sc_operation_id sc = oid" "sc_operation sc = op" by blast
  obtain m0 us0 where m1: "m1 = (m0, us0)" by fastforce
  obtain sc' m' us where run: "scope_run (recording em) calls sc m1 = (sc', (m', us))"
    by (metis prod.collapse)
  from inv m1 have "scope_inv sc us0" by simp
  from scope_run_inv [OF this run [unfolded m1]] ids
  have "scope_inv sc' us" "sc_operation_id sc' = oid" "sc_operation sc' = op" by simp_all
  with new run show ?thesis
    unfolding scope_inv_def by (intro exI conjI) (assumption | simp)+
qed

theorem scope_emits_lifecycle_witness:
  "\<exists>sc m1 sc' m' us. new_with_identity (recording (\<lambda>u n. (Inr (), Suc n))) CodexTaskStart 7 Empty 0 (0, [])
       = Some (sc, m1) \<and>
     scope_run (recording (\<lambda>u n. (Inr (), Suc n))) [(SetRunning, 5), (Complete, 2000000)] sc m1 = (sc', (m', us)) \<and>
     us \<noteq> [] \<and> au_state (hd us) = Started \<and> au_state (last us) = sc_current sc' \<and>
     successively is_valid_transition (map au_state us) \<and>
     (\<forall>u \<in> set us. validate_update u = Inr () \<and> au_operation_id u = 7 \<and> au_operation u = CodexTaskStart)"
  by (rule scope_emits_lifecycle)

lemma finish_terminal:
  assumes "sc_terminal sc" and "\<not> sc_poisoned sc"
  shows "finish em st s now sc m = (Inl (if is_terminal st then AlreadyTerminal else InvalidTransition), sc, m)"
  using assms by (simp add: finish_def transition_def)

text \<open>A finished scope is frozen: once the terminal bit is set, no method changes the scope
  or reaches the emitter, and each reports an error. A terminal state is thus never overtaken
  by a later update.\<close>

theorem scope_terminal_frozen:
  assumes "sc_terminal sc"
  shows "\<exists>e. scope_apply em c now sc m = (Inl e, sc, m)"
proof (cases "sc_poisoned sc")
  case True
  then show ?thesis by (cases c) (simp_all add: finish_def transition_def)
next
  case False
  with assms show ?thesis
    by (cases c) (simp_all add: finish_terminal, simp_all add: transition_def)
qed

definition finished_scope :: activity_scope where
  "finished_scope = \<lparr>sc_operation = GitPush, sc_operation_id = 3, sc_started_at = 0,
     sc_default_summary = Empty, sc_current = Cancelled, sc_terminal = True, sc_poisoned = False,
     sc_started_emission = Rejected Full\<rparr>"

theorem scope_terminal_frozen_witness:
  "sc_terminal finished_scope \<and>
   (\<exists>e. scope_apply (\<lambda>u n. (Inr (), Suc n)) Complete 9 finished_scope (0 :: nat) = (Inl e, finished_scope, 0))"
proof -
  have t: "sc_terminal finished_scope" by (simp add: finished_scope_def)
  show ?thesis by (intro conjI t scope_terminal_frozen [OF t])
qed

text \<open>The duration reported by a terminal update is the elapsed time in whole milliseconds,
  saturating at both ends: a clock that went backwards reads as zero and an elapsed time beyond
  64 bits as the largest value.\<close>

theorem elapsed_millis_exact:
  "unat (elapsed_millis_saturating started_at now) = min ((now - started_at) div 1000000) (2 ^ 64 - 1)"
proof -
  have "unat (of_nat ms :: u64) = ms" if "ms < 2 ^ 64" for ms
    using that by (simp add: unat_of_nat take_bit_nat_eq_self)
  moreover have "unat (- 1 :: u64) = 2 ^ 64 - 1"
    by (simp add: unsigned_minus_1_eq_mask mask_eq_exp_minus_1)
  ultimately show ?thesis
    by (auto simp: elapsed_millis_saturating_def duration_millis_saturating_def Let_def)
qed

end
