(* ===== verification/Activity_History.thy ===== *)
theory Activity_History
  imports Activity_Contract "HOL-Library.Multiset"
begin

text \<open>
  Bounded retention of activity events, \<^verbatim>\<open>src/src/activity/history.rs\<close>. The
  \<^verbatim>\<open>VecDeque\<close> is a list, oldest entry first. The eviction loop of \<^verbatim>\<open>push\<close> is
  \<open>eviction_scan\<close>, with its checked arithmetic. The locale \<open>retention\<close> is what the broker
  relies on: the retained events are always a suffix of the accepted ones.
\<close>

datatype history_error =
    InvalidCapacity | InvalidTail | InvalidEvent | InvalidSerializedSize
  | SerializedSizeMismatch | EventTooLarge | InvariantViolation

definition MAX_ACTIVITY_HISTORY_EVENTS :: nat where "MAX_ACTIVITY_HISTORY_EVENTS = 4096"

definition MAX_ACTIVITY_HISTORY_BYTES :: nat where "MAX_ACTIVITY_HISTORY_BYTES = 8 * 1024 * 1024"

definition MAX_ACTIVITY_TAIL :: nat where "MAX_ACTIVITY_TAIL = 1024"

record history_entry =
  he_event :: activity_event
  he_serialized_size :: nat

record activity_history =
  ah_max_events :: nat
  ah_max_bytes :: nat
  ah_events :: "history_entry list"
  ah_serialized_bytes :: nat
  ah_history_truncated :: bool

definition history_new :: activity_history where
  "history_new = \<lparr>ah_max_events = MAX_ACTIVITY_HISTORY_EVENTS,
     ah_max_bytes = MAX_ACTIVITY_HISTORY_BYTES, ah_events = [], ah_serialized_bytes = 0,
     ah_history_truncated = False\<rparr>"

definition history_with_limits :: "nat \<Rightarrow> nat \<Rightarrow> history_error + activity_history" where
  "history_with_limits max_events max_bytes =
     (if \<not> (1 \<le> max_events \<and> max_events \<le> MAX_ACTIVITY_HISTORY_EVENTS)
         \<or> \<not> (1 \<le> max_bytes \<and> max_bytes \<le> MAX_ACTIVITY_HISTORY_BYTES)
      then Inl InvalidCapacity
      else Inr \<lparr>ah_max_events = max_events, ah_max_bytes = max_bytes, ah_events = [],
        ah_serialized_bytes = 0, ah_history_truncated = False\<rparr>)"

text \<open>The eviction loop: how many of the oldest entries have to go, and the bytes that stay.\<close>

function eviction_scan ::
  "activity_history \<Rightarrow> nat \<Rightarrow> nat \<Rightarrow> nat \<Rightarrow> history_error + (nat \<times> nat)" where
  "eviction_scan h serialized_size eviction_count remaining_bytes =
     (case usize_checked_sub (length (ah_events h)) eviction_count of
        None \<Rightarrow> Inl InvariantViolation
      | Some remaining_count \<Rightarrow>
          (if remaining_count < ah_max_events h \<and>
              (case usize_checked_add remaining_bytes serialized_size of
                 None \<Rightarrow> False | Some total_bytes \<Rightarrow> total_bytes \<le> ah_max_bytes h)
           then Inr (eviction_count, remaining_bytes)
           else if \<not> eviction_count < length (ah_events h) then Inl InvariantViolation
           else case usize_checked_sub remaining_bytes
                  (he_serialized_size (ah_events h ! eviction_count)) of
               None \<Rightarrow> Inl InvariantViolation
             | Some remaining \<Rightarrow> eviction_scan h serialized_size (eviction_count + 1) remaining))"
  by pat_completeness auto
termination
  by (relation "measure (\<lambda>(h, _, n, _). length (ah_events h) - n)") auto

declare eviction_scan.simps [simp del]

definition history_push ::
  "serde \<Rightarrow> activity_event \<Rightarrow> nat \<Rightarrow> activity_history \<Rightarrow> history_error + activity_history" where
  "history_push S event serialized_size h =
     (if \<not> is_ok (validate_event event) then Inl InvalidEvent
      else if serialized_size = 0 then Inl InvalidSerializedSize
      else if MAX_ACTIVITY_EVENT_BYTES < serialized_size then Inl EventTooLarge
      else and_then
        (map_err (\<lambda>e. case e of TooLarge \<Rightarrow> EventTooLarge | _ \<Rightarrow> InvalidEvent) (encode_event S event))
        (\<lambda>bytes.
          if length bytes \<noteq> serialized_size then Inl SerializedSizeMismatch
          else if ah_max_bytes h < serialized_size then Inl EventTooLarge
          else and_then (eviction_scan h serialized_size 0 (ah_serialized_bytes h))
            (\<lambda>(eviction_count, remaining_bytes).
              case usize_checked_add remaining_bytes serialized_size of
                None \<Rightarrow> Inl InvariantViolation
              | Some final_bytes \<Rightarrow>
                  Inr (h\<lparr>ah_events := drop eviction_count (ah_events h)
                            @ [\<lparr>he_event = event, he_serialized_size = serialized_size\<rparr>],
                         ah_serialized_bytes := final_bytes,
                         ah_history_truncated := ah_history_truncated h \<or> 0 < eviction_count\<rparr>))))"

definition session_matches :: "string option \<Rightarrow> activity_event \<Rightarrow> bool" where
  "session_matches session_id e =
     (case session_id of None \<Rightarrow> True | Some sid \<Rightarrow> ev_session_id e = Some sid)"

definition history_tail ::
  "activity_history \<Rightarrow> string option \<Rightarrow> nat \<Rightarrow> history_error + activity_event list" where
  "history_tail h session_id limit =
     (if MAX_ACTIVITY_TAIL < limit then Inl InvalidTail
      else if limit = 0 then Inr []
      else
        (let matching = sort_key (\<lambda>entry. ev_sequence (he_event entry))
               (filter (\<lambda>entry. session_matches session_id (he_event entry)) (ah_events h));
             skip = length matching - limit
         in Inr (map he_event (drop skip matching))))"

section \<open>Invariant\<close>

abbreviation entry_bytes :: "history_entry list \<Rightarrow> nat" where
  "entry_bytes es \<equiv> sum_list (map he_serialized_size es)"

definition history_inv :: "serde \<Rightarrow> activity_history \<Rightarrow> bool" where
  "history_inv S h \<longleftrightarrow>
     1 \<le> ah_max_events h \<and> ah_max_events h \<le> MAX_ACTIVITY_HISTORY_EVENTS \<and>
     1 \<le> ah_max_bytes h \<and> ah_max_bytes h \<le> MAX_ACTIVITY_HISTORY_BYTES \<and>
     length (ah_events h) \<le> ah_max_events h \<and>
     ah_serialized_bytes h = entry_bytes (ah_events h) \<and> ah_serialized_bytes h \<le> ah_max_bytes h \<and>
     (\<forall>entry \<in> set (ah_events h). \<exists>bytes. encode_event S (he_event entry) = Inr bytes \<and>
        length bytes = he_serialized_size entry)"

definition fits :: "activity_history \<Rightarrow> nat \<Rightarrow> nat \<Rightarrow> bool" where
  "fits h sz k \<longleftrightarrow> length (ah_events h) - k < ah_max_events h \<and>
     entry_bytes (drop k (ah_events h)) + sz \<le> ah_max_bytes h"

lemma entry_bytes_drop:
  "k < length es \<Longrightarrow> entry_bytes (drop k es) = he_serialized_size (es ! k) + entry_bytes (drop (Suc k) es)"
  by (simp add: Cons_nth_drop_Suc [symmetric])

lemma entry_bytes_drop_le: "entry_bytes (drop k es) \<le> entry_bytes es"
  by (metis append_take_drop_id le_add2 map_append sum_list_append)

text \<open>On a history that satisfies its invariant the loop stops without an error at the first
  count for which the new event fits.\<close>

lemma eviction_scan_first_fit:
  assumes "history_inv S h" and "sz \<le> ah_max_bytes h" and "k \<le> length (ah_events h)"
  shows "\<exists>n. eviction_scan h sz k (entry_bytes (drop k (ah_events h)))
      = Inr (n, entry_bytes (drop n (ah_events h))) \<and>
    k \<le> n \<and> n \<le> length (ah_events h) \<and> fits h sz n \<and> (\<forall>j. k \<le> j \<and> j < n \<longrightarrow> \<not> fits h sz j)"
  using assms(3)
proof (induction "length (ah_events h) - k" arbitrary: k)
  case 0
  then have k: "k = length (ah_events h)" by simp
  with assms(1,2) have "fits h sz k"
    by (auto simp: fits_def history_inv_def)
  with k assms(1,2) show ?case
    by (subst eviction_scan.simps)
      (auto simp: history_inv_def MAX_ACTIVITY_HISTORY_BYTES_def usize_checked_sub_def
        usize_checked_add_def)
next
  case (Suc d)
  let ?es = "ah_events h"
  let ?rem = "entry_bytes (drop k ?es)"
  from Suc have lt: "k < length ?es" by simp
  have bound: "?rem + sz < 2 ^ 64"
    using assms(1,2) entry_bytes_drop_le [of k ?es]
    by (simp add: history_inv_def MAX_ACTIVITY_HISTORY_BYTES_def)
  show ?case
  proof (cases "fits h sz k")
    case True
    then show ?thesis using lt bound
      by (subst eviction_scan.simps)
        (auto simp: fits_def usize_checked_sub_def usize_checked_add_def)
  next
    case False
    from Suc have "d = length ?es - Suc k" by simp
    from Suc.hyps(1) [OF this] lt obtain n where n:
      "eviction_scan h sz (Suc k) (entry_bytes (drop (Suc k) ?es)) = Inr (n, entry_bytes (drop n ?es))"
      "Suc k \<le> n" "n \<le> length ?es" "fits h sz n" "\<forall>j. Suc k \<le> j \<and> j < n \<longrightarrow> \<not> fits h sz j"
      by auto
    have "eviction_scan h sz k ?rem = eviction_scan h sz (Suc k) (entry_bytes (drop (Suc k) ?es))"
      using lt bound False
      by (subst eviction_scan.simps)
        (auto simp: fits_def usize_checked_sub_def usize_checked_add_def entry_bytes_drop)
    moreover have "\<not> fits h sz j" if "k \<le> j" "j < n" for j
      using False n(5) that by (cases "j = k") auto
    ultimately show ?thesis using n by auto
  qed
qed

lemma encode_event_Inr:
  "encode_event S e = Inr bytes \<Longrightarrow>
     validate_event e = Inr () \<and> length bytes \<le> MAX_ACTIVITY_EVENT_BYTES"
  by (auto simp: encode_event_def Let_def split: if_split_asm)

text \<open>An admissible event is accepted, and exactly the entries the scan asks for are evicted.\<close>

lemma history_push_first_fit:
  assumes inv: "history_inv S h" and enc: "encode_event S e = Inr bytes" and ne: "bytes \<noteq> []"
    and small: "length bytes \<le> ah_max_bytes h"
  shows "\<exists>n \<le> length (ah_events h). fits h (length bytes) n \<and> (\<forall>j < n. \<not> fits h (length bytes) j) \<and>
    history_push S e (length bytes) h =
      Inr (h\<lparr>ah_events := drop n (ah_events h) @ [\<lparr>he_event = e, he_serialized_size = length bytes\<rparr>],
             ah_serialized_bytes := entry_bytes (drop n (ah_events h)) + length bytes,
             ah_history_truncated := ah_history_truncated h \<or> 0 < n\<rparr>)"
proof -
  from eviction_scan_first_fit [OF inv small, of 0] obtain n where
    scan: "eviction_scan h (length bytes) 0 (entry_bytes (ah_events h)) = Inr (n, entry_bytes (drop n (ah_events h)))"
    and n: "n \<le> length (ah_events h)" "fits h (length bytes) n" "\<forall>j < n. \<not> fits h (length bytes) j"
    by auto
  have "entry_bytes (drop n (ah_events h)) + length bytes < 2 ^ 64"
    using n(2) inv by (simp add: fits_def history_inv_def MAX_ACTIVITY_HISTORY_BYTES_def)
  with scan n inv enc ne small encode_event_Inr [OF enc] show ?thesis
    by (intro exI [of _ n]) (simp add: history_push_def history_inv_def usize_checked_add_def)
qed

lemma history_push_Inr:
  assumes inv: "history_inv S h" and push: "history_push S e sz h = Inr h'"
  shows "\<exists>n bytes. n \<le> length (ah_events h) \<and> encode_event S e = Inr bytes \<and> length bytes = sz \<and>
    fits h sz n \<and> (\<forall>j < n. \<not> fits h sz j) \<and>
    h' = h\<lparr>ah_events := drop n (ah_events h) @ [\<lparr>he_event = e, he_serialized_size = sz\<rparr>],
           ah_serialized_bytes := entry_bytes (drop n (ah_events h)) + sz,
           ah_history_truncated := ah_history_truncated h \<or> 0 < n\<rparr>"
proof -
  from push obtain bytes where enc: "encode_event S e = Inr bytes" and sz: "length bytes = sz"
    and small: "length bytes \<le> ah_max_bytes h" and "sz \<noteq> 0"
    by (auto simp: history_push_def split: if_split_asm)
  then have ne: "bytes \<noteq> []" by auto
  from history_push_first_fit [OF inv enc ne small] push sz enc show ?thesis by auto
qed

lemma history_push_inv:
  assumes "history_inv S h" and "history_push S e sz h = Inr h'"
  shows "history_inv S h'"
  using history_push_Inr [OF assms] assms(1)
  by (auto simp: history_inv_def fits_def) (meson in_set_dropD)

section \<open>The contract with the broker\<close>

definition suffix_of_log :: "'e list \<Rightarrow> bool \<Rightarrow> 'e list \<Rightarrow> bool" where
  "suffix_of_log es truncated log \<longleftrightarrow> (\<exists>k \<le> length log. es = drop k log \<and> truncated = (0 < k))"

locale retention =
  fixes push :: "'e \<Rightarrow> nat \<Rightarrow> 'h \<Rightarrow> 'err + 'h"
    and entries :: "'h \<Rightarrow> 'e list"
    and truncated :: "'h \<Rightarrow> bool"
    and inv :: "'h \<Rightarrow> bool"
  assumes push_inv: "inv h \<Longrightarrow> push e n h = Inr h' \<Longrightarrow> inv h'"
    and push_entries: "inv h \<Longrightarrow> push e n h = Inr h' \<Longrightarrow>
      \<exists>k \<le> length (entries h). entries h' = drop k (entries h) @ [e] \<and>
        truncated h' = (truncated h \<or> 0 < k)"
begin

lemma push_retains_suffix:
  assumes "inv h" and "suffix_of_log (entries h) (truncated h) log" and "push e n h = Inr h'"
  shows "suffix_of_log (entries h') (truncated h') (log @ [e])"
proof -
  from assms(2) obtain a where a: "a \<le> length log" "entries h = drop a log" "truncated h = (0 < a)"
    by (auto simp: suffix_of_log_def)
  from push_entries [OF assms(1,3)] obtain k where
    k: "k \<le> length (entries h)" "entries h' = drop k (entries h) @ [e]" "truncated h' = (truncated h \<or> 0 < k)"
    by blast
  from a k have "a + k \<le> length log" by simp
  with a k show ?thesis
    unfolding suffix_of_log_def by (intro exI [of _ "a + k"]) (auto simp: add.commute)
qed

end

interpretation history_retention:
  retention "history_push S" "\<lambda>h. map he_event (ah_events h)" ah_history_truncated "history_inv S" for S
proof
  show "history_inv S h'" if "history_inv S h" "history_push S e n h = Inr h'" for h e n h'
    using that by (rule history_push_inv)
  show "\<exists>k \<le> length (map he_event (ah_events h)).
      map he_event (ah_events h') = drop k (map he_event (ah_events h)) @ [e] \<and>
      ah_history_truncated h' = (ah_history_truncated h \<or> 0 < k)"
    if "history_inv S h" "history_push S e n h = Inr h'" for h e n h'
    using history_push_Inr [OF that] by (auto simp: drop_map)
qed

section \<open>What is retained\<close>

text \<open>The reference for retention: of everything ever accepted, the longest newest part that keeps
  within the two caps. It drops from the front until the rest fits.\<close>

definition event_size :: "serde \<Rightarrow> activity_event \<Rightarrow> nat" where
  "event_size S e = (case encode_event S e of Inr bytes \<Rightarrow> length bytes | Inl _ \<Rightarrow> 0)"

definition within_caps :: "serde \<Rightarrow> nat \<Rightarrow> nat \<Rightarrow> activity_event list \<Rightarrow> bool" where
  "within_caps S max_events max_bytes log \<longleftrightarrow>
     length log \<le> max_events \<and> sum_list (map (event_size S) log) \<le> max_bytes"

fun retained_log :: "serde \<Rightarrow> nat \<Rightarrow> nat \<Rightarrow> activity_event list \<Rightarrow> activity_event list" where
  "retained_log S max_events max_bytes [] = []"
| "retained_log S max_events max_bytes (e # log) =
     (if within_caps S max_events max_bytes (e # log) then e # log else retained_log S max_events max_bytes log)"

lemma within_caps_append: "within_caps S me mb (xs @ ys) \<Longrightarrow> within_caps S me mb xs"
  by (simp add: within_caps_def)

lemma retained_log_first_fit:
  "k \<le> length log \<Longrightarrow> within_caps S me mb (drop k log) \<Longrightarrow> \<forall>j < k. \<not> within_caps S me mb (drop j log) \<Longrightarrow>
     retained_log S me mb log = drop k log"
proof (induction log arbitrary: k)
  case (Cons e log)
  show ?case
  proof (cases k)
    case 0
    with Cons.prems show ?thesis by simp
  next
    case (Suc i)
    with Cons.prems have "\<forall>j < i. \<not> within_caps S me mb (drop j log)" "\<not> within_caps S me mb (e # log)"
      by (metis Suc_less_eq drop_Suc_Cons, metis drop0 zero_less_Suc)
    with Suc Cons show ?thesis by simp
  qed
qed simp

text \<open>The history holds the reference; \<open>a\<close> events were evicted, each because it had to.\<close>

definition holds_retained :: "serde \<Rightarrow> nat \<Rightarrow> nat \<Rightarrow> activity_history \<Rightarrow> activity_event list \<Rightarrow> bool" where
  "holds_retained S me mb h log \<longleftrightarrow> ah_max_events h = me \<and> ah_max_bytes h = mb \<and>
     (\<exists>a \<le> length log. map he_event (ah_events h) = drop a log \<and>
        (\<forall>j < a. \<not> within_caps S me mb (drop j log)))"

lemma entry_bytes_sizes:
  "history_inv S h \<Longrightarrow> set es \<subseteq> set (ah_events h) \<Longrightarrow>
     entry_bytes es = sum_list (map (event_size S) (map he_event es))"
  by (induction es) (auto simp: history_inv_def event_size_def)

lemma history_within_caps:
  "history_inv S h \<Longrightarrow> within_caps S (ah_max_events h) (ah_max_bytes h) (map he_event (ah_events h))"
  using entry_bytes_sizes [of S h "ah_events h"] by (simp add: within_caps_def history_inv_def)

lemma fits_within_caps:
  assumes inv: "history_inv S h" and enc: "encode_event S e = Inr bytes" and k: "k \<le> length (ah_events h)"
  shows "fits h (length bytes) k \<longleftrightarrow>
    within_caps S (ah_max_events h) (ah_max_bytes h) (drop k (map he_event (ah_events h)) @ [e])"
proof -
  have "entry_bytes (drop k (ah_events h)) = sum_list (map (event_size S) (map he_event (drop k (ah_events h))))"
    by (rule entry_bytes_sizes [OF inv set_drop_subset])
  then show ?thesis using enc k by (auto simp: fits_def within_caps_def event_size_def drop_map)
qed

lemma push_holds_retained:
  assumes inv: "history_inv S h" and old: "holds_retained S me mb h log" and push: "history_push S e sz h = Inr h'"
  shows "holds_retained S me mb h' (log @ [e])"
proof -
  from old obtain a where a: "a \<le> length log" "map he_event (ah_events h) = drop a log"
    "\<forall>j < a. \<not> within_caps S me mb (drop j log)" and caps: "ah_max_events h = me" "ah_max_bytes h = mb"
    by (auto simp: holds_retained_def)
  from history_push_Inr [OF inv push] obtain n bytes where
    n: "n \<le> length (ah_events h)" "\<forall>j < n. \<not> fits h (length bytes) j" and enc: "encode_event S e = Inr bytes"
    and h': "h' = h\<lparr>ah_events := drop n (ah_events h) @ [\<lparr>he_event = e, he_serialized_size = sz\<rparr>],
           ah_serialized_bytes := entry_bytes (drop n (ah_events h)) + sz,
           ah_history_truncated := ah_history_truncated h \<or> 0 < n\<rparr>" by blast
  have len: "length (ah_events h) = length log - a" using a(2) by (metis length_drop length_map)
  have "\<not> within_caps S me mb (drop j (log @ [e]))" if "j < a + n" for j
  proof (cases "j < a")
    case True
    then have "drop j (log @ [e]) = drop j log @ [e]" using a(1) by simp
    with True a(3) within_caps_append show ?thesis by metis
  next
    case False
    then have "\<not> within_caps S me mb (drop (j - a) (map he_event (ah_events h)) @ [e])"
      using that n fits_within_caps [OF inv enc, of "j - a"] by (simp add: caps)
    moreover have "drop (j - a) (map he_event (ah_events h)) @ [e] = drop j (log @ [e])"
      using False that n(1) len a(1) by (simp add: a(2))
    ultimately show ?thesis by simp
  qed
  moreover have "map he_event (ah_events h') = drop (a + n) (log @ [e])"
    using a(1) n(1) len drop_map [of n he_event "ah_events h"] by (simp add: h' a(2) add.commute)
  ultimately show ?thesis
    using caps n(1) len a(1) by (auto simp: holds_retained_def h' intro!: exI [of _ "a + n"])
qed

lemma holds_retained_exact:
  assumes "history_inv S h" and "holds_retained S me mb h log"
  shows "map he_event (ah_events h) = retained_log S me mb log"
  using assms(2) history_within_caps [OF assms(1)] retained_log_first_fit
  by (auto simp: holds_retained_def)

lemma history_new_inv: "history_inv S history_new"
  by (simp add: history_inv_def history_new_def MAX_ACTIVITY_HISTORY_EVENTS_def
      MAX_ACTIVITY_HISTORY_BYTES_def)

lemma history_with_limits_inv: "history_with_limits me mb = Inr h \<Longrightarrow> history_inv S h"
  by (auto simp: history_inv_def history_with_limits_def split: if_split_asm)

section \<open>Properties\<close>

text \<open>Pushing an event that fits the byte cap at all never fails on a history that satisfies
  its invariant: the event is appended, the invariant (count and byte caps, exact byte
  accounting) is kept, and the eviction is minimal, so the retained entries are the longest
  suffix that leaves room for the new event.\<close>

theorem history_push_minimal_eviction:
  assumes "history_inv S h" and "encode_event S e = Inr bytes" and "bytes \<noteq> []"
    and "length bytes \<le> ah_max_bytes h"
  shows "\<exists>h' n. history_push S e (length bytes) h = Inr h' \<and> history_inv S h' \<and>
    n \<le> length (ah_events h) \<and>
    ah_events h' = drop n (ah_events h) @ [\<lparr>he_event = e, he_serialized_size = length bytes\<rparr>] \<and>
    ah_history_truncated h' = (ah_history_truncated h \<or> 0 < n) \<and>
    (\<forall>j < n. ah_max_events h \<le> length (ah_events h) - j \<or>
       ah_max_bytes h < entry_bytes (drop j (ah_events h)) + length bytes)"
proof -
  from history_push_first_fit [OF assms] obtain n h' where
    n: "n \<le> length (ah_events h)" "\<forall>j < n. \<not> fits h (length bytes) j"
    and push: "history_push S e (length bytes) h = Inr h'"
    and h': "h' = h\<lparr>ah_events := drop n (ah_events h) @ [\<lparr>he_event = e, he_serialized_size = length bytes\<rparr>],
             ah_serialized_bytes := entry_bytes (drop n (ah_events h)) + length bytes,
             ah_history_truncated := ah_history_truncated h \<or> 0 < n\<rparr>"
    by blast
  from history_push_inv [OF assms(1) push] push n h' show ?thesis
    by (auto simp: fits_def not_less not_le intro!: exI [of _ h'] exI [of _ n])
qed

text \<open>\<^verbatim>\<open>tail\<close> returns, in sequence order, the newest matching events: as many as the limit
  allows, with every matching event it leaves out no newer than any it returns.\<close>

theorem history_tail_newest:
  assumes "0 < limit" and "limit \<le> MAX_ACTIVITY_TAIL"
  shows "\<exists>r older. history_tail h session_id limit = Inr r \<and>
    sorted (map ev_sequence r) \<and>
    length r = min limit (length (filter (session_matches session_id) (map he_event (ah_events h)))) \<and>
    mset older + mset r = mset (filter (session_matches session_id) (map he_event (ah_events h))) \<and>
    (\<forall>a \<in> set older. \<forall>b \<in> set r. ev_sequence a \<le> ev_sequence b)"
proof -
  define matching where "matching = filter (session_matches session_id) (map he_event (ah_events h))"
  define es where "es = sort_key (\<lambda>entry. ev_sequence (he_event entry))
    (filter (\<lambda>entry. session_matches session_id (he_event entry)) (ah_events h))"
  define n where "n = length es - limit"
  have srt: "sorted (map ev_sequence (map he_event es))"
    unfolding es_def by (simp add: comp_def)
  have matching: "mset (map he_event es) = mset matching"
    by (simp add: es_def matching_def filter_map comp_def)
  have split: "map he_event es = take n (map he_event es) @ drop n (map he_event es)" by simp
  have tail: "history_tail h session_id limit = Inr (drop n (map he_event es))"
    using assms by (simp add: history_tail_def es_def n_def Let_def drop_map)
  have ord: "sorted (map ev_sequence (take n (map he_event es)) @ map ev_sequence (drop n (map he_event es)))"
    using srt split by (metis map_append)
  have len: "length es = length matching" using mset_eq_length [OF matching] by simp
  have "mset (take n (map he_event es)) + mset (drop n (map he_event es)) = mset matching"
    using matching split by (metis mset_append)
  moreover from ord have "sorted (map ev_sequence (drop n (map he_event es)))"
    and "\<forall>a \<in> set (take n (map he_event es)). \<forall>b \<in> set (drop n (map he_event es)). ev_sequence a \<le> ev_sequence b"
    by (auto simp: sorted_append)
  moreover have "length (drop n (map he_event es)) = min limit (length matching)"
    using len by (simp add: n_def)
  ultimately show ?thesis using tail unfolding matching_def by blast
qed

definition sample_history_event :: "u64 \<Rightarrow> activity_event" where
  "sample_history_event q = \<lparr>ev_schema_version = 1, ev_sequence = q, ev_operation_id = 5,
     ev_timestamp_ms = 0, ev_session_id = None, ev_session_instance = None,
     ev_operation = GitPush, ev_state = Running, ev_duration_ms = None, ev_safe_summary = []\<rparr>"

definition sample_history_serde :: serde where
  "sample_history_serde = \<lparr>uuid_print = (\<lambda>_. ''u''), uuid_parse = (\<lambda>_. None), to_vec = (\<lambda>_. ''ab''),
     from_slice = (\<lambda>_. None)\<rparr>"

definition sample_history :: activity_history where
  "sample_history = \<lparr>ah_max_events = 2, ah_max_bytes = 5,
     ah_events = [\<lparr>he_event = sample_history_event 1, he_serialized_size = 2\<rparr>,
                  \<lparr>he_event = sample_history_event 2, he_serialized_size = 2\<rparr>],
     ah_serialized_bytes = 4, ah_history_truncated = False\<rparr>"

lemma sample_history_encodes:
  "q \<noteq> 0 \<Longrightarrow> encode_event sample_history_serde (sample_history_event q) = Inr ''ab''"
  by (simp add: encode_event_def validate_event_ok sample_history_event_def terminal_state_def
      ACTIVITY_SCHEMA_VERSION_def validate_session_identity_def validate_safe_summary_def
      MAX_ACTIVITY_EVENT_BYTES_def sample_history_serde_def)

lemma sample_history_ok: "history_inv sample_history_serde sample_history"
  by (simp add: history_inv_def sample_history_def sample_history_encodes
      MAX_ACTIVITY_HISTORY_EVENTS_def MAX_ACTIVITY_HISTORY_BYTES_def)

theorem history_push_minimal_eviction_witness:
  "\<exists>h' n. history_push sample_history_serde (sample_history_event 3) (length ''ab'') sample_history = Inr h' \<and>
    history_inv sample_history_serde h' \<and> n \<le> length (ah_events sample_history) \<and>
    ah_events h' = drop n (ah_events sample_history)
      @ [\<lparr>he_event = sample_history_event 3, he_serialized_size = length ''ab''\<rparr>] \<and>
    ah_history_truncated h' = (ah_history_truncated sample_history \<or> 0 < n) \<and>
    (\<forall>j < n. ah_max_events sample_history \<le> length (ah_events sample_history) - j \<or>
       ah_max_bytes sample_history < entry_bytes (drop j (ah_events sample_history)) + length ''ab'')"
  by (rule history_push_minimal_eviction)
    (simp_all add: sample_history_ok sample_history_encodes, simp add: sample_history_def)

theorem history_tail_newest_witness:
  "\<exists>r older. history_tail sample_history None 1 = Inr r \<and>
    sorted (map ev_sequence r) \<and>
    length r = min 1 (length (filter (session_matches None) (map he_event (ah_events sample_history)))) \<and>
    mset older + mset r = mset (filter (session_matches None) (map he_event (ah_events sample_history))) \<and>
    (\<forall>a \<in> set older. \<forall>b \<in> set r. ev_sequence a \<le> ev_sequence b)"
  by (rule history_tail_newest) (simp_all add: MAX_ACTIVITY_TAIL_def)

end
