(* ===== verification/Activity_Broker.thy ===== *)
theory Activity_Broker
  imports Activity_History
begin

text \<open>
  The activity broker, \<^verbatim>\<open>src/src/activity/broker.rs\<close>: sequence numbers, retention and
  replay followed by live delivery. The tokio pieces are arguments: the broadcast channel is an
  abstract state \<open>'ch\<close> with its \<open>send\<close>, the outcome of \<^verbatim>\<open>try_lock\<close> and of
  \<^verbatim>\<open>try_acquire_owned\<close> are values of the call, and a receiver is the list of results its
  \<^verbatim>\<open>recv\<close> yields. \<open>broadcast_feed\<close> states what tokio documents about that list.
\<close>

datatype broker_error =
    InvalidCapacity | InvalidInput | Busy | EventTooLarge | SequenceExhausted | Closed
  | InvariantViolation

definition MAX_ACTIVITY_BROADCAST_CAPACITY :: nat where "MAX_ACTIVITY_BROADCAST_CAPACITY = 1024"

definition MAX_ACTIVITY_SUBSCRIBERS :: nat where "MAX_ACTIVITY_SUBSCRIBERS = 16"

record activity_gap =
  gap_after_sequence :: u64
  gap_through_sequence :: u64
  gap_dropped :: u64

datatype activity_delivery = Event activity_event | Gap activity_gap

record 'ch activity_broker =
  br_history :: activity_history
  br_live :: 'ch
  br_last_sequence :: u64
  br_generation :: uuid
  br_max_subscribers :: nat

datatype lock_outcome = LockOk | WouldBlock | Poisoned

definition try_state :: "lock_outcome \<Rightarrow> broker_error + unit" where
  "try_state outcome =
     (case outcome of LockOk \<Rightarrow> Inr () | WouldBlock \<Rightarrow> Inl Busy | Poisoned \<Rightarrow> Inl InvariantViolation)"

definition map_history_error :: "history_error \<Rightarrow> broker_error" where
  "map_history_error e =
     (case e of
        history_error.EventTooLarge \<Rightarrow> EventTooLarge
      | history_error.InvalidCapacity \<Rightarrow> InvalidCapacity
      | InvalidTail \<Rightarrow> InvalidInput
      | InvalidEvent \<Rightarrow> InvalidInput
      | InvalidSerializedSize \<Rightarrow> InvariantViolation
      | SerializedSizeMismatch \<Rightarrow> InvariantViolation
      | history_error.InvariantViolation \<Rightarrow> InvariantViolation)"

definition broker_with_limits ::
  "(nat \<Rightarrow> 'ch) \<Rightarrow> activity_history \<Rightarrow> nat \<Rightarrow> nat \<Rightarrow> uuid \<Rightarrow> broker_error + 'ch activity_broker" where
  "broker_with_limits channel history broadcast_capacity max_subscribers generation =
     (if \<not> (1 \<le> broadcast_capacity \<and> broadcast_capacity \<le> MAX_ACTIVITY_BROADCAST_CAPACITY)
         \<or> \<not> (1 \<le> max_subscribers \<and> max_subscribers \<le> MAX_ACTIVITY_SUBSCRIBERS)
      then Inl InvalidCapacity
      else if ah_events history \<noteq> [] then Inl InvalidInput
      else Inr \<lparr>br_history = history, br_live = channel broadcast_capacity, br_last_sequence = 0,
        br_generation = generation, br_max_subscribers = max_subscribers\<rparr>)"

definition broker_new :: "(nat \<Rightarrow> 'ch) \<Rightarrow> uuid \<Rightarrow> broker_error + 'ch activity_broker" where
  "broker_new channel generation =
     broker_with_limits channel history_new MAX_ACTIVITY_BROADCAST_CAPACITY MAX_ACTIVITY_SUBSCRIBERS generation"

text \<open>The production limits are valid, so the \<^verbatim>\<open>expect\<close> of \<^verbatim>\<open>new\<close> never panics.\<close>

lemma broker_new_ok: "is_ok (broker_new channel generation)"
  by (simp add: broker_new_def broker_with_limits_def history_new_def
      MAX_ACTIVITY_BROADCAST_CAPACITY_def MAX_ACTIVITY_SUBSCRIBERS_def)

text \<open>One call of \<^verbatim>\<open>publish\<close>: the fallible part computes the new state, which replaces the
  old one only on success.\<close>

definition publish_step ::
  "serde \<Rightarrow> (activity_event \<Rightarrow> 'ch \<Rightarrow> 'ch) \<Rightarrow> lock_outcome \<Rightarrow> u64 \<Rightarrow> activity_update \<Rightarrow> string option
     \<Rightarrow> uuid option \<Rightarrow> 'ch activity_broker \<Rightarrow> broker_error + (activity_event \<times> 'ch activity_broker)" where
  "publish_step S send lock timestamp_ms u session_id session_instance b =
     and_then (map_err (\<lambda>_. InvalidInput) (validate_update u)) (\<lambda>_.
     and_then (map_err (\<lambda>_. InvalidInput) (stamp_new 1 0 session_id session_instance)) (\<lambda>_.
     and_then (try_state lock) (\<lambda>_.
     and_then (ok_or (u64_checked_add (br_last_sequence b) 1) SequenceExhausted) (\<lambda>sequence.
     and_then (map_err (\<lambda>_. InvalidInput) (stamp_new sequence timestamp_ms session_id session_instance)) (\<lambda>stamp.
     and_then (map_err (\<lambda>_. InvalidInput) (event_from_update u stamp)) (\<lambda>event.
     and_then (map_err (\<lambda>e. case e of TooLarge \<Rightarrow> EventTooLarge | _ \<Rightarrow> InvalidInput) (encode_event S event)) (\<lambda>bytes.
     and_then (map_err map_history_error (history_push S event (length bytes) (br_history b))) (\<lambda>history.
     Inr (event, b\<lparr>br_history := history, br_last_sequence := sequence,
                   br_live := send event (br_live b)\<rparr>)))))))))"

definition publish ::
  "serde \<Rightarrow> (activity_event \<Rightarrow> 'ch \<Rightarrow> 'ch) \<Rightarrow> lock_outcome \<Rightarrow> u64 \<Rightarrow> activity_update \<Rightarrow> string option
     \<Rightarrow> uuid option \<Rightarrow> 'ch activity_broker \<Rightarrow> (broker_error + activity_event) \<times> 'ch activity_broker" where
  "publish S send lock timestamp_ms u session_id session_instance b =
     (case publish_step S send lock timestamp_ms u session_id session_instance b of
        Inl e \<Rightarrow> (Inl e, b)
      | Inr (event, b') \<Rightarrow> (Inr event, b'))"

record pending_gap =
  pg_after_sequence :: u64
  pg_lagged :: u64

record subscription =
  su_snapshot :: "activity_event list"
  su_cutoff :: u64
  su_generation :: uuid
  su_history_truncated :: bool
  su_session_id :: "string option"
  su_cursor :: u64
  su_pending_event :: "activity_event option"
  su_pending_gap :: "pending_gap option"

definition subscribe_snapshot ::
  "bool \<Rightarrow> lock_outcome \<Rightarrow> string option \<Rightarrow> nat \<Rightarrow> 'ch activity_broker \<Rightarrow> broker_error + subscription" where
  "subscribe_snapshot permit lock session_id tail b =
     (if MAX_ACTIVITY_TAIL < tail then Inl InvalidInput
      else
        and_then (map_err (\<lambda>_. InvalidInput) (stamp_new 1 0 session_id None)) (\<lambda>_.
        ensure permit Busy (
        and_then (try_state lock) (\<lambda>_.
        and_then (map_err map_history_error (history_tail (br_history b) session_id tail)) (\<lambda>snapshot.
        Inr \<lparr>su_snapshot = snapshot, su_cutoff = br_last_sequence b, su_generation = br_generation b,
          su_history_truncated = ah_history_truncated (br_history b), su_session_id = session_id,
          su_cursor = br_last_sequence b, su_pending_event = None, su_pending_gap = None\<rparr>)))))"

datatype recv_result = RecvOk activity_event | RecvLagged u64 | RecvClosed

definition record_lagged :: "u64 \<Rightarrow> subscription \<Rightarrow> broker_error + subscription" where
  "record_lagged dropped su =
     (if dropped = 0 then Inl InvariantViolation
      else case su_pending_gap su of
          Some pending \<Rightarrow>
            and_then (ok_or (u64_checked_add (pg_lagged pending) dropped) InvariantViolation) (\<lambda>lagged.
              Inr (su\<lparr>su_pending_gap := Some (pending\<lparr>pg_lagged := lagged\<rparr>)\<rparr>))
        | None \<Rightarrow>
            Inr (su\<lparr>su_pending_gap := Some \<lparr>pg_after_sequence = su_cursor su, pg_lagged = dropped\<rparr>\<rparr>))"

text \<open>The body of the receive loop for one event; \<open>None\<close> is \<^verbatim>\<open>continue\<close>.\<close>

definition recv_event ::
  "subscription \<Rightarrow> activity_event \<Rightarrow> (broker_error + activity_delivery) option \<times> subscription" where
  "recv_event su event =
     (case su_pending_gap su of
        Some gap \<Rightarrow>
          (let su' = su\<lparr>su_pending_gap := None\<rparr>
           in case u64_checked_sub (ev_sequence event) 1 of
                None \<Rightarrow> (Some (Inl InvariantViolation), su')
              | Some through_sequence \<Rightarrow>
                  (case u64_checked_sub through_sequence (pg_after_sequence gap) of
                     None \<Rightarrow> (Some (Inl InvariantViolation), su')
                   | Some dropped \<Rightarrow>
                       (if dropped = 0 \<or> dropped \<noteq> pg_lagged gap
                        then (Some (Inl InvariantViolation), su')
                        else (Some (Inr (Gap \<lparr>gap_after_sequence = pg_after_sequence gap,
                                 gap_through_sequence = through_sequence, gap_dropped = dropped\<rparr>)),
                              su'\<lparr>su_pending_event := Some event\<rparr>))))
      | None \<Rightarrow>
          (if ev_sequence event \<le> su_cursor su then (Some (Inl InvariantViolation), su)
           else
             (let su' = su\<lparr>su_cursor := ev_sequence event\<rparr>
              in if session_matches (su_session_id su) event then (Some (Inr (Event event)), su')
                 else (None, su'))))"

text \<open>The receive loop over the results the channel yields. No result at all means the call is
  still waiting when the list ends.\<close>

fun recv_loop ::
  "subscription \<Rightarrow> recv_result list
     \<Rightarrow> (broker_error + activity_delivery) option \<times> subscription \<times> recv_result list" where
  "recv_loop su [] = (None, su, [])"
| "recv_loop su (RecvOk event # rs) =
     (case recv_event su event of
        (Some r, su') \<Rightarrow> (Some r, su', rs)
      | (None, su') \<Rightarrow> recv_loop su' rs)"
| "recv_loop su (RecvLagged dropped # rs) =
     (case record_lagged dropped su of
        Inl e \<Rightarrow> (Some (Inl e), su, rs)
      | Inr su' \<Rightarrow> recv_loop su' rs)"
| "recv_loop su (RecvClosed # rs) = (Some (Inl Closed), su, rs)"

definition recv ::
  "subscription \<Rightarrow> recv_result list
     \<Rightarrow> (broker_error + activity_delivery) option \<times> subscription \<times> recv_result list" where
  "recv su rs =
     (case su_pending_event su of
        Some event \<Rightarrow>
          (case recv_event (su\<lparr>su_pending_event := None\<rparr>) event of
             (Some r, su') \<Rightarrow> (Some r, su', rs)
           | (None, su') \<Rightarrow> recv_loop su' rs)
      | None \<Rightarrow> recv_loop su rs)"

section \<open>Publishing\<close>

text \<open>The broker after the events \<open>log\<close> were accepted: they are numbered from one without a
  hole, and the history holds a suffix of them.\<close>

definition broker_inv :: "serde \<Rightarrow> 'ch activity_broker \<Rightarrow> activity_event list \<Rightarrow> bool" where
  "broker_inv S b log \<longleftrightarrow>
     unat (br_last_sequence b) = length log \<and>
     map (\<lambda>e. unat (ev_sequence e)) log = [1..<Suc (length log)] \<and>
     history_inv S (br_history b) \<and>
     suffix_of_log (map he_event (ah_events (br_history b))) (ah_history_truncated (br_history b)) log"

lemma publish_step_Inr:
  assumes "publish_step S send lock t u sid inst b = Inr (event, b')"
  shows "\<exists>history bytes. unat (br_last_sequence b) + 1 < 2 ^ 64 \<and>
    event = event_of u \<lparr>es_sequence = br_last_sequence b + 1, es_timestamp_ms = t, es_session_id = sid,
      es_session_instance = inst\<rparr> \<and>
    encode_event S event = Inr bytes \<and>
    history_push S event (length bytes) (br_history b) = Inr history \<and>
    b' = b\<lparr>br_history := history, br_last_sequence := br_last_sequence b + 1,
           br_live := send event (br_live b)\<rparr>"
  using assms
  by (auto simp: publish_step_def stamp_new_Inr_iff event_from_update_def)

lemma publish_step_inv:
  assumes inv: "broker_inv S b log" and pub: "publish_step S send lock t u sid inst b = Inr (event, b')"
  shows "broker_inv S b' (log @ [event]) \<and> ev_sequence event = br_last_sequence b + 1 \<and>
    unat (ev_sequence event) = Suc (length log)"
proof -
  from publish_step_Inr [OF pub] obtain history bytes where
    room: "unat (br_last_sequence b) + 1 < 2 ^ 64"
    and event: "event = event_of u \<lparr>es_sequence = br_last_sequence b + 1, es_timestamp_ms = t,
      es_session_id = sid, es_session_instance = inst\<rparr>"
    and enc: "encode_event S event = Inr bytes"
    and push: "history_push S event (length bytes) (br_history b) = Inr history"
    and b': "b' = b\<lparr>br_history := history, br_last_sequence := br_last_sequence b + 1,
           br_live := send event (br_live b)\<rparr>"
    by blast
  from room have "unat (br_last_sequence b + 1) = Suc (unat (br_last_sequence b))"
    by (simp add: unat_u64_add)
  moreover from event have "ev_sequence event = br_last_sequence b + 1"
    by (simp add: event_of_def)
  ultimately have q: "unat (ev_sequence event) = Suc (length log)"
    using inv by (simp add: broker_inv_def)
  from inv have h: "history_inv S (br_history b)"
    and sfx: "suffix_of_log (map he_event (ah_events (br_history b))) (ah_history_truncated (br_history b)) log"
    by (simp_all add: broker_inv_def)
  from history_retention.push_retains_suffix [OF h sfx push] history_push_inv [OF h push] inv q
  show ?thesis
    by (simp add: broker_inv_def b' event event_of_def)
qed

section \<open>Draining a subscription\<close>

text \<open>A client that keeps calling \<^verbatim>\<open>recv\<close> until it has to wait or gets an error.\<close>

lemma recv_loop_shrinks:
  "recv_loop su rs = (Some r, su', rs') \<Longrightarrow> length rs' < length rs"
  by (induction su rs rule: recv_loop.induct)
    (auto split: prod.splits option.splits sum.splits intro: less_SucI)

lemma recv_event_pending:
  "recv_event su e = (Some (Inr d), su') \<Longrightarrow> su_pending_gap su = None \<Longrightarrow> su_pending_event su' = su_pending_event su"
  by (auto simp: recv_event_def Let_def split: if_split_asm)

definition backlog :: "subscription \<Rightarrow> recv_result list \<Rightarrow> nat" where
  "backlog su rs = 3 * length rs + (if su_pending_event su = None then 0 else 1)
     + (if su_pending_event su \<noteq> None \<and> su_pending_gap su \<noteq> None then 1 else 0)"

lemma recv_event_gap_cleared:
  "recv_event su e = (r, su') \<Longrightarrow> su_pending_gap su' = None"
  by (auto simp: recv_event_def Let_def split: if_split_asm option.split_asm)

lemma recv_backlog:
  assumes "recv su rs = (Some (Inr d), su', rs')"
  shows "backlog su' rs' < backlog su rs"
proof (cases "su_pending_event su")
  case None
  with assms have "length rs' < length rs"
    by (simp add: recv_def recv_loop_shrinks)
  then show ?thesis by (simp add: backlog_def)
next
  case (Some event)
  let ?su = "su\<lparr>su_pending_event := None\<rparr>"
  obtain r su1 where step: "recv_event ?su event = (r, su1)" by fastforce
  show ?thesis
  proof (cases r)
    case None
    with assms Some step have "length rs' < length rs"
      by (simp add: recv_def recv_loop_shrinks)
    then show ?thesis by (simp add: backlog_def)
  next
    case (Some r0)
    with assms \<open>su_pending_event su = Some event\<close> step
    have eq: "su' = su1" "rs' = rs" "recv_event ?su event = (Some (Inr d), su')" by (simp_all add: recv_def)
    from recv_event_gap_cleared [OF eq(3)] recv_event_pending [OF eq(3)] \<open>su_pending_event su = Some event\<close>
    show ?thesis by (cases "su_pending_gap su") (simp_all add: backlog_def eq(2))
  qed
qed

function drain :: "subscription \<Rightarrow> recv_result list \<Rightarrow> (broker_error + activity_delivery) list" where
  "drain su rs =
     (case recv su rs of
        (None, _, _) \<Rightarrow> []
      | (Some (Inl e), _, _) \<Rightarrow> [Inl e]
      | (Some (Inr d), su', rs') \<Rightarrow> Inr d # drain su' rs')"
  by pat_completeness auto
termination
  by (relation "measure (\<lambda>(su, rs). backlog su rs)") (auto dest: recv_backlog [OF sym])

declare drain.simps [simp del]

text \<open>What tokio documents about a receiver that subscribed before \<open>evs\<close> were sent: it yields
  them in order, and \<^verbatim>\<open>Lagged(n)\<close> stands for exactly the next \<open>n\<close> of them.\<close>

fun broadcast_feed :: "activity_event list \<Rightarrow> recv_result list \<Rightarrow> bool" where
  "broadcast_feed evs [] = True"
| "broadcast_feed (e # evs) (RecvOk e' # rs) = (e = e' \<and> broadcast_feed evs rs)"
| "broadcast_feed [] (RecvOk e' # rs) = False"
| "broadcast_feed evs (RecvLagged n # rs) =
     (0 < n \<and> unat n \<le> length evs \<and> broadcast_feed (drop (unat n) evs) rs)"
| "broadcast_feed evs (RecvClosed # rs) = False"

fun contiguous :: "nat \<Rightarrow> activity_event list \<Rightarrow> bool" where
  "contiguous c [] = True"
| "contiguous c (e # evs) = (unat (ev_sequence e) = Suc c \<and> contiguous (Suc c) evs)"

text \<open>The abstract delivery: an event that is read is delivered if it matches the filter, and a
  run of events dropped before it is announced by one exact gap. \<open>c\<close> is the last sequence
  accounted for and \<open>d\<close> the number dropped since.\<close>

fun live_spec :: "string option \<Rightarrow> nat \<Rightarrow> nat \<Rightarrow> activity_event list \<Rightarrow> recv_result list \<Rightarrow> activity_delivery list"
where
  "live_spec sid c d (e # evs) (RecvOk _ # rs) =
     (if 0 < d then [Gap \<lparr>gap_after_sequence = of_nat c, gap_through_sequence = of_nat (c + d),
        gap_dropped = of_nat d\<rparr>] else [])
     @ (if session_matches sid e then [Event e] else [])
     @ live_spec sid (c + d + 1) 0 evs rs"
| "live_spec sid c d evs (RecvLagged n # rs) = live_spec sid c (d + unat n) (drop (unat n) evs) rs"
| "live_spec sid c d evs rs = []"

lemma drain_cong: "recv su rs = recv su' rs' \<Longrightarrow> drain su rs = drain su' rs'"
  by (simp add: drain.simps)

lemma unat_u64_less: "unat (x :: u64) < 2 ^ 64"
  using unsigned_less [of x, where 'a = nat] by simp

lemma u64_of_unat: "unat (x :: u64) = n \<Longrightarrow> x = of_nat n"
  by auto

lemma contiguous_bound: "contiguous c evs \<Longrightarrow> c + length evs < 2 ^ 64 \<or> evs = []"
proof (induction evs arbitrary: c)
  case Nil
  then show ?case by simp
next
  case (Cons e evs)
  then have "unat (ev_sequence e) = Suc c" and "Suc c + length evs < 2 ^ 64 \<or> evs = []"
    using Cons.IH [of "Suc c"] by simp_all
  moreover have "unat (ev_sequence e) < 2 ^ 64" by (rule unat_u64_less)
  ultimately show ?case by (cases evs) auto
qed

lemma contiguous_drop: "contiguous c evs \<Longrightarrow> n \<le> length evs \<Longrightarrow> contiguous (c + n) (drop n evs)"
proof (induction n arbitrary: c evs)
  case 0
  then show ?case by simp
next
  case (Suc n)
  then obtain e es where "evs = e # es" by (cases evs) auto
  with Suc.prems Suc.IH [of "Suc c" es] show ?case by simp
qed

lemma unat_of_nat_u64: "n < 2 ^ 64 \<Longrightarrow> unat (of_nat n :: u64) = n"
  by (simp add: unat_of_nat take_bit_nat_eq_self)

text \<open>A subscription with nothing pending but, possibly, \<open>d\<close> dropped events.\<close>

definition idle_at :: "subscription \<Rightarrow> nat \<Rightarrow> nat \<Rightarrow> bool" where
  "idle_at su c d \<longleftrightarrow>
     c + d < 2 ^ 64 \<and> su_cursor su = of_nat c \<and> su_pending_event su = None \<and>
     su_pending_gap su = (if d = 0 then None
       else Some \<lparr>pg_after_sequence = of_nat c, pg_lagged = of_nat d\<rparr>)"

lemma recv_lagged_step:
  assumes idle: "idle_at su c d" and n: "0 < n" and room: "c + d + unat n < 2 ^ 64"
  shows "\<exists>su'. recv su (RecvLagged n # rs) = recv su' rs \<and> idle_at su' c (d + unat n) \<and>
    su_session_id su' = su_session_id su"
proof -
  have nz: "n \<noteq> 0" "unat n \<noteq> 0" using n by (simp_all add: unat_eq_zero)
  have nn: "of_nat (unat n) = n" by simp
  show ?thesis
  proof (cases "d = 0")
    case True
    let ?su = "su\<lparr>su_pending_gap := Some \<lparr>pg_after_sequence = su_cursor su, pg_lagged = n\<rparr>\<rparr>"
    have "recv su (RecvLagged n # rs) = recv ?su rs" and "idle_at ?su c (d + unat n)"
      using idle nz room True by (simp_all add: recv_def record_lagged_def idle_at_def)
    then show ?thesis by (intro exI [of _ ?su]) simp
  next
    case False
    let ?g = "\<lparr>pg_after_sequence = of_nat c, pg_lagged = of_nat d + n\<rparr>"
    let ?su = "su\<lparr>su_pending_gap := Some ?g\<rparr>"
    have "unat (of_nat d :: u64) + unat n < 2 ^ 64"
      using room by (simp add: unat_of_nat_u64)
    then have "recv su (RecvLagged n # rs) = recv ?su rs" and "idle_at ?su c (d + unat n)"
      using idle nz room False
      by (simp_all add: recv_def record_lagged_def idle_at_def u64_checked_add_def)
    then show ?thesis by (intro exI [of _ ?su]) simp
  qed
qed

lemma recv_event_read:
  assumes "su_pending_gap su = None" and "su_cursor su < ev_sequence e"
  shows "recv_event su e =
    (if session_matches (su_session_id su) e then Some (Inr (Event e)) else None,
     su\<lparr>su_cursor := ev_sequence e\<rparr>)"
  using assms by (simp add: recv_event_def Let_def)

lemma recv_event_gap:
  assumes idle: "idle_at su c d" and d: "0 < d" and e: "unat (ev_sequence e) = Suc (c + d)"
  shows "recv_event su e =
    (Some (Inr (Gap \<lparr>gap_after_sequence = of_nat c, gap_through_sequence = of_nat (c + d),
        gap_dropped = of_nat d\<rparr>)),
     su\<lparr>su_pending_gap := None, su_pending_event := Some e\<rparr>)"
proof -
  from idle have cd: "c + d < 2 ^ 64" by (simp add: idle_at_def)
  have q: "ev_sequence e = of_nat (Suc (c + d))" using e by (rule u64_of_unat)
  have "1 \<le> ev_sequence e" using e by (simp add: word_le_nat_alt)
  moreover have "ev_sequence e - 1 = of_nat (c + d)" using q by simp
  moreover have "(of_nat c :: u64) \<le> of_nat (c + d)"
    using cd by (simp add: word_le_nat_alt unat_of_nat_u64 del: of_nat_add)
  moreover have "(of_nat (c + d) :: u64) - of_nat c = of_nat d" by simp
  moreover have "(of_nat d :: u64) \<noteq> 0"
    using d cd by (metis unat_0 unat_of_nat_u64 add_lessD1 add.commute less_numeral_extra(3))
  ultimately show ?thesis
    using idle d by (simp add: recv_event_def idle_at_def Let_def u64_checked_sub_def)
qed

lemma drain_read:
  assumes none: "su_pending_event su = None" "su_pending_gap su = None"
    and fresh: "su_cursor su < ev_sequence e"
  shows "drain (su\<lparr>su_pending_event := Some e\<rparr>) rs =
      (if session_matches (su_session_id su) e then [Inr (Event e)] else [])
      @ drain (su\<lparr>su_cursor := ev_sequence e\<rparr>) rs"
    and "drain su (RecvOk e # rs) =
      (if session_matches (su_session_id su) e then [Inr (Event e)] else [])
      @ drain (su\<lparr>su_cursor := ev_sequence e\<rparr>) rs"
proof -
  let ?su = "su\<lparr>su_cursor := ev_sequence e\<rparr>"
  have clear: "su\<lparr>su_pending_event := None\<rparr> = su"
    "su\<lparr>su_pending_event := None, su_cursor := q\<rparr> = su\<lparr>su_cursor := q\<rparr>" for q
    using none by (cases su, simp)+
  have step: "recv (su\<lparr>su_pending_event := Some e\<rparr>) rs =
      (if session_matches (su_session_id su) e then (Some (Inr (Event e)), ?su, rs) else recv ?su rs)"
    "recv su (RecvOk e # rs) =
      (if session_matches (su_session_id su) e then (Some (Inr (Event e)), ?su, rs) else recv ?su rs)"
    using none fresh by (simp_all add: recv_def recv_event_read clear)
  show "drain (su\<lparr>su_pending_event := Some e\<rparr>) rs =
      (if session_matches (su_session_id su) e then [Inr (Event e)] else []) @ drain ?su rs"
    by (subst drain.simps) (simp add: step(1), simp add: drain.simps)
  show "drain su (RecvOk e # rs) =
      (if session_matches (su_session_id su) e then [Inr (Event e)] else []) @ drain ?su rs"
    by (subst drain.simps) (simp add: step(2), simp add: drain.simps)
qed

lemma drain_refines_spec:
  assumes "idle_at su c d" and "contiguous (c + d) evs" and "broadcast_feed evs rs"
  shows "drain su rs = map Inr (live_spec (su_session_id su) c d evs rs)"
  using assms
proof (induction rs arbitrary: su c d evs)
  case Nil
  then show ?case by (subst drain.simps) (simp add: recv_def idle_at_def)
next
  case (Cons r rs)
  show ?case
  proof (cases r)
    case (RecvOk e')
    with Cons.prems obtain e es where evs: "evs = e # es" and r: "r = RecvOk e" by (cases evs) auto
    from Cons.prems evs have q: "unat (ev_sequence e) = Suc (c + d)" and es: "contiguous (Suc (c + d)) es"
      and feed: "broadcast_feed es rs" using r by auto
    have small: "Suc (c + d) < 2 ^ 64" using q unat_u64_less [of "ev_sequence e"] by simp
    define su1 where "su1 = su\<lparr>su_pending_gap := None\<rparr>"
    from Cons.prems(1) have su1: "su_pending_event su1 = None" "su_pending_gap su1 = None"
      "su_cursor su1 = of_nat c" "su_session_id su1 = su_session_id su"
      by (simp_all add: su1_def idle_at_def)
    have fresh: "su_cursor su1 < ev_sequence e"
      using small q su1(3) by (simp add: word_less_nat_alt unat_of_nat_u64)
    have "ev_sequence e = of_nat (Suc (c + d))" using q by (rule u64_of_unat)
    then have idle: "idle_at (su1\<lparr>su_cursor := ev_sequence e\<rparr>) (c + d + 1) 0"
      using small su1 by (simp add: idle_at_def)
    have rest: "drain (su1\<lparr>su_cursor := ev_sequence e\<rparr>) rs
        = map Inr (live_spec (su_session_id su) (c + d + 1) 0 es rs)"
      using Cons.IH [OF idle _ feed] es su1(4) by simp
    show ?thesis
    proof (cases "d = 0")
      case True
      with Cons.prems(1) have "su = su1" by (simp add: su1_def idle_at_def)
      with drain_read(2) [OF su1(1,2) fresh, of rs] rest r evs True show ?thesis by simp
    next
      case False
      have "drain su (RecvOk e # rs) =
          Inr (Gap \<lparr>gap_after_sequence = of_nat c, gap_through_sequence = of_nat (c + d),
            gap_dropped = of_nat d\<rparr>) # drain (su1\<lparr>su_pending_event := Some e\<rparr>) rs"
        using Cons.prems(1) False recv_event_gap [OF Cons.prems(1) _ q]
        by (subst drain.simps) (simp add: recv_def idle_at_def su1_def)
      with drain_read(1) [OF su1(1,2) fresh, of rs] rest r evs False su1(4) show ?thesis by simp
    qed
  next
    case (RecvLagged n)
    with Cons.prems have n: "0 < n" "unat n \<le> length evs" "broadcast_feed (drop (unat n) evs) rs" by auto
    have "unat n \<noteq> 0" using n(1) by (simp add: unat_eq_zero)
    with n(2) have "evs \<noteq> []" by auto
    with contiguous_bound [OF Cons.prems(2)] n(2) have room: "c + d + unat n < 2 ^ 64" by linarith
    from recv_lagged_step [OF Cons.prems(1) n(1) room, of rs] obtain su' where
      step: "recv su (RecvLagged n # rs) = recv su' rs" and idle: "idle_at su' c (d + unat n)"
      and sid: "su_session_id su' = su_session_id su" by blast
    have "contiguous (c + (d + unat n)) (drop (unat n) evs)"
      using contiguous_drop [OF Cons.prems(2) n(2)] by (simp add: add.assoc)
    from Cons.IH [OF idle this n(3)] drain_cong [OF step] sid RecvLagged show ?thesis by simp
  next
    case RecvClosed
    with Cons.prems show ?thesis by simp
  qed
qed

section \<open>Reachable brokers\<close>

text \<open>The broker after any sequence of \<^verbatim>\<open>publish\<close> calls, failing ones included, with the events
  those calls returned.\<close>

inductive broker_reach ::
  "serde \<Rightarrow> (activity_event \<Rightarrow> 'ch \<Rightarrow> 'ch) \<Rightarrow> 'ch activity_broker \<Rightarrow> 'ch activity_broker \<Rightarrow> activity_event list \<Rightarrow> bool"
  for S send b0 where
  reach_start: "broker_reach S send b0 b0 []"
| reach_published: "broker_reach S send b0 b log \<Longrightarrow> publish S send lock t u sid inst b = (Inr e, b')
    \<Longrightarrow> broker_reach S send b0 b' (log @ [e])"
| reach_rejected: "broker_reach S send b0 b log \<Longrightarrow> publish S send lock t u sid inst b = (Inl err, b')
    \<Longrightarrow> broker_reach S send b0 b' log"

lemma publish_cases:
  "publish S send lock t u sid inst b = (Inr e, b') \<longleftrightarrow> publish_step S send lock t u sid inst b = Inr (e, b')"
  "publish S send lock t u sid inst b = (Inl err, b') \<longleftrightarrow>
     publish_step S send lock t u sid inst b = Inl err \<and> b' = b"
  by (auto simp: publish_def split: sum.splits prod.splits)

lemma broker_start_inv:
  assumes "history_with_limits me mb = Inr h" and "broker_with_limits channel h cap ms gen = Inr b0"
  shows "broker_inv S b0 []"
  using assms history_with_limits_inv [OF assms(1), of S]
  by (auto simp: broker_inv_def broker_with_limits_def history_with_limits_def suffix_of_log_def
      split: if_split_asm)

lemma broker_reach_inv:
  assumes "broker_reach S send b0 b log" and "broker_inv S b0 []"
  shows "broker_inv S b log"
  using assms
  by (induction rule: broker_reach.induct) (simp_all add: publish_cases publish_step_inv)

lemma broker_reach_retained:
  assumes "broker_reach S send b0 b log" and start: "broker_inv S b0 []"
  shows "holds_retained S (ah_max_events (br_history b0)) (ah_max_bytes (br_history b0)) (br_history b) log"
  using assms(1)
proof (induction rule: broker_reach.induct)
  case reach_start
  then show ?case using start by (simp add: holds_retained_def broker_inv_def suffix_of_log_def)
next
  case (reach_published b log lock t u sid inst e b')
  have "history_inv S (br_history b)"
    using broker_reach_inv [OF reach_published.hyps(1) start] by (simp add: broker_inv_def)
  from push_holds_retained [OF this reach_published.IH] publish_step_Inr reach_published.hyps(2) show ?case
    by (fastforce simp: publish_cases)
next
  case (reach_rejected b log lock t u sid inst err b')
  then show ?case by (simp add: publish_cases)
qed

lemma numbered_contiguous:
  "map (\<lambda>e. unat (ev_sequence e)) evs = [Suc c..<Suc (c + length evs)] \<Longrightarrow> contiguous c evs"
proof (induction evs arbitrary: c)
  case Nil
  then show ?case by simp
next
  case (Cons e evs)
  have "[Suc c..<Suc (c + length (e # evs))] = Suc c # [Suc (Suc c)..<Suc (Suc c + length evs)]"
    by (simp add: upt_rec)
  with Cons show ?case by simp
qed

lemma broker_inv_contiguous:
  assumes "broker_inv S b (log @ evs)"
  shows "contiguous (length log) evs"
proof -
  let ?q = "\<lambda>e. unat (ev_sequence e)"
  from assms have "map ?q (log @ evs) = [1..<Suc (length (log @ evs))]" by (simp add: broker_inv_def)
  then have "drop (length log) (map ?q (log @ evs)) = drop (length log) [1..<Suc (length (log @ evs))]"
    by (rule arg_cong)
  then show ?thesis by (intro numbered_contiguous) (simp add: drop_upt add.commute del: upt_Suc)
qed

lemma broker_inv_sequences:
  assumes "broker_inv S b log" and "e \<in> set log"
  shows "1 \<le> unat (ev_sequence e) \<and> unat (ev_sequence e) \<le> length log"
proof -
  from assms have "unat (ev_sequence e) \<in> set [1..<Suc (length log)]"
    by (metis (no_types, lifting) broker_inv_def image_eqI list.set_map)
  then show ?thesis by auto
qed

lemma history_tail_members:
  "history_tail h sid n = Inr r \<Longrightarrow> e \<in> set r \<Longrightarrow> e \<in> set (map he_event (ah_events h)) \<and> session_matches sid e"
  by (auto simp: history_tail_def Let_def split: if_split_asm dest!: in_set_dropD)

lemma broker_history_logged:
  "broker_inv S b log \<Longrightarrow> e \<in> set (map he_event (ah_events (br_history b))) \<Longrightarrow> e \<in> set log"
  by (simp only: broker_inv_def suffix_of_log_def) (metis in_set_dropD)

lemma subscribe_snapshot_Inr:
  "subscribe_snapshot permit lock sid n b = Inr su \<longleftrightarrow>
     n \<le> MAX_ACTIVITY_TAIL \<and> is_ok (stamp_new 1 0 sid None) \<and> permit \<and> lock = LockOk \<and>
     (\<exists>r. history_tail (br_history b) sid n = Inr r \<and>
       su = \<lparr>su_snapshot = r, su_cutoff = br_last_sequence b, su_generation = br_generation b,
          su_history_truncated = ah_history_truncated (br_history b), su_session_id = sid,
          su_cursor = br_last_sequence b, su_pending_event = None, su_pending_gap = None\<rparr>)"
  by (auto simp: subscribe_snapshot_def try_state_def is_ok_iff split: lock_outcome.split_asm)

lemma subscribe_idle:
  assumes "broker_inv S b log" and "subscribe_snapshot permit lock sid n b = Inr su"
  shows "idle_at su (length log) 0 \<and> su_session_id su = sid"
proof -
  from assms(1) have "length log = unat (br_last_sequence b)" by (simp add: broker_inv_def)
  with assms(2) unat_u64_less [of "br_last_sequence b"] show ?thesis
    by (auto simp: subscribe_snapshot_Inr idle_at_def)
qed

text \<open>The sequence numbers of the retained events ascend already, so the sort of \<^verbatim>\<open>tail\<close> has
  nothing to do, and what is replayed is the end of the matching ones.\<close>

lemma broker_tail:
  assumes inv: "broker_inv S b log" and n: "n \<le> MAX_ACTIVITY_TAIL"
  shows "history_tail (br_history b) sid n =
    (let matching = filter (session_matches sid) (map he_event (ah_events (br_history b)))
     in Inr (drop (length matching - n) matching))"
proof -
  let ?es = "ah_events (br_history b)" and ?m = "\<lambda>entry. session_matches sid (he_event entry)"
  from inv obtain k where k: "map he_event ?es = drop k log" by (auto simp: broker_inv_def suffix_of_log_def)
  have "map (\<lambda>entry. unat (ev_sequence (he_event entry))) ?es = map (\<lambda>e. unat (ev_sequence e)) (drop k log)"
    unfolding k [symmetric] by simp
  also have "\<dots> = drop k [1..<Suc (length log)]" using inv by (simp add: broker_inv_def drop_map [symmetric] del: upt_Suc)
  finally have "sorted (map (\<lambda>entry. unat (ev_sequence (he_event entry))) ?es)"
    by (simp add: sorted_wrt_drop del: upt_Suc)
  then have "sorted (map (\<lambda>entry. ev_sequence (he_event entry)) ?es)"
    by (simp add: sorted_map word_le_nat_alt)
  then have "sorted (map (\<lambda>entry. ev_sequence (he_event entry)) (filter ?m ?es))" by (rule sorted_filter)
  then have srt: "sort_key (\<lambda>entry. ev_sequence (he_event entry)) (filter ?m ?es) = filter ?m ?es"
    by (rule sort_key_id_if_sorted)
  have "filter (session_matches sid) (map he_event ?es) = map he_event (filter ?m ?es)"
    by (simp add: filter_map comp_def)
  then show ?thesis using n by (simp add: history_tail_def srt Let_def drop_map)
qed

section \<open>Nothing is lost silently\<close>

definition gap_covers :: "activity_delivery \<Rightarrow> activity_event \<Rightarrow> bool" where
  "gap_covers d e =
     (case d of Gap g \<Rightarrow> gap_after_sequence g < ev_sequence e \<and> ev_sequence e \<le> gap_through_sequence g
      | Event _ \<Rightarrow> False)"

lemma contiguous_member:
  "contiguous c evs \<Longrightarrow> e \<in> set evs \<Longrightarrow> c < unat (ev_sequence e) \<and> unat (ev_sequence e) \<le> c + length evs"
  by (induction evs arbitrary: c) fastforce+

lemma contiguous_nth:
  "contiguous c evs \<Longrightarrow> i < length evs \<Longrightarrow> unat (ev_sequence (evs ! i)) = Suc (c + i)"
proof (induction evs arbitrary: c i)
  case Nil
  then show ?case by simp
next
  case (Cons e evs)
  then show ?case by (cases i) auto
qed

lemma gap_covers_range:
  assumes "c < unat (ev_sequence e)" and "unat (ev_sequence e) \<le> c + d" and "c + d < 2 ^ 64"
  shows "gap_covers (Gap \<lparr>gap_after_sequence = of_nat c, gap_through_sequence = of_nat (c + d),
    gap_dropped = n\<rparr>) e"
  using assms
  by (simp add: gap_covers_def word_less_nat_alt word_le_nat_alt unat_of_nat_u64 del: of_nat_add)

text \<open>An event counts as accounted for once a later one has been read: it was delivered, or a gap
  covers it. \<open>l\<close> is the last event read.\<close>

lemma live_spec_accounts:
  assumes "contiguous (c + d) evs" and "broadcast_feed evs (rs @ [RecvOk l])"
    and "c + d < 2 ^ 64"
    and "c < unat (ev_sequence e)" and "ev_sequence e \<le> ev_sequence l"
    and "e \<in> set evs \<or> unat (ev_sequence e) \<le> c + d"
    and "session_matches sid e"
  shows "\<exists>x \<in> set (live_spec sid c d evs (rs @ [RecvOk l])). x = Event e \<or> gap_covers x e"
  using assms
proof (induction rs arbitrary: c d evs)
  case Nil
  then obtain es where evs: "evs = l # es" by (cases evs) auto
  with Nil.prems have l: "unat (ev_sequence l) = Suc (c + d)" by simp
  show ?case
  proof (cases "unat (ev_sequence e) \<le> c + d")
    case True
    with gap_covers_range [OF Nil.prems(4) True Nil.prems(3)] Nil.prems(4) evs show ?thesis by auto
  next
    case False
    with Nil.prems l have "e \<in> set evs" "unat (ev_sequence e) = Suc (c + d)"
      by (simp_all add: word_le_nat_alt)
    with contiguous_member [of "Suc (c + d)" es e] Nil.prems(1) evs have "e = l" by auto
    with Nil.prems evs show ?thesis by simp
  qed
next
  case (Cons r rs)
  show ?case
  proof (cases r)
    case (RecvOk a)
    with Cons.prems obtain es where evs: "evs = a # es" by (cases evs) auto
    with Cons.prems RecvOk have a: "unat (ev_sequence a) = Suc (c + d)" and es: "contiguous (c + d + 1 + 0) es"
      and feed: "broadcast_feed es (rs @ [RecvOk l])" by simp_all
    have room: "c + d + 1 + 0 < 2 ^ 64" using a unat_u64_less [of "ev_sequence a"] by simp
    consider "unat (ev_sequence e) \<le> c + d" | "e = a" | "e \<in> set es"
      using Cons.prems(6) evs by auto
    then show ?thesis
    proof cases
      case 1
      with gap_covers_range [OF Cons.prems(4) 1 Cons.prems(3)] Cons.prems(4) evs RecvOk show ?thesis by auto
    next
      case 2
      with Cons.prems(7) evs RecvOk show ?thesis by simp
    next
      case 3
      with contiguous_member [OF es] have "c + d + 1 < unat (ev_sequence e)" by simp
      from Cons.IH [OF es feed room this Cons.prems(5) _ Cons.prems(7)] 3 evs RecvOk show ?thesis by auto
    qed
  next
    case (RecvLagged n)
    let ?k = "unat n"
    from RecvLagged Cons.prems(2) have n: "0 < n" "?k \<le> length evs"
      and feed: "broadcast_feed (drop ?k evs) (rs @ [RecvOk l])" by simp_all
    have es: "contiguous (c + (d + ?k)) (drop ?k evs)"
      using contiguous_drop [OF Cons.prems(1) n(2)] by (simp add: add.assoc)
    have "?k \<noteq> 0" using n(1) by (simp add: unat_eq_zero)
    with n(2) contiguous_bound [OF Cons.prems(1)] have room: "c + (d + ?k) < 2 ^ 64" by (cases evs) auto
    have "e \<in> set (drop ?k evs) \<or> unat (ev_sequence e) \<le> c + (d + ?k)"
    proof (cases "e \<in> set (take ?k evs)")
      case True
      then obtain i where "i < ?k" "i < length evs" "e = evs ! i" by (auto simp: in_set_conv_nth)
      with contiguous_nth [OF Cons.prems(1)] show ?thesis by simp
    next
      case False
      with Cons.prems(6) show ?thesis by (metis Un_iff append_take_drop_id set_append trans_le_add1 add.assoc)
    qed
    from Cons.IH [OF es feed room Cons.prems(4,5) this Cons.prems(7)] RecvLagged show ?thesis by simp
  next
    case RecvClosed
    with Cons.prems show ?thesis by simp
  qed
qed

lemma publish_step_accepts:
  assumes "validate_update u = Inr ()" and "validate_session_identity sid inst = Inr ()"
    and "unat (br_last_sequence b) + 1 < 2 ^ 64"
    and "event = event_of u \<lparr>es_sequence = br_last_sequence b + 1, es_timestamp_ms = t,
           es_session_id = sid, es_session_instance = inst\<rparr>"
    and "encode_event S event = Inr bytes"
    and "history_push S event (length bytes) (br_history b) = Inr h"
  shows "publish_step S send LockOk t u sid inst b =
    Inr (event, b\<lparr>br_history := h, br_last_sequence := br_last_sequence b + 1,
           br_live := send event (br_live b)\<rparr>)"
proof -
  have "unat (br_last_sequence b + 1) = Suc (unat (br_last_sequence b))"
    using assms(3) by (simp add: unat_u64_add)
  then have "br_last_sequence b + 1 \<noteq> 0" by (metis nat.distinct(1) unat_0)
  then have stamp: "stamp_new (br_last_sequence b + 1) t sid inst =
      Inr \<lparr>es_sequence = br_last_sequence b + 1, es_timestamp_ms = t, es_session_id = sid, es_session_instance = inst\<rparr>"
    "stamp_new 1 0 sid inst = Inr \<lparr>es_sequence = 1, es_timestamp_ms = 0, es_session_id = sid, es_session_instance = inst\<rparr>"
    using assms(2) by (simp_all add: stamp_new_Inr_iff)
  from encode_event_Inr [OF assms(5)] stamp(1) assms(1,4)
  have "event_from_update u \<lparr>es_sequence = br_last_sequence b + 1, es_timestamp_ms = t,
      es_session_id = sid, es_session_instance = inst\<rparr> = Inr event"
    by (auto simp: event_from_update_def stamp_new_def Let_def)
  with stamp assms show ?thesis by (simp add: publish_step_def try_state_def u64_checked_add_def)
qed

section \<open>Properties\<close>

text \<open>C3. Whatever calls a broker has served, failing ones included, the events it accepted carry
  the sequence numbers one, two, three and so on without a hole or a repetition, its counter is
  the last of them, and its history is a suffix of exactly those events, flagged as truncated
  precisely when something was evicted.\<close>

theorem broker_sequences_contiguous:
  assumes "history_with_limits me mb = Inr h" and "broker_with_limits channel h cap ms gen = Inr b0"
    and "broker_reach S send b0 b log"
  shows "map (\<lambda>e. unat (ev_sequence e)) log = [1..<Suc (length log)] \<and>
    unat (br_last_sequence b) = length log \<and>
    history_inv S (br_history b) \<and>
    (\<exists>k \<le> length log. map he_event (ah_events (br_history b)) = drop k log \<and>
       ah_history_truncated (br_history b) = (0 < k))"
  using broker_reach_inv [OF assms(3) broker_start_inv [OF assms(1,2)]]
  by (simp only: broker_inv_def suffix_of_log_def)

text \<open>A valid update published while the lock is free and sequence numbers remain is accepted:
  it gets the next number, is retained as the newest entry and sent to the live channel, and the
  rest of the broker is untouched. While the lock is held elsewhere nothing changes.\<close>

theorem publish_accepts_valid:
  assumes "history_inv S (br_history b)" and "validate_update u = Inr ()"
    and "validate_session_identity sid inst = Inr ()" and "unat (br_last_sequence b) + 1 < 2 ^ 64"
    and "event = event_of u \<lparr>es_sequence = br_last_sequence b + 1, es_timestamp_ms = t,
           es_session_id = sid, es_session_instance = inst\<rparr>"
    and "encode_event S event = Inr bytes" and "bytes \<noteq> []" and "length bytes \<le> ah_max_bytes (br_history b)"
  shows "\<exists>h k. publish S send LockOk t u sid inst b =
      (Inr event, b\<lparr>br_history := h, br_last_sequence := br_last_sequence b + 1,
         br_live := send event (br_live b)\<rparr>) \<and>
    history_inv S h \<and>
    ah_events h = drop k (ah_events (br_history b))
      @ [\<lparr>he_event = event, he_serialized_size = length bytes\<rparr>] \<and>
    publish S send WouldBlock t u sid inst b = (Inl Busy, b)"
proof -
  from history_push_first_fit [OF assms(1,6-8)] obtain h k where
    push: "history_push S event (length bytes) (br_history b) = Inr h"
    and h: "ah_events h = drop k (ah_events (br_history b))
      @ [\<lparr>he_event = event, he_serialized_size = length bytes\<rparr>]"
    by (auto simp del: drop_append)
  from publish_step_accepts [OF assms(2-6) push]
  have "publish S send LockOk t u sid inst b =
      (Inr event, b\<lparr>br_history := h, br_last_sequence := br_last_sequence b + 1,
         br_live := send event (br_live b)\<rparr>)"
    by (simp add: publish_cases)
  moreover have "publish S send WouldBlock t u sid inst b = (Inl Busy, b)"
    using assms(2,3)
    by (simp add: publish_cases publish_step_def try_state_def stamp_new_def Let_def validate_stamp_def)
  ultimately show ?thesis using history_push_inv [OF assms(1) push] h by blast
qed

text \<open>C4. Replay followed by live delivery. Of everything accepted before the subscription the broker
  retains the longest newest part within its caps on events and bytes; the subscription replays
  exactly the last \<open>n\<close> events of that part which match the filter, in order, reports a truncated
  history exactly when something was evicted, and takes its cutoff at the last event accepted. If the
  broker then accepts \<open>evs\<close> and the channel yields them in order, dropping some, the client
  receives exactly the matching events that were not dropped, each dropped run being announced
  by one gap with its exact bounds and count, and never an internal error.\<close>

theorem subscription_delivers_exactly:
  assumes "broker_inv S b0 []" and "broker_reach S send b0 b log"
    and "subscribe_snapshot permit lock sid n b = Inr su"
    and "broker_reach S send b0 b' (log @ evs)" and "broadcast_feed evs rs"
  shows "let kept = retained_log S (ah_max_events (br_history b0)) (ah_max_bytes (br_history b0)) log;
      matching = filter (session_matches sid) kept
    in su_snapshot su = drop (length matching - n) matching \<and>
       (su_history_truncated su \<longleftrightarrow> kept \<noteq> log) \<and>
       unat (su_cutoff su) = length log \<and>
       drain su rs = map Inr (live_spec sid (length log) 0 evs rs)"
proof -
  note inv = broker_reach_inv [OF assms(2,1)]
  note idle = subscribe_idle [OF inv assms(3)]
  have "contiguous (length log + 0) evs"
    using broker_inv_contiguous [OF broker_reach_inv [OF assms(4,1)]] by simp
  with drain_refines_spec [OF _ this assms(5)] idle
  have live: "drain su rs = map Inr (live_spec sid (length log) 0 evs rs)" by blast
  have hist: "history_inv S (br_history b)"
    and sfx: "suffix_of_log (map he_event (ah_events (br_history b))) (ah_history_truncated (br_history b)) log"
    using inv by (simp_all add: broker_inv_def)
  note kept = holds_retained_exact [OF hist broker_reach_retained [OF assms(2,1)]]
  have cut: "ah_history_truncated (br_history b) \<longleftrightarrow> map he_event (ah_events (br_history b)) \<noteq> log"
  proof -
    obtain k where k: "k \<le> length log" "map he_event (ah_events (br_history b)) = drop k log"
      "ah_history_truncated (br_history b) = (0 < k)" using sfx by (auto simp: suffix_of_log_def)
    have "drop k log = log \<longleftrightarrow> k = 0" using k(1) by (metis diff_diff_cancel diff_is_0_eq' drop0 length_drop diff_zero le_refl)
    then show ?thesis by (simp add: k(2,3))
  qed
  show ?thesis
    using assms(3) inv live cut broker_tail [OF inv, of n sid]
    by (auto simp: subscribe_snapshot_Inr broker_inv_def Let_def kept)
qed

text \<open>Nothing is lost silently: once the client has read some event \<open>l\<close>, every matching
  event accepted since the subscription and numbered up to \<open>l\<close> was delivered or lies inside an
  announced gap.\<close>

theorem subscription_accounts_for_all:
  assumes "broker_inv S b0 []" and "broker_reach S send b0 b log"
    and "subscribe_snapshot permit lock sid n b = Inr su"
    and "broker_reach S send b0 b' (log @ evs)" and "broadcast_feed evs (rs @ [RecvOk l])"
    and "e \<in> set evs" and "ev_sequence e \<le> ev_sequence l" and "session_matches sid e"
  shows "Inr (Event e) \<in> set (drain su (rs @ [RecvOk l])) \<or>
    (\<exists>g. Inr (Gap g) \<in> set (drain su (rs @ [RecvOk l])) \<and>
       gap_after_sequence g < ev_sequence e \<and> ev_sequence e \<le> gap_through_sequence g)"
proof -
  note idle = subscribe_idle [OF broker_reach_inv [OF assms(2,1)] assms(3)]
  have cont: "contiguous (length log + 0) evs"
    using broker_inv_contiguous [OF broker_reach_inv [OF assms(4,1)]] by simp
  with drain_refines_spec [OF _ this assms(5)] idle
  have out: "drain su (rs @ [RecvOk l]) = map Inr (live_spec sid (length log) 0 evs (rs @ [RecvOk l]))"
    by blast
  from idle have "length log + 0 < 2 ^ 64" by (simp add: idle_at_def)
  from live_spec_accounts [OF cont assms(5) this _ assms(7) _ assms(8)] assms(6)
    contiguous_member [OF cont assms(6)]
  obtain x where "x \<in> set (live_spec sid (length log) 0 evs (rs @ [RecvOk l]))"
    and "x = Event e \<or> gap_covers x e" by auto
  with out show ?thesis by (cases x) (auto simp: gap_covers_def image_iff)
qed

section \<open>Witnesses\<close>

text \<open>A broker whose channel is the list of the events sent, with room for two events.\<close>

definition sample_send :: "activity_event \<Rightarrow> activity_event list \<Rightarrow> activity_event list" where
  "sample_send e ch = ch @ [e]"

definition sample_update :: activity_update where
  "sample_update = \<lparr>au_schema_version = 1, au_operation_id = 5, au_operation = GitPush,
     au_state = Running, au_duration_ms = None, au_summary = activity_summary.Empty\<rparr>"

definition sample_broker :: "nat list \<Rightarrow> bool \<Rightarrow> nat list \<Rightarrow> activity_event list activity_broker" where
  "sample_broker kept truncated sent = \<lparr>br_history = \<lparr>ah_max_events = 2, ah_max_bytes = 5,
     ah_events = map (\<lambda>q. \<lparr>he_event = sample_history_event (of_nat q), he_serialized_size = 2\<rparr>) kept,
     ah_serialized_bytes = 2 * length kept, ah_history_truncated = truncated\<rparr>,
     br_live = map (\<lambda>q. sample_history_event (of_nat q)) sent, br_last_sequence = of_nat (length sent),
     br_generation = 9, br_max_subscribers = 1\<rparr>"

lemma sample_broker_start:
  "history_with_limits 2 5 = Inr (br_history (sample_broker [] False []))"
  "broker_with_limits (\<lambda>_. []) (br_history (sample_broker [] False [])) 1 1 9 = Inr (sample_broker [] False [])"
  by (simp_all add: history_with_limits_def broker_with_limits_def sample_broker_def
      MAX_ACTIVITY_HISTORY_EVENTS_def MAX_ACTIVITY_HISTORY_BYTES_def
      MAX_ACTIVITY_BROADCAST_CAPACITY_def MAX_ACTIVITY_SUBSCRIBERS_def)

lemma sample_update_ok: "validate_update sample_update = Inr ()"
  using safe_summary_valid [of activity_summary.Empty]
  by (simp add: validate_update_def sample_update_def ACTIVITY_SCHEMA_VERSION_def terminal_state_def
      del: safe_summary_valid)

lemma sample_identity_ok: "validate_session_identity None None = Inr ()"
  by (simp add: validate_session_identity_def)

lemma sample_event_of:
  "event_of sample_update \<lparr>es_sequence = q, es_timestamp_ms = 0, es_session_id = None,
     es_session_instance = None\<rparr> = sample_history_event q"
  by (simp add: event_of_def sample_update_def sample_history_event_def)

lemma sample_publish:
  assumes "q = br_last_sequence b + 1" and "unat (br_last_sequence b) < 9"
    and "history_push sample_history_serde (sample_history_event q) 2 (br_history b) = Inr h"
  shows "publish sample_history_serde sample_send LockOk 0 sample_update None None b =
    (Inr (sample_history_event q), b\<lparr>br_history := h, br_last_sequence := q,
       br_live := sample_send (sample_history_event q) (br_live b)\<rparr>)"
proof -
  have "unat q = Suc (unat (br_last_sequence b))"
    using assms(1,2) by (simp add: unat_u64_add)
  then have "q \<noteq> 0" by (metis nat.distinct(1) unat_0)
  then show ?thesis
    unfolding publish_cases assms(1)
    using assms sample_update_ok sample_identity_ok sample_history_encodes [of q]
    by (intro publish_step_accepts [where bytes = "''ab''"]) (simp_all add: sample_event_of numeral_2_eq_2 [symmetric])
qed

lemma sample_push:
  "history_push sample_history_serde (sample_history_event 1) 2 (br_history (sample_broker [] False []))
     = Inr (br_history (sample_broker [1] False [1]))"
  "history_push sample_history_serde (sample_history_event 2) 2 (br_history (sample_broker [1] False [1]))
     = Inr (br_history (sample_broker [1, 2] False [1, 2]))"
  "history_push sample_history_serde (sample_history_event 3) 2 (br_history (sample_broker [1, 2] False [1, 2]))
     = Inr (br_history (sample_broker [2, 3] True [1, 2, 3]))"
  using encode_event_Inr [OF sample_history_encodes [of 1]] encode_event_Inr [OF sample_history_encodes [of 2]]
    encode_event_Inr [OF sample_history_encodes [of 3]]
  by (simp_all add: history_push_def sample_history_encodes sample_broker_def eviction_scan.simps
      usize_checked_add_def usize_checked_sub_def MAX_ACTIVITY_EVENT_BYTES_def)

lemma sample_publishes:
  "publish sample_history_serde sample_send LockOk 0 sample_update None None (sample_broker [] False [])
     = (Inr (sample_history_event 1), sample_broker [1] False [1])"
  "publish sample_history_serde sample_send LockOk 0 sample_update None None (sample_broker [1] False [1])
     = (Inr (sample_history_event 2), sample_broker [1, 2] False [1, 2])"
  "publish sample_history_serde sample_send LockOk 0 sample_update None None (sample_broker [1, 2] False [1, 2])
     = (Inr (sample_history_event 3), sample_broker [2, 3] True [1, 2, 3])"
  using sample_publish [OF _ _ sample_push(1)] sample_publish [OF _ _ sample_push(2)]
    sample_publish [OF _ _ sample_push(3)]
  by (simp_all add: sample_broker_def sample_send_def)

lemma sample_reach:
  "broker_reach sample_history_serde sample_send (sample_broker [] False [])
     (sample_broker [1] False [1]) [sample_history_event 1]"
  "broker_reach sample_history_serde sample_send (sample_broker [] False [])
     (sample_broker [2, 3] True [1, 2, 3])
     ([sample_history_event 1] @ [sample_history_event 2, sample_history_event 3])"
proof -
  note one = reach_published [OF reach_start sample_publishes(1)]
  note two = reach_published [OF one sample_publishes(2)]
  note three = reach_published [OF two sample_publishes(3)]
  from one three show
    "broker_reach sample_history_serde sample_send (sample_broker [] False [])
       (sample_broker [1] False [1]) [sample_history_event 1]"
    "broker_reach sample_history_serde sample_send (sample_broker [] False [])
       (sample_broker [2, 3] True [1, 2, 3])
       ([sample_history_event 1] @ [sample_history_event 2, sample_history_event 3])"
    by simp_all
qed

definition sample_subscription :: subscription where
  "sample_subscription = \<lparr>su_snapshot = [sample_history_event 1], su_cutoff = 1, su_generation = 9,
     su_history_truncated = False, su_session_id = None, su_cursor = 1, su_pending_event = None,
     su_pending_gap = None\<rparr>"

lemma sample_subscribes:
  "subscribe_snapshot True LockOk None 4 (sample_broker [1] False [1]) = Inr sample_subscription"
  by (simp add: subscribe_snapshot_def try_state_def stamp_new_def validate_stamp_def sample_identity_ok
      history_tail_def sample_broker_def sample_subscription_def MAX_ACTIVITY_TAIL_def session_matches_def)

abbreviation sample_feed :: "recv_result list" where
  "sample_feed \<equiv> [RecvLagged 1] @ [RecvOk (sample_history_event 3)]"

lemma sample_feed_ok: "broadcast_feed [sample_history_event 2, sample_history_event 3] sample_feed"
  by simp

theorem broker_sequences_contiguous_witness:
  "map (\<lambda>e. unat (ev_sequence e)) ([sample_history_event 1] @ [sample_history_event 2, sample_history_event 3])
     = [1, 2, 3] \<and> unat (br_last_sequence (sample_broker [2, 3] True [1, 2, 3])) = 3"
  using broker_sequences_contiguous [OF sample_broker_start sample_reach(2)] by (simp add: numeral_eq_Suc)

theorem publish_accepts_valid_witness:
  "\<exists>h k. publish sample_history_serde sample_send LockOk 0 sample_update None None (sample_broker [1] False [1]) =
      (Inr (sample_history_event 2), (sample_broker [1] False [1])\<lparr>br_history := h, br_last_sequence := 2,
         br_live := [sample_history_event 1, sample_history_event 2]\<rparr>) \<and>
    history_inv sample_history_serde h \<and>
    ah_events h = drop k (ah_events (br_history (sample_broker [1] False [1])))
      @ [\<lparr>he_event = sample_history_event 2, he_serialized_size = length ''ab''\<rparr>] \<and>
    publish sample_history_serde sample_send WouldBlock 0 sample_update None None (sample_broker [1] False [1])
      = (Inl Busy, sample_broker [1] False [1])"
proof -
  have inv: "history_inv sample_history_serde (br_history (sample_broker [1] False [1]))"
    using broker_reach_inv [OF sample_reach(1) broker_start_inv [OF sample_broker_start]]
    by (simp add: broker_inv_def)
  have two: "br_last_sequence (sample_broker [1] False [1]) + 1 = 2"
    "sample_send (sample_history_event 2) (br_live (sample_broker [1] False [1])) =
       [sample_history_event 1, sample_history_event 2]"
    by (simp_all add: sample_broker_def sample_send_def)
  show ?thesis
    by (rule publish_accepts_valid [where b = "sample_broker [1] False [1]" and send = sample_send
        and event = "sample_history_event 2", OF inv sample_update_ok sample_identity_ok, unfolded two])
      (simp_all add: sample_event_of sample_history_encodes, simp_all add: sample_broker_def)
qed

theorem subscription_delivers_exactly_witness:
  "drain sample_subscription sample_feed =
     map Inr (live_spec None 1 0 [sample_history_event 2, sample_history_event 3] sample_feed) \<and>
   live_spec None 1 0 [sample_history_event 2, sample_history_event 3] sample_feed =
     [Gap \<lparr>gap_after_sequence = 1, gap_through_sequence = 2, gap_dropped = 1\<rparr>,
      Event (sample_history_event 3)] \<and>
   su_snapshot sample_subscription = [sample_history_event 1] \<and>
   retained_log sample_history_serde 2 5 [sample_history_event 1] = [sample_history_event 1]"
proof -
  have "retained_log sample_history_serde 2 5 [sample_history_event 1] = [sample_history_event 1]"
    by (simp add: within_caps_def event_size_def sample_history_encodes)
  moreover have "ah_max_events (br_history (sample_broker [] False [])) = 2" "ah_max_bytes (br_history (sample_broker [] False [])) = 5"
    by (simp_all add: sample_broker_def)
  ultimately show ?thesis
    using subscription_delivers_exactly [OF broker_start_inv [OF sample_broker_start] sample_reach(1)
      sample_subscribes sample_reach(2) sample_feed_ok]
    by (simp add: session_matches_def Let_def)
qed

theorem subscription_accounts_for_all_witness:
  "Inr (Event (sample_history_event 2)) \<in> set (drain sample_subscription sample_feed) \<or>
    (\<exists>g. Inr (Gap g) \<in> set (drain sample_subscription sample_feed) \<and>
       gap_after_sequence g < ev_sequence (sample_history_event 2) \<and>
       ev_sequence (sample_history_event 2) \<le> gap_through_sequence g)"
  by (rule subscription_accounts_for_all [OF broker_start_inv [OF sample_broker_start] sample_reach(1)
      sample_subscribes sample_reach(2) sample_feed_ok])
    (simp_all add: session_matches_def sample_history_event_def)

end
