(* ===== verification/Change_Record.thy ===== *)
theory Change_Record
  imports Prelude
begin

text \<open>
  The data of the Change store, \<^verbatim>\<open>src/src/change.rs\<close> lines 15 to 132, and the delivery receipt a
  Change carries, \<^verbatim>\<open>src/src/delivery.rs\<close> lines 118 to 165. Paths are the UTF-8 strings they
  serialise to. The derived serde instances are the pair \<open>change_serde\<close>, whose only law is that
  reading back what was written gives the same value.
\<close>

text \<open>An \<^verbatim>\<open>anyhow\<close> error: a message of the program, or a failure reported by the file system, by
  serde or by a parser of another crate.\<close>

datatype anyhow = Message string | NotFound | Malformed

datatype delivery_state = Accepted | Delegated | ReconciliationRequired | Completed

record pull_request_receipt =
  pr_number :: u64
  pr_head_ref :: string
  pr_base_ref :: string
  pr_revision :: string
  pr_url :: string
  pr_stack_parent_pr_number :: "u64 option"
  pr_stack_linked :: bool

record delivery_observation =
  ob_branch_revision :: "string option"
  ob_pull_request :: "pull_request_receipt option"

record delivery_receipt =
  dr_operation_id :: uuid
  dr_plan_fingerprint :: string
  dr_state :: delivery_state
  dr_delegated_task_id :: "string option"
  dr_branch_revision :: "string option"
  dr_pull_request :: "pull_request_receipt option"
  dr_observation_operation_id :: "uuid option"
  dr_observation_task_id :: "string option"

definition receipt_is_terminal :: "delivery_receipt \<Rightarrow> bool" where
  "receipt_is_terminal d = (dr_state d = Completed)"

record change_scope =
  sp_session_id :: string
  sp_session_started_at :: u64
  sp_session_process_id :: u32
  sp_canonical_root :: string
  sp_repository_id :: string

datatype change_base = OriginMain | Change string

record execution_attempt =
  ea_execution_id :: string
  ea_backend :: string
  ea_executor :: string
  ea_generation :: u64

record writer_lease =
  wl_execution_id :: string
  wl_generation :: u64

record verification =
  vf_revision :: string
  vf_record_revision :: u64
  vf_task_record_revision :: u64
  vf_passed :: bool

record initial_start =
  is_operation_id :: uuid
  is_request_fingerprint :: string
  is_snapshot_operation_id :: uuid
  is_execution_id :: string
  is_snapshot_dispatch_attempted :: bool
  is_snapshot_verified :: bool
  is_vcs_operation_id :: "string option"

record change_record =
  cr_schema_version :: u32
  cr_change_id :: string
  cr_scope :: change_scope
  cr_task_id :: string
  cr_parent_task_id :: "string option"
  cr_parent_change_id :: "string option"
  cr_base :: change_base
  cr_workspace_id :: "string option"
  cr_provisioning_operation_id :: "uuid option"
  cr_allocation_operation_id :: "uuid option"
  cr_allocation_pending :: bool
  cr_executions :: "execution_attempt list"
  cr_initial_start :: "initial_start option"
  cr_writer :: "writer_lease option"
  cr_writer_generation :: u64
  cr_logical_change_id :: "string option"
  cr_materialized_revision :: "string option"
  cr_latest_snapshot_operation_id :: "uuid option"
  cr_task_record_revision :: u64
  cr_verification :: "verification option"
  cr_delivery :: "delivery_receipt option"
  cr_revision :: u64

definition MAX_RECORD :: nat where "MAX_RECORD = 128 * 1024"

definition MAX_EXECUTIONS :: nat where "MAX_EXECUTIONS = 128"

definition label_byte :: "char \<Rightarrow> bool" where
  "label_byte b = (is_ascii_alphanumeric b \<or> b \<in> {CHR ''-'', CHR ''_'', CHR ''.''})"

definition label :: "string \<Rightarrow> anyhow + unit" where
  "label v =
     ensure (v \<noteq> [] \<and> length v \<le> 128 \<and> list_all label_byte v)
       (Message ''invalid Change correlation identifier'') (Inr ())"

definition label_opt :: "string option \<Rightarrow> anyhow + unit" where
  "label_opt v = (case v of None \<Rightarrow> Inr () | Some x \<Rightarrow> label x)"

definition repository_byte :: "char \<Rightarrow> bool" where
  "repository_byte b = (is_ascii_alphanumeric b \<or> b \<in> {CHR ''/'', CHR ''-'', CHR ''_'', CHR ''.''})"

text \<open>\<^verbatim>\<open>canonicalize\<close> is the file system's; \<open>None\<close> is its failure.\<close>

definition scope_validate :: "(string \<Rightarrow> string option) \<Rightarrow> change_scope \<Rightarrow> anyhow + unit" where
  "scope_validate canonicalize sc =
     (let root = sp_canonical_root sc
      in if \<not> (root \<noteq> [] \<and> hd root = CHR ''/'') then Inl (Message ''Change scope must be canonical'')
         else case canonicalize root of
             None \<Rightarrow> Inl NotFound
           | Some path \<Rightarrow>
               ensure (path = root) (Message ''Change scope must be canonical'') (
               and_then (label (sp_session_id sc)) (\<lambda>_.
               ensure (sp_repository_id sc \<noteq> [] \<and> length (sp_repository_id sc) \<le> 255
                   \<and> list_all repository_byte (sp_repository_id sc))
                 (Message ''invalid repository identity'') (Inr ()))))"

record change_serde =
  cr_to_vec :: "change_record \<Rightarrow> string"
  cr_from_slice :: "string \<Rightarrow> change_record option"

definition change_serde_ok :: "change_serde \<Rightarrow> bool" where
  "change_serde_ok S \<longleftrightarrow> (\<forall>r. cr_from_slice S (cr_to_vec S r) = Some r)"

lemma label_Inr_iff: "label v = Inr u \<longleftrightarrow> v \<noteq> [] \<and> length v \<le> 128 \<and> list_all label_byte v"
  by (simp add: label_def)

lemma to_vec_inject: "change_serde_ok S \<Longrightarrow> cr_to_vec S r = cr_to_vec S r' \<longleftrightarrow> r = r'"
  by (metis change_serde_ok_def option.inject)

end
