(* ===== verification/Change_Format.thy ===== *)
theory Change_Format
  imports Change_Record
begin

text \<open>
  A concrete instance of \<open>change_serde\<close>: a self-delimiting text format for change records with
  its reader. It plays the part of serde in the examples and shows that the round-trip law the
  store relies on can be met by an executable pair of functions. Numbers are written in unary,
  strings behind their length.
\<close>

type_synonym 'a reader = "string \<Rightarrow> ('a \<times> string) option"

definition and_read :: "'a reader \<Rightarrow> ('a \<Rightarrow> 'b reader) \<Rightarrow> 'b reader" where
  "and_read p k s = (case p s of None \<Rightarrow> None | Some (x, s') \<Rightarrow> k x s')"

definition read_value :: "'a \<Rightarrow> 'a reader" where
  "read_value x s = Some (x, s)"

lemma and_read_step [simp]: "p s = Some (x, s') \<Longrightarrow> and_read p k s = k x s'"
  by (simp add: and_read_def)

definition put_nat :: "nat \<Rightarrow> string" where
  "put_nat n = replicate n CHR ''1'' @ ''0''"

fun take_nat :: "nat reader" where
  "take_nat [] = None"
| "take_nat (c # cs) =
     (if c = CHR ''1'' then map_option (\<lambda>(n, s). (Suc n, s)) (take_nat cs) else Some (0, cs))"

lemma take_put_nat [simp]: "take_nat (put_nat n @ s) = Some (n, s)"
  by (induction n) (simp_all add: put_nat_def)

lemma put_nat_length [simp]: "length (put_nat n) = Suc n"
  by (simp add: put_nat_def)

definition put_word :: "'a::len word \<Rightarrow> string" where
  "put_word w = put_nat (unat w)"

definition take_word :: "'a::len word reader" where
  "take_word = and_read take_nat (\<lambda>n. read_value (of_nat n))"

lemma take_put_word [simp]: "take_word (put_word w @ s) = Some (w, s)"
  by (simp add: take_word_def put_word_def read_value_def)

definition put_str :: "string \<Rightarrow> string" where
  "put_str x = put_nat (length x) @ x"

definition take_str :: "string reader" where
  "take_str = and_read take_nat (\<lambda>n s. Some (take n s, drop n s))"

lemma take_put_str [simp]: "take_str (put_str x @ s) = Some (x, s)"
  by (simp add: take_str_def put_str_def)

definition put_bool :: "bool \<Rightarrow> string" where
  "put_bool b = put_nat (if b then 1 else 0)"

definition take_bool :: "bool reader" where
  "take_bool = and_read take_nat (\<lambda>n. read_value (n = 1))"

lemma take_put_bool [simp]: "take_bool (put_bool b @ s) = Some (b, s)"
  by (cases b) (simp_all add: take_bool_def put_bool_def read_value_def)

definition put_opt :: "('a \<Rightarrow> string) \<Rightarrow> 'a option \<Rightarrow> string" where
  "put_opt f v = (case v of None \<Rightarrow> put_nat 0 | Some x \<Rightarrow> put_nat 1 @ f x)"

definition take_opt :: "'a reader \<Rightarrow> 'a option reader" where
  "take_opt p = and_read take_nat (\<lambda>n. if n = 0 then read_value None else and_read p (\<lambda>x. read_value (Some x)))"

lemma take_put_opt [simp]:
  assumes "\<And>x s. p (f x @ s) = Some (x, s)"
  shows "take_opt p (put_opt f v @ s) = Some (v, s)"
  by (cases v) (simp_all add: take_opt_def put_opt_def read_value_def assms)

fun put_items :: "('a \<Rightarrow> string) \<Rightarrow> 'a list \<Rightarrow> string" where
  "put_items f [] = []"
| "put_items f (x # xs) = f x @ put_items f xs"

fun take_items :: "'a reader \<Rightarrow> nat \<Rightarrow> 'a list reader" where
  "take_items p 0 = read_value []"
| "take_items p (Suc n) = and_read p (\<lambda>x. and_read (take_items p n) (\<lambda>xs. read_value (x # xs)))"

definition put_list :: "('a \<Rightarrow> string) \<Rightarrow> 'a list \<Rightarrow> string" where
  "put_list f xs = put_nat (length xs) @ put_items f xs"

definition take_list :: "'a reader \<Rightarrow> 'a list reader" where
  "take_list p = and_read take_nat (take_items p)"

lemma take_put_items:
  assumes "\<And>x s. p (f x @ s) = Some (x, s)"
  shows "take_items p (length xs) (put_items f xs @ s) = Some (xs, s)"
  by (induction xs) (simp_all add: read_value_def assms)

lemma take_put_list [simp]:
  assumes "\<And>x s. p (f x @ s) = Some (x, s)"
  shows "take_list p (put_list f xs @ s) = Some (xs, s)"
  by (simp add: take_list_def put_list_def take_put_items assms)

primrec put_state :: "delivery_state \<Rightarrow> string" where
  "put_state Accepted = put_nat 0"
| "put_state Delegated = put_nat 1"
| "put_state ReconciliationRequired = put_nat 2"
| "put_state Completed = put_nat 3"

definition take_state :: "delivery_state reader" where
  "take_state = and_read take_nat (\<lambda>n. read_value
     (if n = 0 then Accepted else if n = 1 then Delegated else if n = 2 then ReconciliationRequired
      else Completed))"

lemma take_put_state [simp]: "take_state (put_state x @ s) = Some (x, s)"
  by (cases x) (simp_all add: take_state_def read_value_def)

primrec put_base :: "change_base \<Rightarrow> string" where
  "put_base OriginMain = put_nat 0"
| "put_base (Change x) = put_nat 1 @ put_str x"

definition take_base :: "change_base reader" where
  "take_base = and_read take_nat (\<lambda>n. if n = 0 then read_value OriginMain
     else and_read take_str (\<lambda>x. read_value (Change x)))"

lemma take_put_base [simp]: "take_base (put_base x @ s) = Some (x, s)"
  by (cases x) (simp_all add: take_base_def read_value_def)

definition put_pr :: "pull_request_receipt \<Rightarrow> string" where
  "put_pr x = put_word (pr_number x) @ put_str (pr_head_ref x) @ put_str (pr_base_ref x)
     @ put_str (pr_revision x) @ put_str (pr_url x)
     @ put_opt put_word (pr_stack_parent_pr_number x) @ put_bool (pr_stack_linked x)"

definition take_pr :: "pull_request_receipt reader" where
  "take_pr =
     and_read take_word (\<lambda>x0.
     and_read take_str (\<lambda>x1.
     and_read take_str (\<lambda>x2.
     and_read take_str (\<lambda>x3.
     and_read take_str (\<lambda>x4.
     and_read (take_opt take_word) (\<lambda>x5.
     and_read take_bool (\<lambda>x6.
     read_value \<lparr>pr_number = x0, pr_head_ref = x1, pr_base_ref = x2, pr_revision = x3,
       pr_url = x4, pr_stack_parent_pr_number = x5, pr_stack_linked = x6\<rparr>)))))))"

lemma take_put_pr [simp]: "take_pr (put_pr x @ s) = Some (x, s)"
  by (simp add: take_pr_def put_pr_def read_value_def)

definition put_dr :: "delivery_receipt \<Rightarrow> string" where
  "put_dr x = put_word (dr_operation_id x) @ put_str (dr_plan_fingerprint x)
     @ put_state (dr_state x) @ put_opt put_str (dr_delegated_task_id x)
     @ put_opt put_str (dr_branch_revision x) @ put_opt put_pr (dr_pull_request x)
     @ put_opt put_word (dr_observation_operation_id x)
     @ put_opt put_str (dr_observation_task_id x)"

definition take_dr :: "delivery_receipt reader" where
  "take_dr =
     and_read take_word (\<lambda>x0.
     and_read take_str (\<lambda>x1.
     and_read take_state (\<lambda>x2.
     and_read (take_opt take_str) (\<lambda>x3.
     and_read (take_opt take_str) (\<lambda>x4.
     and_read (take_opt take_pr) (\<lambda>x5.
     and_read (take_opt take_word) (\<lambda>x6.
     and_read (take_opt take_str) (\<lambda>x7.
     read_value \<lparr>dr_operation_id = x0, dr_plan_fingerprint = x1, dr_state = x2,
       dr_delegated_task_id = x3, dr_branch_revision = x4, dr_pull_request = x5,
       dr_observation_operation_id = x6, dr_observation_task_id = x7\<rparr>))))))))"

lemma take_put_dr [simp]: "take_dr (put_dr x @ s) = Some (x, s)"
  by (simp add: take_dr_def put_dr_def read_value_def)

definition put_sp :: "change_scope \<Rightarrow> string" where
  "put_sp x = put_str (sp_session_id x) @ put_word (sp_session_started_at x)
     @ put_word (sp_session_process_id x) @ put_str (sp_canonical_root x)
     @ put_str (sp_repository_id x)"

definition take_sp :: "change_scope reader" where
  "take_sp =
     and_read take_str (\<lambda>x0.
     and_read take_word (\<lambda>x1.
     and_read take_word (\<lambda>x2.
     and_read take_str (\<lambda>x3.
     and_read take_str (\<lambda>x4.
     read_value \<lparr>sp_session_id = x0, sp_session_started_at = x1, sp_session_process_id = x2,
       sp_canonical_root = x3, sp_repository_id = x4\<rparr>)))))"

lemma take_put_sp [simp]: "take_sp (put_sp x @ s) = Some (x, s)"
  by (simp add: take_sp_def put_sp_def read_value_def)

definition put_ea :: "execution_attempt \<Rightarrow> string" where
  "put_ea x = put_str (ea_execution_id x) @ put_str (ea_backend x) @ put_str (ea_executor x)
     @ put_word (ea_generation x)"

definition take_ea :: "execution_attempt reader" where
  "take_ea =
     and_read take_str (\<lambda>x0.
     and_read take_str (\<lambda>x1.
     and_read take_str (\<lambda>x2.
     and_read take_word (\<lambda>x3.
     read_value \<lparr>ea_execution_id = x0, ea_backend = x1, ea_executor = x2,
       ea_generation = x3\<rparr>))))"

lemma take_put_ea [simp]: "take_ea (put_ea x @ s) = Some (x, s)"
  by (simp add: take_ea_def put_ea_def read_value_def)

definition put_wl :: "writer_lease \<Rightarrow> string" where
  "put_wl x = put_str (wl_execution_id x) @ put_word (wl_generation x)"

definition take_wl :: "writer_lease reader" where
  "take_wl =
     and_read take_str (\<lambda>x0.
     and_read take_word (\<lambda>x1.
     read_value \<lparr>wl_execution_id = x0, wl_generation = x1\<rparr>))"

lemma take_put_wl [simp]: "take_wl (put_wl x @ s) = Some (x, s)"
  by (simp add: take_wl_def put_wl_def read_value_def)

definition put_vf :: "verification \<Rightarrow> string" where
  "put_vf x = put_str (vf_revision x) @ put_word (vf_record_revision x)
     @ put_word (vf_task_record_revision x) @ put_bool (vf_passed x)"

definition take_vf :: "verification reader" where
  "take_vf =
     and_read take_str (\<lambda>x0.
     and_read take_word (\<lambda>x1.
     and_read take_word (\<lambda>x2.
     and_read take_bool (\<lambda>x3.
     read_value \<lparr>vf_revision = x0, vf_record_revision = x1, vf_task_record_revision = x2,
       vf_passed = x3\<rparr>))))"

lemma take_put_vf [simp]: "take_vf (put_vf x @ s) = Some (x, s)"
  by (simp add: take_vf_def put_vf_def read_value_def)

definition put_is :: "initial_start \<Rightarrow> string" where
  "put_is x = put_word (is_operation_id x) @ put_str (is_request_fingerprint x)
     @ put_word (is_snapshot_operation_id x) @ put_str (is_execution_id x)
     @ put_bool (is_snapshot_dispatch_attempted x) @ put_bool (is_snapshot_verified x)
     @ put_opt put_str (is_vcs_operation_id x)"

definition take_is :: "initial_start reader" where
  "take_is =
     and_read take_word (\<lambda>x0.
     and_read take_str (\<lambda>x1.
     and_read take_word (\<lambda>x2.
     and_read take_str (\<lambda>x3.
     and_read take_bool (\<lambda>x4.
     and_read take_bool (\<lambda>x5.
     and_read (take_opt take_str) (\<lambda>x6.
     read_value \<lparr>is_operation_id = x0, is_request_fingerprint = x1,
       is_snapshot_operation_id = x2, is_execution_id = x3, is_snapshot_dispatch_attempted = x4,
       is_snapshot_verified = x5, is_vcs_operation_id = x6\<rparr>)))))))"

lemma take_put_is [simp]: "take_is (put_is x @ s) = Some (x, s)"
  by (simp add: take_is_def put_is_def read_value_def)

definition put_cr :: "change_record \<Rightarrow> string" where
  "put_cr x = put_word (cr_schema_version x) @ put_str (cr_change_id x) @ put_sp (cr_scope x)
     @ put_str (cr_task_id x) @ put_opt put_str (cr_parent_task_id x)
     @ put_opt put_str (cr_parent_change_id x) @ put_base (cr_base x)
     @ put_opt put_str (cr_workspace_id x) @ put_opt put_word (cr_provisioning_operation_id x)
     @ put_opt put_word (cr_allocation_operation_id x) @ put_bool (cr_allocation_pending x)
     @ put_list put_ea (cr_executions x) @ put_opt put_is (cr_initial_start x)
     @ put_opt put_wl (cr_writer x) @ put_word (cr_writer_generation x)
     @ put_opt put_str (cr_logical_change_id x) @ put_opt put_str (cr_materialized_revision x)
     @ put_opt put_word (cr_latest_snapshot_operation_id x) @ put_word (cr_task_record_revision x)
     @ put_opt put_vf (cr_verification x) @ put_opt put_dr (cr_delivery x)
     @ put_word (cr_revision x)"

definition take_cr :: "change_record reader" where
  "take_cr =
     and_read take_word (\<lambda>x0.
     and_read take_str (\<lambda>x1.
     and_read take_sp (\<lambda>x2.
     and_read take_str (\<lambda>x3.
     and_read (take_opt take_str) (\<lambda>x4.
     and_read (take_opt take_str) (\<lambda>x5.
     and_read take_base (\<lambda>x6.
     and_read (take_opt take_str) (\<lambda>x7.
     and_read (take_opt take_word) (\<lambda>x8.
     and_read (take_opt take_word) (\<lambda>x9.
     and_read take_bool (\<lambda>x10.
     and_read (take_list take_ea) (\<lambda>x11.
     and_read (take_opt take_is) (\<lambda>x12.
     and_read (take_opt take_wl) (\<lambda>x13.
     and_read take_word (\<lambda>x14.
     and_read (take_opt take_str) (\<lambda>x15.
     and_read (take_opt take_str) (\<lambda>x16.
     and_read (take_opt take_word) (\<lambda>x17.
     and_read take_word (\<lambda>x18.
     and_read (take_opt take_vf) (\<lambda>x19.
     and_read (take_opt take_dr) (\<lambda>x20.
     and_read take_word (\<lambda>x21.
     read_value \<lparr>cr_schema_version = x0, cr_change_id = x1, cr_scope = x2, cr_task_id = x3,
       cr_parent_task_id = x4, cr_parent_change_id = x5, cr_base = x6, cr_workspace_id = x7,
       cr_provisioning_operation_id = x8, cr_allocation_operation_id = x9,
       cr_allocation_pending = x10, cr_executions = x11, cr_initial_start = x12, cr_writer = x13,
       cr_writer_generation = x14, cr_logical_change_id = x15, cr_materialized_revision = x16,
       cr_latest_snapshot_operation_id = x17, cr_task_record_revision = x18, cr_verification = x19,
       cr_delivery = x20, cr_revision = x21\<rparr>))))))))))))))))))))))"

lemma take_put_cr [simp]: "take_cr (put_cr x @ s) = Some (x, s)"
  by (simp add: take_cr_def put_cr_def read_value_def)

definition sample_format :: change_serde where
  "sample_format = \<lparr>cr_to_vec = put_cr, cr_from_slice = (\<lambda>s. map_option fst (take_cr s))\<rparr>"

lemma sample_format_ok: "change_serde_ok sample_format"
  using take_put_cr [of _ "[]"] by (simp add: change_serde_ok_def sample_format_def)

end
