(* ===== verification/Change_Store.thy ===== *)
theory Change_Store
  imports Change_Format "HOL-Library.AList"
begin

text \<open>
  The durable Change store, \<^verbatim>\<open>src/src/change.rs\<close>. A store is the directory of one owner scope: the
  file \<^verbatim>\<open>chg-<id>.json\<close> is the entry \<open>id\<close> of \<open>cs_files\<close>, in directory order. Every operation
  holds the exclusive file lock for its whole body, so an operation is one step. The only write
  of an operation is its last action, hence an error leaves the directory as it was and the
  result type is \<open>anyhow + (change_record \<times> change_store)\<close>. File-system failures other than a
  missing file are outside the model.

  The closures handed to \<^verbatim>\<open>update\<close> are the definitions \<open>*_step\<close>.
\<close>

record change_store =
  cs_scope :: change_scope
  cs_files :: "(string \<times> string) list"

definition read_locked :: "change_serde \<Rightarrow> change_store \<Rightarrow> string \<Rightarrow> anyhow + change_record" where
  "read_locked S st i =
     and_then (label i) (\<lambda>_.
     and_then (ok_or (map_of (cs_files st) i) NotFound) (\<lambda>bytes.
     ensure (length bytes \<le> MAX_RECORD) (Message ''Change record exceeds size limit'') (
     and_then (ok_or (cr_from_slice S bytes) Malformed) (\<lambda>r.
     ensure (cr_schema_version r = 1 \<and> cr_change_id r = i \<and> cr_scope r = cs_scope st)
       (Message ''Change ownership or schema mismatch'') (Inr r)))))"

definition write_locked :: "change_serde \<Rightarrow> change_record \<Rightarrow> change_store \<Rightarrow> anyhow + change_store" where
  "write_locked S r st =
     and_then (label (cr_change_id r)) (\<lambda>_.
     let bytes = cr_to_vec S r
     in ensure (length bytes \<le> MAX_RECORD) (Message ''Change record exceeds size limit'')
          (Inr (st\<lparr>cs_files := AList.update (cr_change_id r) bytes (cs_files st)\<rparr>)))"

definition list_locked :: "change_serde \<Rightarrow> change_store \<Rightarrow> anyhow + change_record list" where
  "list_locked S st = collect_results (read_locked S st) (map fst (cs_files st))"

definition get :: "change_serde \<Rightarrow> string \<Rightarrow> change_store \<Rightarrow> anyhow + change_record" where
  "get S i st = read_locked S st i"

text \<open>\<^verbatim>\<open>list\<close> reads and counts in directory order, then sorts by identifier.\<close>

fun list_scan :: "change_serde \<Rightarrow> change_store \<Rightarrow> string list \<Rightarrow> change_record list \<Rightarrow> anyhow + change_record list"
where
  "list_scan S st [] result = Inr result"
| "list_scan S st (i # ids) result =
     and_then (read_locked S st i) (\<lambda>r.
     ensure (length (result @ [r]) \<le> 4096) (Message ''Change projection exceeds size limit'')
       (list_scan S st ids (result @ [r])))"

definition list_changes :: "change_serde \<Rightarrow> change_store \<Rightarrow> anyhow + change_record list" where
  "list_changes S st =
     and_then (list_scan S st (map fst (cs_files st)) []) (\<lambda>result.
       Inr (sort_key cr_change_id result))"

definition bump :: "change_record \<Rightarrow> anyhow + change_record" where
  "bump r =
     and_then (ok_or (u64_checked_add (cr_revision r) 1) (Message ''Change revision overflow''))
       (\<lambda>n. Inr (r\<lparr>cr_revision := n\<rparr>))"

definition update ::
  "change_serde \<Rightarrow> string \<Rightarrow> u64 \<Rightarrow> (change_record \<Rightarrow> anyhow + change_record) \<Rightarrow> change_store
     \<Rightarrow> anyhow + (change_record \<times> change_store)" where
  "update S i expected_revision f st =
     and_then (read_locked S st i) (\<lambda>r.
     ensure (cr_revision r = expected_revision) (Message ''Change record revision conflict'') (
     let before = cr_to_vec S r
     in and_then (f r) (\<lambda>r'.
        ensure (cr_change_id r' = i \<and> cr_scope r' = cs_scope st \<and> cr_schema_version r' = 1)
          (Message ''Change immutable identity changed'') (
        if cr_to_vec S r' \<noteq> before then
          and_then (bump r') (\<lambda>r''.
          and_then (write_locked S r'' st) (\<lambda>st'. Inr (r'', st')))
        else Inr (r', st)))))"

section \<open>Creation\<close>

definition new_record ::
  "change_scope \<Rightarrow> string \<Rightarrow> string \<Rightarrow> string option \<Rightarrow> string option \<Rightarrow> change_base \<Rightarrow> change_record" where
  "new_record sc i task_id parent_task_id parent_change_id base =
     \<lparr>cr_schema_version = 1, cr_change_id = i, cr_scope = sc, cr_task_id = task_id,
      cr_parent_task_id = parent_task_id, cr_parent_change_id = parent_change_id, cr_base = base,
      cr_workspace_id = None, cr_provisioning_operation_id = None, cr_allocation_operation_id = None,
      cr_allocation_pending = False, cr_executions = [], cr_initial_start = None, cr_writer = None,
      cr_writer_generation = 0, cr_logical_change_id = None, cr_materialized_revision = None,
      cr_latest_snapshot_operation_id = None, cr_task_record_revision = 0, cr_verification = None,
      cr_delivery = None, cr_revision = 1\<rparr>"

definition create_named ::
  "change_serde \<Rightarrow> string \<Rightarrow> string \<Rightarrow> string option \<Rightarrow> string option \<Rightarrow> change_base \<Rightarrow> change_store
     \<Rightarrow> anyhow + (change_record \<times> change_store)" where
  "create_named S i task_id parent_task_id parent_change_id base st =
     and_then (label i) (\<lambda>_.
     and_then (label task_id) (\<lambda>_.
     and_then (label_opt parent_task_id) (\<lambda>_.
     and_then (label_opt parent_change_id) (\<lambda>_.
     ensure (case parent_change_id of None \<Rightarrow> True | Some parent \<Rightarrow> base = Change parent)
       (Message ''base_change and parent_change_id conflict'') (
     and_then (case base of OriginMain \<Rightarrow> Inr () | Change b \<Rightarrow> and_then (read_locked S st b) (\<lambda>_. Inr ())) (\<lambda>_.
     and_then (case parent_change_id of None \<Rightarrow> Inr () | Some p \<Rightarrow> and_then (read_locked S st p) (\<lambda>_. Inr ())) (\<lambda>_.
     if map_of (cs_files st) i \<noteq> None then
       and_then (read_locked S st i) (\<lambda>existing.
       ensure (cr_task_id existing = task_id \<and> cr_parent_task_id existing = parent_task_id \<and>
           cr_parent_change_id existing = parent_change_id \<and> cr_base existing = base)
         (Message ''Change creation operation conflict'') (Inr (existing, st)))
     else
       and_then (list_locked S st) (\<lambda>records.
       ensure (\<not> list_ex (\<lambda>r. cr_task_id r = task_id) records)
         (Message ''task already owns a Change in this owner scope'') (
       let r = new_record (cs_scope st) i task_id parent_task_id parent_change_id base
       in and_then (write_locked S r st) (\<lambda>st'. Inr (r, st')))))))))))"

text \<open>The identifier of an idempotent creation is a digest of the operation identifier:
  \<open>digest_id\<close> stands for the hash and its hexadecimal rendering.\<close>

definition create_idempotent ::
  "change_serde \<Rightarrow> (uuid \<Rightarrow> string) \<Rightarrow> uuid \<Rightarrow> string \<Rightarrow> string option \<Rightarrow> string option \<Rightarrow> change_base
     \<Rightarrow> change_store \<Rightarrow> anyhow + (change_record \<times> change_store)" where
  "create_idempotent S digest_id operation_id task_id parent_task_id parent_change_id base st =
     create_named S (CHR ''c'' # digest_id operation_id) task_id parent_task_id parent_change_id base st"

definition create_provisioned ::
  "change_serde \<Rightarrow> (uuid \<Rightarrow> string) \<Rightarrow> uuid \<Rightarrow> string \<Rightarrow> string option \<Rightarrow> change_store
     \<Rightarrow> anyhow + (change_record \<times> change_store)" where
  "create_provisioned S uuid_to_string change_id task_id parent_task_id st =
     create_named S (uuid_to_string change_id) task_id parent_task_id None OriginMain st"

section \<open>Workspace allocation\<close>

definition allocation_intent_step :: "uuid \<Rightarrow> change_record \<Rightarrow> anyhow + change_record" where
  "allocation_intent_step operation_id r =
     ensure (cr_workspace_id r = None) (Message ''Change already allocated'') (
     ensure (cr_allocation_operation_id r = None \<or> cr_allocation_operation_id r = Some operation_id)
       (Message ''Change allocation operation conflict'')
       (Inr (r\<lparr>cr_allocation_operation_id := Some operation_id, cr_allocation_pending := True\<rparr>)))"

definition allocation_intent ::
  "change_serde \<Rightarrow> string \<Rightarrow> u64 \<Rightarrow> uuid \<Rightarrow> change_store \<Rightarrow> anyhow + (change_record \<times> change_store)" where
  "allocation_intent S i expected operation_id = update S i expected (allocation_intent_step operation_id)"

definition bind_managed_workspace ::
  "change_serde \<Rightarrow> string \<Rightarrow> u64 \<Rightarrow> uuid \<Rightarrow> string \<Rightarrow> change_store
     \<Rightarrow> anyhow + (change_record \<times> change_store)" where
  "bind_managed_workspace S i expected operation_id workspace st =
     and_then (label workspace) (\<lambda>_.
     and_then (list_locked S st) (\<lambda>records.
     ensure (\<not> list_ex (\<lambda>other. cr_change_id other \<noteq> i \<and> cr_workspace_id other = Some workspace) records)
       (Message ''workspace already owned by another Change'') (
     and_then (read_locked S st i) (\<lambda>r.
     ensure (cr_revision r = expected) (Message ''Change record revision conflict'') (
     ensure (cr_allocation_operation_id r = Some operation_id)
       (Message ''Change allocation operation conflict'') (
     case cr_workspace_id r of
       Some existing \<Rightarrow>
         ensure (existing = workspace) (Message ''Change workspace conflict'') (
         ensure (cr_provisioning_operation_id r = Some operation_id)
           (Message ''Change provisioning receipt conflict'') (Inr (r, st)))
     | None \<Rightarrow>
         ensure (cr_allocation_pending r) (Message ''Change allocation has no intent'') (
         and_then (bump (r\<lparr>cr_workspace_id := Some workspace,
             cr_provisioning_operation_id := Some operation_id, cr_allocation_pending := False\<rparr>)) (\<lambda>r'.
         and_then (write_locked S r' st) (\<lambda>st'. Inr (r', st'))))))))))"

section \<open>Executions and the initial snapshot\<close>

definition allocated :: "change_record \<Rightarrow> bool" where
  "allocated r = (cr_workspace_id r \<noteq> None \<and> \<not> cr_allocation_pending r)"

definition append_execution_step :: "execution_attempt \<Rightarrow> change_record \<Rightarrow> anyhow + change_record" where
  "append_execution_step attempt r =
     ensure (allocated r) (Message ''Change workspace not allocated'') (
     case find (\<lambda>e. ea_execution_id e = ea_execution_id attempt) (cr_executions r) of
       Some old \<Rightarrow> ensure (old = attempt) (Message ''execution identity conflict'') (Inr r)
     | None \<Rightarrow>
         ensure (cr_executions r = [] \<or> ea_generation (last (cr_executions r)) < ea_generation attempt)
           (Message ''execution generation did not advance'') (
         ensure (length (cr_executions r) < MAX_EXECUTIONS) (Message ''execution history full'')
           (Inr (r\<lparr>cr_executions := cr_executions r @ [attempt]\<rparr>))))"

definition append_execution ::
  "change_serde \<Rightarrow> string \<Rightarrow> u64 \<Rightarrow> execution_attempt \<Rightarrow> change_store
     \<Rightarrow> anyhow + (change_record \<times> change_store)" where
  "append_execution S i expected attempt st =
     and_then (label (ea_execution_id attempt)) (\<lambda>_.
     and_then (label (ea_backend attempt)) (\<lambda>_.
     and_then (label (ea_executor attempt)) (\<lambda>_.
     update S i expected (append_execution_step attempt) st)))"

definition reserve_initial_start_step :: "initial_start \<Rightarrow> change_record \<Rightarrow> anyhow + change_record" where
  "reserve_initial_start_step start r =
     ensure (allocated r) (Message ''Change workspace not allocated'') (
     case cr_initial_start r of
       Some existing \<Rightarrow>
         ensure (is_operation_id existing = is_operation_id start \<and>
             is_request_fingerprint existing = is_request_fingerprint start \<and>
             is_snapshot_operation_id existing = is_snapshot_operation_id start \<and>
             is_execution_id existing = is_execution_id start)
           (Message ''initial Change start operation conflict'') (Inr r)
     | None \<Rightarrow>
         ensure (cr_executions r = [] \<and> cr_writer r = None) (Message ''Change already has an execution'')
           (Inr (r\<lparr>cr_initial_start := Some start\<rparr>)))"

definition reserve_initial_start ::
  "change_serde \<Rightarrow> string \<Rightarrow> u64 \<Rightarrow> initial_start \<Rightarrow> change_store \<Rightarrow> anyhow + (change_record \<times> change_store)" where
  "reserve_initial_start S i expected start = update S i expected (reserve_initial_start_step start)"

definition verify_initial_snapshot_step ::
  "uuid \<Rightarrow> string \<Rightarrow> string \<Rightarrow> string \<Rightarrow> change_record \<Rightarrow> anyhow + change_record" where
  "verify_initial_snapshot_step operation_id logical materialized vcs_operation_id r =
     and_then (ok_or (cr_initial_start r) (Message ''initial Change start missing'')) (\<lambda>start.
     ensure (is_snapshot_operation_id start = operation_id) (Message ''initial snapshot operation conflict'') (
     ensure (is_snapshot_dispatch_attempted start) (Message ''initial snapshot was never dispatched'') (
     if is_snapshot_verified start then
       ensure (cr_logical_change_id r = Some logical \<and> cr_materialized_revision r = Some materialized \<and>
           is_vcs_operation_id start = Some vcs_operation_id)
         (Message ''initial snapshot result conflict'') (Inr r)
     else
       ensure (cr_executions r = [] \<and> cr_writer r = None) (Message ''initial snapshot followed task startup'')
         (Inr (r\<lparr>cr_initial_start := Some (start\<lparr>is_snapshot_verified := True,
                   is_vcs_operation_id := Some vcs_operation_id\<rparr>),
                 cr_logical_change_id := Some logical, cr_materialized_revision := Some materialized,
                 cr_latest_snapshot_operation_id := Some operation_id\<rparr>)))))"

definition verify_initial_snapshot ::
  "change_serde \<Rightarrow> string \<Rightarrow> u64 \<Rightarrow> uuid \<Rightarrow> string \<Rightarrow> string \<Rightarrow> string \<Rightarrow> change_store
     \<Rightarrow> anyhow + (change_record \<times> change_store)" where
  "verify_initial_snapshot S i expected operation_id logical materialized vcs_operation_id st =
     and_then (label logical) (\<lambda>_.
     and_then (label materialized) (\<lambda>_.
     and_then (label vcs_operation_id) (\<lambda>_.
     update S i expected
       (verify_initial_snapshot_step operation_id logical materialized vcs_operation_id) st)))"

definition mark_initial_snapshot_attempt_step :: "uuid \<Rightarrow> change_record \<Rightarrow> anyhow + change_record" where
  "mark_initial_snapshot_attempt_step operation_id r =
     and_then (ok_or (cr_initial_start r) (Message ''initial Change start missing'')) (\<lambda>start.
     ensure (is_snapshot_operation_id start = operation_id) (Message ''initial snapshot operation conflict'') (
     ensure (\<not> is_snapshot_verified start \<and> cr_executions r = [] \<and> cr_writer r = None)
       (Message ''initial snapshot dispatch followed task startup'')
       (Inr (r\<lparr>cr_initial_start := Some (start\<lparr>is_snapshot_dispatch_attempted := True\<rparr>)\<rparr>))))"

definition mark_initial_snapshot_attempt ::
  "change_serde \<Rightarrow> string \<Rightarrow> u64 \<Rightarrow> uuid \<Rightarrow> change_store \<Rightarrow> anyhow + (change_record \<times> change_store)" where
  "mark_initial_snapshot_attempt S i expected operation_id =
     update S i expected (mark_initial_snapshot_attempt_step operation_id)"

section \<open>The writer lease\<close>

definition handoff_writer_step ::
  "writer_lease option \<Rightarrow> string \<Rightarrow> change_record \<Rightarrow> anyhow + change_record" where
  "handoff_writer_step previous execution_id r =
     ensure (allocated r) (Message ''Change workspace not allocated'') (
     ensure (cr_executions r \<noteq> [] \<and> ea_execution_id (last (cr_executions r)) = execution_id)
       (Message ''writer execution is not current'') (
     ensure (previous = None \<and> cr_writer r = None) (Message ''writer must be released before handoff'') (
     and_then (ok_or (u64_checked_add (cr_writer_generation r) 1) (Message ''writer generation overflow''))
       (\<lambda>generation.
         Inr (r\<lparr>cr_writer_generation := generation,
                cr_writer := Some \<lparr>wl_execution_id = execution_id, wl_generation = generation\<rparr>\<rparr>)))))"

definition handoff_writer ::
  "change_serde \<Rightarrow> string \<Rightarrow> u64 \<Rightarrow> writer_lease option \<Rightarrow> string \<Rightarrow> change_store
     \<Rightarrow> anyhow + (change_record \<times> change_store)" where
  "handoff_writer S i expected previous execution_id st =
     and_then (label execution_id) (\<lambda>_. update S i expected (handoff_writer_step previous execution_id) st)"

definition release_writer_step :: "writer_lease \<Rightarrow> change_record \<Rightarrow> anyhow + change_record" where
  "release_writer_step lease r =
     ensure (cr_writer r = Some lease) (Message ''writer fence mismatch'') (Inr (r\<lparr>cr_writer := None\<rparr>))"

definition release_writer ::
  "change_serde \<Rightarrow> string \<Rightarrow> u64 \<Rightarrow> writer_lease \<Rightarrow> change_store \<Rightarrow> anyhow + (change_record \<times> change_store)" where
  "release_writer S i expected lease = update S i expected (release_writer_step lease)"

section \<open>Observation and verification\<close>

definition observe_task_revision_step :: "u64 \<Rightarrow> change_record \<Rightarrow> anyhow + change_record" where
  "observe_task_revision_step task_revision r =
     ensure (cr_task_record_revision r \<le> task_revision) (Message ''task record revision regressed'') (
     if task_revision \<noteq> cr_task_record_revision r
     then Inr (r\<lparr>cr_task_record_revision := task_revision, cr_verification := None\<rparr>)
     else Inr r)"

definition observe_task_revision ::
  "change_serde \<Rightarrow> string \<Rightarrow> u64 \<Rightarrow> u64 \<Rightarrow> change_store \<Rightarrow> anyhow + (change_record \<times> change_store)" where
  "observe_task_revision S i expected task_revision st =
     ensure (0 < task_revision) (Message ''task record revision must be positive'')
       (update S i expected (observe_task_revision_step task_revision) st)"

definition observe_snapshot_step ::
  "uuid \<Rightarrow> string \<Rightarrow> string \<Rightarrow> change_record \<Rightarrow> anyhow + change_record" where
  "observe_snapshot_step operation_id logical materialized r =
     ensure (case cr_logical_change_id r of None \<Rightarrow> True | Some old \<Rightarrow> old = logical)
       (Message ''logical change identity conflict'') (
     let r' = r\<lparr>cr_logical_change_id := Some logical\<rparr>
     in if cr_materialized_revision r' \<noteq> Some materialized
            \<or> cr_latest_snapshot_operation_id r' \<noteq> Some operation_id
        then Inr (r'\<lparr>cr_materialized_revision := Some materialized,
               cr_latest_snapshot_operation_id := Some operation_id, cr_verification := None\<rparr>)
        else Inr r')"

definition observe_snapshot ::
  "change_serde \<Rightarrow> string \<Rightarrow> u64 \<Rightarrow> uuid \<Rightarrow> string \<Rightarrow> string \<Rightarrow> change_store
     \<Rightarrow> anyhow + (change_record \<times> change_store)" where
  "observe_snapshot S i expected operation_id logical materialized st =
     and_then (label logical) (\<lambda>_.
     and_then (label materialized) (\<lambda>_.
     update S i expected (observe_snapshot_step operation_id logical materialized) st))"

definition verify_step :: "string \<Rightarrow> bool \<Rightarrow> change_record \<Rightarrow> anyhow + change_record" where
  "verify_step materialized passed r =
     ensure (cr_materialized_revision r = Some materialized) (Message ''verification target is stale'') (
     ensure (0 < cr_task_record_revision r) (Message ''task record revision missing'') (
     if (case cr_verification r of None \<Rightarrow> False
         | Some v \<Rightarrow> vf_revision v = materialized \<and> vf_passed v = passed)
     then Inr r
     else Inr (r\<lparr>cr_verification := Some \<lparr>vf_revision = materialized,
            vf_record_revision = cr_revision r + 1,
            vf_task_record_revision = cr_task_record_revision r, vf_passed = passed\<rparr>\<rparr>)))"

definition verify ::
  "change_serde \<Rightarrow> string \<Rightarrow> u64 \<Rightarrow> string \<Rightarrow> bool \<Rightarrow> change_store \<Rightarrow> anyhow + (change_record \<times> change_store)" where
  "verify S i expected materialized passed = update S i expected (verify_step materialized passed)"

definition release_ready :: "change_serde \<Rightarrow> string \<Rightarrow> change_store \<Rightarrow> anyhow + bool" where
  "release_ready S i st =
     and_then (get S i st) (\<lambda>r.
       Inr (\<not> cr_allocation_pending r \<and> cr_writer r = None \<and>
            (case cr_delivery r of None \<Rightarrow> True | Some d \<Rightarrow> receipt_is_terminal d)))"

section \<open>Reading back what was written\<close>

abbreviation holds_record :: "change_serde \<Rightarrow> change_store \<Rightarrow> string \<Rightarrow> change_record \<Rightarrow> bool" where
  "holds_record S st i r \<equiv> read_locked S st i = Inr r"

lemma read_locked_identity:
  "holds_record S st i r \<Longrightarrow>
     label i = Inr () \<and> cr_schema_version r = 1 \<and> cr_change_id r = i \<and> cr_scope r = cs_scope st \<and>
     (\<exists>bytes. map_of (cs_files st) i = Some bytes \<and> length bytes \<le> MAX_RECORD \<and> cr_from_slice S bytes = Some r)"
  by (auto simp: read_locked_def)

lemma write_locked_Inr:
  "write_locked S r st = Inr st' \<longleftrightarrow>
     label (cr_change_id r) = Inr () \<and> length (cr_to_vec S r) \<le> MAX_RECORD \<and>
     st' = st\<lparr>cs_files := AList.update (cr_change_id r) (cr_to_vec S r) (cs_files st)\<rparr>"
  by (auto simp: write_locked_def Let_def)

lemma write_read_same:
  assumes "change_serde_ok S" and "write_locked S r st = Inr st'"
    and "cr_schema_version r = 1" and "cr_scope r = cs_scope st"
  shows "holds_record S st' (cr_change_id r) r"
  using assms by (simp add: write_locked_Inr read_locked_def change_serde_ok_def update_conv')

lemma write_read_other:
  "write_locked S r st = Inr st' \<Longrightarrow> j \<noteq> cr_change_id r \<Longrightarrow> read_locked S st' j = read_locked S st j"
  by (simp add: write_locked_Inr read_locked_def update_conv')

lemma write_files:
  assumes "write_locked S r st = Inr st'"
  shows "cs_scope st' = cs_scope st"
    and "fst ` set (cs_files st') = insert (cr_change_id r) (fst ` set (cs_files st))"
    and "distinct (map fst (cs_files st)) \<Longrightarrow> distinct (map fst (cs_files st'))"
proof -
  from assms show "cs_scope st' = cs_scope st" by (auto simp: write_locked_Inr)
  from assms show "distinct (map fst (cs_files st)) \<Longrightarrow> distinct (map fst (cs_files st'))"
    by (auto simp: write_locked_Inr distinct_update)
  have "fst ` set (cs_files st') = dom (map_of (cs_files st'))" by (simp add: dom_map_of_conv_image_fst)
  also have "\<dots> = insert (cr_change_id r) (dom (map_of (cs_files st)))"
    using assms by (auto simp: write_locked_Inr update_conv')
  finally show "fst ` set (cs_files st') = insert (cr_change_id r) (fst ` set (cs_files st))"
    by (simp add: dom_map_of_conv_image_fst)
qed

lemma bump_Inr:
  "bump r = Inr r' \<longleftrightarrow> unat (cr_revision r) + 1 < 2 ^ 64 \<and> r' = r\<lparr>cr_revision := cr_revision r + 1\<rparr>"
  by (auto simp: bump_def)

lemma update_Inr:
  assumes "change_serde_ok S" and "update S i v f st = Inr (r, st')"
  shows "\<exists>r0 r1. holds_record S st i r0 \<and> cr_revision r0 = v \<and> f r0 = Inr r1 \<and>
    cr_change_id r1 = i \<and> cr_scope r1 = cs_scope st \<and> cr_schema_version r1 = 1 \<and>
    (r1 = r0 \<and> r = r0 \<and> st' = st \<or>
     r1 \<noteq> r0 \<and> unat (cr_revision r1) + 1 < 2 ^ 64 \<and> r = r1\<lparr>cr_revision := cr_revision r1 + 1\<rparr> \<and>
     write_locked S r st = Inr st')"
  using assms(2) to_vec_inject [OF assms(1)]
  by (auto simp: update_def Let_def bump_Inr split: if_split_asm)

section \<open>The versioned store\<close>

text \<open>What the clients of the store rely on: a compare-and-swap on the record's revision. A changed
  record is stored with the next revision, an unchanged one is not written, nothing else moves,
  and an update that names another revision fails.\<close>

locale versioned_store =
  fixes lookup :: "'s \<Rightarrow> 'i \<Rightarrow> 'e + 'r"
    and upd :: "'i \<Rightarrow> u64 \<Rightarrow> ('r \<Rightarrow> 'e + 'r) \<Rightarrow> 's \<Rightarrow> 'e + ('r \<times> 's)"
    and version :: "'r \<Rightarrow> u64"
    and set_version :: "u64 \<Rightarrow> 'r \<Rightarrow> 'r"
    and sound :: "'s \<Rightarrow> bool"
  assumes upd_same: "sound st \<Longrightarrow> upd i v f st = Inr (r, st') \<Longrightarrow>
      \<exists>r0 r1. lookup st i = Inr r0 \<and> version r0 = v \<and> f r0 = Inr r1 \<and> lookup st' i = Inr r \<and>
        (r1 = r0 \<and> r = r0 \<and> st' = st \<or>
         r1 \<noteq> r0 \<and> unat (version r1) + 1 < 2 ^ 64 \<and> r = set_version (version r1 + 1) r1)"
    and upd_other: "upd i v f st = Inr (r, st') \<Longrightarrow> j \<noteq> i \<Longrightarrow> lookup st' j = lookup st j"
    and upd_stale: "lookup st i = Inr r \<Longrightarrow> version r \<noteq> v \<Longrightarrow> \<exists>e. upd i v f st = Inl e"
    and upd_sound: "sound st \<Longrightarrow> upd i v f st = Inr (r, st') \<Longrightarrow> sound st'"
    and version_set: "version (set_version n r) = n"
begin

text \<open>Of two updates prepared from the same revision, the second fails once the first has
  changed the record: no update is lost.\<close>

lemma no_lost_update:
  assumes "sound st" and "upd i v f st = Inr (r, st')" and "st' \<noteq> st"
    and "\<And>r0 r1. f r0 = Inr r1 \<Longrightarrow> version r1 = version r0"
  shows "unat (version r) = unat v + 1 \<and> lookup st' i = Inr r \<and> (\<exists>e. upd i v g st' = Inl e)"
proof -
  from upd_same [OF assms(1,2)] assms(3) obtain r0 r1 where
    f: "f r0 = Inr r1" "version r0 = v" and got: "lookup st' i = Inr r"
    and r: "unat (version r1) + 1 < 2 ^ 64" "r = set_version (version r1 + 1) r1" by blast
  from f assms(4) have "version r1 = v" by simp
  with r have "unat (version r) = unat v + 1" by (simp add: version_set unat_u64_add)
  moreover from this have "version r \<noteq> v" by auto
  ultimately show ?thesis using upd_stale [OF got, of v g] got by blast
qed

text \<open>A relation between successive records that the closure respects, up to the new revision,
  holds between what was stored before and what is stored now.\<close>

lemma upd_respects:
  assumes "sound st" and "upd i v f st = Inr (r, st')" and "lookup st j = Inr q"
    and refl: "\<And>a. R a a"
    and step: "\<And>r0 r1. f r0 = Inr r1 \<Longrightarrow> unat (version r1) + 1 < 2 ^ 64 \<Longrightarrow>
      R r0 (set_version (version r1 + 1) r1)"
  shows "\<exists>q'. lookup st' j = Inr q' \<and> R q q'"
proof (cases "j = i")
  case True
  with upd_same [OF assms(1,2)] assms(3) step refl show ?thesis by fastforce
next
  case False
  with upd_other [OF assms(2)] assms(3) refl show ?thesis by simp
qed

end

definition store_sound :: "change_serde \<Rightarrow> change_store \<Rightarrow> bool" where
  "store_sound S st \<longleftrightarrow> change_serde_ok S \<and> distinct (map fst (cs_files st))"

lemma update_write:
  assumes "change_serde_ok S" and "update S i v f st = Inr (r, st')"
  shows "st' = st \<or> (write_locked S r st = Inr st' \<and> cr_change_id r = i)"
  using update_Inr [OF assms] by auto

lemma update_stale:
  "holds_record S st i r \<Longrightarrow> cr_revision r \<noteq> v \<Longrightarrow>
     update S i v f st = Inl (Message ''Change record revision conflict'')"
  by (simp add: update_def)

lemma update_frame:
  assumes "update S i v f st = Inr (r, st')" and "j \<noteq> i"
  shows "read_locked S st' j = read_locked S st j"
  using assms by (auto simp: update_def Let_def bump_Inr split: if_split_asm dest: write_read_other)

interpretation change_versions:
  versioned_store "read_locked S" "update S" cr_revision "\<lambda>n. cr_revision_update (\<lambda>_. n)" "store_sound S" for S
proof
  fix st i v f r st' j n
  show "\<exists>r0 r1. read_locked S st i = Inr r0 \<and> cr_revision r0 = v \<and> f r0 = Inr r1 \<and> read_locked S st' i = Inr r \<and>
      (r1 = r0 \<and> r = r0 \<and> st' = st \<or>
       r1 \<noteq> r0 \<and> unat (cr_revision r1) + 1 < 2 ^ 64 \<and> r = r1\<lparr>cr_revision := cr_revision r1 + 1\<rparr>)"
    if sound: "store_sound S st" and upd: "update S i v f st = Inr (r, st')"
  proof -
    from sound have ok: "change_serde_ok S" by (simp add: store_sound_def)
    from update_Inr [OF ok upd] write_read_same [OF ok, of r st st'] show ?thesis by auto
  qed
  show "read_locked S st' j = read_locked S st j" if "update S i v f st = Inr (r, st')" "j \<noteq> i"
    using that by (rule update_frame)
  show "\<exists>e. update S i v f st = Inl e" if "read_locked S st i = Inr r" "cr_revision r \<noteq> v"
    using update_stale [OF that] by blast
  show "store_sound S st'" if "store_sound S st" "update S i v f st = Inr (r, st')"
    using that update_write [of S i v f st r st'] write_files(3) by (auto simp: store_sound_def)
  show "cr_revision (r\<lparr>cr_revision := n\<rparr>) = n" by simp
qed

section \<open>The record invariant\<close>

definition executions_ok :: "execution_attempt list \<Rightarrow> bool" where
  "executions_ok es \<longleftrightarrow>
     sorted_wrt (\<lambda>a b. ea_generation a < ea_generation b) es \<and> distinct (map ea_execution_id es) \<and>
     length es \<le> MAX_EXECUTIONS"

definition allocation_ok :: "change_record \<Rightarrow> bool" where
  "allocation_ok r \<longleftrightarrow>
     (cr_workspace_id r = None \<longleftrightarrow> cr_provisioning_operation_id r = None) \<and>
     (cr_workspace_id r \<noteq> None \<longrightarrow> \<not> cr_allocation_pending r \<and>
        cr_provisioning_operation_id r = cr_allocation_operation_id r) \<and>
     (cr_allocation_pending r \<longrightarrow> cr_allocation_operation_id r \<noteq> None) \<and>
     (cr_executions r \<noteq> [] \<longrightarrow> cr_workspace_id r \<noteq> None)"

definition writer_ok :: "change_record \<Rightarrow> bool" where
  "writer_ok r \<longleftrightarrow>
     (\<forall>w. cr_writer r = Some w \<longrightarrow> wl_generation w = cr_writer_generation r \<and>
        wl_execution_id w \<in> set (map ea_execution_id (cr_executions r)))"

definition verification_ok :: "change_record \<Rightarrow> bool" where
  "verification_ok r \<longleftrightarrow>
     (\<forall>v. cr_verification r = Some v \<longrightarrow> 0 < cr_task_record_revision r \<and>
        vf_task_record_revision v = cr_task_record_revision r \<and> vf_record_revision v \<le> cr_revision r)"

definition delivery_ok :: "change_record \<Rightarrow> bool" where
  "delivery_ok r \<longleftrightarrow>
     (\<forall>d. cr_delivery r = Some d \<longrightarrow>
        (dr_state d = Delegated \<longrightarrow> dr_delegated_task_id d \<noteq> None) \<and>
        (dr_state d = Completed \<longrightarrow> dr_branch_revision d \<noteq> None \<and> dr_pull_request d \<noteq> None) \<and>
        (dr_observation_task_id d \<noteq> None \<longrightarrow> dr_observation_operation_id d \<noteq> None))"

definition change_inv :: "change_record \<Rightarrow> bool" where
  "change_inv r \<longleftrightarrow> executions_ok (cr_executions r) \<and> allocation_ok r \<and> writer_ok r \<and>
     verification_ok r \<and> delivery_ok r \<and> 0 < cr_revision r"

lemmas change_inv_defs = change_inv_def allocation_ok_def writer_ok_def verification_ok_def delivery_ok_def

text \<open>Updates of fields a part of the invariant does not mention.\<close>

lemma allocation_ok_frame [simp]:
  "allocation_ok (r\<lparr>cr_initial_start := v_initial_start\<rparr>) = allocation_ok r"
  "allocation_ok (r\<lparr>cr_logical_change_id := v_logical_change_id\<rparr>) = allocation_ok r"
  "allocation_ok (r\<lparr>cr_materialized_revision := v_materialized_revision\<rparr>) = allocation_ok r"
  "allocation_ok (r\<lparr>cr_latest_snapshot_operation_id := v_latest_snapshot_operation_id\<rparr>) = allocation_ok r"
  "allocation_ok (r\<lparr>cr_revision := v_revision\<rparr>) = allocation_ok r"
  "allocation_ok (r\<lparr>cr_verification := v_verification\<rparr>) = allocation_ok r"
  "allocation_ok (r\<lparr>cr_task_record_revision := v_task_record_revision\<rparr>) = allocation_ok r"
  "allocation_ok (r\<lparr>cr_writer := v_writer\<rparr>) = allocation_ok r"
  "allocation_ok (r\<lparr>cr_writer_generation := v_writer_generation\<rparr>) = allocation_ok r"
  "allocation_ok (r\<lparr>cr_delivery := v_delivery\<rparr>) = allocation_ok r"
  by (simp_all add: allocation_ok_def)

lemma writer_ok_frame [simp]:
  "writer_ok (r\<lparr>cr_initial_start := v_initial_start\<rparr>) = writer_ok r"
  "writer_ok (r\<lparr>cr_logical_change_id := v_logical_change_id\<rparr>) = writer_ok r"
  "writer_ok (r\<lparr>cr_materialized_revision := v_materialized_revision\<rparr>) = writer_ok r"
  "writer_ok (r\<lparr>cr_latest_snapshot_operation_id := v_latest_snapshot_operation_id\<rparr>) = writer_ok r"
  "writer_ok (r\<lparr>cr_revision := v_revision\<rparr>) = writer_ok r"
  "writer_ok (r\<lparr>cr_verification := v_verification\<rparr>) = writer_ok r"
  "writer_ok (r\<lparr>cr_task_record_revision := v_task_record_revision\<rparr>) = writer_ok r"
  "writer_ok (r\<lparr>cr_delivery := v_delivery\<rparr>) = writer_ok r"
  "writer_ok (r\<lparr>cr_allocation_pending := p\<rparr>) = writer_ok r"
  "writer_ok (r\<lparr>cr_allocation_operation_id := q\<rparr>) = writer_ok r"
  "writer_ok (r\<lparr>cr_workspace_id := x\<rparr>) = writer_ok r"
  "writer_ok (r\<lparr>cr_provisioning_operation_id := y\<rparr>) = writer_ok r"
  by (simp_all add: writer_ok_def)

lemma delivery_ok_frame [simp]:
  "delivery_ok (r\<lparr>cr_initial_start := v_initial_start\<rparr>) = delivery_ok r"
  "delivery_ok (r\<lparr>cr_logical_change_id := v_logical_change_id\<rparr>) = delivery_ok r"
  "delivery_ok (r\<lparr>cr_materialized_revision := v_materialized_revision\<rparr>) = delivery_ok r"
  "delivery_ok (r\<lparr>cr_latest_snapshot_operation_id := v_latest_snapshot_operation_id\<rparr>) = delivery_ok r"
  "delivery_ok (r\<lparr>cr_revision := v_revision\<rparr>) = delivery_ok r"
  "delivery_ok (r\<lparr>cr_verification := v_verification\<rparr>) = delivery_ok r"
  "delivery_ok (r\<lparr>cr_task_record_revision := v_task_record_revision\<rparr>) = delivery_ok r"
  "delivery_ok (r\<lparr>cr_writer := v_writer\<rparr>) = delivery_ok r"
  "delivery_ok (r\<lparr>cr_writer_generation := v_writer_generation\<rparr>) = delivery_ok r"
  "delivery_ok (r\<lparr>cr_allocation_pending := p\<rparr>) = delivery_ok r"
  "delivery_ok (r\<lparr>cr_allocation_operation_id := q\<rparr>) = delivery_ok r"
  "delivery_ok (r\<lparr>cr_workspace_id := x\<rparr>) = delivery_ok r"
  "delivery_ok (r\<lparr>cr_provisioning_operation_id := y\<rparr>) = delivery_ok r"
  "delivery_ok (r\<lparr>cr_executions := es\<rparr>) = delivery_ok r"
  by (simp_all add: delivery_ok_def)

section \<open>How a record evolves\<close>

definition same_identity :: "change_record \<Rightarrow> change_record \<Rightarrow> bool" where
  "same_identity r r' \<longleftrightarrow>
     cr_schema_version r' = cr_schema_version r \<and> cr_change_id r' = cr_change_id r \<and>
     cr_scope r' = cr_scope r \<and> cr_task_id r' = cr_task_id r \<and>
     cr_parent_task_id r' = cr_parent_task_id r \<and> cr_parent_change_id r' = cr_parent_change_id r \<and>
     cr_base r' = cr_base r"

definition same_delivery :: "change_record \<Rightarrow> change_record \<Rightarrow> bool" where
  "same_delivery r r' \<longleftrightarrow>
     (\<forall>d. cr_delivery r = Some d \<longrightarrow> (\<exists>d'. cr_delivery r' = Some d' \<and>
        dr_operation_id d' = dr_operation_id d \<and> dr_plan_fingerprint d' = dr_plan_fingerprint d))"

text \<open>A later state of the same Change: its identity, workspace, delivery operation and past
  executions are kept, its counters never go back, and a writer lease that was not there before
  carries a generation never used before.\<close>

definition advances :: "change_record \<Rightarrow> change_record \<Rightarrow> bool" where
  "advances r r' \<longleftrightarrow> same_identity r r' \<and> same_delivery r r' \<and>
     cr_revision r \<le> cr_revision r' \<and> cr_task_record_revision r \<le> cr_task_record_revision r' \<and>
     cr_writer_generation r \<le> cr_writer_generation r' \<and>
     (\<exists>es. cr_executions r' = cr_executions r @ es) \<and>
     (\<forall>w. cr_workspace_id r = Some w \<longrightarrow> cr_workspace_id r' = Some w) \<and>
     (\<forall>w. cr_writer r' = Some w \<longrightarrow> cr_writer r = Some w \<or> cr_writer_generation r < wl_generation w)"

lemma advances_refl: "advances r r"
  by (simp add: advances_def same_identity_def same_delivery_def)

lemma advances_trans:
  assumes "advances a b" and "advances b c"
  shows "advances a c"
proof -
  have "same_delivery a c"
    using assms by (fastforce simp: advances_def same_delivery_def)
  moreover have "same_identity a c"
    using assms by (simp add: advances_def same_identity_def)
  moreover have "\<exists>es. cr_executions c = cr_executions a @ es"
    using assms by (auto simp: advances_def)
  moreover have "cr_writer a = Some w \<or> cr_writer_generation a < wl_generation w" if "cr_writer c = Some w" for w
    using assms that unfolding advances_def by (meson order.strict_trans1)
  ultimately show ?thesis
    using assms by (auto simp: advances_def intro: order_trans)
qed

text \<open>What every closure handed to \<^verbatim>\<open>update\<close> satisfies.\<close>

definition step_ok :: "(change_record \<Rightarrow> anyhow + change_record) \<Rightarrow> bool" where
  "step_ok f \<longleftrightarrow>
     (\<forall>r r'. f r = Inr r' \<longrightarrow>
        cr_revision r' = cr_revision r \<and> cr_workspace_id r' = cr_workspace_id r \<and> advances r r' \<and>
        (change_inv r \<longrightarrow> unat (cr_revision r) + 1 < 2 ^ 64 \<longrightarrow>
           change_inv (r'\<lparr>cr_revision := cr_revision r + 1\<rparr>)))"

lemma u64_less_Suc:
  fixes a :: u64
  assumes "unat a + 1 < 2 ^ 64"
  shows "a < a + 1"
  using assms by (simp add: word_less_nat_alt unat_u64_add)

lemma u64_next:
  fixes a b :: u64
  assumes "unat a + 1 < 2 ^ 64"
  shows "0 < a + 1" "b \<le> a \<Longrightarrow> b \<le> a + 1"
  using u64_less_Suc [OF assms] by (auto simp: word_gt_0 intro: order.trans dest: less_imp_le)

lemma step_okI:
  assumes "\<And>r r'. f r = Inr r' \<Longrightarrow> cr_revision r' = cr_revision r \<and> cr_workspace_id r' = cr_workspace_id r"
    and "\<And>r r'. f r = Inr r' \<Longrightarrow> advances r r'"
    and "\<And>r r'. f r = Inr r' \<Longrightarrow> change_inv r \<Longrightarrow>
      executions_ok (cr_executions r') \<and> allocation_ok r' \<and> writer_ok r' \<and> delivery_ok r'"
    and "\<And>r r' v. f r = Inr r' \<Longrightarrow> change_inv r \<Longrightarrow> cr_verification r' = Some v \<Longrightarrow>
      0 < cr_task_record_revision r' \<and> vf_task_record_revision v = cr_task_record_revision r' \<and>
      (vf_record_revision v \<le> cr_revision r \<or> vf_record_revision v = cr_revision r + 1)"
  shows "step_ok f"
  unfolding step_ok_def
proof (intro allI impI conjI)
  fix r r'
  assume f: "f r = Inr r'"
  show "cr_revision r' = cr_revision r" "cr_workspace_id r' = cr_workspace_id r" "advances r r'"
    using assms(1,2) [OF f] by simp_all
  assume inv: "change_inv r" and room: "unat (cr_revision r) + 1 < 2 ^ 64"
  have "verification_ok (r'\<lparr>cr_revision := cr_revision r + 1\<rparr>)"
    using assms(4) [OF f inv] u64_next [OF room] by (fastforce simp: verification_ok_def)
  with assms(3) [OF f inv] u64_next(1) [OF room] show "change_inv (r'\<lparr>cr_revision := cr_revision r + 1\<rparr>)"
    by (simp add: change_inv_def)
qed

lemma change_inv_verification:
  "change_inv r \<Longrightarrow> cr_verification r = Some v \<Longrightarrow>
     0 < cr_task_record_revision r \<and> vf_task_record_revision v = cr_task_record_revision r \<and>
     vf_record_revision v \<le> cr_revision r"
  by (auto simp: change_inv_def verification_ok_def)

lemmas advances_defs = advances_def same_identity_def same_delivery_def

lemma allocation_intent_step_ok: "step_ok (allocation_intent_step operation_id)"
proof (rule step_okI)
  fix r r'
  assume "allocation_intent_step operation_id r = Inr r'"
  then have none: "cr_workspace_id r = None"
    and r': "r' = r\<lparr>cr_allocation_operation_id := Some operation_id, cr_allocation_pending := True\<rparr>"
    by (simp_all add: allocation_intent_step_def)
  show "cr_revision r' = cr_revision r \<and> cr_workspace_id r' = cr_workspace_id r" "advances r r'"
    by (simp_all add: r' advances_defs)
  show "executions_ok (cr_executions r') \<and> allocation_ok r' \<and> writer_ok r' \<and> delivery_ok r'" if "change_inv r"
  proof -
    from that have "allocation_ok r" and rest: "executions_ok (cr_executions r)" "writer_ok r" "delivery_ok r"
      by (simp_all add: change_inv_def)
    with none have "allocation_ok r'" by (simp add: r' allocation_ok_def)
    with rest show ?thesis by (simp add: r')
  qed
  show "0 < cr_task_record_revision r' \<and> vf_task_record_revision v = cr_task_record_revision r' \<and>
      (vf_record_revision v \<le> cr_revision r \<or> vf_record_revision v = cr_revision r + 1)"
    if "change_inv r" "cr_verification r' = Some v" for v
    using that change_inv_verification [of r v] by (simp add: r')
qed

lemma executions_ok_snoc:
  assumes "executions_ok es" and "\<forall>e \<in> set es. ea_execution_id e \<noteq> ea_execution_id a"
    and "es = [] \<or> ea_generation (last es) < ea_generation a" and "length es < MAX_EXECUTIONS"
  shows "executions_ok (es @ [a])"
proof -
  have "ea_generation e < ea_generation a" if "e \<in> set es" for e
  proof (cases es rule: rev_cases)
    case Nil
    with that show ?thesis by simp
  next
    case (snoc ys y)
    with assms(1,3) that show ?thesis
      by (auto simp: executions_ok_def sorted_wrt_append intro: order.strict_trans)
  qed
  with assms show ?thesis by (auto simp: executions_ok_def sorted_wrt_append)
qed

lemma append_execution_step_Inr:
  assumes "append_execution_step attempt r = Inr r'"
  shows "r' = r \<or> (allocated r \<and> (\<forall>e \<in> set (cr_executions r). ea_execution_id e \<noteq> ea_execution_id attempt) \<and>
    (cr_executions r = [] \<or> ea_generation (last (cr_executions r)) < ea_generation attempt) \<and>
    length (cr_executions r) < MAX_EXECUTIONS \<and> r' = r\<lparr>cr_executions := cr_executions r @ [attempt]\<rparr>)"
  using assms
  by (auto simp: append_execution_step_def find_None_iff split: option.split_asm)

lemma append_execution_step_ok: "step_ok (append_execution_step attempt)"
proof (rule step_okI)
  fix r r'
  assume f: "append_execution_step attempt r = Inr r'"
  note cases = append_execution_step_Inr [OF f]
  show "cr_revision r' = cr_revision r \<and> cr_workspace_id r' = cr_workspace_id r"
    using cases by (elim disjE) simp_all
  show "advances r r'"
    using cases by (elim disjE) (simp_all add: advances_defs)
  show "executions_ok (cr_executions r') \<and> allocation_ok r' \<and> writer_ok r' \<and> delivery_ok r'" if "change_inv r"
    using cases
  proof
    assume "r' = r"
    with that show ?thesis by (simp add: change_inv_def)
  next
    assume r': "allocated r \<and> (\<forall>e \<in> set (cr_executions r). ea_execution_id e \<noteq> ea_execution_id attempt) \<and>
      (cr_executions r = [] \<or> ea_generation (last (cr_executions r)) < ea_generation attempt) \<and>
      length (cr_executions r) < MAX_EXECUTIONS \<and> r' = r\<lparr>cr_executions := cr_executions r @ [attempt]\<rparr>"
    with that executions_ok_snoc have "executions_ok (cr_executions r')" by (simp add: change_inv_def)
    moreover have "writer_ok r'" using r' that by (simp add: change_inv_def writer_ok_def)
    moreover have "allocation_ok r'"
      using r' that by (cases "cr_workspace_id r") (auto simp: change_inv_def allocation_ok_def allocated_def)
    ultimately show ?thesis using r' that by (simp add: change_inv_def)
  qed
  show "0 < cr_task_record_revision r' \<and> vf_task_record_revision v = cr_task_record_revision r' \<and>
      (vf_record_revision v \<le> cr_revision r \<or> vf_record_revision v = cr_revision r + 1)"
    if "change_inv r" "cr_verification r' = Some v" for v
    using cases that change_inv_verification [of r v] by (elim disjE) simp_all
qed

lemma reserve_initial_start_step_Inr:
  "reserve_initial_start_step start r = Inr r' \<Longrightarrow> r' = r \<or> r' = r\<lparr>cr_initial_start := Some start\<rparr>"
  by (auto simp: reserve_initial_start_step_def split: option.split_asm)

lemma mark_initial_snapshot_attempt_step_Inr:
  "mark_initial_snapshot_attempt_step operation_id r = Inr r' \<Longrightarrow> \<exists>start. r' = r\<lparr>cr_initial_start := Some start\<rparr>"
  by (auto simp: mark_initial_snapshot_attempt_step_def)

lemma verify_initial_snapshot_step_Inr:
  "verify_initial_snapshot_step operation_id logical materialized vcs r = Inr r' \<Longrightarrow>
     r' = r \<or> (\<exists>start. r' = r\<lparr>cr_initial_start := Some start, cr_logical_change_id := Some logical,
       cr_materialized_revision := Some materialized, cr_latest_snapshot_operation_id := Some operation_id\<rparr>)"
  by (auto simp: verify_initial_snapshot_step_def split: if_split_asm)

text \<open>A closure that touches only fields the invariant does not mention.\<close>

lemma step_ok_neutral:
  assumes "\<And>r r'. f r = Inr r' \<Longrightarrow> \<exists>start l m op.
    r' = r\<lparr>cr_initial_start := start, cr_logical_change_id := l, cr_materialized_revision := m,
           cr_latest_snapshot_operation_id := op\<rparr>"
  shows "step_ok f"
proof (rule step_okI)
  fix r r'
  assume f: "f r = Inr r'"
  from assms [OF f] obtain start l m op where
    r': "r' = r\<lparr>cr_initial_start := start, cr_logical_change_id := l, cr_materialized_revision := m,
           cr_latest_snapshot_operation_id := op\<rparr>" by blast
  show "cr_revision r' = cr_revision r \<and> cr_workspace_id r' = cr_workspace_id r" "advances r r'"
    by (simp_all add: r' advances_defs)
  show "executions_ok (cr_executions r') \<and> allocation_ok r' \<and> writer_ok r' \<and> delivery_ok r'" if "change_inv r"
    using that by (simp add: r' change_inv_def)
  show "0 < cr_task_record_revision r' \<and> vf_task_record_revision v = cr_task_record_revision r' \<and>
      (vf_record_revision v \<le> cr_revision r \<or> vf_record_revision v = cr_revision r + 1)"
    if "change_inv r" "cr_verification r' = Some v" for v
    using that change_inv_verification [of r v] by (simp add: r')
qed

lemma neutral_update:
  "r\<lparr>cr_initial_start := cr_initial_start r, cr_logical_change_id := cr_logical_change_id r,
     cr_materialized_revision := cr_materialized_revision r,
     cr_latest_snapshot_operation_id := cr_latest_snapshot_operation_id r\<rparr> = (r :: change_record)"
  "r\<lparr>cr_initial_start := s, cr_logical_change_id := cr_logical_change_id r,
     cr_materialized_revision := cr_materialized_revision r,
     cr_latest_snapshot_operation_id := cr_latest_snapshot_operation_id r\<rparr> = r\<lparr>cr_initial_start := s\<rparr>"
  by simp_all

lemma initial_start_steps_ok:
  "step_ok (reserve_initial_start_step start)"
  "step_ok (mark_initial_snapshot_attempt_step operation_id)"
  "step_ok (verify_initial_snapshot_step operation_id logical materialized vcs)"
proof (rule_tac [!] step_ok_neutral)
  fix r r'
  show "\<exists>start l m op. r' = r\<lparr>cr_initial_start := start, cr_logical_change_id := l,
      cr_materialized_revision := m, cr_latest_snapshot_operation_id := op\<rparr>"
    if "reserve_initial_start_step start r = Inr r'"
    using reserve_initial_start_step_Inr [OF that] neutral_update [of r] by metis
  show "\<exists>start l m op. r' = r\<lparr>cr_initial_start := start, cr_logical_change_id := l,
      cr_materialized_revision := m, cr_latest_snapshot_operation_id := op\<rparr>"
    if "mark_initial_snapshot_attempt_step operation_id r = Inr r'"
    using mark_initial_snapshot_attempt_step_Inr [OF that] neutral_update [of r] by metis
  show "\<exists>start l m op. r' = r\<lparr>cr_initial_start := start, cr_logical_change_id := l,
      cr_materialized_revision := m, cr_latest_snapshot_operation_id := op\<rparr>"
    if "verify_initial_snapshot_step operation_id logical materialized vcs r = Inr r'"
    using verify_initial_snapshot_step_Inr [OF that] neutral_update [of r] by metis
qed

lemma handoff_writer_step_Inr:
  "handoff_writer_step previous execution_id r = Inr r' \<longleftrightarrow>
     allocated r \<and> cr_executions r \<noteq> [] \<and> ea_execution_id (last (cr_executions r)) = execution_id \<and>
     previous = None \<and> cr_writer r = None \<and> unat (cr_writer_generation r) + 1 < 2 ^ 64 \<and>
     r' = r\<lparr>cr_writer_generation := cr_writer_generation r + 1,
            cr_writer := Some \<lparr>wl_execution_id = execution_id, wl_generation = cr_writer_generation r + 1\<rparr>\<rparr>"
  by (auto simp: handoff_writer_step_def)

lemma handoff_writer_step_ok: "step_ok (handoff_writer_step previous execution_id)"
proof (rule step_okI)
  fix r r'
  assume "handoff_writer_step previous execution_id r = Inr r'"
  then have ex: "cr_executions r \<noteq> []" "ea_execution_id (last (cr_executions r)) = execution_id"
    and room: "unat (cr_writer_generation r) + 1 < 2 ^ 64"
    and r': "r' = r\<lparr>cr_writer_generation := cr_writer_generation r + 1,
            cr_writer := Some \<lparr>wl_execution_id = execution_id, wl_generation = cr_writer_generation r + 1\<rparr>\<rparr>"
    by (simp_all add: handoff_writer_step_Inr)
  note next_gen = u64_less_Suc [OF room]
  show "cr_revision r' = cr_revision r \<and> cr_workspace_id r' = cr_workspace_id r" "advances r r'"
    using next_gen by (simp_all add: r' advances_defs less_imp_le)
  have "execution_id \<in> set (map ea_execution_id (cr_executions r))"
    using ex by (metis last_in_set last_map list.map_disc_iff)
  then show "executions_ok (cr_executions r') \<and> allocation_ok r' \<and> writer_ok r' \<and> delivery_ok r'" if "change_inv r"
    using that by (simp add: r' change_inv_def writer_ok_def)
  show "0 < cr_task_record_revision r' \<and> vf_task_record_revision v = cr_task_record_revision r' \<and>
      (vf_record_revision v \<le> cr_revision r \<or> vf_record_revision v = cr_revision r + 1)"
    if "change_inv r" "cr_verification r' = Some v" for v
    using that change_inv_verification [of r v] by (simp add: r')
qed

lemma release_writer_step_ok: "step_ok (release_writer_step lease)"
proof (rule step_okI)
  fix r r'
  assume "release_writer_step lease r = Inr r'"
  then have r': "r' = r\<lparr>cr_writer := None\<rparr>" by (simp add: release_writer_step_def)
  show "cr_revision r' = cr_revision r \<and> cr_workspace_id r' = cr_workspace_id r" "advances r r'"
    by (simp_all add: r' advances_defs)
  show "executions_ok (cr_executions r') \<and> allocation_ok r' \<and> writer_ok r' \<and> delivery_ok r'" if "change_inv r"
    using that by (simp add: r' change_inv_def writer_ok_def)
  show "0 < cr_task_record_revision r' \<and> vf_task_record_revision v = cr_task_record_revision r' \<and>
      (vf_record_revision v \<le> cr_revision r \<or> vf_record_revision v = cr_revision r + 1)"
    if "change_inv r" "cr_verification r' = Some v" for v
    using that change_inv_verification [of r v] by (simp add: r')
qed

lemma observe_task_revision_step_ok: "step_ok (observe_task_revision_step task_revision)"
proof (rule step_okI)
  fix r r'
  assume "observe_task_revision_step task_revision r = Inr r'"
  then have le: "cr_task_record_revision r \<le> task_revision"
    and cases: "r' = r \<or> r' = r\<lparr>cr_task_record_revision := task_revision, cr_verification := None\<rparr>"
    by (simp_all add: observe_task_revision_step_def split: if_split_asm)
  show "cr_revision r' = cr_revision r \<and> cr_workspace_id r' = cr_workspace_id r"
    using cases by (elim disjE) simp_all
  show "advances r r'"
    using cases le by (elim disjE) (simp_all add: advances_defs)
  show "executions_ok (cr_executions r') \<and> allocation_ok r' \<and> writer_ok r' \<and> delivery_ok r'" if "change_inv r"
    using cases that by (elim disjE) (simp_all add: change_inv_def)
  show "0 < cr_task_record_revision r' \<and> vf_task_record_revision v = cr_task_record_revision r' \<and>
      (vf_record_revision v \<le> cr_revision r \<or> vf_record_revision v = cr_revision r + 1)"
    if "change_inv r" "cr_verification r' = Some v" for v
    using cases that change_inv_verification [of r v] by (elim disjE) simp_all
qed

lemma observe_snapshot_step_ok: "step_ok (observe_snapshot_step operation_id logical materialized)"
proof (rule step_okI)
  fix r r'
  assume "observe_snapshot_step operation_id logical materialized r = Inr r'"
  then have cases: "r' = r\<lparr>cr_logical_change_id := Some logical\<rparr> \<or>
      r' = r\<lparr>cr_logical_change_id := Some logical, cr_materialized_revision := Some materialized,
         cr_latest_snapshot_operation_id := Some operation_id, cr_verification := None\<rparr>"
    by (simp add: observe_snapshot_step_def Let_def split: if_split_asm)
  show "cr_revision r' = cr_revision r \<and> cr_workspace_id r' = cr_workspace_id r"
    using cases by (elim disjE) simp_all
  show "advances r r'"
    using cases by (elim disjE) (simp_all add: advances_defs)
  show "executions_ok (cr_executions r') \<and> allocation_ok r' \<and> writer_ok r' \<and> delivery_ok r'" if "change_inv r"
    using cases that by (elim disjE) (simp_all add: change_inv_def)
  show "0 < cr_task_record_revision r' \<and> vf_task_record_revision v = cr_task_record_revision r' \<and>
      (vf_record_revision v \<le> cr_revision r \<or> vf_record_revision v = cr_revision r + 1)"
    if "change_inv r" "cr_verification r' = Some v" for v
    using cases that change_inv_verification [of r v] by (elim disjE) simp_all
qed

lemma verify_step_Inr:
  "verify_step materialized passed r = Inr r' \<Longrightarrow>
     cr_materialized_revision r = Some materialized \<and> 0 < cr_task_record_revision r \<and>
     (r' = r \<and> (\<exists>v. cr_verification r = Some v \<and> vf_revision v = materialized \<and> vf_passed v = passed) \<or>
      r' = r\<lparr>cr_verification := Some \<lparr>vf_revision = materialized, vf_record_revision = cr_revision r + 1,
               vf_task_record_revision = cr_task_record_revision r, vf_passed = passed\<rparr>\<rparr>)"
  by (auto simp: verify_step_def split: if_split_asm option.split_asm)

lemma verify_step_ok: "step_ok (verify_step materialized passed)"
proof (rule step_okI)
  fix r r'
  assume "verify_step materialized passed r = Inr r'"
  from verify_step_Inr [OF this] have pos: "0 < cr_task_record_revision r"
    and cases: "r' = r \<or> r' = r\<lparr>cr_verification := Some \<lparr>vf_revision = materialized,
      vf_record_revision = cr_revision r + 1, vf_task_record_revision = cr_task_record_revision r, vf_passed = passed\<rparr>\<rparr>"
    by blast+
  show "cr_revision r' = cr_revision r \<and> cr_workspace_id r' = cr_workspace_id r"
    using cases by (elim disjE) simp_all
  show "advances r r'"
    using cases by (elim disjE) (simp_all add: advances_defs)
  show "executions_ok (cr_executions r') \<and> allocation_ok r' \<and> writer_ok r' \<and> delivery_ok r'" if "change_inv r"
    using cases that by (elim disjE) (simp_all add: change_inv_def)
  show "0 < cr_task_record_revision r' \<and> vf_task_record_revision v = cr_task_record_revision r' \<and>
      (vf_record_revision v \<le> cr_revision r \<or> vf_record_revision v = cr_revision r + 1)"
    if "change_inv r" "cr_verification r' = Some v" for v
    using cases that pos change_inv_verification [of r v] by (elim disjE) auto
qed

section \<open>The store invariant\<close>

text \<open>Every file of the directory is a readable record that satisfies its invariant, and no two
  Changes share a workspace or a task.\<close>

definition store_inv :: "change_serde \<Rightarrow> change_store \<Rightarrow> bool" where
  "store_inv S st \<longleftrightarrow>
     store_sound S st \<and>
     (\<forall>i \<in> fst ` set (cs_files st). \<exists>r. holds_record S st i r \<and> change_inv r) \<and>
     (\<forall>i j r q w. holds_record S st i r \<and> holds_record S st j q \<and>
        cr_workspace_id r = Some w \<and> cr_workspace_id q = Some w \<longrightarrow> i = j) \<and>
     (\<forall>i j r q. holds_record S st i r \<and> holds_record S st j q \<and> cr_task_id r = cr_task_id q \<longrightarrow> i = j)"

definition store_advances :: "change_serde \<Rightarrow> change_store \<Rightarrow> change_store \<Rightarrow> bool" where
  "store_advances S st st' \<longleftrightarrow> cs_scope st' = cs_scope st \<and>
     (\<forall>i r. holds_record S st i r \<longrightarrow> (\<exists>r'. holds_record S st' i r' \<and> advances r r'))"

lemma store_advances_refl: "store_advances S st st"
  by (simp add: store_advances_def advances_refl)

lemma store_advances_trans:
  "store_advances S a b \<Longrightarrow> store_advances S b c \<Longrightarrow> store_advances S a c"
  unfolding store_advances_def by (metis advances_trans)

lemma holds_record_file: "holds_record S st i r \<Longrightarrow> i \<in> fst ` set (cs_files st)"
  by (auto simp: read_locked_def dest!: map_of_SomeD) force

lemma store_inv_record: "store_inv S st \<Longrightarrow> holds_record S st i r \<Longrightarrow> change_inv r"
  using holds_record_file [of S st i r] unfolding store_inv_def by fastforce

lemma store_inv_file:
  "store_inv S st \<Longrightarrow> i \<in> fst ` set (cs_files st) \<Longrightarrow> \<exists>r. holds_record S st i r \<and> change_inv r"
  by (simp only: store_inv_def)

lemma store_inv_workspace:
  "store_inv S st \<Longrightarrow> holds_record S st i r \<Longrightarrow> holds_record S st j q \<Longrightarrow>
     cr_workspace_id r = Some w \<Longrightarrow> cr_workspace_id q = Some w \<Longrightarrow> i = j"
  unfolding store_inv_def by blast

lemma store_inv_task:
  "store_inv S st \<Longrightarrow> holds_record S st i r \<Longrightarrow> holds_record S st j q \<Longrightarrow> cr_task_id r = cr_task_id q \<Longrightarrow> i = j"
  unfolding store_inv_def by blast

lemma store_inv_empty: "change_serde_ok S \<Longrightarrow> store_inv S \<lparr>cs_scope = sc, cs_files = []\<rparr>"
  by (auto simp: store_inv_def store_sound_def read_locked_def)

lemma list_locked_members:
  "list_locked S st = Inr rs \<Longrightarrow> holds_record S st i r \<Longrightarrow> r \<in> set rs"
proof -
  assume l: "list_locked S st = Inr rs" and r: "holds_record S st i r"
  from holds_record_file [OF r] obtain k where "k < length (cs_files st)" "i = map fst (cs_files st) ! k"
    by (auto simp: in_set_conv_nth)
  with l r show "r \<in> set rs"
    by (auto simp: list_locked_def collect_results_Inr_iff list_all2_conv_all_nth in_set_conv_nth)
qed

text \<open>Writing one record keeps the store invariant when the record is good, belongs to the scope,
  and takes neither the workspace nor the task of another Change.\<close>

lemma write_store_inv:
  assumes inv: "store_inv S st" and wr: "write_locked S r st = Inr st'"
    and good: "change_inv r" "cr_schema_version r = 1" "cr_scope r = cs_scope st"
    and ws: "\<And>j q w. holds_record S st j q \<Longrightarrow> j \<noteq> cr_change_id r \<Longrightarrow> cr_workspace_id q = Some w \<Longrightarrow>
      cr_workspace_id r \<noteq> Some w"
    and task: "\<And>j q. holds_record S st j q \<Longrightarrow> j \<noteq> cr_change_id r \<Longrightarrow> cr_task_id q \<noteq> cr_task_id r"
  shows "store_inv S st'"
proof -
  let ?i = "cr_change_id r"
  from inv have sound: "store_sound S st" by (simp add: store_inv_def)
  then have same: "holds_record S st' ?i r"
    using write_read_same [OF _ wr good(2,3)] by (simp add: store_sound_def)
  note other = write_read_other [OF wr]
  have split: "(j = ?i \<and> q = r) \<or> (j \<noteq> ?i \<and> holds_record S st j q)" if "holds_record S st' j q" for j q
    using that same other [of j] by (cases "j = ?i") auto
  have snd: "store_sound S st'" using sound write_files(3) [OF wr] by (simp add: store_sound_def)
  have readable: "\<exists>q. holds_record S st' j q \<and> change_inv q" if "j \<in> fst ` set (cs_files st')" for j
  proof (cases "j = ?i")
    case True
    with same good(1) show ?thesis by blast
  next
    case False
    with that write_files(2) [OF wr] have "j \<in> fst ` set (cs_files st)" by simp
    from store_inv_file [OF inv this] other [OF False] show ?thesis by simp
  qed
  have ws_eq: "a = b" if h: "holds_record S st' a p" "holds_record S st' b q"
    and w: "cr_workspace_id p = Some w" "cr_workspace_id q = Some w" for a b p q w
  proof -
    from split [OF h(1)] split [OF h(2)] consider "a = ?i" "b = ?i"
      | "p = r" "b \<noteq> ?i" "holds_record S st b q" | "q = r" "a \<noteq> ?i" "holds_record S st a p"
      | "holds_record S st a p" "holds_record S st b q" by blast
    then show ?thesis
    proof cases
      case 2
      with ws [of b q w] w show ?thesis by simp
    next
      case 3
      with ws [of a p w] w show ?thesis by simp
    next
      case 4
      from store_inv_workspace [OF inv this w] show ?thesis .
    qed simp
  qed
  have task_eq: "a = b" if h: "holds_record S st' a p" "holds_record S st' b q"
    and t: "cr_task_id p = cr_task_id q" for a b p q
  proof -
    from split [OF h(1)] split [OF h(2)] consider "a = ?i" "b = ?i"
      | "p = r" "b \<noteq> ?i" "holds_record S st b q" | "q = r" "a \<noteq> ?i" "holds_record S st a p"
      | "holds_record S st a p" "holds_record S st b q" by blast
    then show ?thesis
    proof cases
      case 2
      with task [of b q] t show ?thesis by simp
    next
      case 3
      with task [of a p] t show ?thesis by simp
    next
      case 4
      from store_inv_task [OF inv this t] show ?thesis .
    qed simp
  qed
  show ?thesis
    unfolding store_inv_def
  proof (intro conjI ballI allI impI)
    show "store_sound S st'" by (rule snd)
    show "\<exists>q. holds_record S st' k q \<and> change_inv q" if "k \<in> fst ` set (cs_files st')" for k
      using that by (rule readable)
    show "a = b" if "holds_record S st' a p \<and> holds_record S st' b q \<and>
        cr_workspace_id p = Some w \<and> cr_workspace_id q = Some w" for a b p q w
      using that by (elim conjE) (rule ws_eq)
    show "a = b" if "holds_record S st' a p \<and> holds_record S st' b q \<and> cr_task_id p = cr_task_id q" for a b p q
      using that by (elim conjE) (rule task_eq)
  qed
qed

lemma write_store_advances:
  assumes "change_serde_ok S" and "write_locked S r st = Inr st'"
    and "cr_schema_version r = 1" "cr_scope r = cs_scope st"
    and "\<And>q. holds_record S st (cr_change_id r) q \<Longrightarrow> advances q r"
  shows "store_advances S st st'"
proof -
  have "\<exists>q'. holds_record S st' j q' \<and> advances q q'" if "holds_record S st j q" for j q
    using that assms(5) write_read_same [OF assms(1-4)] write_read_other [OF assms(2), of j] advances_refl [of q]
    by (cases "j = cr_change_id r") auto
  with write_files(1) [OF assms(2)] show ?thesis by (simp add: store_advances_def)
qed

lemma update_preserves:
  assumes inv: "store_inv S st" and upd: "update S i v f st = Inr (r, st')" and f: "step_ok f"
  shows "store_inv S st' \<and> store_advances S st st'"
proof -
  from inv have ok: "change_serde_ok S" by (simp add: store_inv_def store_sound_def)
  from update_Inr [OF ok upd] obtain r0 r1 where
    r0: "holds_record S st i r0" and f1: "f r0 = Inr r1"
    and ident: "cr_change_id r1 = i" "cr_scope r1 = cs_scope st" "cr_schema_version r1 = 1"
    and cases: "st' = st \<or> (unat (cr_revision r1) + 1 < 2 ^ 64 \<and> r = r1\<lparr>cr_revision := cr_revision r1 + 1\<rparr> \<and>
      write_locked S r st = Inr st')" by blast
  from f f1 have rel: "cr_revision r1 = cr_revision r0" "cr_workspace_id r1 = cr_workspace_id r0" "advances r0 r1"
    and keep: "change_inv r0 \<Longrightarrow> unat (cr_revision r0) + 1 < 2 ^ 64 \<Longrightarrow>
      change_inv (r1\<lparr>cr_revision := cr_revision r0 + 1\<rparr>)" by (simp_all add: step_ok_def)
  from cases show ?thesis
  proof
    assume "st' = st"
    with inv show ?thesis by (simp add: store_advances_refl)
  next
    assume "unat (cr_revision r1) + 1 < 2 ^ 64 \<and> r = r1\<lparr>cr_revision := cr_revision r1 + 1\<rparr> \<and>
      write_locked S r st = Inr st'"
    then have room: "unat (cr_revision r0) + 1 < 2 ^ 64" and r: "r = r1\<lparr>cr_revision := cr_revision r0 + 1\<rparr>"
      and wr: "write_locked S r st = Inr st'" using rel(1) by auto
    from r ident rel have fields: "cr_change_id r = i" "cr_scope r = cs_scope st" "cr_schema_version r = 1"
      "cr_workspace_id r = cr_workspace_id r0" "cr_task_id r = cr_task_id r0"
      by (simp_all add: advances_def same_identity_def)
    have adv: "advances r0 r"
      using rel(3) rel(1) less_imp_le [OF u64_less_Suc [OF room]]
      unfolding r advances_def same_identity_def same_delivery_def by simp
    have good: "change_inv r" using keep [OF store_inv_record [OF inv r0] room] r by simp
    have "store_inv S st'"
    proof (rule write_store_inv [OF inv wr good fields(3,2)])
      show "cr_workspace_id r \<noteq> Some w"
        if "holds_record S st j q" "j \<noteq> cr_change_id r" "cr_workspace_id q = Some w" for j q w
        using store_inv_workspace [OF inv r0 that(1)] that fields by auto
      show "cr_task_id q \<noteq> cr_task_id r" if "holds_record S st j q" "j \<noteq> cr_change_id r" for j q
        using store_inv_task [OF inv r0 that(1)] that fields by auto
    qed
    moreover have "store_advances S st st'"
      using r0 adv fields(1) by (intro write_store_advances [OF ok wr fields(3,2)]) simp
    ultimately show ?thesis ..
  qed
qed

lemma new_record_inv: "change_inv (new_record sc i t pt pc b)"
  by (simp add: new_record_def change_inv_def executions_ok_def allocation_ok_def writer_ok_def
      verification_ok_def delivery_ok_def)

lemma create_named_Inr:
  assumes "create_named S i t pt pc b st = Inr (r, st')"
  shows "(holds_record S st i r \<and> st' = st) \<or>
    (i \<notin> fst ` set (cs_files st) \<and> (\<forall>j q. holds_record S st j q \<longrightarrow> cr_task_id q \<noteq> t) \<and>
     r = new_record (cs_scope st) i t pt pc b \<and> write_locked S r st = Inr st')"
proof (cases "map_of (cs_files st) i = None")
  case True
  with assms obtain rs where rs: "list_locked S st = Inr rs" "\<not> list_ex (\<lambda>q. cr_task_id q = t) rs"
    and r: "r = new_record (cs_scope st) i t pt pc b" "write_locked S r st = Inr st'"
    by (auto simp: create_named_def Let_def)
  from rs list_locked_members [OF rs(1)] have "\<forall>j q. holds_record S st j q \<longrightarrow> cr_task_id q \<noteq> t"
    by (auto simp: list_ex_iff)
  with True r show ?thesis by (simp add: map_of_eq_None_iff)
next
  case False
  with assms show ?thesis by (auto simp: create_named_def)
qed

lemma create_named_preserves:
  assumes inv: "store_inv S st" and "create_named S i t pt pc b st = Inr (r, st')"
  shows "store_inv S st' \<and> store_advances S st st'"
  using create_named_Inr [OF assms(2)]
proof
  assume "holds_record S st i r \<and> st' = st"
  with inv show ?thesis by (simp add: store_advances_refl)
next
  assume new: "i \<notin> fst ` set (cs_files st) \<and> (\<forall>j q. holds_record S st j q \<longrightarrow> cr_task_id q \<noteq> t) \<and>
     r = new_record (cs_scope st) i t pt pc b \<and> write_locked S r st = Inr st'"
  then have wr: "write_locked S r st = Inr st'" and good: "change_inv r"
    and fields: "cr_schema_version r = 1" "cr_scope r = cs_scope st" "cr_change_id r = i"
      "cr_workspace_id r = None" "cr_task_id r = t"
    by (auto simp: new_record_inv) (auto simp: new_record_def)
  from inv have ok: "change_serde_ok S" by (simp add: store_inv_def store_sound_def)
  have "store_inv S st'"
    using new fields by (intro write_store_inv [OF inv wr good fields(1,2)]) simp_all
  moreover have "store_advances S st st'"
  proof (rule write_store_advances [OF ok wr fields(1,2)])
    show "advances q r" if "holds_record S st (cr_change_id r) q" for q
      using holds_record_file [OF that] new fields(3) by simp
  qed
  ultimately show ?thesis ..
qed

lemma bind_managed_workspace_Inr:
  assumes "bind_managed_workspace S i v op w st = Inr (r, st')"
  shows "\<exists>r0. holds_record S st i r0 \<and> cr_revision r0 = v \<and> cr_allocation_operation_id r0 = Some op \<and>
    (\<forall>j q. holds_record S st j q \<longrightarrow> j \<noteq> i \<longrightarrow> cr_workspace_id q \<noteq> Some w) \<and>
    (cr_workspace_id r0 = Some w \<and> r = r0 \<and> st' = st \<or>
     cr_workspace_id r0 = None \<and> cr_allocation_pending r0 \<and> unat (cr_revision r0) + 1 < 2 ^ 64 \<and>
     r = r0\<lparr>cr_workspace_id := Some w, cr_provisioning_operation_id := Some op, cr_allocation_pending := False,
            cr_revision := cr_revision r0 + 1\<rparr> \<and> write_locked S r st = Inr st')"
proof -
  from assms obtain rs r0 where rs: "list_locked S st = Inr rs"
      "\<not> list_ex (\<lambda>q. cr_change_id q \<noteq> i \<and> cr_workspace_id q = Some w) rs"
    and r0: "holds_record S st i r0" "cr_revision r0 = v" "cr_allocation_operation_id r0 = Some op"
    and rest: "cr_workspace_id r0 = Some w \<and> r = r0 \<and> st' = st \<or>
     cr_workspace_id r0 = None \<and> cr_allocation_pending r0 \<and> unat (cr_revision r0) + 1 < 2 ^ 64 \<and>
     r = r0\<lparr>cr_workspace_id := Some w, cr_provisioning_operation_id := Some op, cr_allocation_pending := False,
            cr_revision := cr_revision r0 + 1\<rparr> \<and> write_locked S r st = Inr st'"
    by (auto simp: bind_managed_workspace_def bump_Inr split: option.split_asm)
  have "cr_workspace_id q \<noteq> Some w" if "holds_record S st j q" "j \<noteq> i" for j q
    using rs list_locked_members [OF rs(1) that(1)] read_locked_identity [OF that(1)] that(2)
    by (auto simp: list_ex_iff)
  with r0 rest show ?thesis by blast
qed

lemma bind_managed_workspace_preserves:
  assumes inv: "store_inv S st" and "bind_managed_workspace S i v op w st = Inr (r, st')"
  shows "store_inv S st' \<and> store_advances S st st'"
proof -
  from bind_managed_workspace_Inr [OF assms(2)] obtain r0 where
    r0: "holds_record S st i r0" "cr_allocation_operation_id r0 = Some op"
    and free: "\<forall>j q. holds_record S st j q \<longrightarrow> j \<noteq> i \<longrightarrow> cr_workspace_id q \<noteq> Some w"
    and cases: "st' = st \<or> (cr_workspace_id r0 = None \<and> unat (cr_revision r0) + 1 < 2 ^ 64 \<and>
     r = r0\<lparr>cr_workspace_id := Some w, cr_provisioning_operation_id := Some op, cr_allocation_pending := False,
            cr_revision := cr_revision r0 + 1\<rparr> \<and> write_locked S r st = Inr st')" by blast
  from cases show ?thesis
  proof
    assume "st' = st"
    with inv show ?thesis by (simp add: store_advances_refl)
  next
    assume new: "cr_workspace_id r0 = None \<and> unat (cr_revision r0) + 1 < 2 ^ 64 \<and>
     r = r0\<lparr>cr_workspace_id := Some w, cr_provisioning_operation_id := Some op, cr_allocation_pending := False,
            cr_revision := cr_revision r0 + 1\<rparr> \<and> write_locked S r st = Inr st'"
    then have wr: "write_locked S r st = Inr st'" and room: "unat (cr_revision r0) + 1 < 2 ^ 64"
      and none: "cr_workspace_id r0 = None"
      and r: "r = r0\<lparr>cr_workspace_id := Some w, cr_provisioning_operation_id := Some op,
        cr_allocation_pending := False, cr_revision := cr_revision r0 + 1\<rparr>" by auto
    note ident = read_locked_identity [OF r0(1)]
    have fields: "cr_schema_version r = 1" "cr_scope r = cs_scope st" "cr_change_id r = i"
      "cr_task_id r = cr_task_id r0" "cr_workspace_id r = Some w"
      using ident by (simp_all add: r)
    have adv: "advances r0 r"
      using none less_imp_le [OF u64_less_Suc [OF room]]
      unfolding r advances_def same_identity_def same_delivery_def by simp
    note old = store_inv_record [OF inv r0(1)]
    have "allocation_ok r" using r0(2) by (simp add: r allocation_ok_def)
    moreover have "verification_ok r"
      using old u64_next [OF room] by (simp add: r change_inv_def verification_ok_def)
    ultimately have good: "change_inv r"
      using old u64_next(1) [OF room] by (simp add: r change_inv_def)
    from inv have ok: "change_serde_ok S" by (simp add: store_inv_def store_sound_def)
    have "store_inv S st'"
    proof (rule write_store_inv [OF inv wr good fields(1,2)])
      show "cr_workspace_id r \<noteq> Some w'"
        if "holds_record S st j q" "j \<noteq> cr_change_id r" "cr_workspace_id q = Some w'" for j q w'
        using free that fields by auto
      show "cr_task_id q \<noteq> cr_task_id r" if "holds_record S st j q" "j \<noteq> cr_change_id r" for j q
        using store_inv_task [OF inv r0(1) that(1)] that fields by auto
    qed
    moreover have "store_advances S st st'"
      using r0 adv fields(3) by (intro write_store_advances [OF ok wr fields(1,2)]) simp
    ultimately show ?thesis ..
  qed
qed

section \<open>Every operation\<close>

text \<open>One operation of the store that succeeded.\<close>

inductive change_step :: "change_serde \<Rightarrow> change_store \<Rightarrow> change_store \<Rightarrow> bool" for S where
  "create_named S i t pt pc b st = Inr (r, st') \<Longrightarrow> change_step S st st'"
| "create_idempotent S digest_id op t pt pc b st = Inr (r, st') \<Longrightarrow> change_step S st st'"
| "create_provisioned S to_string u t pt st = Inr (r, st') \<Longrightarrow> change_step S st st'"
| "allocation_intent S i v op st = Inr (r, st') \<Longrightarrow> change_step S st st'"
| "bind_managed_workspace S i v op w st = Inr (r, st') \<Longrightarrow> change_step S st st'"
| "append_execution S i v a st = Inr (r, st') \<Longrightarrow> change_step S st st'"
| "reserve_initial_start S i v start st = Inr (r, st') \<Longrightarrow> change_step S st st'"
| "verify_initial_snapshot S i v op l m vcs st = Inr (r, st') \<Longrightarrow> change_step S st st'"
| "mark_initial_snapshot_attempt S i v op st = Inr (r, st') \<Longrightarrow> change_step S st st'"
| "handoff_writer S i v previous e st = Inr (r, st') \<Longrightarrow> change_step S st st'"
| "release_writer S i v lease st = Inr (r, st') \<Longrightarrow> change_step S st st'"
| "observe_task_revision S i v tr st = Inr (r, st') \<Longrightarrow> change_step S st st'"
| "observe_snapshot S i v op l m st = Inr (r, st') \<Longrightarrow> change_step S st st'"
| "verify S i v m p st = Inr (r, st') \<Longrightarrow> change_step S st st'"

lemmas change_steps_ok =
  allocation_intent_step_ok append_execution_step_ok initial_start_steps_ok handoff_writer_step_ok
  release_writer_step_ok observe_task_revision_step_ok observe_snapshot_step_ok verify_step_ok

lemma change_step_preserves:
  assumes step: "change_step S st st'" and inv: "store_inv S st"
  shows "store_inv S st' \<and> store_advances S st st'"
  using step
proof cases
  case 1
  then show ?thesis by (rule create_named_preserves [OF inv])
next
  case 2
  then show ?thesis unfolding create_idempotent_def by (auto dest: create_named_preserves [OF inv])
next
  case 3
  then show ?thesis unfolding create_provisioned_def by (auto dest: create_named_preserves [OF inv])
next
  case 4
  then show ?thesis unfolding allocation_intent_def by (auto dest: update_preserves [OF inv _ allocation_intent_step_ok])
next
  case 5
  then show ?thesis by (rule bind_managed_workspace_preserves [OF inv])
next
  case 6
  then show ?thesis unfolding append_execution_def by (auto dest: update_preserves [OF inv _ append_execution_step_ok])
next
  case 7
  then show ?thesis unfolding reserve_initial_start_def by (auto dest: update_preserves [OF inv _ initial_start_steps_ok(1)])
next
  case 8
  then show ?thesis unfolding verify_initial_snapshot_def by (auto dest: update_preserves [OF inv _ initial_start_steps_ok(3)])
next
  case 9
  then show ?thesis unfolding mark_initial_snapshot_attempt_def by (auto dest: update_preserves [OF inv _ initial_start_steps_ok(2)])
next
  case 10
  then show ?thesis unfolding handoff_writer_def by (auto dest: update_preserves [OF inv _ handoff_writer_step_ok])
next
  case 11
  then show ?thesis unfolding release_writer_def by (auto dest: update_preserves [OF inv _ release_writer_step_ok])
next
  case 12
  then show ?thesis unfolding observe_task_revision_def by (auto dest: update_preserves [OF inv _ observe_task_revision_step_ok])
next
  case 13
  then show ?thesis unfolding observe_snapshot_def by (auto dest: update_preserves [OF inv _ observe_snapshot_step_ok])
next
  case 14
  then show ?thesis unfolding verify_def by (auto dest: update_preserves [OF inv _ verify_step_ok])
qed

text \<open>A record of a given revision never changes: every write takes the next one. This is what makes the
  comparison with an expected revision a comparison with the record that was read.\<close>

definition store_versioned :: "change_serde \<Rightarrow> change_store \<Rightarrow> change_store \<Rightarrow> bool" where
  "store_versioned S st st' \<longleftrightarrow>
     (\<forall>i r. holds_record S st i r \<longrightarrow>
        (\<exists>r'. holds_record S st' i r' \<and> (r' = r \<or> cr_revision r < cr_revision r')))"

lemma store_versioned_refl: "store_versioned S st st"
  by (auto simp: store_versioned_def)

lemma store_versioned_trans:
  "store_versioned S a b \<Longrightarrow> store_versioned S b c \<Longrightarrow> store_versioned S a c"
  unfolding store_versioned_def
proof (intro allI impI)
  fix i r
  assume ab: "\<forall>i r. holds_record S a i r \<longrightarrow> (\<exists>r'. holds_record S b i r' \<and> (r' = r \<or> cr_revision r < cr_revision r'))"
    and bc: "\<forall>i r. holds_record S b i r \<longrightarrow> (\<exists>r'. holds_record S c i r' \<and> (r' = r \<or> cr_revision r < cr_revision r'))"
    and r: "holds_record S a i r"
  from ab r obtain r1 where r1: "holds_record S b i r1" "r1 = r \<or> cr_revision r < cr_revision r1" by blast
  from bc r1(1) obtain r2 where r2: "holds_record S c i r2" "r2 = r1 \<or> cr_revision r1 < cr_revision r2" by blast
  from r1(2) r2(2) have "r2 = r \<or> cr_revision r < cr_revision r2" by (auto intro: order.strict_trans)
  with r2(1) show "\<exists>r'. holds_record S c i r' \<and> (r' = r \<or> cr_revision r < cr_revision r')" by blast
qed

lemma write_store_versioned:
  assumes "change_serde_ok S" and "write_locked S r st = Inr st'"
    and "cr_schema_version r = 1" "cr_scope r = cs_scope st"
    and "\<And>q. holds_record S st (cr_change_id r) q \<Longrightarrow> cr_revision q < cr_revision r"
  shows "store_versioned S st st'"
  unfolding store_versioned_def
proof (intro allI impI)
  fix j q
  assume "holds_record S st j q"
  then show "\<exists>q'. holds_record S st' j q' \<and> (q' = q \<or> cr_revision q < cr_revision q')"
    using assms(5) write_read_same [OF assms(1-4)] write_read_other [OF assms(2), of j]
    by (cases "j = cr_change_id r") auto
qed

lemma store_inv_serde: "store_inv S st \<Longrightarrow> change_serde_ok S"
  by (simp add: store_inv_def store_sound_def)

lemma update_versioned:
  assumes inv: "store_inv S st" and upd: "update S i v f st = Inr (r, st')" and f: "step_ok f"
  shows "store_versioned S st st'"
proof -
  note ok = store_inv_serde [OF inv]
  from update_Inr [OF ok upd] obtain r0 r1 where
    r0: "holds_record S st i r0" and f1: "f r0 = Inr r1"
    and ident: "cr_change_id r1 = i" "cr_scope r1 = cs_scope st" "cr_schema_version r1 = 1"
    and cases: "st' = st \<or> (unat (cr_revision r1) + 1 < 2 ^ 64 \<and> r = r1\<lparr>cr_revision := cr_revision r1 + 1\<rparr> \<and>
      write_locked S r st = Inr st')" by blast
  have rev: "cr_revision r1 = cr_revision r0" using f f1 by (simp add: step_ok_def)
  from cases show ?thesis
  proof
    assume "unat (cr_revision r1) + 1 < 2 ^ 64 \<and> r = r1\<lparr>cr_revision := cr_revision r1 + 1\<rparr> \<and>
      write_locked S r st = Inr st'"
    then show ?thesis
      using r0 ident rev u64_less_Suc [of "cr_revision r0"]
      by (intro write_store_versioned [OF ok, of r]) auto
  qed (simp add: store_versioned_refl)
qed

lemma create_named_versioned:
  assumes inv: "store_inv S st" and "create_named S i t pt pc b st = Inr (r, st')"
  shows "store_versioned S st st'"
  using create_named_Inr [OF assms(2)]
proof
  assume new: "i \<notin> fst ` set (cs_files st) \<and> (\<forall>j q. holds_record S st j q \<longrightarrow> cr_task_id q \<noteq> t) \<and>
     r = new_record (cs_scope st) i t pt pc b \<and> write_locked S r st = Inr st'"
  then show ?thesis
    using holds_record_file [of S st i]
    by (intro write_store_versioned [OF store_inv_serde [OF inv], of r]) (auto simp: new_record_def)
qed (simp add: store_versioned_refl)

lemma bind_managed_workspace_versioned:
  assumes inv: "store_inv S st" and "bind_managed_workspace S i v op w st = Inr (r, st')"
  shows "store_versioned S st st'"
proof -
  from bind_managed_workspace_Inr [OF assms(2)] obtain r0 where r0: "holds_record S st i r0"
    and cases: "st' = st \<or> (unat (cr_revision r0) + 1 < 2 ^ 64 \<and>
     r = r0\<lparr>cr_workspace_id := Some w, cr_provisioning_operation_id := Some op, cr_allocation_pending := False,
            cr_revision := cr_revision r0 + 1\<rparr> \<and> write_locked S r st = Inr st')" by blast
  from cases show ?thesis
  proof
    assume "unat (cr_revision r0) + 1 < 2 ^ 64 \<and>
     r = r0\<lparr>cr_workspace_id := Some w, cr_provisioning_operation_id := Some op, cr_allocation_pending := False,
            cr_revision := cr_revision r0 + 1\<rparr> \<and> write_locked S r st = Inr st'"
    then show ?thesis
      using r0 read_locked_identity [OF r0] u64_less_Suc [of "cr_revision r0"]
      by (intro write_store_versioned [OF store_inv_serde [OF inv], of r]) auto
  qed (simp add: store_versioned_refl)
qed

lemma change_step_versioned:
  assumes step: "change_step S st st'" and inv: "store_inv S st"
  shows "store_versioned S st st'"
  using step
proof cases
  case 1
  then show ?thesis by (rule create_named_versioned [OF inv])
next
  case 2
  then show ?thesis unfolding create_idempotent_def by (auto dest: create_named_versioned [OF inv])
next
  case 3
  then show ?thesis unfolding create_provisioned_def by (auto dest: create_named_versioned [OF inv])
next
  case 4
  then show ?thesis unfolding allocation_intent_def by (auto dest: update_versioned [OF inv _ allocation_intent_step_ok])
next
  case 5
  then show ?thesis by (rule bind_managed_workspace_versioned [OF inv])
next
  case 6
  then show ?thesis unfolding append_execution_def by (auto dest: update_versioned [OF inv _ append_execution_step_ok])
next
  case 7
  then show ?thesis unfolding reserve_initial_start_def by (auto dest: update_versioned [OF inv _ initial_start_steps_ok(1)])
next
  case 8
  then show ?thesis unfolding verify_initial_snapshot_def by (auto dest: update_versioned [OF inv _ initial_start_steps_ok(3)])
next
  case 9
  then show ?thesis unfolding mark_initial_snapshot_attempt_def by (auto dest: update_versioned [OF inv _ initial_start_steps_ok(2)])
next
  case 10
  then show ?thesis unfolding handoff_writer_def by (auto dest: update_versioned [OF inv _ handoff_writer_step_ok])
next
  case 11
  then show ?thesis unfolding release_writer_def by (auto dest: update_versioned [OF inv _ release_writer_step_ok])
next
  case 12
  then show ?thesis unfolding observe_task_revision_def by (auto dest: update_versioned [OF inv _ observe_task_revision_step_ok])
next
  case 13
  then show ?thesis unfolding observe_snapshot_def by (auto dest: update_versioned [OF inv _ observe_snapshot_step_ok])
next
  case 14
  then show ?thesis unfolding verify_def by (auto dest: update_versioned [OF inv _ verify_step_ok])
qed

text \<open>An operation above the store may take its lock several times. A timeline is the sequence of
  stores its lock sections see; between two of them others have run.\<close>

definition store_evolves :: "change_serde \<Rightarrow> change_store \<Rightarrow> change_store \<Rightarrow> bool" where
  "store_evolves S st st' \<longleftrightarrow> store_advances S st st' \<and> store_versioned S st st'"

lemma store_evolves_refl: "store_evolves S st st"
  by (simp add: store_evolves_def store_advances_refl store_versioned_refl)

lemma store_evolves_trans: "store_evolves S a b \<Longrightarrow> store_evolves S b c \<Longrightarrow> store_evolves S a c"
  unfolding store_evolves_def using store_advances_trans store_versioned_trans by blast

definition timeline :: "change_serde \<Rightarrow> (nat \<Rightarrow> change_store) \<Rightarrow> bool" where
  "timeline S seen \<longleftrightarrow> (\<forall>k. store_inv S (seen k) \<and> store_evolves S (seen k) (seen (Suc k)))"

lemma timeline_constant: "timeline S (\<lambda>_. st) \<longleftrightarrow> store_inv S st"
  by (simp add: timeline_def store_evolves_refl)

lemma timeline_inv: "timeline S seen \<Longrightarrow> store_inv S (seen k)"
  by (simp add: timeline_def)

lemma timeline_evolves:
  assumes "timeline S seen" and "j \<le> k"
  shows "store_evolves S (seen j) (seen k)"
  using assms(2)
proof (induction rule: dec_induct)
  case base
  show ?case by (rule store_evolves_refl)
next
  case (step n)
  then show ?case using assms(1) store_evolves_trans by (auto simp: timeline_def)
qed

lemma timeline_record:
  assumes "timeline S seen" "j \<le> k" "holds_record S (seen j) i r"
  obtains r' where "holds_record S (seen k) i r'" "advances r r'" "r' = r \<or> cr_revision r < cr_revision r'"
proof -
  from timeline_evolves [OF assms(1,2)] assms(3) obtain a b where
    "holds_record S (seen k) i a" "advances r a" "holds_record S (seen k) i b" "b = r \<or> cr_revision r < cr_revision b"
    unfolding store_evolves_def store_advances_def store_versioned_def by blast
  with that show thesis by auto
qed

section \<open>Properties\<close>

text \<open>C5. The store is a compare-and-swap on the record's revision. An update that changes the
  record stores it under exactly the next revision and touches no other Change, and afterwards
  any update prepared from the old revision is refused, whatever it wants to do: no update is
  lost.\<close>

theorem update_no_lost_update:
  assumes "store_inv S st" and "update S i v f st = Inr (r, st')" and "st' \<noteq> st"
    and "\<And>r0 r1. f r0 = Inr r1 \<Longrightarrow> cr_revision r1 = cr_revision r0"
  shows "holds_record S st' i r \<and> unat (cr_revision r) = unat v + 1 \<and>
    (\<forall>j. j \<noteq> i \<longrightarrow> read_locked S st' j = read_locked S st j) \<and>
    (\<forall>g. update S i v g st' = Inl (Message ''Change record revision conflict''))"
proof -
  from assms(1) have sound: "store_sound S st" by (simp add: store_inv_def)
  from change_versions.no_lost_update [OF sound assms(2,3,4)]
  have r: "unat (cr_revision r) = unat v + 1" "holds_record S st' i r" by blast+
  then have "cr_revision r \<noteq> v" by auto
  with r change_versions.upd_other [OF assms(2)] show ?thesis
    by (simp add: update_stale)
qed

lemma held_writer_excludes:
  assumes "change_serde_ok S" and "holds_record S st i r" and "cr_writer r = Some lease"
  shows "\<exists>e. handoff_writer S i v prev ex st = Inl e"
    and "lease' \<noteq> lease \<Longrightarrow> \<exists>e. release_writer S i v lease' st = Inl e"
proof -
  show "\<exists>e. handoff_writer S i v prev ex st = Inl e"
  proof (cases "handoff_writer S i v prev ex st")
    case (Inr p)
    obtain q st' where p: "p = (q, st')" by fastforce
    from Inr p have "update S i v (handoff_writer_step prev ex) st = Inr (q, st')"
      by (simp add: handoff_writer_def)
    from update_Inr [OF assms(1) this] assms(2,3) show ?thesis by (auto simp: handoff_writer_step_Inr)
  qed blast
  show "\<exists>e. release_writer S i v lease' st = Inl e" if "lease' \<noteq> lease"
  proof (cases "release_writer S i v lease' st")
    case (Inr p)
    obtain q st' where p: "p = (q, st')" by fastforce
    from Inr p have "update S i v (release_writer_step lease') st = Inr (q, st')"
      by (simp add: release_writer_def)
    from update_Inr [OF assms(1) this] assms(2,3) that show ?thesis by (auto simp: release_writer_step_def)
  qed blast
qed

text \<open>C6. Single writer. A successful handoff found no writer, and leaves exactly one lease, for the
  current execution and under a generation one past every earlier one. While it is held no
  handoff succeeds, and only that very lease can be released.\<close>

theorem handoff_writer_exclusive:
  assumes "store_inv S st" and "handoff_writer S i v prev execution_id st = Inr (r, st')"
  shows "\<exists>r0 lease. holds_record S st i r0 \<and> cr_writer r0 = None \<and>
    holds_record S st' i r \<and> cr_writer r = Some lease \<and> wl_execution_id lease = execution_id \<and>
    ea_execution_id (last (cr_executions r)) = execution_id \<and>
    unat (wl_generation lease) = unat (cr_writer_generation r0) + 1 \<and>
    (\<forall>v' prev' ex'. \<exists>e. handoff_writer S i v' prev' ex' st' = Inl e) \<and>
    (\<forall>v' lease'. lease' \<noteq> lease \<longrightarrow> (\<exists>e. release_writer S i v' lease' st' = Inl e))"
proof -
  from assms(1) have ok: "change_serde_ok S" and sound: "store_sound S st"
    by (simp_all add: store_inv_def store_sound_def)
  from assms(2) have upd: "update S i v (handoff_writer_step prev execution_id) st = Inr (r, st')"
    by (simp add: handoff_writer_def)
  from change_versions.upd_same [OF sound upd] obtain r0 r1 where
    r0: "holds_record S st i r0" and f: "handoff_writer_step prev execution_id r0 = Inr r1"
    and got: "holds_record S st' i r" and cases: "r1 = r0 \<and> r = r0 \<or> r = r1\<lparr>cr_revision := cr_revision r1 + 1\<rparr>"
    by blast
  define lease where "lease = \<lparr>wl_execution_id = execution_id, wl_generation = cr_writer_generation r0 + 1\<rparr>"
  from f have none: "cr_writer r0 = None" and w1: "cr_writer r1 = Some lease"
    and ex: "cr_executions r1 = cr_executions r0" "ea_execution_id (last (cr_executions r0)) = execution_id"
    and room: "unat (cr_writer_generation r0) + 1 < 2 ^ 64"
    by (simp_all add: handoff_writer_step_Inr lease_def)
  from cases none w1 have r: "r = r1\<lparr>cr_revision := cr_revision r1 + 1\<rparr>" by auto
  then have w: "cr_writer r = Some lease" using w1 by simp
  have "unat (wl_generation lease) = unat (cr_writer_generation r0) + 1"
    using room by (simp add: lease_def unat_u64_add)
  with r0 none got w ex r held_writer_excludes [OF ok got w] show ?thesis
    by (intro exI [of _ r0] exI [of _ lease]) (simp add: lease_def)
qed

lemma update_cases:
  assumes "store_inv S st" and "update S i v f st = Inr (r, st')" and "step_ok f"
  shows "\<exists>r0 r1. holds_record S st i r0 \<and> f r0 = Inr r1 \<and> (r = r1 \<or> r = r1\<lparr>cr_revision := cr_revision r1 + 1\<rparr>) \<and>
    change_inv r \<and> holds_record S st' i r"
proof -
  from assms(1) have sound: "store_sound S st" by (simp add: store_inv_def)
  from change_versions.upd_same [OF sound assms(2)] obtain r0 r1 where
    r: "holds_record S st i r0" "f r0 = Inr r1" "holds_record S st' i r"
      "r = r1 \<or> r = r1\<lparr>cr_revision := cr_revision r1 + 1\<rparr>" by blast
  from update_preserves [OF assms] store_inv_record [OF _ r(3)] have "change_inv r" by blast
  with r show ?thesis by blast
qed

lemma verify_pins:
  assumes "store_inv S st" and "verify S i v materialized passed st = Inr (r, st')"
  shows "\<exists>vf. cr_verification r = Some vf \<and> vf_revision vf = materialized \<and> vf_passed vf = passed \<and>
    cr_materialized_revision r = Some materialized \<and>
    vf_task_record_revision vf = cr_task_record_revision r \<and> 0 < cr_task_record_revision r \<and>
    vf_record_revision vf \<le> cr_revision r"
proof -
  from update_cases [OF assms(1) assms(2) [unfolded verify_def] verify_step_ok] obtain r0 r1 where
    f: "verify_step materialized passed r0 = Inr r1"
    and r: "r = r1 \<or> r = r1\<lparr>cr_revision := cr_revision r1 + 1\<rparr>" and inv: "change_inv r" by blast
  from verify_step_Inr [OF f] have "\<exists>vf. cr_verification r1 = Some vf \<and> vf_revision vf = materialized \<and>
      vf_passed vf = passed" and "cr_materialized_revision r1 = Some materialized" by auto
  with r obtain vf where vf: "cr_verification r = Some vf" "vf_revision vf = materialized" "vf_passed vf = passed"
    and m: "cr_materialized_revision r = Some materialized" by auto
  from change_inv_verification [OF inv vf(1)] vf m show ?thesis by simp
qed

lemma observe_task_revision_discards:
  assumes "store_inv S st" and "observe_task_revision S i v task_revision st = Inr (r, st')"
    and "holds_record S st i r0" and "cr_task_record_revision r0 \<noteq> task_revision"
  shows "cr_verification r = None \<and> cr_task_record_revision r = task_revision"
proof -
  from assms(2) have "update S i v (observe_task_revision_step task_revision) st = Inr (r, st')"
    by (simp add: observe_task_revision_def)
  from update_cases [OF assms(1) this observe_task_revision_step_ok] assms(3) obtain r1 where
    f: "observe_task_revision_step task_revision r0 = Inr r1"
    and r: "r = r1 \<or> r = r1\<lparr>cr_revision := cr_revision r1 + 1\<rparr>" by auto
  from f assms(4) have "cr_verification r1 = None" "cr_task_record_revision r1 = task_revision"
    by (auto simp: observe_task_revision_step_def)
  with r show ?thesis by auto
qed

lemma observe_snapshot_discards:
  assumes "store_inv S st" and "observe_snapshot S i v operation_id logical materialized st = Inr (r, st')"
    and "holds_record S st i r0"
    and "cr_materialized_revision r0 \<noteq> Some materialized \<or> cr_latest_snapshot_operation_id r0 \<noteq> Some operation_id"
  shows "cr_verification r = None \<and> cr_materialized_revision r = Some materialized"
proof -
  from assms(2) have "update S i v (observe_snapshot_step operation_id logical materialized) st = Inr (r, st')"
    by (simp add: observe_snapshot_def)
  from update_cases [OF assms(1) this observe_snapshot_step_ok] assms(3) obtain r1 where
    f: "observe_snapshot_step operation_id logical materialized r0 = Inr r1"
    and r: "r = r1 \<or> r = r1\<lparr>cr_revision := cr_revision r1 + 1\<rparr>" by auto
  from f assms(4) have "cr_verification r1 = None" "cr_materialized_revision r1 = Some materialized"
    by (auto simp: observe_snapshot_step_def Let_def split: if_split_asm)
  with r show ?thesis by auto
qed

text \<open>A verification always speaks about the present: recording one pins it to the
  materialised revision and the task revision of the moment it was made, and observing a new
  task revision or a new snapshot discards it.\<close>

theorem verification_freshness:
  assumes "store_inv S st"
  shows "(verify S i v materialized passed st = Inr (r, st') \<longrightarrow>
      (\<exists>vf. cr_verification r = Some vf \<and> vf_revision vf = materialized \<and> vf_passed vf = passed \<and>
         cr_materialized_revision r = Some materialized \<and>
         vf_task_record_revision vf = cr_task_record_revision r \<and> 0 < cr_task_record_revision r \<and>
         vf_record_revision vf \<le> cr_revision r)) \<and>
    (observe_task_revision S i v task_revision st = Inr (r, st') \<and> holds_record S st i r0 \<and>
      cr_task_record_revision r0 \<noteq> task_revision \<longrightarrow>
      cr_verification r = None \<and> cr_task_record_revision r = task_revision) \<and>
    (observe_snapshot S i v operation_id logical materialized st = Inr (r, st') \<and> holds_record S st i r0 \<and>
      (cr_materialized_revision r0 \<noteq> Some materialized \<or> cr_latest_snapshot_operation_id r0 \<noteq> Some operation_id) \<longrightarrow>
      cr_verification r = None \<and> cr_materialized_revision r = Some materialized)"
  using verify_pins [OF assms] observe_task_revision_discards [OF assms]
    observe_snapshot_discards [OF assms] by blast

lemma created_identity:
  assumes "create_named S i t pt pc b st = Inr (r, st')"
  shows "cr_task_id r = t \<and> cr_parent_task_id r = pt \<and> cr_parent_change_id r = pc \<and> cr_base r = b"
  using assms
  by (auto simp: create_named_def Let_def new_record_def split: if_split_asm)

lemma create_guards:
  assumes "create_named S i t pt pc b st = Inr (r, st')"
  shows "label i = Inr () \<and> label t = Inr () \<and> label_opt pt = Inr () \<and> label_opt pc = Inr () \<and>
    (\<forall>p. pc = Some p \<longrightarrow> b = Change p \<and> (\<exists>q. holds_record S st p q)) \<and>
    (\<forall>p. b = Change p \<longrightarrow> (\<exists>q. holds_record S st p q))"
  using assms by (auto simp: create_named_def split: option.split_asm change_base.split_asm)

text \<open>Creation is idempotent and durable: repeating a creation with the same arguments, at
  any later time and whatever happened to the Change in between, writes nothing and returns the
  present record of that same Change.\<close>

theorem create_replay:
  assumes "store_inv S st" and "create_named S i t pt pc b st = Inr (r, st1)" and "store_advances S st1 st2"
  shows "\<exists>r2. create_named S i t pt pc b st2 = Inr (r2, st2) \<and> holds_record S st2 i r2 \<and> advances r r2"
proof -
  note pres = create_named_preserves [OF assms(1,2)]
  from pres assms(3) have adv: "store_advances S st st2" using store_advances_trans by blast
  have "holds_record S st1 i r"
  proof -
    from assms(1) have ok: "change_serde_ok S" by (simp add: store_inv_def store_sound_def)
    from create_named_Inr [OF assms(2)] write_read_same [OF ok, of r st st1] show ?thesis
      by (auto simp: new_record_def)
  qed
  with assms(3) obtain r2 where r2: "holds_record S st2 i r2" and a: "advances r r2"
    by (auto simp: store_advances_def)
  from created_identity [OF assms(2)] a have ident: "cr_task_id r2 = t" "cr_parent_task_id r2 = pt"
    "cr_parent_change_id r2 = pc" "cr_base r2 = b" by (simp_all add: advances_def same_identity_def)
  note guards = create_guards [OF assms(2)]
  have later: "\<exists>q'. holds_record S st2 p q'" if "holds_record S st p q" for p q
    using adv that by (auto simp: store_advances_def)
  have "(case b of OriginMain \<Rightarrow> Inr () | Change p \<Rightarrow> and_then (read_locked S st2 p) (\<lambda>_. Inr ())) = Inr ()"
    using guards later by (cases b) fastforce+
  moreover have "(case pc of None \<Rightarrow> Inr () | Some p \<Rightarrow> and_then (read_locked S st2 p) (\<lambda>_. Inr ())) = Inr ()"
    using guards later by (cases pc) fastforce+
  moreover have "map_of (cs_files st2) i \<noteq> None" using read_locked_identity [OF r2] by auto
  moreover have "case pc of None \<Rightarrow> True | Some parent \<Rightarrow> b = Change parent"
    using guards by (cases pc) simp_all
  ultimately have "create_named S i t pt pc b st2 = Inr (r2, st2)"
    using guards r2 ident by (simp add: create_named_def)
  with r2 a show ?thesis by blast
qed

section \<open>Witnesses\<close>

text \<open>A store with one Change that has a workspace, an execution and a snapshot.\<close>

definition sample_scope :: change_scope where
  "sample_scope = \<lparr>sp_session_id = ''s'', sp_session_started_at = 1, sp_session_process_id = 2,
     sp_canonical_root = ''/r'', sp_repository_id = ''o/r''\<rparr>"

definition sample_change :: "writer_lease option \<Rightarrow> u64 \<Rightarrow> verification option \<Rightarrow> u64 \<Rightarrow> change_record" where
  "sample_change w gen vf rv = (new_record sample_scope ''c1'' ''t1'' None None OriginMain)
     \<lparr>cr_workspace_id := Some ''w'', cr_provisioning_operation_id := Some 7, cr_allocation_operation_id := Some 7,
      cr_executions := [\<lparr>ea_execution_id = ''e1'', ea_backend = ''b'', ea_executor = ''x'', ea_generation = 1\<rparr>],
      cr_writer := w, cr_writer_generation := gen, cr_logical_change_id := Some ''l'',
      cr_materialized_revision := Some ''m'', cr_latest_snapshot_operation_id := Some 3,
      cr_task_record_revision := 2, cr_verification := vf, cr_revision := rv\<rparr>"

definition sample_store :: "change_record \<Rightarrow> change_store" where
  "sample_store r = \<lparr>cs_scope = sample_scope, cs_files = [(''c1'', put_cr r)]\<rparr>"

definition sample_fits :: "change_record \<Rightarrow> bool" where
  "sample_fits r \<longleftrightarrow> cr_schema_version r = 1 \<and> cr_change_id r = ''c1'' \<and> cr_scope r = sample_scope \<and>
     length (put_cr r) \<le> MAX_RECORD"

lemma sample_label: "label ''c1'' = Inr ()" "label ''t1'' = Inr ()" "label ''e1'' = Inr ()"
  by (simp_all add: label_def label_byte_def is_ascii_alphanumeric_def)

lemma sample_format_read: "cr_from_slice sample_format (put_cr r) = Some r"
  using sample_format_ok by (simp add: change_serde_ok_def sample_format_def)

lemma sample_holds:
  assumes "sample_fits r"
  shows "holds_record sample_format (sample_store r) i q \<longleftrightarrow> i = ''c1'' \<and> q = r"
  using assms sample_label(1)
  by (auto simp: read_locked_def sample_store_def sample_fits_def sample_format_read split: if_split_asm)

lemma sample_store_inv: "sample_fits r \<Longrightarrow> change_inv r \<Longrightarrow> store_inv sample_format (sample_store r)"
  by (auto simp: store_inv_def store_sound_def sample_format_ok sample_holds)
    (auto simp: sample_store_def)

lemma sample_update:
  assumes "sample_fits r" and "f r = Inr r'" and "r' \<noteq> r" and "cr_revision r' = v" and "cr_revision r = v"
    and "unat v + 1 < 2 ^ 64" and "r'' = r'\<lparr>cr_revision := v + 1\<rparr>" and "sample_fits r''"
  shows "update sample_format ''c1'' v f (sample_store r) = Inr (r'', sample_store r'')"
proof -
  have r: "holds_record sample_format (sample_store r) ''c1'' r" using sample_holds [OF assms(1)] by simp
  from assms(8,7) have fields: "cr_change_id r' = ''c1''" "cr_scope r' = sample_scope" "cr_schema_version r' = 1"
    by (simp_all add: sample_fits_def)
  have "bump r' = Inr r''" using assms(4,6,7) by (simp add: bump_Inr)
  moreover have "write_locked sample_format r'' (sample_store r) = Inr (sample_store r'')"
    using assms(8) sample_label(1)
    by (simp add: write_locked_Inr sample_fits_def sample_store_def) (simp add: sample_format_def)
  moreover have "cs_scope (sample_store r) = sample_scope" by (simp add: sample_store_def)
  ultimately show ?thesis
    using r assms(2,3,5) fields to_vec_inject [OF sample_format_ok, of r' r]
    by (simp add: update_def Let_def)
qed

lemmas put_defs = put_cr_def put_sp_def put_ea_def put_wl_def put_vf_def put_opt_def put_list_def
  put_str_def put_word_def put_bool_def

lemma sample_change_fits:
  "sample_fits (sample_change None 0 None 4)"
  "sample_fits (sample_change None 0 (Some \<lparr>vf_revision = ''m'', vf_record_revision = 5,
     vf_task_record_revision = 2, vf_passed = True\<rparr>) 5)"
  "sample_fits (sample_change (Some \<lparr>wl_execution_id = ''e1'', wl_generation = 1\<rparr>) 1 None 5)"
  by (simp_all add: sample_fits_def sample_change_def new_record_def sample_scope_def put_defs MAX_RECORD_def)

lemma sample_change_inv: "change_inv (sample_change None 0 None 4)"
  by (simp add: change_inv_defs executions_ok_def sample_change_def new_record_def MAX_EXECUTIONS_def)

lemmas sample_inv = sample_store_inv [OF sample_change_fits(1) sample_change_inv]

lemma sample_verify:
  "verify sample_format ''c1'' 4 ''m'' True (sample_store (sample_change None 0 None 4)) =
     Inr (sample_change None 0 (Some \<lparr>vf_revision = ''m'', vf_record_revision = 5,
            vf_task_record_revision = 2, vf_passed = True\<rparr>) 5,
          sample_store (sample_change None 0 (Some \<lparr>vf_revision = ''m'', vf_record_revision = 5,
            vf_task_record_revision = 2, vf_passed = True\<rparr>) 5))"
  unfolding verify_def
  by (rule sample_update [where r' = "sample_change None 0 (Some \<lparr>vf_revision = ''m'', vf_record_revision = 5,
        vf_task_record_revision = 2, vf_passed = True\<rparr>) 4",
      OF sample_change_fits(1) _ _ _ _ _ _ sample_change_fits(2)])
    (simp_all add: verify_step_def sample_change_def new_record_def)

lemma sample_handoff:
  "handoff_writer sample_format ''c1'' 4 None ''e1'' (sample_store (sample_change None 0 None 4)) =
     Inr (sample_change (Some \<lparr>wl_execution_id = ''e1'', wl_generation = 1\<rparr>) 1 None 5,
          sample_store (sample_change (Some \<lparr>wl_execution_id = ''e1'', wl_generation = 1\<rparr>) 1 None 5))"
proof -
  have "update sample_format ''c1'' 4 (handoff_writer_step None ''e1'') (sample_store (sample_change None 0 None 4)) =
     Inr (sample_change (Some \<lparr>wl_execution_id = ''e1'', wl_generation = 1\<rparr>) 1 None 5,
          sample_store (sample_change (Some \<lparr>wl_execution_id = ''e1'', wl_generation = 1\<rparr>) 1 None 5))"
    by (rule sample_update [where r' = "sample_change (Some \<lparr>wl_execution_id = ''e1'', wl_generation = 1\<rparr>) 1 None 4",
        OF sample_change_fits(1) _ _ _ _ _ _ sample_change_fits(3)])
      (simp_all add: handoff_writer_step_def allocated_def sample_change_def new_record_def u64_checked_add_def)
  then show ?thesis by (simp add: handoff_writer_def sample_label)
qed

lemma sample_store_inject: "sample_store r = sample_store r' \<longleftrightarrow> r = r'"
  using to_vec_inject [OF sample_format_ok, of r r'] by (auto simp: sample_store_def sample_format_def)

theorem update_no_lost_update_witness:
  "\<forall>g. update sample_format ''c1'' 4 g
      (sample_store (sample_change None 0 (Some \<lparr>vf_revision = ''m'', vf_record_revision = 5,
        vf_task_record_revision = 2, vf_passed = True\<rparr>) 5))
    = Inl (Message ''Change record revision conflict'')"
proof -
  have diff: "sample_store (sample_change None 0 (Some \<lparr>vf_revision = ''m'', vf_record_revision = 5,
        vf_task_record_revision = 2, vf_passed = True\<rparr>) 5) \<noteq> sample_store (sample_change None 0 None 4)"
    by (simp add: sample_store_inject sample_change_def new_record_def)
  have keeps: "cr_revision r1 = cr_revision r0" if "verify_step ''m'' True r0 = Inr r1" for r0 r1
    using that verify_step_ok [of "''m''" True] by (simp add: step_ok_def)
  from update_no_lost_update [OF sample_inv sample_verify [unfolded verify_def] diff keeps] show ?thesis by blast
qed

theorem handoff_writer_exclusive_witness:
  "\<exists>r0 (lease :: writer_lease). holds_record sample_format (sample_store (sample_change None 0 None 4)) ''c1'' r0 \<and>
    cr_writer r0 = None \<and> wl_execution_id lease = ''e1'' \<and>
    unat (wl_generation lease) = unat (cr_writer_generation r0) + 1 \<and>
    (\<forall>v' prev' ex'. \<exists>e. handoff_writer sample_format ''c1'' v' prev' ex'
       (sample_store (sample_change (Some \<lparr>wl_execution_id = ''e1'', wl_generation = 1\<rparr>) 1 None 5)) = Inl e)"
  using handoff_writer_exclusive [OF sample_inv sample_handoff] by blast

theorem verification_freshness_witness:
  "\<exists>vf. cr_verification (sample_change None 0 (Some \<lparr>vf_revision = ''m'', vf_record_revision = 5,
      vf_task_record_revision = 2, vf_passed = True\<rparr>) 5) = Some vf \<and> vf_revision vf = ''m'' \<and> vf_passed vf"
  using verification_freshness [OF sample_inv] sample_verify by blast

lemma sample_create:
  "create_named sample_format ''c1'' ''t1'' None None OriginMain \<lparr>cs_scope = sample_scope, cs_files = []\<rparr> =
     Inr (new_record sample_scope ''c1'' ''t1'' None None OriginMain,
          sample_store (new_record sample_scope ''c1'' ''t1'' None None OriginMain))"
  by (simp add: create_named_def sample_label label_opt_def list_locked_def Let_def write_locked_def
      sample_store_def sample_format_def)
    (simp add: new_record_def sample_scope_def put_defs MAX_RECORD_def sample_label)

theorem create_replay_witness:
  "\<exists>r2. create_named sample_format ''c1'' ''t1'' None None OriginMain
      (sample_store (new_record sample_scope ''c1'' ''t1'' None None OriginMain)) =
      Inr (r2, sample_store (new_record sample_scope ''c1'' ''t1'' None None OriginMain)) \<and>
    holds_record sample_format (sample_store (new_record sample_scope ''c1'' ''t1'' None None OriginMain)) ''c1'' r2 \<and>
    advances (new_record sample_scope ''c1'' ''t1'' None None OriginMain) r2"
  by (rule create_replay [OF store_inv_empty [OF sample_format_ok] sample_create store_advances_refl])

end
