(* ===== verification/Delivery_Plan.thy ===== *)
theory Delivery_Plan
  imports Change_Store
begin

text \<open>
  Delivery planning, \<^verbatim>\<open>plan\<close> of \<^verbatim>\<open>src/src/delivery.rs\<close>: the deterministic ordering of a set of
  Changes into delivery steps. The SHA-256 fingerprint of the serialised steps is the argument
  \<open>fingerprint\<close>. A \<^verbatim>\<open>BTreeMap\<close> is its list of entries in key order, a \<^verbatim>\<open>BTreeSet\<close> a list
  without repetition. \<open>index_changes\<close> builds the map, \<open>plan_pass\<close> is the body of the outer
  loop and \<open>plan_loop\<close> the loop, which ends because a pass that places nothing is an error.
\<close>

datatype delivery_method = SinglePr | StackedPr

record delivery_step =
  ds_change_id :: string
  ds_revision :: string
  ds_head_ref :: string
  ds_base_ref :: string
  ds_base_change_id :: "string option"
  ds_base_revision :: "string option"
  ds_method :: delivery_method

record delivery_plan =
  dp_steps :: "delivery_step list"
  dp_fingerprint :: string

section \<open>Planning\<close>

type_synonym change_index = "(string \<times> change_record) list"

fun index_changes :: "change_record list \<Rightarrow> change_index \<Rightarrow> anyhow + change_index" where
  "index_changes [] by_id = Inr by_id"
| "index_changes (change # changes) by_id =
     ensure (map_of by_id (cr_change_id change) = None) (Message ''duplicate Change identity'')
       (index_changes changes (insort_key fst (cr_change_id change, change) by_id))"

record plan_state =
  pl_done :: "string list"
  pl_steps :: "delivery_step list"
  pl_progressed :: bool

definition base_parent :: "change_record \<Rightarrow> string option" where
  "base_parent c = (case cr_base c of OriginMain \<Rightarrow> None | Change p \<Rightarrow> Some p)"

definition temote_ref :: "string \<Rightarrow> string" where
  "temote_ref i = ''temote/'' @ i"

text \<open>Whether the parent of a Change has been placed already; an unknown parent or one of another
  scope is an error.\<close>

definition parent_placed :: "change_index \<Rightarrow> string list \<Rightarrow> string \<Rightarrow> change_record \<Rightarrow> anyhow + bool" where
  "parent_placed by_id placed i change =
     (case base_parent change of
        None \<Rightarrow> Inr True
      | Some parent \<Rightarrow>
          (case map_of by_id parent of
             None \<Rightarrow> Inl (Message (''missing delivery parent for '' @ i))
           | Some base \<Rightarrow>
               ensure (cr_scope base = cr_scope change) (Message ''incompatible Change delivery parent'')
                 (Inr (parent \<in> set placed))))"

definition verification_current :: "change_record \<Rightarrow> string \<Rightarrow> verification \<Rightarrow> bool" where
  "verification_current change revision v =
     (vf_passed v \<and> vf_revision v = revision \<and> vf_record_revision v \<le> cr_revision change \<and>
      0 < vf_task_record_revision v \<and> vf_task_record_revision v = cr_task_record_revision change)"

definition make_step :: "change_index \<Rightarrow> string \<Rightarrow> change_record \<Rightarrow> anyhow + delivery_step" where
  "make_step by_id i change =
     ensure (cr_workspace_id change \<noteq> None \<and> \<not> cr_allocation_pending change)
       (Message ''Change workspace not allocated'') (
     ensure (cr_writer change = None) (Message ''Change still has an active writer'') (
     and_then (ok_or (cr_materialized_revision change) (Message ''missing materialized revision'')) (\<lambda>revision.
     and_then (ok_or (cr_verification change) (Message ''missing verification'')) (\<lambda>v.
     ensure (verification_current change revision v) (Message ''verification is stale or failed'') (
     let (base_ref, base_revision) =
           (case base_parent change of
              None \<Rightarrow> (''main'', None)
            | Some p \<Rightarrow> (temote_ref p, Option.bind (map_of by_id p) cr_materialized_revision))
     in Inr \<lparr>ds_change_id = i, ds_revision = revision, ds_head_ref = temote_ref i, ds_base_ref = base_ref,
          ds_base_change_id = base_parent change, ds_base_revision = base_revision,
          ds_method = (if base_parent change \<noteq> None then StackedPr else SinglePr)\<rparr>)))))"

definition plan_visit :: "change_index \<Rightarrow> plan_state \<Rightarrow> string \<times> change_record \<Rightarrow> anyhow + plan_state" where
  "plan_visit by_id s e =
     (case e of (i, change) \<Rightarrow>
        if i \<in> set (pl_done s) then Inr s
        else and_then (parent_placed by_id (pl_done s) i change) (\<lambda>ready.
          if \<not> ready then Inr s
          else and_then (make_step by_id i change) (\<lambda>st.
            Inr (s\<lparr>pl_done := i # pl_done s, pl_steps := pl_steps s @ [st], pl_progressed := True\<rparr>))))"

fun plan_pass :: "change_index \<Rightarrow> change_index \<Rightarrow> plan_state \<Rightarrow> anyhow + plan_state" where
  "plan_pass by_id [] s = Inr s"
| "plan_pass by_id (e # es) s = and_then (plan_visit by_id s e) (plan_pass by_id es)"

lemma and_then_cong [fundef_cong]:
  "m = m' \<Longrightarrow> (\<And>x. m' = Inr x \<Longrightarrow> k x = k' x) \<Longrightarrow> and_then m k = and_then m' k'"
  by (cases m') simp_all

lemma ensure_cong [fundef_cong]:
  "b = b' \<Longrightarrow> e = e' \<Longrightarrow> (b' \<Longrightarrow> k = k') \<Longrightarrow> ensure b e k = ensure b' e' k'"
  by (simp add: ensure_def)

lemma plan_visit_Inr:
  assumes "plan_visit by_id s (i, change) = Inr s'"
  shows "s' = s \<or> (i \<notin> set (pl_done s) \<and> parent_placed by_id (pl_done s) i change = Inr True \<and>
    (\<exists>st. make_step by_id i change = Inr st \<and>
       s' = s\<lparr>pl_done := i # pl_done s, pl_steps := pl_steps s @ [st], pl_progressed := True\<rparr>))"
  using assms by (auto simp: plan_visit_def split: if_split_asm)

lemma plan_pass_grows:
  "plan_pass by_id es s = Inr s' \<Longrightarrow>
     (s' = s \<or> length (pl_done s) < length (pl_done s') \<and> pl_progressed s')"
proof (induction es arbitrary: s)
  case Nil
  then show ?case by simp
next
  case (Cons e es)
  obtain i change where e: "e = (i, change)" by fastforce
  from Cons.prems e obtain s1 where s1: "plan_visit by_id s (i, change) = Inr s1"
    and rest: "plan_pass by_id es s1 = Inr s'" by auto
  from plan_visit_Inr [OF s1] Cons.IH [OF rest] show ?case by auto
qed

function plan_loop :: "change_index \<Rightarrow> plan_state \<Rightarrow> anyhow + plan_state" where
  "plan_loop by_id s =
     (if length (pl_done s) < length by_id then
        and_then (plan_pass by_id by_id (s\<lparr>pl_progressed := False\<rparr>)) (\<lambda>s'.
        ensure (pl_progressed s') (Message ''Change dependency cycle'') (plan_loop by_id s'))
      else Inr s)"
  by pat_completeness auto
termination
proof (relation "measure (\<lambda>(by_id, s). length by_id - length (pl_done s))")
  fix by_id :: change_index and s s'
  assume "length (pl_done s) < length by_id" "plan_pass by_id by_id (s\<lparr>pl_progressed := False\<rparr>) = Inr s'"
    "pl_progressed s'"
  with plan_pass_grows [of by_id by_id "s\<lparr>pl_progressed := False\<rparr>" s'] show
    "((by_id, s'), by_id, s) \<in> measure (\<lambda>(by_id, s). length by_id - length (pl_done s))" by auto
qed simp

declare plan_loop.simps [simp del]

definition plan ::
  "(delivery_step list \<Rightarrow> string) \<Rightarrow> change_record list \<Rightarrow> anyhow + delivery_plan" where
  "plan fingerprint changes =
     and_then (index_changes changes []) (\<lambda>by_id.
     and_then (plan_loop by_id \<lparr>pl_done = [], pl_steps = [], pl_progressed = False\<rparr>) (\<lambda>s.
       Inr \<lparr>dp_steps = pl_steps s, dp_fingerprint = fingerprint (pl_steps s)\<rparr>))"

section \<open>What a plan guarantees\<close>

definition deliverable :: "change_record \<Rightarrow> bool" where
  "deliverable c \<longleftrightarrow>
     allocated c \<and> cr_writer c = None \<and>
     (\<exists>revision v. cr_materialized_revision c = Some revision \<and> cr_verification c = Some v \<and>
        verification_current c revision v)"

lemma make_step_iff: "(\<exists>st. make_step by_id i c = Inr st) \<longleftrightarrow> deliverable c"
  by (auto simp: make_step_def deliverable_def allocated_def split: prod.splits)

lemma make_step_Inr:
  assumes "make_step by_id i c = Inr st"
  shows "deliverable c \<and> ds_change_id st = i \<and> cr_materialized_revision c = Some (ds_revision st) \<and>
    ds_head_ref st = temote_ref i \<and> ds_base_change_id st = base_parent c \<and>
    (base_parent c = None \<longrightarrow> ds_base_ref st = ''main'' \<and> ds_base_revision st = None \<and> ds_method st = SinglePr) \<and>
    (\<forall>p. base_parent c = Some p \<longrightarrow> ds_base_ref st = temote_ref p \<and> ds_method st = StackedPr \<and>
       ds_base_revision st = Option.bind (map_of by_id p) cr_materialized_revision)"
proof -
  have "deliverable c" using assms make_step_iff by blast
  with assms show ?thesis by (cases "base_parent c") (auto simp: make_step_def)
qed

definition step_good :: "change_index \<Rightarrow> string list \<Rightarrow> delivery_step \<Rightarrow> bool" where
  "step_good by_id placed st \<longleftrightarrow>
     (\<exists>c. map_of by_id (ds_change_id st) = Some c \<and> make_step by_id (ds_change_id st) c = Inr st \<and>
        parent_placed by_id placed (ds_change_id st) c = Inr True)"

definition plan_ok :: "change_index \<Rightarrow> plan_state \<Rightarrow> bool" where
  "plan_ok by_id s \<longleftrightarrow>
     distinct (pl_done s) \<and> set (pl_done s) \<subseteq> fst ` set by_id \<and>
     map ds_change_id (pl_steps s) = rev (pl_done s) \<and>
     (\<forall>k < length (pl_steps s). step_good by_id (map ds_change_id (take k (pl_steps s))) (pl_steps s ! k))"

lemma parent_placed_cong: "set a = set b \<Longrightarrow> parent_placed by_id a i c = parent_placed by_id b i c"
  by (simp add: parent_placed_def split: option.split)

lemma plan_visit_ok:
  assumes ok: "plan_ok by_id s" and c: "map_of by_id i = Some c" and visit: "plan_visit by_id s (i, c) = Inr s'"
  shows "plan_ok by_id s'"
  using plan_visit_Inr [OF visit]
proof (elim disjE conjE exE)
  assume "s' = s"
  with ok show ?thesis by simp
next
  fix st
  assume new: "i \<notin> set (pl_done s)" and placed: "parent_placed by_id (pl_done s) i c = Inr True"
    and st: "make_step by_id i c = Inr st"
    and s': "s' = s\<lparr>pl_done := i # pl_done s, pl_steps := pl_steps s @ [st], pl_progressed := True\<rparr>"
  from make_step_Inr [OF st] have i: "ds_change_id st = i" by simp
  from ok have ids: "map ds_change_id (pl_steps s) = rev (pl_done s)" by (simp add: plan_ok_def)
  have "parent_placed by_id (map ds_change_id (pl_steps s)) i c = Inr True"
    using placed parent_placed_cong [of "map ds_change_id (pl_steps s)" "pl_done s"] ids by simp
  with c st i have good: "step_good by_id (map ds_change_id (pl_steps s)) st" by (simp add: step_good_def)
  have "step_good by_id (map ds_change_id (take k (pl_steps s @ [st]))) ((pl_steps s @ [st]) ! k)"
    if "k < length (pl_steps s @ [st])" for k
    using that ok good by (cases "k = length (pl_steps s)") (auto simp: plan_ok_def nth_append)
  moreover have "i \<in> fst ` set by_id" using map_of_SomeD [OF c] by force
  ultimately show ?thesis using ok new ids i by (simp add: plan_ok_def s')
qed

lemma plan_pass_ok:
  assumes "plan_ok by_id s" and "\<forall>(i, c) \<in> set es. map_of by_id i = Some c" and "plan_pass by_id es s = Inr s'"
  shows "plan_ok by_id s'"
  using assms
proof (induction es arbitrary: s)
  case Nil
  then show ?case by simp
next
  case (Cons e es)
  obtain i c where e: "e = (i, c)" by fastforce
  from Cons.prems(3) e obtain s1 where s1: "plan_visit by_id s (i, c) = Inr s1"
    and rest: "plan_pass by_id es s1 = Inr s'" by auto
  from Cons.prems(2) e have c: "map_of by_id i = Some c" by simp
  from Cons.IH [OF plan_visit_ok [OF Cons.prems(1) c s1] _ rest] Cons.prems(2) show ?case by simp
qed

lemma plan_loop_more:
  "length (pl_done s) < length by_id \<Longrightarrow>
     plan_loop by_id s = Inr s' \<longleftrightarrow>
     (\<exists>s1. plan_pass by_id by_id (s\<lparr>pl_progressed := False\<rparr>) = Inr s1 \<and> pl_progressed s1 \<and>
        plan_loop by_id s1 = Inr s')"
  by (subst plan_loop.simps) simp

lemma plan_loop_done: "\<not> length (pl_done s) < length by_id \<Longrightarrow> plan_loop by_id s = Inr s"
  by (subst plan_loop.simps) simp

lemma plan_loop_ok:
  assumes "plan_ok by_id s" and "distinct (map fst by_id)" and "plan_loop by_id s = Inr s'"
  shows "plan_ok by_id s' \<and> length by_id \<le> length (pl_done s')"
  using assms
proof (induction by_id s rule: plan_loop.induct)
  case (1 by_id s)
  let ?s = "s\<lparr>pl_progressed := False\<rparr>"
  show ?case
  proof (cases "length (pl_done s) < length by_id")
    case True
    from iffD1 [OF plan_loop_more [OF True] 1(4)] obtain s1 where s1: "plan_pass by_id by_id ?s = Inr s1" "pl_progressed s1"
      "plan_loop by_id s1 = Inr s'" by (elim exE conjE)
    have entries: "\<forall>(i, c) \<in> set by_id. map_of by_id i = Some c"
      using 1(3) by (auto simp: map_of_is_SomeI)
    have "plan_ok by_id ?s" using 1(2) by (simp add: plan_ok_def)
    from plan_pass_ok [OF this entries s1(1)] have "plan_ok by_id s1" .
    from 1(1) [OF True s1(1,2) this 1(3) s1(3)] show ?thesis .
  next
    case False
    from plan_loop_done [OF this] 1(2,4) False show ?thesis by simp
  qed
qed

lemma insort_keys:
  "fst ` set (insort_key fst (i, c) acc) = insert i (fst ` set acc)"
  "i \<notin> fst ` set acc \<Longrightarrow> distinct (map fst acc) \<Longrightarrow> distinct (map fst (insort_key fst (i, c) acc))"
proof -
  show "fst ` set (insort_key fst (i, c) acc) = insert i (fst ` set acc)" by (simp add: set_insort_key)
  show "distinct (map fst (insort_key fst (i, c) acc))" if "i \<notin> fst ` set acc" "distinct (map fst acc)"
    using that by (induction acc) (auto simp: set_insort_key)
qed

lemma index_changes_Inr:
  assumes "index_changes cs acc = Inr by_id" and "distinct (map fst acc)"
  shows "distinct (map fst by_id) \<and> set by_id = set acc \<union> (\<lambda>c. (cr_change_id c, c)) ` set cs \<and>
    distinct (map cr_change_id cs) \<and> cr_change_id ` set cs \<inter> fst ` set acc = {}"
  using assms
proof (induction cs arbitrary: acc)
  case Nil
  then show ?case by simp
next
  case (Cons c cs)
  let ?acc = "insort_key fst (cr_change_id c, c) acc"
  from Cons.prems have new: "cr_change_id c \<notin> fst ` set acc" and rest: "index_changes cs ?acc = Inr by_id"
    by (simp_all add: map_of_eq_None_iff)
  from Cons.IH [OF rest insort_keys(2) [OF new Cons.prems(2)]] new show ?case
    by (auto simp: insort_keys(1) set_insort_key)
qed

lemma index_changes_total:
  "distinct (map cr_change_id cs) \<Longrightarrow> cr_change_id ` set cs \<inter> fst ` set acc = {} \<Longrightarrow>
     \<exists>by_id. index_changes cs acc = Inr by_id"
proof (induction cs arbitrary: acc)
  case Nil
  then show ?case by simp
next
  case (Cons c cs)
  let ?acc = "insort_key fst (cr_change_id c, c) acc"
  from Cons.prems have "map_of acc (cr_change_id c) = None" by (simp add: map_of_eq_None_iff)
  moreover from Cons.prems have "cr_change_id ` set cs \<inter> fst ` set ?acc = {}"
    by (auto simp: insort_keys(1))
  ultimately show ?case using Cons.IH [of ?acc] Cons.prems(1) by simp
qed

text \<open>The index of a list of Changes, as the later proofs use it.\<close>

lemma index_lookup:
  assumes "index_changes cs [] = Inr by_id"
  shows "distinct (map fst by_id)" and "fst ` set by_id = cr_change_id ` set cs"
    and "map_of by_id i = Some c \<longleftrightarrow> c \<in> set cs \<and> cr_change_id c = i"
    and "length by_id = length cs"
proof -
  from index_changes_Inr [OF assms] have d: "distinct (map fst by_id)"
    and members: "set by_id = (\<lambda>c. (cr_change_id c, c)) ` set cs" and ids: "distinct (map cr_change_id cs)"
    by simp_all
  show "distinct (map fst by_id)" by (rule d)
  show keys: "fst ` set by_id = cr_change_id ` set cs" by (simp add: members image_image)
  show "map_of by_id i = Some c \<longleftrightarrow> c \<in> set cs \<and> cr_change_id c = i"
    using members by (auto simp: map_of_eq_Some_iff [OF d])
  have "length by_id = card (fst ` set by_id)" using distinct_card [OF d] by simp
  also have "\<dots> = length cs" using distinct_card [OF ids] keys by simp
  finally show "length by_id = length cs" .
qed

lemma plan_pass_progress:
  assumes "plan_pass by_id es s = Inr s'" and "(i, c) \<in> set es" and "i \<notin> set (pl_done s)"
    and "parent_placed by_id (pl_done s) i c = Inr True"
  shows "pl_progressed s'"
  using assms
proof (induction es arbitrary: s)
  case Nil
  then show ?case by simp
next
  case (Cons e es)
  obtain j d where e: "e = (j, d)" by fastforce
  from Cons.prems(1) e obtain s1 where s1: "plan_visit by_id s (j, d) = Inr s1"
    and rest: "plan_pass by_id es s1 = Inr s'" by auto
  from plan_visit_Inr [OF s1] consider "s1 = s" "(j, d) \<noteq> (i, c)" | "pl_progressed s1"
  proof (elim disjE)
    assume same: "s1 = s"
    show thesis
    proof (cases "(j, d) = (i, c)")
      case True
      from s1 True Cons.prems(3,4) have "pl_progressed s1" by (auto simp: plan_visit_def)
      then show thesis by (rule that(2))
    next
      case False
      with same show thesis by (rule that(1))
    qed
  next
    assume "j \<notin> set (pl_done s) \<and> parent_placed by_id (pl_done s) j d = Inr True \<and>
      (\<exists>st. make_step by_id j d = Inr st \<and>
         s1 = s\<lparr>pl_done := j # pl_done s, pl_steps := pl_steps s @ [st], pl_progressed := True\<rparr>)"
    then have "pl_progressed s1" by auto
    then show thesis by (rule that(2))
  qed
  then show ?case
  proof cases
    case 1
    with e Cons.prems(2) have "(i, c) \<in> set es" by auto
    with Cons.IH [OF rest] 1 Cons.prems(3,4) show ?thesis by simp
  next
    case 2
    with plan_pass_grows [OF rest] show ?thesis by auto
  qed
qed

definition parents_ok :: "change_index \<Rightarrow> bool" where
  "parents_ok by_id \<longleftrightarrow>
     (\<forall>(i, c) \<in> set by_id. deliverable c \<and>
        (\<forall>p. base_parent c = Some p \<longrightarrow> (\<exists>b. map_of by_id p = Some b \<and> cr_scope b = cr_scope c)))"

lemma plan_pass_total:
  "parents_ok by_id \<Longrightarrow> set es \<subseteq> set by_id \<Longrightarrow> \<exists>s'. plan_pass by_id es s = Inr s'"
proof (induction es arbitrary: s)
  case Nil
  then show ?case by simp
next
  case (Cons e es)
  obtain i c where e: "e = (i, c)" by fastforce
  with Cons.prems have d: "deliverable c"
    and p: "\<And>p. base_parent c = Some p \<Longrightarrow> \<exists>b. map_of by_id p = Some b \<and> cr_scope b = cr_scope c"
    by (auto simp: parents_ok_def)
  from p obtain ready where "parent_placed by_id (pl_done s) i c = Inr ready"
    by (cases "base_parent c") (auto simp: parent_placed_def)
  moreover from d obtain st where "make_step by_id i c = Inr st" using make_step_iff by blast
  ultimately have "\<exists>s1. plan_visit by_id s (i, c) = Inr s1" by (cases ready) (simp_all add: plan_visit_def)
  with Cons e show ?case by auto
qed

text \<open>As long as some Change is not placed, one of least rank is ready.\<close>

lemma ready_exists:
  assumes "plan_ok by_id s" and "distinct (map fst by_id)" and "parents_ok by_id"
    and rank: "\<forall>(i, c) \<in> set by_id. \<forall>p. base_parent c = Some p \<longrightarrow> rank p < (rank i :: nat)"
    and "length (pl_done s) < length by_id"
  shows "\<exists>i c. (i, c) \<in> set by_id \<and> i \<notin> set (pl_done s) \<and> parent_placed by_id (pl_done s) i c = Inr True"
proof -
  have "\<not> fst ` set by_id \<subseteq> set (pl_done s)"
  proof
    assume "fst ` set by_id \<subseteq> set (pl_done s)"
    then have "card (fst ` set by_id) \<le> length (pl_done s)"
      by (meson List.finite_set card_length card_mono le_trans)
    with assms(5) distinct_card [OF assms(2)] show False by simp
  qed
  then obtain j where "j \<in> fst ` set by_id - set (pl_done s)" by blast
  then obtain i where i: "i \<in> fst ` set by_id - set (pl_done s)"
    and least: "\<And>k. k \<in> fst ` set by_id - set (pl_done s) \<Longrightarrow> rank i \<le> rank k"
    using ex_has_least_nat [of "\<lambda>i. i \<in> fst ` set by_id - set (pl_done s)" j rank] by blast
  from i obtain c where c: "(i, c) \<in> set by_id" by auto
  have "parent_placed by_id (pl_done s) i c = Inr True"
  proof (cases "base_parent c")
    case None
    then show ?thesis by (simp add: parent_placed_def)
  next
    case (Some p)
    with assms(3) c obtain b where b: "map_of by_id p = Some b" "cr_scope b = cr_scope c"
      by (fastforce simp: parents_ok_def)
    from rank c Some have "rank p < rank i" by fastforce
    with least [of p] have "p \<notin> fst ` set by_id - set (pl_done s)" by auto
    moreover have "p \<in> fst ` set by_id" using map_of_SomeD [OF b(1)] by force
    ultimately show ?thesis using b Some by (simp add: parent_placed_def)
  qed
  with i c show ?thesis by blast
qed

lemma plan_loop_total:
  assumes "plan_ok by_id s" and "distinct (map fst by_id)" and "parents_ok by_id"
    and "\<forall>(i, c) \<in> set by_id. \<forall>p. base_parent c = Some p \<longrightarrow> rank p < (rank i :: nat)"
  shows "\<exists>s'. plan_loop by_id s = Inr s'"
  using assms
proof (induction by_id s rule: plan_loop.induct)
  case (1 by_id s)
  let ?s = "s\<lparr>pl_progressed := False\<rparr>"
  show ?case
  proof (cases "length (pl_done s) < length by_id")
    case True
    have ok: "plan_ok by_id ?s" using 1(2) by (simp add: plan_ok_def)
    from plan_pass_total [OF 1(4) order_refl] obtain s1 where s1: "plan_pass by_id by_id ?s = Inr s1" by blast
    from ready_exists [OF ok 1(3,4,5)] True obtain i c where
      "(i, c) \<in> set by_id" "i \<notin> set (pl_done ?s)" "parent_placed by_id (pl_done ?s) i c = Inr True" by auto
    from plan_pass_progress [OF s1 this] have prog: "pl_progressed s1" .
    have "\<forall>(i, c) \<in> set by_id. map_of by_id i = Some c" using 1(3) by (auto simp: map_of_is_SomeI)
    from 1(1) [OF True s1 prog plan_pass_ok [OF ok this s1] 1(3-5)] s1 prog show ?thesis
      by (simp only: plan_loop_more [OF True]) blast
  next
    case False
    from plan_loop_done [OF this] show ?thesis by blast
  qed
qed

lemma plan_start_ok: "plan_ok by_id \<lparr>pl_done = [], pl_steps = [], pl_progressed = False\<rparr>"
  by (simp add: plan_ok_def)

lemma plan_Inr:
  assumes "plan fingerprint changes = Inr p"
  shows "\<exists>by_id. index_changes changes [] = Inr by_id \<and> distinct (map ds_change_id (dp_steps p)) \<and>
    set (map ds_change_id (dp_steps p)) = cr_change_id ` set changes \<and>
    (\<forall>k < length (dp_steps p). step_good by_id (map ds_change_id (take k (dp_steps p))) (dp_steps p ! k)) \<and>
    dp_fingerprint p = fingerprint (dp_steps p)"
proof -
  from assms obtain by_id s where idx: "index_changes changes [] = Inr by_id"
    and loop: "plan_loop by_id \<lparr>pl_done = [], pl_steps = [], pl_progressed = False\<rparr> = Inr s"
    and p: "p = \<lparr>dp_steps = pl_steps s, dp_fingerprint = fingerprint (pl_steps s)\<rparr>"
    by (auto simp: plan_def)
  note look = index_lookup [OF idx]
  from plan_loop_ok [OF plan_start_ok look(1) loop] have ok: "plan_ok by_id s"
    and len: "length by_id \<le> length (pl_done s)" by simp_all
  from ok have d: "distinct (pl_done s)" and sub: "set (pl_done s) \<subseteq> fst ` set by_id"
    and ids: "map ds_change_id (pl_steps s) = rev (pl_done s)" by (simp_all add: plan_ok_def)
  have "card (fst ` set by_id) \<le> card (set (pl_done s))"
    using len distinct_card [OF d] distinct_card [OF look(1)] by simp
  with sub have "set (pl_done s) = fst ` set by_id" by (simp add: card_seteq)
  with idx d ids look(2) ok p show ?thesis by (simp add: plan_ok_def flip: set_map)
qed

lemma step_good_change:
  assumes "index_changes changes [] = Inr by_id" and "step_good by_id placed st"
  shows "\<exists>c \<in> set changes. cr_change_id c = ds_change_id st \<and> make_step by_id (cr_change_id c) c = Inr st \<and>
    (\<forall>p. base_parent c = Some p \<longrightarrow> p \<in> set placed \<and>
       (\<exists>b \<in> set changes. cr_change_id b = p \<and> cr_scope b = cr_scope c \<and>
          ds_base_revision st = cr_materialized_revision b))"
proof -
  note look = index_lookup [OF assms(1)]
  from assms(2) obtain c where c: "map_of by_id (ds_change_id st) = Some c"
      "make_step by_id (ds_change_id st) c = Inr st" "parent_placed by_id placed (ds_change_id st) c = Inr True"
    by (auto simp: step_good_def)
  from c(1) look(3) have mem: "c \<in> set changes" "cr_change_id c = ds_change_id st" by simp_all
  have "p \<in> set placed \<and> (\<exists>b \<in> set changes. cr_change_id b = p \<and> cr_scope b = cr_scope c \<and>
      ds_base_revision st = cr_materialized_revision b)" if p: "base_parent c = Some p" for p
  proof -
    from c(3) p obtain b where "map_of by_id p = Some b" "cr_scope b = cr_scope c" "p \<in> set placed"
      by (auto simp: parent_placed_def split: option.split_asm)
    with make_step_Inr [OF c(2)] p look(3) show ?thesis by auto
  qed
  with mem c(2) show ?thesis by auto
qed

section \<open>Properties of a plan\<close>

text \<open>C7. A plan delivers each Change exactly once, parents first. Every step is for a Change that is
  allocated, has no writer and a passed, current verification of exactly the step's revision; a
  stacked step comes after its parent's step, targets its branch and names the revision that
  step delivers.\<close>

theorem plan_orders_parents_first:
  assumes "plan fingerprint changes = Inr p"
  shows "distinct (map ds_change_id (dp_steps p)) \<and>
    set (map ds_change_id (dp_steps p)) = cr_change_id ` set changes \<and>
    (\<forall>k < length (dp_steps p). \<exists>c \<in> set changes.
       cr_change_id c = ds_change_id (dp_steps p ! k) \<and> deliverable c \<and>
       cr_materialized_revision c = Some (ds_revision (dp_steps p ! k)) \<and>
       ds_base_change_id (dp_steps p ! k) = base_parent c \<and>
       (\<forall>parent. base_parent c = Some parent \<longrightarrow>
          (\<exists>j < k. ds_change_id (dp_steps p ! j) = parent \<and>
             ds_base_ref (dp_steps p ! k) = ds_head_ref (dp_steps p ! j) \<and>
             ds_base_revision (dp_steps p ! k) = Some (ds_revision (dp_steps p ! j)))))"
proof -
  from plan_Inr [OF assms] obtain by_id where idx: "index_changes changes [] = Inr by_id"
    and ids: "distinct (map ds_change_id (dp_steps p))"
      "set (map ds_change_id (dp_steps p)) = cr_change_id ` set changes"
    and good: "\<And>k. k < length (dp_steps p) \<Longrightarrow>
      step_good by_id (map ds_change_id (take k (dp_steps p))) (dp_steps p ! k)" by blast
  have uniq: "b = c" if "b \<in> set changes" "c \<in> set changes" "cr_change_id b = cr_change_id c" for b c
    using index_changes_Inr [OF idx] that by (auto simp: distinct_map inj_on_def)
  have "\<exists>j < k. ds_change_id (dp_steps p ! j) = parent \<and>
      ds_base_ref (dp_steps p ! k) = ds_head_ref (dp_steps p ! j) \<and>
      ds_base_revision (dp_steps p ! k) = Some (ds_revision (dp_steps p ! j))"
    if k: "k < length (dp_steps p)" and c: "c \<in> set changes" "cr_change_id c = ds_change_id (dp_steps p ! k)"
      and parent: "base_parent c = Some parent" for k c parent
  proof -
    from step_good_change [OF idx good [OF k]] uniq c obtain b where
      st: "make_step by_id (cr_change_id c) c = Inr (dp_steps p ! k)"
      and placed: "parent \<in> set (map ds_change_id (take k (dp_steps p)))"
      and b: "b \<in> set changes" "cr_change_id b = parent" "ds_base_revision (dp_steps p ! k) = cr_materialized_revision b"
      using parent by metis
    from placed obtain j where j: "j < k" "ds_change_id (dp_steps p ! j) = parent"
      using k by (auto simp: in_set_conv_nth)
    from step_good_change [OF idx good [of j]] uniq b(1,2) j k
    have "make_step by_id parent b = Inr (dp_steps p ! j)" by (metis order.strict_trans)
    from make_step_Inr [OF this] make_step_Inr [OF st] parent j b(3) show ?thesis by auto
  qed
  moreover have "\<exists>c \<in> set changes. cr_change_id c = ds_change_id (dp_steps p ! k) \<and> deliverable c \<and>
      cr_materialized_revision c = Some (ds_revision (dp_steps p ! k)) \<and>
      ds_base_change_id (dp_steps p ! k) = base_parent c" if k: "k < length (dp_steps p)" for k
    using step_good_change [OF idx good [OF k]] make_step_Inr by blast
  ultimately show ?thesis using ids by meson
qed

lemma plan_rank:
  assumes "plan fingerprint changes = Inr p" and "c \<in> set changes" and "base_parent c = Some parent"
  shows "\<exists>j k. j < k \<and> k < length (dp_steps p) \<and> ds_change_id (dp_steps p ! j) = parent \<and>
    ds_change_id (dp_steps p ! k) = cr_change_id c \<and>
    (\<exists>b \<in> set changes. cr_change_id b = parent \<and> cr_scope b = cr_scope c) \<and> deliverable c"
proof -
  from plan_Inr [OF assms(1)] obtain by_id where idx: "index_changes changes [] = Inr by_id"
    and ids: "set (map ds_change_id (dp_steps p)) = cr_change_id ` set changes"
    and good: "\<And>k. k < length (dp_steps p) \<Longrightarrow>
      step_good by_id (map ds_change_id (take k (dp_steps p))) (dp_steps p ! k)" by blast
  from ids assms(2) have "cr_change_id c \<in> set (map ds_change_id (dp_steps p))" by simp
  then obtain k where k: "k < length (dp_steps p)" "ds_change_id (dp_steps p ! k) = cr_change_id c"
    by (auto simp: in_set_conv_nth)
  from step_good_change [OF idx good [OF k(1)]] obtain c' where
    c': "c' \<in> set changes" "cr_change_id c' = cr_change_id c"
      "make_step by_id (cr_change_id c') c' = Inr (dp_steps p ! k)"
    and par: "\<And>q. base_parent c' = Some q \<Longrightarrow> q \<in> set (map ds_change_id (take k (dp_steps p))) \<and>
      (\<exists>b \<in> set changes. cr_change_id b = q \<and> cr_scope b = cr_scope c')" using k(2) by metis
  from index_changes_Inr [OF idx] c'(1,2) assms(2) have "c' = c" by (auto simp: distinct_map inj_on_def)
  with par [of parent] assms(3) obtain j where "j < k" "ds_change_id (dp_steps p ! j) = parent"
    and "\<exists>b \<in> set changes. cr_change_id b = parent \<and> cr_scope b = cr_scope c"
    using k(1) by (auto simp: in_set_conv_nth)
  with k make_step_Inr [OF c'(3)] \<open>c' = c\<close> show ?thesis by blast
qed

lemma plan_all_deliverable:
  assumes "plan fingerprint changes = Inr p" and "c \<in> set changes"
  shows "deliverable c"
proof -
  from plan_Inr [OF assms(1)] obtain by_id where idx: "index_changes changes [] = Inr by_id"
    and ids: "set (map ds_change_id (dp_steps p)) = cr_change_id ` set changes"
    and good: "\<And>k. k < length (dp_steps p) \<Longrightarrow>
      step_good by_id (map ds_change_id (take k (dp_steps p))) (dp_steps p ! k)" by blast
  from ids assms(2) have "cr_change_id c \<in> set (map ds_change_id (dp_steps p))" by simp
  then obtain k where k: "k < length (dp_steps p)" "ds_change_id (dp_steps p ! k) = cr_change_id c"
    by (auto simp: in_set_conv_nth)
  from step_good_change [OF idx good [OF k(1)]] k(2) obtain c' where
    "c' \<in> set changes" "cr_change_id c' = cr_change_id c" "make_step by_id (cr_change_id c') c' = Inr (dp_steps p ! k)"
    by metis
  moreover from this index_changes_Inr [OF idx] assms(2) have "c' = c" by (auto simp: distinct_map inj_on_def)
  ultimately show ?thesis using make_step_Inr by blast
qed

text \<open>A rank of the Changes in a plan: the position of their step.\<close>

definition plan_position :: "delivery_plan \<Rightarrow> string \<Rightarrow> nat" where
  "plan_position p i = length (takeWhile (\<lambda>j. j \<noteq> i) (map ds_change_id (dp_steps p)))"

lemma plan_position_nth:
  assumes "distinct (map ds_change_id (dp_steps p))" and "k < length (dp_steps p)"
  shows "plan_position p (ds_change_id (dp_steps p ! k)) = k"
proof -
  let ?ids = "map ds_change_id (dp_steps p)"
  have "takeWhile (\<lambda>j. j \<noteq> ?ids ! k) ?ids = take k ?ids"
    using assms nth_eq_iff_index_eq [OF assms(1)] by (intro takeWhile_eq_take_P_nth) auto
  with assms(2) show ?thesis by (simp add: plan_position_def)
qed

text \<open>C8. Planning succeeds exactly when it can: the identities are distinct, every Change is
  deliverable, every named parent is among the Changes and of the same scope, and the parent
  relation is free of cycles. Otherwise it stops with an error; it never runs forever.\<close>

theorem plan_succeeds_iff:
  "(\<exists>p. plan fingerprint changes = Inr p) \<longleftrightarrow>
     distinct (map cr_change_id changes) \<and> (\<forall>c \<in> set changes. deliverable c) \<and>
     (\<forall>c \<in> set changes. \<forall>parent. base_parent c = Some parent \<longrightarrow>
        (\<exists>b \<in> set changes. cr_change_id b = parent \<and> cr_scope b = cr_scope c)) \<and>
     (\<exists>rank :: string \<Rightarrow> nat. \<forall>c \<in> set changes. \<forall>parent.
        base_parent c = Some parent \<longrightarrow> rank parent < rank (cr_change_id c))"
  (is "_ \<longleftrightarrow> ?D \<and> ?E \<and> ?P \<and> ?R")
proof
  assume "\<exists>p. plan fingerprint changes = Inr p"
  then obtain p where p: "plan fingerprint changes = Inr p" ..
  from plan_Inr [OF p] index_changes_Inr have ?D and ids: "distinct (map ds_change_id (dp_steps p))" by auto
  moreover have ?E using plan_all_deliverable [OF p] by blast
  moreover have ?P using plan_rank [OF p] by blast
  moreover have ?R
  proof (intro exI ballI allI impI)
    fix c parent
    assume "c \<in> set changes" "base_parent c = Some parent"
    from plan_rank [OF p this] plan_position_nth [OF ids] show
      "plan_position p parent < plan_position p (cr_change_id c)" by (metis order.strict_trans)
  qed
  ultimately show "?D \<and> ?E \<and> ?P \<and> ?R" by blast
next
  assume a: "?D \<and> ?E \<and> ?P \<and> ?R"
  then obtain rank :: "string \<Rightarrow> nat" where rank: "\<And>c parent. c \<in> set changes \<Longrightarrow>
    base_parent c = Some parent \<Longrightarrow> rank parent < rank (cr_change_id c)" by blast
  from a index_changes_total [of changes "[]"] obtain by_id where idx: "index_changes changes [] = Inr by_id"
    by auto
  note look = index_lookup [OF idx]
  have entry: "c \<in> set changes \<and> cr_change_id c = i" if "(i, c) \<in> set by_id" for i c
    using that look(1,3) by (simp add: map_of_is_SomeI)
  have "parents_ok by_id"
    unfolding parents_ok_def
  proof (clarify, intro conjI allI impI)
    fix i c
    assume m: "(i, c) \<in> set by_id"
    from entry [OF m] a show "deliverable c" by blast
    show "\<exists>b. map_of by_id q = Some b \<and> cr_scope b = cr_scope c" if "base_parent c = Some q" for q
      using entry [OF m] a that look(3) by blast
  qed
  moreover have "\<forall>(i, c) \<in> set by_id. \<forall>q. base_parent c = Some q \<longrightarrow> rank q < rank i"
    using entry rank by fastforce
  ultimately obtain s where "plan_loop by_id \<lparr>pl_done = [], pl_steps = [], pl_progressed = False\<rparr> = Inr s"
    using plan_loop_total [OF plan_start_ok look(1)] by blast
  with idx show "\<exists>p. plan fingerprint changes = Inr p" by (simp add: plan_def)
qed

text \<open>Two Changes, the second stacked on the first and listed before it.\<close>

definition sample_parent :: change_record where
  "sample_parent = sample_change None 0 (Some \<lparr>vf_revision = ''m'', vf_record_revision = 5,
     vf_task_record_revision = 2, vf_passed = True\<rparr>) 5"

definition sample_child :: change_record where
  "sample_child = sample_parent\<lparr>cr_change_id := ''c2'', cr_task_id := ''t2'', cr_workspace_id := Some ''w2'',
     cr_base := Change ''c1''\<rparr>"

lemma sample_deliverable: "deliverable sample_parent" "deliverable sample_child"
  by (simp_all add: deliverable_def allocated_def verification_current_def sample_child_def
      sample_parent_def sample_change_def new_record_def)

lemma sample_index:
  "cr_change_id sample_parent = ''c1''" "cr_change_id sample_child = ''c2''"
  "base_parent sample_parent = None" "base_parent sample_child = Some ''c1''"
  "cr_scope sample_child = cr_scope sample_parent"
  by (simp_all add: base_parent_def sample_child_def sample_parent_def sample_change_def new_record_def)

lemma sample_plan_conditions:
  "distinct (map cr_change_id [sample_child, sample_parent]) \<and>
   (\<forall>c \<in> set [sample_child, sample_parent]. deliverable c) \<and>
   (\<forall>c \<in> set [sample_child, sample_parent]. \<forall>parent. base_parent c = Some parent \<longrightarrow>
      (\<exists>b \<in> set [sample_child, sample_parent]. cr_change_id b = parent \<and> cr_scope b = cr_scope c)) \<and>
   (\<exists>rank :: string \<Rightarrow> nat. \<forall>c \<in> set [sample_child, sample_parent]. \<forall>parent.
      base_parent c = Some parent \<longrightarrow> rank parent < rank (cr_change_id c))"
  by (intro conjI exI [of _ "\<lambda>i. if i = ''c2'' then 1 else 0"])
    (simp_all add: sample_index sample_deliverable)

theorem plan_succeeds_iff_witness: "\<exists>p. plan (\<lambda>_. ''f'') [sample_child, sample_parent] = Inr p"
  unfolding plan_succeeds_iff by (rule sample_plan_conditions)

lemma sample_make_step:
  "\<exists>st. make_step by_id ''c1'' sample_parent = Inr st"
  "\<exists>st. make_step by_id ''c2'' sample_child = Inr st"
  unfolding make_step_iff by (rule sample_deliverable)+

lemma sample_plan: "\<exists>p. plan (\<lambda>_. ''f'') [sample_child, sample_parent] = Inr p"
proof -
  let ?by_id = "[(''c1'', sample_parent), (''c2'', sample_child)]"
  have idx: "index_changes [sample_child, sample_parent] [] = Inr ?by_id"
    by (simp add: sample_index)
  from sample_make_step obtain a b where "make_step ?by_id ''c1'' sample_parent = Inr a"
    "make_step ?by_id ''c2'' sample_child = Inr b" by blast
  with idx show ?thesis
    by (simp add: plan_def plan_loop.simps plan_visit_def parent_placed_def sample_index)
qed

theorem plan_orders_parents_first_witness:
  "\<exists>p. plan (\<lambda>_. ''f'') [sample_child, sample_parent] = Inr p \<and>
     distinct (map ds_change_id (dp_steps p)) \<and> set (map ds_change_id (dp_steps p)) = {''c1'', ''c2''}"
proof -
  from sample_plan obtain p where p: "plan (\<lambda>_. ''f'') [sample_child, sample_parent] = Inr p" ..
  from plan_orders_parents_first [OF p] p show ?thesis by (auto simp: sample_index)
qed

end
