(* ===== verification/Delivery.thy ===== *)
theory Delivery
  imports Delivery_Plan
begin

text \<open>
  Delivery receipts, \<^verbatim>\<open>src/src/delivery.rs\<close> from \<^verbatim>\<open>accept_once\<close> on: how a planned delivery is
  claimed, delegated, observed and reconciled, all through the store's \<^verbatim>\<open>update\<close>. The SHA-256
  fingerprint of the serialised steps is the argument \<open>fingerprint\<close>; \<open>uuid_ok\<close> says whether
  \<^verbatim>\<open>Uuid::parse_str\<close> accepts a string.

  The store's lock is taken and released for every \<^verbatim>\<open>get\<close> and for the \<^verbatim>\<open>update\<close>, and other callers run
  in between. An operation that takes it more than once is given the timeline \<open>seen\<close>: the \<open>k\<close>-th lock
  section sees the store \<open>seen k\<close>. Only the Change that is updated is guarded by its expected revision;
  what was read of other Changes was true when it was read. A call that writes nothing leaves the store
  its last section would have seen.
\<close>

section \<open>Claiming, delegating and reconciling a delivery\<close>

text \<open>The Change is read in one section, its parent in the next.\<close>

definition validate_step_fresh ::
  "change_serde \<Rightarrow> change_store \<Rightarrow> change_store \<Rightarrow> delivery_step \<Rightarrow> anyhow + unit" where
  "validate_step_fresh S st st' step =
     and_then (get S (ds_change_id step) st) (\<lambda>change.
     ensure (cr_writer change = None) (Message ''Change still has an active writer'') (
     ensure (cr_materialized_revision change = Some (ds_revision step))
       (Message ''delivery plan revision is stale'') (
     and_then (ok_or (cr_verification change) (Message ''delivery verification missing'')) (\<lambda>v.
     ensure (vf_passed v \<and> vf_revision v = ds_revision step \<and> 0 < vf_task_record_revision v \<and>
         vf_task_record_revision v = cr_task_record_revision change)
       (Message ''delivery verification is stale'') (
     and_then
       (case ds_base_change_id step of
          Some parent \<Rightarrow>
            and_then (get S parent st') (\<lambda>base.
            ensure (cr_scope base = cr_scope change \<and> cr_materialized_revision base = ds_base_revision step)
              (Message ''delivery parent revision is stale or incompatible'') (
            ensure (ds_base_ref step = temote_ref parent) (Message ''delivery base ref mismatch'') (Inr ())))
        | None \<Rightarrow>
            ensure (ds_base_ref step = ''main'' \<and> ds_base_revision step = None)
              (Message ''delivery base mismatch'') (Inr ())) (\<lambda>_.
     ensure (ds_head_ref step = temote_ref (ds_change_id step)) (Message ''delivery head ref mismatch'') (
     ensure (ds_method step = (if ds_base_change_id step \<noteq> None then StackedPr else SinglePr))
       (Message ''delivery method mismatch'') (Inr ()))))))))"

definition validate_plan_fresh ::
  "(delivery_step list \<Rightarrow> string) \<Rightarrow> change_serde \<Rightarrow> (nat \<Rightarrow> change_store) \<Rightarrow> delivery_plan \<Rightarrow> anyhow + unit" where
  "validate_plan_fresh fingerprint S seen p =
     ensure (fingerprint (dp_steps p) = dp_fingerprint p) (Message ''delivery plan fingerprint mismatch'') (
     and_then (collect_results (\<lambda>(k, step). validate_step_fresh S (seen (2 * k)) (seen (2 * k + 1)) step)
         (enumerate 0 (dp_steps p))) (\<lambda>_. Inr ()))"

text \<open>The lock sections of the check above; the next ones follow it.\<close>

definition plan_reads :: "delivery_plan \<Rightarrow> nat" where
  "plan_reads p = 2 * length (dp_steps p)"

definition find_step :: "delivery_plan \<Rightarrow> string \<Rightarrow> anyhow + delivery_step" where
  "find_step p i =
     ok_or (find (\<lambda>s. ds_change_id s = i) (dp_steps p)) (Message ''Change absent from delivery plan'')"

definition accept_once_step :: "delivery_receipt \<Rightarrow> change_record \<Rightarrow> anyhow + change_record" where
  "accept_once_step receipt r = Inr (r\<lparr>cr_delivery := Some receipt\<rparr>)"

definition accept_once ::
  "(delivery_step list \<Rightarrow> string) \<Rightarrow> change_serde \<Rightarrow> string \<Rightarrow> u64 \<Rightarrow> delivery_plan \<Rightarrow> uuid \<Rightarrow> (nat \<Rightarrow> change_store)
     \<Rightarrow> anyhow + ((delivery_receipt \<times> bool) \<times> change_store)" where
  "accept_once fingerprint S i expected p operation_id seen =
     and_then (validate_plan_fresh fingerprint S seen p) (\<lambda>_.
     and_then (find_step p i) (\<lambda>step.
     and_then
       (case ds_base_change_id step of
          None \<Rightarrow> Inr ()
        | Some parent \<Rightarrow>
            and_then (get S parent (seen (plan_reads p))) (\<lambda>base.
            ensure (case cr_delivery base of None \<Rightarrow> False | Some d \<Rightarrow> dr_state d = Completed)
              (Message ''stack parent delivery is incomplete'') (Inr ()))) (\<lambda>_.
     and_then (get S i (seen (plan_reads p + 1))) (\<lambda>current.
     ensure (cr_materialized_revision current = Some (ds_revision step))
       (Message ''delivery revision is stale'') (
     case cr_delivery current of
       Some receipt \<Rightarrow>
         ensure (dr_operation_id receipt = operation_id \<and> dr_plan_fingerprint receipt = dp_fingerprint p)
           (Message ''delivery operation conflict'') (Inr ((receipt, False), seen (plan_reads p + 2)))
     | None \<Rightarrow>
         ensure (cr_revision current = expected) (Message ''Change record revision conflict'') (
         let receipt = \<lparr>dr_operation_id = operation_id, dr_plan_fingerprint = dp_fingerprint p,
               dr_state = Accepted, dr_delegated_task_id = None, dr_branch_revision = None,
               dr_pull_request = None, dr_observation_operation_id = None, dr_observation_task_id = None\<rparr>
         in and_then (update S i expected (accept_once_step receipt) (seen (plan_reads p + 2))) (\<lambda>(_, st').
              Inr ((receipt, True), st'))))))))"

definition record_delegation_step :: "uuid \<Rightarrow> string \<Rightarrow> change_record \<Rightarrow> anyhow + change_record" where
  "record_delegation_step operation_id task_id r =
     and_then (ok_or (cr_delivery r) (Message ''delivery not accepted'')) (\<lambda>receipt.
     ensure (dr_operation_id receipt = operation_id) (Message ''delivery operation conflict'') (
     ensure (case dr_delegated_task_id receipt of None \<Rightarrow> True | Some existing \<Rightarrow> existing = task_id)
       (Message ''delivery task conflict'') (
     if dr_state receipt = Completed then Inr r
     else Inr (r\<lparr>cr_delivery := Some (receipt\<lparr>dr_delegated_task_id := Some task_id, dr_state := Delegated\<rparr>)\<rparr>))))"

text \<open>\<^verbatim>\<open>updated.delivery\<close>: a receipt is always there after these updates, so neither the
  \<^verbatim>\<open>unwrap\<close> nor the error of the callers is reached.\<close>

definition updated_receipt ::
  "anyhow + (change_record \<times> change_store) \<Rightarrow> anyhow + (delivery_receipt \<times> change_store)" where
  "updated_receipt m =
     and_then m (\<lambda>(r, st'). and_then (ok_or (cr_delivery r) (Message ''delivery receipt missing'')) (\<lambda>d. Inr (d, st')))"

definition record_delegation ::
  "change_serde \<Rightarrow> string \<Rightarrow> u64 \<Rightarrow> uuid \<Rightarrow> string \<Rightarrow> change_store \<Rightarrow> anyhow + (delivery_receipt \<times> change_store)" where
  "record_delegation S i expected operation_id task_id st =
     and_then (label task_id) (\<lambda>_.
     updated_receipt (update S i expected (record_delegation_step operation_id task_id) st))"

definition prepare_observation_step :: "uuid \<Rightarrow> uuid \<Rightarrow> change_record \<Rightarrow> anyhow + change_record" where
  "prepare_observation_step delivery_op observation_op r =
     and_then (ok_or (cr_delivery r) (Message ''delivery not accepted'')) (\<lambda>receipt.
     ensure (dr_operation_id receipt = delivery_op) (Message ''delivery operation conflict'')
       (Inr (r\<lparr>cr_delivery := Some (receipt\<lparr>dr_observation_operation_id := Some observation_op\<rparr>)\<rparr>)))"

definition prepare_observation ::
  "change_serde \<Rightarrow> string \<Rightarrow> u64 \<Rightarrow> uuid \<Rightarrow> uuid \<Rightarrow> (nat \<Rightarrow> change_store) \<Rightarrow> anyhow + (delivery_receipt \<times> change_store)" where
  "prepare_observation S i expected delivery_op observation_op seen =
     and_then (get S i (seen 0)) (\<lambda>current.
     and_then (ok_or (cr_delivery current) (Message ''delivery not accepted'')) (\<lambda>existing.
     ensure (dr_operation_id existing = delivery_op) (Message ''delivery operation conflict'') (
     case dr_observation_operation_id existing of
       Some o_id \<Rightarrow>
         ensure (o_id = observation_op) (Message ''observation operation conflict'') (Inr (existing, seen 1))
     | None \<Rightarrow>
         updated_receipt (update S i expected (prepare_observation_step delivery_op observation_op) (seen 1)))))"

definition record_observation_task_step ::
  "uuid \<Rightarrow> uuid \<Rightarrow> string \<Rightarrow> change_record \<Rightarrow> anyhow + change_record" where
  "record_observation_task_step delivery_op observation_op task_id r =
     and_then (ok_or (cr_delivery r) (Message ''delivery not accepted'')) (\<lambda>receipt.
     ensure (dr_operation_id receipt = delivery_op \<and> dr_observation_operation_id receipt = Some observation_op)
       (Message ''observation operation conflict'') (
     ensure (case dr_observation_task_id receipt of None \<Rightarrow> True | Some existing \<Rightarrow> existing = task_id)
       (Message ''observation task conflict'')
       (Inr (r\<lparr>cr_delivery := Some (receipt\<lparr>dr_observation_task_id := Some task_id\<rparr>)\<rparr>))))"

definition record_observation_task ::
  "(string \<Rightarrow> bool) \<Rightarrow> change_serde \<Rightarrow> string \<Rightarrow> u64 \<Rightarrow> uuid \<Rightarrow> uuid \<Rightarrow> string \<Rightarrow> change_store
     \<Rightarrow> anyhow + (delivery_receipt \<times> change_store)" where
  "record_observation_task uuid_ok S i expected delivery_op observation_op task_id st =
     ensure (uuid_ok task_id) Malformed
       (updated_receipt (update S i expected (record_observation_task_step delivery_op observation_op task_id) st))"

text \<open>Whether an observed pull request is exactly the one the step asked for.\<close>

definition starts_with :: "string \<Rightarrow> string \<Rightarrow> bool" where
  "starts_with s prefix = (take (length prefix) s = prefix)"

definition pr_matches ::
  "delivery_step \<Rightarrow> u64 option \<Rightarrow> delivery_observation \<Rightarrow> pull_request_receipt \<Rightarrow> bool" where
  "pr_matches step expected_parent_pr observed pr =
     (0 < pr_number pr \<and> pr_head_ref pr = ds_head_ref step \<and> pr_base_ref pr = ds_base_ref step \<and>
      pr_revision pr = ds_revision step \<and> starts_with (pr_url pr) ''https://'' \<and>
      (case ds_method step of
         SinglePr \<Rightarrow> pr_stack_parent_pr_number pr = None \<and> \<not> pr_stack_linked pr
       | StackedPr \<Rightarrow> pr_stack_parent_pr_number pr = expected_parent_pr \<and> pr_stack_linked pr) \<and>
      ob_branch_revision observed = Some (ds_revision step))"

definition reconcile_step ::
  "delivery_plan \<Rightarrow> uuid \<Rightarrow> delivery_step \<Rightarrow> u64 option \<Rightarrow> delivery_observation \<Rightarrow> change_record
     \<Rightarrow> anyhow + change_record" where
  "reconcile_step p operation_id step expected_parent_pr observed r =
     and_then (ok_or (cr_delivery r) (Message ''delivery not accepted'')) (\<lambda>receipt.
     ensure (dr_operation_id receipt = operation_id \<and> dr_plan_fingerprint receipt = dp_fingerprint p)
       (Message ''delivery operation conflict'') (
     ensure (cr_materialized_revision r = Some (ds_revision step)) (Message ''delivered revision is stale'') (
     let put = (\<lambda>d. Inr (r\<lparr>cr_delivery := Some d\<rparr>));
         finish = (\<lambda>d. case ob_pull_request observed of
             None \<Rightarrow> put (d\<lparr>dr_state := ReconciliationRequired\<rparr>)
           | Some pr \<Rightarrow>
               (if pr_matches step expected_parent_pr observed pr then
                  ensure (case dr_pull_request d of None \<Rightarrow> True | Some old \<Rightarrow> old = pr)
                    (Message ''conflicting remote PR identity'')
                    (put (d\<lparr>dr_pull_request := Some pr, dr_state := Completed\<rparr>))
                else put (d\<lparr>dr_state := ReconciliationRequired\<rparr>)))
     in case ob_branch_revision observed of
          None \<Rightarrow> finish receipt
        | Some branch \<Rightarrow>
            (if branch = ds_revision step then finish (receipt\<lparr>dr_branch_revision := Some branch\<rparr>)
             else put (receipt\<lparr>dr_state := ReconciliationRequired\<rparr>)))))"

definition reconcile ::
  "(delivery_step list \<Rightarrow> string) \<Rightarrow> change_serde \<Rightarrow> string \<Rightarrow> u64 \<Rightarrow> delivery_plan \<Rightarrow> uuid
     \<Rightarrow> delivery_observation \<Rightarrow> (nat \<Rightarrow> change_store) \<Rightarrow> anyhow + (delivery_receipt \<times> change_store)" where
  "reconcile fingerprint S i expected p operation_id observed seen =
     and_then (validate_plan_fresh fingerprint S seen p) (\<lambda>_.
     and_then (find_step p i) (\<lambda>step.
     and_then
       (case ds_base_change_id step of
          None \<Rightarrow> Inr None
        | Some parent \<Rightarrow>
            and_then (get S parent (seen (plan_reads p))) (\<lambda>base.
            and_then (ok_or (Option.bind (cr_delivery base) dr_pull_request)
                (Message ''stack parent PR not reconciled'')) (\<lambda>pr. Inr (Some (pr_number pr))))) (\<lambda>expected_parent_pr.
     updated_receipt
       (update S i expected (reconcile_step p operation_id step expected_parent_pr observed)
          (seen (plan_reads p + 1))))))"

section \<open>The receipt closures\<close>

text \<open>A closure that changes nothing but the receipt, keeps the operation it belongs to and leaves a
  consistent receipt behind.\<close>

definition receipt_ok :: "delivery_receipt \<Rightarrow> bool" where
  "receipt_ok d \<longleftrightarrow>
     (dr_state d = Delegated \<longrightarrow> dr_delegated_task_id d \<noteq> None) \<and>
     (dr_state d = Completed \<longrightarrow> dr_branch_revision d \<noteq> None \<and> dr_pull_request d \<noteq> None) \<and>
     (dr_observation_task_id d \<noteq> None \<longrightarrow> dr_observation_operation_id d \<noteq> None)"

lemma delivery_ok_receipt: "delivery_ok r \<longleftrightarrow> (\<forall>d. cr_delivery r = Some d \<longrightarrow> receipt_ok d)"
  by (simp only: delivery_ok_def receipt_ok_def)

lemma step_ok_receipt:
  assumes "\<And>r r'. f r = Inr r' \<Longrightarrow> r' = r \<or> (\<exists>d. r' = r\<lparr>cr_delivery := Some d\<rparr> \<and>
      (\<forall>old. cr_delivery r = Some old \<longrightarrow>
         dr_operation_id d = dr_operation_id old \<and> dr_plan_fingerprint d = dr_plan_fingerprint old) \<and>
      (\<forall>old. cr_delivery r = Some old \<longrightarrow> receipt_ok old \<longrightarrow> receipt_ok d) \<and> (cr_delivery r = None \<longrightarrow> receipt_ok d))"
  shows "step_ok f"
proof (rule step_okI)
  fix r r'
  assume f: "f r = Inr r'"
  note cases = assms [OF f]
  show "cr_revision r' = cr_revision r \<and> cr_workspace_id r' = cr_workspace_id r" using cases by auto
  show "advances r r'"
    using cases
  proof (elim disjE exE conjE)
    assume "r' = r"
    then show ?thesis by (simp add: advances_refl)
  next
    fix d
    assume "r' = r\<lparr>cr_delivery := Some d\<rparr>" and "\<forall>old. cr_delivery r = Some old \<longrightarrow>
      dr_operation_id d = dr_operation_id old \<and> dr_plan_fingerprint d = dr_plan_fingerprint old"
    then show ?thesis by (simp add: advances_defs)
  qed
  show "executions_ok (cr_executions r') \<and> allocation_ok r' \<and> writer_ok r' \<and> delivery_ok r'" if "change_inv r"
  proof -
    from that have old: "delivery_ok r" by (simp add: change_inv_def)
    from cases show ?thesis
    proof (elim disjE exE conjE)
      assume "r' = r"
      with that show ?thesis by (simp add: change_inv_def)
    next
      fix d
      assume r': "r' = r\<lparr>cr_delivery := Some d\<rparr>"
        and "\<forall>old. cr_delivery r = Some old \<longrightarrow> receipt_ok old \<longrightarrow> receipt_ok d"
        and "cr_delivery r = None \<longrightarrow> receipt_ok d"
      with old have "receipt_ok d" by (cases "cr_delivery r") (simp_all add: delivery_ok_receipt)
      with that r' show ?thesis by (simp add: change_inv_def delivery_ok_receipt)
    qed
  qed
  show "0 < cr_task_record_revision r' \<and> vf_task_record_revision v = cr_task_record_revision r' \<and>
      (vf_record_revision v \<le> cr_revision r \<or> vf_record_revision v = cr_revision r + 1)"
    if "change_inv r" "cr_verification r' = Some v" for v
    using cases that change_inv_verification [of r v] by auto
qed

lemma step_ok_receipt_update:
  assumes "\<And>r r'. f r = Inr r' \<Longrightarrow> r' = r \<or> (\<exists>old d. cr_delivery r = Some old \<and> r' = r\<lparr>cr_delivery := Some d\<rparr> \<and>
      dr_operation_id d = dr_operation_id old \<and> dr_plan_fingerprint d = dr_plan_fingerprint old \<and>
      (receipt_ok old \<longrightarrow> receipt_ok d))"
  shows "step_ok f"
proof (rule step_ok_receipt)
  fix r r'
  assume "f r = Inr r'"
  from assms [OF this] show "r' = r \<or> (\<exists>d. r' = r\<lparr>cr_delivery := Some d\<rparr> \<and>
      (\<forall>old. cr_delivery r = Some old \<longrightarrow>
         dr_operation_id d = dr_operation_id old \<and> dr_plan_fingerprint d = dr_plan_fingerprint old) \<and>
      (\<forall>old. cr_delivery r = Some old \<longrightarrow> receipt_ok old \<longrightarrow> receipt_ok d) \<and> (cr_delivery r = None \<longrightarrow> receipt_ok d))"
    by (elim disjE exE conjE) (simp, rule disjI2, rule exI, erule conjI, simp)
qed

lemma record_delegation_step_ok: "step_ok (record_delegation_step operation_id task_id)"
proof (rule step_ok_receipt_update)
  fix r r'
  assume "record_delegation_step operation_id task_id r = Inr r'"
  then obtain old where old: "cr_delivery r = Some old"
    and r': "r' = r \<or> r' = r\<lparr>cr_delivery := Some (old\<lparr>dr_delegated_task_id := Some task_id, dr_state := Delegated\<rparr>)\<rparr>"
    by (auto simp: record_delegation_step_def split: if_split_asm)
  from r' show "r' = r \<or> (\<exists>old d. cr_delivery r = Some old \<and> r' = r\<lparr>cr_delivery := Some d\<rparr> \<and>
      dr_operation_id d = dr_operation_id old \<and> dr_plan_fingerprint d = dr_plan_fingerprint old \<and>
      (receipt_ok old \<longrightarrow> receipt_ok d))"
  proof
    assume "r' = r\<lparr>cr_delivery := Some (old\<lparr>dr_delegated_task_id := Some task_id, dr_state := Delegated\<rparr>)\<rparr>"
    with old show ?thesis
      by (intro disjI2 exI [of _ old] exI [of _ "old\<lparr>dr_delegated_task_id := Some task_id, dr_state := Delegated\<rparr>"])
        (simp add: receipt_ok_def)
  qed simp
qed

lemma prepare_observation_step_ok: "step_ok (prepare_observation_step d_op o_op)"
proof (rule step_ok_receipt_update)
  fix r r'
  assume "prepare_observation_step d_op o_op r = Inr r'"
  then obtain old where "cr_delivery r = Some old"
    and "r' = r\<lparr>cr_delivery := Some (old\<lparr>dr_observation_operation_id := Some o_op\<rparr>)\<rparr>"
    by (auto simp: prepare_observation_step_def)
  then show "r' = r \<or> (\<exists>old d. cr_delivery r = Some old \<and> r' = r\<lparr>cr_delivery := Some d\<rparr> \<and>
      dr_operation_id d = dr_operation_id old \<and> dr_plan_fingerprint d = dr_plan_fingerprint old \<and>
      (receipt_ok old \<longrightarrow> receipt_ok d))"
    by (intro disjI2 exI [of _ old] exI [of _ "old\<lparr>dr_observation_operation_id := Some o_op\<rparr>"])
      (simp add: receipt_ok_def)
qed

lemma record_observation_task_step_ok: "step_ok (record_observation_task_step d_op o_op task_id)"
proof (rule step_ok_receipt_update)
  fix r r'
  assume "record_observation_task_step d_op o_op task_id r = Inr r'"
  then obtain old where "cr_delivery r = Some old" "dr_observation_operation_id old = Some o_op"
    and "r' = r\<lparr>cr_delivery := Some (old\<lparr>dr_observation_task_id := Some task_id\<rparr>)\<rparr>"
    by (auto simp: record_observation_task_step_def)
  then show "r' = r \<or> (\<exists>old d. cr_delivery r = Some old \<and> r' = r\<lparr>cr_delivery := Some d\<rparr> \<and>
      dr_operation_id d = dr_operation_id old \<and> dr_plan_fingerprint d = dr_plan_fingerprint old \<and>
      (receipt_ok old \<longrightarrow> receipt_ok d))"
    by (intro disjI2 exI [of _ old] exI [of _ "old\<lparr>dr_observation_task_id := Some task_id\<rparr>"])
      (simp add: receipt_ok_def)
qed

text \<open>The outcome of a reconciliation: completed on an exact match, to be reconciled otherwise.\<close>

definition reconciled ::
  "delivery_step \<Rightarrow> u64 option \<Rightarrow> delivery_observation \<Rightarrow> delivery_receipt \<Rightarrow> delivery_receipt \<Rightarrow> bool" where
  "reconciled step parent_pr observed old d \<longleftrightarrow>
     (dr_state d = Completed \<and> dr_branch_revision d = Some (ds_revision step) \<and>
       (\<exists>pr. ob_pull_request observed = Some pr \<and> pr_matches step parent_pr observed pr \<and> dr_pull_request d = Some pr \<and>
          (dr_pull_request old = None \<or> dr_pull_request old = Some pr)) \<or>
     dr_state d = ReconciliationRequired \<and> dr_pull_request d = dr_pull_request old \<and>
       (\<forall>pr. ob_pull_request observed = Some pr \<longrightarrow> \<not> pr_matches step parent_pr observed pr))"

lemma reconcile_step_Inr:
  assumes "reconcile_step p op step parent_pr observed r = Inr r'"
  shows "\<exists>old d. cr_delivery r = Some old \<and> dr_operation_id old = op \<and> dr_plan_fingerprint old = dp_fingerprint p \<and>
    cr_materialized_revision r = Some (ds_revision step) \<and> r' = r\<lparr>cr_delivery := Some d\<rparr> \<and>
    dr_operation_id d = op \<and> dr_plan_fingerprint d = dp_fingerprint p \<and>
    dr_observation_operation_id d = dr_observation_operation_id old \<and>
    dr_observation_task_id d = dr_observation_task_id old \<and> reconciled step parent_pr observed old d"
proof -
  from assms obtain old where old: "cr_delivery r = Some old" "dr_operation_id old = op"
    "dr_plan_fingerprint old = dp_fingerprint p" "cr_materialized_revision r = Some (ds_revision step)"
    by (auto simp: reconcile_step_def)
  consider (none) "ob_branch_revision observed = None"
    | (same) "ob_branch_revision observed = Some (ds_revision step)"
    | (other) b where "ob_branch_revision observed = Some b" "b \<noteq> ds_revision step"
    by (cases "ob_branch_revision observed") auto
  then show ?thesis
  proof cases
    case none
    then have "\<not> pr_matches step parent_pr observed pr" for pr by (simp add: pr_matches_def)
    with assms old none have "r' = r\<lparr>cr_delivery := Some (old\<lparr>dr_state := ReconciliationRequired\<rparr>)\<rparr>"
      by (simp add: reconcile_step_def Let_def split: option.split_asm)
    with old \<open>\<And>pr. \<not> pr_matches step parent_pr observed pr\<close> show ?thesis
      by (intro exI [of _ old] exI [of _ "old\<lparr>dr_state := ReconciliationRequired\<rparr>"]) (simp add: reconciled_def)
  next
    case other
    then have "\<not> pr_matches step parent_pr observed pr" for pr by (simp add: pr_matches_def)
    moreover from assms old other have "r' = r\<lparr>cr_delivery := Some (old\<lparr>dr_state := ReconciliationRequired\<rparr>)\<rparr>"
      by (simp add: reconcile_step_def Let_def)
    ultimately show ?thesis using old
      by (intro exI [of _ old] exI [of _ "old\<lparr>dr_state := ReconciliationRequired\<rparr>"]) (simp add: reconciled_def)
  next
    case same
    let ?d = "old\<lparr>dr_branch_revision := Some (ds_revision step)\<rparr>"
    show ?thesis
    proof (cases "\<exists>pr. ob_pull_request observed = Some pr \<and> pr_matches step parent_pr observed pr")
      case True
      then obtain pr where pr: "ob_pull_request observed = Some pr" "pr_matches step parent_pr observed pr" by blast
      with assms old same have "dr_pull_request old = None \<or> dr_pull_request old = Some pr"
        and "r' = r\<lparr>cr_delivery := Some (?d\<lparr>dr_pull_request := Some pr, dr_state := Completed\<rparr>)\<rparr>"
        by (simp_all add: reconcile_step_def Let_def split: option.split_asm)
      with old pr show ?thesis
        by (intro exI [of _ old] exI [of _ "?d\<lparr>dr_pull_request := Some pr, dr_state := Completed\<rparr>"])
          (simp add: reconciled_def)
    next
      case False
      with assms old same have "r' = r\<lparr>cr_delivery := Some (?d\<lparr>dr_state := ReconciliationRequired\<rparr>)\<rparr>"
        by (simp add: reconcile_step_def Let_def split: option.split_asm if_split_asm)
      with old False show ?thesis
        by (intro exI [of _ old] exI [of _ "?d\<lparr>dr_state := ReconciliationRequired\<rparr>"]) (simp add: reconciled_def)
    qed
  qed
qed

lemma reconcile_step_ok: "step_ok (reconcile_step p op step parent_pr observed)"
proof (rule step_ok_receipt_update)
  fix r r'
  assume "reconcile_step p op step parent_pr observed r = Inr r'"
  from reconcile_step_Inr [OF this] obtain old d where
    d: "cr_delivery r = Some old" "r' = r\<lparr>cr_delivery := Some d\<rparr>" "dr_operation_id d = dr_operation_id old"
      "dr_plan_fingerprint d = dr_plan_fingerprint old"
    and keep: "dr_observation_operation_id d = dr_observation_operation_id old"
      "dr_observation_task_id d = dr_observation_task_id old"
    and rec: "reconciled step parent_pr observed old d" by auto
  from rec keep have "receipt_ok old \<longrightarrow> receipt_ok d"
    by (auto simp: reconciled_def receipt_ok_def)
  with d show "r' = r \<or> (\<exists>old d. cr_delivery r = Some old \<and> r' = r\<lparr>cr_delivery := Some d\<rparr> \<and>
      dr_operation_id d = dr_operation_id old \<and> dr_plan_fingerprint d = dr_plan_fingerprint old \<and>
      (receipt_ok old \<longrightarrow> receipt_ok d))"
    by (intro disjI2 exI [of _ old] exI [of _ d]) simp
qed

section \<open>Preservation\<close>

lemma update_cong_at:
  "holds_record S st i r \<Longrightarrow> f r = g r \<Longrightarrow> update S i v f st = update S i v g st"
  by (simp add: update_def)

text \<open>The claim is written only over an absent receipt.\<close>

definition claim_step :: "delivery_receipt \<Rightarrow> change_record \<Rightarrow> anyhow + change_record" where
  "claim_step receipt r =
     (if cr_delivery r = None then accept_once_step receipt r else Inl (Message ''delivery operation conflict''))"

lemma claim_step_ok: "receipt_ok receipt \<Longrightarrow> step_ok (claim_step receipt)"
  by (rule step_ok_receipt) (auto simp: claim_step_def accept_once_step_def split: if_split_asm)

abbreviation accepted_receipt :: "uuid \<Rightarrow> delivery_plan \<Rightarrow> delivery_receipt" where
  "accepted_receipt operation_id p \<equiv> \<lparr>dr_operation_id = operation_id, dr_plan_fingerprint = dp_fingerprint p,
     dr_state = Accepted, dr_delegated_task_id = None, dr_branch_revision = None,
     dr_pull_request = None, dr_observation_operation_id = None, dr_observation_task_id = None\<rparr>"

lemma accepted_receipt_ok: "receipt_ok (accepted_receipt operation_id p)"
  by (simp add: receipt_ok_def)

lemma accept_once_Inr:
  assumes "accept_once fingerprint S i v p op seen = Inr ((receipt, claimed), st')"
  shows "\<exists>step current. validate_plan_fresh fingerprint S seen p = Inr () \<and> find_step p i = Inr step \<and>
    (\<forall>parent. ds_base_change_id step = Some parent \<longrightarrow>
       (\<exists>base d. holds_record S (seen (plan_reads p)) parent base \<and> cr_delivery base = Some d \<and> dr_state d = Completed)) \<and>
    holds_record S (seen (plan_reads p + 1)) i current \<and> cr_materialized_revision current = Some (ds_revision step) \<and>
    (\<not> claimed \<and> cr_delivery current = Some receipt \<and> dr_operation_id receipt = op \<and>
       dr_plan_fingerprint receipt = dp_fingerprint p \<and> st' = seen (plan_reads p + 2) \<or>
     claimed \<and> cr_delivery current = None \<and> cr_revision current = v \<and> receipt = accepted_receipt op p \<and>
       (\<exists>r. update S i v (accept_once_step (accepted_receipt op p)) (seen (plan_reads p + 2)) = Inr (r, st')))"
proof -
  from assms obtain step current where
    fresh: "validate_plan_fresh fingerprint S seen p = Inr ()" and step: "find_step p i = Inr step"
    and par: "(case ds_base_change_id step of
          None \<Rightarrow> Inr ()
        | Some parent \<Rightarrow>
            and_then (get S parent (seen (plan_reads p))) (\<lambda>base.
            ensure (case cr_delivery base of None \<Rightarrow> False | Some d \<Rightarrow> dr_state d = Completed)
              (Message ''stack parent delivery is incomplete'') (Inr ()))) = Inr ()"
    and cur: "holds_record S (seen (plan_reads p + 1)) i current" "cr_materialized_revision current = Some (ds_revision step)"
    and rest: "(case cr_delivery current of
       Some receipt \<Rightarrow>
         ensure (dr_operation_id receipt = op \<and> dr_plan_fingerprint receipt = dp_fingerprint p)
           (Message ''delivery operation conflict'') (Inr ((receipt, False), seen (plan_reads p + 2)))
     | None \<Rightarrow>
         ensure (cr_revision current = v) (Message ''Change record revision conflict'') (
           and_then (update S i v (accept_once_step (accepted_receipt op p)) (seen (plan_reads p + 2))) (\<lambda>(_, st').
              Inr ((accepted_receipt op p, True), st')))) = Inr ((receipt, claimed), st')"
    unfolding accept_once_def get_def Let_def by auto
  have parent: "\<exists>base d. holds_record S (seen (plan_reads p)) q base \<and> cr_delivery base = Some d \<and> dr_state d = Completed"
    if "ds_base_change_id step = Some q" for q
    using par that by (auto simp: get_def split: option.split_asm)
  have "\<not> claimed \<and> cr_delivery current = Some receipt \<and> dr_operation_id receipt = op \<and>
       dr_plan_fingerprint receipt = dp_fingerprint p \<and> st' = seen (plan_reads p + 2) \<or>
     claimed \<and> cr_delivery current = None \<and> cr_revision current = v \<and> receipt = accepted_receipt op p \<and>
       (\<exists>r. update S i v (accept_once_step (accepted_receipt op p)) (seen (plan_reads p + 2)) = Inr (r, st'))"
    using rest by (cases "cr_delivery current") auto
  with fresh step parent cur show ?thesis by blast
qed

text \<open>A claim overwrites exactly the record that was read before: whoever got in between would have
  moved its revision.\<close>

lemma accept_once_claim:
  assumes line: "timeline S seen" and acc: "accept_once fingerprint S i v p op seen = Inr ((receipt, True), st')"
  shows "\<exists>current. holds_record S (seen (plan_reads p + 1)) i current \<and> holds_record S (seen (plan_reads p + 2)) i current \<and>
    cr_delivery current = None \<and> cr_revision current = v \<and> receipt = accepted_receipt op p \<and>
    (\<exists>r. update S i v (claim_step (accepted_receipt op p)) (seen (plan_reads p + 2)) = Inr (r, st')) \<and>
    holds_record S st' i (current\<lparr>cr_delivery := Some receipt, cr_revision := v + 1\<rparr>)"
proof -
  let ?st = "seen (plan_reads p + 2)"
  from accept_once_Inr [OF acc] obtain current r where
    cur: "holds_record S (seen (plan_reads p + 1)) i current" "cr_delivery current = None" "cr_revision current = v"
    and receipt: "receipt = accepted_receipt op p"
    and upd: "update S i v (accept_once_step receipt) ?st = Inr (r, st')" by blast
  note serde = store_inv_serde [OF timeline_inv [OF line]]
  from update_Inr [OF serde upd] obtain r0 r1 where
    r0: "holds_record S ?st i r0" "cr_revision r0 = v" and r1: "accept_once_step receipt r0 = Inr r1"
    and ident: "cr_change_id r1 = i" "cr_scope r1 = cs_scope ?st" "cr_schema_version r1 = 1"
    and wrote: "r1 = r0 \<and> r = r0 \<and> st' = ?st \<or>
     r1 \<noteq> r0 \<and> unat (cr_revision r1) + 1 < 2 ^ 64 \<and> r = r1\<lparr>cr_revision := cr_revision r1 + 1\<rparr> \<and>
     write_locked S r ?st = Inr st'" by blast
  from timeline_record [OF line _ cur(1), of "plan_reads p + 2"] obtain r' where
    "holds_record S ?st i r'" "r' = current \<or> cr_revision current < cr_revision r'" by auto
  with r0 cur(3) have same: "r0 = current" by auto
  then have r1: "r1 = current\<lparr>cr_delivery := Some receipt\<rparr>" using r1 by (simp add: accept_once_step_def)
  moreover from this have "r1 \<noteq> r0" using cur(2) same by (cases current) auto
  ultimately have r: "r = current\<lparr>cr_delivery := Some receipt, cr_revision := v + 1\<rparr>" and wr: "write_locked S r ?st = Inr st'"
    using wrote cur(3) by auto
  have "holds_record S st' i r"
    using write_read_same [OF serde wr] ident r1 by (simp add: r)
  moreover have "update S i v (claim_step receipt) ?st = Inr (r, st')"
    using upd update_cong_at [OF r0(1), of "claim_step receipt" "accept_once_step receipt" v] cur(2) same
    by (simp add: claim_step_def)
  ultimately show ?thesis using cur r0(1) same receipt r by blast
qed

lemma update_evolves:
  assumes "timeline S seen" and "update S i v f (seen k) = Inr (r, st')" and "step_ok f"
  shows "store_inv S st' \<and> store_evolves S (seen k) st'"
  using update_preserves [OF timeline_inv [OF assms(1)] assms(2,3)]
    update_versioned [OF timeline_inv [OF assms(1)] assms(2,3)] by (simp add: store_evolves_def)

lemma accept_once_preserves:
  assumes line: "timeline S seen" and acc: "accept_once fingerprint S i v p op seen = Inr (x, st')"
  shows "store_inv S st' \<and> store_evolves S (seen (plan_reads p + 2)) st'"
proof -
  obtain receipt claimed where x: "x = (receipt, claimed)" by fastforce
  show ?thesis
  proof (cases claimed)
    case True
    with acc x have "accept_once fingerprint S i v p op seen = Inr ((receipt, True), st')" by simp
    from accept_once_claim [OF line this] obtain r where
      "update S i v (claim_step (accepted_receipt op p)) (seen (plan_reads p + 2)) = Inr (r, st')" by blast
    from update_evolves [OF line this claim_step_ok [OF accepted_receipt_ok]] show ?thesis .
  next
    case False
    with accept_once_Inr [OF acc [unfolded x]] have "st' = seen (plan_reads p + 2)" by blast
    then show ?thesis using timeline_inv [OF line] by (simp add: store_evolves_refl)
  qed
qed

lemma updated_receipt_Inr:
  "updated_receipt m = Inr (d, st') \<longleftrightarrow> (\<exists>r. m = Inr (r, st') \<and> cr_delivery r = Some d)"
  by (cases m) (auto simp: updated_receipt_def)

text \<open>One operation of the delivery layer that succeeded: what its lock sections saw, which of them was
  the last, and the store it leaves.\<close>

inductive delivery_op :: "(delivery_step list \<Rightarrow> string) \<Rightarrow> (string \<Rightarrow> bool) \<Rightarrow> change_serde \<Rightarrow>
  (nat \<Rightarrow> change_store) \<Rightarrow> nat \<Rightarrow> change_store \<Rightarrow> bool"
  for fingerprint uuid_ok S where
  "accept_once fingerprint S i v p op seen = Inr (x, st') \<Longrightarrow>
     delivery_op fingerprint uuid_ok S seen (plan_reads p + 2) st'"
| "record_delegation S i v op t (seen 0) = Inr (d, st') \<Longrightarrow> delivery_op fingerprint uuid_ok S seen 0 st'"
| "prepare_observation S i v d_op o_op seen = Inr (d, st') \<Longrightarrow> delivery_op fingerprint uuid_ok S seen 1 st'"
| "record_observation_task uuid_ok S i v d_op o_op t (seen 0) = Inr (d, st') \<Longrightarrow>
     delivery_op fingerprint uuid_ok S seen 0 st'"
| "reconcile fingerprint S i v p op observed seen = Inr (d, st') \<Longrightarrow>
     delivery_op fingerprint uuid_ok S seen (plan_reads p + 1) st'"

lemma reconcile_Inr:
  assumes "reconcile fingerprint S i v p op observed seen = Inr (d, st')"
  shows "\<exists>step parent_pr r. validate_plan_fresh fingerprint S seen p = Inr () \<and> find_step p i = Inr step \<and>
    (ds_base_change_id step = None \<and> parent_pr = None \<or>
     (\<exists>parent base pd pr. ds_base_change_id step = Some parent \<and> holds_record S (seen (plan_reads p)) parent base \<and>
        cr_delivery base = Some pd \<and> dr_pull_request pd = Some pr \<and> parent_pr = Some (pr_number pr))) \<and>
    update S i v (reconcile_step p op step parent_pr observed) (seen (plan_reads p + 1)) = Inr (r, st') \<and>
    cr_delivery r = Some d"
proof -
  from assms obtain step parent_pr where
    "validate_plan_fresh fingerprint S seen p = Inr ()" "find_step p i = Inr step"
    and par: "(case ds_base_change_id step of
          None \<Rightarrow> Inr None
        | Some parent \<Rightarrow>
            and_then (get S parent (seen (plan_reads p))) (\<lambda>base.
            and_then (ok_or (Option.bind (cr_delivery base) dr_pull_request)
                (Message ''stack parent PR not reconciled'')) (\<lambda>pr. Inr (Some (pr_number pr))))) = Inr parent_pr"
    and "updated_receipt (update S i v (reconcile_step p op step parent_pr observed) (seen (plan_reads p + 1))) = Inr (d, st')"
    unfolding reconcile_def by auto
  moreover from par have "ds_base_change_id step = None \<and> parent_pr = None \<or>
     (\<exists>parent base pd pr. ds_base_change_id step = Some parent \<and> holds_record S (seen (plan_reads p)) parent base \<and>
        cr_delivery base = Some pd \<and> dr_pull_request pd = Some pr \<and> parent_pr = Some (pr_number pr))"
    by (auto simp: get_def bind_eq_Some_conv split: option.split_asm)
  ultimately show ?thesis unfolding updated_receipt_Inr by blast
qed

lemma prepare_observation_Inr:
  assumes "prepare_observation S i v d_op o_op seen = Inr (d, st')"
  shows "st' = seen 1 \<or> (\<exists>r. update S i v (prepare_observation_step d_op o_op) (seen 1) = Inr (r, st'))"
  using assms by (auto simp: prepare_observation_def updated_receipt_Inr split: option.split_asm)

lemma delivery_op_preserves:
  assumes "delivery_op fingerprint uuid_ok S seen n st'" and line: "timeline S seen"
  shows "store_inv S st' \<and> store_evolves S (seen n) st'"
  using assms(1)
proof cases
  case (1 i v p op x)
  with accept_once_preserves [OF line 1(2)] show ?thesis by simp
next
  case (2 i v op t d)
  then obtain r where "update S i v (record_delegation_step op t) (seen 0) = Inr (r, st')"
    by (auto simp: record_delegation_def updated_receipt_Inr)
  from update_evolves [OF line this record_delegation_step_ok] 2(1) show ?thesis by simp
next
  case (3 i v d_op o_op d)
  from prepare_observation_Inr [OF 3(2)] update_evolves [OF line _ prepare_observation_step_ok]
    timeline_inv [OF line, of 1] store_evolves_refl [of S "seen 1"]
  have "store_inv S st' \<and> store_evolves S (seen 1) st'" by blast
  with 3(1) show ?thesis by simp
next
  case (4 i v d_op o_op t d)
  then obtain r where "update S i v (record_observation_task_step d_op o_op t) (seen 0) = Inr (r, st')"
    by (auto simp: record_observation_task_def updated_receipt_Inr)
  from update_evolves [OF line this record_observation_task_step_ok] 4(1) show ?thesis by simp
next
  case (5 i v p op observed d)
  from reconcile_Inr [OF 5(2)] obtain step parent_pr r where
    "update S i v (reconcile_step p op step parent_pr observed) (seen (plan_reads p + 1)) = Inr (r, st')" by blast
  from update_evolves [OF line this reconcile_step_ok] 5(1) show ?thesis by simp
qed

section \<open>Properties of a delivery\<close>

lemma accept_once_again:
  assumes line: "timeline S seen" and first: "accept_once fingerprint S i v p op seen = Inr ((receipt, True), st1)"
    and later: "\<And>k. store_advances S st1 (seen' k)"
    and again: "accept_once fingerprint' S i v' p' op' seen' = Inr ((receipt', claimed), st3)"
  shows "(\<exists>r. holds_record S (seen (plan_reads p + 2)) i r \<and> cr_delivery r = None) \<and>
    (\<exists>r. holds_record S st1 i r \<and> cr_delivery r = Some receipt) \<and>
    \<not> claimed \<and> op' = op \<and> dp_fingerprint p' = dp_fingerprint p \<and> st3 = seen' (plan_reads p' + 2)"
proof -
  from accept_once_claim [OF line first] obtain r0 r where
    r0: "holds_record S (seen (plan_reads p + 2)) i r0" "cr_delivery r0 = None" and receipt: "receipt = accepted_receipt op p"
    and r: "holds_record S st1 i r" "r = r0\<lparr>cr_delivery := Some receipt, cr_revision := v + 1\<rparr>" by blast
  then have d: "cr_delivery r = Some receipt" by simp
  from later [of "plan_reads p' + 1"] r(1) obtain r2 where
    r2: "holds_record S (seen' (plan_reads p' + 1)) i r2" and "advances r r2"
    by (auto simp: store_advances_def)
  with d receipt obtain d2 where d2: "cr_delivery r2 = Some d2" "dr_operation_id d2 = op"
    "dr_plan_fingerprint d2 = dp_fingerprint p" by (auto simp: advances_def same_delivery_def)
  from accept_once_Inr [OF again] r2 d2(1) have "\<not> claimed" "receipt' = d2" "dr_operation_id receipt' = op'"
    "dr_plan_fingerprint receipt' = dp_fingerprint p'" "st3 = seen' (plan_reads p' + 2)" by auto
  with d2 r0 r d show ?thesis by auto
qed

text \<open>C9. A delivery is claimed at most once. The call that is told to begin found no receipt and left
  its own, whatever others did between its reads and its write; at any later time, whatever happened to
  the store, an acceptance of the same Change succeeds only for the same operation, is told not to
  begin, and writes nothing.\<close>

theorem accept_once_claims_once:
  assumes "timeline S seen" and "accept_once fingerprint S i v p op seen = Inr ((receipt, True), st1)"
    and "\<And>k. store_advances S st1 (seen' k)"
    and "accept_once fingerprint' S i v' p' op' seen' = Inr ((receipt', claimed), st3)"
  shows "(\<exists>r. holds_record S (seen (plan_reads p + 2)) i r \<and> cr_delivery r = None) \<and>
    (\<exists>r. holds_record S st1 i r \<and> cr_delivery r = Some receipt) \<and>
    \<not> claimed \<and> op' = op \<and> dp_fingerprint p' = dp_fingerprint p \<and> st3 = seen' (plan_reads p' + 2)"
  using assms by (rule accept_once_again)

lemma collect_results_all:
  "collect_results f xs = Inr ys \<Longrightarrow> x \<in> set xs \<Longrightarrow> \<exists>y. f x = Inr y"
  by (induction xs arbitrary: ys) auto

lemma find_step_nth:
  "find_step p i = Inr step \<Longrightarrow> \<exists>k < length (dp_steps p). step = dp_steps p ! k \<and> ds_change_id step = i"
  unfolding find_step_def ok_or_Inr_iff find_Some_iff by blast

lemma find_step_Inr: "find_step p i = Inr step \<Longrightarrow> step \<in> set (dp_steps p) \<and> ds_change_id step = i"
  using find_step_nth by fastforce

lemma validate_plan_fresh_nth:
  assumes "validate_plan_fresh fingerprint S seen p = Inr ()" and "k < length (dp_steps p)"
  shows "validate_step_fresh S (seen (2 * k)) (seen (2 * k + 1)) (dp_steps p ! k) = Inr ()"
proof -
  from assms(1) obtain us where "collect_results (\<lambda>(k, step). validate_step_fresh S (seen (2 * k)) (seen (2 * k + 1)) step)
      (enumerate 0 (dp_steps p)) = Inr us" by (auto simp: validate_plan_fresh_def)
  moreover have "(k, dp_steps p ! k) \<in> set (enumerate 0 (dp_steps p))" using assms(2) by (simp add: in_set_enumerate_eq)
  ultimately show ?thesis using collect_results_all by fastforce
qed

lemma validate_step_fresh_Inr:
  assumes "validate_step_fresh S st st' step = Inr ()"
  shows "\<exists>r vf. holds_record S st (ds_change_id step) r \<and> cr_writer r = None \<and>
    cr_materialized_revision r = Some (ds_revision step) \<and> cr_verification r = Some vf \<and> vf_passed vf \<and>
    vf_revision vf = ds_revision step \<and> vf_task_record_revision vf = cr_task_record_revision r \<and>
    (\<forall>parent. ds_base_change_id step = Some parent \<longrightarrow>
       (\<exists>base. holds_record S st' parent base \<and> cr_scope base = cr_scope r \<and>
          cr_materialized_revision base = ds_base_revision step))"
  using assms by (auto simp: validate_step_fresh_def get_def split: option.split_asm)

text \<open>C10. Only verified work is delivered, parents first, each fact at the time it was read. An
  acceptance that succeeds for a planned step found its Change without a writer and with a passed
  verification of exactly the revision to be delivered, made for the task revision of that time; for
  a stacked step it then found the parent at the planned revision, and later delivered completely.
  Other callers may run between these reads. At last it found the Change itself at the revision to be
  delivered, and if it is told to begin, then without a receipt at the expected revision; that very
  record is still stored when the receipt is written to it, and it is the verified one unless
  the caller's expected revision is newer than that.\<close>

theorem accept_once_only_verified:
  assumes "timeline S seen" and "accept_once fingerprint S i v p op seen = Inr ((receipt, claimed), st')"
  shows "\<exists>k step r vf current. k < length (dp_steps p) \<and> step = dp_steps p ! k \<and> ds_change_id step = i \<and>
    holds_record S (seen (2 * k)) i r \<and> cr_writer r = None \<and> cr_materialized_revision r = Some (ds_revision step) \<and>
    cr_verification r = Some vf \<and> vf_passed vf \<and> vf_revision vf = ds_revision step \<and>
    vf_task_record_revision vf = cr_task_record_revision r \<and>
    (\<forall>parent. ds_base_change_id step = Some parent \<longrightarrow>
       (\<exists>base. holds_record S (seen (2 * k + 1)) parent base \<and> cr_scope base = cr_scope r \<and>
          cr_materialized_revision base = ds_base_revision step) \<and>
       (\<exists>base d. holds_record S (seen (plan_reads p)) parent base \<and> cr_delivery base = Some d \<and>
          dr_state d = Completed)) \<and>
    holds_record S (seen (plan_reads p + 1)) i current \<and>
    cr_materialized_revision current = Some (ds_revision step) \<and>
    (claimed \<longrightarrow> cr_delivery current = None \<and> cr_revision current = v \<and>
       holds_record S (seen (plan_reads p + 2)) i current \<and>
       holds_record S st' i (current\<lparr>cr_delivery := Some receipt, cr_revision := v + 1\<rparr>) \<and>
       (current = r \<or> cr_revision r < v))"
proof -
  from accept_once_Inr [OF assms(2)] obtain step current where
    fresh: "validate_plan_fresh fingerprint S seen p = Inr ()" and found: "find_step p i = Inr step"
    and parent: "\<And>q. ds_base_change_id step = Some q \<Longrightarrow>
       \<exists>base d. holds_record S (seen (plan_reads p)) q base \<and> cr_delivery base = Some d \<and> dr_state d = Completed"
    and cur: "holds_record S (seen (plan_reads p + 1)) i current"
      "cr_materialized_revision current = Some (ds_revision step)" by blast
  from find_step_nth [OF found] obtain k where
    k: "k < length (dp_steps p)" "step = dp_steps p ! k" "ds_change_id step = i" by blast
  from validate_step_fresh_Inr [OF validate_plan_fresh_nth [OF fresh k(1)]] obtain r vf where
    r: "holds_record S (seen (2 * k)) i r" "cr_writer r = None" "cr_materialized_revision r = Some (ds_revision step)"
      "cr_verification r = Some vf" "vf_passed vf" "vf_revision vf = ds_revision step"
      "vf_task_record_revision vf = cr_task_record_revision r"
    and base: "\<And>q. ds_base_change_id step = Some q \<Longrightarrow>
       \<exists>base. holds_record S (seen (2 * k + 1)) q base \<and> cr_scope base = cr_scope r \<and>
          cr_materialized_revision base = ds_base_revision step"
    unfolding k(2) [symmetric] k(3) by blast
  have begun: "cr_delivery current = None \<and> cr_revision current = v \<and> holds_record S (seen (plan_reads p + 2)) i current \<and>
      holds_record S st' i (current\<lparr>cr_delivery := Some receipt, cr_revision := v + 1\<rparr>) \<and> (current = r \<or> cr_revision r < v)"
    if claimed: claimed
  proof -
    from accept_once_claim [OF assms(1)] assms(2) claimed obtain c where
      c: "holds_record S (seen (plan_reads p + 1)) i c" "holds_record S (seen (plan_reads p + 2)) i c"
        "cr_delivery c = None" "cr_revision c = v"
        "holds_record S st' i (c\<lparr>cr_delivery := Some receipt, cr_revision := v + 1\<rparr>)" by fastforce
    have "2 * k \<le> plan_reads p + 1" using k(1) by (simp add: plan_reads_def)
    from timeline_record [OF assms(1) this r(1)] obtain r' where
      "holds_record S (seen (plan_reads p + 1)) i r'" "r' = r \<or> cr_revision r < cr_revision r'" by blast
    with c cur(1) show ?thesis by auto
  qed
  show ?thesis
  proof (intro exI conjI)
    show "k < length (dp_steps p)" "step = dp_steps p ! k" "ds_change_id step = i" by (fact k)+
    show "holds_record S (seen (2 * k)) i r" "cr_writer r = None" "cr_materialized_revision r = Some (ds_revision step)"
      "cr_verification r = Some vf" "vf_passed vf" "vf_revision vf = ds_revision step"
      "vf_task_record_revision vf = cr_task_record_revision r" by (fact r)+
    show "\<forall>parent. ds_base_change_id step = Some parent \<longrightarrow>
       (\<exists>base. holds_record S (seen (2 * k + 1)) parent base \<and> cr_scope base = cr_scope r \<and>
          cr_materialized_revision base = ds_base_revision step) \<and>
       (\<exists>base d. holds_record S (seen (plan_reads p)) parent base \<and> cr_delivery base = Some d \<and>
          dr_state d = Completed)"
      using base parent by simp
    show "holds_record S (seen (plan_reads p + 1)) i current" "cr_materialized_revision current = Some (ds_revision step)"
      by (fact cur)+
    show "claimed \<longrightarrow> cr_delivery current = None \<and> cr_revision current = v \<and>
       holds_record S (seen (plan_reads p + 2)) i current \<and>
       holds_record S st' i (current\<lparr>cr_delivery := Some receipt, cr_revision := v + 1\<rparr>) \<and>
       (current = r \<or> cr_revision r < v)"
      using begun by simp
  qed
qed

text \<open>A reconciliation completes a delivery exactly when the observed branch and pull request are
  those of the step, down to revision, refs and stack link, and asks for another
  reconciliation in every other case. A pull request once recorded is never replaced by
  another one.\<close>

theorem reconcile_exact:
  assumes "timeline S seen" and "reconcile fingerprint S i v p op observed seen = Inr (d, st')"
  shows "\<exists>step parent_pr r old. step \<in> set (dp_steps p) \<and> ds_change_id step = i \<and>
    holds_record S (seen (plan_reads p + 1)) i r \<and> cr_delivery r = Some old \<and> dr_operation_id old = op \<and>
    (ds_base_change_id step = None \<and> parent_pr = None \<or>
     (\<exists>parent base pd pr. ds_base_change_id step = Some parent \<and> holds_record S (seen (plan_reads p)) parent base \<and>
        cr_delivery base = Some pd \<and> dr_pull_request pd = Some pr \<and> parent_pr = Some (pr_number pr))) \<and>
    (dr_state d = Completed \<longleftrightarrow>
       (\<exists>pr. ob_pull_request observed = Some pr \<and> pr_matches step parent_pr observed pr)) \<and>
    (dr_state d \<noteq> Completed \<longrightarrow> dr_state d = ReconciliationRequired) \<and>
    (dr_state d = Completed \<longrightarrow> dr_branch_revision d = Some (ds_revision step) \<and>
       dr_pull_request d = ob_pull_request observed) \<and>
    (\<forall>pr. dr_pull_request old = Some pr \<longrightarrow> dr_pull_request d = Some pr)"
proof -
  from reconcile_Inr [OF assms(2)] obtain step parent_pr r where
    found: "find_step p i = Inr step"
    and parent: "ds_base_change_id step = None \<and> parent_pr = None \<or>
     (\<exists>parent base pd pr. ds_base_change_id step = Some parent \<and> holds_record S (seen (plan_reads p)) parent base \<and>
        cr_delivery base = Some pd \<and> dr_pull_request pd = Some pr \<and> parent_pr = Some (pr_number pr))"
    and upd: "update S i v (reconcile_step p op step parent_pr observed) (seen (plan_reads p + 1)) = Inr (r, st')"
    and d: "cr_delivery r = Some d" by blast
  from update_cases [OF timeline_inv [OF assms(1)] upd reconcile_step_ok] obtain r0 r1 where
    r0: "holds_record S (seen (plan_reads p + 1)) i r0" and f: "reconcile_step p op step parent_pr observed r0 = Inr r1"
    and r: "r = r1 \<or> r = r1\<lparr>cr_revision := cr_revision r1 + 1\<rparr>" by blast
  from reconcile_step_Inr [OF f] obtain old d' where
    old: "cr_delivery r0 = Some old" "dr_operation_id old = op" and r1: "r1 = r0\<lparr>cr_delivery := Some d'\<rparr>"
    and rec: "reconciled step parent_pr observed old d'" by auto
  from r r1 d have "d' = d" by auto
  with rec have out: "(dr_state d = Completed \<longleftrightarrow>
       (\<exists>pr. ob_pull_request observed = Some pr \<and> pr_matches step parent_pr observed pr)) \<and>
    (dr_state d \<noteq> Completed \<longrightarrow> dr_state d = ReconciliationRequired) \<and>
    (dr_state d = Completed \<longrightarrow> dr_branch_revision d = Some (ds_revision step) \<and>
       dr_pull_request d = ob_pull_request observed) \<and>
    (\<forall>pr. dr_pull_request old = Some pr \<longrightarrow> dr_pull_request d = Some pr)"
    by (auto simp: reconciled_def)
  show ?thesis
    by (intro exI [of _ step] exI [of _ parent_pr] exI [of _ r0] exI [of _ old] conjI)
      (use find_step_Inr [OF found] r0 old parent out in blast)+
qed

section \<open>Witnesses of the delivery\<close>

definition sample_delivery_plan :: delivery_plan where
  "sample_delivery_plan = \<lparr>dp_steps = [\<lparr>ds_change_id = ''c1'', ds_revision = ''m'', ds_head_ref = ''temote/c1'',
     ds_base_ref = ''main'', ds_base_change_id = None, ds_base_revision = None, ds_method = SinglePr\<rparr>],
     dp_fingerprint = ''f''\<rparr>"

definition sample_delivered :: "delivery_receipt \<Rightarrow> u64 \<Rightarrow> change_record" where
  "sample_delivered d rv = sample_parent\<lparr>cr_delivery := Some d, cr_revision := rv\<rparr>"

definition sample_pr :: pull_request_receipt where
  "sample_pr = \<lparr>pr_number = 4, pr_head_ref = ''temote/c1'', pr_base_ref = ''main'', pr_revision = ''m'',
     pr_url = ''https://h'', pr_stack_parent_pr_number = None, pr_stack_linked = False\<rparr>"

definition sample_observation :: delivery_observation where
  "sample_observation = \<lparr>ob_branch_revision = Some ''m'', ob_pull_request = Some sample_pr\<rparr>"

abbreviation sample_accepted :: delivery_receipt where
  "sample_accepted \<equiv> accepted_receipt 9 sample_delivery_plan"

abbreviation sample_completed :: delivery_receipt where
  "sample_completed \<equiv> sample_accepted\<lparr>dr_branch_revision := Some ''m'', dr_pull_request := Some sample_pr,
     dr_state := Completed\<rparr>"

lemma sample_delivery_fits:
  "sample_fits sample_parent"
  "sample_fits (sample_delivered sample_accepted 6)"
  "sample_fits (sample_delivered sample_completed 7)"
  by (simp_all add: sample_fits_def sample_parent_def sample_delivered_def sample_delivery_plan_def sample_pr_def
      sample_change_def new_record_def sample_scope_def put_defs put_dr_def put_pr_def MAX_RECORD_def)

lemma sample_parent_inv: "change_inv sample_parent"
  by (simp add: change_inv_defs executions_ok_def sample_parent_def sample_change_def new_record_def
      MAX_EXECUTIONS_def)

lemma sample_accepted_inv: "change_inv (sample_delivered sample_accepted 6)"
  by (simp add: change_inv_defs executions_ok_def sample_delivered_def sample_parent_def sample_change_def
      new_record_def MAX_EXECUTIONS_def)

lemma sample_current:
  "cr_writer sample_parent = None" "cr_delivery sample_parent = None" "cr_revision sample_parent = 5"
  "cr_materialized_revision sample_parent = Some ''m''" "cr_task_record_revision sample_parent = 2"
  "cr_verification sample_parent = Some \<lparr>vf_revision = ''m'', vf_record_revision = 5,
     vf_task_record_revision = 2, vf_passed = True\<rparr>"
  by (simp_all add: sample_parent_def sample_change_def new_record_def)

lemma sample_plan_fresh:
  assumes "sample_fits r" and "cr_writer r = None" and "cr_materialized_revision r = Some ''m''"
    and "cr_verification r = cr_verification sample_parent" and "cr_task_record_revision r = 2"
  shows "validate_plan_fresh (\<lambda>_. ''f'') sample_format (\<lambda>_. sample_store r) sample_delivery_plan = Inr ()"
proof -
  have "holds_record sample_format (sample_store r) ''c1'' r" using sample_holds [OF assms(1)] by simp
  with assms show ?thesis
    by (simp add: validate_plan_fresh_def validate_step_fresh_def get_def sample_delivery_plan_def
        temote_ref_def sample_current)
qed

lemma sample_find_step: "find_step sample_delivery_plan ''c1'' = Inr (hd (dp_steps sample_delivery_plan))"
  by (simp add: find_step_def sample_delivery_plan_def)

lemma sample_timeline: "timeline sample_format (\<lambda>_. sample_store sample_parent)"
  using sample_store_inv [OF sample_delivery_fits(1) sample_parent_inv] by (simp add: timeline_constant)

lemma sample_accepted_timeline: "timeline sample_format (\<lambda>_. sample_store (sample_delivered sample_accepted 6))"
  using sample_store_inv [OF sample_delivery_fits(2) sample_accepted_inv] by (simp add: timeline_constant)

lemma sample_accepts:
  "accept_once (\<lambda>_. ''f'') sample_format ''c1'' 5 sample_delivery_plan 9 (\<lambda>_. sample_store sample_parent) =
     Inr ((sample_accepted, True), sample_store (sample_delivered sample_accepted 6))"
proof -
  have cur: "holds_record sample_format (sample_store sample_parent) ''c1'' sample_parent"
    using sample_holds [OF sample_delivery_fits(1)] by simp
  have "update sample_format ''c1'' 5 (accept_once_step sample_accepted) (sample_store sample_parent) =
      Inr (sample_delivered sample_accepted 6, sample_store (sample_delivered sample_accepted 6))"
    by (rule sample_update [where r' = "sample_delivered sample_accepted 5",
          OF sample_delivery_fits(1) _ _ _ _ _ _ sample_delivery_fits(2)])
      (simp_all add: accept_once_step_def sample_delivered_def sample_parent_def sample_change_def new_record_def)
  then show ?thesis
    using cur sample_plan_fresh [OF sample_delivery_fits(1)]
    by (simp add: accept_once_def get_def sample_find_step sample_current Let_def)
      (simp add: sample_delivery_plan_def)
qed

lemma sample_reconciles:
  "reconcile (\<lambda>_. ''f'') sample_format ''c1'' 6 sample_delivery_plan 9 sample_observation
     (\<lambda>_. sample_store (sample_delivered sample_accepted 6)) =
   Inr (sample_completed, sample_store (sample_delivered sample_completed 7))"
proof -
  let ?step = "hd (dp_steps sample_delivery_plan)"
  have "update sample_format ''c1'' 6 (reconcile_step sample_delivery_plan 9 ?step None sample_observation)
      (sample_store (sample_delivered sample_accepted 6)) =
      Inr (sample_delivered sample_completed 7, sample_store (sample_delivered sample_completed 7))"
    by (rule sample_update [where r' = "sample_delivered sample_completed 6",
          OF sample_delivery_fits(2) _ _ _ _ _ _ sample_delivery_fits(3)])
      (simp_all add: reconcile_step_def pr_matches_def starts_with_def sample_observation_def sample_pr_def
        sample_delivery_plan_def sample_delivered_def sample_parent_def sample_change_def new_record_def)
  then show ?thesis
    using sample_plan_fresh [OF sample_delivery_fits(2)]
    by (simp add: reconcile_def sample_find_step updated_receipt_def)
      (simp add: sample_delivery_plan_def sample_delivered_def sample_current)
qed

theorem accept_once_claims_once_witness:
  "\<exists>receipt st3. accept_once (\<lambda>_. ''f'') sample_format ''c1'' 6 sample_delivery_plan 9
      (\<lambda>_. sample_store (sample_delivered sample_accepted 6)) = Inr ((receipt, False), st3) \<and>
    st3 = sample_store (sample_delivered sample_accepted 6)"
proof -
  let ?st = "sample_store (sample_delivered sample_accepted 6)"
  have "holds_record sample_format ?st ''c1'' (sample_delivered sample_accepted 6)"
    using sample_holds [OF sample_delivery_fits(2)] by simp
  then have again: "accept_once (\<lambda>_. ''f'') sample_format ''c1'' 6 sample_delivery_plan 9 (\<lambda>_. ?st) =
      Inr ((sample_accepted, False), ?st)"
    using sample_plan_fresh [OF sample_delivery_fits(2)]
    by (simp add: accept_once_def get_def sample_find_step sample_delivered_def sample_current)
      (simp add: sample_delivery_plan_def)
  from accept_once_claims_once [OF sample_timeline
      sample_accepts store_advances_refl again] again show ?thesis by blast
qed

theorem accept_once_only_verified_witness:
  "\<exists>k r. k < length (dp_steps sample_delivery_plan) \<and>
     holds_record sample_format (sample_store sample_parent) ''c1'' r \<and> cr_writer r = None \<and> cr_delivery r = None"
  using accept_once_only_verified [OF sample_timeline sample_accepts] by auto

theorem reconcile_exact_witness:
  "\<exists>d st'. reconcile (\<lambda>_. ''f'') sample_format ''c1'' 6 sample_delivery_plan 9 sample_observation
     (\<lambda>_. sample_store (sample_delivered sample_accepted 6)) = Inr (d, st') \<and>
     dr_pull_request d = ob_pull_request sample_observation"
proof -
  have "dr_pull_request sample_completed = ob_pull_request sample_observation"
    using reconcile_exact [OF sample_accepted_timeline sample_reconciles]
    by simp blast
  with sample_reconciles show ?thesis by blast
qed

end
