(* ===== verification/Task_Requests.thy ===== *)
theory Task_Requests
  imports Json
begin

text \<open>
  The typed request boundary of the task operations
  (\<^verbatim>\<open>src/src/orchestration/requests.rs\<close>, with the enums \<^verbatim>\<open>Backend\<close> and
  \<^verbatim>\<open>Operation\<close> of \<^verbatim>\<open>orchestration.rs\<close> and the Codex continuation of
  \<^verbatim>\<open>codex_app_server.rs\<close>). All the backends of the \<^verbatim>\<open>network\<close> build are present. An
  \<^verbatim>\<open>anyhow\<close> error is its outermost message.

  The lemmas show that \<open>parse\<close> and the predicate \<open>request_wf\<close> agree exactly: whatever is
  accepted is well formed for its backend and operation, and every well-formed request is accepted
  from the document \<open>request_args\<close>, its canonical spelling.
\<close>

section \<open>Constants and data\<close>

definition MAX_TASK_INPUT_BYTES :: nat where "MAX_TASK_INPUT_BYTES = 1024 * 1024"
definition MAX_ARGUMENT_BYTES :: nat where "MAX_ARGUMENT_BYTES = 256"
definition MAX_INTERACTION_ANSWER_BYTES :: nat where "MAX_INTERACTION_ANSWER_BYTES = 16 * 1024"
definition MAX_REPOS :: nat where "MAX_REPOS = 16"
definition DEFAULT_TASK_LIST_LIMIT :: nat where "DEFAULT_TASK_LIST_LIMIT = 50"
definition MAX_TASK_LIST_LIMIT :: u64 where "MAX_TASK_LIST_LIMIT = 128"

datatype backend = Codex | OpenCode | DevinAcp | DevinCloud

datatype operation = Status | TaskStart | TaskGet | TaskList | TaskControl

datatype codex_continuation = New | PreviousTask uuid

record codex_start_options =
  codex_model :: string
  codex_effort :: string
  codex_continued :: codex_continuation

record opencode_start_options =
  opencode_model :: "string option"
  opencode_agent :: "string option"
  opencode_variant :: "string option"
  opencode_workspace_requirement :: "string option"

record devin_acp_start_options =
  devin_model :: "string option"
  devin_agent :: "string option"
  devin_cloud :: bool

record devin_cloud_start_options =
  cloud_title :: "string option"
  cloud_devin_mode :: "string option"
  cloud_swe_tier :: "string option"
  cloud_repos :: "string list"
  cloud_max_acu_limit :: "u64 option"

datatype start_options =
    CodexOptions codex_start_options
  | OpenCodeOptions opencode_start_options
  | DevinAcpOptions devin_acp_start_options
  | DevinCloudOptions devin_cloud_start_options

record task_start_request =
  start_operation_id :: string
  start_options :: start_options

record task_get_request =
  get_task_id :: string
  get_after_revision :: "u64 option"
  get_wait_ms :: u64

datatype control_action = Steer | Resume | Interrupt | Answer

record task_control_request =
  control_task_id :: string
  control_operation_id :: string
  control_action :: control_action
  control_interaction_id :: "string option"

datatype task_request =
    StatusRequest
  | StartRequest task_start_request
  | GetRequest task_get_request
  | ListRequest
  | ControlRequest task_control_request

text \<open>What the boundary takes from the uuid and serde crates: \<^verbatim>\<open>Uuid::parse_str\<close>, the
  hyphenated text of a UUID, and the length of \<^verbatim>\<open>serde_json::to_vec\<close>. \<open>parse_display\<close> is the
  documented round trip of the uuid crate.\<close>

record request_crates =
  uuid_parse :: "string \<Rightarrow> uuid option"
  uuid_display :: "uuid \<Rightarrow> string"
  json_len :: "json \<Rightarrow> nat"

definition parse_display :: "request_crates \<Rightarrow> bool" where
  "parse_display C \<longleftrightarrow> (\<forall>u. uuid_parse C (uuid_display C u) = Some u)"

definition control_action_as_str :: "control_action \<Rightarrow> string" where
  "control_action_as_str a = (case a of
     Steer \<Rightarrow> ''steer'' | Resume \<Rightarrow> ''resume'' | Interrupt \<Rightarrow> ''interrupt'' | Answer \<Rightarrow> ''answer'')"

definition control_action_from :: "string \<Rightarrow> control_action option" where
  "control_action_from s =
     (if s = ''steer'' then Some Steer
      else if s = ''resume'' then Some Resume
      else if s = ''interrupt'' then Some Interrupt
      else if s = ''answer'' then Some Answer
      else None)"

interpretation control_action_enum: wire_enum control_action_as_str control_action_from
  by unfold_locales
    (rename_tac x, case_tac x,
      auto simp: control_action_from_def control_action_as_str_def split: if_splits)

section \<open>Capabilities\<close>

datatype execution_locality = HostLocal | Hosted
datatype resume_semantics = ReconcileThread | ResumeMessage | AgentLoadSession
datatype interrupt_semantics = CancelTurn | AbortSession | TerminateHosted
datatype input_wait = ApprovalOnly | UserInput

record backend_capabilities =
  execution :: execution_locality
  resume :: "resume_semantics option"
  interrupt :: "interrupt_semantics option"
  interaction_answer :: bool
  input_wait :: input_wait

definition supports_control_action :: "backend_capabilities \<Rightarrow> control_action \<Rightarrow> bool" where
  "supports_control_action c a = (case a of
     Steer \<Rightarrow> True
   | Resume \<Rightarrow> resume c \<noteq> None
   | Interrupt \<Rightarrow> interrupt c \<noteq> None
   | Answer \<Rightarrow> interaction_answer c)"

definition capabilities :: "backend \<Rightarrow> backend_capabilities" where
  "capabilities b = (case b of
     Codex \<Rightarrow> \<lparr>execution = HostLocal, resume = Some ReconcileThread, interrupt = Some CancelTurn,
       interaction_answer = False, input_wait = ApprovalOnly\<rparr>
   | OpenCode \<Rightarrow> \<lparr>execution = HostLocal, resume = Some ResumeMessage, interrupt = Some AbortSession,
       interaction_answer = True, input_wait = ApprovalOnly\<rparr>
   | DevinAcp \<Rightarrow> \<lparr>execution = HostLocal, resume = Some AgentLoadSession, interrupt = Some AbortSession,
       interaction_answer = False, input_wait = ApprovalOnly\<rparr>
   | DevinCloud \<Rightarrow> \<lparr>execution = Hosted, resume = Some ResumeMessage, interrupt = Some TerminateHosted,
       interaction_answer = False, input_wait = UserInput\<rparr>)"

definition action_label :: "backend \<Rightarrow> string" where
  "action_label b = (case b of
     Codex \<Rightarrow> ''Codex'' | OpenCode \<Rightarrow> ''OpenCode'' | DevinAcp \<Rightarrow> ''Devin'' | DevinCloud \<Rightarrow> ''Devin'')"

definition execution_locality :: "start_options \<Rightarrow> execution_locality" where
  "execution_locality options = (case options of
     DevinCloudOptions _ \<Rightarrow> Hosted
   | DevinAcpOptions o' \<Rightarrow> if devin_cloud o' then Hosted else HostLocal
   | _ \<Rightarrow> HostLocal)"

section \<open>Argument helpers\<close>

definition required_string :: "json \<Rightarrow> string \<Rightarrow> string + string" where
  "required_string args key =
     ok_or (Option.bind (jget args key) as_str) (''missing or invalid '' @ key)"

definition required_uuid :: "request_crates \<Rightarrow> json \<Rightarrow> string \<Rightarrow> string + string" where
  "required_uuid C args key =
     and_then (required_string args key) (\<lambda>v.
     and_then (ok_or (uuid_parse C v) (key @ '' must be a UUID'')) (\<lambda>_. Inr v))"

definition optional_string :: "json \<Rightarrow> string \<Rightarrow> string + string option" where
  "optional_string args key = (case jget args key of
     None \<Rightarrow> Inr None
   | Some JNull \<Rightarrow> Inr None
   | Some v \<Rightarrow> ok_or (map_option Some (as_str v)) (key @ '' must be a string''))"

definition optional_u64_strict :: "json \<Rightarrow> string \<Rightarrow> string + u64 option" where
  "optional_u64_strict args key = (case jget args key of
     None \<Rightarrow> Inr None
   | Some v \<Rightarrow> ok_or (map_option Some (as_u64 v)) (key @ '' must be a non-negative integer''))"

definition optional_u64_lenient :: "json \<Rightarrow> string \<Rightarrow> string + u64 option" where
  "optional_u64_lenient args key = (case jget args key of
     None \<Rightarrow> Inr None
   | Some JNull \<Rightarrow> Inr None
   | Some v \<Rightarrow> ok_or (map_option Some (as_u64 v)) (key @ '' must be a non-negative integer''))"

definition contains_nul :: "string \<Rightarrow> bool" where
  "contains_nul v = (CHR 0x00 \<in> set v)"

definition validate_task_input :: "string \<Rightarrow> string \<Rightarrow> string + unit" where
  "validate_task_input v label =
     ensure (v \<noteq> [] \<and> length v \<le> MAX_TASK_INPUT_BYTES \<and> \<not> contains_nul v)
       (label @ '' must contain 1..=1048576 NUL-free UTF-8 bytes'') (Inr ())"

definition validate_argument :: "string \<Rightarrow> string \<Rightarrow> string + unit" where
  "validate_argument v label =
     ensure (v \<noteq> [] \<and> length v \<le> MAX_ARGUMENT_BYTES \<and> \<not> contains_nul v)
       (label @ '' must contain 1..=256 NUL-free UTF-8 bytes'') (Inr ())"

definition validate_argument_control_free :: "string \<Rightarrow> string \<Rightarrow> string + unit" where
  "validate_argument_control_free v label =
     ensure (v \<noteq> [] \<and> length v \<le> MAX_ARGUMENT_BYTES \<and> \<not> list_ex is_control (str_chars v))
       (label @ '' must contain 1..=256 control-free UTF-8 bytes'') (Inr ())"

definition optional_string_list :: "json \<Rightarrow> string \<Rightarrow> nat \<Rightarrow> string \<Rightarrow> string + string list" where
  "optional_string_list args key bound bound_text = (case jget args key of
     None \<Rightarrow> Inr []
   | Some JNull \<Rightarrow> Inr []
   | Some (JArray items) \<Rightarrow>
       ensure (length items \<le> bound) (key @ '' accepts at most '' @ bound_text @ '' entries'')
         (collect_results (\<lambda>item.
            and_then (ok_or (as_str item) (key @ '' entries must be strings'')) (\<lambda>v.
            and_then (validate_argument_control_free v key) (\<lambda>_. Inr v))) items)
   | Some _ \<Rightarrow> Inl (key @ '' must be an array of strings''))"

definition devin_modes :: "string list" where
  "devin_modes = [''normal'', ''fast'', ''lite'', ''ultra'', ''fusion'', ''swe-2-medium'',
     ''swe-2-high'', ''swe-2-max'']"

definition validate_devin_mode :: "string \<Rightarrow> string + unit" where
  "validate_devin_mode v =
     ensure (v \<in> set devin_modes)
       ''devin_mode must be one of normal, fast, lite, ultra, fusion, swe-2-medium, swe-2-high, swe-2-max''
       (Inr ())"

definition is_swe2_mode :: "string \<Rightarrow> bool" where
  "is_swe2_mode v = (v \<in> set [''swe-2-medium'', ''swe-2-high'', ''swe-2-max''])"

definition validate_swe_selection :: "string option \<Rightarrow> string option \<Rightarrow> string + unit" where
  "validate_swe_selection devin_mode swe_tier = (case swe_tier of
     None \<Rightarrow> Inr ()
   | Some tier \<Rightarrow>
       ensure (tier \<in> set [''promo'', ''priority'']) ''swe_tier must be one of promo, priority''
      (ensure (case devin_mode of None \<Rightarrow> False | Some m \<Rightarrow> is_swe2_mode m)
         ''swe_tier is only valid with devin_mode swe-2-medium, swe-2-high, or swe-2-max''
         (Inr ())))"

text \<open>\<^verbatim>\<open>if let Some(x) = v { check(x)?; }\<close>\<close>

definition if_some :: "'a option \<Rightarrow> ('a \<Rightarrow> 'e + unit) \<Rightarrow> 'e + unit" where
  "if_some v check = (case v of None \<Rightarrow> Inr () | Some x \<Rightarrow> check x)"

definition continuation_message :: string where
  "continuation_message = ''continuation must be {type:new} or {type:previous_task,task_id:UUID}''"

text \<open>The final \<^verbatim>\<open>serde_json::from_value\<close> reads an object whose key set has just been checked, so
  it can only fail on the UUID.\<close>

definition codex_continuation :: "request_crates \<Rightarrow> json \<Rightarrow> string + codex_continuation" where
  "codex_continuation C args = (case jget args ''continuation'' of
     None \<Rightarrow> Inr New
   | Some v \<Rightarrow> (case v of
       JObject entries \<Rightarrow>
         (let kind = Option.bind (map_of entries ''type'') as_str in
          if kind = Some ''new'' then ensure (length entries = 1) continuation_message (Inr New)
          else if kind = Some ''previous_task'' then
            ensure (length entries = 2 \<and> map_of entries ''task_id'' \<noteq> None) continuation_message
              (ok_or (map_option PreviousTask
                 (Option.bind (Option.bind (map_of entries ''task_id'') as_str) (uuid_parse C)))
                 continuation_message)
          else Inl continuation_message)
     | _ \<Rightarrow> Inl ''continuation must be an object''))"

section \<open>Parsing\<close>

definition parse_codex_start :: "request_crates \<Rightarrow> string \<Rightarrow> json \<Rightarrow> string + start_options" where
  "parse_codex_start C task args =
     and_then (required_string args ''model'') (\<lambda>model.
     and_then (required_string args ''effort'') (\<lambda>effort.
     and_then (validate_task_input task ''task'') (\<lambda>_.
     and_then (validate_argument model ''model'') (\<lambda>_.
     and_then (validate_argument effort ''effort'') (\<lambda>_.
     and_then (codex_continuation C args) (\<lambda>continuation.
     Inr (CodexOptions \<lparr>codex_model = model, codex_effort = effort, codex_continued = continuation\<rparr>)))))))"

definition parse_opencode_start :: "string \<Rightarrow> json \<Rightarrow> string + start_options" where
  "parse_opencode_start task args =
     ensure (jget args ''continuation'' = None) ''unsupported OpenCode task continuation'' (
     and_then (optional_string args ''model'') (\<lambda>model.
     and_then (optional_string args ''agent'') (\<lambda>agent.
     and_then (optional_string args ''variant'') (\<lambda>variant.
     and_then (optional_string args ''workspace_requirement'') (\<lambda>workspace_requirement.
     and_then (validate_task_input task ''task'') (\<lambda>_.
     and_then (if_some model (\<lambda>m.
       and_then (validate_argument m ''model'') (\<lambda>_.
         ensure (CHR ''/'' \<in> set m)
           ''model must be a provider/model pair such as anthropic/claude-sonnet-4'' (Inr ())))) (\<lambda>_.
     and_then (if_some agent (\<lambda>a. validate_argument a ''agent'')) (\<lambda>_.
     and_then (if_some variant (\<lambda>a. validate_argument a ''variant'')) (\<lambda>_.
     ensure (case workspace_requirement of None \<Rightarrow> True | Some v \<Rightarrow> v = ''managed_commands'')
       ''workspace_requirement must be managed_commands'' (
     Inr (OpenCodeOptions \<lparr>opencode_model = model, opencode_agent = agent, opencode_variant = variant,
       opencode_workspace_requirement = workspace_requirement\<rparr>)))))))))))"

definition parse_devin_start :: "string \<Rightarrow> json \<Rightarrow> string + start_options" where
  "parse_devin_start task args =
     ensure (jget args ''continuation'' = None) ''unsupported Devin task continuation'' (
     and_then (optional_string args ''model'') (\<lambda>model.
     and_then (optional_string args ''agent'') (\<lambda>agent.
     and_then (case jget args ''cloud'' of
         None \<Rightarrow> Inr False | Some v \<Rightarrow> ok_or (as_bool v) ''cloud must be a boolean'') (\<lambda>cloud.
     and_then (validate_task_input task ''task'') (\<lambda>_.
     and_then (if_some model (\<lambda>m. validate_argument m ''model'')) (\<lambda>_.
     and_then (if_some agent (\<lambda>a. validate_argument a ''agent'')) (\<lambda>_.
     (let options = DevinAcpOptions \<lparr>devin_model = model, devin_agent = agent, devin_cloud = cloud\<rparr> in
      ensure (execution_locality options = HostLocal \<or> (model = None \<and> agent = None))
        ''model and agent are ignored by `devin acp --cloud`; omit them when cloud is true''
        (Inr options)))))))))"

definition parse_devin_cloud_start :: "string \<Rightarrow> json \<Rightarrow> string + start_options" where
  "parse_devin_cloud_start task args =
     ensure (jget args ''continuation'' = None) ''unsupported Devin task continuation'' (
     and_then (optional_string args ''title'') (\<lambda>title.
     and_then (optional_string args ''devin_mode'') (\<lambda>devin_mode.
     and_then (optional_string args ''swe_tier'') (\<lambda>swe_tier.
     and_then (optional_string_list args ''repos'' MAX_REPOS ''16'') (\<lambda>repos.
     and_then (optional_u64_lenient args ''max_acu_limit'') (\<lambda>max_acu_limit.
     and_then (validate_task_input task ''task'') (\<lambda>_.
     and_then (if_some title (\<lambda>t. validate_argument_control_free t ''title'')) (\<lambda>_.
     and_then (if_some devin_mode validate_devin_mode) (\<lambda>_.
     and_then (validate_swe_selection devin_mode swe_tier) (\<lambda>_.
     and_then (if_some max_acu_limit (\<lambda>limit.
       ensure (1 \<le> limit \<and> limit \<le> 100000) ''max_acu_limit must be within 1..=100000'' (Inr ()))) (\<lambda>_.
     Inr (DevinCloudOptions \<lparr>cloud_title = title, cloud_devin_mode = devin_mode,
       cloud_swe_tier = swe_tier, cloud_repos = repos, cloud_max_acu_limit = max_acu_limit\<rparr>))))))))))))"

definition parse_task_start ::
  "request_crates \<Rightarrow> backend \<Rightarrow> json \<Rightarrow> string + task_start_request" where
  "parse_task_start C b args =
     and_then (required_uuid C args ''operation_id'') (\<lambda>operation_id.
     and_then (required_string args ''task'') (\<lambda>task.
     and_then (case b of
         Codex \<Rightarrow> parse_codex_start C task args
       | OpenCode \<Rightarrow> parse_opencode_start task args
       | DevinAcp \<Rightarrow> parse_devin_start task args
       | DevinCloud \<Rightarrow> parse_devin_cloud_start task args) (\<lambda>options.
     Inr \<lparr>start_operation_id = operation_id, start_options = options\<rparr>)))"

definition wait_ms_message :: string where
  "wait_ms_message = ''wait_ms must be an integer in 0..=30000''"

definition task_wait_ms :: "json \<Rightarrow> string + u64" where
  "task_wait_ms args =
     and_then (case jget args ''wait_ms'' of
         None \<Rightarrow> Inr 0 | Some v \<Rightarrow> ok_or (as_u64 v) wait_ms_message) (\<lambda>wait_ms.
     ensure (wait_ms \<le> 30000) wait_ms_message (Inr wait_ms))"

definition parse_task_get :: "request_crates \<Rightarrow> backend \<Rightarrow> json \<Rightarrow> string + task_get_request" where
  "parse_task_get C b args =
     and_then (required_uuid C args ''task_id'') (\<lambda>task_id.
     and_then (case b of
         DevinCloud \<Rightarrow> optional_u64_lenient args ''after_revision''
       | _ \<Rightarrow> optional_u64_strict args ''after_revision'') (\<lambda>after_revision.
     and_then (task_wait_ms args) (\<lambda>wait_ms.
     Inr \<lparr>get_task_id = task_id, get_after_revision = after_revision, get_wait_ms = wait_ms\<rparr>)))"

definition task_list_limit :: "json \<Rightarrow> string + nat" where
  "task_list_limit args = (case jget args ''limit'' of
     None \<Rightarrow> Inr DEFAULT_TASK_LIST_LIMIT
   | Some v \<Rightarrow>
       and_then (ok_or (as_u64 v) ''task_list limit must be an integer'') (\<lambda>limit.
       ensure (1 \<le> limit \<and> limit \<le> MAX_TASK_LIST_LIMIT) ''task_list limit must be 1..=128''
         (Inr (unat limit))))"

definition unsupported_action :: "backend \<Rightarrow> string" where
  "unsupported_action b = ''unsupported '' @ action_label b @ '' task action''"

definition parse_control_payload ::
  "request_crates \<Rightarrow> control_action \<Rightarrow> json \<Rightarrow> string + string option" where
  "parse_control_payload C action args =
     (let input = Option.bind (jget args ''input'') as_str;
          no_interaction = (jget args ''interaction_id'' = None \<and> jget args ''answer'' = None)
      in case action of
        Steer \<Rightarrow>
          and_then (ok_or input ''steer requires input'') (\<lambda>text.
          and_then (validate_task_input text ''input'') (\<lambda>_.
          ensure no_interaction ''steer does not accept interaction_id or answer'' (Inr None)))
      | Answer \<Rightarrow>
          ensure (input = None) ''answer does not accept input'' (
          and_then (required_uuid C args ''interaction_id'') (\<lambda>interaction_id.
          and_then (ok_or (case jget args ''answer'' of
              None \<Rightarrow> None | Some v \<Rightarrow> if is_object v then Some v else None)
              ''answer requires an object answer'') (\<lambda>answer.
          ensure (json_len C answer \<le> MAX_INTERACTION_ANSWER_BYTES) ''answer exceeds 16384 bytes''
            (Inr (Some interaction_id)))))
      | _ \<Rightarrow>
          ensure (input = None) (control_action_as_str action @ '' does not accept input'') (
          ensure no_interaction
            (control_action_as_str action @ '' does not accept interaction_id or answer'') (Inr None)))"

definition parse_task_control ::
  "request_crates \<Rightarrow> backend \<Rightarrow> json \<Rightarrow> string + task_control_request" where
  "parse_task_control C b args =
     and_then (required_uuid C args ''task_id'') (\<lambda>task_id.
     and_then (required_uuid C args ''operation_id'') (\<lambda>operation_id.
     and_then (required_string args ''action'') (\<lambda>word.
     and_then (ok_or (control_action_from word) (unsupported_action b)) (\<lambda>action.
     ensure (supports_control_action (capabilities b) action) (unsupported_action b) (
     and_then (parse_control_payload C action args) (\<lambda>interaction_id.
     Inr \<lparr>control_task_id = task_id, control_operation_id = operation_id, control_action = action,
       control_interaction_id = interaction_id\<rparr>))))))"

definition parse :: "request_crates \<Rightarrow> backend \<Rightarrow> operation \<Rightarrow> json \<Rightarrow> string + task_request" where
  "parse C b op args = (case op of
     Status \<Rightarrow> Inr StatusRequest
   | TaskStart \<Rightarrow> and_then (parse_task_start C b args) (\<lambda>r. Inr (StartRequest r))
   | TaskGet \<Rightarrow> and_then (parse_task_get C b args) (\<lambda>r. Inr (GetRequest r))
   | TaskList \<Rightarrow> and_then (task_list_limit args) (\<lambda>_. Inr ListRequest)
   | TaskControl \<Rightarrow> and_then (parse_task_control C b args) (\<lambda>r. Inr (ControlRequest r)))"

section \<open>Well-formed requests\<close>

definition argument_ok :: "string \<Rightarrow> bool" where
  "argument_ok v \<longleftrightarrow> v \<noteq> [] \<and> length v \<le> 256 \<and> CHR 0x00 \<notin> set v"

definition control_free_ok :: "string \<Rightarrow> bool" where
  "control_free_ok v \<longleftrightarrow> v \<noteq> [] \<and> length v \<le> 256 \<and> (\<forall>c \<in> set (str_chars v). \<not> is_control c)"

definition uuid_text :: "request_crates \<Rightarrow> string \<Rightarrow> bool" where
  "uuid_text C v \<longleftrightarrow> uuid_parse C v \<noteq> None"

definition options_wf :: "backend \<Rightarrow> start_options \<Rightarrow> bool" where
  "options_wf b options = (case options of
     CodexOptions x \<Rightarrow> b = Codex \<and> argument_ok (codex_model x) \<and> argument_ok (codex_effort x)
   | OpenCodeOptions x \<Rightarrow> b = OpenCode \<and>
       pred_option (\<lambda>m. argument_ok m \<and> CHR ''/'' \<in> set m) (opencode_model x) \<and>
       pred_option argument_ok (opencode_agent x) \<and> pred_option argument_ok (opencode_variant x) \<and>
       opencode_workspace_requirement x \<in> {None, Some ''managed_commands''}
   | DevinAcpOptions x \<Rightarrow> b = DevinAcp \<and>
       pred_option argument_ok (devin_model x) \<and> pred_option argument_ok (devin_agent x) \<and>
       (devin_cloud x \<longrightarrow> devin_model x = None \<and> devin_agent x = None)
   | DevinCloudOptions x \<Rightarrow> b = DevinCloud \<and>
       pred_option control_free_ok (cloud_title x) \<and>
       pred_option (\<lambda>m. m \<in> set devin_modes) (cloud_devin_mode x) \<and>
       pred_option (\<lambda>t. t \<in> {''promo'', ''priority''} \<and>
         (\<exists>m. cloud_devin_mode x = Some m \<and> is_swe2_mode m)) (cloud_swe_tier x) \<and>
       length (cloud_repos x) \<le> 16 \<and> list_all control_free_ok (cloud_repos x) \<and>
       pred_option (\<lambda>n. 1 \<le> n \<and> n \<le> 100000) (cloud_max_acu_limit x))"

definition request_wf :: "request_crates \<Rightarrow> backend \<Rightarrow> operation \<Rightarrow> task_request \<Rightarrow> bool" where
  "request_wf C b op request = (case request of
     StatusRequest \<Rightarrow> op = Status
   | StartRequest r \<Rightarrow> op = TaskStart \<and> uuid_text C (start_operation_id r) \<and> options_wf b (start_options r)
   | GetRequest r \<Rightarrow> op = TaskGet \<and> uuid_text C (get_task_id r) \<and> get_wait_ms r \<le> 30000
   | ListRequest \<Rightarrow> op = TaskList
   | ControlRequest r \<Rightarrow> op = TaskControl \<and> uuid_text C (control_task_id r) \<and>
       uuid_text C (control_operation_id r) \<and>
       (control_action r = Answer \<longrightarrow> b = OpenCode \<and> control_interaction_id r \<noteq> None) \<and>
       (control_interaction_id r \<noteq> None \<longrightarrow> control_action r = Answer) \<and>
       pred_option (uuid_text C) (control_interaction_id r))"

named_theorems parse_simps

lemma required_uuid_Inr [parse_simps]:
  "required_uuid C args key = Inr v \<longleftrightarrow>
     Option.bind (jget args key) as_str = Some v \<and> uuid_text C v"
  by (auto simp: required_uuid_def required_string_def uuid_text_def)

lemma required_string_Inr [parse_simps]:
  "required_string args key = Inr v \<longleftrightarrow> Option.bind (jget args key) as_str = Some v"
  by (simp add: required_string_def)

lemma validate_argument_Inr [parse_simps]: "validate_argument v l = Inr u \<longleftrightarrow> argument_ok v"
  by (simp add: validate_argument_def argument_ok_def MAX_ARGUMENT_BYTES_def contains_nul_def)

lemma validate_control_free_Inr [parse_simps]:
  "validate_argument_control_free v l = Inr u \<longleftrightarrow> control_free_ok v"
  by (simp add: validate_argument_control_free_def control_free_ok_def MAX_ARGUMENT_BYTES_def
      list_ex_iff)

lemma if_some_Inr [parse_simps]: "if_some v f = Inr u \<longleftrightarrow> pred_option (\<lambda>x. f x = Inr ()) v"
  by (cases v) (simp_all add: if_some_def)

lemma validate_devin_mode_Inr [parse_simps]: "validate_devin_mode v = Inr u \<longleftrightarrow> v \<in> set devin_modes"
  by (simp add: validate_devin_mode_def)

lemma validate_swe_selection_Inr [parse_simps]:
  "validate_swe_selection mode tier = Inr u \<longleftrightarrow>
     pred_option (\<lambda>t. t \<in> {''promo'', ''priority''} \<and> (\<exists>m. mode = Some m \<and> is_swe2_mode m)) tier"
  by (cases tier; cases mode) (simp_all add: validate_swe_selection_def)

lemma optional_string_list_Inr:
  assumes "optional_string_list args key n t = Inr vs"
  shows "length vs \<le> n \<and> list_all control_free_ok vs"
proof (cases "jget args key")
  case (Some v)
  with assms show ?thesis
    by (cases v)
      (auto simp: optional_string_list_def collect_results_Inr_iff validate_control_free_Inr
        list_all2_conv_all_nth list_all_length)
qed (use assms in \<open>simp add: optional_string_list_def\<close>)

lemma supports_control_action_iff [parse_simps]:
  "supports_control_action (capabilities b) a \<longleftrightarrow> (a = Answer \<longrightarrow> b = OpenCode)"
  by (cases a; cases b) (simp_all add: supports_control_action_def capabilities_def)

lemma parse_control_payload_Inr:
  "parse_control_payload C a args = Inr i \<longleftrightarrow>
     (case a of
        Steer \<Rightarrow> i = None \<and> jget args ''interaction_id'' = None \<and> jget args ''answer'' = None \<and>
          (\<exists>t. jget args ''input'' = Some (JString t) \<and> validate_task_input t ''input'' = Inr ())
      | Answer \<Rightarrow> (\<forall>t. jget args ''input'' \<noteq> Some (JString t)) \<and>
          (\<exists>v fs. i = Some v \<and> jget args ''interaction_id'' = Some (JString v) \<and> uuid_text C v \<and>
             jget args ''answer'' = Some (JObject fs) \<and> json_len C (JObject fs) \<le> 16384)
      | _ \<Rightarrow> i = None \<and> jget args ''interaction_id'' = None \<and> jget args ''answer'' = None \<and>
          (\<forall>t. jget args ''input'' \<noteq> Some (JString t)))"
proof -
  have str: "Option.bind (jget args k) as_str = Some t \<longleftrightarrow> jget args k = Some (JString t)" for k t
    by (cases "jget args k") (auto simp: as_str_def split: json.splits)
  have no_str: "Option.bind (jget args k) as_str = None \<longleftrightarrow> (\<forall>t. jget args k \<noteq> Some (JString t))" for k
    by (cases "jget args k") (auto simp: as_str_def split: json.splits)
  have obj: "(case jget args ''answer'' of None \<Rightarrow> None | Some v \<Rightarrow> if is_object v then Some v else None) = Some w \<longleftrightarrow>
      (\<exists>fs. w = JObject fs \<and> jget args ''answer'' = Some w)" for w
    by (cases "jget args ''answer''") (auto simp: is_object_def split: json.splits)
  show ?thesis
    by (cases a)
      (auto simp: parse_control_payload_def Let_def str no_str obj required_uuid_Inr
        MAX_INTERACTION_ANSWER_BYTES_def)
qed

lemma parse_codex_start_wf: "parse_codex_start C task args = Inr x \<Longrightarrow> options_wf Codex x"
  by (clarsimp simp: parse_codex_start_def parse_simps options_wf_def)

lemma parse_opencode_start_wf: "parse_opencode_start task args = Inr x \<Longrightarrow> options_wf OpenCode x"
  unfolding parse_opencode_start_def and_then_Inr_iff ensure_Inr_iff
  by (elim exE conjE) (auto simp: parse_simps options_wf_def split: option.split_asm)

lemma parse_devin_start_wf: "parse_devin_start task args = Inr x \<Longrightarrow> options_wf DevinAcp x"
  unfolding parse_devin_start_def Let_def and_then_Inr_iff ensure_Inr_iff
  by (elim exE conjE) (auto simp: parse_simps options_wf_def execution_locality_def split: if_split_asm)

lemma parse_devin_cloud_start_wf: "parse_devin_cloud_start task args = Inr x \<Longrightarrow> options_wf DevinCloud x"
  unfolding parse_devin_cloud_start_def and_then_Inr_iff ensure_Inr_iff
  by (elim exE conjE)
    (drule optional_string_list_Inr, clarsimp simp: parse_simps options_wf_def MAX_REPOS_def)

lemma parse_task_start_wf:
  assumes "parse_task_start C b args = Inr r"
  shows "uuid_text C (start_operation_id r) \<and> options_wf b (start_options r)"
  using assms parse_codex_start_wf parse_opencode_start_wf parse_devin_start_wf parse_devin_cloud_start_wf
  by (cases b) (clarsimp simp: parse_task_start_def parse_simps)+

lemma task_wait_ms_Inr: "task_wait_ms args = Inr n \<Longrightarrow> n \<le> 30000"
  by (clarsimp simp: task_wait_ms_def)

lemma task_list_limit_Inr: "task_list_limit args = Inr n \<Longrightarrow> 1 \<le> n \<and> n \<le> 128"
  by (auto simp: task_list_limit_def DEFAULT_TASK_LIST_LIMIT_def MAX_TASK_LIST_LIMIT_def
      word_le_nat_alt split: option.split_asm)

lemma parse_task_control_Inr:
  "parse_task_control C b args = Inr r \<longleftrightarrow>
     Option.bind (jget args ''task_id'') as_str = Some (control_task_id r) \<and> uuid_text C (control_task_id r) \<and>
     Option.bind (jget args ''operation_id'') as_str = Some (control_operation_id r) \<and>
     uuid_text C (control_operation_id r) \<and>
     Option.bind (jget args ''action'') as_str = Some (control_action_as_str (control_action r)) \<and>
     (control_action r = Answer \<longrightarrow> b = OpenCode) \<and>
     parse_control_payload C (control_action r) args = Inr (control_interaction_id r)"
  by (cases r) (auto simp: parse_task_control_def parse_simps control_action_enum.from_wire_iff)

lemma parse_task_control_wf:
  "parse_task_control C b args = Inr r \<Longrightarrow> request_wf C b TaskControl (ControlRequest r)"
  by (cases "control_action r")
    (auto simp: request_wf_def parse_task_control_Inr parse_control_payload_Inr)

section \<open>The canonical document of a request\<close>

definition optional_field :: "string \<Rightarrow> ('a \<Rightarrow> json) \<Rightarrow> 'a option \<Rightarrow> (string \<times> json) list" where
  "optional_field key f v = (case v of None \<Rightarrow> [] | Some x \<Rightarrow> [(key, f x)])"

definition continuation_json :: "request_crates \<Rightarrow> codex_continuation \<Rightarrow> json" where
  "continuation_json C c = (case c of
     New \<Rightarrow> JObject [(''type'', JString ''new'')]
   | PreviousTask u \<Rightarrow>
       JObject [(''type'', JString ''previous_task''), (''task_id'', JString (uuid_display C u))])"

definition options_fields :: "request_crates \<Rightarrow> start_options \<Rightarrow> (string \<times> json) list" where
  "options_fields C options = (case options of
     CodexOptions x \<Rightarrow>
       [(''model'', JString (codex_model x)), (''effort'', JString (codex_effort x)),
        (''continuation'', continuation_json C (codex_continued x))]
   | OpenCodeOptions x \<Rightarrow>
       optional_field ''model'' JString (opencode_model x) @
       optional_field ''agent'' JString (opencode_agent x) @
       optional_field ''variant'' JString (opencode_variant x) @
       optional_field ''workspace_requirement'' JString (opencode_workspace_requirement x)
   | DevinAcpOptions x \<Rightarrow>
       optional_field ''model'' JString (devin_model x) @
       optional_field ''agent'' JString (devin_agent x) @
       [(''cloud'', JBool (devin_cloud x))]
   | DevinCloudOptions x \<Rightarrow>
       optional_field ''title'' JString (cloud_title x) @
       optional_field ''devin_mode'' JString (cloud_devin_mode x) @
       optional_field ''swe_tier'' JString (cloud_swe_tier x) @
       [(''repos'', JArray (map JString (cloud_repos x)))] @
       optional_field ''max_acu_limit'' (\<lambda>n. JNumber (PosInt n)) (cloud_max_acu_limit x))"

definition request_args :: "request_crates \<Rightarrow> task_request \<Rightarrow> json" where
  "request_args C request = JObject (case request of
     StartRequest r \<Rightarrow>
       [(''operation_id'', JString (start_operation_id r)), (''task'', JString ''t'')] @
       options_fields C (start_options r)
   | GetRequest r \<Rightarrow>
       [(''task_id'', JString (get_task_id r)), (''wait_ms'', JNumber (PosInt (get_wait_ms r)))] @
       optional_field ''after_revision'' (\<lambda>n. JNumber (PosInt n)) (get_after_revision r)
   | ControlRequest r \<Rightarrow>
       [(''task_id'', JString (control_task_id r)),
        (''operation_id'', JString (control_operation_id r)),
        (''action'', JString (control_action_as_str (control_action r)))] @
       (if control_action r = Steer then [(''input'', JString ''t'')] else []) @
       optional_field ''interaction_id'' JString (control_interaction_id r) @
       (if control_action r = Answer then [(''answer'', JObject [])] else [])
   | _ \<Rightarrow> [])"

declare map_of_append [simp del]

lemma map_of_optional_field [simp]:
  "map_of (optional_field key f v @ rest) k =
     (if k = key \<and> v \<noteq> None then map_option f v else map_of rest k)"
  "map_of (optional_field key f v) k = (if k = key then map_option f v else None)"
  by (auto simp: optional_field_def map_of_append split: option.splits)

lemma optional_string_read:
  "jget args key = map_option JString v \<Longrightarrow> optional_string args key = Inr v"
  by (cases v) (simp_all add: optional_string_def as_str_def)

lemma optional_u64_read:
  "jget args key = map_option (\<lambda>n. JNumber (PosInt n)) v \<Longrightarrow> optional_u64_strict args key = Inr v"
  "jget args key = map_option (\<lambda>n. JNumber (PosInt n)) v \<Longrightarrow> optional_u64_lenient args key = Inr v"
  by (cases v; simp add: optional_u64_strict_def optional_u64_lenient_def as_u64_def)+

lemma optional_string_list_read:
  assumes "jget args key = Some (JArray (map JString vs))" and "length vs \<le> n"
    and "list_all control_free_ok vs"
  shows "optional_string_list args key n t = Inr vs"
proof -
  have "list_all2 (\<lambda>x y. as_str x = Some y \<and> control_free_ok y) (map JString vs) vs"
    using assms(3) by (simp add: list_all2_conv_all_nth list_all_length)
  with assms(1,2) show ?thesis
    by (simp add: optional_string_list_def collect_results_Inr_iff validate_control_free_Inr
        list_all2_conv_all_nth)
qed

lemma codex_continuation_read:
  assumes "jget args ''continuation'' = Some (continuation_json C c)" and "parse_display C"
  shows "codex_continuation C args = Inr c"
  using assms by (cases c)
    (simp_all add: codex_continuation_def continuation_json_def parse_display_def as_str_def)

lemma sample_task_input: "validate_task_input ''t'' label = Inr ()"
  by (simp add: validate_task_input_def MAX_TASK_INPUT_BYTES_def contains_nul_def)

lemma required_read:
  "jget args key = Some (JString v) \<Longrightarrow> required_string args key = Inr v"
  "jget args key = Some (JString v) \<Longrightarrow> uuid_text C v \<Longrightarrow> required_uuid C args key = Inr v"
  by (simp_all add: parse_simps as_str_def)

lemmas reads = required_read optional_string_read optional_u64_read optional_string_list_read
  codex_continuation_read sample_task_input

lemma parse_start_args:
  assumes "parse_display C" and "uuid_text C (start_operation_id r)" and "options_wf b (start_options r)"
  shows "parse_task_start C b (request_args C (StartRequest r)) = Inr r"
proof -
  have start: "required_uuid C (request_args C (StartRequest r)) ''operation_id'' = Inr (start_operation_id r)"
    "required_string (request_args C (StartRequest r)) ''task'' = Inr ''t''"
    using assms(2) by (simp_all add: reads request_args_def jget_def)
  show ?thesis
  proof (cases "start_options r")
    case (CodexOptions x)
    with start assms show ?thesis
      by (cases r; cases x)
        (simp add: parse_task_start_def parse_codex_start_def options_wf_def request_args_def
          options_fields_def jget_def reads validate_argument_Inr)
  next
    case (OpenCodeOptions x)
    with start assms show ?thesis
      by (cases r; cases x)
        (auto simp: parse_task_start_def parse_opencode_start_def options_wf_def request_args_def
          options_fields_def jget_def reads parse_simps)
  next
    case (DevinAcpOptions x)
    with start assms show ?thesis
      by (cases r; cases x)
        (auto simp: parse_task_start_def parse_devin_start_def options_wf_def request_args_def
          options_fields_def jget_def reads parse_simps execution_locality_def)
  next
    case (DevinCloudOptions x)
    with start assms show ?thesis
      by (cases r; cases x)
        (auto simp: parse_task_start_def parse_devin_cloud_start_def options_wf_def request_args_def
          options_fields_def jget_def reads parse_simps MAX_REPOS_def)
  qed
qed

lemma parse_get_args:
  assumes "uuid_text C (get_task_id r)" and "get_wait_ms r \<le> 30000"
  shows "parse_task_get C b (request_args C (GetRequest r)) = Inr r"
  using assms
  by (cases b)
    (simp_all add: parse_task_get_def request_args_def jget_def reads task_wait_ms_def as_u64_def)

lemma parse_control_args:
  assumes "json_len C (JObject []) \<le> 16384" and "request_wf C b TaskControl (ControlRequest r)"
  shows "parse_task_control C b (request_args C (ControlRequest r)) = Inr r"
  using assms
  by (cases "control_action r")
    (auto simp: parse_task_control_Inr request_wf_def request_args_def jget_def as_str_def
      parse_control_payload_Inr sample_task_input)

declare map_of_append [simp]

section \<open>Properties\<close>

lemma parse_Inr_wf: "parse C b op args = Inr r \<Longrightarrow> request_wf C b op r"
proof (cases op)
  case TaskStart
  assume "parse C b op args = Inr r"
  with TaskStart parse_task_start_wf show ?thesis by (auto simp: parse_def request_wf_def)
next
  case TaskGet
  assume "parse C b op args = Inr r"
  with TaskGet task_wait_ms_Inr show ?thesis
    by (auto simp: parse_def request_wf_def parse_task_get_def required_uuid_Inr)
next
  case TaskControl
  assume "parse C b op args = Inr r"
  with TaskControl parse_task_control_wf show ?thesis by (auto simp: parse_def)
qed (auto simp: parse_def request_wf_def)

lemma control_payload_messages:
  assumes "parse_control_payload C a args = Inl e"
  shows "hd e \<noteq> CHR ''u''"
proof -
  have uuid: "required_uuid C args ''interaction_id'' = Inl e' \<Longrightarrow> hd e' \<noteq> CHR ''u''" for e'
    by (auto simp: required_uuid_def required_string_def result_simps)
  have inp: "validate_task_input t ''input'' = Inl e' \<Longrightarrow> hd e' \<noteq> CHR ''u''" for t e'
    by (auto simp: validate_task_input_def result_simps split: if_splits)
  show ?thesis
    using assms by (cases a)
      (auto simp: parse_control_payload_def Let_def result_simps control_action_as_str_def
        split: if_split_asm dest!: uuid inp)
qed

text \<open>C13. Whatever \<open>parse\<close> accepts is well formed for its backend and operation: identifiers are
  UUIDs, every selector is 1 to 256 bytes and free of NUL (of all control characters for Devin
  Cloud), an OpenCode model is a provider/model pair, a hosted Devin start carries no local
  selector, a service tier comes with an SWE-2 mode, limits are in range, and an answer goes to
  OpenCode with its interaction, all other controls carrying none.\<close>

theorem parse_well_formed:
  assumes "parse C b op args = Inr r"
  shows "request_wf C b op r"
  using assms by (rule parse_Inr_wf)

text \<open>C14. Nothing well formed is out of reach: for crates that read back the UUIDs they print and
  write the empty object within the answer limit, the canonical document of a well-formed request
  is accepted and yields exactly that request. So the accepted requests are exactly the well-formed
  ones, and parsing the canonical document of an accepted request changes nothing.\<close>

theorem parse_request_args:
  assumes "parse_display C" and "json_len C (JObject []) = 2"
  shows "parse C b op (request_args C r) = Inr r \<longleftrightarrow> request_wf C b op r"
proof
  assume "parse C b op (request_args C r) = Inr r"
  then show "request_wf C b op r" by (rule parse_Inr_wf)
next
  assume wf: "request_wf C b op r"
  show "parse C b op (request_args C r) = Inr r"
  proof (cases r)
    case (StartRequest x)
    with wf parse_start_args [OF assms(1)] show ?thesis by (simp add: parse_def request_wf_def)
  next
    case (GetRequest x)
    with wf parse_get_args show ?thesis by (simp add: parse_def request_wf_def)
  next
    case (ControlRequest x)
    with wf have "op = TaskControl" by (simp add: request_wf_def)
    with ControlRequest wf parse_control_args [of C b x] assms(2) show ?thesis by (simp add: parse_def)
  qed (use wf in \<open>auto simp: parse_def request_wf_def task_list_limit_def request_args_def jget_def\<close>)
qed

text \<open>Once the identifiers of a control request are valid, it fails as an unsupported action
  exactly when its action is not a word of the backend's control contract, and then whatever the
  rest of the document holds: no payload error hides it and no payload error is mistaken for it.\<close>

theorem control_unsupported_iff:
  assumes "jget args ''task_id'' = Some (JString t)" and "uuid_text C t"
    and "jget args ''operation_id'' = Some (JString i)" and "uuid_text C i"
    and "jget args ''action'' = Some (JString w)"
  shows "parse_task_control C b args = Inl (unsupported_action b) \<longleftrightarrow>
    w \<notin> control_action_as_str ` {a. supports_control_action (capabilities b) a}"
proof -
  have ids: "required_uuid C args ''task_id'' = Inr t" "required_uuid C args ''operation_id'' = Inr i"
    "required_string args ''action'' = Inr w"
    using assms by (simp_all add: required_read)
  have u: "unsupported_action b = CHR ''u'' # tl (unsupported_action b)"
    by (simp add: unsupported_action_def)
  show ?thesis
  proof (cases "control_action_from w")
    case None
    then have "w \<notin> range control_action_as_str"
      by (auto simp: control_action_enum.from_wire_None_iff)
    with ids None show ?thesis by (auto simp: parse_task_control_def)
  next
    case (Some a)
    then have w: "w = control_action_as_str a" by (simp add: control_action_enum.from_wire_iff)
    have "parse_control_payload C a args \<noteq> Inl (unsupported_action b)"
      using control_payload_messages [of C a args "unsupported_action b"] u by (metis list.sel(1))
    with ids Some w show ?thesis
      by (auto simp: parse_task_control_def result_simps ensure_def
          control_action_enum.to_wire_eq_iff)
  qed
qed

text \<open>Only a string \<^verbatim>\<open>input\<close> counts as input: a resume or interrupt whose \<^verbatim>\<open>input\<close> is
  present but not a string passes the boundary.\<close>

lemma resume_ignores_other_input:
  assumes "uuid_text C t" and "uuid_text C i"
  shows "parse_task_control C b (JObject [(''task_id'', JString t), (''operation_id'', JString i),
      (''action'', JString ''resume''), (''input'', JNumber (PosInt 5))]) =
    Inr \<lparr>control_task_id = t, control_operation_id = i, control_action = Resume,
      control_interaction_id = None\<rparr>"
  using assms
  by (simp add: parse_task_control_Inr parse_control_payload_Inr jget_def as_str_def
      control_action_as_str_def)

section \<open>Witnesses\<close>

text \<open>Crates for the witnesses: a UUID is printed as the unary numeral of its value.\<close>

definition sample_request_crates :: request_crates where
  "sample_request_crates =
     \<lparr>uuid_parse = (\<lambda>s. if length s < 2 ^ 128 \<and> s = replicate (length s) CHR ''1''
        then Some (of_nat (length s)) else None),
      uuid_display = (\<lambda>u. replicate (unat u) CHR ''1''), json_len = (\<lambda>_. 2)\<rparr>"

lemma sample_request_crates_ok:
  "parse_display sample_request_crates" "json_len sample_request_crates (JObject []) = 2"
  using unsigned_less [where 'a = nat and 'b = 128]
  by (auto simp: sample_request_crates_def parse_display_def)

lemma sample_uuid_text: "uuid_text sample_request_crates ''11''" "uuid_text sample_request_crates ''1''"
  by (simp_all add: uuid_text_def sample_request_crates_def)

definition sample_control :: task_control_request where
  "sample_control = \<lparr>control_task_id = ''11'', control_operation_id = ''1'', control_action = Answer,
     control_interaction_id = Some ''1''\<rparr>"

lemma sample_control_wf:
  "request_wf sample_request_crates OpenCode TaskControl (ControlRequest sample_control)"
  by (simp add: request_wf_def sample_control_def sample_uuid_text)

theorem parse_request_args_witness:
  "parse sample_request_crates OpenCode TaskControl
     (request_args sample_request_crates (ControlRequest sample_control)) = Inr (ControlRequest sample_control)"
  using parse_request_args [OF sample_request_crates_ok] sample_control_wf by blast

definition sample_devin_start :: json where
  "sample_devin_start = JObject [(''operation_id'', JString ''1''), (''task'', JString ''fix''),
     (''cloud'', JBool True)]"

theorem parse_well_formed_witness:
  "parse sample_request_crates DevinAcp TaskStart sample_devin_start =
     Inr (StartRequest \<lparr>start_operation_id = ''1'',
       start_options = DevinAcpOptions \<lparr>devin_model = None, devin_agent = None, devin_cloud = True\<rparr>\<rparr>) \<and>
   request_wf sample_request_crates DevinAcp TaskStart
     (StartRequest \<lparr>start_operation_id = ''1'',
       start_options = DevinAcpOptions \<lparr>devin_model = None, devin_agent = None, devin_cloud = True\<rparr>\<rparr>)"
proof -
  have "parse sample_request_crates DevinAcp TaskStart sample_devin_start =
     Inr (StartRequest \<lparr>start_operation_id = ''1'',
       start_options = DevinAcpOptions \<lparr>devin_model = None, devin_agent = None, devin_cloud = True\<rparr>\<rparr>)"
    by (simp add: parse_def parse_task_start_def parse_devin_start_def sample_devin_start_def jget_def
        required_read sample_uuid_text optional_string_def as_bool_def if_some_def validate_task_input_def
        MAX_TASK_INPUT_BYTES_def contains_nul_def)
  with parse_well_formed [OF this] show ?thesis by blast
qed

definition sample_answer_args :: json where
  "sample_answer_args = JObject [(''task_id'', JString ''11''), (''operation_id'', JString ''1''),
     (''action'', JString ''answer'')]"

theorem control_unsupported_iff_witness:
  "parse_task_control sample_request_crates Codex sample_answer_args = Inl (unsupported_action Codex)"
proof -
  have "''answer'' \<notin> control_action_as_str ` {a. supports_control_action (capabilities Codex) a}"
    by (auto simp: supports_control_action_iff control_action_as_str_def split: control_action.splits)
  with control_unsupported_iff [of sample_answer_args "''11''" sample_request_crates "''1''" "''answer''" Codex]
  show ?thesis by (simp add: sample_answer_args_def jget_def sample_uuid_text)
qed

end
