(* ===== verification/Approval_Policy.thy ===== *)
theory Approval_Policy
  imports Prelude
begin

text \<open>
  The local approval policy and the captured start environment of \<^verbatim>\<open>src/src/approvals.rs\<close>. A
  \<^verbatim>\<open>BTreeMap<String, String>\<close> that is iterated is an association list in strictly ascending key
  order, \<open>btree\<close>. The process environment is a parameter.
\<close>

section \<open>Policy\<close>

datatype permission_mode = Ask | Agent | Yolo

datatype approval_class =
  CodexAppServer | OpenCodeServer | DevinAcpClass | DevinCloudClass | RemoteUpgrade | SessionGrant

datatype local_approval = Skip | Request | RequestUser

definition local_approval :: "permission_mode \<Rightarrow> approval_class \<Rightarrow> local_approval" where
  "local_approval mode class = (case class of
     RemoteUpgrade \<Rightarrow> RequestUser
   | SessionGrant \<Rightarrow> (case mode of Yolo \<Rightarrow> Skip | _ \<Rightarrow> Request)
   | _ \<Rightarrow> (case mode of Ask \<Rightarrow> Request | _ \<Rightarrow> Skip))"

section \<open>Ordered maps\<close>

definition btree :: "(string \<times> 'v) list \<Rightarrow> bool" where
  "btree m \<longleftrightarrow> sorted_wrt (<) (map fst m)"

fun btree_insert :: "string \<Rightarrow> 'v \<Rightarrow> (string \<times> 'v) list \<Rightarrow> (string \<times> 'v) list" where
  "btree_insert k v [] = [(k, v)]"
| "btree_insert k v ((a, w) # m) =
     (if k < a then (k, v) # (a, w) # m
      else if k = a then (k, v) # m
      else (a, w) # btree_insert k v m)"

text \<open>\<^verbatim>\<open>collect::<BTreeMap<_, _>>()\<close>: a later entry replaces an earlier one.\<close>

definition btree_collect :: "(string \<times> 'v) list \<Rightarrow> (string \<times> 'v) list" where
  "btree_collect xs = fold (\<lambda>(k, v). btree_insert k v) xs []"

section \<open>The captured start environment\<close>

definition MAX_CAPTURED_START_ENV_VALUE_BYTES :: nat where
  "MAX_CAPTURED_START_ENV_VALUE_BYTES = 32 * 1024"

definition MAX_CAPTURED_START_ENV_TOTAL_BYTES :: nat where
  "MAX_CAPTURED_START_ENV_TOTAL_BYTES = 56 * 1024"

definition CAPTURED_START_ENV_NAMES :: "string list" where
  "CAPTURED_START_ENV_NAMES = [''OP_SERVICE_ACCOUNT_TOKEN'', ''KINTONE_BASE_URL'', ''KINTONE_USERNAME'',
     ''KINTONE_PASSWORD'', ''KINTONE_API_TOKEN'', ''KINTONE_BASIC_AUTH_USERNAME'',
     ''KINTONE_BASIC_AUTH_PASSWORD'', ''KINTONE_PFX_FILE_PATH'', ''KINTONE_PFX_FILE_PASSWORD'',
     ''KINTONE_ATTACHMENTS_DIR'', ''KINTONE_GUEST_SPACE_ID'', ''HTTPS_PROXY'', ''https_proxy'',
     ''TEMOTE_MCP_KINTONE_MCP'', ''TEMOTE_MCP_KINTONE_CLI'', ''PATH'', ''HOME'', ''CODEX_HOME'',
     ''XDG_DATA_HOME'', ''TMPDIR'', ''LANG'', ''LC_ALL'']"

type_synonym start_environment = "(string \<times> string) list"

definition capture :: "(string \<Rightarrow> string option) \<Rightarrow> start_environment" where
  "capture var = btree_collect (List.map_filter (\<lambda>name.
     case var name of
       None \<Rightarrow> None | Some v \<Rightarrow> if v \<noteq> [] then Some (name, v) else None) CAPTURED_START_ENV_NAMES)"

fun environment_size :: "start_environment \<Rightarrow> nat \<Rightarrow> string + nat" where
  "environment_size [] used = Inr used"
| "environment_size ((name, value) # rest) used =
     ensure (name \<in> set CAPTURED_START_ENV_NAMES)
       (''unsupported captured start environment variable: '' @ name)
     (ensure (length value \<le> MAX_CAPTURED_START_ENV_VALUE_BYTES)
       (''captured start environment variable '' @ name @ '' exceeds 32768 bytes'')
     (and_then (ok_or (Option.bind (usize_checked_add used (length name))
          (\<lambda>t. usize_checked_add t (length value))) ''captured start environment size overflow'') (\<lambda>t.
      environment_size rest t)))"

definition environment_validate :: "start_environment \<Rightarrow> string + unit" where
  "environment_validate env =
     and_then (environment_size env 0) (\<lambda>used.
     ensure (used \<le> MAX_CAPTURED_START_ENV_TOTAL_BYTES)
       ''captured start environment exceeds 57344 bytes'' (Inr ()))"

definition restart_context_keys :: "start_environment \<Rightarrow> string list" where
  "restart_context_keys env = map fst env"

definition restart_context_mismatches :: "start_environment \<Rightarrow> start_environment \<Rightarrow> string list" where
  "restart_context_mismatches env available =
     map fst (filter (\<lambda>(name, value). map_of available name \<noteq> Some value) env)"

definition select_restart_context :: "start_environment \<Rightarrow> string list \<Rightarrow> string + start_environment" where
  "select_restart_context env names =
     and_then (collect_results (\<lambda>name.
       and_then (ok_or (map_of env name) (''restart context is missing '' @ name)) (\<lambda>value.
       Inr (name, value))) names) (\<lambda>entries.
     and_then (environment_validate (btree_collect entries)) (\<lambda>_. Inr (btree_collect entries)))"

text \<open>The environment of a child command after \<^verbatim>\<open>apply_to_command\<close>: every captured name is removed
  from what it would inherit, then the captured values are set.\<close>

definition apply_to_command :: "start_environment \<Rightarrow> (string \<rightharpoonup> string) \<Rightarrow> (string \<rightharpoonup> string)" where
  "apply_to_command env command =
     fold (\<lambda>(name, value) c. c(name \<mapsto> value)) env
       (fold (\<lambda>name c. c(name := None)) CAPTURED_START_ENV_NAMES command)"

section \<open>Lemmas\<close>

lemma btree_insert_keys: "fst ` set (btree_insert k v m) = insert k (fst ` set m)"
  by (induction k v m rule: btree_insert.induct) (simp_all add: insert_commute)

lemma btree_insert_ok: "btree m \<Longrightarrow> btree (btree_insert k v m)"
proof (induction m)
  case (Cons e m)
  obtain a w where e: "e = (a, w)" by fastforce
  with Cons have IH: "btree (btree_insert k v m)" and below: "\<forall>x \<in> fst ` set m. a < x"
    by (auto simp: btree_def)
  from below IH e Cons.prems btree_insert_keys [of k v m] show ?case
    by (auto simp: btree_def)
qed (simp add: btree_def)

lemma btree_insert_get: "btree m \<Longrightarrow> map_of (btree_insert k v m) = (map_of m)(k \<mapsto> v)"
proof (induction m)
  case (Cons e m)
  obtain a w where e: "e = (a, w)" by fastforce
  from Cons have IH: "map_of (btree_insert k v m) = (map_of m)(k \<mapsto> v)"
    by (simp add: btree_def fun_eq_iff)
  from Cons.prems e have "map_of m k = None" if "k < a" using that
    by (force simp: btree_def map_of_eq_None_iff)
  with IH e show ?case by auto
qed simp

lemma btree_fold:
  "btree m \<Longrightarrow> btree (fold (\<lambda>(k, v). btree_insert k v) xs m) \<and>
     map_of (fold (\<lambda>(k, v). btree_insert k v) xs m) = map_of m ++ map_of (rev xs)"
proof (induction xs arbitrary: m)
  case (Cons x xs)
  obtain k v where x: "x = (k, v)" by fastforce
  from Cons.IH [OF btree_insert_ok [OF Cons.prems], of k v] x show ?case
    by (auto simp: btree_insert_get [OF Cons.prems] fun_eq_iff map_add_def split: option.splits)
qed simp

lemma btree_collect_ok: "btree (btree_collect xs)" "map_of (btree_collect xs) = map_of (rev xs)"
  using btree_fold [of "[]" xs] by (simp_all add: btree_collect_def btree_def)

lemma btree_unique: "btree m \<Longrightarrow> btree n \<Longrightarrow> map_of m = map_of n \<Longrightarrow> m = n"
proof (induction m arbitrary: n)
  case Nil
  then show ?case by (cases n) (auto simp: fun_eq_iff split: if_splits)
next
  case (Cons e m)
  obtain a w where e: "e = (a, w)" by fastforce
  with Cons.prems(3) have "map_of n a = Some w" by (metis map_of_Cons_code(2))
  then obtain b u n' where n: "n = (b, u) # n'" by (cases n) auto
  have dom: "fst ` set (e # m) = fst ` set n"
    using Cons.prems(3) by (metis dom_map_of_conv_image_fst)
  have below: "\<forall>x \<in> fst ` set m. a < x" "\<forall>x \<in> fst ` set n'. b < x"
    using Cons.prems(1,2) e n by (auto simp: btree_def)
  have ab: "a = b"
  proof (rule ccontr)
    assume "a \<noteq> b"
    with dom e n have "a \<in> fst ` set n'" "b \<in> fst ` set m" by auto
    with below show False by (meson less_asym)
  qed
  with \<open>map_of n a = Some w\<close> n have u: "u = w" by simp
  have "map_of m k = map_of n' k" for k
  proof (cases "k = a")
    case True
    with below ab have "map_of m k = None" "map_of n' k = None"
      by (auto simp: map_of_eq_None_iff)
    then show ?thesis by simp
  next
    case False
    with Cons.prems(3) e n ab show ?thesis by (metis map_of_Cons_code(2))
  qed
  then have "m = n'" using Cons.IH Cons.prems(1,2) e n by (auto simp: btree_def)
  with e n ab u show ?case by simp
qed

lemma environment_size_Inr:
  "environment_size env used = Inr t \<Longrightarrow>
     t = used + (\<Sum>(name, value) \<leftarrow> env. length name + length value) \<and>
     (\<forall>(name, value) \<in> set env. name \<in> set CAPTURED_START_ENV_NAMES \<and> length value \<le> 32768)"
proof (induction env used rule: environment_size.induct)
  case (2 name v rest used)
  then show ?case
    by (clarsimp simp: MAX_CAPTURED_START_ENV_VALUE_BYTES_def)
      (fastforce simp: bind_eq_Some_conv)
qed simp

definition environment_ok :: "start_environment \<Rightarrow> bool" where
  "environment_ok env \<longleftrightarrow> btree env \<and> environment_validate env = Inr ()"

lemma environment_ok_names:
  assumes "environment_ok env"
  shows "\<forall>(name, value) \<in> set env. name \<in> set CAPTURED_START_ENV_NAMES \<and> length value \<le> 32768"
    and "(\<Sum>(name, value) \<leftarrow> env. length name + length value) \<le> 57344"
  using assms environment_size_Inr [of env 0]
  by (auto simp: environment_ok_def environment_validate_def MAX_CAPTURED_START_ENV_TOTAL_BYTES_def)

lemma collect_restart_entries:
  "collect_results (\<lambda>name. and_then (ok_or (map_of env name) (e name)) (\<lambda>value. Inr (name, value))) names = Inr es \<Longrightarrow>
     map_of es = map_of env |` set names \<and> map_of (rev es) = map_of es"
proof (induction names arbitrary: es)
  case (Cons n names)
  then obtain v rest where v: "map_of env n = Some v" and es: "es = (n, v) # rest"
    and rest: "collect_results (\<lambda>name. and_then (ok_or (map_of env name) (e name)) (\<lambda>value. Inr (name, value))) names = Inr rest"
    by auto
  from Cons.IH [OF rest] v es show ?case
    by (auto simp: fun_eq_iff restrict_map_def map_add_def split: option.splits)
qed (simp add: fun_eq_iff)

lemma select_restart_context_Inr:
  assumes "select_restart_context env names = Inr sel"
  shows "environment_ok sel \<and> map_of sel = map_of env |` set names \<and> set names \<subseteq> dom (map_of env)"
proof -
  from assms obtain es where es: "collect_results (\<lambda>name. and_then (ok_or (map_of env name)
      (''restart context is missing '' @ name)) (\<lambda>value. Inr (name, value))) names = Inr es"
    and sel: "environment_validate sel = Inr ()" "sel = btree_collect es"
    by (auto simp: select_restart_context_def)
  have "set names \<subseteq> dom (map_of env)"
    using es by (fastforce simp: collect_results_Inr_iff list_all2_conv_all_nth in_set_conv_nth)
  with collect_restart_entries [OF es] sel btree_collect_ok [of es] show ?thesis
    by (simp add: environment_ok_def)
qed

lemma collect_restart_total:
  "set names \<subseteq> dom (map_of env) \<Longrightarrow>
     \<exists>es. collect_results (\<lambda>name. and_then (ok_or (map_of env name) (e name)) (\<lambda>value. Inr (name, value))) names = Inr es"
  by (induction names) (auto simp del: and_then_Inr_iff)

lemma keys_restrict: "m |` dom m = m"
  by (rule ext) (simp add: restrict_map_def domIff)

lemma fold_unset: "fold (\<lambda>name c. c(name := None)) names m k = (if k \<in> set names then None else m k)"
  by (induction names arbitrary: m) auto

lemma fold_set: "fold (\<lambda>(name, value) c. c(name \<mapsto> value)) env m = m ++ map_of (rev env)"
  by (induction env arbitrary: m) (auto simp: fun_eq_iff map_add_def split: option.splits)

lemma btree_rev: "btree env \<Longrightarrow> map_of (rev env) = map_of env"
  by (rule map_of_inject_set [THEN iffD2])
    (auto simp: btree_def rev_map [symmetric] strict_sorted_iff)

section \<open>Properties\<close>

text \<open>A child command sees, for each of the captured names, exactly the captured value or nothing,
  whatever it would have inherited, and every other variable unchanged: no credential of the
  supervisor's own environment leaks into a session that did not capture it.\<close>

theorem apply_to_command_exact:
  assumes "environment_validate env = Inr ()" and "btree env"
  shows "apply_to_command env command k =
    (if k \<in> set CAPTURED_START_ENV_NAMES then map_of env k else command k)"
proof -
  have "k \<in> set CAPTURED_START_ENV_NAMES" if "map_of env k = Some v" for v
    using environment_ok_names(1) [of env] assms map_of_SomeD [OF that]
    by (auto simp: environment_ok_def)
  then show ?thesis
    by (cases "map_of env k")
      (auto simp: apply_to_command_def fold_set fold_unset btree_rev [OF assms(2)] map_add_def)
qed

text \<open>A restart context is selected exactly or not at all: the selection holds the requested names
  with their present values and no other, is valid, and selecting every retained name of a valid
  environment gives that environment back; the mismatches against another environment are empty
  exactly when that one provides every value.\<close>

theorem restart_context_exact:
  assumes "environment_validate env = Inr ()" and "btree env"
  shows "select_restart_context env (restart_context_keys env) = Inr env \<and>
    (\<forall>names sel. select_restart_context env names = Inr sel \<longrightarrow>
       map_of sel = map_of env |` set names \<and> set names \<subseteq> dom (map_of env) \<and>
       environment_validate sel = Inr ()) \<and>
    (restart_context_mismatches env available = [] \<longleftrightarrow> map_of env \<subseteq>\<^sub>m map_of available)"
proof (intro conjI)
  have keys: "set (restart_context_keys env) = dom (map_of env)"
    by (simp add: restart_context_keys_def dom_map_of_conv_image_fst)
  then obtain es where es: "collect_results (\<lambda>name. and_then (ok_or (map_of env name)
      (''restart context is missing '' @ name)) (\<lambda>value. Inr (name, value))) (restart_context_keys env) = Inr es"
    using collect_restart_total [of "restart_context_keys env" env] by fast
  have "map_of (btree_collect es) = map_of env"
    using collect_restart_entries [OF es] keys by (simp add: btree_collect_ok keys_restrict)
  then have "btree_collect es = env"
    using btree_unique [OF btree_collect_ok(1) assms(2)] by blast
  with es assms(1) show "select_restart_context env (restart_context_keys env) = Inr env"
    by (simp add: select_restart_context_def)
  show "\<forall>names sel. select_restart_context env names = Inr sel \<longrightarrow>
       map_of sel = map_of env |` set names \<and> set names \<subseteq> dom (map_of env) \<and>
       environment_validate sel = Inr ()"
    using select_restart_context_Inr by (auto simp: environment_ok_def)
  have "distinct (map fst env)" using assms(2) by (auto simp: btree_def strict_sorted_iff)
  then show "restart_context_mismatches env available = [] \<longleftrightarrow> map_of env \<subseteq>\<^sub>m map_of available"
    by (force simp: restart_context_mismatches_def filter_empty_conv map_le_def dom_def)
qed

definition sample_environment :: start_environment where
  "sample_environment = [(''HOME'', ''/h''), (''PATH'', ''/b'')]"

lemma sample_environment_ok:
  "environment_validate sample_environment = Inr ()" "btree sample_environment"
  by (simp_all add: environment_validate_def sample_environment_def CAPTURED_START_ENV_NAMES_def
      MAX_CAPTURED_START_ENV_VALUE_BYTES_def MAX_CAPTURED_START_ENV_TOTAL_BYTES_def ok_or_def
      usize_checked_add_def btree_def less_char_def)

theorem apply_to_command_exact_witness:
  "apply_to_command sample_environment [''LANG'' \<mapsto> ''C'', ''TERM'' \<mapsto> ''xterm''] ''LANG'' = None \<and>
   apply_to_command sample_environment [''LANG'' \<mapsto> ''C'', ''TERM'' \<mapsto> ''xterm''] ''TERM'' = Some ''xterm''"
  using apply_to_command_exact [OF sample_environment_ok, of "[''LANG'' \<mapsto> ''C'', ''TERM'' \<mapsto> ''xterm'']"]
  by (simp add: CAPTURED_START_ENV_NAMES_def sample_environment_def)

theorem restart_context_exact_witness:
  "select_restart_context sample_environment [''HOME'', ''PATH''] = Inr sample_environment"
  using restart_context_exact [OF sample_environment_ok, of "[]"]
  by (simp add: restart_context_keys_def) (simp add: sample_environment_def)

end
