(* ===== verification/Task_Approval.thy ===== *)
theory Task_Approval
  imports Task_Requests Approval_Policy
begin

text \<open>
  What a person sees when a task operation asks for approval: the detail text and the metadata of
  \<^verbatim>\<open>src/src/orchestration.rs\<close>. A \<^verbatim>\<open>BTreeMap<String, String>\<close> is a finite map, and a detail text
  is the join of its lines by newlines, as in the format strings.

  The lemmas show that an argument can neither add a line to the text nor a control character to any
  field, that the metadata agrees with the operation that is dispatched, and that the text of a task
  never reaches either.
\<close>

section \<open>Labels of the backends\<close>

definition operation_prefix :: "backend \<Rightarrow> string" where
  "operation_prefix b = (case b of
     Codex \<Rightarrow> ''codex'' | OpenCode \<Rightarrow> ''opencode'' | DevinAcp \<Rightarrow> ''devin'' | DevinCloud \<Rightarrow> ''devin_cloud'')"

definition operation_word :: "operation \<Rightarrow> string" where
  "operation_word op = (case op of
     Status \<Rightarrow> ''status'' | TaskStart \<Rightarrow> ''task_start'' | TaskGet \<Rightarrow> ''task_get''
   | TaskList \<Rightarrow> ''task_list'' | TaskControl \<Rightarrow> ''task_control'')"

definition operation_name :: "backend \<Rightarrow> operation \<Rightarrow> string" where
  "operation_name b op = operation_prefix b @ ''_'' @ operation_word op"

definition approval_class :: "backend \<Rightarrow> approval_class" where
  "approval_class b = (case b of
     Codex \<Rightarrow> CodexAppServer | OpenCode \<Rightarrow> OpenCodeServer | DevinAcp \<Rightarrow> DevinAcpClass
   | DevinCloud \<Rightarrow> DevinCloudClass)"

definition provenance :: "backend \<Rightarrow> string" where
  "provenance b = (case b of
     Codex \<Rightarrow> ''codex_delegation'' | OpenCode \<Rightarrow> ''opencode_delegation''
   | DevinAcp \<Rightarrow> ''devin_delegation'' | DevinCloud \<Rightarrow> ''devin_cloud_delegation'')"

definition approval_scope :: "backend \<Rightarrow> string" where
  "approval_scope b = (case execution (capabilities b) of
     HostLocal \<Rightarrow> ''session_cwd'' | Hosted \<Rightarrow> ''devin_cloud'')"

definition backend_name :: "backend \<Rightarrow> string" where
  "backend_name b = (case b of
     Codex \<Rightarrow> ''codex'' | OpenCode \<Rightarrow> ''opencode'' | DevinAcp \<Rightarrow> ''devin_acp''
   | DevinCloud \<Rightarrow> ''devin_cloud'')"

definition denial :: "backend \<Rightarrow> string" where
  "denial b = (case b of
     Codex \<Rightarrow> ''user denied Codex operation'' | OpenCode \<Rightarrow> ''user denied OpenCode operation''
   | DevinAcp \<Rightarrow> ''user denied Devin operation''
   | DevinCloud \<Rightarrow> ''user denied Devin Cloud operation'')"

section \<open>Rendering of arguments\<close>

definition hex_digit :: "nat \<Rightarrow> char" where
  "hex_digit d = (if d < 10 then char_of (48 + d) else char_of (87 + d))"

fun hex :: "nat \<Rightarrow> string" where
  "hex n = (if n < 16 then [hex_digit n] else hex (n div 16) @ [hex_digit (n mod 16)])"

declare hex.simps [simp del]

definition ellipsis :: string where
  "ellipsis = push_char 8230"

text \<open>\<^verbatim>\<open>\x{:02x}\<close> for an ASCII control character, \<^verbatim>\<open>\u{:x}\<close> in braces for another one.\<close>

definition render_part :: "nat \<Rightarrow> string" where
  "render_part c =
     (if is_control c then
        if c < 128 then [CHR 0x5C, CHR ''x''] @ (if c < 16 then ''0'' else []) @ hex c
        else [CHR 0x5C, CHR ''u'', CHR 0x7B] @ hex c @ [CHR 0x7D]
      else push_char c)"

fun render_loop :: "string \<Rightarrow> nat list \<Rightarrow> string" where
  "render_loop rendered [] = rendered"
| "render_loop rendered (c # cs) =
     (if length rendered + length (render_part c) > 256 then rendered @ ellipsis
      else render_loop (rendered @ render_part c) cs)"

definition render_approval_argument :: "string \<Rightarrow> string" where
  "render_approval_argument v = render_loop [] (str_chars v)"

definition render_optional_approval_argument :: "string option \<Rightarrow> string" where
  "render_optional_approval_argument v =
     (case v of Some x \<Rightarrow> render_approval_argument x | None \<Rightarrow> ''(not provided)'')"

definition bool_text :: "bool \<Rightarrow> string" where
  "bool_text x = (if x then ''true'' else ''false'')"

fun join_lines :: "string list \<Rightarrow> string" where
  "join_lines [] = []"
| "join_lines [l] = l"
| "join_lines (l # ls) = l @ [CHR 0x0A] @ join_lines ls"

section \<open>Detail and metadata\<close>

type_synonym approval = "string \<times> (string \<rightharpoonup> string)"

definition approval_metadata ::
  "backend \<Rightarrow> string \<Rightarrow> string \<Rightarrow> bool \<Rightarrow> string \<Rightarrow> (string \<rightharpoonup> string)" where
  "approval_metadata b tool operation_type mutation target = map_of
     [(''provenance'', provenance b), (''source'', provenance b), (''tool'', tool),
      (''operation_type'', operation_type), (''target'', target),
      (''mutation'', bool_text mutation), (''read_only'', bool_text (\<not> mutation)),
      (''scope'', approval_scope b)]"

definition codex_status_approval :: approval where
  "codex_status_approval =
     (join_lines [''Codex delegation request'', ''access: read-only'', ''scope: current session'',
        ''result: model and effort compatibility metadata''],
      approval_metadata Codex ''codex_status'' ''status'' False ''session_scope'')"

definition codex_task_start_approval :: "task_start_request \<Rightarrow> codex_start_options \<Rightarrow> approval" where
  "codex_task_start_approval request options =
     (let operation_id = render_approval_argument (start_operation_id request);
          model = render_approval_argument (codex_model options);
          effort = render_approval_argument (codex_effort options)
      in (join_lines [''Codex delegation request'', ''operation: start task'',
            ''mutation: workspace-write'', ''scope: current session working directory'',
            ''model: '' @ model, ''effort: '' @ effort, ''operation_id: '' @ operation_id,
            ''task input: omitted''],
          (approval_metadata Codex ''codex_task_start'' ''task_start'' True ''session_scope'')
            (''operation_id'' \<mapsto> operation_id, ''model'' \<mapsto> model, ''effort'' \<mapsto> effort,
             ''continuation'' \<mapsto> (case codex_continued options of
                New \<Rightarrow> ''new'' | PreviousTask _ \<Rightarrow> ''previous_task''),
             ''task_input'' \<mapsto> ''omitted'')))"

definition codex_task_control_approval :: "task_control_request \<Rightarrow> approval" where
  "codex_task_control_approval request =
     (let task_id = render_approval_argument (control_task_id request);
          operation_id = render_approval_argument (control_operation_id request);
          action = control_action_as_str (control_action request)
      in (join_lines [''Codex delegation request'', ''operation: control task'', ''action: '' @ action,
            ''mutation: task control'', ''target: task '' @ task_id,
            ''scope: current session working directory'', ''operation_id: '' @ operation_id,
            ''control input: omitted''],
          (approval_metadata Codex ''codex_task_control'' ''task_control'' True (''task:'' @ task_id))
            (''task_id'' \<mapsto> task_id, ''operation_id'' \<mapsto> operation_id, ''action'' \<mapsto> action,
             ''control_input'' \<mapsto> ''omitted'')))"

definition opencode_status_approval :: approval where
  "opencode_status_approval =
     (join_lines [''OpenCode delegation request'', ''access: read-only'', ''scope: current session'',
        ''result: serve compatibility and provider metadata''],
      approval_metadata OpenCode ''opencode_status'' ''status'' False ''session_scope'')"

definition opencode_task_start_approval ::
  "task_start_request \<Rightarrow> opencode_start_options \<Rightarrow> approval" where
  "opencode_task_start_approval request options =
     (let operation_id = render_approval_argument (start_operation_id request);
          model = render_optional_approval_argument (opencode_model options);
          agent = render_optional_approval_argument (opencode_agent options);
          variant = render_optional_approval_argument (opencode_variant options);
          workspace_requirement =
            render_optional_approval_argument (opencode_workspace_requirement options)
      in (join_lines [''OpenCode delegation request'', ''operation: start task'',
            ''mutation: workspace-write'', ''scope: current session working directory'',
            ''model: '' @ model, ''agent: '' @ agent, ''variant: '' @ variant,
            ''workspace requirement: '' @ workspace_requirement, ''operation_id: '' @ operation_id,
            ''task input: omitted''],
          (approval_metadata OpenCode ''opencode_task_start'' ''task_start'' True ''session_scope'')
            (''operation_id'' \<mapsto> operation_id, ''model'' \<mapsto> model, ''agent'' \<mapsto> agent,
             ''variant'' \<mapsto> variant, ''workspace_requirement'' \<mapsto> workspace_requirement,
             ''task_input'' \<mapsto> ''omitted'')))"

definition opencode_task_control_approval :: "task_control_request \<Rightarrow> approval" where
  "opencode_task_control_approval request =
     (let task_id = render_approval_argument (control_task_id request);
          operation_id = render_approval_argument (control_operation_id request);
          action = control_action_as_str (control_action request);
          metadata = (approval_metadata OpenCode ''opencode_task_control'' ''task_control'' True
              (''task:'' @ task_id))
            (''task_id'' \<mapsto> task_id, ''operation_id'' \<mapsto> operation_id, ''action'' \<mapsto> action,
             ''control_input'' \<mapsto> ''omitted'')
      in (join_lines ([''OpenCode delegation request'', ''operation: control task'',
            ''action: '' @ action, ''mutation: task control'', ''target: task '' @ task_id,
            ''scope: current session working directory'', ''operation_id: '' @ operation_id] @
            (case control_interaction_id request of
               None \<Rightarrow> [] | Some i \<Rightarrow> [''interaction_id: '' @ render_approval_argument i]) @
            [''control input: omitted'']),
          (case control_interaction_id request of
             None \<Rightarrow> metadata
           | Some i \<Rightarrow> metadata(''interaction_id'' \<mapsto> render_approval_argument i,
               ''interaction_answer'' \<mapsto> ''omitted''))))"

definition devin_status_approval :: approval where
  "devin_status_approval =
     (join_lines [''Devin delegation request'', ''access: read-only'', ''scope: current session'',
        ''result: acp capability and agent metadata''],
      approval_metadata DevinAcp ''devin_status'' ''status'' False ''session_scope'')"

definition devin_task_start_approval ::
  "task_start_request \<Rightarrow> devin_acp_start_options \<Rightarrow> approval" where
  "devin_task_start_approval request options =
     (let operation_id = render_approval_argument (start_operation_id request);
          model = render_optional_approval_argument (devin_model options);
          agent = render_optional_approval_argument (devin_agent options);
          cloud = bool_text (devin_cloud options)
      in (join_lines [''Devin delegation request'', ''operation: start task'',
            ''mutation: workspace-write'', ''scope: current session working directory'',
            ''model: '' @ model, ''agent: '' @ agent, ''cloud: '' @ cloud,
            ''operation_id: '' @ operation_id, ''task input: omitted''],
          (approval_metadata DevinAcp ''devin_task_start'' ''task_start'' True ''session_scope'')
            (''operation_id'' \<mapsto> operation_id, ''model'' \<mapsto> model, ''agent'' \<mapsto> agent,
             ''cloud'' \<mapsto> cloud, ''task_input'' \<mapsto> ''omitted'')))"

definition devin_task_control_approval :: "task_control_request \<Rightarrow> approval" where
  "devin_task_control_approval request =
     (let task_id = render_approval_argument (control_task_id request);
          operation_id = render_approval_argument (control_operation_id request);
          action = control_action_as_str (control_action request)
      in (join_lines [''Devin delegation request'', ''operation: control task'', ''action: '' @ action,
            ''mutation: task control'', ''target: task '' @ task_id,
            ''scope: current session working directory'', ''operation_id: '' @ operation_id,
            ''control input: omitted''],
          (approval_metadata DevinAcp ''devin_task_control'' ''task_control'' True (''task:'' @ task_id))
            (''task_id'' \<mapsto> task_id, ''operation_id'' \<mapsto> operation_id, ''action'' \<mapsto> action,
             ''control_input'' \<mapsto> ''omitted'')))"

definition devin_cloud_status_approval :: approval where
  "devin_cloud_status_approval =
     (join_lines [''Devin Cloud delegation request'', ''access: read-only'', ''scope: current session'',
        ''result: authenticated principal and organization (credential value omitted)''],
      approval_metadata DevinCloud ''devin_cloud_status'' ''status'' False ''session_scope'')"

definition devin_cloud_task_start_approval ::
  "task_start_request \<Rightarrow> devin_cloud_start_options \<Rightarrow> approval" where
  "devin_cloud_task_start_approval request options =
     (let operation_id = render_approval_argument (start_operation_id request);
          title = render_optional_approval_argument (cloud_title options);
          devin_mode = render_optional_approval_argument (cloud_devin_mode options);
          swe_tier = render_optional_approval_argument (cloud_swe_tier options);
          repos = decimal (length (cloud_repos options))
      in (join_lines [''Devin Cloud delegation request'', ''operation: start hosted session'',
            ''mutation: remote Devin Cloud session (consumes ACUs)'',
            ''scope: Devin Cloud organization, not this host'',
            ''title: '' @ title, ''devin_mode: '' @ devin_mode, ''swe_tier: '' @ swe_tier,
            ''repos: '' @ repos, ''operation_id: '' @ operation_id, ''task input: omitted''],
          (approval_metadata DevinCloud ''devin_cloud_task_start'' ''task_start'' True
             ''devin_cloud_session'')
            (''operation_id'' \<mapsto> operation_id, ''title'' \<mapsto> title, ''devin_mode'' \<mapsto> devin_mode,
             ''swe_tier'' \<mapsto> swe_tier, ''repos'' \<mapsto> repos, ''task_input'' \<mapsto> ''omitted'')))"

definition devin_cloud_task_control_approval :: "task_control_request \<Rightarrow> approval" where
  "devin_cloud_task_control_approval request =
     (let task_id = render_approval_argument (control_task_id request);
          operation_id = render_approval_argument (control_operation_id request);
          action = control_action_as_str (control_action request)
      in (join_lines [''Devin Cloud delegation request'', ''operation: control hosted session'',
            ''action: '' @ action, ''mutation: remote Devin Cloud session'',
            ''target: task '' @ task_id, ''operation_id: '' @ operation_id,
            ''control input: omitted''],
          (approval_metadata DevinCloud ''devin_cloud_task_control'' ''task_control'' True
             (''task:'' @ task_id))
            (''task_id'' \<mapsto> task_id, ''operation_id'' \<mapsto> operation_id, ''action'' \<mapsto> action,
             ''control_input'' \<mapsto> ''omitted'')))"

definition status_approval :: "backend \<Rightarrow> approval" where
  "status_approval b = (case b of
     Codex \<Rightarrow> codex_status_approval | OpenCode \<Rightarrow> opencode_status_approval
   | DevinAcp \<Rightarrow> devin_status_approval | DevinCloud \<Rightarrow> devin_cloud_status_approval)"

definition task_start_approval :: "task_start_request \<Rightarrow> approval" where
  "task_start_approval request = (case start_options request of
     CodexOptions options \<Rightarrow> codex_task_start_approval request options
   | OpenCodeOptions options \<Rightarrow> opencode_task_start_approval request options
   | DevinAcpOptions options \<Rightarrow> devin_task_start_approval request options
   | DevinCloudOptions options \<Rightarrow> devin_cloud_task_start_approval request options)"

definition task_control_approval :: "backend \<Rightarrow> task_control_request \<Rightarrow> approval" where
  "task_control_approval b request = (case b of
     Codex \<Rightarrow> codex_task_control_approval request
   | OpenCode \<Rightarrow> opencode_task_control_approval request
   | DevinAcp \<Rightarrow> devin_task_control_approval request
   | DevinCloud \<Rightarrow> devin_cloud_task_control_approval request)"

text \<open>The approval \<open>invoke\<close> asks for on a request, if it asks for one.\<close>

definition request_approval :: "backend \<Rightarrow> task_request \<Rightarrow> approval option" where
  "request_approval b request = (case request of
     StatusRequest \<Rightarrow> Some (status_approval b)
   | StartRequest r \<Rightarrow> Some (task_start_approval r)
   | ControlRequest r \<Rightarrow> Some (task_control_approval b r)
   | _ \<Rightarrow> None)"

section \<open>Printable text\<close>

text \<open>A string that is the UTF-8 encoding of characters none of which is a control character.\<close>

definition printable :: "string \<Rightarrow> bool" where
  "printable s \<longleftrightarrow> (\<exists>cs. s = concat (map push_char cs) \<and> (\<forall>c \<in> set cs. c < 2097152 \<and> \<not> is_control c))"

lemma printable_Nil [simp]: "printable []"
  unfolding printable_def by (rule exI [of _ "[]"]) simp

lemma printable_append [simp]: "printable s \<Longrightarrow> printable t \<Longrightarrow> printable (s @ t)"
  unfolding printable_def
proof (elim exE conjE)
  fix cs ds
  assume "s = concat (map push_char cs)" "\<forall>c \<in> set cs. c < 2097152 \<and> \<not> is_control c"
    and "t = concat (map push_char ds)" "\<forall>c \<in> set ds. c < 2097152 \<and> \<not> is_control c"
  then show "\<exists>es. s @ t = concat (map push_char es) \<and> (\<forall>c \<in> set es. c < 2097152 \<and> \<not> is_control c)"
    by (intro exI [of _ "cs @ ds"]) auto
qed

lemma printable_push_char: "c < 2097152 \<Longrightarrow> \<not> is_control c \<Longrightarrow> printable (push_char c)"
  unfolding printable_def by (rule exI [of _ "[c]"]) simp

lemma push_char_ascii: "(of_char c :: nat) < 128 \<Longrightarrow> push_char (of_char c) = [c]"
  by (simp add: push_char_def utf8_encode_def)

lemma printable_tail:
  assumes "printable (c # s)" and "(of_char c :: nat) < 127"
  shows "printable s"
proof -
  from assms(1) obtain cs where cs: "c # s = concat (map push_char cs)"
    "\<forall>d \<in> set cs. d < 2097152 \<and> \<not> is_control d"
    unfolding printable_def by blast
  then obtain d ds where ds: "cs = d # ds" by (cases cs) auto
  with cs have eq: "map of_char (c # s) = utf8_encode d @ map of_char (concat (map push_char ds))"
    by (simp add: of_char_push_char [symmetric] flip: map_append)
  with assms(2) have "d < 128" by (auto simp: utf8_encode_def split: if_splits)
  then have "push_char d = [char_of d]" by (simp add: push_char_def utf8_encode_def)
  with cs ds show ?thesis unfolding printable_def by auto
qed

lemma printable_Cons [simp]:
  assumes "32 \<le> (of_char c :: nat)" and "(of_char c :: nat) < 127"
  shows "printable (c # s) \<longleftrightarrow> printable s"
proof
  assume "printable s"
  from assms have "printable (push_char (of_char c))"
    by (intro printable_push_char) (auto simp: is_control_def)
  with assms push_char_ascii [of c] printable_append [of "[c]" s] \<open>printable s\<close>
  show "printable (c # s)" by simp
qed (use assms(2) printable_tail in blast)

lemma printable_chars: "printable s \<Longrightarrow> c \<in> set (str_chars s) \<Longrightarrow> \<not> is_control c"
  unfolding printable_def using str_chars_concat by fastforce

lemma push_char_no_newline:
  assumes "c < 2097152" and "\<not> is_control c"
  shows "CHR 0x0A \<notin> set (push_char c)"
proof
  assume "CHR 0x0A \<in> set (push_char c)"
  then have "of_char CHR 0x0A \<in> set (map of_char (push_char c) :: nat list)" by (simp only: set_map imageI)
  then have "10 \<in> set (utf8_encode c)" using assms(1) by (simp add: of_char_push_char)
  with assms show False
    by (auto simp: utf8_encode_def is_control_def split: if_splits)
qed

lemma printable_no_newline: "printable s \<Longrightarrow> CHR 0x0A \<notin> set s"
  unfolding printable_def using push_char_no_newline by auto

lemma printable_hex [simp]: "printable (hex n)"
proof (induction n rule: hex.induct)
  case (1 n)
  have digit: "printable [hex_digit d]" if "d < 16" for d
  proof (cases "d < 10")
    case True
    then have "of_char (char_of (48 + d) :: char) = 48 + d" by (simp add: of_char_of)
    with True show ?thesis by (simp add: hex_digit_def)
  next
    case False
    with that have "of_char (char_of (87 + d) :: char) = 87 + d" by (simp add: of_char_of)
    with False that show ?thesis by (simp add: hex_digit_def)
  qed
  show ?case
  proof (cases "n < 16")
    case True
    then show ?thesis using digit by (subst hex.simps) simp
  next
    case False
    with 1 digit [of "n mod 16"] show ?thesis by (subst hex.simps) simp
  qed
qed

lemma printable_decimal [simp]: "printable (decimal n)"
proof (induction n rule: decimal.induct)
  case (1 n)
  have digit: "printable [char_of (48 + d) :: char]" if "d < 10" for d :: nat
  proof -
    from that have "of_char (char_of (48 + d) :: char) = 48 + d" by (simp add: of_char_of)
    with that show ?thesis by simp
  qed
  show ?case
  proof (cases "n < 10")
    case True
    then show ?thesis using digit [of n] by (subst decimal.simps) simp
  next
    case False
    with 1 digit [of "n mod 10"] show ?thesis by (subst decimal.simps) simp
  qed
qed

lemma printable_ellipsis [simp]: "printable ellipsis"
  unfolding ellipsis_def by (rule printable_push_char) (simp_all add: is_control_def)

lemma length_ellipsis [simp]: "length ellipsis = 3"
  by (simp add: ellipsis_def push_char_def utf8_encode_def)

text \<open>Both renderers of this layer append one part per character and stop with an ellipsis before the
  text would pass 256 bytes. What that contract gives is proved once.\<close>

locale bounded_text =
  fixes part :: "nat \<Rightarrow> string"
    and append_parts :: "string \<Rightarrow> nat list \<Rightarrow> string"
  assumes append_none: "append_parts r [] = r"
    and append_next: "append_parts r (c # cs) =
      (if length r + length (part c) > 256 then r @ ellipsis else append_parts (r @ part c) cs)"
begin

lemma append_bound: "length r \<le> 256 \<Longrightarrow> length (append_parts r cs) \<le> 259"
  by (induction cs arbitrary: r) (simp_all add: append_none append_next)

lemma append_prefix:
  "length r \<le> 256 \<Longrightarrow>
   (\<exists>n. append_parts r cs = r @ concat (map part (take n cs)) @ (if n < length cs then ellipsis else []) \<and>
      (n < length cs \<longleftrightarrow> length (r @ concat (map part cs)) > 256))"
proof (induction cs arbitrary: r)
  case Nil
  then show ?case by (simp add: append_none)
next
  case (Cons c cs)
  show ?case
  proof (cases "length r + length (part c) > 256")
    case True
    then show ?thesis by (intro exI [of _ 0]) (simp add: append_next)
  next
    case False
    then have "length (r @ part c) \<le> 256" by simp
    from Cons.IH [OF this] obtain n where "append_parts (r @ part c) cs =
        (r @ part c) @ concat (map part (take n cs)) @ (if n < length cs then ellipsis else [])"
      "n < length cs \<longleftrightarrow> length ((r @ part c) @ concat (map part cs)) > 256" by blast
    with False show ?thesis by (intro exI [of _ "Suc n"]) (simp add: append_next)
  qed
qed

lemma append_whole:
  assumes "length (concat (map part cs)) \<le> 256"
  shows "append_parts [] cs = concat (map part cs)"
  using append_prefix [of "[]" cs] assms by auto

lemma append_printable:
  "printable r \<Longrightarrow> (\<And>c. c \<in> set cs \<Longrightarrow> printable (part c)) \<Longrightarrow> printable (append_parts r cs)"
  by (induction cs arbitrary: r) (simp_all add: append_none append_next)

end

interpretation render_text: bounded_text render_part render_loop
  by unfold_locales simp_all

lemma printable_render_part: "c < 2097152 \<Longrightarrow> printable (render_part c)"
  by (simp add: render_part_def printable_push_char)

lemma printable_render [simp]: "printable (render_approval_argument v)"
  unfolding render_approval_argument_def
  by (rule render_text.append_printable) (auto dest: str_chars_bound intro: printable_render_part)

lemma render_plain:
  assumes "concat (map push_char (str_chars v)) = v" and "control_free_ok v"
  shows "render_approval_argument v = v"
proof -
  have "map render_part (str_chars v) = map push_char (str_chars v)"
    using assms(2) by (simp add: control_free_ok_def render_part_def)
  with assms render_text.append_whole [of "str_chars v"] show ?thesis
    by (simp add: render_approval_argument_def control_free_ok_def)
qed

lemma printable_render_optional [simp]: "printable (render_optional_approval_argument v)"
  by (cases v) (simp_all add: render_optional_approval_argument_def)

lemma printable_bool_text [simp]: "printable (bool_text x)"
  by (simp add: bool_text_def)

lemma printable_action [simp]: "printable (control_action_as_str a)"
  by (cases a) (simp_all add: control_action_as_str_def)

section \<open>The lines of an approval\<close>

fun split_lines :: "string \<Rightarrow> string list" where
  "split_lines [] = [[]]"
| "split_lines (c # s) =
     (if c = CHR 0x0A then [] # split_lines s
      else (c # hd (split_lines s)) # tl (split_lines s))"

definition line_label :: "string \<Rightarrow> string" where
  "line_label l = takeWhile (\<lambda>c. c \<noteq> CHR '':'') l"

text \<open>The labels each kind of approval shows, in order; they do not depend on any argument.\<close>

definition start_labels :: "start_options \<Rightarrow> string list" where
  "start_labels options = (case options of
     CodexOptions _ \<Rightarrow> [''Codex delegation request'', ''operation'', ''mutation'', ''scope'', ''model'',
       ''effort'', ''operation_id'', ''task input'']
   | OpenCodeOptions _ \<Rightarrow> [''OpenCode delegation request'', ''operation'', ''mutation'', ''scope'', ''model'',
       ''agent'', ''variant'', ''workspace requirement'', ''operation_id'', ''task input'']
   | DevinAcpOptions _ \<Rightarrow> [''Devin delegation request'', ''operation'', ''mutation'', ''scope'', ''model'',
       ''agent'', ''cloud'', ''operation_id'', ''task input'']
   | DevinCloudOptions _ \<Rightarrow> [''Devin Cloud delegation request'', ''operation'', ''mutation'', ''scope'',
       ''title'', ''devin_mode'', ''swe_tier'', ''repos'', ''operation_id'', ''task input''])"

definition request_title :: "backend \<Rightarrow> string" where
  "request_title b = (case b of
     Codex \<Rightarrow> ''Codex'' | OpenCode \<Rightarrow> ''OpenCode'' | DevinAcp \<Rightarrow> ''Devin'' | DevinCloud \<Rightarrow> ''Devin Cloud'') @
     '' delegation request''"

definition approval_labels :: "backend \<Rightarrow> task_request \<Rightarrow> string list" where
  "approval_labels b request = (case request of
     StatusRequest \<Rightarrow> [request_title b, ''access'', ''scope'', ''result'']
   | StartRequest r \<Rightarrow> start_labels (start_options r)
   | ControlRequest r \<Rightarrow>
       [request_title b, ''operation'', ''action'', ''mutation'', ''target''] @
       (if b = DevinCloud then [] else [''scope'']) @ [''operation_id''] @
       (if control_interaction_id r = None then [] else [''interaction_id'']) @ [''control input'']
   | _ \<Rightarrow> [])"

definition field_ok :: "string \<Rightarrow> bool" where
  "field_ok v \<longleftrightarrow> printable v \<and> length v \<le> 264"

definition text_ok :: "string list \<Rightarrow> string \<Rightarrow> bool" where
  "text_ok labels detail \<longleftrightarrow>
     map line_label (split_lines detail) = labels \<and> list_all printable (split_lines detail)"

lemma split_lines_not_Nil [simp]: "split_lines s \<noteq> []"
  by (cases s) simp_all

lemma split_lines_single: "CHR 0x0A \<notin> set l \<Longrightarrow> split_lines l = [l]"
  by (induction l) auto

lemma split_lines_append: "CHR 0x0A \<notin> set l \<Longrightarrow> split_lines (l @ CHR 0x0A # s) = l # split_lines s"
  by (induction l) auto

lemma split_join:
  "ls \<noteq> [] \<Longrightarrow> list_all printable ls \<Longrightarrow> split_lines (join_lines ls) = ls"
proof (induction ls rule: join_lines.induct)
  case (3 l k ls)
  then show ?case by (simp add: split_lines_append printable_no_newline)
qed (simp_all add: split_lines_single printable_no_newline)

lemma text_ok_join:
  "ls \<noteq> [] \<Longrightarrow> list_all printable ls \<Longrightarrow> map line_label ls = labels \<Longrightarrow> text_ok labels (join_lines ls)"
  by (simp add: text_ok_def split_join)

lemma line_label_eval [simp]:
  "line_label [] = []"
  "line_label (c # s) = (if c = CHR '':'' then [] else c # line_label s)"
  by (simp_all add: line_label_def)

lemma control_label [simp]: "line_label (control_action_as_str a) = control_action_as_str a"
  by (cases a) (simp_all add: control_action_as_str_def)

definition values_ok :: "(string \<rightharpoonup> string) \<Rightarrow> bool" where
  "values_ok m \<longleftrightarrow> (\<forall>v \<in> ran m. field_ok v)"

lemma values_upd: "values_ok m \<Longrightarrow> field_ok x \<Longrightarrow> values_ok (m(k \<mapsto> x))"
  by (auto simp: values_ok_def ran_def)

lemma values_map_of: "\<forall>v \<in> snd ` set xs. field_ok v \<Longrightarrow> values_ok (map_of xs)"
  by (force simp: values_ok_def ran_def dest: map_of_SomeD)

lemma render_bound: "length (render_approval_argument v) \<le> 259"
  by (simp add: render_approval_argument_def render_text.append_bound)

lemma field_ok_render [simp]:
  "field_ok (render_approval_argument v)"
  "field_ok (CHR ''t'' # CHR ''a'' # CHR ''s'' # CHR ''k'' # CHR '':'' # render_approval_argument v)"
  "field_ok (render_optional_approval_argument w)"
  using render_bound [of v] render_bound [of "the w"]
  by (cases w; simp add: field_ok_def render_optional_approval_argument_def)+

lemma field_ok_action [simp]: "field_ok (control_action_as_str a)"
  by (cases a) (simp_all add: field_ok_def control_action_as_str_def)

lemma field_ok_bool [simp]: "field_ok (bool_text x)"
  by (simp add: field_ok_def bool_text_def)

lemma field_ok_decimal: "n \<le> 16 \<Longrightarrow> field_ok (decimal n)"
  by (simp add: field_ok_def decimal.simps)

lemma field_ok_literal:
  "printable (c # s) \<Longrightarrow> length s < 264 \<Longrightarrow> field_ok (c # s)"
  by (simp add: field_ok_def)

lemma metadata_ok:
  assumes "field_ok tool" and "field_ok kind" and "field_ok target"
  shows "values_ok (approval_metadata b tool kind mutation target)"
proof -
  have "field_ok (provenance b)" "field_ok (approval_scope b)"
    by (cases b; simp add: field_ok_def provenance_def approval_scope_def capabilities_def)+
  with assms show ?thesis
    unfolding approval_metadata_def by (intro values_map_of) simp
qed

definition approval_ok :: "string list \<Rightarrow> approval \<Rightarrow> bool" where
  "approval_ok labels a \<longleftrightarrow> text_ok labels (fst a) \<and> values_ok (snd a)"

lemma approval_okI:
  "ls \<noteq> [] \<Longrightarrow> list_all printable ls \<Longrightarrow> map line_label ls = labels \<Longrightarrow>
     values_ok m \<Longrightarrow> approval_ok labels (join_lines ls, m)"
  by (simp add: approval_ok_def text_ok_join)

lemma status_approval_ok: "approval_ok (approval_labels b StatusRequest) (status_approval b)"
  by (cases b)
    (simp_all add: status_approval_def codex_status_approval_def opencode_status_approval_def
      devin_status_approval_def devin_cloud_status_approval_def approval_labels_def request_title_def
      approval_okI metadata_ok field_ok_literal del: join_lines.simps)

lemma task_start_approval_ok:
  assumes "options_wf b (start_options r)"
  shows "approval_ok (start_labels (start_options r)) (task_start_approval r)"
  using assms
  by (cases "start_options r")
    (simp_all add: task_start_approval_def codex_task_start_approval_def opencode_task_start_approval_def
      devin_task_start_approval_def devin_cloud_task_start_approval_def Let_def start_labels_def
      options_wf_def approval_okI metadata_ok values_upd field_ok_literal field_ok_decimal
      split: codex_continuation.split del: join_lines.simps fun_upd_apply)

lemma task_control_approval_ok:
  assumes "request_wf C b TaskControl (ControlRequest r)"
  shows "approval_ok (approval_labels b (ControlRequest r)) (task_control_approval b r)"
  using assms
  by (cases b; cases "control_interaction_id r")
    (simp_all add: task_control_approval_def codex_task_control_approval_def request_wf_def
      opencode_task_control_approval_def devin_task_control_approval_def
      devin_cloud_task_control_approval_def Let_def approval_labels_def request_title_def
      approval_okI metadata_ok values_upd field_ok_literal
      del: join_lines.simps fun_upd_apply)

section \<open>Properties\<close>

lemma request_approval_ok:
  assumes "request_wf C b op r" and "request_approval b r = Some a"
  shows "approval_ok (approval_labels b r) a"
proof (cases r)
  case StatusRequest
  with assms(2) status_approval_ok [of b] show ?thesis by (simp add: request_approval_def)
next
  case (StartRequest x)
  with assms task_start_approval_ok [of b x] show ?thesis
    by (simp add: request_approval_def request_wf_def approval_labels_def)
next
  case (ControlRequest x)
  with assms have "request_wf C b TaskControl (ControlRequest x)" by (simp add: request_wf_def)
  from task_control_approval_ok [OF this] ControlRequest assms(2) show ?thesis
    by (simp add: request_approval_def)
qed (use assms in \<open>simp_all add: request_approval_def\<close>)

text \<open>C15. No argument of an accepted request can forge a line of the approval text: the labels in
  front of the colons are the fixed list of the operation, in order, every line is free of control
  characters, and so is every value of the metadata, which is also bounded in length.\<close>

theorem approval_text_unforgeable:
  assumes "parse C b op args = Inr r" and "request_approval b r = Some (detail, metadata)"
  shows "map line_label (split_lines detail) = approval_labels b r \<and>
    (\<forall>l \<in> set (split_lines detail). \<forall>c \<in> set (str_chars l). \<not> is_control c) \<and>
    (\<forall>k v. metadata k = Some v \<longrightarrow> length v \<le> 264 \<and> (\<forall>c \<in> set (str_chars v). \<not> is_control c))"
proof -
  from request_approval_ok [OF parse_Inr_wf [OF assms(1)] assms(2)]
  have lines: "text_ok (approval_labels b r) detail" and vals: "values_ok metadata"
    by (simp_all add: approval_ok_def)
  from vals have "field_ok v" if "metadata k = Some v" for k v
    using that by (auto simp: values_ok_def ran_def)
  with lines printable_chars show ?thesis
    by (auto simp: text_ok_def field_ok_def list_all_iff)
qed

text \<open>The metadata of an approval describes the operation that will be dispatched: the tool is
  the operation name of that backend and operation, it is flagged as a mutation unless it is the
  status probe and never both as mutation and as read-only, and provenance and scope are those of the
  backend, a control request naming its task as the target.\<close>

theorem approval_metadata_describes:
  assumes "parse C b op args = Inr r" and "request_approval b r = Some (detail, metadata)"
  shows "metadata ''tool'' = Some (operation_name b op) \<and>
    metadata ''operation_type'' = Some (operation_word op) \<and>
    metadata ''mutation'' = Some (bool_text (op \<noteq> Status)) \<and>
    metadata ''read_only'' = Some (bool_text (op = Status)) \<and>
    metadata ''provenance'' = Some (provenance b) \<and>
    metadata ''scope'' = Some (approval_scope b) \<and>
    (\<forall>x. r = ControlRequest x \<longrightarrow>
       metadata ''target'' = Some (''task:'' @ render_approval_argument (control_task_id x)))"
proof -
  note wf = parse_Inr_wf [OF assms(1)]
  note names = operation_name_def operation_prefix_def operation_word_def approval_metadata_def
  show ?thesis
  proof (cases r)
    case StatusRequest
    with wf assms(2) show ?thesis
      by (cases b) (auto simp: request_wf_def request_approval_def status_approval_def names
          codex_status_approval_def opencode_status_approval_def devin_status_approval_def
          devin_cloud_status_approval_def)
  next
    case (StartRequest x)
    with wf assms(2) show ?thesis
      by (cases "start_options x")
        (auto simp: request_wf_def options_wf_def request_approval_def task_start_approval_def names
          codex_task_start_approval_def opencode_task_start_approval_def devin_task_start_approval_def
          devin_cloud_task_start_approval_def Let_def)
  next
    case (ControlRequest x)
    with wf assms(2) show ?thesis
      by (cases b; cases "control_interaction_id x")
        (auto simp: request_wf_def request_approval_def task_control_approval_def names
          codex_task_control_approval_def opencode_task_control_approval_def
          devin_task_control_approval_def devin_cloud_task_control_approval_def Let_def)
  qed (use assms(2) in \<open>simp_all add: request_approval_def\<close>)
qed

text \<open>The rendering of an argument is bounded, keeps no control character, and is the argument
  itself whenever that is well-formed UTF-8 text of at most 256 bytes without control characters.\<close>

theorem render_approval_argument_faithful:
  "length (render_approval_argument v) \<le> 259 \<and>
   (\<forall>c \<in> set (str_chars (render_approval_argument v)). \<not> is_control c) \<and>
   (concat (map push_char (str_chars v)) = v \<and> control_free_ok v \<longrightarrow> render_approval_argument v = v)"
proof (intro conjI)
  show "length (render_approval_argument v) \<le> 259" by (rule render_bound)
  show "\<forall>c \<in> set (str_chars (render_approval_argument v)). \<not> is_control c"
    using printable_chars [OF printable_render] by blast
  show "concat (map push_char (str_chars v)) = v \<and> control_free_ok v \<longrightarrow> render_approval_argument v = v"
    using render_plain by blast
qed

section \<open>Task text stays out of approvals\<close>

text \<open>Two documents that differ at most in the text a task is given.\<close>

definition same_but_text :: "json \<Rightarrow> json \<Rightarrow> bool" where
  "same_but_text args args' \<longleftrightarrow>
     (\<forall>k. k \<notin> {''task'', ''input'', ''answer''} \<longrightarrow> jget args' k = jget args k)"

lemma same_but_text_get:
  "same_but_text args args' \<Longrightarrow> k \<notin> {''task'', ''input'', ''answer''} \<Longrightarrow> jget args' k = jget args k"
  by (simp add: same_but_text_def)

lemmas text_reads = required_uuid_def required_string_def optional_string_def optional_u64_strict_def
  optional_u64_lenient_def optional_string_list_def codex_continuation_def task_wait_ms_def
  same_but_text_get

lemma parse_start_same_but_text:
  assumes same: "same_but_text args args'"
    and r: "parse_task_start C b args = Inr r" and r': "parse_task_start C b args' = Inr r'"
  shows "r = r'"
proof -
  from r obtain task options where task: "validate_task_input task ''task'' = Inr ()"
    and id: "required_uuid C args ''operation_id'' = Inr (start_operation_id r)"
    and options: "(case b of Codex \<Rightarrow> parse_codex_start C task args
      | OpenCode \<Rightarrow> parse_opencode_start task args | DevinAcp \<Rightarrow> parse_devin_start task args
      | DevinCloud \<Rightarrow> parse_devin_cloud_start task args) = Inr (start_options r)"
    by (cases b) (auto simp: parse_task_start_def parse_codex_start_def parse_opencode_start_def
        parse_devin_start_def parse_devin_cloud_start_def)
  from r' obtain task' options' where task': "validate_task_input task' ''task'' = Inr ()"
    and id': "required_uuid C args' ''operation_id'' = Inr (start_operation_id r')"
    and options': "(case b of Codex \<Rightarrow> parse_codex_start C task' args'
      | OpenCode \<Rightarrow> parse_opencode_start task' args' | DevinAcp \<Rightarrow> parse_devin_start task' args'
      | DevinCloud \<Rightarrow> parse_devin_cloud_start task' args') = Inr (start_options r')"
    by (cases b) (auto simp: parse_task_start_def parse_codex_start_def parse_opencode_start_def
        parse_devin_start_def parse_devin_cloud_start_def)
  have "required_uuid C args' ''operation_id'' = required_uuid C args ''operation_id''"
    using same by (simp add: text_reads)
  with id id' have ids: "start_operation_id r = start_operation_id r'" by simp
  have "(case b of Codex \<Rightarrow> parse_codex_start C task' args'
      | OpenCode \<Rightarrow> parse_opencode_start task' args' | DevinAcp \<Rightarrow> parse_devin_start task' args'
      | DevinCloud \<Rightarrow> parse_devin_cloud_start task' args') =
      (case b of Codex \<Rightarrow> parse_codex_start C task args
      | OpenCode \<Rightarrow> parse_opencode_start task args | DevinAcp \<Rightarrow> parse_devin_start task args
      | DevinCloud \<Rightarrow> parse_devin_cloud_start task args)"
    using same task task' by (cases b) (simp_all add: parse_codex_start_def parse_opencode_start_def
        parse_devin_start_def parse_devin_cloud_start_def text_reads)
  with options options' ids show ?thesis by (cases r; cases r') simp
qed

lemma parse_get_same_but_text:
  "same_but_text args args' \<Longrightarrow> parse_task_get C b args' = parse_task_get C b args"
  by (cases b) (simp_all add: parse_task_get_def text_reads)

lemma parse_control_same_but_text:
  assumes same: "same_but_text args args'"
    and r: "parse_task_control C b args = Inr r" and r': "parse_task_control C b args' = Inr r'"
  shows "r = r'"
proof -
  from same r r' have ids: "control_task_id r = control_task_id r'"
    "control_operation_id r = control_operation_id r'" "control_action r = control_action r'"
    by (simp_all add: parse_task_control_Inr same_but_text_get control_action_enum.to_wire_eq_iff)
  moreover from same r r' ids(3) have "control_interaction_id r = control_interaction_id r'"
    by (cases "control_action r")
      (auto simp: parse_task_control_Inr parse_control_payload_Inr same_but_text_get)
  ultimately show ?thesis by (cases r; cases r') simp
qed

text \<open>The text of a task, of a steering message or of an answer never reaches the person who
  approves nor the approval metadata: two accepted documents that differ only in these fields give
  the same request and the same approval.\<close>

theorem approval_omits_task_text:
  assumes "parse C b op args = Inr r" and "parse C b op args' = Inr r'"
    and "\<And>k. k \<notin> {''task'', ''input'', ''answer''} \<Longrightarrow> jget args' k = jget args k"
  shows "r = r' \<and> request_approval b r = request_approval b r'"
proof -
  have same: "same_but_text args args'" using assms(3) by (simp add: same_but_text_def)
  have "r = r'"
    using assms(1,2) parse_start_same_but_text [OF same] parse_control_same_but_text [OF same]
      parse_get_same_but_text [OF same, of C b]
    by (cases op) (auto simp: parse_def)
  then show ?thesis by simp
qed

section \<open>Witnesses\<close>

lemma sample_control_parses:
  "parse sample_request_crates OpenCode TaskControl
     (request_args sample_request_crates (ControlRequest sample_control)) = Inr (ControlRequest sample_control)"
  using parse_control_args [of sample_request_crates OpenCode sample_control] sample_control_wf
    sample_request_crates_ok by (simp add: parse_def)

lemma sample_control_approval:
  "request_approval OpenCode (ControlRequest sample_control) =
     Some (fst (task_control_approval OpenCode sample_control), snd (task_control_approval OpenCode sample_control))"
  by (simp add: request_approval_def)

theorem approval_text_unforgeable_witness:
  "map line_label (split_lines (fst (task_control_approval OpenCode sample_control))) =
     [''OpenCode delegation request'', ''operation'', ''action'', ''mutation'', ''target'', ''scope'',
      ''operation_id'', ''interaction_id'', ''control input'']"
  using approval_text_unforgeable [OF sample_control_parses sample_control_approval]
  by (simp add: approval_labels_def request_title_def sample_control_def)

theorem approval_metadata_describes_witness:
  "snd (task_control_approval OpenCode sample_control) ''tool'' = Some ''opencode_task_control'' \<and>
   snd (task_control_approval OpenCode sample_control) ''mutation'' = Some ''true''"
  using approval_metadata_describes [OF sample_control_parses sample_control_approval]
  by (simp add: operation_name_def operation_prefix_def operation_word_def bool_text_def)

lemma ascii_reencodes:
  assumes "\<forall>c \<in> set s. (of_char c :: nat) < 128"
  shows "concat (map push_char (str_chars s)) = s"
  using assms unfolding str_chars_ascii [OF assms] by (induction s) (simp_all add: push_char_ascii)

theorem render_approval_argument_faithful_witness:
  "render_approval_argument ''gpt-5'' = ''gpt-5''"
proof -
  have "concat (map push_char (str_chars ''gpt-5'')) = ''gpt-5'' \<and> control_free_ok ''gpt-5''"
    by (intro conjI ascii_reencodes) (simp_all add: str_chars_ascii control_free_ok_def is_control_def)
  with render_approval_argument_faithful [of "''gpt-5''"] show ?thesis by blast
qed

definition sample_steer :: "string \<Rightarrow> json" where
  "sample_steer t = JObject [(''task_id'', JString ''11''), (''operation_id'', JString ''1''),
     (''action'', JString ''steer''), (''input'', JString t)]"

definition sample_steer_request :: task_control_request where
  "sample_steer_request = \<lparr>control_task_id = ''11'', control_operation_id = ''1'', control_action = Steer,
     control_interaction_id = None\<rparr>"

lemma sample_steer_parses:
  "validate_task_input t ''input'' = Inr () \<Longrightarrow>
     parse sample_request_crates Codex TaskControl (sample_steer t) = Inr (ControlRequest sample_steer_request)"
  by (simp add: parse_def parse_task_control_Inr parse_control_payload_Inr sample_steer_def jget_def
      as_str_def sample_uuid_text sample_steer_request_def control_action_as_str_def)

theorem approval_omits_task_text_witness:
  "parse sample_request_crates Codex TaskControl (sample_steer ''a'') = Inr (ControlRequest sample_steer_request) \<and>
   parse sample_request_crates Codex TaskControl (sample_steer ''b'') = Inr (ControlRequest sample_steer_request) \<and>
   request_approval Codex (ControlRequest sample_steer_request) = request_approval Codex (ControlRequest sample_steer_request)"
proof -
  have a: "parse sample_request_crates Codex TaskControl (sample_steer ''a'') = Inr (ControlRequest sample_steer_request)"
    and b: "parse sample_request_crates Codex TaskControl (sample_steer ''b'') = Inr (ControlRequest sample_steer_request)"
    by (simp_all add: sample_steer_parses validate_task_input_def MAX_TASK_INPUT_BYTES_def contains_nul_def)
  have "jget (sample_steer ''b'') k = jget (sample_steer ''a'') k" if "k \<notin> {''task'', ''input'', ''answer''}" for k
    using that by (simp add: sample_steer_def jget_def)
  from approval_omits_task_text [OF a b this] a b show ?thesis by blast
qed

end
