(* ===== verification/Task_List.thy ===== *)
theory Task_List
  imports Task_Approval "HOL-Library.Multiset"
begin

text \<open>
  The cross-backend task list of \<^verbatim>\<open>src/src/orchestration.rs\<close>: the per-backend answers are merged,
  sorted and truncated. The answer of a backend is its JSON view or the rendered chain of its error.
  A list sorted by \<^verbatim>\<open>sort_by\<close>, which is stable, is \<open>sort_key\<close> by \<open>task_list_key\<close>; the
  running total is a \<^verbatim>\<open>usize\<close> of a 64-bit target and wraps as in a release build. The order of
  the fields in an emitted JSON object is not part of the model.
\<close>

section \<open>Definitions\<close>

text \<open>\<^verbatim>\<open>view[key].as_u64().unwrap_or(0)\<close> and \<^verbatim>\<open>as_str().unwrap_or_default()\<close>\<close>

definition u64_or_zero :: "json \<Rightarrow> string \<Rightarrow> u64" where
  "u64_or_zero v key = (case as_u64 (jindex v key) of None \<Rightarrow> 0 | Some n \<Rightarrow> n)"

definition str_or_default :: "json \<Rightarrow> string \<Rightarrow> string" where
  "str_or_default v key = (case as_str (jindex v key) of None \<Rightarrow> [] | Some s \<Rightarrow> s)"

text \<open>Most recently updated first, then the task identifier: a descending 64-bit key is compared
  through its complement.\<close>

definition task_list_key :: "json \<Rightarrow> u64 \<times> string" where
  "task_list_key v = (not (u64_or_zero v ''last_updated_at''), str_or_default v ''task_id'')"

definition sort_task_list_items :: "json list \<Rightarrow> json list" where
  "sort_task_list_items tasks = sort_key task_list_key tasks"

fun bound_loop :: "string \<Rightarrow> nat list \<Rightarrow> string" where
  "bound_loop rendered [] = rendered"
| "bound_loop rendered (c # cs) =
     (if length rendered + length (push_char c) > 256 then rendered @ ellipsis
      else bound_loop (rendered @ push_char c) cs)"

definition bound_task_list_error :: "string \<Rightarrow> string" where
  "bound_task_list_error error = bound_loop [] (str_chars error)"

record task_merge =
  merged_tasks :: "json list"
  merged_backends :: "(string \<times> json) list"
  merged_total :: u64

fun map_insert :: "string \<Rightarrow> json \<Rightarrow> (string \<times> json) list \<Rightarrow> (string \<times> json) list" where
  "map_insert k v [] = [(k, v)]"
| "map_insert k v ((a, w) # fs) = (if a = k then (k, v) # fs else (a, w) # map_insert k v fs)"

definition merge_one :: "backend \<times> (string + json) \<Rightarrow> task_merge \<Rightarrow> task_merge" where
  "merge_one result m = (case result of
     (b, Inr view) \<Rightarrow>
       (let backend_total = u64_or_zero view ''total''; skipped = u64_or_zero view ''skipped'' in
        m\<lparr>merged_total := merged_total m + backend_total,
          merged_tasks := merged_tasks m @
            (case as_array (jindex view ''tasks'') of None \<Rightarrow> [] | Some items \<Rightarrow> items),
          merged_backends := map_insert (backend_name b)
            (JObject [(''status'', JString ''ok''), (''total'', JNumber (PosInt backend_total)),
               (''skipped'', JNumber (PosInt skipped))]) (merged_backends m)\<rparr>)
   | (b, Inl error) \<Rightarrow>
       m\<lparr>merged_backends := map_insert (backend_name b)
          (JObject [(''status'', JString ''unavailable''),
             (''error'', JString (bound_task_list_error error))]) (merged_backends m)\<rparr>)"

definition merge_start :: task_merge where
  "merge_start = \<lparr>merged_tasks = [], merged_backends = [], merged_total = 0\<rparr>"

definition merge_task_lists :: "(backend \<times> (string + json)) list \<Rightarrow> nat \<Rightarrow> json" where
  "merge_task_lists results limit =
     (let m = fold merge_one results merge_start in
      JObject
       [(''tasks'', JArray (take limit (sort_task_list_items (merged_tasks m)))),
        (''backends'', JObject (merged_backends m)),
        (''total'', JNumber (PosInt (merged_total m))),
        (''truncated'', JBool (unat (merged_total m) > limit)),
        (''limit'', JNumber (PosInt (of_nat limit)))])"

definition ALL_BACKENDS :: "backend list" where
  "ALL_BACKENDS = [Codex, OpenCode, DevinAcp, DevinCloud]"

text \<open>The whole operation, the list of one backend being a parameter.\<close>

definition task_list :: "(backend \<Rightarrow> json \<Rightarrow> string + json) \<Rightarrow> json \<Rightarrow> string + json" where
  "task_list backend_list args =
     and_then (task_list_limit args) (\<lambda>limit.
     Inr (merge_task_lists (map (\<lambda>b. (b, backend_list b args)) ALL_BACKENDS) limit))"

section \<open>The newest tasks of all backends\<close>

lemma take_insort:
  "take n (insort_key f x (take n zs)) = take n (insort_key f x zs)"
proof (induction zs arbitrary: n)
  case (Cons z zs)
  then show ?case by (cases n) (simp_all add: take_Cons')
qed simp

lemma take_foldr_insort:
  "take n (foldr (insort_key f) ys (take n zs)) = take n (foldr (insort_key f) ys zs)"
proof (induction ys)
  case (Cons y ys)
  have "take n (insort_key f y (foldr (insort_key f) ys (take n zs))) =
      take n (insort_key f y (take n (foldr (insort_key f) ys (take n zs))))"
    by (simp only: take_insort)
  also have "\<dots> = take n (insort_key f y (foldr (insort_key f) ys zs))"
    by (simp only: Cons.IH take_insort)
  finally show ?case by simp
qed simp

lemma take_sort_right:
  "take n (sort_key f (ys @ take n (sort_key f zs))) = take n (sort_key f (ys @ zs))"
proof -
  have "sort_key f (take n (sort_key f zs)) = take n (sort_key f zs)"
    by (rule sort_key_id_if_sorted) (simp add: sorted_wrt_take flip: take_map)
  then show ?thesis by (simp add: sort_key_def take_foldr_insort)
qed

lemma take_sort_left:
  assumes "inj_on f (set (xs @ ys))"
  shows "take n (sort_key f (take n (sort_key f xs) @ ys)) = take n (sort_key f (xs @ ys))"
proof -
  have sub: "set (take n (sort_key f xs)) \<subseteq> set xs" using set_take_subset by fastforce
  have "sort_key f (take n (sort_key f xs) @ ys) = sort_key f (ys @ take n (sort_key f xs))"
    by (rule sort_key_inj_key_eq) (use assms sub in \<open>auto intro: inj_on_subset\<close>)
  moreover have "sort_key f (xs @ ys) = sort_key f (ys @ xs)"
    by (rule sort_key_inj_key_eq) (use assms in auto)
  ultimately show ?thesis by (simp add: take_sort_right)
qed

lemma take_sort_concat:
  assumes "inj_on f (set (ps @ concat xss))"
  shows "take n (sort_key f (ps @ concat (map (\<lambda>xs. take n (sort_key f xs)) xss))) =
    take n (sort_key f (ps @ concat xss))"
  using assms
proof (induction xss arbitrary: ps)
  case (Cons xs xss)
  have sub: "set (take n (sort_key f xs)) \<subseteq> set xs" using set_take_subset by fastforce
  from Cons.IH [of "ps @ take n (sort_key f xs)"] Cons.prems sub
  have "take n (sort_key f (ps @ concat (map (\<lambda>xs. take n (sort_key f xs)) (xs # xss)))) =
      take n (sort_key f ((ps @ take n (sort_key f xs)) @ concat xss))"
    by (auto intro: inj_on_subset)
  also have "sort_key f ((ps @ take n (sort_key f xs)) @ concat xss) =
      sort_key f (take n (sort_key f xs) @ (ps @ concat xss))"
    by (rule sort_key_inj_key_eq) (use Cons.prems sub in \<open>auto intro: inj_on_subset\<close>)
  also have "take n \<dots> = take n (sort_key f (xs @ (ps @ concat xss)))"
    by (rule take_sort_left) (use Cons.prems in \<open>auto simp: inj_on_def\<close>)
  also have "sort_key f (xs @ (ps @ concat xss)) = sort_key f (ps @ concat (xs # xss))"
    by (rule sort_key_inj_key_eq) (use Cons.prems in \<open>auto simp: inj_on_def\<close>)
  finally show ?case .
qed simp

section \<open>What the merge collects\<close>

definition view_tasks :: "string + json \<Rightarrow> json list" where
  "view_tasks result = (case result of
     Inl _ \<Rightarrow> [] | Inr v \<Rightarrow> (case as_array (jindex v ''tasks'') of None \<Rightarrow> [] | Some items \<Rightarrow> items))"

definition view_total :: "string + json \<Rightarrow> u64" where
  "view_total result = (case result of Inl _ \<Rightarrow> 0 | Inr v \<Rightarrow> u64_or_zero v ''total'')"

definition backend_entry :: "string + json \<Rightarrow> json" where
  "backend_entry result = (case result of
     Inl error \<Rightarrow> JObject [(''status'', JString ''unavailable''),
       (''error'', JString (bound_task_list_error error))]
   | Inr v \<Rightarrow> JObject [(''status'', JString ''ok''), (''total'', JNumber (PosInt (u64_or_zero v ''total''))),
       (''skipped'', JNumber (PosInt (u64_or_zero v ''skipped'')))])"

lemma backend_name_inject [simp]: "backend_name a = backend_name b \<longleftrightarrow> a = b"
  by (cases a; cases b) (simp_all add: backend_name_def)

lemma map_of_insert [simp]: "map_of (map_insert k v fs) = (map_of fs)(k \<mapsto> v)"
  by (induction fs) auto

lemma merge_one_fields:
  "merged_tasks (merge_one (b, result) m) = merged_tasks m @ view_tasks result"
  "merged_total (merge_one (b, result) m) = merged_total m + view_total result"
  "map_of (merged_backends (merge_one (b, result) m)) =
     (map_of (merged_backends m))(backend_name b \<mapsto> backend_entry result)"
  by (cases result; simp add: merge_one_def view_tasks_def view_total_def backend_entry_def Let_def)+

lemma merge_fold_tasks:
  "merged_tasks (fold merge_one results m) = merged_tasks m @ concat (map (view_tasks \<circ> snd) results)"
  by (induction results arbitrary: m) (auto simp: merge_one_fields)

lemma merge_fold_total:
  "merged_total (fold merge_one results m) = merged_total m + (\<Sum>r \<leftarrow> results. view_total (snd r))"
  by (induction results arbitrary: m) (auto simp: merge_one_fields)

lemma merge_fold_backends:
  "distinct (map fst results) \<Longrightarrow>
     map_of (merged_backends (fold merge_one results m)) (backend_name b) =
       (case map_of results b of
          None \<Rightarrow> map_of (merged_backends m) (backend_name b) | Some result \<Rightarrow> Some (backend_entry result))"
proof (induction results arbitrary: m)
  case (Cons r rs)
  obtain a result where r: "r = (a, result)" by fastforce
  from Cons.prems r have "map_of rs a = None" by (auto simp: map_of_eq_None_iff)
  with Cons.IH [of "merge_one r m"] Cons.prems r show ?case
    by (auto simp: merge_one_fields split: option.splits)
qed simp

lemma merge_start_fields [simp]:
  "merged_tasks merge_start = []" "merged_backends merge_start = []" "merged_total merge_start = 0"
  by (simp_all add: merge_start_def)

interpretation bound_text: bounded_text push_char bound_loop
  by unfold_locales simp_all

text \<open>What one backend promises of its own list: it reports its newest tasks up to the limit and how
  many it has, or it fails.\<close>

definition reports :: "nat \<Rightarrow> json list \<Rightarrow> string + json \<Rightarrow> bool" where
  "reports limit all result = (case result of
     Inl _ \<Rightarrow> all = []
   | Inr v \<Rightarrow> as_array (jindex v ''tasks'') = Some (take limit (sort_task_list_items all)) \<and>
       as_u64 (jindex v ''total'') = Some (of_nat (length all)))"

lemma reports_tasks: "reports limit all result \<Longrightarrow> view_tasks result = take limit (sort_task_list_items all)"
  by (cases result) (auto simp: reports_def view_tasks_def sort_task_list_items_def)

lemma reports_total: "reports limit all result \<Longrightarrow> view_total result = of_nat (length all)"
  by (cases result) (auto simp: reports_def view_total_def u64_or_zero_def)

lemma reports_all_tasks:
  "list_all2 (\<lambda>all r. reports limit all (snd r)) stores results \<Longrightarrow>
     map (view_tasks \<circ> snd) results = map (\<lambda>all. take limit (sort_key task_list_key all)) stores"
  by (induction rule: list_all2_induct) (simp_all add: reports_tasks sort_task_list_items_def)

lemma reports_all_total:
  "list_all2 (\<lambda>all r. reports limit all (snd r)) stores results \<Longrightarrow>
     (\<Sum>r \<leftarrow> results. view_total (snd r)) = of_nat (length (concat stores))"
  by (induction rule: list_all2_induct) (simp_all add: reports_total)

text \<open>When every available backend reports its newest tasks up to the limit, the merged list is
  exactly the newest tasks, up to the limit, of all the stores together, although no backend's store
  was seen in full. The total is that of all the stores, the truncation flag is set exactly when
  tasks are missing, and each backend is marked available exactly when it answered.\<close>

theorem merge_task_lists_newest:
  assumes "list_all2 (\<lambda>all r. reports limit all (snd r)) stores results"
    and "distinct (map fst results)"
    and "inj_on task_list_key (set (concat stores))"
    and "length (concat stores) < 2 ^ 64"
  shows "jget (merge_task_lists results limit) ''tasks'' =
      Some (JArray (take limit (sort_task_list_items (concat stores)))) \<and>
    jget (merge_task_lists results limit) ''total'' = Some (JNumber (PosInt (of_nat (length (concat stores))))) \<and>
    jget (merge_task_lists results limit) ''truncated'' =
      Some (JBool (length (take limit (sort_task_list_items (concat stores))) < length (concat stores))) \<and>
    (\<forall>b. jget (jindex (merge_task_lists results limit) ''backends'') (backend_name b) =
      map_option backend_entry (map_of results b))"
proof -
  have tasks: "take limit (sort_key task_list_key (merged_tasks (fold merge_one results merge_start))) =
      take limit (sort_key task_list_key (concat stores))"
    using take_sort_concat [of task_list_key "[]" stores limit] assms(3)
    by (simp add: merge_fold_tasks reports_all_tasks [OF assms(1)])
  have total: "merged_total (fold merge_one results merge_start) = of_nat (length (concat stores))"
    by (simp add: merge_fold_total reports_all_total [OF assms(1)])
  have "unat (of_nat (length (concat stores)) :: u64) = length (concat stores)"
    using assms(4) by (simp add: unsigned_of_nat take_bit_nat_eq_self)
  with tasks total merge_fold_backends [OF assms(2), of merge_start] show ?thesis
    by (auto simp: merge_task_lists_def Let_def jget_def jindex_def sort_task_list_items_def
        split: option.splits)
qed

text \<open>The rendered failure of a backend is at most 259 bytes: the text itself when it has at most
  256 bytes, otherwise whole characters of its beginning followed by an ellipsis.\<close>

theorem bound_task_list_error_prefix:
  assumes "concat (map push_char (str_chars e)) = e"
  shows "length (bound_task_list_error e) \<le> 259 \<and>
    (length e \<le> 256 \<longrightarrow> bound_task_list_error e = e) \<and>
    (256 < length e \<longrightarrow> (\<exists>n < length (str_chars e).
       bound_task_list_error e = concat (map push_char (take n (str_chars e))) @ ellipsis))"
proof -
  from bound_text.append_prefix [of "[]" "str_chars e"] assms obtain n
    where n: "bound_task_list_error e =
        concat (map push_char (take n (str_chars e))) @ (if n < length (str_chars e) then ellipsis else [])"
      "n < length (str_chars e) \<longleftrightarrow> length e > 256"
    by (auto simp: bound_task_list_error_def)
  have "length (bound_task_list_error e) \<le> 259"
    by (simp add: bound_task_list_error_def bound_text.append_bound)
  with n assms show ?thesis by (cases "length e > 256") auto
qed

section \<open>Witnesses\<close>

definition sample_item :: "string \<Rightarrow> u64 \<Rightarrow> json" where
  "sample_item i t = JObject [(''task_id'', JString i), (''last_updated_at'', JNumber (PosInt t))]"

definition sample_view :: "json list \<Rightarrow> u64 \<Rightarrow> json" where
  "sample_view items n = JObject [(''tasks'', JArray items), (''total'', JNumber (PosInt n)),
     (''skipped'', JNumber (PosInt 0))]"

lemma sample_item_key [simp]: "task_list_key (sample_item i t) = (not t, i)"
  by (simp add: task_list_key_def sample_item_def u64_or_zero_def str_or_default_def jindex_def jget_def
      as_u64_def as_str_def)

definition sample_results :: "(backend \<times> (string + json)) list" where
  "sample_results = [(Codex, Inr (sample_view [sample_item ''b'' 7] 2)), (OpenCode, Inl ''down''),
     (DevinAcp, Inr (sample_view [sample_item ''c'' 9] 1))]"

definition sample_stores :: "json list list" where
  "sample_stores = [[sample_item ''a'' 3, sample_item ''b'' 7], [], [sample_item ''c'' 9]]"

lemma sample_sorts:
  "sort_task_list_items [sample_item ''a'' 3, sample_item ''b'' 7] = [sample_item ''b'' 7, sample_item ''a'' 3]"
  "sort_task_list_items [sample_item ''c'' 9] = [sample_item ''c'' 9]"
  "sort_task_list_items (concat sample_stores) =
     [sample_item ''c'' 9, sample_item ''b'' 7, sample_item ''a'' 3]"
  by (simp_all add: sort_task_list_items_def sort_key_def less_eq_prod_def sample_stores_def)

theorem merge_task_lists_newest_witness:
  "jget (merge_task_lists sample_results 1) ''tasks'' = Some (JArray [sample_item ''c'' 9]) \<and>
   jget (merge_task_lists sample_results 1) ''truncated'' = Some (JBool True)"
proof -
  have "list_all2 (\<lambda>all r. reports 1 all (snd r)) sample_stores sample_results"
    by (simp add: sample_stores_def sample_results_def reports_def sample_sorts sample_view_def
        jindex_def jget_def as_array_def as_u64_def)
  moreover have "distinct (map fst sample_results)" by (simp add: sample_results_def)
  moreover have "inj_on task_list_key (set (concat sample_stores))"
    by (auto simp: sample_stores_def)
  moreover have "length (concat sample_stores) < 2 ^ 64" by (simp add: sample_stores_def)
  ultimately show ?thesis
    using merge_task_lists_newest [of 1 sample_stores sample_results]
    by (simp add: sample_sorts) (simp add: sample_stores_def)
qed

theorem bound_task_list_error_prefix_witness: "bound_task_list_error ''down'' = ''down''"
  using bound_task_list_error_prefix [OF ascii_reencodes, of "''down''"] by simp

end
