(* ===== verification/Task_Wait.thy ===== *)
theory Task_Wait
  imports Json
begin

text \<open>
  The bounded wait for a task update (\<^verbatim>\<open>src/src/orchestration/wait.rs\<close>). Time is a natural number of
  nanoseconds since the call. What the runtime decides is an environment: for the \<open>k\<close>-th probe how
  long it took and whether it answered before \<^verbatim>\<open>timeout_at\<close> gave it up, and for the \<open>k\<close>-th sleep
  how late it woke. The doubling \<^verbatim>\<open>interval\<close> of iteration \<open>k\<close> is \<open>backoff k\<close>.

  The loop is a total function: it terminates in every environment, since an iteration that continues
  has slept at least half a second. The lemmas bound its probes and say exactly what it returns.
\<close>

section \<open>The loop\<close>

definition millis :: "nat \<Rightarrow> nat" where "millis n = n * 1000000"

fun backoff :: "nat \<Rightarrow> nat" where
  "backoff 0 = millis 500"
| "backoff (Suc k) = min (backoff k * 2) (millis 2000)"

record wait_env =
  probe :: "nat \<Rightarrow> nat \<times> (string + json) option"
  oversleep :: "nat \<Rightarrow> nat"

text \<open>A view the caller must see: no cursor, a moved revision, a status other than the quiet ones, or
  a sign of uncertainty.\<close>

definition needs_attention :: "u64 option \<Rightarrow> json \<Rightarrow> bool" where
  "needs_attention after_revision view =
     (let revision = Option.bind (jget view ''revision'') as_u64;
          status = Option.bind (jget view ''status'') as_str
      in after_revision = None \<or> revision \<noteq> after_revision
         \<or> status \<notin> {Some ''running'', Some ''accepted'', Some ''not_modified''}
         \<or> (case jget view ''recovery_state'' of None \<Rightarrow> False | Some state \<Rightarrow> state \<noteq> JNull)
         \<or> Option.bind (jget view ''reconciliation_required'') as_bool = Some True
         \<or> Option.bind (jget view ''reconciliation_deferred'') as_bool = Some True)"

definition timeout_result :: "string \<Rightarrow> u64 option \<Rightarrow> json" where
  "timeout_result task_id last_revision = JObject
     ([(''task_id'', JString task_id),
       (''status'', JString (if last_revision \<noteq> None then ''not_modified'' else ''wait_timeout'')),
       (''wait'', JObject [(''outcome'', JString ''timeout'')])] @
      (case last_revision of None \<Rightarrow> [] | Some r \<Rightarrow> [(''revision'', JNumber (PosInt r))]))"

text \<open>The result with the number of probes made and the time of the return.\<close>

record wait_outcome =
  wait_result :: "string + json"
  wait_probes :: nat
  wait_end :: nat

lemma backoff_pos: "0 < backoff k"
  by (induction k) (simp_all add: millis_def)

function wait_loop ::
  "wait_env \<Rightarrow> string \<Rightarrow> u64 option \<Rightarrow> nat \<Rightarrow> nat \<Rightarrow> nat \<Rightarrow> u64 option \<Rightarrow> wait_outcome" where
  "wait_loop E task_id after_revision deadline k now last_revision =
     (let probed = now + fst (probe E k) in
      case snd (probe E k) of
        None \<Rightarrow> \<lparr>wait_result = Inr (timeout_result task_id last_revision),
          wait_probes = Suc k, wait_end = probed\<rparr>
      | Some (Inl e) \<Rightarrow> \<lparr>wait_result = Inl e, wait_probes = Suc k, wait_end = probed\<rparr>
      | Some (Inr view) \<Rightarrow>
          if needs_attention after_revision view
          then \<lparr>wait_result = Inr view, wait_probes = Suc k, wait_end = probed\<rparr>
          else
            (let revision = Option.bind (jget view ''revision'') as_u64;
                 woken = max probed (min (probed + backoff k) deadline) + oversleep E k
             in if deadline \<le> woken
                then \<lparr>wait_result = Inr (timeout_result task_id revision),
                  wait_probes = Suc k, wait_end = woken\<rparr>
                else wait_loop E task_id after_revision deadline (Suc k) woken revision))"
  by pat_completeness auto

termination
proof (relation "measure (\<lambda>(E, task_id, after_revision, deadline, k, now, last_revision). deadline - now)")
  show "wf (measure (\<lambda>(E, task_id, after_revision, deadline, k, now, last_revision). deadline - now))"
    by simp
next
  fix E task_id after_revision deadline k now last_revision probed x view revision woken
  assume p: "probed = now + fst (probe E k)"
    and w: "woken = max probed (min (probed + backoff k) deadline) + oversleep E k"
    and d: "\<not> deadline \<le> woken"
  from w d p backoff_pos [of k] show "((E, task_id, after_revision, deadline, Suc k, woken, revision),
      E, task_id, after_revision, deadline, k, now, last_revision)
    \<in> measure (\<lambda>(E, task_id, after_revision, deadline, k, now, last_revision). deadline - now)"
    by auto
qed

declare wait_loop.simps [simp del]

definition for_update :: "wait_env \<Rightarrow> string \<Rightarrow> u64 option \<Rightarrow> u64 \<Rightarrow> wait_outcome" where
  "for_update E task_id after_revision wait_ms =
     wait_loop E task_id after_revision (millis (unat wait_ms)) 0 0 None"

section \<open>What the wait returns\<close>

definition quiet :: "wait_env \<Rightarrow> u64 option \<Rightarrow> nat \<Rightarrow> bool" where
  "quiet E after_revision j \<longleftrightarrow>
     (\<exists>v. snd (probe E j) = Some (Inr v) \<and> \<not> needs_attention after_revision v)"

lemma quiet_revision:
  "\<not> needs_attention after_revision v \<Longrightarrow>
     Option.bind (jget v ''revision'') as_u64 = after_revision \<and> after_revision \<noteq> None"
  by (auto simp: needs_attention_def Let_def)

text \<open>The verdict on the last probe, given the revision known before it.\<close>

definition last_verdict :: "wait_env \<Rightarrow> string \<Rightarrow> u64 option \<Rightarrow> nat \<Rightarrow> u64 option \<Rightarrow> wait_outcome \<Rightarrow> bool" where
  "last_verdict E task_id after_revision deadline known w =
     (case snd (probe E (wait_probes w - 1)) of
        Some (Inl e) \<Rightarrow> wait_result w = Inl e
      | Some (Inr v) \<Rightarrow>
          if needs_attention after_revision v then wait_result w = Inr v
          else wait_result w = Inr (timeout_result task_id after_revision) \<and> deadline \<le> wait_end w
      | None \<Rightarrow> wait_result w = Inr (timeout_result task_id known))"

text \<open>One iteration: the loop stops with a verdict on this probe, or the probe was quiet and the loop
  goes on at a later time, still before the deadline.\<close>

lemma wait_loop_step:
  obtains (stop) w where "wait_loop E i a d k now known = w" "wait_probes w = Suc k"
      "last_verdict E i a d known w"
  | (more) woken where "quiet E a k" "now + backoff k \<le> woken" "woken < d"
      "wait_loop E i a d k now known = wait_loop E i a d (Suc k) woken a"
proof (cases "snd (probe E k)")
  case None
  then show ?thesis
    by (intro stop [OF refl]) (simp_all add: wait_loop.simps [of E i a d k] last_verdict_def)
next
  case (Some r)
  show ?thesis
  proof (cases r)
    case (Inl e)
    with Some show ?thesis
      by (intro stop [OF refl]) (simp_all add: wait_loop.simps [of E i a d k] last_verdict_def)
  next
    case (Inr v)
    show ?thesis
    proof (cases "needs_attention a v")
      case True
      with Some Inr show ?thesis
        by (intro stop [OF refl]) (simp_all add: wait_loop.simps [of E i a d k] last_verdict_def)
    next
      case False
      define probed where "probed = now + fst (probe E k)"
      define woken where "woken = max probed (min (probed + backoff k) d) + oversleep E k"
      from False Some Inr have loop: "wait_loop E i a d k now known =
          (if d \<le> woken then \<lparr>wait_result = Inr (timeout_result i a), wait_probes = Suc k, wait_end = woken\<rparr>
           else wait_loop E i a d (Suc k) woken a)"
        using quiet_revision [OF False]
        by (simp add: wait_loop.simps [of E i a d k] Let_def probed_def woken_def)
      show ?thesis
      proof (cases "d \<le> woken")
        case True
        with loop False Some Inr show ?thesis
          by (intro stop [OF refl]) (simp_all add: last_verdict_def)
      next
        case late: False
        have "now + backoff k \<le> woken" using late by (auto simp: woken_def probed_def)
        with loop False Some Inr late show ?thesis by (intro more [of woken]) (auto simp: quiet_def)
      qed
    qed
  qed
qed

definition slept :: "nat \<Rightarrow> nat" where
  "slept k = (\<Sum>j < k. backoff j)"

lemma wait_loop_spec:
  assumes "slept k \<le> now" and "k = 0 \<or> now < d"
  shows "let w = wait_loop E i a d k now known; n = wait_probes w in
    k < n \<and> (\<forall>j. k \<le> j \<and> j < n - 1 \<longrightarrow> quiet E a j) \<and>
    last_verdict E i a d (if n = Suc k then known else a) w \<and> (n = 1 \<or> slept (n - 1) < d)"
  using assms
proof (induction "d - now" arbitrary: k now known rule: less_induct)
  case less
  show ?case
  proof (cases rule: wait_loop_step [of E i a d k now known])
    case (stop w)
    with less.prems show ?thesis by auto
  next
    case (more woken)
    let ?w = "wait_loop E i a d (Suc k) woken a"
    have "d - woken < d - now" using more(2,3) backoff_pos [of k] by linarith
    moreover have "slept (Suc k) \<le> woken" using less.prems(1) more(2) by (simp add: slept_def)
    ultimately have IH: "Suc k < wait_probes ?w" "\<forall>j. Suc k \<le> j \<and> j < wait_probes ?w - 1 \<longrightarrow> quiet E a j"
      "last_verdict E i a d a ?w" "slept (wait_probes ?w - 1) < d"
      using less.hyps [of woken "Suc k" a] more(3) by (auto simp: Let_def)
    have "quiet E a j" if "k \<le> j" "j < wait_probes ?w - 1" for j
      using IH(2) more(1) that by (cases "j = k") simp_all
    with IH more(4) show ?thesis by (simp add: Let_def)
  qed
qed

lemma backoff_late: "backoff (Suc (Suc k)) = millis 2000"
  by (induction k) (simp_all add: millis_def)

lemma slept_late: "slept (Suc (Suc (Suc k))) = millis (3500 + 2000 * k)"
proof (induction k)
  case 0
  show ?case by (simp add: slept_def millis_def)
next
  case (Suc k)
  have "slept (Suc (Suc (Suc (Suc k)))) = slept (Suc (Suc (Suc k))) + backoff (Suc (Suc (Suc k)))"
    by (simp add: slept_def)
  with Suc show ?case by (simp only: backoff_late) (simp add: millis_def)
qed

lemma for_update_spec:
  "0 < wait_probes (for_update E i a wait_ms)"
  "\<forall>j < wait_probes (for_update E i a wait_ms) - 1. quiet E a j"
  "last_verdict E i a (millis (unat wait_ms))
     (if wait_probes (for_update E i a wait_ms) = 1 then None else a) (for_update E i a wait_ms)"
  "wait_probes (for_update E i a wait_ms) = 1 \<or>
     slept (wait_probes (for_update E i a wait_ms) - 1) < millis (unat wait_ms)"
  using wait_loop_spec [of 0 0 "millis (unat wait_ms)" E i a None]
  by (simp_all add: for_update_def slept_def Let_def)

lemma wait_probes_le: "wait_ms \<le> 30000 \<Longrightarrow> wait_probes (for_update E task_id after_revision wait_ms) \<le> 17"
proof (rule ccontr)
  assume limit: "wait_ms \<le> 30000"
  define n where "n = wait_probes (for_update E task_id after_revision wait_ms)"
  assume "\<not> wait_probes (for_update E task_id after_revision wait_ms) \<le> 17"
  then have n: "18 \<le> n" by (simp add: n_def)
  with for_update_spec(4) [of E task_id after_revision wait_ms]
  have "slept (n - 1) < millis (unat wait_ms)" by (simp add: n_def)
  moreover have "n - 1 = Suc (Suc (Suc (n - 4)))" using n by linarith
  then have "slept (n - 1) = millis (3500 + 2000 * (n - 4))" by (simp only: slept_late)
  moreover have "unat wait_ms \<le> 30000" using limit by (simp add: word_le_nat_alt)
  ultimately show False using n by (simp add: millis_def)
qed

text \<open>The wait decides by its last probe and had nothing to report before it: every earlier probe
  was quiet, an error of the last probe is the error of the wait, a view that needs attention is
  returned as it is, a quiet last view means the deadline has passed, and a probe that was given up
  yields a timeout that names the cursor's revision only if an earlier probe observed it.\<close>

theorem for_update_decides:
  "let w = for_update E task_id after_revision wait_ms; n = wait_probes w in
     0 < n \<and> (\<forall>j < n - 1. quiet E after_revision j) \<and>
     (case snd (probe E (n - 1)) of
        Some (Inl e) \<Rightarrow> wait_result w = Inl e
      | Some (Inr v) \<Rightarrow>
          if needs_attention after_revision v then wait_result w = Inr v
          else wait_result w = Inr (timeout_result task_id after_revision) \<and>
            millis (unat wait_ms) \<le> wait_end w
      | None \<Rightarrow>
          wait_result w = Inr (timeout_result task_id (if n = 1 then None else after_revision)))"
proof -
  define w where "w = for_update E task_id after_revision wait_ms"
  have "0 < wait_probes w" "\<forall>j < wait_probes w - 1. quiet E after_revision j"
    "last_verdict E task_id after_revision (millis (unat wait_ms))
       (if wait_probes w = 1 then None else after_revision) w"
    using for_update_spec [of E task_id after_revision wait_ms] by (simp_all add: w_def)
  then show ?thesis unfolding w_def [symmetric] Let_def last_verdict_def by (intro conjI)
qed

text \<open>A wait of at most 30 seconds, the most the request boundary admits, ends after at most 17
  probes in every environment.\<close>

theorem for_update_probe_bound:
  assumes "wait_ms \<le> 30000"
  shows "wait_probes (for_update E task_id after_revision wait_ms) \<le> 17"
  using assms by (rule wait_probes_le)

definition sample_wait_env :: wait_env where
  "sample_wait_env = \<lparr>probe = (\<lambda>k. (0, Some (Inr (JObject [(''status'', JString ''running''),
     (''revision'', JNumber (PosInt 7))])))), oversleep = (\<lambda>_. 0)\<rparr>"

theorem for_update_probe_bound_witness:
  "wait_probes (for_update sample_wait_env ''t'' (Some 7) 30000) \<le> 17"
  by (rule for_update_probe_bound) simp

definition sample_gone_env :: wait_env where
  "sample_gone_env = \<lparr>probe = (\<lambda>k. (0, Some (Inl ''owner changed''))), oversleep = (\<lambda>_. 0)\<rparr>"

theorem for_update_decides_witness:
  "wait_result (for_update sample_gone_env ''t'' (Some 7) 30000) = Inl ''owner changed'' \<and>
   wait_probes (for_update sample_gone_env ''t'' (Some 7) 30000) = 1"
proof -
  define n where "n = wait_probes (for_update sample_gone_env ''t'' (Some 7) 30000)"
  have noisy: "\<not> quiet sample_gone_env (Some 7) j" for j by (simp add: quiet_def sample_gone_env_def)
  have "0 < n" and all: "\<forall>j < n - 1. quiet sample_gone_env (Some 7) j"
    and res: "wait_result (for_update sample_gone_env ''t'' (Some 7) 30000) = Inl ''owner changed''"
    using for_update_decides [of sample_gone_env "''t''" "Some 7" 30000]
    by (auto simp: Let_def n_def sample_gone_env_def)
  from all noisy have "n - 1 = 0" by blast
  with \<open>0 < n\<close> res show ?thesis by (simp add: n_def)
qed

end
