(* ===== verification/Task_Invoke.thy ===== *)
theory Task_Invoke
  imports Task_List Task_Wait Activity_Scope
begin

text \<open>
  The entry point of every task operation, \<^verbatim>\<open>invoke\<close> of \<^verbatim>\<open>src/src/orchestration.rs\<close>, with the
  approval step \<^verbatim>\<open>authorize\<close> and \<^verbatim>\<open>ensure_local_approval_with_activity\<close> of
  \<^verbatim>\<open>approvals.rs\<close>. A run is its list of effects, in order, and its result; an early return keeps the
  effects it had. What the surroundings answer is the record \<open>surroundings\<close>: the bound-Change admission
  checks, the preparation lookup, the person at the approval console, the backend and the clock of a
  bounded wait.
\<close>

section \<open>Runs\<close>

datatype effect =
    BoundTaskAdmission string
  | PreparationLookup
  | BoundStartCheck
  | InstructionRecorded
  | BoundControlCheck string
  | ActivityCall scope_call
  | ApprovalRequested bool string approval
  | Dispatched operation json
  | ViewObserved json
  | OutcomeRecorded bool

type_synonym 'a run = "effect list \<times> (string + 'a)"

definition run_bind :: "'a run \<Rightarrow> ('a \<Rightarrow> 'b run) \<Rightarrow> 'b run" where
  "run_bind r f = (case snd r of
     Inl e \<Rightarrow> (fst r, Inl e)
   | Inr x \<Rightarrow> (fst r @ fst (f x), snd (f x)))"

definition perform :: "effect \<Rightarrow> string + 'a \<Rightarrow> 'a run" where
  "perform e r = ([e], r)"

definition check :: "bool \<Rightarrow> string \<Rightarrow> unit run" where
  "check b e = ([], ensure b e (Inr ()))"

definition pure :: "'a \<Rightarrow> 'a run" where
  "pure x = ([], Inr x)"

definition when_run :: "bool \<Rightarrow> unit run \<Rightarrow> unit run" where
  "when_run b r = (if b then r else pure ())"

text \<open>The two checks of a control are two calls, one before the approval and one at the backend.\<close>

record surroundings =
  from_change_cli :: bool
  mode :: permission_mode
  has_activity :: bool
  bound_task_admission :: "string \<Rightarrow> string + unit"
  preparation_lookup :: "string + bool"
  authorize_bound_start :: "string + unit"
  authorize_bound_control :: "bool \<Rightarrow> string \<Rightarrow> string + unit"
  ask_approval :: "bool \<Rightarrow> string \<Rightarrow> approval \<Rightarrow> string + bool"
  backend_call :: "operation \<Rightarrow> json \<Rightarrow> string + json"
  waiting :: wait_env
  observe_bound_task_view :: "json \<Rightarrow> string + unit"

section \<open>Approval\<close>

definition activity_call :: "surroundings \<Rightarrow> scope_call \<Rightarrow> unit run" where
  "activity_call E c = when_run (has_activity E) (perform (ActivityCall c) (Inr ()))"

definition ensure_local_approval_with_activity ::
  "surroundings \<Rightarrow> approval_class \<Rightarrow> string \<Rightarrow> approval \<Rightarrow> bool run" where
  "ensure_local_approval_with_activity E class name approval =
     (case local_approval (mode E) class of
        Skip \<Rightarrow> pure True
      | Request \<Rightarrow>
          run_bind (activity_call E SetWaitingApproval) (\<lambda>_.
          perform (ApprovalRequested False name approval) (ask_approval E False name approval))
      | RequestUser \<Rightarrow>
          run_bind (activity_call E SetWaitingApproval) (\<lambda>_.
          perform (ApprovalRequested True name approval) (ask_approval E True name approval)))"

definition finish_activity_approval :: "surroundings \<Rightarrow> bool \<Rightarrow> string \<Rightarrow> unit run" where
  "finish_activity_approval E approved denial_text =
     (if \<not> approved then
        run_bind (activity_call E (FailWithSummary (Failure ApprovalDenied))) (\<lambda>_.
        check False denial_text)
      else activity_call E SetRunning)"

definition authorize :: "surroundings \<Rightarrow> backend \<Rightarrow> operation \<Rightarrow> approval \<Rightarrow> unit run" where
  "authorize E b op approval =
     run_bind (ensure_local_approval_with_activity E (approval_class b) (operation_name b op) approval)
       (\<lambda>approved. finish_activity_approval E approved (denial b))"

section \<open>Dispatch\<close>

definition backend_task_control :: "surroundings \<Rightarrow> json \<Rightarrow> json run" where
  "backend_task_control E args =
     (case Option.bind (jget args ''action'') as_str of
        None \<Rightarrow> ([], Inl ''task control action missing at backend admission'')
      | Some action \<Rightarrow>
          run_bind (perform (BoundControlCheck action) (authorize_bound_control E True action)) (\<lambda>_.
          perform (Dispatched operation.TaskControl args) (backend_call E operation.TaskControl args)))"

text \<open>The arguments of the probes of a bounded wait. A probe that finds the session changed or stopped
  is an error answer of the wait environment.\<close>

definition probe_args :: "json \<Rightarrow> json" where
  "probe_args args = (case args of
     JObject entries \<Rightarrow> JObject (filter (\<lambda>(k, _). k \<noteq> ''after_revision'' \<and> k \<noteq> ''wait_ms'') entries)
   | v \<Rightarrow> v)"

definition wait_for_task :: "surroundings \<Rightarrow> task_get_request \<Rightarrow> json \<Rightarrow> json run" where
  "wait_for_task E request args =
     (let w = for_update (waiting E) (get_task_id request) (get_after_revision request) (get_wait_ms request)
      in (replicate (wait_probes w) (Dispatched operation.TaskGet (probe_args args)), wait_result w))"

definition dispatch :: "surroundings \<Rightarrow> backend \<Rightarrow> operation \<Rightarrow> task_request \<Rightarrow> json \<Rightarrow> json run + json run" where
  "dispatch E b op request args = (case request of
     StatusRequest \<Rightarrow>
       (case authorize E b op (status_approval b) of
          (l, Inl e) \<Rightarrow> Inl (l, Inl e)
        | (l, Inr _) \<Rightarrow> Inr (l @ [Dispatched op (JObject [])], backend_call E op (JObject [])))
   | StartRequest r \<Rightarrow>
       (case authorize E b op (task_start_approval r) of
          (l, Inl e) \<Rightarrow> Inl (l, Inl e)
        | (l, Inr _) \<Rightarrow> Inr (l @ [Dispatched op args], backend_call E op args))
   | GetRequest r \<Rightarrow>
       Inr (if get_wait_ms r = 0 then perform (Dispatched op args) (backend_call E op args)
            else wait_for_task E r args)
   | ListRequest \<Rightarrow> Inr (perform (Dispatched op args) (backend_call E op args))
   | ControlRequest r \<Rightarrow>
       (case run_bind (perform (BoundControlCheck (control_action_as_str (control_action r)))
               (authorize_bound_control E False (control_action_as_str (control_action r)))) (\<lambda>_.
             authorize E b op (task_control_approval b r)) of
          (l, Inl e) \<Rightarrow> Inl (l, Inl e)
        | (l, Inr _) \<Rightarrow>
            Inr (l @ fst (backend_task_control E args), snd (backend_task_control E args))))"

definition observe_result :: "surroundings \<Rightarrow> operation \<Rightarrow> string + json \<Rightarrow> json run" where
  "observe_result E op result = (case result of
     Inl e \<Rightarrow> ([], Inl e)
   | Inr view \<Rightarrow>
       if \<not> from_change_cli E \<and> op \<in> {operation.TaskStart, operation.TaskGet, operation.TaskControl} then
         run_bind (perform (ViewObserved view) (observe_bound_task_view E view)) (\<lambda>_. pure view)
       else pure view)"

text \<open>Everything before the approval: parsing, the admission checks and the journal entry.\<close>

definition admit :: "request_crates \<Rightarrow> surroundings \<Rightarrow> backend \<Rightarrow> operation \<Rightarrow> json \<Rightarrow> task_request run" where
  "admit C E b op args =
     run_bind ([], parse C b op args) (\<lambda>request.
     run_bind (case if \<not> from_change_cli E \<and> op \<in> {operation.TaskGet, operation.TaskControl}
                  then Option.bind (jget args ''task_id'') as_str else None of
         None \<Rightarrow> pure () | Some i \<Rightarrow> perform (BoundTaskAdmission i) (bound_task_admission E i)) (\<lambda>_.
     run_bind (when_run (op \<in> {operation.TaskStart, operation.TaskControl})
       (run_bind (perform PreparationLookup (preparation_lookup E)) (\<lambda>managed.
        check (\<not> managed) ''managed preparation sessions require their accepted typed operation''))) (\<lambda>_.
     run_bind (when_run (op = operation.TaskStart) (perform BoundStartCheck (authorize_bound_start E))) (\<lambda>_.
     perform InstructionRecorded (Inr request)))))"

definition conclude :: "surroundings \<Rightarrow> operation \<Rightarrow> json run \<Rightarrow> json run" where
  "conclude E op dispatched =
     (let observed = observe_result E op (snd dispatched)
      in (fst dispatched @ fst observed @ [OutcomeRecorded (is_ok (snd observed))], snd observed))"

text \<open>An error of the authorization leaves \<^verbatim>\<open>invoke\<close> at once (\<open>Inl\<close> of \<open>dispatch\<close>); every other result,
  an error of the backend included, is observed and recorded.\<close>

definition invoke :: "request_crates \<Rightarrow> surroundings \<Rightarrow> backend \<Rightarrow> operation \<Rightarrow> json \<Rightarrow> json run" where
  "invoke C E b op args =
     run_bind (admit C E b op args) (\<lambda>request.
     case dispatch E b op request args of
       Inl refused \<Rightarrow> refused
     | Inr dispatched \<Rightarrow> conclude E op dispatched)"

section \<open>Where effects come from\<close>

definition is_dispatch :: "effect \<Rightarrow> bool" where
  "is_dispatch e = (case e of Dispatched _ _ \<Rightarrow> True | _ \<Rightarrow> False)"

definition is_approval :: "effect \<Rightarrow> bool" where
  "is_approval e = (case e of ApprovalRequested _ _ _ \<Rightarrow> True | _ \<Rightarrow> False)"

definition without :: "(effect \<Rightarrow> bool) \<Rightarrow> 'a run \<Rightarrow> bool" where
  "without P r \<longleftrightarrow> (\<forall>e \<in> set (fst r). \<not> P e)"

lemma snd_run_bind [simp]: "snd (run_bind r f) = and_then (snd r) (\<lambda>x. snd (f x))"
  by (simp add: run_bind_def and_then_def split: sum.splits)

lemma fst_run_bind: "fst (run_bind r f) = fst r @ (case snd r of Inl _ \<Rightarrow> [] | Inr x \<Rightarrow> fst (f x))"
  by (simp add: run_bind_def split: sum.splits)

lemma run_bindE:
  assumes "snd (run_bind r f) = Inr y"
  obtains x where "snd r = Inr x" "snd (f x) = Inr y" "fst (run_bind r f) = fst r @ fst (f x)"
  using assms by (auto simp: run_bind_def split: sum.splits)

lemma without_bind [simp]: "without P r \<Longrightarrow> (\<And>x. snd r = Inr x \<Longrightarrow> without P (f x)) \<Longrightarrow> without P (run_bind r f)"
  by (cases "snd r") (auto simp: without_def fst_run_bind)

lemma without_simps [simp]:
  "without P (pure x)" "without P (check b e)" "without P ([], r)"
  "without P (perform x' r') \<longleftrightarrow> \<not> P x'"
  by (simp_all add: without_def pure_def check_def perform_def)

lemma without_when [simp]: "(b \<Longrightarrow> without P r) \<Longrightarrow> without P (when_run b r)"
  by (simp add: when_run_def)

lemma snd_simps [simp]:
  "snd (pure x) = Inr x" "snd (perform e r) = r" "snd (check b m) = ensure b m (Inr ())"
  by (simp_all add: pure_def perform_def check_def)

lemma snd_when [simp]: "snd (when_run b r) = Inr () \<longleftrightarrow> (b \<longrightarrow> snd r = Inr ())"
  by (simp add: when_run_def)

lemma admit_without: "without is_dispatch (admit C E b op args)" "without is_approval (admit C E b op args)"
  by (auto simp: admit_def is_dispatch_def is_approval_def split: option.split)

lemma authorize_without: "without is_dispatch (authorize E b op approval)"
  by (auto simp: authorize_def ensure_local_approval_with_activity_def finish_activity_approval_def
      activity_call_def is_dispatch_def split: local_approval.split)

lemma local_approval_backend:
  "local_approval m (approval_class b) = (if m = Ask then Request else Skip)"
  by (cases b; cases m) (simp_all add: local_approval_def approval_class_def)

lemma authorize_Inr:
  assumes "snd (authorize E b op approval) = Inr u"
  shows "mode E = Ask \<longrightarrow> ask_approval E False (operation_name b op) approval = Inr True \<and>
    ApprovalRequested False (operation_name b op) approval \<in> set (fst (authorize E b op approval))"
  using assms
  by (auto simp: authorize_def ensure_local_approval_with_activity_def local_approval_backend
      finish_activity_approval_def fst_run_bind perform_def split: if_split_asm sum.split)

lemma filter_without: "without P r \<Longrightarrow> filter P (fst r) = []"
  by (simp add: without_def filter_empty_conv)

lemma probes_bound:
  "get_wait_ms r \<le> 30000 \<Longrightarrow> length (fst (wait_for_task E r args)) \<le> 17"
  by (simp add: wait_for_task_def Let_def wait_probes_le)

lemma dispatch_Inl:
  assumes "dispatch E b op request args = Inl refused"
  shows "without is_dispatch refused \<and> (\<exists>e. snd refused = Inl e)"
proof -
  have auth: "without is_dispatch (l, r')" if "authorize E b op a = (l, r)" for a l r and r' :: "string + json"
    using authorize_without [of E b op a] that by (simp add: without_def)
  show ?thesis
  proof (cases request)
    case (ControlRequest x)
    then show ?thesis
      using assms authorize_without [of E b op "task_control_approval b x"]
      by (auto simp: dispatch_def run_bind_def perform_def without_def is_dispatch_def
          split: sum.split_asm)
  qed (use assms in \<open>auto simp: dispatch_def split: prod.split_asm sum.split_asm dest!: auth\<close>)
qed

text \<open>A dispatch that went through its authorization: the approval comes before what is sent.\<close>

definition approved_dispatch :: "surroundings \<Rightarrow> backend \<Rightarrow> operation \<Rightarrow> task_request \<Rightarrow> effect list \<Rightarrow> bool" where
  "approved_dispatch E b op request log \<longleftrightarrow>
     (\<forall>a. request_approval b request = Some a \<longrightarrow>
        snd (authorize E b op a) = Inr () \<and>
        (\<exists>pre post. log = pre @ fst (authorize E b op a) @ post \<and> (\<forall>e \<in> set pre. \<not> is_dispatch e)))"

lemma approved_dispatchI:
  "request_approval b request = Some a \<Longrightarrow> authorize E b op a = (l, Inr u) \<Longrightarrow>
     (\<forall>e \<in> set pre. \<not> is_dispatch e) \<Longrightarrow> approved_dispatch E b op request (pre @ l @ post)"
  by (auto simp: approved_dispatch_def)

lemma control_dispatches:
  "length (filter is_dispatch (fst (backend_task_control E args))) \<le> 1"
  "Dispatched x y \<in> set (fst (backend_task_control E args)) \<Longrightarrow> x = operation.TaskControl"
  by (auto simp: backend_task_control_def fst_run_bind perform_def is_dispatch_def
      split: option.split_asm option.split sum.split_asm sum.split)

lemma authorize_filter: "authorize E b op a = (l, r) \<Longrightarrow> filter is_dispatch l = []"
  using filter_without [OF authorize_without [of E b op a]] by simp

lemma authorize_member: "authorize E b op a = (l, r) \<Longrightarrow> Dispatched x y \<notin> set l"
  using authorize_without [of E b op a] by (auto simp: without_def is_dispatch_def)

lemma dispatch_Inr:
  assumes wf: "request_wf C b op request" and run: "dispatch E b op request args = Inr r"
  shows "approved_dispatch E b op request (fst r) \<and>
    length (filter is_dispatch (fst r)) \<le> (if op = operation.TaskGet then 17 else 1) \<and>
    (\<forall>x y. Dispatched x y \<in> set (fst r) \<longrightarrow> x = op)"
proof (cases request)
  case StatusRequest
  then obtain l u where l: "authorize E b op (status_approval b) = (l, Inr u)"
    and r: "fst r = [] @ l @ [Dispatched op (JObject [])]"
    using run by (auto simp: dispatch_def split: prod.split_asm sum.split_asm)
  have "approved_dispatch E b op request (fst r)"
    unfolding r using StatusRequest l by (intro approved_dispatchI) (simp_all add: request_approval_def)
  with r authorize_filter [OF l] authorize_member [OF l] show ?thesis by (simp add: is_dispatch_def)
next
  case (StartRequest x)
  then obtain l u where l: "authorize E b op (task_start_approval x) = (l, Inr u)"
    and r: "fst r = [] @ l @ [Dispatched op args]"
    using run by (auto simp: dispatch_def split: prod.split_asm sum.split_asm)
  have "approved_dispatch E b op request (fst r)"
    unfolding r using StartRequest l by (intro approved_dispatchI) (simp_all add: request_approval_def)
  with r authorize_filter [OF l] authorize_member [OF l] show ?thesis by (simp add: is_dispatch_def)
next
  case (GetRequest x)
  with run have r: "r = (if get_wait_ms x = 0 then perform (Dispatched op args) (backend_call E op args)
      else wait_for_task E x args)" by (simp add: dispatch_def)
  from wf GetRequest have op: "op = operation.TaskGet" "get_wait_ms x \<le> 30000" by (simp_all add: request_wf_def)
  have "length (filter is_dispatch (fst (wait_for_task E x args))) \<le> 17"
    using probes_bound [OF op(2), of E args] length_filter_le le_trans by blast
  with r op GetRequest show ?thesis
    by (auto simp: approved_dispatch_def request_approval_def perform_def is_dispatch_def wait_for_task_def Let_def)
next
  case ListRequest
  with run show ?thesis
    by (auto simp: approved_dispatch_def request_approval_def perform_def is_dispatch_def dispatch_def)
next
  case (ControlRequest x)
  with wf have op: "op = operation.TaskControl" by (simp add: request_wf_def)
  define word where "word = control_action_as_str (control_action x)"
  obtain l v where a: "authorize E b op (task_control_approval b x) = (l, v)" by fastforce
  with ControlRequest run obtain u where l: "authorize E b op (task_control_approval b x) = (l, Inr u)"
    and r: "fst r = [BoundControlCheck word] @ l @ fst (backend_task_control E args)"
    by (auto simp: dispatch_def run_bind_def perform_def word_def split: sum.split_asm)
  have "approved_dispatch E b op request (fst r)"
    unfolding r using ControlRequest l
    by (intro approved_dispatchI) (simp_all add: request_approval_def is_dispatch_def)
  with r authorize_filter [OF l] authorize_member [OF l] control_dispatches(1) [of E args] control_dispatches(2) op show ?thesis
    by (auto simp: is_dispatch_def)
qed

section \<open>Properties\<close>

definition needs_approval :: "operation \<Rightarrow> bool" where
  "needs_approval op \<longleftrightarrow> op \<in> {Status, operation.TaskStart, operation.TaskControl}"

lemma request_approval_iff:
  "request_wf C b op request \<Longrightarrow> request_approval b request \<noteq> None \<longleftrightarrow> needs_approval op"
  by (cases request) (auto simp: request_wf_def request_approval_def needs_approval_def)

text \<open>The task a request is about: what the admission of a bound task is asked for.\<close>

definition request_task :: "task_request \<Rightarrow> string option" where
  "request_task request = (case request of
     GetRequest r \<Rightarrow> Some (get_task_id r)
   | ControlRequest r \<Rightarrow> Some (control_task_id r)
   | _ \<Rightarrow> None)"

lemma parse_task_id:
  assumes "parse C b op args = Inr request" and "request_task request = Some i"
  shows "op \<in> {operation.TaskGet, operation.TaskControl} \<and> Option.bind (jget args ''task_id'') as_str = Some i"
  using assms
  by (cases op) (auto simp: parse_def request_task_def parse_task_get_def required_uuid_Inr parse_task_control_Inr)

lemma admit_Inr:
  assumes "snd (admit C E b op args) = Inr request"
  shows "parse C b op args = Inr request" "InstructionRecorded \<in> set (fst (admit C E b op args))"
    and "op \<in> {operation.TaskStart, operation.TaskControl} \<Longrightarrow>
      preparation_lookup E = Inr False \<and> PreparationLookup \<in> set (fst (admit C E b op args))"
    and "op = operation.TaskStart \<Longrightarrow>
      authorize_bound_start E = Inr () \<and> BoundStartCheck \<in> set (fst (admit C E b op args))"
    and "request_task request = Some i \<Longrightarrow> \<not> from_change_cli E \<Longrightarrow>
      bound_task_admission E i = Inr () \<and> BoundTaskAdmission i \<in> set (fst (admit C E b op args))"
proof -
  define task where "task = (if \<not> from_change_cli E \<and> op \<in> {operation.TaskGet, operation.TaskControl}
    then Option.bind (jget args ''task_id'') as_str else None)"
  define bound where "bound = (case task of None \<Rightarrow> pure () | Some i \<Rightarrow> perform (BoundTaskAdmission i) (bound_task_admission E i))"
  define lookup where "lookup = when_run (op \<in> {operation.TaskStart, operation.TaskControl})
    (run_bind (perform PreparationLookup (preparation_lookup E)) (\<lambda>managed.
      check (\<not> managed) ''managed preparation sessions require their accepted typed operation''))"
  define start where "start = when_run (op = operation.TaskStart) (perform BoundStartCheck (authorize_bound_start E))"
  have eq: "admit C E b op args = run_bind ([], parse C b op args) (\<lambda>request. run_bind bound (\<lambda>_. run_bind lookup (\<lambda>_.
      run_bind start (\<lambda>_. perform InstructionRecorded (Inr request)))))"
    by (simp add: admit_def bound_def task_def lookup_def start_def)
  from assms show parsed: "parse C b op args = Inr request"
    unfolding eq by (auto elim!: run_bindE simp: perform_def)
  from assms have ok: "snd bound = Inr ()" "snd lookup = Inr ()" "snd start = Inr ()"
    unfolding eq by (auto elim!: run_bindE)
  then have log: "fst (admit C E b op args) = fst bound @ fst lookup @ fst start @ [InstructionRecorded]"
    unfolding eq using parsed by (simp add: fst_run_bind perform_def)
  show "InstructionRecorded \<in> set (fst (admit C E b op args))" by (simp add: log)
  show "preparation_lookup E = Inr False \<and> PreparationLookup \<in> set (fst (admit C E b op args))"
    if "op \<in> {operation.TaskStart, operation.TaskControl}"
  proof -
    have "lookup = run_bind (perform PreparationLookup (preparation_lookup E)) (\<lambda>managed.
      check (\<not> managed) ''managed preparation sessions require their accepted typed operation'')"
      using that by (simp only: lookup_def when_run_def if_True)
    with ok(2) have "preparation_lookup E = Inr False \<and> PreparationLookup \<in> set (fst lookup)"
      by (auto elim!: run_bindE simp: fst_run_bind perform_def check_def)
    then show ?thesis by (simp add: log)
  qed
  show "authorize_bound_start E = Inr () \<and> BoundStartCheck \<in> set (fst (admit C E b op args))"
    if "op = operation.TaskStart"
  proof -
    have "start = perform BoundStartCheck (authorize_bound_start E)" using that by (simp add: start_def when_run_def)
    with ok(3) show ?thesis by (simp add: log perform_def)
  qed
  show "bound_task_admission E i = Inr () \<and> BoundTaskAdmission i \<in> set (fst (admit C E b op args))"
    if "request_task request = Some i" "\<not> from_change_cli E"
  proof -
    have "task = Some i" using parse_task_id [OF parsed that(1)] that(2) by (simp add: task_def)
    with ok(1) show ?thesis by (simp add: log bound_def perform_def)
  qed
qed

text \<open>A control that reaches the backend went through both of its checks, one before the approval and
  one behind it.\<close>

lemma control_dispatched:
  assumes parsed: "parse C b op args = Inr (ControlRequest x)" and run: "dispatch E b op (ControlRequest x) args = Inr r"
    and sent: "Dispatched y z \<in> set (fst r)" and w: "w = control_action_as_str (control_action x)"
  shows "authorize_bound_control E False w = Inr () \<and> authorize_bound_control E True w = Inr () \<and>
    fst r = [BoundControlCheck w] @ fst (authorize E b op (task_control_approval b x)) @
      [BoundControlCheck w, Dispatched operation.TaskControl args]"
proof -
  have word: "Option.bind (jget args ''action'') as_str = Some w"
    using parsed w by (cases op) (auto simp: parse_def parse_task_control_Inr)
  obtain l v where a: "authorize E b op (task_control_approval b x) = (l, v)" by fastforce
  with run obtain u where l: "authorize E b op (task_control_approval b x) = (l, Inr u)"
    and r: "fst r = [BoundControlCheck w] @ l @ fst (backend_task_control E args)"
    and first: "authorize_bound_control E False w = Inr ()"
    by (auto simp: dispatch_def run_bind_def perform_def w split: sum.split_asm)
  have "Dispatched y z \<in> set (fst (backend_task_control E args))"
    using sent r authorize_member [OF l] by auto
  then have "authorize_bound_control E True w = Inr ()"
    "fst (backend_task_control E args) = [BoundControlCheck w, Dispatched operation.TaskControl args]"
    using word by (auto simp: backend_task_control_def fst_run_bind perform_def split: sum.split_asm sum.split)
  with first r l show ?thesis by simp
qed

lemma invoke_cases:
  obtains (rejected) e where "snd (admit C E b op args) = Inl e"
      "invoke C E b op args = (fst (admit C E b op args), Inl e)"
  | (refused) request refused where "snd (admit C E b op args) = Inr request"
      "dispatch E b op request args = Inl refused"
      "invoke C E b op args = (fst (admit C E b op args) @ fst refused, snd refused)"
  | (sent) request r where "snd (admit C E b op args) = Inr request"
      "dispatch E b op request args = Inr r"
      "invoke C E b op args =
         (fst (admit C E b op args) @ fst (conclude E op r), snd (conclude E op r))"
proof (cases "snd (admit C E b op args)")
  case (Inl e)
  then show ?thesis by (intro rejected) (simp_all add: invoke_def run_bind_def)
next
  case (Inr request)
  show ?thesis
  proof (cases "dispatch E b op request args")
    case (Inl r)
    with Inr show ?thesis by (intro refused) (simp_all add: invoke_def run_bind_def)
  next
    case r: (Inr r)
    with Inr show ?thesis by (intro sent) (simp_all add: invoke_def run_bind_def)
  qed
qed

lemma conclude_effects:
  "fst (conclude E op r) = fst r @ fst (observe_result E op (snd r)) @
     [OutcomeRecorded (is_ok (snd (observe_result E op (snd r))))]"
  "without is_dispatch (observe_result E op (snd r))"
  by (auto simp: conclude_def Let_def observe_result_def without_def is_dispatch_def fst_run_bind
      perform_def pure_def split: sum.split)

lemma takeWhile_without:
  "without is_dispatch r \<Longrightarrow>
     takeWhile (\<lambda>e. \<not> is_dispatch e) (fst r @ ys) = fst r @ takeWhile (\<lambda>e. \<not> is_dispatch e) ys"
  by (auto simp: without_def)

text \<open>C16. Nothing reaches a backend unless the request parsed and the instruction was recorded before,
  and every check of its operation was made before and passed: for a start and a control the lookup
  of a managed preparation, for a start the bound-start check, for a get and a control of a caller
  other than the Change command the admission of the bound task named by the request, and for a
  control the bound-control check of its action twice, before the approval and behind it. For an
  operation that needs approval under the asking mode, the person was shown exactly the approval of
  that request beforehand and allowed it.\<close>

theorem invoke_dispatch_gated:
  assumes "Dispatched x y \<in> set (fst (invoke C E b op args))"
  shows "let before = takeWhile (\<lambda>e. \<not> is_dispatch e) (fst (invoke C E b op args))
    in \<exists>request. parse C b op args = Inr request \<and> x = op \<and> InstructionRecorded \<in> set before \<and>
      (op \<in> {operation.TaskStart, operation.TaskControl} \<longrightarrow>
         preparation_lookup E = Inr False \<and> PreparationLookup \<in> set before) \<and>
      (op = operation.TaskStart \<longrightarrow> authorize_bound_start E = Inr () \<and> BoundStartCheck \<in> set before) \<and>
      (op \<in> {operation.TaskGet, operation.TaskControl} \<and> \<not> from_change_cli E \<longrightarrow>
         (\<exists>i. request_task request = Some i \<and> bound_task_admission E i = Inr () \<and> BoundTaskAdmission i \<in> set before)) \<and>
      (op = operation.TaskControl \<longrightarrow>
         (\<exists>r w. request = ControlRequest r \<and> w = control_action_as_str (control_action r) \<and>
            authorize_bound_control E False w = Inr () \<and> authorize_bound_control E True w = Inr () \<and>
            before = fst (admit C E b op args) @ [BoundControlCheck w] @
              fst (authorize E b op (task_control_approval b r)) @ [BoundControlCheck w])) \<and>
      (mode E = Ask \<and> needs_approval op \<longrightarrow>
         (\<exists>a. request_approval b request = Some a \<and>
            ask_approval E False (operation_name b op) a = Inr True \<and>
            ApprovalRequested False (operation_name b op) a \<in> set before))"
proof (cases rule: invoke_cases [of C E b op args])
  case (rejected e)
  with assms admit_without(1) [of C E b op args] show ?thesis
    by (auto simp: without_def is_dispatch_def)
next
  case (refused request refused)
  with assms admit_without(1) [of C E b op args] dispatch_Inl [OF refused(2)] show ?thesis
    by (auto simp: without_def is_dispatch_def)
next
  case (sent request r)
  note admitted = admit_Inr [OF sent(1)]
  note wf = parse_Inr_wf [OF admitted(1)]
  note disp = dispatch_Inr [OF wf sent(2)]
  have log: "takeWhile (\<lambda>e. \<not> is_dispatch e) (fst (invoke C E b op args)) =
      fst (admit C E b op args) @ takeWhile (\<lambda>e. \<not> is_dispatch e) (fst (conclude E op r))"
    by (simp add: sent(3) takeWhile_without [OF admit_without(1)])
  have dispatched: "Dispatched x y \<in> set (fst r)"
    using assms sent(3) admit_without(1) [of C E b op args] conclude_effects [of E op r]
    by (auto simp: without_def is_dispatch_def)
  with disp have x: "x = op" by blast
  have approval: "\<exists>a. request_approval b request = Some a \<and>
      ask_approval E False (operation_name b op) a = Inr True \<and>
      ApprovalRequested False (operation_name b op) a \<in>
        set (takeWhile (\<lambda>e. \<not> is_dispatch e) (fst (conclude E op r)))"
    if "mode E = Ask" "needs_approval op"
  proof -
    from that(2) request_approval_iff [OF wf] obtain a where a: "request_approval b request = Some a" by auto
    with disp obtain pre post where ok: "snd (authorize E b op a) = Inr ()"
      and r: "fst r = pre @ fst (authorize E b op a) @ post" "\<forall>e \<in> set pre. \<not> is_dispatch e"
      by (auto simp: approved_dispatch_def)
    have "takeWhile (\<lambda>e. \<not> is_dispatch e) (fst (conclude E op r)) = pre @ fst (authorize E b op a) @
        takeWhile (\<lambda>e. \<not> is_dispatch e) (post @ fst (observe_result E op (snd r)) @
          [OutcomeRecorded (is_ok (snd (observe_result E op (snd r))))])"
      using r takeWhile_without [OF authorize_without] by (simp add: conclude_effects(1))
    with a authorize_Inr [OF ok] that(1) show ?thesis by auto
  qed
  have bound: "\<exists>i. request_task request = Some i \<and> bound_task_admission E i = Inr () \<and>
      BoundTaskAdmission i \<in> set (fst (admit C E b op args))"
    if "op \<in> {operation.TaskGet, operation.TaskControl}" "\<not> from_change_cli E"
  proof -
    have "\<exists>i. request_task request = Some i"
      using wf that(1) by (cases request) (auto simp: request_wf_def request_task_def)
    then obtain i where "request_task request = Some i" by blast
    with admitted(5) that(2) show ?thesis by blast
  qed
  have control: "\<exists>r w. request = ControlRequest r \<and> w = control_action_as_str (control_action r) \<and>
      authorize_bound_control E False w = Inr () \<and> authorize_bound_control E True w = Inr () \<and>
      takeWhile (\<lambda>e. \<not> is_dispatch e) (fst (invoke C E b op args)) = fst (admit C E b op args) @ [BoundControlCheck w] @
        fst (authorize E b op (task_control_approval b r)) @ [BoundControlCheck w]"
    if "op = operation.TaskControl"
  proof -
    have "\<exists>q. request = ControlRequest q" using wf that by (cases request) (auto simp: request_wf_def)
    then obtain q where q: "request = ControlRequest q" by blast
    have kinds: "is_dispatch (Dispatched p a)" "\<not> is_dispatch (BoundControlCheck v)" for p a v
      by (simp_all add: is_dispatch_def)
    from control_dispatched [OF admitted(1) [unfolded q] sent(2) [unfolded q] dispatched refl] q log show ?thesis
      by (simp add: conclude_effects(1) takeWhile_without [OF authorize_without] kinds)
  qed
  show ?thesis
    unfolding Let_def using admitted(1-4) x log approval bound control
    by (intro exI [of _ request] conjI impI) (simp_all only: Un_iff set_append, blast+)
qed

text \<open>An operation reaches its backend at most once, except that a bounded wait may probe it up to
  17 times; a malformed request has no effect at all.\<close>

theorem invoke_dispatch_bound:
  "length (filter is_dispatch (fst (invoke C E b op args))) \<le> (if op = operation.TaskGet then 17 else 1) \<and>
   (\<forall>e. parse C b op args = Inl e \<longrightarrow> invoke C E b op args = ([], Inl e))"
proof (intro conjI allI impI)
  show "length (filter is_dispatch (fst (invoke C E b op args))) \<le> (if op = operation.TaskGet then 17 else 1)"
  proof (cases rule: invoke_cases [of C E b op args])
    case (rejected e)
    then show ?thesis by (simp add: filter_without [OF admit_without(1)])
  next
    case (refused request refused)
    with dispatch_Inl [OF refused(2)] show ?thesis
      by (simp add: filter_without [OF admit_without(1)] filter_without)
  next
    case (sent request r)
    note wf = parse_Inr_wf [OF admit_Inr(1) [OF sent(1)]]
    from sent dispatch_Inr [OF wf sent(2)] show ?thesis
      by (simp add: filter_without [OF admit_without(1)] conclude_effects(1) is_dispatch_def
          filter_without [OF conclude_effects(2)])
  qed
next
  fix e
  assume "parse C b op args = Inl e"
  then show "invoke C E b op args = ([], Inl e)" by (simp add: invoke_def admit_def run_bind_def)
qed

definition denied_effects :: "surroundings \<Rightarrow> backend \<Rightarrow> operation \<Rightarrow> approval \<Rightarrow> effect list" where
  "denied_effects E b op a =
     (if has_activity E then [ActivityCall SetWaitingApproval] else []) @
     [ApprovalRequested False (operation_name b op) a] @
     (if has_activity E then [ActivityCall (FailWithSummary (Failure ApprovalDenied))] else [])"

lemma authorize_denied:
  assumes "mode E = Ask" and "ask_approval E False (operation_name b op) a = Inr False"
  shows "authorize E b op a = (denied_effects E b op a, Inl (denial b))"
  using assms
  by (simp add: authorize_def ensure_local_approval_with_activity_def local_approval_backend
      finish_activity_approval_def run_bind_def perform_def pure_def check_def activity_call_def
      when_run_def denied_effects_def)

text \<open>C17. A denied operation fails with the denial of its backend and sends nothing. Its log is the
  admission followed by the approval dialogue, which closes the activity as denied, and nothing else:
  the instruction is in the journal and no outcome is.\<close>

theorem invoke_denied:
  assumes "snd (admit C E b op args) = Inr request" and "mode E = Ask"
    and "request_approval b request = Some a"
    and "ask_approval E False (operation_name b op) a = Inr False"
    and "\<And>word. authorize_bound_control E False word = Inr ()"
  shows "snd (invoke C E b op args) = Inl (denial b) \<and>
    (\<exists>pre. fst (invoke C E b op args) = fst (admit C E b op args) @ pre @ denied_effects E b op a \<and>
       pre \<in> {[]} \<union> range (\<lambda>word. [BoundControlCheck word])) \<and>
    InstructionRecorded \<in> set (fst (invoke C E b op args)) \<and>
    (\<forall>e \<in> set (fst (invoke C E b op args)). \<not> is_dispatch e \<and> (\<forall>k. e \<noteq> OutcomeRecorded k))"
proof -
  note auth = authorize_denied [OF assms(2,4)]
  have "\<exists>pre. dispatch E b op request args = Inl (pre @ denied_effects E b op a, Inl (denial b)) \<and>
      pre \<in> {[]} \<union> range (\<lambda>word. [BoundControlCheck word])"
    using assms(3,5) auth
    by (cases request)
      (auto simp: dispatch_def request_approval_def run_bind_def perform_def)
  then obtain pre where d: "dispatch E b op request args = Inl (pre @ denied_effects E b op a, Inl (denial b))"
    and pre: "pre \<in> {[]} \<union> range (\<lambda>word. [BoundControlCheck word])" by blast
  have inv: "invoke C E b op args =
      (fst (admit C E b op args) @ pre @ denied_effects E b op a, Inl (denial b))"
    using assms(1) d by (simp add: invoke_def run_bind_def)
  have "OutcomeRecorded k \<notin> set (fst (admit C E b op args))" for k
    by (auto simp: admit_def fst_run_bind perform_def pure_def check_def when_run_def
        split: sum.split_asm option.split_asm if_split_asm)
  with inv pre admit_Inr(1,2) [OF assms(1)] admit_without(1) [of C E b op args] show ?thesis
    by (auto simp: without_def is_dispatch_def denied_effects_def)
qed

section \<open>Witnesses\<close>

definition sample_surroundings :: "bool \<Rightarrow> surroundings" where
  "sample_surroundings allowed = \<lparr>from_change_cli = False, mode = Ask, has_activity = True,
     bound_task_admission = (\<lambda>_. Inr ()), preparation_lookup = Inr False, authorize_bound_start = Inr (),
     authorize_bound_control = (\<lambda>_ _. Inr ()), ask_approval = (\<lambda>_ _ _. Inr allowed),
     backend_call = (\<lambda>_ _. Inr JNull), waiting = sample_gone_env, observe_bound_task_view = (\<lambda>_. Inr ())\<rparr>"

lemma sample_admit:
  "admit sample_request_crates (sample_surroundings allowed) b Status args =
     ([InstructionRecorded], Inr StatusRequest)"
  by (simp add: admit_def parse_def run_bind_def pure_def perform_def when_run_def)

lemma sample_authorize:
  "authorize (sample_surroundings True) b op a = ([ActivityCall SetWaitingApproval,
     ApprovalRequested False (operation_name b op) a, ActivityCall SetRunning], Inr ())"
proof -
  have "mode (sample_surroundings True) = Ask" "has_activity (sample_surroundings True)"
    "ask_approval (sample_surroundings True) False (operation_name b op) a = Inr True"
    by (simp_all add: sample_surroundings_def)
  then show ?thesis
    by (simp add: authorize_def ensure_local_approval_with_activity_def local_approval_backend
        finish_activity_approval_def activity_call_def when_run_def perform_def run_bind_def)
qed

lemma sample_invoke:
  "Dispatched Status (JObject []) \<in> set (fst (invoke sample_request_crates (sample_surroundings True) Codex Status JNull))"
  by (simp add: invoke_def sample_admit run_bind_def dispatch_def sample_authorize conclude_def Let_def)

theorem invoke_dispatch_gated_witness:
  "ApprovalRequested False ''codex_status'' (status_approval Codex) \<in>
     set (fst (invoke sample_request_crates (sample_surroundings True) Codex Status JNull))"
proof -
  have "mode (sample_surroundings True) = Ask \<and> needs_approval Status"
    by (simp add: sample_surroundings_def needs_approval_def)
  with invoke_dispatch_gated [OF sample_invoke] show ?thesis
    by (auto simp: parse_def request_approval_def operation_name_def operation_prefix_def operation_word_def
        Let_def dest: set_takeWhileD)
qed

theorem invoke_dispatch_bound_witness:
  "invoke sample_request_crates (sample_surroundings True) Codex operation.TaskStart JNull =
     ([], Inl ''missing or invalid operation_id'')"
proof -
  have "parse sample_request_crates Codex operation.TaskStart JNull = Inl ''missing or invalid operation_id''"
    by (simp add: parse_def parse_task_start_def required_uuid_def required_string_def jget_def)
  with invoke_dispatch_bound [of sample_request_crates "sample_surroundings True" Codex operation.TaskStart JNull]
  show ?thesis by blast
qed

theorem invoke_denied_witness:
  "snd (invoke sample_request_crates (sample_surroundings False) Codex Status JNull) =
     Inl ''user denied Codex operation''"
proof -
  have "snd (admit sample_request_crates (sample_surroundings False) Codex Status JNull) = Inr StatusRequest"
    by (simp add: sample_admit)
  moreover have "mode (sample_surroundings False) = Ask"
    "request_approval Codex StatusRequest = Some (status_approval Codex)"
    "ask_approval (sample_surroundings False) False (operation_name Codex Status) (status_approval Codex) = Inr False"
    "\<And>word. authorize_bound_control (sample_surroundings False) False word = Inr ()"
    by (simp_all add: sample_surroundings_def request_approval_def)
  ultimately have "snd (invoke sample_request_crates (sample_surroundings False) Codex Status JNull) = Inl (denial Codex)"
    by (rule invoke_denied [THEN conjunct1])
  then show ?thesis by (simp add: denial_def)
qed

end
