(* ===== verification/Delivery_Start.thy ===== *)
theory Delivery_Start
  imports Delivery Task_Invoke
begin

text \<open>
  The start of a Change delivery, \<^verbatim>\<open>change_delivery_start\<close> of \<^verbatim>\<open>src/src/orchestration.rs\<close>, where the
  Change store, the delivery receipts and the task boundary meet, with
  \<^verbatim>\<open>invoke_codex_task_start_with_admission\<close> below it. Other processes work on the store in the
  meantime: \<open>seen\<close> is the timeline of the acceptance, \<open>st1\<close> the store when the admission closure reads
  it, \<open>st2\<close> when the Change is read again and \<open>st3\<close> when the delegation is recorded. What the Codex backend, the preparation receipts and
  the bound-Change checks answer is the record \<open>delivery_surroundings\<close>, with the rendering of a store
  error; the backend is given the result the admission closure has.
\<close>

section \<open>Definitions\<close>

record delivery_surroundings = surroundings +
  preparation_again :: "string + bool"
  authorize_preparation_task :: "bool \<Rightarrow> json \<Rightarrow> string + unit"
  codex_start :: "json \<Rightarrow> string + unit \<Rightarrow> string + json"
  retained_start :: "json \<Rightarrow> string + json option"
  bound_delivery_admitted :: "change_record \<Rightarrow> string + unit"
  describe :: "anyhow \<Rightarrow> string"

definition invoke_codex_task_start_with_admission ::
  "request_crates \<Rightarrow> delivery_surroundings \<Rightarrow> json \<Rightarrow> string + unit \<Rightarrow> json run" where
  "invoke_codex_task_start_with_admission C E args admission =
     run_bind ([], parse C Codex operation.TaskStart args) (\<lambda>request.
     run_bind (perform PreparationLookup (preparation_lookup E)) (\<lambda>managed.
     run_bind ([], if managed then authorize_preparation_task E False args else Inr ()) (\<lambda>_.
     run_bind (perform InstructionRecorded (Inr ())) (\<lambda>_.
     case request of
       StartRequest r \<Rightarrow>
         run_bind (authorize (surroundings.truncate E) Codex operation.TaskStart (task_start_approval r)) (\<lambda>_.
         (let closure = and_then (preparation_again E) (\<lambda>again.
                and_then (if again then authorize_preparation_task E True args else Inr ()) (\<lambda>_. admission));
              result = codex_start E args closure
          in ([Dispatched operation.TaskStart args, OutcomeRecorded (is_ok result)], result)))
     | _ \<Rightarrow> ([], Inl ''unreachable'')))))"

definition delegated_instruction :: "delivery_step \<Rightarrow> string" where
  "delegated_instruction step =
     ''Deliver Temote Change '' @ ds_change_id step @ '' at exact revision '' @ ds_revision step @
     '' to head ref '' @ ds_head_ref step @ '' with PR base '' @ ds_base_ref step @
     ''. First inspect existing branch and PR state; reconcile the exact head/base/revision before any mutation. Publish only this verified revision and create or update one PR. '' @
     (case ds_method step of
        SinglePr \<Rightarrow> ''No stack link is needed.''
      | StackedPr \<Rightarrow> ''After verifying the parent PR and this PR'' @ [CHR 0x27] @ ''s exact base/head, use the supported gh-stack link operation only if its capability is confirmed; otherwise report unsupported. Return the parent PR number and whether the stack link was observed.'') @
     '' Do not merge, retarget an incompatible PR, force-push, reset, clean, or modify sibling workspaces. Return bounded branch and PR identity evidence. If any effect is uncertain, stop for reconciliation.''"

definition delivery_args ::
  "request_crates \<Rightarrow> uuid \<Rightarrow> delivery_step \<Rightarrow> string \<Rightarrow> string \<Rightarrow> json" where
  "delivery_args C operation_id step model effort =
     JObject [(''operation_id'', JString (uuid_display C operation_id)),
       (''task'', JString (delegated_instruction step)), (''model'', JString model),
       (''effort'', JString effort)]"

definition delivery_admission ::
  "delivery_surroundings \<Rightarrow> change_serde \<Rightarrow> string \<Rightarrow> delivery_plan \<Rightarrow> uuid \<Rightarrow> change_store \<Rightarrow> string + unit" where
  "delivery_admission E S i p operation_id st =
     and_then (map_err (describe E) (get S i st)) (\<lambda>current.
     and_then (bound_delivery_admitted E current) (\<lambda>_.
     ensure ((case cr_delivery current of
          None \<Rightarrow> False
        | Some d \<Rightarrow> dr_operation_id d = operation_id \<and> dr_plan_fingerprint d = dp_fingerprint p \<and>
            dr_state d = delivery_state.Accepted) \<and> cr_writer current = None)
       ''delivery admission changed before delegated startup'' (Inr ())))"

definition reconciliation_required :: string where
  "reconciliation_required =
     ''delivery reconciliation_required: accepted start has no retained task receipt''"

text \<open>The view of the task, newly started or retained, or the receipt itself.\<close>

definition delivery_view_of ::
  "request_crates \<Rightarrow> delivery_surroundings \<Rightarrow> change_serde \<Rightarrow> string \<Rightarrow> delivery_plan \<Rightarrow> uuid \<Rightarrow> json
     \<Rightarrow> delivery_receipt \<Rightarrow> bool \<Rightarrow> change_store \<Rightarrow> (delivery_receipt + json) run" where
  "delivery_view_of C E S i p operation_id args receipt claimed st1 =
     (if claimed then
        run_bind (invoke_codex_task_start_with_admission C E args (delivery_admission E S i p operation_id st1))
          (\<lambda>view. pure (Inr view))
      else if dr_delegated_task_id receipt \<noteq> None then pure (Inl receipt)
      else ([], and_then (retained_start E args) (\<lambda>retained.
        and_then (ok_or retained reconciliation_required) (\<lambda>view. Inr (Inr view)))))"

definition record_task ::
  "delivery_surroundings \<Rightarrow> change_serde \<Rightarrow> string \<Rightarrow> uuid \<Rightarrow> json \<Rightarrow> change_store \<Rightarrow> change_store
     \<Rightarrow> string + (delivery_receipt \<times> change_store)" where
  "record_task E S i operation_id view st2 st3 =
     and_then (ok_or (Option.bind (jget view ''task_id'') as_str)
       ''delivery task accepted without task_id; reconciliation required'') (\<lambda>task_id.
     and_then (map_err (describe E) (get S i st2)) (\<lambda>current.
     map_err (describe E) (record_delegation S i (cr_revision current) operation_id task_id st3)))"

text \<open>The receipt and the store it leaves. A start that fails later has still accepted the delivery.\<close>

definition change_delivery_start ::
  "request_crates \<Rightarrow> (delivery_step list \<Rightarrow> string) \<Rightarrow> delivery_surroundings \<Rightarrow> change_serde \<Rightarrow> string \<Rightarrow> u64
     \<Rightarrow> delivery_plan \<Rightarrow> uuid \<Rightarrow> string \<Rightarrow> string \<Rightarrow> (nat \<Rightarrow> change_store) \<Rightarrow> change_store \<Rightarrow> change_store \<Rightarrow> change_store
     \<Rightarrow> (delivery_receipt \<times> change_store) run" where
  "change_delivery_start C fingerprint E S i expected p operation_id model effort seen st1 st2 st3 =
     run_bind ([], map_err (describe E) (accept_once fingerprint S i expected p operation_id seen))
       (\<lambda>((receipt, claimed), accepted).
     run_bind ([], map_err (\<lambda>_. ''Change absent from delivery plan'') (find_step p i)) (\<lambda>step.
     run_bind (delivery_view_of C E S i p operation_id (delivery_args C operation_id step model effort)
         receipt claimed st1) (\<lambda>v.
     case v of
       Inl kept \<Rightarrow> pure (kept, accepted)
     | Inr view \<Rightarrow> ([], record_task E S i operation_id view st2 st3))))"


section \<open>At most one start\<close>

lemma start_effects_claimed:
  assumes "fst (change_delivery_start C fingerprint E S i v p op m e seen st1 st2 st3) \<noteq> []"
  shows "\<exists>receipt accepted. accept_once fingerprint S i v p op seen = Inr ((receipt, True), accepted)"
  using assms
  by (auto simp: change_delivery_start_def fst_run_bind delivery_view_of_def pure_def
      split: sum.split_asm if_split_asm prod.split_asm)

lemma start_unclaimed:
  assumes "\<And>receipt accepted. accept_once fingerprint S i v p op seen \<noteq> Inr ((receipt, True), accepted)"
  shows "fst (change_delivery_start C fingerprint E S i v p op m e seen st1 st2 st3) = []"
  using assms start_effects_claimed by blast

text \<open>C18. A delivery is started at most once: after a start that had any effect (an approval asked for, a
  task sent, a journal entry), however the store moved on since, no later start of the same Change has
  an effect; it only reports the receipt, adopts the retained task or fails.\<close>

theorem delivery_start_once:
  assumes "timeline S seen"
    and "accept_once fingerprint S i v p op seen = Inr (x, accepted)"
    and "fst (change_delivery_start C fingerprint E S i v p op m e seen st1 st2 st3) \<noteq> []"
    and "\<And>k. store_advances S accepted (seen' k)"
  shows "fst (change_delivery_start C' fingerprint' E' S i v' p' op' m' e' seen' st1' st2' st3') = []"
proof -
  from start_effects_claimed [OF assms(3)] assms(2) obtain receipt
    where claim: "accept_once fingerprint S i v p op seen = Inr ((receipt, True), accepted)" by auto
  show ?thesis
  proof (rule start_unclaimed, rule notI)
    fix receipt' accepted'
    assume "accept_once fingerprint' S i v' p' op' seen' = Inr ((receipt', True), accepted')"
    from accept_once_again [OF assms(1) claim assms(4) this] show False by simp
  qed
qed

text \<open>The backend starts a child only on a passed admission, unless it retained the operation.\<close>

definition starts_only_admitted :: "delivery_surroundings \<Rightarrow> json \<Rightarrow> bool" where
  "starts_only_admitted E args \<longleftrightarrow>
     retained_start E args = Inr None \<and> (\<forall>e. \<exists>msg. codex_start E args (Inl e) = Inl msg)"

lemma admission_Inr:
  assumes "delivery_admission E S i p op st1 = Inr u"
  shows "\<exists>current d. holds_record S st1 i current \<and> cr_writer current = None \<and>
    bound_delivery_admitted E current = Inr () \<and> cr_delivery current = Some d \<and>
    dr_operation_id d = op \<and> dr_plan_fingerprint d = dp_fingerprint p \<and> dr_state d = delivery_state.Accepted"
  using assms by (auto simp: delivery_admission_def get_def split: option.split_asm)

lemma start_with_admission_Inr:
  assumes "snd (invoke_codex_task_start_with_admission C E args admission) = Inr view"
    and "starts_only_admitted E args"
  shows "admission = Inr ()"
proof (cases admission)
  case (Inl msg)
  have "\<exists>msg'. codex_start E args (and_then (preparation_again E) (\<lambda>again.
      and_then (if again then authorize_preparation_task E True args else Inr ()) (\<lambda>_. admission))) = Inl msg'"
    using assms(2) Inl
    by (cases "preparation_again E")
      (auto simp: starts_only_admitted_def and_then_def split: sum.split)
  then obtain msg' where fails: "codex_start E args (and_then (preparation_again E) (\<lambda>again.
      and_then (if again then authorize_preparation_task E True args else Inr ()) (\<lambda>_. admission))) = Inl msg'"
    by blast
  from assms(1) obtain request where "parse C Codex operation.TaskStart args = Inr request"
    by (auto simp: invoke_codex_task_start_with_admission_def)
  with assms(1) fails show ?thesis
    by (cases request) (auto simp: invoke_codex_task_start_with_admission_def Let_def)
qed simp

lemma record_delegation_receipt:
  assumes "store_inv S st2" and "record_delegation S i rev_no op t st2 = Inr (d, st')"
  shows "dr_operation_id d = op \<and> (dr_state d = delivery_state.Completed \<or> dr_delegated_task_id d = Some t)"
proof -
  from assms(2) obtain r where upd: "update S i rev_no (record_delegation_step op t) st2 = Inr (r, st')"
    and d: "cr_delivery r = Some d"
    by (auto simp: record_delegation_def updated_receipt_Inr)
  from update_cases [OF assms(1) upd record_delegation_step_ok] obtain q0 q where
    step: "record_delegation_step op t q0 = Inr q" and "r = q \<or> r = q\<lparr>cr_revision := cr_revision q + 1\<rparr>"
    by blast
  then have q: "cr_delivery q = Some d" using d by (elim disjE) simp_all
  from step obtain d0 where d0: "cr_delivery q0 = Some d0" "dr_operation_id d0 = op"
    and "q = (if dr_state d0 = delivery_state.Completed then q0 else
      q0\<lparr>cr_delivery := Some (d0\<lparr>dr_delegated_task_id := Some t, dr_state := Delegated\<rparr>)\<rparr>)"
    unfolding record_delegation_step_def and_then_Inr_iff ensure_Inr_iff ok_or_Inr_iff
    by (elim exE conjE) (simp split: if_split_asm)
  with q show ?thesis by (cases "dr_state d0 = delivery_state.Completed") (simp_all, auto)
qed

text \<open>When a start succeeds by starting a task, the Change was still the accepted one when the
  backend was about to start: it held this operation's receipt for this plan in the accepted state, no
  writer was active and the bound-delivery check passed. The receipt returned is this operation's and
  names the delegated task unless the delivery is already complete.\<close>

theorem delivery_start_admitted:
  assumes "snd (change_delivery_start C fingerprint E S i v p op m e seen st1 st2 st3) = Inr (d, st')"
    and "fst (change_delivery_start C fingerprint E S i v p op m e seen st1 st2 st3) \<noteq> []"
    and "\<And>step. find_step p i = Inr step \<Longrightarrow> starts_only_admitted E (delivery_args C op step m e)"
    and "store_inv S st3"
  shows "(\<exists>current d0. holds_record S st1 i current \<and> cr_writer current = None \<and>
      bound_delivery_admitted E current = Inr () \<and> cr_delivery current = Some d0 \<and>
      dr_operation_id d0 = op \<and> dr_plan_fingerprint d0 = dp_fingerprint p \<and> dr_state d0 = delivery_state.Accepted) \<and>
    dr_operation_id d = op \<and> (dr_state d = delivery_state.Completed \<or> dr_delegated_task_id d \<noteq> None)"
proof -
  from start_effects_claimed [OF assms(2)] obtain receipt accepted
    where claim: "accept_once fingerprint S i v p op seen = Inr ((receipt, True), accepted)" by blast
  with assms(1) obtain step view where step: "find_step p i = Inr step"
    and view: "snd (invoke_codex_task_start_with_admission C E (delivery_args C op step m e)
        (delivery_admission E S i p op st1)) = Inr view"
    and rec: "record_task E S i op view st2 st3 = Inr (d, st')"
    by (auto simp: change_delivery_start_def delivery_view_of_def)
  from rec obtain t n where "record_delegation S i n op t st3 = Inr (d, st')"
    by (auto simp: record_task_def)
  from record_delegation_receipt [OF assms(4) this] have "dr_operation_id d = op \<and>
      (dr_state d = delivery_state.Completed \<or> dr_delegated_task_id d \<noteq> None)" by auto
  moreover from start_with_admission_Inr [OF view assms(3) [OF step]] admission_Inr [of E S i p op st1 "()"]
  have "\<exists>current d0. holds_record S st1 i current \<and> cr_writer current = None \<and>
      bound_delivery_admitted E current = Inr () \<and> cr_delivery current = Some d0 \<and>
      dr_operation_id d0 = op \<and> dr_plan_fingerprint d0 = dp_fingerprint p \<and> dr_state d0 = delivery_state.Accepted" by blast
  ultimately show ?thesis by blast
qed

section \<open>Witnesses\<close>

definition sample_delivery_surroundings :: delivery_surroundings where
  "sample_delivery_surroundings = \<lparr>from_change_cli = True, mode = Agent, has_activity = False,
     bound_task_admission = (\<lambda>_. Inr ()), preparation_lookup = Inr False, authorize_bound_start = Inr (),
     authorize_bound_control = (\<lambda>_ _. Inr ()), ask_approval = (\<lambda>_ _ _. Inr True),
     backend_call = (\<lambda>_ _. Inr JNull), waiting = sample_gone_env, observe_bound_task_view = (\<lambda>_. Inr ()),
     preparation_again = Inr False, authorize_preparation_task = (\<lambda>_ _. Inr ()),
     codex_start = (\<lambda>_ closure. and_then closure (\<lambda>_. Inr (JObject [(''task_id'', JString ''t2'')]))),
     retained_start = (\<lambda>_. Inr None), bound_delivery_admitted = (\<lambda>_. Inr ()), describe = (\<lambda>_. ''e'')\<rparr>"

abbreviation sample_delivery_args :: json where
  "sample_delivery_args \<equiv>
     delivery_args sample_request_crates 9 (hd (dp_steps sample_delivery_plan)) ''m'' ''e''"

lemma sample_delivery_parses:
  "parse sample_request_crates Codex operation.TaskStart sample_delivery_args =
     Inr (StartRequest \<lparr>start_operation_id = ''111111111'', start_options =
       CodexOptions \<lparr>codex_model = ''m'', codex_effort = ''e'', codex_continued = New\<rparr>\<rparr>)"
proof -
  have "uuid_text sample_request_crates ''111111111''"
    by (simp add: uuid_text_def sample_request_crates_def)
  moreover have "uuid_display sample_request_crates 9 = ''111111111''"
    by (simp add: sample_request_crates_def) (simp add: eval_nat_numeral)
  moreover have "validate_task_input (delegated_instruction (hd (dp_steps sample_delivery_plan))) ''task'' = Inr ()"
    by (simp add: validate_task_input_def delegated_instruction_def sample_delivery_plan_def
        MAX_TASK_INPUT_BYTES_def contains_nul_def)
  ultimately show ?thesis
    by (simp add: parse_def parse_task_start_def parse_codex_start_def delivery_args_def jget_def required_read
        validate_argument_def MAX_ARGUMENT_BYTES_def contains_nul_def codex_continuation_def)
qed

lemma sample_delivery_answers:
  "preparation_lookup sample_delivery_surroundings = Inr False"
  "preparation_again sample_delivery_surroundings = Inr False"
  "codex_start sample_delivery_surroundings args (Inr ()) = Inr (JObject [(''task_id'', JString ''t2'')])"
  by (simp_all add: sample_delivery_surroundings_def)

lemma sample_delivery_authorize:
  "authorize (surroundings.truncate sample_delivery_surroundings) Codex operation.TaskStart a = ([], Inr ())"
  by (simp add: authorize_def ensure_local_approval_with_activity_def local_approval_backend
      finish_activity_approval_def activity_call_def when_run_def pure_def run_bind_def
      sample_delivery_surroundings_def surroundings.defs)

lemma sample_delivery_admission:
  "delivery_admission sample_delivery_surroundings sample_format ''c1'' sample_delivery_plan 9
     (sample_store (sample_delivered sample_accepted 6)) = Inr ()"
proof -
  have "get sample_format ''c1'' (sample_store (sample_delivered sample_accepted 6)) = Inr (sample_delivered sample_accepted 6)"
    using sample_holds [OF sample_delivery_fits(2)] by (simp add: get_def)
  then show ?thesis
    by (simp add: delivery_admission_def sample_delivered_def sample_current)
      (simp add: sample_delivery_surroundings_def)
qed

definition sample_delegated :: delivery_receipt where
  "sample_delegated = sample_accepted\<lparr>dr_delegated_task_id := Some ''t2'', dr_state := Delegated\<rparr>"

lemma sample_delegated_fits: "sample_fits (sample_delivered sample_delegated 7)"
  by (simp add: sample_fits_def sample_parent_def sample_delivered_def sample_delivery_plan_def sample_delegated_def
      sample_change_def new_record_def sample_scope_def put_defs put_dr_def put_pr_def MAX_RECORD_def)

lemma sample_record_task:
  "record_task sample_delivery_surroundings sample_format ''c1'' 9 (JObject [(''task_id'', JString ''t2'')])
     (sample_store (sample_delivered sample_accepted 6)) (sample_store (sample_delivered sample_accepted 6)) =
   Inr (sample_delegated, sample_store (sample_delivered sample_delegated 7))"
proof -
  have "get sample_format ''c1'' (sample_store (sample_delivered sample_accepted 6)) = Inr (sample_delivered sample_accepted 6)"
    using sample_holds [OF sample_delivery_fits(2)] by (simp add: get_def)
  moreover have "update sample_format ''c1'' 6 (record_delegation_step 9 ''t2'') (sample_store (sample_delivered sample_accepted 6)) =
      Inr (sample_delivered sample_delegated 7, sample_store (sample_delivered sample_delegated 7))"
    by (rule sample_update [where r' = "sample_delivered sample_delegated 6",
          OF sample_delivery_fits(2) _ _ _ _ _ _ sample_delegated_fits])
      (simp_all add: record_delegation_step_def sample_delegated_def sample_delivered_def sample_parent_def
        sample_change_def new_record_def)
  moreover have "label ''t2'' = Inr ()" by (simp add: label_Inr_iff label_byte_def is_ascii_alphanumeric_def)
  ultimately show ?thesis
    by (simp add: record_task_def jget_def as_str_def record_delegation_def updated_receipt_def)
      (simp add: sample_delivered_def)
qed

abbreviation sample_start :: "(delivery_receipt \<times> change_store) run" where
  "sample_start \<equiv> change_delivery_start sample_request_crates (\<lambda>_. ''f'') sample_delivery_surroundings sample_format
     ''c1'' 5 sample_delivery_plan 9 ''m'' ''e'' (\<lambda>_. sample_store sample_parent)
     (sample_store (sample_delivered sample_accepted 6)) (sample_store (sample_delivered sample_accepted 6))
     (sample_store (sample_delivered sample_accepted 6))"

lemma sample_started:
  "snd sample_start = Inr (sample_delegated, sample_store (sample_delivered sample_delegated 7))"
  "fst sample_start \<noteq> []"
proof -
  have "invoke_codex_task_start_with_admission sample_request_crates sample_delivery_surroundings sample_delivery_args (Inr ()) =
      ([PreparationLookup, InstructionRecorded, Dispatched operation.TaskStart sample_delivery_args, OutcomeRecorded True],
       Inr (JObject [(''task_id'', JString ''t2'')]))"
    by (simp add: invoke_codex_task_start_with_admission_def sample_delivery_parses run_bind_def perform_def
        sample_delivery_authorize sample_delivery_answers Let_def)
  then show "snd sample_start = Inr (sample_delegated, sample_store (sample_delivered sample_delegated 7))"
    "fst sample_start \<noteq> []"
    by (simp_all add: change_delivery_start_def sample_accepts sample_find_step delivery_view_of_def
        sample_delivery_admission sample_record_task fst_run_bind)
qed

theorem delivery_start_once_witness:
  "fst sample_start \<noteq> [] \<and>
   fst (change_delivery_start sample_request_crates (\<lambda>_. ''f'') sample_delivery_surroundings sample_format
     ''c1'' 6 sample_delivery_plan 9 ''m'' ''e'' (\<lambda>_. sample_store (sample_delivered sample_accepted 6))
     (sample_store (sample_delivered sample_accepted 6)) (sample_store (sample_delivered sample_accepted 6))
     (sample_store (sample_delivered sample_accepted 6))) = []"
  using sample_started(2) delivery_start_once [OF sample_timeline
      sample_accepts sample_started(2) store_advances_refl] by blast

theorem delivery_start_admitted_witness:
  "dr_operation_id sample_delegated = 9 \<and>
   (\<exists>current. holds_record sample_format (sample_store (sample_delivered sample_accepted 6)) ''c1'' current \<and>
      cr_writer current = None)"
proof -
  have "starts_only_admitted sample_delivery_surroundings args" for args
    by (simp add: starts_only_admitted_def sample_delivery_surroundings_def)
  from delivery_start_admitted [OF sample_started this sample_store_inv [OF sample_delivery_fits(2) sample_accepted_inv]]
  show ?thesis by blast
qed

end
