(* ===== verification/Upgrade_Transaction.thy ===== *)
theory Upgrade_Transaction
  imports Change_Record "HOL-Library.AList" "HOL-Library.Sublist"
begin

text \<open>
  The durable upgrade transaction, \<^verbatim>\<open>src/src/upgrade_transaction.rs\<close>: its states and the
  transitions between them, the record, its validation, and the directory that keeps one file per
  transaction. The directory is an association list from file names to nodes, in directory
  order, together with the names of the lock files a live process holds. Paths are the names
  relative to \<^verbatim>\<open>upgrade-transactions\<close>; a name that is not UTF-8 is skipped by every scan and is
  left out. A symbolic link cannot be opened because every open uses \<^verbatim>\<open>O_NOFOLLOW\<close>.

  \<open>upgrade_env\<close> holds what the code takes from other crates: parsing and printing of UUIDs, and
  the derived serde instances. \<open>accepts path bytes\<close> says whether the file system carries out the
  write of a temporary file and its renaming to \<open>path\<close>; when it does not, the directory is
  unchanged, because a half-written temporary file is never renamed.
\<close>

unbundle bit_operations_syntax

section \<open>States\<close>

datatype upgrade_state =
    Prepared
  | Committed
  | SupervisorHandoff
  | SessionsVerifying
  | IngressRestarting
  | EndpointVerifying
  | PluginReconciling
  | Completed
  | Failed
  | RolledBack

definition state_as_str :: "upgrade_state \<Rightarrow> string" where
  "state_as_str s =
     (case s of
        Prepared \<Rightarrow> ''prepared''
      | Committed \<Rightarrow> ''committed''
      | SupervisorHandoff \<Rightarrow> ''supervisor_handoff''
      | SessionsVerifying \<Rightarrow> ''sessions_verifying''
      | IngressRestarting \<Rightarrow> ''ingress_restarting''
      | EndpointVerifying \<Rightarrow> ''endpoint_verifying''
      | PluginReconciling \<Rightarrow> ''plugin_reconciling''
      | Completed \<Rightarrow> ''completed''
      | Failed \<Rightarrow> ''failed''
      | RolledBack \<Rightarrow> ''rolled_back'')"

definition upgrade_is_terminal :: "upgrade_state \<Rightarrow> bool" where
  "upgrade_is_terminal s = (s \<in> {Completed, Failed, RolledBack})"

definition forward_order :: "upgrade_state \<Rightarrow> nat option" where
  "forward_order s =
     (case s of
        Prepared \<Rightarrow> Some 0
      | Committed \<Rightarrow> Some 1
      | SupervisorHandoff \<Rightarrow> Some 2
      | SessionsVerifying \<Rightarrow> Some 3
      | IngressRestarting \<Rightarrow> Some 4
      | EndpointVerifying \<Rightarrow> Some 5
      | PluginReconciling \<Rightarrow> Some 6
      | Completed \<Rightarrow> Some 7
      | Failed \<Rightarrow> None
      | RolledBack \<Rightarrow> None)"

definition can_transition_to :: "upgrade_state \<Rightarrow> upgrade_state \<Rightarrow> bool" where
  "can_transition_to s n =
     (if upgrade_is_terminal s then False
      else if n \<in> {Failed, RolledBack} then True
      else case (forward_order s, forward_order n) of
          (Some a, Some b) \<Rightarrow> a < b
        | _ \<Rightarrow> False)"

section \<open>The record\<close>

record planned_session =
  ps_session_id :: string
  ps_source_process_id :: u32
  ps_source_started_at :: u64

record upgrade_transaction =
  ut_schema :: u64
  ut_transaction_id :: string
  ut_source_version :: string
  ut_target_version :: string
  ut_host_id :: string
  ut_source_boot_generation :: string
  ut_state :: upgrade_state
  ut_created_at :: u64
  ut_updated_at :: u64
  ut_sequence :: u64
  ut_reconnect_expected :: bool
  ut_supervisor_handoff_required :: bool
  ut_ingress_restart_required :: bool
  ut_planned_session_count :: nat
  ut_planned_sessions :: "planned_session list"
  ut_activity_session :: "planned_session option"
  ut_approved_executable_sha256 :: "string option"
  ut_verified_host_id :: "string option"
  ut_verified_version :: "string option"
  ut_verified_boot_generation :: "string option"
  ut_restored_session_count :: "nat option"
  ut_failure_summary :: "string option"

definition MAX_UPGRADE_TRANSACTION_BYTES :: nat where "MAX_UPGRADE_TRANSACTION_BYTES = 64 * 1024"

definition MAX_UPGRADE_TRANSACTIONS :: nat where "MAX_UPGRADE_TRANSACTIONS = 64"

definition MAX_PLANNED_SESSIONS :: nat where "MAX_PLANNED_SESSIONS = 64"

definition MAX_UPGRADE_TRANSACTION_STRING_BYTES :: nat where
  "MAX_UPGRADE_TRANSACTION_STRING_BYTES = 256"

definition MAX_FAILURE_SUMMARY_BYTES :: nat where "MAX_FAILURE_SUMMARY_BYTES = 1024"

text \<open>\<open>now\<close> is the reading of \<^verbatim>\<open>config::unix_time\<close> and \<open>new_id\<close> a fresh UUID, printed.\<close>

definition new_transaction ::
  "u64 \<Rightarrow> string \<Rightarrow> string \<Rightarrow> string \<Rightarrow> string \<Rightarrow> string \<Rightarrow> bool \<Rightarrow> bool \<Rightarrow> bool \<Rightarrow> upgrade_transaction" where
  "new_transaction now new_id source_version target_version host_id source_boot_generation
       reconnect_expected supervisor_handoff_required ingress_restart_required =
     \<lparr>ut_schema = 1, ut_transaction_id = new_id, ut_source_version = source_version,
      ut_target_version = target_version, ut_host_id = host_id,
      ut_source_boot_generation = source_boot_generation, ut_state = Prepared,
      ut_created_at = now, ut_updated_at = now, ut_sequence = 0,
      ut_reconnect_expected = reconnect_expected,
      ut_supervisor_handoff_required = supervisor_handoff_required,
      ut_ingress_restart_required = ingress_restart_required,
      ut_planned_session_count = 0, ut_planned_sessions = [], ut_activity_session = None,
      ut_approved_executable_sha256 = None, ut_verified_host_id = None,
      ut_verified_version = None, ut_verified_boot_generation = None,
      ut_restored_session_count = None, ut_failure_summary = None\<rparr>"

definition set_state :: "u64 \<Rightarrow> upgrade_state \<Rightarrow> upgrade_transaction \<Rightarrow> anyhow + upgrade_transaction" where
  "set_state now s t =
     ensure (\<not> upgrade_is_terminal (ut_state t)) (Message ''upgrade transaction is already terminal'') (
     ensure (can_transition_to (ut_state t) s) (Message ''invalid upgrade transaction transition'')
       (Inr (t\<lparr>ut_state := s, ut_updated_at := now\<rparr>)))"

definition validate_summary :: "string \<Rightarrow> anyhow + unit" where
  "validate_summary summary =
     ensure (length summary \<le> MAX_FAILURE_SUMMARY_BYTES)
       (Message ''upgrade transaction failure summary exceeds 1024 bytes'') (
     ensure (CHR 0x00 \<notin> set summary)
       (Message ''upgrade transaction failure summary must not contain NUL'') (Inr ()))"

definition mark_failed :: "u64 \<Rightarrow> string \<Rightarrow> upgrade_transaction \<Rightarrow> anyhow + upgrade_transaction" where
  "mark_failed now summary t =
     ensure (\<not> upgrade_is_terminal (ut_state t)) (Message ''upgrade transaction is already terminal'') (
     and_then (validate_summary summary) (\<lambda>_.
       Inr (t\<lparr>ut_state := Failed, ut_failure_summary := Some summary, ut_updated_at := now\<rparr>)))"

definition mark_rolled_back ::
  "u64 \<Rightarrow> string option \<Rightarrow> upgrade_transaction \<Rightarrow> anyhow + upgrade_transaction" where
  "mark_rolled_back now summary t =
     ensure (\<not> upgrade_is_terminal (ut_state t)) (Message ''upgrade transaction is already terminal'') (
     and_then (case summary of
         None \<Rightarrow> Inr t
       | Some s \<Rightarrow> and_then (validate_summary s) (\<lambda>_. Inr (t\<lparr>ut_failure_summary := Some s\<rparr>))) (\<lambda>t'.
       Inr (t'\<lparr>ut_state := RolledBack, ut_updated_at := now\<rparr>)))"

definition coordinator_phases :: "upgrade_transaction \<Rightarrow> upgrade_state list" where
  "coordinator_phases t =
     (if ut_supervisor_handoff_required t then [SupervisorHandoff] else [])
     @ [SessionsVerifying]
     @ (if ut_ingress_restart_required t then [IngressRestarting] else [])
     @ [EndpointVerifying, PluginReconciling, Completed]"

section \<open>Validation\<close>

record upgrade_env =
  ue_parse_str :: "string \<Rightarrow> uuid option"
  ue_to_string :: "uuid \<Rightarrow> string"
  ue_to_vec :: "upgrade_transaction \<Rightarrow> string"
  ue_from_slice :: "string \<Rightarrow> upgrade_transaction option"

definition validate_transaction_id :: "upgrade_env \<Rightarrow> string \<Rightarrow> anyhow + unit" where
  "validate_transaction_id E i =
     and_then (ok_or (ue_parse_str E i) Malformed) (\<lambda>parsed.
     ensure (ue_to_string E parsed = i)
       (Message ''upgrade transaction ID must be a canonical UUID'') (Inr ()))"

text \<open>\<^verbatim>\<open>config::validate_session_id\<close> and \<^verbatim>\<open>host_identity::validate\<close>. A character outside ASCII
  has only bytes above 127, so that a test of the characters is a test of the bytes.\<close>

definition validate_session_id :: "string \<Rightarrow> anyhow + unit" where
  "validate_session_id i =
     ensure (i \<noteq> []) (Message ''session ID must not be empty'') (
     ensure (length i \<le> 64) (Message ''session ID must be at most 64 bytes'') (
     ensure (list_all label_byte i)
       (Message ''session ID may contain only ASCII letters, numbers, hyphen, underscore, and dot'') (
     ensure (i \<noteq> ''.'' \<and> i \<noteq> ''..'') (Message ''invalid session ID'') (Inr ()))))"

definition validate_host_id :: "string \<Rightarrow> anyhow + string" where
  "validate_host_id v =
     ensure (v \<noteq> []) (Message ''host ID must not be empty'') (
     ensure (length v \<le> 128) (Message ''host ID must be at most 128 bytes'') (
     ensure (list_all label_byte v)
       (Message ''host ID may contain only ASCII letters, digits, dot, underscore, and hyphen'') (
     ensure (list_ex is_ascii_alphanumeric v)
       (Message ''host ID must contain at least one letter or digit'') (Inr v))))"

text \<open>\<^verbatim>\<open>str::trim\<close> removes the characters with the Unicode property \<^verbatim>\<open>White_Space\<close>.\<close>

definition is_whitespace :: "nat \<Rightarrow> bool" where
  "is_whitespace c =
     ((9 \<le> c \<and> c \<le> 13) \<or> c \<in> {32, 133, 160, 5760} \<or> (8192 \<le> c \<and> c \<le> 8202)
      \<or> c \<in> {8232, 8233, 8239, 8287, 12288})"

definition trim_chars :: "nat list \<Rightarrow> nat list" where
  "trim_chars cs = rev (dropWhile is_whitespace (rev (dropWhile is_whitespace cs)))"

definition trim_is_empty :: "string \<Rightarrow> bool" where
  "trim_is_empty v = (trim_chars (str_chars v) = [])"

definition validate_string :: "string \<Rightarrow> anyhow + unit" where
  "validate_string v =
     ensure (\<not> trim_is_empty v \<and> length v \<le> MAX_UPGRADE_TRANSACTION_STRING_BYTES)
       (Message ''upgrade transaction field is empty or oversized'') (
     ensure (CHR 0x00 \<notin> set v) (Message ''upgrade transaction field must not contain NUL'') (Inr ()))"

definition validate_opt :: "('a \<Rightarrow> anyhow + 'b) \<Rightarrow> 'a option \<Rightarrow> anyhow + unit" where
  "validate_opt f v = (case v of None \<Rightarrow> Inr () | Some x \<Rightarrow> and_then (f x) (\<lambda>_. Inr ()))"

definition validate_identity :: "string \<Rightarrow> planned_session \<Rightarrow> anyhow + unit" where
  "validate_identity incomplete p =
     and_then (validate_session_id (ps_session_id p)) (\<lambda>_.
     ensure (0 < ps_source_process_id p \<and> 0 < ps_source_started_at p) (Message incomplete) (Inr ()))"

fun validate_planned :: "string list \<Rightarrow> planned_session list \<Rightarrow> anyhow + unit" where
  "validate_planned seen [] = Inr ()"
| "validate_planned seen (p # ps) =
     and_then (validate_identity ''planned upgrade session identity is incomplete'' p) (\<lambda>_.
     ensure (ps_session_id p \<notin> set seen) (Message ''duplicate planned upgrade session ID'')
       (validate_planned (ps_session_id p # seen) ps))"

definition lower_hex :: "char \<Rightarrow> bool" where
  "lower_hex c = (let b = (of_char c :: nat) in (48 \<le> b \<and> b \<le> 57) \<or> (97 \<le> b \<and> b \<le> 102))"

definition validate_digest :: "string \<Rightarrow> anyhow + unit" where
  "validate_digest d =
     ensure (length d = 64 \<and> list_all lower_hex d)
       (Message ''approved upgrade executable identity is invalid'') (Inr ())"

definition validate_transaction :: "upgrade_env \<Rightarrow> upgrade_transaction \<Rightarrow> anyhow + unit" where
  "validate_transaction E t =
     ensure (ut_schema t = 1) (Message ''unsupported upgrade transaction schema'') (
     and_then (validate_transaction_id E (ut_transaction_id t)) (\<lambda>_.
     and_then (validate_string (ut_source_version t)) (\<lambda>_.
     and_then (validate_string (ut_target_version t)) (\<lambda>_.
     and_then (validate_string (ut_source_boot_generation t)) (\<lambda>_.
     and_then (validate_host_id (ut_host_id t)) (\<lambda>_.
     and_then (validate_opt (validate_identity ''upgrade activity session identity is incomplete'')
         (ut_activity_session t)) (\<lambda>_.
     ensure (length (ut_planned_sessions t) \<le> MAX_PLANNED_SESSIONS)
       (Message ''upgrade transaction contains too many planned sessions'') (
     and_then (validate_planned [] (ut_planned_sessions t)) (\<lambda>_.
     ensure (ut_planned_sessions t = []
         \<or> ut_planned_session_count t = length (ut_planned_sessions t))
       (Message ''planned upgrade session count does not match identities'') (
     and_then (validate_opt validate_digest (ut_approved_executable_sha256 t)) (\<lambda>_.
     and_then (validate_opt validate_host_id (ut_verified_host_id t)) (\<lambda>_.
     and_then (validate_opt validate_string (ut_verified_version t)) (\<lambda>_.
     and_then (validate_opt validate_string (ut_verified_boot_generation t)) (\<lambda>_.
     validate_opt validate_summary (ut_failure_summary t)))))))))))))))"

section \<open>The directory\<close>

datatype node = Regular u32 string | Directory | Symlink

record upgrade_dir =
  ud_files :: "(string \<times> node) list"
  ud_held :: "string list"

definition transaction_path :: "upgrade_env \<Rightarrow> string \<Rightarrow> anyhow + string" where
  "transaction_path E i = and_then (validate_transaction_id E i) (\<lambda>_. Inr (i @ ''.json''))"

definition lock_path :: "upgrade_env \<Rightarrow> string \<Rightarrow> anyhow + string" where
  "lock_path E i = and_then (validate_transaction_id E i) (\<lambda>_. Inr (i @ ''.lock''))"

text \<open>Modes are octal in the code: 511 is \<^verbatim>\<open>0o777\<close>, 63 is \<^verbatim>\<open>0o077\<close> and 384 is \<^verbatim>\<open>0o600\<close>.\<close>

definition owner_only :: "u32 \<Rightarrow> bool" where
  "owner_only m = ((m AND 511) AND 63 = 0)"

definition write_transaction ::
  "upgrade_env \<Rightarrow> (string \<Rightarrow> string \<Rightarrow> bool) \<Rightarrow> upgrade_transaction \<Rightarrow> upgrade_dir \<Rightarrow> anyhow + upgrade_dir" where
  "write_transaction E accepts t d =
     and_then (validate_transaction E t) (\<lambda>_.
     and_then (transaction_path E (ut_transaction_id t)) (\<lambda>path.
     let bytes = ue_to_vec E t
     in ensure (length bytes \<le> MAX_UPGRADE_TRANSACTION_BYTES)
          (Message ''upgrade transaction exceeds 65536 bytes'') (
        ensure (accepts path bytes \<and> map_of (ud_files d) path \<noteq> Some Directory)
          (Message ''failed to replace upgrade transaction'')
          (Inr (d\<lparr>ud_files := AList.update path (Regular 384 bytes) (ud_files d)\<rparr>)))))"

definition read_transaction_if_present ::
  "upgrade_env \<Rightarrow> upgrade_dir \<Rightarrow> string \<Rightarrow> anyhow + upgrade_transaction option" where
  "read_transaction_if_present E d i =
     and_then (transaction_path E i) (\<lambda>path.
     case map_of (ud_files d) path of
       None \<Rightarrow> Inr None
     | Some Symlink \<Rightarrow> Inl (Message ''cannot open upgrade transaction'')
     | Some Directory \<Rightarrow> Inl (Message ''upgrade transaction must be a regular file'')
     | Some (Regular mode content) \<Rightarrow>
         ensure (length content \<le> MAX_UPGRADE_TRANSACTION_BYTES)
           (Message ''upgrade transaction exceeds 65536 bytes'') (
         ensure (owner_only mode) (Message ''upgrade transaction must be owner-only'') (
         let bytes = take (MAX_UPGRADE_TRANSACTION_BYTES + 1) content
         in ensure (length bytes \<le> MAX_UPGRADE_TRANSACTION_BYTES)
              (Message ''upgrade transaction exceeds 65536 bytes'') (
            and_then (ok_or (ue_from_slice E bytes) (Message ''invalid upgrade transaction'')) (\<lambda>t.
            and_then (validate_transaction E t) (\<lambda>_.
            ensure (ut_transaction_id t = i)
              (Message ''upgrade transaction ID does not match its file name'') (Inr (Some t))))))))"

definition read_transaction :: "upgrade_env \<Rightarrow> upgrade_dir \<Rightarrow> string \<Rightarrow> anyhow + upgrade_transaction" where
  "read_transaction E d i =
     and_then (read_transaction_if_present E d i) (\<lambda>t.
       ok_or t (Message ''upgrade transaction is not present''))"

definition remove_transaction :: "upgrade_env \<Rightarrow> string \<Rightarrow> upgrade_dir \<Rightarrow> anyhow + upgrade_dir" where
  "remove_transaction E i d =
     and_then (transaction_path E i) (\<lambda>path.
     case map_of (ud_files d) path of
       None \<Rightarrow> Inr d
     | Some (Regular _ _) \<Rightarrow> Inr (d\<lparr>ud_files := AList.delete path (ud_files d)\<rparr>)
     | Some _ \<Rightarrow> Inl (Message ''refusing to remove upgrade transaction through a non-regular file''))"

definition strip_suffix :: "string \<Rightarrow> string \<Rightarrow> string option" where
  "strip_suffix suf s = (if suffix suf s then Some (take (length s - length suf) s) else None)"

fun list_ids_scan :: "upgrade_env \<Rightarrow> string list \<Rightarrow> string list \<Rightarrow> anyhow + string list" where
  "list_ids_scan E [] ids = Inr ids"
| "list_ids_scan E (name # names) ids =
     (case strip_suffix ''.json'' name of
        None \<Rightarrow> list_ids_scan E names ids
      | Some i \<Rightarrow>
          if \<not> is_ok (validate_transaction_id E i) then list_ids_scan E names ids
          else ensure (length (ids @ [i]) \<le> MAX_UPGRADE_TRANSACTIONS)
                 (Message ''too many upgrade transactions'') (list_ids_scan E names (ids @ [i])))"

definition list_transaction_ids :: "upgrade_env \<Rightarrow> upgrade_dir \<Rightarrow> anyhow + string list" where
  "list_transaction_ids E d =
     and_then (list_ids_scan E (map fst (ud_files d)) []) (\<lambda>ids. Inr (sort ids))"

fun load_loop ::
  "upgrade_env \<Rightarrow> upgrade_dir \<Rightarrow> string list \<Rightarrow> upgrade_transaction list \<Rightarrow> anyhow + upgrade_transaction list" where
  "load_loop E d [] ts = Inr ts"
| "load_loop E d (i # ids) ts =
     and_then (read_transaction_if_present E d i) (\<lambda>found.
       load_loop E d ids (case found of None \<Rightarrow> ts | Some t \<Rightarrow> ts @ [t]))"

definition load_transactions :: "upgrade_env \<Rightarrow> upgrade_dir \<Rightarrow> anyhow + upgrade_transaction list" where
  "load_transactions E d = and_then (list_transaction_ids E d) (\<lambda>ids. load_loop E d ids [])"

section \<open>Locks\<close>

text \<open>A lock file is created when missing, must be an owner-only regular file, and \<^verbatim>\<open>flock\<close>
  without blocking fails when a live process holds it. Opening a directory for writing and
  opening a symbolic link fail. The code has this body twice, for the admission lock and for the
  lock of a transaction.\<close>

definition acquire_lock :: "string \<Rightarrow> string \<Rightarrow> upgrade_dir \<Rightarrow> anyhow + upgrade_dir" where
  "acquire_lock busy path d =
     (let d' = (if map_of (ud_files d) path = None
                then d\<lparr>ud_files := AList.update path (Regular 384 []) (ud_files d)\<rparr> else d)
      in case map_of (ud_files d') path of
           Some (Regular mode _) \<Rightarrow>
             ensure (owner_only mode) (Message ''lock must be owner-only'') (
             ensure (path \<notin> set (ud_held d')) (Message busy)
               (Inr (d'\<lparr>ud_held := path # ud_held d'\<rparr>)))
         | _ \<Rightarrow> Inl (Message ''cannot open lock''))"

definition release_lock :: "string \<Rightarrow> upgrade_dir \<Rightarrow> upgrade_dir" where
  "release_lock path d = d\<lparr>ud_held := filter (\<lambda>h. h \<noteq> path) (ud_held d)\<rparr>"

definition acquire_transaction_lock :: "upgrade_env \<Rightarrow> string \<Rightarrow> upgrade_dir \<Rightarrow> anyhow + (string \<times> upgrade_dir)" where
  "acquire_transaction_lock E i d =
     and_then (lock_path E i) (\<lambda>path.
     and_then (acquire_lock ''upgrade transaction is owned by another live process'' path d) (\<lambda>d'.
       Inr (path, d')))"

definition acquire_admission_lock :: "upgrade_dir \<Rightarrow> anyhow + upgrade_dir" where
  "acquire_admission_lock d =
     acquire_lock ''another upgrade apply is being admitted'' ''admission.lock'' d"

definition transaction_lock_is_held :: "upgrade_env \<Rightarrow> upgrade_dir \<Rightarrow> string \<Rightarrow> anyhow + bool" where
  "transaction_lock_is_held E d i =
     and_then (lock_path E i) (\<lambda>path.
     case map_of (ud_files d) path of
       None \<Rightarrow> Inr False
     | Some (Regular mode _) \<Rightarrow>
         ensure (owner_only mode) (Message ''upgrade transaction lock must be owner-only'')
           (Inr (path \<in> set (ud_held d)))
     | Some _ \<Rightarrow> Inl (Message ''cannot open upgrade transaction lock''))"

section \<open>Status and incomplete transactions\<close>

record upgrade_status =
  us_transaction_id :: string
  us_state :: upgrade_state
  us_terminal :: bool
  us_source_version :: string
  us_target_version :: string
  us_host_id :: string
  us_reconnect_expected :: bool
  us_supervisor_handoff_required :: bool
  us_ingress_restart_required :: bool
  us_planned_session_count :: nat
  us_created_at :: u64
  us_updated_at :: u64
  us_verified_host_id :: "string option"
  us_verified_version :: "string option"
  us_verified_boot_generation :: "string option"
  us_restored_session_count :: "nat option"
  us_coordinator_alive :: "bool option"
  us_incomplete :: bool
  us_failure_summary :: "string option"

definition transaction_status :: "upgrade_transaction \<Rightarrow> upgrade_status" where
  "transaction_status t =
     \<lparr>us_transaction_id = ut_transaction_id t, us_state = ut_state t,
      us_terminal = upgrade_is_terminal (ut_state t), us_source_version = ut_source_version t,
      us_target_version = ut_target_version t, us_host_id = ut_host_id t,
      us_reconnect_expected = ut_reconnect_expected t,
      us_supervisor_handoff_required = ut_supervisor_handoff_required t,
      us_ingress_restart_required = ut_ingress_restart_required t,
      us_planned_session_count = ut_planned_session_count t, us_created_at = ut_created_at t,
      us_updated_at = ut_updated_at t, us_verified_host_id = ut_verified_host_id t,
      us_verified_version = ut_verified_version t,
      us_verified_boot_generation = ut_verified_boot_generation t,
      us_restored_session_count = ut_restored_session_count t, us_coordinator_alive = None,
      us_incomplete = False, us_failure_summary = ut_failure_summary t\<rparr>"

record incomplete_transaction =
  iu_transaction_id :: string
  iu_state :: upgrade_state
  iu_target_version :: string

fun incomplete_loop ::
  "upgrade_env \<Rightarrow> upgrade_dir \<Rightarrow> string list \<Rightarrow> incomplete_transaction list
     \<Rightarrow> anyhow + incomplete_transaction list" where
  "incomplete_loop E d [] found = Inr found"
| "incomplete_loop E d (i # ids) found =
     and_then (read_transaction E d i) (\<lambda>t.
     if upgrade_is_terminal (ut_state t) then incomplete_loop E d ids found
     else and_then (transaction_lock_is_held E d i) (\<lambda>held.
       if held then incomplete_loop E d ids found
       else incomplete_loop E d ids (found @ [\<lparr>iu_transaction_id = ut_transaction_id t,
              iu_state = ut_state t, iu_target_version = ut_target_version t\<rparr>])))"

definition incomplete_upgrade_transactions ::
  "upgrade_env \<Rightarrow> upgrade_dir \<Rightarrow> anyhow + incomplete_transaction list" where
  "incomplete_upgrade_transactions E d =
     and_then (list_transaction_ids E d) (\<lambda>ids. incomplete_loop E d ids [])"

section \<open>Failure summaries\<close>

definition is_char_boundary :: "string \<Rightarrow> nat \<Rightarrow> bool" where
  "is_char_boundary s i =
     (if i = 0 then True
      else if i < length s then \<not> (let b = (of_char (s ! i) :: nat) in 128 \<le> b \<and> b < 192)
      else i = length s)"

fun floor_char_boundary :: "string \<Rightarrow> nat \<Rightarrow> nat" where
  "floor_char_boundary s 0 = 0"
| "floor_char_boundary s (Suc e) =
     (if is_char_boundary s (Suc e) then Suc e else floor_char_boundary s e)"

definition bounded_failure_summary :: "string \<Rightarrow> string" where
  "bounded_failure_summary s =
     (let sanitized = map (\<lambda>c. if c = CHR 0x00 then CHR '' '' else c) s
      in if length sanitized \<le> MAX_FAILURE_SUMMARY_BYTES then sanitized
         else take (floor_char_boundary sanitized MAX_FAILURE_SUMMARY_BYTES) sanitized)"

section \<open>Transitions\<close>

text \<open>The derived \<^verbatim>\<open>Deserialize\<close> reads the same spelling back: \<^verbatim>\<open>rename_all = "snake_case"\<close>.\<close>

definition upgrade_states :: "upgrade_state list" where
  "upgrade_states =
     [Prepared, Committed, SupervisorHandoff, SessionsVerifying, IngressRestarting,
      EndpointVerifying, PluginReconciling, Completed, Failed, RolledBack]"

definition state_of_str :: "string \<Rightarrow> upgrade_state option" where
  "state_of_str s = find (\<lambda>x. state_as_str x = s) upgrade_states"

interpretation upgrade_state: wire_enum state_as_str state_of_str
proof
  show "state_of_str (state_as_str s) = Some s" for s
    by (cases s) (simp_all add: state_of_str_def upgrade_states_def state_as_str_def)
  show "state_as_str x = s" if "state_of_str s = Some x" for s x
    using that by (auto simp: state_of_str_def find_Some_iff)
qed

text \<open>The height of a state: the forward order, with both failure states on top.\<close>

definition state_rank :: "upgrade_state \<Rightarrow> nat" where
  "state_rank s = (case forward_order s of Some n \<Rightarrow> n | None \<Rightarrow> 8)"

lemma state_rank_eval [simp]:
  "state_rank Prepared = 0" "state_rank Committed = 1" "state_rank SupervisorHandoff = 2"
  "state_rank SessionsVerifying = 3" "state_rank IngressRestarting = 4"
  "state_rank EndpointVerifying = 5" "state_rank PluginReconciling = 6"
  "state_rank Completed = 7" "state_rank Failed = 8" "state_rank RolledBack = 8"
  by (simp_all add: state_rank_def forward_order_def)

lemma can_transition_rank: "can_transition_to s n \<Longrightarrow> state_rank s < state_rank n"
  by (cases s; cases n)
    (simp_all add: can_transition_to_def state_rank_def forward_order_def upgrade_is_terminal_def)

lemma can_transition_iff:
  "can_transition_to s n \<longleftrightarrow> \<not> upgrade_is_terminal s \<and> state_rank s < state_rank n"
  by (cases s; cases n)
    (simp_all add: can_transition_to_def state_rank_def forward_order_def upgrade_is_terminal_def)

lemma set_state_Inr_iff:
  "set_state now s t = Inr t' \<longleftrightarrow>
     can_transition_to (ut_state t) s \<and> t' = t\<lparr>ut_state := s, ut_updated_at := now\<rparr>"
  by (auto simp: set_state_def can_transition_to_def)

lemma mark_failed_Inr_iff:
  "mark_failed now summary t = Inr t' \<longleftrightarrow>
     \<not> upgrade_is_terminal (ut_state t) \<and> validate_summary summary = Inr () \<and>
     t' = t\<lparr>ut_state := Failed, ut_failure_summary := Some summary, ut_updated_at := now\<rparr>"
  by (auto simp: mark_failed_def)

lemma mark_rolled_back_Inr_iff:
  "mark_rolled_back now (Some summary) t = Inr t' \<longleftrightarrow>
     \<not> upgrade_is_terminal (ut_state t) \<and> validate_summary summary = Inr () \<and>
     t' = t\<lparr>ut_state := RolledBack, ut_failure_summary := Some summary, ut_updated_at := now\<rparr>"
  by (auto simp: mark_rolled_back_def)

section \<open>Validation frames\<close>

lemma validate_opt_Some [simp]: "validate_opt f (Some x) = Inr u \<longleftrightarrow> (\<exists>y. f x = Inr y)"
  and validate_opt_None [simp]: "validate_opt f None = Inr ()"
  by (simp_all add: validate_opt_def)

lemma validate_transaction_iff:
  "validate_transaction E t = Inr u \<longleftrightarrow>
     ut_schema t = 1 \<and> validate_transaction_id E (ut_transaction_id t) = Inr () \<and>
     validate_string (ut_source_version t) = Inr () \<and>
     validate_string (ut_target_version t) = Inr () \<and>
     validate_string (ut_source_boot_generation t) = Inr () \<and>
     is_ok (validate_host_id (ut_host_id t)) \<and>
     validate_opt (validate_identity ''upgrade activity session identity is incomplete'')
       (ut_activity_session t) = Inr () \<and>
     length (ut_planned_sessions t) \<le> MAX_PLANNED_SESSIONS \<and>
     validate_planned [] (ut_planned_sessions t) = Inr () \<and>
     (ut_planned_sessions t = [] \<or> ut_planned_session_count t = length (ut_planned_sessions t)) \<and>
     validate_opt validate_digest (ut_approved_executable_sha256 t) = Inr () \<and>
     validate_opt validate_host_id (ut_verified_host_id t) = Inr () \<and>
     validate_opt validate_string (ut_verified_version t) = Inr () \<and>
     validate_opt validate_string (ut_verified_boot_generation t) = Inr () \<and>
     validate_opt validate_summary (ut_failure_summary t) = Inr ()"
  by (simp add: validate_transaction_def is_ok_iff)

lemma validate_transaction_id_of:
  "validate_transaction E t = Inr u \<Longrightarrow> validate_transaction_id E (ut_transaction_id t) = Inr ()"
  by (simp add: validate_transaction_iff)

lemma validate_planned_distinct:
  "validate_planned seen ps = Inr u \<longleftrightarrow>
     (\<forall>p \<in> set ps. validate_identity ''planned upgrade session identity is incomplete'' p = Inr ()) \<and>
     distinct (map ps_session_id ps) \<and> set (map ps_session_id ps) \<inter> set seen = {}"
  by (induction ps arbitrary: seen) auto

section \<open>Reading and writing\<close>

definition upgrade_env_ok :: "upgrade_env \<Rightarrow> bool" where
  "upgrade_env_ok E \<longleftrightarrow> (\<forall>t. ue_from_slice E (ue_to_vec E t) = Some t)"

lemma owner_only_384 [simp]: "owner_only 384"
  by (simp add: owner_only_def)

lemma write_transaction_Inr_iff:
  "write_transaction E accepts t d = Inr d' \<longleftrightarrow>
     validate_transaction E t = Inr () \<and>
     length (ue_to_vec E t) \<le> MAX_UPGRADE_TRANSACTION_BYTES \<and>
     accepts (ut_transaction_id t @ ''.json'') (ue_to_vec E t) \<and>
     map_of (ud_files d) (ut_transaction_id t @ ''.json'') \<noteq> Some Directory \<and>
     d' = d\<lparr>ud_files := AList.update (ut_transaction_id t @ ''.json'')
              (Regular 384 (ue_to_vec E t)) (ud_files d)\<rparr>"
  by (auto simp: write_transaction_def transaction_path_def Let_def
      dest: validate_transaction_id_of)

lemma read_if_present_Some_iff:
  "read_transaction_if_present E d i = Inr (Some t) \<longleftrightarrow>
     (\<exists>mode content. map_of (ud_files d) (i @ ''.json'') = Some (Regular mode content) \<and>
        length content \<le> MAX_UPGRADE_TRANSACTION_BYTES \<and> owner_only mode \<and>
        ue_from_slice E content = Some t \<and> validate_transaction E t = Inr () \<and>
        ut_transaction_id t = i)"
  by (auto simp: read_transaction_if_present_def transaction_path_def Let_def
      dest: validate_transaction_id_of split: option.splits node.splits)

lemma read_if_present_None_iff:
  "read_transaction_if_present E d i = Inr None \<longleftrightarrow>
     validate_transaction_id E i = Inr () \<and> map_of (ud_files d) (i @ ''.json'') = None"
  by (auto simp: read_transaction_if_present_def transaction_path_def Let_def
      split: option.splits node.splits)

lemma read_transaction_iff:
  "read_transaction E d i = Inr t \<longleftrightarrow> read_transaction_if_present E d i = Inr (Some t)"
  by (auto simp: read_transaction_def)

lemma read_transaction_valid:
  "read_transaction E d i = Inr t \<Longrightarrow>
     validate_transaction E t = Inr () \<and> ut_transaction_id t = i \<and>
     validate_transaction_id E i = Inr ()"
  by (auto simp: read_transaction_iff read_if_present_Some_iff validate_transaction_id_of)

lemma write_read_if_present:
  assumes "upgrade_env_ok E" "write_transaction E accepts t d = Inr d'"
  shows "read_transaction_if_present E d' i =
    (if i = ut_transaction_id t then Inr (Some t) else read_transaction_if_present E d i)"
proof (cases "i = ut_transaction_id t")
  case True
  with assms show ?thesis
    by (simp add: read_if_present_Some_iff write_transaction_Inr_iff upgrade_env_ok_def update_conv)
next
  case False
  with assms(2) show ?thesis
    by (cases "validate_transaction_id E i")
      (simp_all add: read_transaction_if_present_def transaction_path_def write_transaction_Inr_iff
        update_conv)
qed

lemma write_read_transaction:
  assumes "upgrade_env_ok E" "write_transaction E accepts t d = Inr d'"
  shows "read_transaction E d' i = (if i = ut_transaction_id t then Inr t else read_transaction E d i)"
  using assms by (simp add: read_transaction_def write_read_if_present)

lemma write_transaction_held: "write_transaction E accepts t d = Inr d' \<Longrightarrow> ud_held d' = ud_held d"
  by (simp add: write_transaction_Inr_iff)

lemma strip_suffix_Some_iff: "strip_suffix suf s = Some r \<longleftrightarrow> s = r @ suf"
  by (auto simp: strip_suffix_def suffix_def)

lemma strip_suffix_append [simp]: "strip_suffix suf (r @ suf) = Some r"
  by (simp add: strip_suffix_Some_iff)

definition listed :: "upgrade_env \<Rightarrow> string \<Rightarrow> string option" where
  "listed E name =
     (case strip_suffix ''.json'' name of
        None \<Rightarrow> None
      | Some i \<Rightarrow> if is_ok (validate_transaction_id E i) then Some i else None)"

lemma listed_Some_iff:
  "listed E name = Some i \<longleftrightarrow> name = i @ ''.json'' \<and> validate_transaction_id E i = Inr ()"
  by (auto simp: listed_def strip_suffix_Some_iff is_ok_iff split: option.splits if_splits)

lemma list_ids_scan_Inr_iff:
  "list_ids_scan E names ids = Inr r \<longleftrightarrow>
     r = ids @ List.map_filter (listed E) names \<and>
     (List.map_filter (listed E) names = [] \<or>
      length (ids @ List.map_filter (listed E) names) \<le> MAX_UPGRADE_TRANSACTIONS)"
proof (induction names arbitrary: ids)
  case Nil
  then show ?case by (auto simp: List.map_filter_simps)
next
  case (Cons name names)
  show ?case
    by (auto simp: Cons.IH listed_def List.map_filter_simps split: option.splits)
qed

lemma set_map_filter_listed:
  "set (List.map_filter (listed E) names) =
     {i. i @ ''.json'' \<in> set names \<and> validate_transaction_id E i = Inr ()}"
proof -
  have "set (List.map_filter (listed E) names) = {i. \<exists>name \<in> set names. listed E name = Some i}"
    by (induction names) (auto simp: List.map_filter_simps split: option.splits)
  then show ?thesis by (auto simp: listed_Some_iff)
qed

lemma distinct_map_filter_listed:
  "distinct names \<Longrightarrow> distinct (List.map_filter (listed E) names)"
proof (induction names)
  case (Cons name names)
  then show ?case
    by (auto simp: List.map_filter_simps set_map_filter_listed listed_Some_iff split: option.splits)
qed (simp add: List.map_filter_simps)

lemma list_transaction_ids_Inr_iff:
  "list_transaction_ids E d = Inr ids \<longleftrightarrow>
     ids = sort (List.map_filter (listed E) (map fst (ud_files d))) \<and>
     length ids \<le> MAX_UPGRADE_TRANSACTIONS"
  by (auto simp: list_transaction_ids_def list_ids_scan_Inr_iff MAX_UPGRADE_TRANSACTIONS_def)

lemma list_transaction_ids_set:
  "list_transaction_ids E d = Inr ids \<Longrightarrow>
     i \<in> set ids \<longleftrightarrow>
       map_of (ud_files d) (i @ ''.json'') \<noteq> None \<and> validate_transaction_id E i = Inr ()"
  by (simp add: list_transaction_ids_Inr_iff set_map_filter_listed map_of_eq_None_iff)

lemma load_loop_Inr_iff:
  "load_loop E d ids ts = Inr r \<longleftrightarrow>
     (\<exists>found. collect_results (read_transaction_if_present E d) ids = Inr found \<and>
        r = ts @ List.map_filter id found)"
proof (induction ids arbitrary: ts)
  case Nil
  then show ?case by (auto simp: List.map_filter_simps)
next
  case (Cons i ids)
  show ?case
    by (auto simp: Cons.IH List.map_filter_simps split: option.splits)
qed

lemma map_filter_map_Some: "List.map_filter id (map Some ts) = ts"
  by (induction ts) (simp_all add: List.map_filter_simps)

lemma load_transactions_iff:
  "load_transactions E d = Inr ts \<longleftrightarrow>
     (\<exists>ids. list_transaction_ids E d = Inr ids \<and>
        list_all2 (\<lambda>i t. read_transaction E d i = Inr t) ids ts)"
proof -
  have "List.map_filter id found = ts \<longleftrightarrow> found = map Some ts"
    if ids: "list_transaction_ids E d = Inr ids"
      and found: "list_all2 (\<lambda>i t. read_transaction_if_present E d i = Inr t) ids found" for ids found
  proof -
    have "None \<notin> set found"
    proof
      assume "None \<in> set found"
      then obtain k where k: "k < length found" "found ! k = None" by (auto simp: in_set_conv_nth)
      with found have "ids ! k \<in> set ids" "read_transaction_if_present E d (ids ! k) = Inr None"
        by (auto simp: list_all2_conv_all_nth)
      then show False
        using list_transaction_ids_set [OF ids] by (simp add: read_if_present_None_iff)
    qed
    then show ?thesis
      by (induction found arbitrary: ts) (auto simp: List.map_filter_simps Cons_eq_map_conv split: option.splits)
  qed
  then have step: "(\<exists>found. list_all2 (\<lambda>i t. read_transaction_if_present E d i = Inr t) ids found \<and>
        ts = List.map_filter id found) \<longleftrightarrow>
      list_all2 (\<lambda>i t. read_transaction_if_present E d i = Inr t) ids (map Some ts)"
    if "list_transaction_ids E d = Inr ids" for ids
    using that by (metis (no_types, lifting) map_filter_map_Some)
  have some: "list_all2 (\<lambda>i t. read_transaction_if_present E d i = Inr t) ids (map Some ts) \<longleftrightarrow>
      list_all2 (\<lambda>i t. read_transaction E d i = Inr t) ids ts" for ids
    by (simp add: list.rel_map read_transaction_iff)
  show ?thesis
    unfolding load_transactions_def load_loop_Inr_iff collect_results_Inr_iff and_then_Inr_iff
    using step by (simp only: append_Nil some [symmetric]) blast
qed

definition incomplete_of :: "upgrade_transaction \<Rightarrow> incomplete_transaction" where
  "incomplete_of t =
     \<lparr>iu_transaction_id = ut_transaction_id t, iu_state = ut_state t,
      iu_target_version = ut_target_version t\<rparr>"

text \<open>The repair scan never loses a transaction: one that is neither terminal nor owned by a live
  process is reported, in the state that was read.\<close>

definition orphaned :: "upgrade_env \<Rightarrow> upgrade_dir \<Rightarrow> string \<Rightarrow> upgrade_transaction \<Rightarrow> bool" where
  "orphaned E d i t \<longleftrightarrow>
     read_transaction E d i = Inr t \<and> \<not> upgrade_is_terminal (ut_state t) \<and>
     transaction_lock_is_held E d i = Inr False"

lemma incomplete_loop_reports:
  "incomplete_loop E d ids found = Inr r \<Longrightarrow>
     x \<in> set r \<longleftrightarrow> x \<in> set found \<or> (\<exists>i \<in> set ids. \<exists>t. orphaned E d i t \<and> x = incomplete_of t)"
proof (induction ids arbitrary: found)
  case (Cons i ids)
  from Cons.prems obtain t where t: "read_transaction E d i = Inr t" by auto
  have o: "orphaned E d i u \<longleftrightarrow> u = t \<and> \<not> upgrade_is_terminal (ut_state t) \<and>
      transaction_lock_is_held E d i = Inr False" for u
    using t by (auto simp: orphaned_def)
  show ?case
  proof (cases "upgrade_is_terminal (ut_state t)")
    case True
    with Cons.prems t have "incomplete_loop E d ids found = Inr r" by simp
    from Cons.IH [OF this] True show ?thesis by (simp add: o)
  next
    case False
    with Cons.prems t obtain held where h: "transaction_lock_is_held E d i = Inr held" by auto
    with Cons.prems t False have "incomplete_loop E d ids (if held then found else found @ [incomplete_of t]) = Inr r"
      by (simp add: incomplete_of_def split: if_split_asm)
    from Cons.IH [OF this] False h show ?thesis by (cases held) (simp_all add: o disj_left_commute)
  qed
qed simp

lemma incomplete_reports_iff:
  assumes "incomplete_upgrade_transactions E d = Inr r"
  shows "x \<in> set r \<longleftrightarrow> (\<exists>i t. orphaned E d i t \<and> x = incomplete_of t)"
proof -
  from assms obtain ids where ids: "list_transaction_ids E d = Inr ids"
    and r: "incomplete_loop E d ids [] = Inr r"
    by (auto simp: incomplete_upgrade_transactions_def)
  have "i \<in> set ids" if "orphaned E d i t" for i t
  proof -
    from that have "read_transaction E d i = Inr t" by (simp add: orphaned_def)
    then have "read_transaction_if_present E d i = Inr (Some t)" "validate_transaction_id E i = Inr ()"
      using read_transaction_valid by (simp_all add: read_transaction_iff)
    then show ?thesis unfolding list_transaction_ids_set [OF ids] by (auto simp: read_if_present_Some_iff)
  qed
  then show ?thesis using incomplete_loop_reports [OF r] by auto
qed

section \<open>Failure summaries are bounded\<close>

lemma floor_char_boundary_le: "floor_char_boundary s e \<le> e"
  by (induction e) (auto simp: le_SucI)

lemma floor_char_boundary_boundary: "is_char_boundary s (floor_char_boundary s e)"
  by (induction e) (auto simp: is_char_boundary_def)

lemma floor_char_boundary_greatest:
  "b \<le> e \<Longrightarrow> is_char_boundary s b \<Longrightarrow> b \<le> floor_char_boundary s e"
proof (induction e)
  case (Suc e)
  then show ?case by (cases "b = Suc e") auto
qed simp

lemma bounded_failure_summary_valid: "validate_summary (bounded_failure_summary s) = Inr ()"
proof -
  have "CHR 0x00 \<notin> set (take n (map (\<lambda>c. if c = CHR 0x00 then CHR '' '' else c) s))" for n
    by (auto dest!: in_set_takeD split: if_splits)
  from this this [of "length s"] show ?thesis
    by (auto simp: validate_summary_def bounded_failure_summary_def Let_def
        intro: min.coboundedI2 floor_char_boundary_le)
qed

end
