(* ===== verification/Upgrade_Store.thy ===== *)
theory Upgrade_Store
  imports Upgrade_Transaction Change_Format
begin

text \<open>
  The properties of the directory of upgrade transactions, and a concrete instance of
  \<open>upgrade_env\<close> for their examples: a text format built from the combinators of
  \<open>Change_Format\<close>, with UUIDs printed in unary.
\<close>

section \<open>A concrete format\<close>

definition put_us :: "upgrade_state \<Rightarrow> string" where
  "put_us x = put_str (state_as_str x)"

definition take_us :: "upgrade_state reader" where
  "take_us = and_read take_str (\<lambda>x s. map_option (\<lambda>y. (y, s)) (state_of_str x))"

lemma take_put_us [simp]: "take_us (put_us x @ s) = Some (x, s)"
  by (simp add: take_us_def put_us_def upgrade_state.wire_roundtrip)

definition put_ps :: "planned_session \<Rightarrow> string" where
  "put_ps x = put_str (ps_session_id x) @ put_word (ps_source_process_id x) @ put_word (ps_source_started_at x)"

definition take_ps :: "planned_session reader" where
  "take_ps =
     and_read take_str (\<lambda>x0.
     and_read take_word (\<lambda>x1.
     and_read take_word (\<lambda>x2.
     read_value \<lparr>ps_session_id = x0, ps_source_process_id = x1, ps_source_started_at = x2\<rparr>)))"

lemma take_put_ps [simp]: "take_ps (put_ps x @ s) = Some (x, s)"
  by (simp add: take_ps_def put_ps_def read_value_def)

definition put_ut :: "upgrade_transaction \<Rightarrow> string" where
  "put_ut x = put_word (ut_schema x)
     @ put_str (ut_transaction_id x)
     @ put_str (ut_source_version x)
     @ put_str (ut_target_version x)
     @ put_str (ut_host_id x)
     @ put_str (ut_source_boot_generation x)
     @ put_us (ut_state x)
     @ put_word (ut_created_at x)
     @ put_word (ut_updated_at x)
     @ put_word (ut_sequence x)
     @ put_bool (ut_reconnect_expected x)
     @ put_bool (ut_supervisor_handoff_required x)
     @ put_bool (ut_ingress_restart_required x)
     @ put_nat (ut_planned_session_count x)
     @ put_list put_ps (ut_planned_sessions x)
     @ put_opt put_ps (ut_activity_session x)
     @ put_opt put_str (ut_approved_executable_sha256 x)
     @ put_opt put_str (ut_verified_host_id x)
     @ put_opt put_str (ut_verified_version x)
     @ put_opt put_str (ut_verified_boot_generation x)
     @ put_opt put_nat (ut_restored_session_count x)
     @ put_opt put_str (ut_failure_summary x)"

definition take_ut :: "upgrade_transaction reader" where
  "take_ut =
     and_read take_word (\<lambda>x0.
     and_read take_str (\<lambda>x1.
     and_read take_str (\<lambda>x2.
     and_read take_str (\<lambda>x3.
     and_read take_str (\<lambda>x4.
     and_read take_str (\<lambda>x5.
     and_read take_us (\<lambda>x6.
     and_read take_word (\<lambda>x7.
     and_read take_word (\<lambda>x8.
     and_read take_word (\<lambda>x9.
     and_read take_bool (\<lambda>x10.
     and_read take_bool (\<lambda>x11.
     and_read take_bool (\<lambda>x12.
     and_read take_nat (\<lambda>x13.
     and_read (take_list take_ps) (\<lambda>x14.
     and_read (take_opt take_ps) (\<lambda>x15.
     and_read (take_opt take_str) (\<lambda>x16.
     and_read (take_opt take_str) (\<lambda>x17.
     and_read (take_opt take_str) (\<lambda>x18.
     and_read (take_opt take_str) (\<lambda>x19.
     and_read (take_opt take_nat) (\<lambda>x20.
     and_read (take_opt take_str) (\<lambda>x21.
     read_value \<lparr>ut_schema = x0,
       ut_transaction_id = x1,
       ut_source_version = x2,
       ut_target_version = x3,
       ut_host_id = x4,
       ut_source_boot_generation = x5,
       ut_state = x6,
       ut_created_at = x7,
       ut_updated_at = x8,
       ut_sequence = x9,
       ut_reconnect_expected = x10,
       ut_supervisor_handoff_required = x11,
       ut_ingress_restart_required = x12,
       ut_planned_session_count = x13,
       ut_planned_sessions = x14,
       ut_activity_session = x15,
       ut_approved_executable_sha256 = x16,
       ut_verified_host_id = x17,
       ut_verified_version = x18,
       ut_verified_boot_generation = x19,
       ut_restored_session_count = x20,
       ut_failure_summary = x21\<rparr>))))))))))))))))))))))"

lemma take_put_ut [simp]: "take_ut (put_ut x @ s) = Some (x, s)"
  by (simp add: take_ut_def put_ut_def read_value_def)

definition sample_env :: upgrade_env where
  "sample_env =
     \<lparr>ue_parse_str = (\<lambda>s. if list_all (\<lambda>c. c = CHR ''1'') s \<and> length s < 2 ^ 128
                        then Some (of_nat (length s)) else None),
      ue_to_string = (\<lambda>w. replicate (unat w) (CHR ''1'')),
      ue_to_vec = put_ut, ue_from_slice = (\<lambda>s. map_option fst (take_ut s))\<rparr>"

lemma sample_env_ok: "upgrade_env_ok sample_env"
  using take_put_ut [of _ "[]"] by (simp add: upgrade_env_ok_def sample_env_def)

section \<open>Properties\<close>

text \<open>A transaction that was written reads back as it was, a valid record under its own
  identifier; every other transaction of the directory reads as before, and no lock changes hands.\<close>

theorem transaction_store_roundtrip:
  assumes "upgrade_env_ok E" "write_transaction E accepts t d = Inr d'"
  shows "read_transaction E d' (ut_transaction_id t) = Inr t \<and> validate_transaction E t = Inr () \<and>
    (i \<noteq> ut_transaction_id t \<longrightarrow>
       read_transaction_if_present E d' i = read_transaction_if_present E d i) \<and>
    ud_held d' = ud_held d"
  using assms write_read_if_present [OF assms] write_read_transaction [OF assms]
  by (simp add: write_transaction_Inr_iff)

text \<open>Loading fails closed. It succeeds exactly when there are at most 64 record files with a
  canonical identifier and every one of them can be read; then it returns all of them, each a valid
  transaction under the identifier of its file, in strictly increasing order of identifiers.\<close>

theorem load_transactions_fail_closed:
  assumes "distinct (map fst (ud_files d))"
  shows "load_transactions E d = Inr ts \<longleftrightarrow>
    length ts \<le> MAX_UPGRADE_TRANSACTIONS \<and> sorted (map ut_transaction_id ts) \<and>
    distinct (map ut_transaction_id ts) \<and>
    (\<forall>i. validate_transaction_id E i = Inr () \<and> map_of (ud_files d) (i @ ''.json'') \<noteq> None \<longrightarrow>
       i \<in> ut_transaction_id ` set ts) \<and>
    (\<forall>t \<in> set ts. read_transaction E d (ut_transaction_id t) = Inr t \<and> validate_transaction E t = Inr ())"
    (is "_ \<longleftrightarrow> ?R")
proof -
  let ?ids = "sort (List.map_filter (listed E) (map fst (ud_files d)))"
  have set_ids: "i \<in> set ?ids \<longleftrightarrow>
      validate_transaction_id E i = Inr () \<and> map_of (ud_files d) (i @ ''.json'') \<noteq> None" for i
    by (auto simp: set_map_filter_listed map_of_eq_None_iff)
  have dist: "distinct ?ids" using assms by (simp add: distinct_map_filter_listed)
  have read: "list_all2 (\<lambda>i t. read_transaction E d i = Inr t) ids ts \<longleftrightarrow>
      ids = map ut_transaction_id ts \<and>
      (\<forall>t \<in> set ts. read_transaction E d (ut_transaction_id t) = Inr t)" for ids
    by (induction ids ts rule: list_induct2')
      (auto dest: read_transaction_valid)
  have "?R \<longleftrightarrow> ?ids = map ut_transaction_id ts \<and> length ts \<le> MAX_UPGRADE_TRANSACTIONS \<and>
      (\<forall>t \<in> set ts. read_transaction E d (ut_transaction_id t) = Inr t)" (is "_ \<longleftrightarrow> ?Q")
  proof
    assume r: ?R
    have "set ?ids = set (map ut_transaction_id ts)"
    proof (rule set_eqI, rule iffI)
      fix i assume "i \<in> set ?ids"
      with r set_ids show "i \<in> set (map ut_transaction_id ts)" by simp
    next
      fix i assume "i \<in> set (map ut_transaction_id ts)"
      with r obtain t where "read_transaction E d i = Inr t" by auto
      then show "i \<in> set ?ids"
        unfolding set_ids by (auto simp: read_transaction_iff read_if_present_Some_iff
            validate_transaction_id_of)
    qed
    with r dist show ?Q by (auto intro: sorted_distinct_set_unique)
  next
    assume q: ?Q
    then have "set ?ids = ut_transaction_id ` set ts" "sorted (map ut_transaction_id ts)"
      "distinct (map ut_transaction_id ts)"
      using dist sorted_sort [of "List.map_filter (listed E) (map fst (ud_files d))"] by simp_all
    with q set_ids show ?R by (auto dest: read_transaction_valid)
  qed
  moreover have "load_transactions E d = Inr ts \<longleftrightarrow> ?ids = map ut_transaction_id ts \<and>
      length ?ids \<le> MAX_UPGRADE_TRANSACTIONS \<and>
      (\<forall>t \<in> set ts. read_transaction E d (ut_transaction_id t) = Inr t)"
    unfolding load_transactions_iff list_transaction_ids_Inr_iff read by blast
  moreover have "length ?ids = length ts" if "?ids = map ut_transaction_id ts"
    unfolding that by simp
  ultimately show ?thesis by metis
qed

section \<open>Witnesses\<close>

definition sample_upgrade :: upgrade_transaction where
  "sample_upgrade = new_transaction 1 ''1'' ''a'' ''b'' ''h'' ''g'' True True False"

definition sample_upgrade_dir :: "upgrade_transaction \<Rightarrow> upgrade_dir" where
  "sample_upgrade_dir t = \<lparr>ud_files = [(''1.json'', Regular 384 (put_ut t))], ud_held = []\<rparr>"

lemma sample_env_eval [simp]:
  "ue_to_vec sample_env = put_ut"
  "ue_from_slice sample_env (put_ut t) = Some t"
  "validate_transaction_id sample_env ''1'' = Inr ()"
  using take_put_ut [of t "[]"] by (simp_all add: sample_env_def validate_transaction_id_def ok_or_def)

lemma sample_strings:
  "validate_string ''a'' = Inr ()" "validate_string ''b'' = Inr ()" "validate_string ''g'' = Inr ()"
  "validate_host_id ''h'' = Inr ''h''"
  by (simp_all add: validate_string_def trim_is_empty_def trim_chars_def str_chars_def is_whitespace_def
      MAX_UPGRADE_TRANSACTION_STRING_BYTES_def validate_host_id_def label_byte_def
      is_ascii_alphanumeric_def)

lemma sample_upgrade_valid: "validate_transaction sample_env sample_upgrade = Inr ()"
  by (simp add: validate_transaction_iff sample_upgrade_def new_transaction_def sample_strings
      MAX_PLANNED_SESSIONS_def)

lemmas put_upgrade_defs = put_ut_def put_us_def put_ps_def put_opt_def put_list_def put_str_def
  put_word_def put_bool_def state_as_str_def

lemma sample_upgrade_size: "length (put_ut sample_upgrade) \<le> MAX_UPGRADE_TRANSACTION_BYTES"
  by (simp add: sample_upgrade_def new_transaction_def put_upgrade_defs MAX_UPGRADE_TRANSACTION_BYTES_def)

lemma sample_upgrade_read:
  "read_transaction sample_env (sample_upgrade_dir sample_upgrade) ''1'' = Inr sample_upgrade"
  using sample_upgrade_valid sample_upgrade_size
  by (simp add: read_transaction_iff read_if_present_Some_iff sample_upgrade_dir_def)
    (simp add: sample_upgrade_def new_transaction_def)

theorem transaction_store_roundtrip_witness:
  "write_transaction sample_env (\<lambda>_ _. True) sample_upgrade \<lparr>ud_files = [], ud_held = []\<rparr> =
     Inr (sample_upgrade_dir sample_upgrade) \<and>
   read_transaction sample_env (sample_upgrade_dir sample_upgrade) ''1'' = Inr sample_upgrade"
proof -
  have id: "ut_transaction_id sample_upgrade = ''1''" by (simp add: sample_upgrade_def new_transaction_def)
  have w: "write_transaction sample_env (\<lambda>_ _. True) sample_upgrade \<lparr>ud_files = [], ud_held = []\<rparr> =
      Inr (sample_upgrade_dir sample_upgrade)"
    using sample_upgrade_valid sample_upgrade_size
    by (simp add: write_transaction_Inr_iff id sample_upgrade_dir_def)
  show ?thesis using w transaction_store_roundtrip [OF sample_env_ok w, of "''1''"] by (simp add: id)
qed

theorem load_transactions_fail_closed_witness:
  "load_transactions sample_env (sample_upgrade_dir sample_upgrade) = Inr [sample_upgrade]"
proof -
  have id: "ut_transaction_id sample_upgrade = ''1''" by (simp add: sample_upgrade_def new_transaction_def)
  have "distinct (map fst (ud_files (sample_upgrade_dir sample_upgrade)))" by (simp add: sample_upgrade_dir_def)
  from load_transactions_fail_closed [OF this, of sample_env "[sample_upgrade]"] show ?thesis
    using sample_upgrade_read sample_upgrade_valid
    by (auto simp: id MAX_UPGRADE_TRANSACTIONS_def) (auto simp: sample_upgrade_dir_def split: if_splits)
qed

end
