(* ===== verification/Upgrade_Coordinator.thy ===== *)
theory Upgrade_Coordinator
  imports Upgrade_Store
begin

text \<open>
  The coordinator of an upgrade, \<^verbatim>\<open>src/src/upgrade_transaction.rs\<close>: the commit barrier between the
  transport and the coordinator, and the loop that drives one transaction through its phases.

  A run keeps the directory and the log of its effects: the phases handed to the executor and
  the records that became durable, in the order they happened. The executor's answers are
  arguments; a run hands it each phase at most once, so that a function of the phase describes
  every executor. \<open>clock s\<close> is the time read when the record enters state \<open>s\<close>. A run that still
  waits for the transport has the result \<open>None\<close>.

  \<open>upgrade_step\<close> is the contract of the coordinator as a step relation over the same effects.
  Every log of a run is a trace of it, whatever the file system and the executor answer.
\<close>

section \<open>The commit barrier\<close>

datatype commit_decision = DecisionPending | DecisionCommitted | DecisionAborted

definition decide :: "commit_decision \<Rightarrow> commit_decision \<Rightarrow> anyhow + commit_decision" where
  "decide decision current =
     ensure (current = DecisionPending) (Message ''upgrade commit barrier was already decided'')
       (Inr decision)"

definition barrier_new :: commit_decision where
  "barrier_new = DecisionPending"

definition barrier_commit :: "commit_decision \<Rightarrow> anyhow + commit_decision" where
  "barrier_commit = decide DecisionCommitted"

definition barrier_abort :: "commit_decision \<Rightarrow> anyhow + commit_decision" where
  "barrier_abort = decide DecisionAborted"

text \<open>What the waiter's \<^verbatim>\<open>changed()\<close> reports: a new value, or that every sender is gone.\<close>

datatype watch_change = Changed commit_decision | SenderDropped

fun wait_decision :: "commit_decision \<Rightarrow> watch_change list \<Rightarrow> commit_decision option" where
  "wait_decision decision changes =
     (if decision \<noteq> DecisionPending then Some decision
      else case changes of
          [] \<Rightarrow> None
        | SenderDropped # _ \<Rightarrow> Some DecisionAborted
        | Changed d # rest \<Rightarrow> wait_decision d rest)"

section \<open>The coordinator\<close>

datatype coordinator_step = Continue | Rollback

record verified_identity =
  vi_host_id :: string
  vi_version :: string
  vi_boot_generation :: string

record upgrade_executor =
  ex_execute_phase :: "upgrade_state \<Rightarrow> anyhow + coordinator_step"
  ex_restored_session_count :: "nat option"
  ex_verified_identity :: "verified_identity option"

datatype upgrade_event = Executed upgrade_state | Persisted upgrade_transaction

record upgrade_run =
  rn_dir :: upgrade_dir
  rn_log :: "upgrade_event list"

type_synonym 'a run_outcome = "(anyhow + 'a) option \<times> upgrade_run"

definition attempt :: "anyhow + 'a \<Rightarrow> upgrade_run \<Rightarrow> ('a \<Rightarrow> 'b run_outcome) \<Rightarrow> 'b run_outcome" where
  "attempt m r k = (case m of Inl e \<Rightarrow> (Some (Inl e), r) | Inr x \<Rightarrow> k x)"

text \<open>\<^verbatim>\<open>write_transaction\<close> and the notification \<^verbatim>\<open>activity_state_persisted\<close> after it.\<close>

definition persist ::
  "upgrade_env \<Rightarrow> (string \<Rightarrow> string \<Rightarrow> bool) \<Rightarrow> upgrade_transaction \<Rightarrow> upgrade_run
     \<Rightarrow> (upgrade_run \<Rightarrow> 'b run_outcome) \<Rightarrow> 'b run_outcome" where
  "persist E accepts t r k =
     attempt (write_transaction E accepts t (rn_dir r)) r (\<lambda>d.
       k \<lparr>rn_dir = d, rn_log = rn_log r @ [Persisted t]\<rparr>)"

definition note_phase :: "upgrade_executor \<Rightarrow> upgrade_state \<Rightarrow> upgrade_transaction \<Rightarrow> upgrade_transaction" where
  "note_phase ex phase t =
     (let t1 = (if phase = SessionsVerifying
                then t\<lparr>ut_restored_session_count := ex_restored_session_count ex\<rparr> else t)
      in if phase = EndpointVerifying then
           (case ex_verified_identity ex of
              None \<Rightarrow> t1
            | Some v \<Rightarrow> t1\<lparr>ut_verified_host_id := Some (vi_host_id v),
                ut_verified_version := Some (vi_version v),
                ut_verified_boot_generation := Some (vi_boot_generation v)\<rparr>)
         else t1)"

fun run_phases ::
  "upgrade_env \<Rightarrow> (string \<Rightarrow> string \<Rightarrow> bool) \<Rightarrow> (upgrade_state \<Rightarrow> u64) \<Rightarrow> upgrade_executor
     \<Rightarrow> upgrade_state list \<Rightarrow> upgrade_transaction \<Rightarrow> upgrade_run \<Rightarrow> upgrade_status run_outcome" where
  "run_phases E accepts clock ex [] t r = (Some (Inr (transaction_status t)), r)"
| "run_phases E accepts clock ex (phase # phases) t r =
     (if phase = Completed then
        attempt (set_state (clock Completed) Completed t) r (\<lambda>t'.
        persist E accepts t' r (\<lambda>r'. (Some (Inr (transaction_status t')), r')))
      else
        let r1 = r\<lparr>rn_log := rn_log r @ [Executed phase]\<rparr>
        in case ex_execute_phase ex phase of
             Inr Continue \<Rightarrow>
               attempt (set_state (clock phase) phase (note_phase ex phase t)) r1 (\<lambda>t'.
               persist E accepts t' r1 (\<lambda>r2. run_phases E accepts clock ex phases t' r2))
           | Inr Rollback \<Rightarrow>
               attempt (mark_rolled_back (clock RolledBack)
                   (Some (''upgrade coordinator rolled back at '' @ state_as_str phase)) t) r1 (\<lambda>t'.
               persist E accepts t' r1 (\<lambda>r2. (Some (Inr (transaction_status t')), r2)))
           | Inl _ \<Rightarrow>
               attempt (mark_failed (clock Failed)
                   (''upgrade phase '' @ state_as_str phase @ '' failed'') t) r1 (\<lambda>t'.
               persist E accepts t' r1 (\<lambda>r2. (Some (Inr (transaction_status t')), r2))))"

definition run_upgrade_coordinator_with_lock ::
  "upgrade_env \<Rightarrow> (string \<Rightarrow> string \<Rightarrow> bool) \<Rightarrow> (upgrade_state \<Rightarrow> u64) \<Rightarrow> upgrade_executor \<Rightarrow> string
     \<Rightarrow> commit_decision \<Rightarrow> watch_change list \<Rightarrow> upgrade_dir \<Rightarrow> upgrade_status run_outcome" where
  "run_upgrade_coordinator_with_lock E accepts clock ex i decision changes d =
     (let r = \<lparr>rn_dir = d, rn_log = []\<rparr>
      in attempt (read_transaction E d i) r (\<lambda>t.
         attempt (ensure (ut_state t = Prepared) (Message ''upgrade transaction is not prepared'') (Inr ())) r (\<lambda>_.
         case wait_decision decision changes of
           None \<Rightarrow> (None, r)
         | Some DecisionCommitted \<Rightarrow>
             attempt (set_state (clock Committed) Committed t) r (\<lambda>t'.
             persist E accepts t' r (\<lambda>r'. run_phases E accepts clock ex (coordinator_phases t') t' r'))
         | Some _ \<Rightarrow>
             attempt (mark_failed (clock Failed)
                 ''upgrade response was not delivered; destructive phase aborted'' t) r (\<lambda>t'.
             persist E accepts t' r (\<lambda>r'. (Some (Inr (transaction_status t')), r'))))))"

text \<open>The lock is dropped when the coordinator returns.\<close>

definition run_upgrade_coordinator ::
  "upgrade_env \<Rightarrow> (string \<Rightarrow> string \<Rightarrow> bool) \<Rightarrow> (upgrade_state \<Rightarrow> u64) \<Rightarrow> upgrade_executor \<Rightarrow> string
     \<Rightarrow> commit_decision \<Rightarrow> watch_change list \<Rightarrow> upgrade_dir \<Rightarrow> upgrade_status run_outcome" where
  "run_upgrade_coordinator E accepts clock ex i decision changes d =
     (case acquire_transaction_lock E i d of
        Inl e \<Rightarrow> (Some (Inl e), \<lparr>rn_dir = d, rn_log = []\<rparr>)
      | Inr (path, d1) \<Rightarrow>
          (case run_upgrade_coordinator_with_lock E accepts clock ex i decision changes d1 of
             (None, r) \<Rightarrow> (None, r)
           | (Some res, r) \<Rightarrow> (Some res, r\<lparr>rn_dir := release_lock path (rn_dir r)\<rparr>)))"

section \<open>The contract as a step relation\<close>

text \<open>\<open>At s\<close>: the durable record is in state \<open>s\<close>. \<open>Doing s p\<close>: phase \<open>p\<close> was handed to the
  executor while the durable record is still in state \<open>s\<close>.\<close>

datatype coordinator_config = At upgrade_state | Doing upgrade_state upgrade_state

definition next_phase :: "upgrade_state list \<Rightarrow> upgrade_state \<Rightarrow> upgrade_state option" where
  "next_phase ps s = find (\<lambda>p. state_rank s < state_rank p) ps"

inductive upgrade_step ::
  "upgrade_state list \<Rightarrow> coordinator_config \<Rightarrow> upgrade_event \<Rightarrow> coordinator_config \<Rightarrow> bool" for ps where
  commit: "ut_state t = Committed \<Longrightarrow> upgrade_step ps (At Prepared) (Persisted t) (At Committed)"
| not_delivered: "ut_state t = Failed \<Longrightarrow> upgrade_step ps (At Prepared) (Persisted t) (At Failed)"
| execute: "\<lbrakk>s \<noteq> Prepared; \<not> upgrade_is_terminal s; next_phase ps s = Some p; p \<noteq> Completed\<rbrakk>
    \<Longrightarrow> upgrade_step ps (At s) (Executed p) (Doing s p)"
| phase_done: "ut_state t = p \<Longrightarrow> upgrade_step ps (Doing s p) (Persisted t) (At p)"
| phase_stopped: "ut_state t \<in> {Failed, RolledBack}
    \<Longrightarrow> upgrade_step ps (Doing s p) (Persisted t) (At (ut_state t))"
| complete: "\<lbrakk>s \<noteq> Prepared; \<not> upgrade_is_terminal s; next_phase ps s = Some Completed; ut_state t = Completed\<rbrakk>
    \<Longrightarrow> upgrade_step ps (At s) (Persisted t) (At Completed)"

inductive_simps upgrade_step_At: "upgrade_step ps (At s) e m"
inductive_simps upgrade_step_Doing: "upgrade_step ps (Doing s p) e m"

inductive upgrade_trace ::
  "upgrade_state list \<Rightarrow> upgrade_event list \<Rightarrow> coordinator_config \<Rightarrow> bool" for ps where
  trace_nil: "upgrade_trace ps [] (At Prepared)"
| trace_snoc: "\<lbrakk>upgrade_trace ps es m; upgrade_step ps m e m'\<rbrakk> \<Longrightarrow> upgrade_trace ps (es @ [e]) m'"

definition durable_state :: "coordinator_config \<Rightarrow> upgrade_state" where
  "durable_state m = (case m of At s \<Rightarrow> s | Doing s _ \<Rightarrow> s)"

definition executed :: "upgrade_event list \<Rightarrow> upgrade_state list" where
  "executed es = List.map_filter (\<lambda>e. case e of Executed p \<Rightarrow> Some p | Persisted _ \<Rightarrow> None) es"

definition persisted :: "upgrade_event list \<Rightarrow> upgrade_transaction list" where
  "persisted es = List.map_filter (\<lambda>e. case e of Persisted t \<Rightarrow> Some t | Executed _ \<Rightarrow> None) es"

definition required_phases :: "upgrade_transaction \<Rightarrow> upgrade_state list" where
  "required_phases t = butlast (coordinator_phases t)"

declare wait_decision.simps [simp del]

section \<open>Traces\<close>

lemma executed_simps [simp]:
  "executed [] = []"
  "executed (es @ es') = executed es @ executed es'"
  "executed (Executed p # es) = p # executed es"
  "executed (Persisted t # es) = executed es"
  by (simp_all add: executed_def List.map_filter_simps List.map_filter_def)

lemma persisted_simps [simp]:
  "persisted [] = []"
  "persisted (es @ es') = persisted es @ persisted es'"
  "persisted (Executed p # es) = persisted es"
  "persisted (Persisted t # es) = t # persisted es"
  by (simp_all add: persisted_def List.map_filter_simps List.map_filter_def)

abbreviation phase_order :: "upgrade_state list \<Rightarrow> bool" where
  "phase_order \<equiv> sorted_wrt (\<lambda>p q. state_rank p < state_rank q)"

abbreviation work_upto :: "nat \<Rightarrow> upgrade_state list \<Rightarrow> upgrade_state list" where
  "work_upto n ps \<equiv> filter (\<lambda>q. q \<noteq> Completed \<and> state_rank q \<le> n) ps"

lemma coordinator_phases_ordered:
  "phase_order (coordinator_phases t)"
  "p \<in> set (coordinator_phases t) \<Longrightarrow> state_rank Committed < state_rank p"
  "last (coordinator_phases t) = Completed" "Completed \<notin> set (required_phases t)"
  "filter (\<lambda>p. p \<noteq> Completed) (coordinator_phases t) = required_phases t"
  by (auto simp: coordinator_phases_def required_phases_def butlast_append)

lemma next_phase_mem:
  "next_phase ps s = Some p \<Longrightarrow> p \<in> set ps \<and> state_rank s < state_rank p"
  by (auto simp: next_phase_def find_Some_iff in_set_conv_nth)

lemma next_phase_least:
  "\<lbrakk>phase_order ps; next_phase ps s = Some p; q \<in> set ps; state_rank s < state_rank q\<rbrakk>
    \<Longrightarrow> state_rank p \<le> state_rank q"
  by (induction ps) (auto simp: next_phase_def split: if_splits)

lemma next_phase_split:
  "\<lbrakk>\<forall>q \<in> set dn. state_rank q \<le> state_rank s; state_rank s < state_rank p\<rbrakk>
    \<Longrightarrow> next_phase (dn @ p # rest) s = Some p"
  by (induction dn) (auto simp: next_phase_def)

lemma work_next:
  "\<lbrakk>phase_order ps; next_phase ps s = Some p; p \<noteq> Completed\<rbrakk>
    \<Longrightarrow> work_upto (state_rank p) ps = work_upto (state_rank s) ps @ [p]"
proof (induction ps)
  case Nil
  then show ?case by (simp add: next_phase_def)
next
  case (Cons a ps)
  show ?case
  proof (cases "state_rank s < state_rank a")
    case True
    with Cons.prems have "p = a" by (simp add: next_phase_def)
    moreover have "work_upto (state_rank a) ps = []" "work_upto (state_rank s) ps = []"
      using Cons.prems(1) True by (auto simp: filter_empty_conv)
    ultimately show ?thesis using Cons.prems(3) True by simp
  next
    case False
    with Cons.prems have next_ps: "next_phase ps s = Some p" by (simp add: next_phase_def)
    then have "state_rank a < state_rank p" using Cons.prems(1) next_phase_mem by auto
    with Cons.IH [OF _ next_ps] Cons.prems False show ?thesis by auto
  qed
qed

lemma work_upto_prefix: "phase_order ps \<Longrightarrow> prefix (work_upto n ps) (filter (\<lambda>q. q \<noteq> Completed) ps)"
proof (induction ps)
  case (Cons a ps)
  show ?case
  proof (cases "state_rank a \<le> n")
    case True
    with Cons show ?thesis by simp
  next
    case False
    with Cons.prems have "work_upto n (a # ps) = []" by (auto simp: filter_empty_conv)
    then show ?thesis by (simp only: Nil_prefix)
  qed
qed simp

text \<open>What a trace has executed: exactly the work up to the durable state, plus the phase in
  flight; after a failure or a rollback, some first part of the work.\<close>

definition trace_work :: "upgrade_state list \<Rightarrow> upgrade_event list \<Rightarrow> coordinator_config \<Rightarrow> bool" where
  "trace_work ps es m =
     (case m of
        At s \<Rightarrow> (if s \<in> {Failed, RolledBack} then prefix (executed es) (filter (\<lambda>q. q \<noteq> Completed) ps)
                else executed es = work_upto (state_rank s) ps)
      | Doing s p \<Rightarrow> next_phase ps s = Some p \<and> p \<noteq> Completed \<and> executed es = work_upto (state_rank p) ps)"

lemma work_upto_none:
  "\<lbrakk>\<forall>p \<in> set ps. state_rank Committed < state_rank p; n \<le> state_rank Committed\<rbrakk> \<Longrightarrow> work_upto n ps = []"
  by (auto simp: filter_empty_conv)

lemma work_upto_all:
  "state_rank Completed \<le> n \<Longrightarrow> \<forall>p \<in> set ps. p \<notin> {Failed, RolledBack} \<Longrightarrow>
     work_upto n ps = filter (\<lambda>q. q \<noteq> Completed) ps"
proof (rule filter_cong [OF refl])
  fix q assume "state_rank Completed \<le> n" "\<forall>p \<in> set ps. p \<notin> {Failed, RolledBack}" "q \<in> set ps"
  then have "state_rank q \<le> n" by (cases q) auto
  then show "(q \<noteq> Completed \<and> state_rank q \<le> n) = (q \<noteq> Completed)" by simp
qed

lemma trace_work_inv:
  assumes "upgrade_trace ps es m" "phase_order ps" "\<forall>p \<in> set ps. state_rank Committed < state_rank p"
    "\<forall>p \<in> set ps. p \<notin> {Failed, RolledBack}"
  shows "trace_work ps es m"
  using assms(1)
proof (induction rule: upgrade_trace.induct)
  case trace_nil
  show ?case using work_upto_none [OF assms(3), of 0] by (simp add: trace_work_def)
next
  case (trace_snoc es m e m')
  from trace_snoc.hyps(2) trace_snoc.IH show ?case
  proof (cases rule: upgrade_step.cases)
    case (commit t)
    with trace_snoc.IH show ?thesis
      using work_upto_none [OF assms(3), of 0] work_upto_none [OF assms(3), of 1]
      by (simp add: trace_work_def)
  next
    case (not_delivered t)
    with trace_snoc.IH show ?thesis
      using work_upto_none [OF assms(3), of 0] work_upto_none [OF assms(3), of 1]
      by (simp add: trace_work_def)
  next
    case (execute s p)
    then have "s \<notin> {Failed, RolledBack}" by (auto simp: upgrade_is_terminal_def)
    with execute trace_snoc.IH work_next [OF assms(2)] show ?thesis by (simp add: trace_work_def)
  next
    case (phase_done t p s)
    with trace_snoc.IH have "p \<in> set ps" by (auto simp: trace_work_def dest: next_phase_mem)
    with assms(4) phase_done trace_snoc.IH show ?thesis by (auto simp: trace_work_def)
  next
    case (phase_stopped t s p)
    with trace_snoc.IH show ?thesis
      using work_upto_prefix [OF assms(2)] by (auto simp: trace_work_def)
  next
    case (complete s t)
    then have s: "s \<notin> {Failed, RolledBack, Completed}" by (auto simp: upgrade_is_terminal_def)
    with complete trace_snoc.IH have ex: "executed es = work_upto (state_rank s) ps"
      by (simp add: trace_work_def)
    have "work_upto (state_rank s) ps = filter (\<lambda>q. q \<noteq> Completed) ps"
    proof (rule filter_cong [OF refl])
      fix q assume q: "q \<in> set ps"
      have "state_rank q \<le> state_rank s" if "q \<noteq> Completed"
      proof (rule ccontr)
        assume "\<not> state_rank q \<le> state_rank s"
        then have "state_rank s < state_rank q" by (rule not_le_imp_less)
        with next_phase_least [OF assms(2) _ q] complete have "state_rank Completed \<le> state_rank q"
          by metis
        with that assms(4) q show False by (cases q) auto
      qed
      then show "(q \<noteq> Completed \<and> state_rank q \<le> state_rank s) = (q \<noteq> Completed)" by blast
    qed
    with complete ex work_upto_all [OF order_refl assms(4)] show ?thesis by (simp add: trace_work_def)
  qed
qed

section \<open>Runs follow the contract\<close>

text \<open>The directory after a crash that follows the effects \<open>es\<close>.\<close>

fun replay ::
  "upgrade_env \<Rightarrow> (string \<Rightarrow> string \<Rightarrow> bool) \<Rightarrow> upgrade_dir \<Rightarrow> upgrade_event list \<Rightarrow> upgrade_dir option" where
  "replay E accepts d [] = Some d"
| "replay E accepts d (Executed p # es) = replay E accepts d es"
| "replay E accepts d (Persisted t # es) =
     (case write_transaction E accepts t d of Inl _ \<Rightarrow> None | Inr d' \<Rightarrow> replay E accepts d' es)"

lemma replay_append:
  "replay E accepts d (es @ es') = Option.bind (replay E accepts d es) (\<lambda>d'. replay E accepts d' es')"
proof (induction es arbitrary: d)
  case (Cons e es)
  then show ?case by (cases e) (auto split: sum.split)
qed simp

definition consistent ::
  "upgrade_env \<Rightarrow> (string \<Rightarrow> string \<Rightarrow> bool) \<Rightarrow> upgrade_dir \<Rightarrow> string \<Rightarrow> upgrade_state list \<Rightarrow> upgrade_run
     \<Rightarrow> coordinator_config \<Rightarrow> upgrade_transaction \<Rightarrow> bool" where
  "consistent E accepts d i ps r m t \<longleftrightarrow>
     upgrade_trace ps (rn_log r) m \<and> durable_state m = ut_state t \<and>
     replay E accepts d (rn_log r) = Some (rn_dir r) \<and> read_transaction E (rn_dir r) i = Inr t \<and>
     (\<forall>q \<in> set (persisted (rn_log r)). ut_transaction_id q = i)"

lemma consistent_id: "consistent E accepts d i ps r m t \<Longrightarrow> ut_transaction_id t = i"
  by (auto simp: consistent_def dest: read_transaction_valid)

lemma consistent_execute:
  assumes "consistent E accepts d i ps r (At s) t" "upgrade_step ps (At s) (Executed p) (Doing s p)"
  shows "consistent E accepts d i ps (r\<lparr>rn_log := rn_log r @ [Executed p]\<rparr>) (Doing s p) t"
  using assms by (auto simp: consistent_def durable_state_def replay_append intro: trace_snoc)

lemma attempt_eval [simp]:
  "attempt (Inl e) r k = (Some (Inl e), r)"
  "attempt (Inr x) r k = k x"
  by (simp_all add: attempt_def)

text \<open>How a run may end: waiting with nothing done, in a terminal durable state that the status
  describes, or with the refusal of a write that would have moved the record on.\<close>

definition run_ends ::
  "upgrade_env \<Rightarrow> (string \<Rightarrow> string \<Rightarrow> bool) \<Rightarrow> upgrade_dir \<Rightarrow> string \<Rightarrow> upgrade_state list
     \<Rightarrow> upgrade_status run_outcome \<Rightarrow> bool" where
  "run_ends E accepts d i ps out \<longleftrightarrow>
     (\<exists>m t. consistent E accepts d i ps (snd out) m t \<and>
        (case fst out of
           None \<Rightarrow> rn_log (snd out) = []
         | Some (Inr st) \<Rightarrow> upgrade_is_terminal (ut_state t) \<and> st = transaction_status t
         | Some (Inl e) \<Rightarrow> \<exists>t'. write_transaction E accepts t' (rn_dir (snd out)) = Inl e \<and>
             ut_transaction_id t' = i \<and> can_transition_to (ut_state t) (ut_state t')))"

lemma persist_ends:
  assumes env: "upgrade_env_ok E" and c: "consistent E accepts d i ps r m t"
    and step: "upgrade_step ps m (Persisted t') (At (ut_state t'))" and i: "ut_transaction_id t' = i"
    and move: "can_transition_to (ut_state t) (ut_state t')"
    and k: "\<And>r'. consistent E accepts d i ps r' (At (ut_state t')) t' \<Longrightarrow> run_ends E accepts d i ps (k r')"
  shows "run_ends E accepts d i ps (persist E accepts t' r k)"
proof (cases "write_transaction E accepts t' (rn_dir r)")
  case (Inl e)
  with c i move show ?thesis by (auto simp: run_ends_def persist_def)
next
  case (Inr d')
  have "consistent E accepts d i ps \<lparr>rn_dir = d', rn_log = rn_log r @ [Persisted t']\<rparr> (At (ut_state t')) t'"
    using c step i Inr write_read_transaction [OF env Inr, of i]
    by (auto simp: consistent_def durable_state_def replay_append intro: trace_snoc)
  with Inr k show ?thesis by (simp add: persist_def)
qed

lemma terminal_ends:
  "\<lbrakk>consistent E accepts d i ps r (At (ut_state t)) t; upgrade_is_terminal (ut_state t)\<rbrakk>
    \<Longrightarrow> run_ends E accepts d i ps (Some (Inr (transaction_status t)), r)"
  by (auto simp: run_ends_def)

lemma phase_summaries [simp]:
  "validate_summary (''upgrade phase '' @ state_as_str p @ '' failed'') = Inr ()"
  "validate_summary (''upgrade coordinator rolled back at '' @ state_as_str p) = Inr ()"
  "validate_summary ''upgrade response was not delivered; destructive phase aborted'' = Inr ()"
  by (cases p; simp add: validate_summary_def state_as_str_def MAX_FAILURE_SUMMARY_BYTES_def)+

lemma note_phase_fields [simp]:
  "ut_state (note_phase ex p t) = ut_state t"
  "ut_transaction_id (note_phase ex p t) = ut_transaction_id t"
  "coordinator_phases (note_phase ex p t) = coordinator_phases t"
  by (simp_all add: note_phase_def coordinator_phases_def Let_def split: option.split)

lemma failure_transition:
  "can_transition_to s Failed \<longleftrightarrow> \<not> upgrade_is_terminal s"
  "can_transition_to s RolledBack \<longleftrightarrow> \<not> upgrade_is_terminal s"
  by (simp_all add: can_transition_to_def)

lemma run_phases_ends:
  assumes env: "upgrade_env_ok E"
  shows "\<lbrakk>consistent E accepts d i (dn @ phases) r (At (ut_state t)) t; ut_state t \<noteq> Prepared;
      \<not> upgrade_is_terminal (ut_state t); phases \<noteq> []; last phases = Completed; phase_order phases;
      \<forall>q \<in> set dn. state_rank q \<le> state_rank (ut_state t);
      \<forall>q \<in> set phases. state_rank (ut_state t) < state_rank q \<and> q \<notin> {Failed, RolledBack}\<rbrakk>
    \<Longrightarrow> run_ends E accepts d i (dn @ phases) (run_phases E accepts clock ex phases t r)"
proof (induction phases arbitrary: dn t r)
  case Nil
  then show ?case by simp
next
  case (Cons p phases)
  let ?ps = "dn @ p # phases"
  note c = Cons.prems(1) and id = consistent_id [OF Cons.prems(1)]
  have next_p: "next_phase ?ps (ut_state t) = Some p"
    using Cons.prems(7,8) by (intro next_phase_split) auto
  have move: "can_transition_to (ut_state t) p" using Cons.prems(3,8) by (simp add: can_transition_iff)
  show ?case
  proof (cases "p = Completed")
    case True
    let ?t = "t\<lparr>ut_state := Completed, ut_updated_at := clock Completed\<rparr>"
    have "run_ends E accepts d i ?ps (persist E accepts ?t r (\<lambda>r'. (Some (Inr (transaction_status ?t)), r')))"
    proof (rule persist_ends [OF env c])
      show "upgrade_step ?ps (At (ut_state t)) (Persisted ?t) (At (ut_state ?t))"
        using next_p True Cons.prems(2,3) by (simp add: complete)
    qed (use id move True in \<open>simp_all add: terminal_ends upgrade_is_terminal_def\<close>)
    moreover have "set_state (clock Completed) Completed t = Inr ?t"
      using move True by (simp add: set_state_Inr_iff)
    ultimately show ?thesis using True by simp
  next
    case False
    let ?r = "r\<lparr>rn_log := rn_log r @ [Executed p]\<rparr>"
    have cd: "consistent E accepts d i ?ps ?r (Doing (ut_state t) p) t"
      using next_p False Cons.prems(2,3) by (intro consistent_execute [OF c] execute) auto
    show ?thesis
    proof (cases "ex_execute_phase ex p")
      case (Inl e)
      let ?t = "t\<lparr>ut_state := Failed, ut_failure_summary := Some (''upgrade phase '' @ state_as_str p @ '' failed''),
        ut_updated_at := clock Failed\<rparr>"
      have "run_ends E accepts d i ?ps (persist E accepts ?t ?r (\<lambda>r'. (Some (Inr (transaction_status ?t)), r')))"
      proof (rule persist_ends [OF env cd])
        show "upgrade_step ?ps (Doing (ut_state t) p) (Persisted ?t) (At (ut_state ?t))"
          by (rule phase_stopped) simp
      qed (use id Cons.prems(3) in \<open>simp_all add: terminal_ends upgrade_is_terminal_def failure_transition\<close>)
      moreover have "mark_failed (clock Failed) (''upgrade phase '' @ state_as_str p @ '' failed'') t = Inr ?t"
        using Cons.prems(3) unfolding mark_failed_Inr_iff by (simp only: phase_summaries) simp
      ultimately show ?thesis using False Inl by (simp add: Let_def del: append.simps)
    next
      case (Inr stp)
      then show ?thesis
      proof (cases stp)
        case Rollback
        let ?t = "t\<lparr>ut_state := RolledBack,
          ut_failure_summary := Some (''upgrade coordinator rolled back at '' @ state_as_str p),
          ut_updated_at := clock RolledBack\<rparr>"
        have "run_ends E accepts d i ?ps (persist E accepts ?t ?r (\<lambda>r'. (Some (Inr (transaction_status ?t)), r')))"
        proof (rule persist_ends [OF env cd])
          show "upgrade_step ?ps (Doing (ut_state t) p) (Persisted ?t) (At (ut_state ?t))"
            by (rule phase_stopped) simp
        qed (use id Cons.prems(3) in \<open>simp_all add: terminal_ends upgrade_is_terminal_def failure_transition\<close>)
        moreover have "mark_rolled_back (clock RolledBack)
            (Some (''upgrade coordinator rolled back at '' @ state_as_str p)) t = Inr ?t"
          using Cons.prems(3) unfolding mark_rolled_back_Inr_iff by (simp only: phase_summaries) simp
        ultimately show ?thesis using False Inr Rollback by (simp add: Let_def del: append.simps)
      next
        case Continue
        let ?t = "(note_phase ex p t)\<lparr>ut_state := p, ut_updated_at := clock p\<rparr>"
        have not_term: "\<not> upgrade_is_terminal p" "phases \<noteq> []" "last phases = Completed"
          using False Cons.prems(5,8) by (auto simp: upgrade_is_terminal_def split: if_splits)
        have "run_ends E accepts d i ?ps (persist E accepts ?t ?r (\<lambda>r'. run_phases E accepts clock ex phases ?t r'))"
        proof (rule persist_ends [OF env cd])
          show "upgrade_step ?ps (Doing (ut_state t) p) (Persisted ?t) (At (ut_state ?t))"
            by (simp add: phase_done)
        next
          fix r'
          assume "consistent E accepts d i ?ps r' (At (ut_state ?t)) ?t"
          then have "consistent E accepts d i ((dn @ [p]) @ phases) r' (At (ut_state ?t)) ?t" by simp
          then have "run_ends E accepts d i ((dn @ [p]) @ phases) (run_phases E accepts clock ex phases ?t r')"
            using not_term Cons.prems(6,7,8) by (intro Cons.IH) auto
          then show "run_ends E accepts d i ?ps (run_phases E accepts clock ex phases ?t r')" by simp
        qed (use id move in simp_all)
        moreover have "set_state (clock p) p (note_phase ex p t) = Inr ?t"
          using move by (simp add: set_state_Inr_iff)
        ultimately show ?thesis using False Inr Continue by (simp add: Let_def)
      qed
    qed
  qed
qed

lemma coordinator_run_ends:
  assumes "upgrade_env_ok E" "read_transaction E d i = Inr t" "ut_state t = Prepared"
  shows "run_ends E accepts d i (coordinator_phases t)
    (run_upgrade_coordinator_with_lock E accepts clock ex i decision changes d)"
proof -
  let ?ps = "coordinator_phases t" and ?r = "\<lparr>rn_dir = d, rn_log = []\<rparr>"
  have c: "consistent E accepts d i ?ps ?r (At Prepared) t"
    using assms by (auto simp: consistent_def durable_state_def intro: trace_nil)
  note id = consistent_id [OF c]
  let ?f = "t\<lparr>ut_state := Failed,
    ut_failure_summary := Some ''upgrade response was not delivered; destructive phase aborted'',
    ut_updated_at := clock Failed\<rparr>"
  let ?c = "t\<lparr>ut_state := Committed, ut_updated_at := clock Committed\<rparr>"
  have phases: "coordinator_phases ?c = ?ps" by (simp add: coordinator_phases_def)
  have failed: "run_ends E accepts d i ?ps (persist E accepts ?f ?r (\<lambda>r'. (Some (Inr (transaction_status ?f)), r')))"
    by (rule persist_ends [OF assms(1) c])
      (use id assms(3) in \<open>simp_all add: not_delivered terminal_ends can_transition_iff upgrade_is_terminal_def\<close>)
  have committed: "run_ends E accepts d i ?ps (persist E accepts ?c ?r (\<lambda>r'. run_phases E accepts clock ex ?ps ?c r'))"
  proof (rule persist_ends [OF assms(1) c])
    fix r'
    assume "consistent E accepts d i ?ps r' (At (ut_state ?c)) ?c"
    then have "run_ends E accepts d i ([] @ ?ps) (run_phases E accepts clock ex ?ps ?c r')"
      using coordinator_phases_ordered(1) [of t] coordinator_phases_ordered(2) [of _ t] coordinator_phases_ordered(3) [of t]
      by (intro run_phases_ends [OF assms(1)])
        (auto simp: upgrade_is_terminal_def coordinator_phases_def)
    then show "run_ends E accepts d i ?ps (run_phases E accepts clock ex ?ps ?c r')" by simp
  qed (use id assms(3) in \<open>simp_all add: commit can_transition_iff upgrade_is_terminal_def\<close>)
  have "mark_failed (clock Failed) ''upgrade response was not delivered; destructive phase aborted'' t = Inr ?f"
    using assms(3) unfolding mark_failed_Inr_iff
    by (simp only: phase_summaries) (simp add: upgrade_is_terminal_def)
  moreover have "set_state (clock Committed) Committed t = Inr ?c"
    using assms(3) by (simp add: set_state_Inr_iff can_transition_iff upgrade_is_terminal_def)
  moreover have "run_ends E accepts d i ?ps (None, ?r)" using c by (auto simp: run_ends_def)
  ultimately show ?thesis
    using failed committed assms(2,3)
    by (auto simp: run_upgrade_coordinator_with_lock_def Let_def phases
        split: option.split commit_decision.split)
qed

lemma trace_prefix: "upgrade_trace ps es m \<Longrightarrow> \<exists>m'. upgrade_trace ps (take k es) m'"
proof (induction rule: upgrade_trace.induct)
  case trace_nil
  show ?case by (auto intro: upgrade_trace.trace_nil)
next
  case (trace_snoc es m e m')
  then show ?case
    by (cases "k \<le> length es") (auto intro: upgrade_trace.trace_snoc)
qed

lemma trace_durable:
  "upgrade_trace ps es m \<Longrightarrow> durable_state m = last (Prepared # map ut_state (persisted es))"
proof (induction rule: upgrade_trace.induct)
  case (trace_snoc es m e m')
  from trace_snoc.hyps(2) trace_snoc.IH show ?case
    by (cases rule: upgrade_step.cases) (auto simp: durable_state_def)
qed (simp add: durable_state_def)

lemma replay_read:
  "\<lbrakk>upgrade_env_ok E; replay E accepts d es = Some d'; \<forall>q \<in> set (persisted es). ut_transaction_id q = i;
    read_transaction E d i = Inr t\<rbrakk> \<Longrightarrow> read_transaction E d' i = Inr (last (t # persisted es))"
proof (induction es arbitrary: d t)
  case (Cons e es)
  show ?case
  proof (cases e)
    case (Persisted q)
    with Cons.prems obtain d1 where d1: "write_transaction E accepts q d = Inr d1"
      and rest: "replay E accepts d1 es = Some d'" by (auto split: sum.splits)
    have "read_transaction E d1 i = Inr q"
      using write_read_transaction [OF Cons.prems(1) d1, of i] Cons.prems(3) Persisted by simp
    from Cons.IH [OF Cons.prems(1) rest _ this] Cons.prems(3) Persisted show ?thesis by simp
  qed (use Cons in simp)
qed simp

lemma replay_prefix:
  "replay E accepts d es = Some d' \<Longrightarrow> \<exists>dk. replay E accepts d (take k es) = Some dk"
  using replay_append [of E accepts d "take k es" "drop k es"]
  by (cases "replay E accepts d (take k es)") auto

text \<open>The state after a crash that follows the first \<open>k\<close> effects of a run.\<close>

lemma run_crash:
  assumes "upgrade_env_ok E" "consistent E accepts d i ps r m t'" "read_transaction E d i = Inr t"
    "ut_state t = Prepared"
  shows "\<exists>mk dk tk. upgrade_trace ps (take k (rn_log r)) mk \<and> replay E accepts d (take k (rn_log r)) = Some dk \<and>
    read_transaction E dk i = Inr tk \<and> ut_state tk = durable_state mk"
proof -
  let ?es = "take k (rn_log r)"
  obtain mk where mk: "upgrade_trace ps ?es mk"
    using assms(2) trace_prefix unfolding consistent_def by metis
  obtain dk where dk: "replay E accepts d ?es = Some dk"
    using assms(2) replay_prefix unfolding consistent_def by metis
  have "set (persisted ?es) \<subseteq> set (persisted (rn_log r))"
  proof -
    have "persisted (rn_log r) = persisted ?es @ persisted (drop k (rn_log r))"
      by (simp flip: persisted_simps(2))
    then show ?thesis by simp
  qed
  then have "\<forall>q \<in> set (persisted ?es). ut_transaction_id q = i"
    using assms(2) by (auto simp: consistent_def)
  from replay_read [OF assms(1) dk this assms(3)] trace_durable [OF mk] assms(4) mk dk show ?thesis
    by (auto simp: last_map)
qed

section \<open>The outcome of a run\<close>

abbreviation phase_continues :: "upgrade_executor \<Rightarrow> upgrade_state \<Rightarrow> bool" where
  "phase_continues ex p \<equiv> ex_execute_phase ex p = Inr Continue"

definition first_stop :: "upgrade_executor \<Rightarrow> upgrade_state list \<Rightarrow> upgrade_state option" where
  "first_stop ex ps = find (\<lambda>p. \<not> phase_continues ex p) ps"

definition outcome_state :: "upgrade_executor \<Rightarrow> upgrade_state list \<Rightarrow> upgrade_state" where
  "outcome_state ex ps =
     (case first_stop ex ps of
        None \<Rightarrow> Completed
      | Some p \<Rightarrow> (case ex_execute_phase ex p of Inl _ \<Rightarrow> Failed | Inr _ \<Rightarrow> RolledBack))"

definition attempted_phases :: "upgrade_executor \<Rightarrow> upgrade_state list \<Rightarrow> upgrade_state list" where
  "attempted_phases ex ps = takeWhile (phase_continues ex) ps @ (case first_stop ex ps of None \<Rightarrow> [] | Some p \<Rightarrow> [p])"

lemma persist_success:
  "persist E accepts t r k = (Some (Inr y), r') \<longleftrightarrow>
     (\<exists>d. write_transaction E accepts t (rn_dir r) = Inr d \<and>
        k \<lparr>rn_dir = d, rn_log = rn_log r @ [Persisted t]\<rparr> = (Some (Inr y), r'))"
  by (cases "write_transaction E accepts t (rn_dir r)") (simp_all add: persist_def)

lemma attempt_success:
  "attempt m r k = (Some (Inr y), r') \<longleftrightarrow> (\<exists>x. m = Inr x \<and> k x = (Some (Inr y), r'))"
  by (cases m) simp_all

lemma us_state_status [simp]: "us_state (transaction_status t) = ut_state t"
  by (simp add: transaction_status_def)

lemma run_phases_outcome:
  "\<lbrakk>run_phases E accepts clock ex phases t r = (Some (Inr st), r'); phases \<noteq> []; last phases = Completed;
    Completed \<notin> set (butlast phases)\<rbrakk>
    \<Longrightarrow> us_state st = outcome_state ex (butlast phases) \<and>
        executed (rn_log r') = executed (rn_log r) @ attempted_phases ex (butlast phases)"
proof (induction phases arbitrary: t r)
  case (Cons p phases)
  show ?case
  proof (cases "phases = []")
    case True
    with Cons.prems show ?thesis
      by (auto simp: attempt_success persist_success set_state_Inr_iff outcome_state_def
          attempted_phases_def first_stop_def)
  next
    case False
    with Cons.prems have p: "p \<noteq> Completed" "last phases = Completed" "Completed \<notin> set (butlast phases)" by auto
    show ?thesis
    proof (cases "phase_continues ex p")
      case True
      with Cons.prems(1) p obtain t' r2 where run: "run_phases E accepts clock ex phases t' r2 = (Some (Inr st), r')"
        and log: "rn_log r2 = rn_log r @ [Executed p, Persisted t']"
        by (auto simp: attempt_success persist_success Let_def)
      from Cons.IH [OF run False p(2,3)] log False True show ?thesis
        by (simp add: outcome_state_def attempted_phases_def first_stop_def)
    next
      case stop: False
      with Cons.prems(1) p False show ?thesis
        by (cases "ex_execute_phase ex p")
          (auto simp: attempt_success persist_success Let_def outcome_state_def attempted_phases_def
            first_stop_def mark_failed_Inr_iff mark_rolled_back_Inr_iff
            split: coordinator_step.splits)
    qed
  qed
qed simp

lemma json_not_lock [simp]: "x @ ''.json'' \<noteq> y @ ''.lock''"
proof
  assume "x @ ''.json'' = y @ ''.lock''"
  then have "last (x @ ''.json'') = last (y @ ''.lock'')" by simp
  then show False by simp
qed

lemma replay_lock_file:
  "replay E accepts d es = Some d' \<Longrightarrow> map_of (ud_files d') (j @ ''.lock'') = map_of (ud_files d) (j @ ''.lock'')"
proof (induction es arbitrary: d)
  case (Cons e es)
  then show ?case
    by (cases e)
      (auto simp: write_transaction_Inr_iff update_conv json_not_lock [symmetric] split: sum.splits)
qed simp

lemma acquire_transaction_lock_Inr:
  "acquire_transaction_lock E i d = Inr (path, d1) \<Longrightarrow>
     path = i @ ''.lock'' \<and> validate_transaction_id E i = Inr () \<and> path \<notin> set (ud_held d) \<and>
     path \<in> set (ud_held d1) \<and>
     (\<exists>mode bytes. map_of (ud_files d1) path = Some (Regular mode bytes) \<and> owner_only mode)"
  by (auto simp: acquire_transaction_lock_def acquire_lock_def lock_path_def Let_def update_conv'
      split: option.splits node.splits if_splits)

lemma acquire_transaction_lock_read:
  "acquire_transaction_lock E i d = Inr (path, d1) \<Longrightarrow> read_transaction E d1 j = read_transaction E d j"
  by (cases "validate_transaction_id E j")
    (auto simp: acquire_transaction_lock_def acquire_lock_def lock_path_def Let_def update_conv
      read_transaction_def read_transaction_if_present_def transaction_path_def json_not_lock [symmetric]
      split: option.splits node.splits if_splits)

lemma release_lock_read [simp]: "read_transaction E (release_lock path d) i = read_transaction E d i"
  by (simp add: read_transaction_def read_transaction_if_present_def release_lock_def)

lemma released_not_held:
  "\<lbrakk>validate_transaction_id E i = Inr (); map_of (ud_files d) (i @ ''.lock'') = Some (Regular mode bytes);
    owner_only mode\<rbrakk> \<Longrightarrow> transaction_lock_is_held E (release_lock (i @ ''.lock'') d) i = Inr False"
  by (simp add: transaction_lock_is_held_def lock_path_def release_lock_def)

text \<open>Which states a trace has made durable, relative to the phases it has executed.\<close>

definition trace_states :: "upgrade_event list \<Rightarrow> coordinator_config \<Rightarrow> bool" where
  "trace_states es m =
     (let S = map ut_state (persisted es); X = executed es
      in case m of
           At s \<Rightarrow>
             if s = Prepared then S = [] \<and> X = []
             else if s \<in> {Failed, RolledBack} then
               (X = [] \<and> S = [Failed]) \<or> (X \<noteq> [] \<and> S = Committed # butlast X @ [s])
             else if s = Completed then S = Committed # X @ [Completed]
             else S = Committed # X
         | Doing s p \<Rightarrow> X \<noteq> [] \<and> last X = p \<and> p \<notin> {Prepared, Completed, Failed, RolledBack} \<and>
             S = Committed # butlast X)"

lemma trace_states_inv:
  assumes "upgrade_trace ps es m" "\<forall>p \<in> set ps. p \<notin> {Prepared, Failed, RolledBack}"
  shows "trace_states es m"
  using assms(1)
proof (induction rule: upgrade_trace.induct)
  case trace_nil
  show ?case by (simp add: trace_states_def)
next
  case (trace_snoc es m e m')
  from trace_snoc.hyps(2) show ?case
  proof (cases rule: upgrade_step.cases)
    case (execute s p)
    with assms(2) have "p \<notin> {Prepared, Completed, Failed, RolledBack}" by (auto dest: next_phase_mem)
    with execute trace_snoc.IH show ?thesis
      by (auto simp: trace_states_def upgrade_is_terminal_def Let_def)
  next
    case (phase_done t p s)
    with trace_snoc.IH have "executed es \<noteq> []" "last (executed es) = p"
      by (simp_all add: trace_states_def Let_def)
    then have "butlast (executed es) @ [p] = executed es" using append_butlast_last_id by blast
    with phase_done trace_snoc.IH show ?thesis by (auto simp: trace_states_def Let_def)
  next
    case (phase_stopped t s p)
    with trace_snoc.IH show ?thesis by (auto simp: trace_states_def Let_def)
  next
    case (complete s t)
    with trace_snoc.IH show ?thesis by (auto simp: trace_states_def upgrade_is_terminal_def Let_def)
  qed (use trace_snoc.IH in \<open>simp_all add: trace_states_def Let_def\<close>)
qed

lemma coordinator_phases_range:
  "p \<in> set (coordinator_phases t) \<Longrightarrow> p \<notin> {Prepared, Failed, RolledBack}"
  by (auto simp: coordinator_phases_def split: if_splits)

lemma coordinator_trace_work:
  assumes "upgrade_trace (coordinator_phases t) es m"
  shows "trace_work (coordinator_phases t) es m" "trace_states es m"
  using trace_work_inv [OF assms coordinator_phases_ordered(1)] trace_states_inv [OF assms]
    coordinator_phases_ordered(2) [of _ t] coordinator_phases_range [of _ t] by auto

lemma coordinator_trace_prefix:
  "upgrade_trace (coordinator_phases t) es m \<Longrightarrow> prefix (executed es) (required_phases t)"
  using coordinator_trace_work(1) [of t es m] work_upto_prefix [OF coordinator_phases_ordered(1) [of t]]
  by (auto simp: trace_work_def coordinator_phases_ordered(5) split: coordinator_config.splits if_splits)

lemma coordinator_trace_complete:
  "upgrade_trace (coordinator_phases t) es (At Completed) \<Longrightarrow> executed es = required_phases t"
  using coordinator_trace_work(1) [of t es "At Completed"]
    work_upto_all [of 7 "coordinator_phases t"] coordinator_phases_range [of _ t]
  by (auto simp: trace_work_def coordinator_phases_ordered(5))

text \<open>The calls the transport makes on the barrier, and what the waiter sees of them.\<close>

datatype transport_call = CallCommit | CallAbort

definition call_decision :: "transport_call \<Rightarrow> commit_decision" where
  "call_decision c = (case c of CallCommit \<Rightarrow> DecisionCommitted | CallAbort \<Rightarrow> DecisionAborted)"

definition barrier_call :: "transport_call \<Rightarrow> commit_decision \<Rightarrow> anyhow + commit_decision" where
  "barrier_call c = (case c of CallCommit \<Rightarrow> barrier_commit | CallAbort \<Rightarrow> barrier_abort)"

fun barrier_changes :: "commit_decision \<Rightarrow> transport_call list \<Rightarrow> watch_change list" where
  "barrier_changes current [] = []"
| "barrier_changes current (c # cs) =
     (case barrier_call c current of
        Inl _ \<Rightarrow> barrier_changes current cs
      | Inr d \<Rightarrow> Changed d # barrier_changes d cs)"

lemma barrier_call_eval:
  "barrier_call c current = (if current = DecisionPending then Inr (call_decision c)
     else Inl (Message ''upgrade commit barrier was already decided''))"
  by (cases c) (simp_all add: barrier_call_def barrier_commit_def barrier_abort_def decide_def
      ensure_def call_decision_def)

lemma call_decision_decided [simp]: "call_decision c \<noteq> DecisionPending"
  by (cases c) (simp_all add: call_decision_def)

lemma run_coordinator_unlocked:
  assumes "acquire_transaction_lock E i d = Inr (path, d1)"
    "run_upgrade_coordinator E accepts clock ex i decision changes d = (out, r)"
  obtains r0 where "run_upgrade_coordinator_with_lock E accepts clock ex i decision changes d1 = (out, r0)"
    "rn_log r = rn_log r0" "out \<noteq> None \<Longrightarrow> rn_dir r = release_lock path (rn_dir r0)"
  using assms by (auto simp: run_upgrade_coordinator_def split: prod.splits option.splits)

definition still_waiting :: "'a run_outcome \<Rightarrow> bool" where
  "still_waiting out = (fst out = None)"

lemma still_waiting_eval [simp]:
  "still_waiting (None, r)" "\<not> still_waiting (Some x, r)"
  "still_waiting (attempt m r k) \<longleftrightarrow> (\<exists>x. m = Inr x \<and> still_waiting (k x))"
  "still_waiting (persist E accepts t r k') \<longleftrightarrow>
     (\<exists>d. write_transaction E accepts t (rn_dir r) = Inr d \<and>
        still_waiting (k' \<lparr>rn_dir = d, rn_log = rn_log r @ [Persisted t]\<rparr>))"
  by (cases m; cases "write_transaction E accepts t (rn_dir r)";
      simp add: still_waiting_def persist_def)+

lemma run_phases_returns [simp]: "\<not> still_waiting (run_phases E accepts clock ex phases t r)"
proof (induction phases arbitrary: t r)
  case (Cons p phases)
  then show ?case
    by (cases "ex_execute_phase ex p") (simp_all add: Let_def split: coordinator_step.split)
qed simp

section \<open>Properties\<close>


text \<open>Work is done in order and recorded as it is done. At every point of a run the phases
  handed to the executor are a first part of the required ones, without repetition. None was
  handed over before the commit was durable; each was made durable before the next was handed
  over; and the completed state becomes durable only after all of them.\<close>

theorem coordinator_order:
  assumes env: "upgrade_env_ok E" and read: "read_transaction E d i = Inr t" and prepared: "ut_state t = Prepared"
    and run: "run_upgrade_coordinator_with_lock E accepts clock ex i decision changes d = (out, r)"
  shows "\<exists>X S. executed (take k (rn_log r)) = X \<and> map ut_state (persisted (take k (rn_log r))) = S \<and>
    prefix X (required_phases t) \<and> distinct X \<and>
    (X = [] \<and> S \<in> {[], [Failed], [Committed]} \<or>
     X \<noteq> [] \<and> S = Committed # butlast X \<or>
     X \<noteq> [] \<and> S = Committed # X \<or>
     X \<noteq> [] \<and> S \<in> {Committed # butlast X @ [Failed], Committed # butlast X @ [RolledBack]} \<or>
     X = required_phases t \<and> S = Committed # X @ [Completed])"
proof -
  let ?es = "take k (rn_log r)"
  obtain m t' where "consistent E accepts d i (coordinator_phases t) r m t'"
    using coordinator_run_ends [OF env read prepared, of accepts clock ex decision changes] run
    by (auto simp: run_ends_def)
  from run_crash [OF env this read prepared, of k] obtain mk
    where mk: "upgrade_trace (coordinator_phases t) ?es mk" by blast
  have "distinct (required_phases t)" by (simp add: required_phases_def coordinator_phases_def butlast_append)
  with coordinator_trace_prefix [OF mk] have p: "prefix (executed ?es) (required_phases t)" "distinct (executed ?es)"
    by (auto simp: prefix_def)
  have "mk = At Completed \<Longrightarrow> executed ?es = required_phases t"
    using mk coordinator_trace_complete by blast
  with p coordinator_trace_work(2) [OF mk] show ?thesis
    by (auto simp: trace_states_def Let_def split: coordinator_config.splits if_splits)
qed

text \<open>Why a write of a record that can be read at present is refused.\<close>

lemma write_transaction_Inl:
  assumes "write_transaction E accepts t d = Inl e" and "read_transaction E d (ut_transaction_id t) = Inr t'"
  shows "validate_transaction E t = Inl e \<or>
    MAX_UPGRADE_TRANSACTION_BYTES < length (ue_to_vec E t) \<or>
    (\<exists>path. transaction_path E (ut_transaction_id t) = Inr path \<and> \<not> accepts path (ue_to_vec E t))"
proof -
  from assms(2) obtain path where "transaction_path E (ut_transaction_id t) = Inr path" "map_of (ud_files d) path \<noteq> Some Directory"
    by (cases "transaction_path E (ut_transaction_id t)"; cases "map_of (ud_files d) (projr (transaction_path E (ut_transaction_id t)))")
      (auto simp: read_transaction_def read_transaction_if_present_def split: node.splits)
  with assms(1) show ?thesis
    by (cases "validate_transaction E t") (auto simp: write_transaction_def Let_def split: if_splits)
qed

text \<open>C20. Once the transport has decided, a coordinator that found a prepared transaction returns.
  Either its status is terminal and is the status of the durable record, or it reports the error of
  a write that was refused, and the durable record is the last one before that write. A write is
  refused only by the record's own validation (an executor can report what a record may not hold),
  by its limit of 64 KiB, or by the disk.\<close>

theorem coordinator_ends:
  assumes env: "upgrade_env_ok E" and read: "read_transaction E d i = Inr t" and prepared: "ut_state t = Prepared"
    and decided: "wait_decision decision changes = Some v"
    and run: "run_upgrade_coordinator_with_lock E accepts clock ex i decision changes d = (out, r)"
  shows "\<exists>t'. read_transaction E (rn_dir r) i = Inr t' \<and>
    ((out = Some (Inr (transaction_status t')) \<and> upgrade_is_terminal (ut_state t')) \<or>
     (\<exists>e t''. out = Some (Inl e) \<and> write_transaction E accepts t'' (rn_dir r) = Inl e \<and>
        ut_transaction_id t'' = i \<and> can_transition_to (ut_state t') (ut_state t'') \<and>
        (validate_transaction E t'' = Inl e \<or> MAX_UPGRADE_TRANSACTION_BYTES < length (ue_to_vec E t'') \<or>
         (\<exists>path. transaction_path E i = Inr path \<and> \<not> accepts path (ue_to_vec E t'')))))"
proof -
  obtain m t' where c: "consistent E accepts d i (coordinator_phases t) r m t'"
    and o: "case out of None \<Rightarrow> rn_log r = []
      | Some (Inr st) \<Rightarrow> upgrade_is_terminal (ut_state t') \<and> st = transaction_status t'
      | Some (Inl e) \<Rightarrow> \<exists>t''. write_transaction E accepts t'' (rn_dir r) = Inl e \<and>
          ut_transaction_id t'' = i \<and> can_transition_to (ut_state t') (ut_state t'')"
    using coordinator_run_ends [OF env read prepared, of accepts clock ex decision changes]
    unfolding run_ends_def run fst_conv snd_conv by blast
  have "\<not> still_waiting (run_upgrade_coordinator_with_lock E accepts clock ex i decision changes d)"
    using read prepared decided
    by (simp add: run_upgrade_coordinator_with_lock_def Let_def split: commit_decision.split)
  then have "out \<noteq> None" by (simp add: run still_waiting_def)
  moreover have "read_transaction E (rn_dir r) i = Inr t'" using c by (simp add: consistent_def)
  ultimately show ?thesis
    using o by (intro exI [of _ t']) (auto split: option.splits sum.splits dest: write_transaction_Inl)
qed

text \<open>What a coordinator that returned a status has done. Without a commit decision it failed
  and executed nothing. After a commit it executed the required phases up to and including the
  first that did not continue; it completed if there was none, failed if that phase returned an
  error and rolled back if it asked to.\<close>

theorem coordinator_outcome:
  assumes read: "read_transaction E d i = Inr t"
    and run: "run_upgrade_coordinator_with_lock E accepts clock ex i decision changes d = (Some (Inr st), r)"
  shows "(wait_decision decision changes = Some DecisionCommitted \<and>
      us_state st = outcome_state ex (required_phases t) \<and>
      executed (rn_log r) = attempted_phases ex (required_phases t)) \<or>
    (wait_decision decision changes \<in> {Some DecisionAborted, Some DecisionPending} \<and>
      us_state st = Failed \<and> executed (rn_log r) = [])"
proof (cases "wait_decision decision changes = Some DecisionCommitted")
  case True
  with read run obtain t' r' where t': "set_state (clock Committed) Committed t = Inr t'"
    and r': "run_phases E accepts clock ex (coordinator_phases t') t' r' = (Some (Inr st), r)"
      "executed (rn_log r') = []"
    by (auto simp: run_upgrade_coordinator_with_lock_def Let_def attempt_success persist_success)
  from t' have "coordinator_phases t' = coordinator_phases t"
    by (simp add: set_state_Inr_iff coordinator_phases_def)
  moreover have "coordinator_phases t \<noteq> []" by (simp add: coordinator_phases_def)
  ultimately show ?thesis
    using run_phases_outcome [OF r'(1)] r'(2) coordinator_phases_ordered(3,4) [of t] True
    by (simp add: required_phases_def)
next
  case False
  with read run show ?thesis
    by (auto simp: run_upgrade_coordinator_with_lock_def Let_def attempt_success persist_success
        mark_failed_Inr_iff split: option.splits commit_decision.splits)
qed

text \<open>The barrier is decided once, by the first call of the transport: the waiter returns that
  decision whatever is called afterwards, every later call is refused, and a transport that is lost
  before it decided counts as an abort.\<close>

theorem barrier_first_decision:
  "wait_decision barrier_new (barrier_changes barrier_new calls @ [SenderDropped]) =
     Some (case calls of [] \<Rightarrow> DecisionAborted | c # _ \<Rightarrow> call_decision c) \<and>
   barrier_call c' (call_decision c) = Inl (Message ''upgrade commit barrier was already decided'')"
  by (cases calls)
    (simp_all add: barrier_call_eval barrier_new_def wait_decision.simps [of DecisionPending]
      wait_decision.simps [of "call_decision _"])

section \<open>Witnesses\<close>

definition sample_executor :: upgrade_executor where
  "sample_executor =
     \<lparr>ex_execute_phase = (\<lambda>p. if p = EndpointVerifying then Inr Rollback else Inr Continue),
      ex_restored_session_count = Some 1, ex_verified_identity = None\<rparr>"

definition sample_run :: "upgrade_status run_outcome" where
  "sample_run = run_upgrade_coordinator_with_lock sample_env (\<lambda>_ _. True) (\<lambda>_. 2) sample_executor ''1''
     DecisionCommitted [] (sample_upgrade_dir sample_upgrade)"

lemma sample_prepared: "ut_state sample_upgrade = Prepared"
  by (simp add: sample_upgrade_def new_transaction_def)

lemma sample_wait: "wait_decision DecisionCommitted [] = Some DecisionCommitted"
  by (simp add: wait_decision.simps)

theorem coordinator_order_witness:
  "\<exists>X. executed (take 3 (rn_log (snd sample_run))) = X \<and> prefix X (required_phases sample_upgrade)"
  using coordinator_order [OF sample_env_ok sample_upgrade_read sample_prepared
      surjective_pairing [of sample_run, unfolded sample_run_def], of 3]
  by (auto simp: sample_run_def)

theorem coordinator_ends_witness:
  "\<exists>t'. read_transaction sample_env (rn_dir (snd sample_run)) ''1'' = Inr t' \<and> fst sample_run \<noteq> None"
  using coordinator_ends [OF sample_env_ok sample_upgrade_read sample_prepared sample_wait
      surjective_pairing [of sample_run, unfolded sample_run_def]]
  by (auto simp: sample_run_def)

definition sample_failed :: upgrade_transaction where
  "sample_failed = sample_upgrade\<lparr>ut_state := Failed,
     ut_failure_summary := Some ''upgrade response was not delivered; destructive phase aborted'',
     ut_updated_at := 2\<rparr>"

lemma sample_failed_valid: "validate_transaction sample_env sample_failed = Inr ()"
  using sample_upgrade_valid unfolding validate_transaction_iff
  by (simp add: sample_failed_def)

lemma sample_failed_size: "length (put_ut sample_failed) \<le> MAX_UPGRADE_TRANSACTION_BYTES"
  by (simp add: sample_failed_def sample_upgrade_def new_transaction_def put_upgrade_defs
      MAX_UPGRADE_TRANSACTION_BYTES_def)

lemma sample_aborted_run:
  "run_upgrade_coordinator_with_lock sample_env (\<lambda>_ _. True) (\<lambda>_. 2) ex ''1''
     DecisionPending [SenderDropped] (sample_upgrade_dir sample_upgrade) =
   (Some (Inr (transaction_status sample_failed)),
    \<lparr>rn_dir = sample_upgrade_dir sample_failed, rn_log = [Persisted sample_failed]\<rparr>)"
proof -
  have m: "mark_failed 2 ''upgrade response was not delivered; destructive phase aborted'' sample_upgrade =
      Inr sample_failed"
    unfolding mark_failed_Inr_iff sample_failed_def sample_prepared
    by (simp only: phase_summaries) (simp add: upgrade_is_terminal_def)
  have "ut_transaction_id sample_failed = ''1''"
    by (simp add: sample_failed_def sample_upgrade_def new_transaction_def)
  then have "write_transaction sample_env (\<lambda>_ _. True) sample_failed (sample_upgrade_dir sample_upgrade) =
      Inr (sample_upgrade_dir sample_failed)"
    using sample_failed_valid sample_failed_size
    by (simp add: write_transaction_Inr_iff sample_upgrade_dir_def)
  then show ?thesis
    using m sample_upgrade_read sample_prepared
    by (simp add: run_upgrade_coordinator_with_lock_def Let_def wait_decision.simps persist_def
        del: append.simps)
qed

theorem coordinator_outcome_witness:
  "us_state (transaction_status sample_failed) = Failed \<and> executed [Persisted sample_failed] = []"
  using coordinator_outcome [OF sample_upgrade_read sample_aborted_run [of sample_executor]]
  by (simp add: wait_decision.simps)

lemma sample_acquire:
  "\<exists>d1. acquire_transaction_lock sample_env ''1'' (sample_upgrade_dir sample_upgrade) = Inr (''1.lock'', d1)"
  by (simp add: acquire_transaction_lock_def acquire_lock_def lock_path_def sample_upgrade_dir_def Let_def)


end
