(* ===== verification/Upgrade_Apply.thy ===== *)
theory Upgrade_Apply
  imports Upgrade_Coordinator
begin

text \<open>
  Admission of an upgrade: the selection and classification functions of
  \<^verbatim>\<open>src/src/upgrade_transaction.rs\<close>, and \<^verbatim>\<open>prepare_apply\<close>, \<^verbatim>\<open>run_child\<close> and \<^verbatim>\<open>status\<close> of
  \<^verbatim>\<open>src/src/upgrade_coordinator.rs\<close>.

  \<open>prepare_apply\<close> runs in the parent under the admission lock. It starts the detached child, whose
  first part, up to its \<^verbatim>\<open>READY\<close> line, is \<open>child_ready\<close>; the child keeps the transaction lock from
  there on. What the parent and the child learn from the host (the installed executable, the
  sessions of the supervisor, the host identity, the launch of a process) are the records
  \<open>apply_host\<close> and \<open>child_host\<close>; \<open>ah_clock s i\<close> is the time at which transaction \<open>i\<close> enters
  state \<open>s\<close>. Only the fields of the preflight that the code reads are kept.
\<close>

section \<open>Selection\<close>

text \<open>\<^verbatim>\<open>max_by_key\<close> returns the last of several maximal elements.\<close>

definition max_by_key :: "('a \<Rightarrow> 'k::linorder) \<Rightarrow> 'a list \<Rightarrow> 'a option" where
  "max_by_key f xs =
     foldl (\<lambda>best x. case best of None \<Rightarrow> Some x | Some y \<Rightarrow> if f y \<le> f x then Some x else Some y) None xs"

definition recency :: "upgrade_transaction \<Rightarrow> u64 \<times> u64 \<times> string" where
  "recency t = (ut_sequence t, ut_updated_at t, ut_transaction_id t)"

definition recent_transaction :: "upgrade_transaction list \<Rightarrow> upgrade_transaction option" where
  "recent_transaction ts = max_by_key recency ts"

definition next_transaction_sequence :: "upgrade_transaction list \<Rightarrow> anyhow + u64" where
  "next_transaction_sequence ts =
     ok_or (u64_checked_add (case max_by_key id (map ut_sequence ts) of None \<Rightarrow> 0 | Some n \<Rightarrow> n) 1)
       (Message ''upgrade transaction sequence is exhausted'')"

definition latest_completed_transaction :: "upgrade_transaction list \<Rightarrow> upgrade_transaction option" where
  "latest_completed_transaction ts = max_by_key recency (filter (\<lambda>t. ut_state t = Completed) ts)"

definition active_transactions :: "upgrade_transaction list \<Rightarrow> upgrade_transaction list" where
  "active_transactions ts = filter (\<lambda>t. \<not> upgrade_is_terminal (ut_state t)) ts"

datatype apply_disposition =
    StartNew
  | ExistingActive string
  | ConflictActive string
  | AlreadyCompleted string

definition classify_apply ::
  "upgrade_transaction option \<Rightarrow> upgrade_transaction option \<Rightarrow> string \<Rightarrow> apply_disposition" where
  "classify_apply active latest_completed target_version =
     (case active of
        Some a \<Rightarrow>
          if ut_target_version a = target_version then ExistingActive (ut_transaction_id a)
          else ConflictActive (ut_transaction_id a)
      | None \<Rightarrow>
          (case latest_completed of
             Some c \<Rightarrow> if ut_target_version c = target_version then AlreadyCompleted (ut_transaction_id c)
                       else StartNew
           | None \<Rightarrow> StartNew))"

definition admit_apply :: "upgrade_transaction list \<Rightarrow> string \<Rightarrow> anyhow + apply_disposition" where
  "admit_apply ts target_version =
     (let active = active_transactions ts
      in ensure (length active \<le> 1)
           (Message ''active upgrade transactions already own the local runtime'')
           (Inr (classify_apply (case active of [] \<Rightarrow> None | a # _ \<Rightarrow> Some a)
              (latest_completed_transaction ts) target_version)))"

definition classify_persisted_apply :: "upgrade_env \<Rightarrow> upgrade_dir \<Rightarrow> string \<Rightarrow> anyhow + apply_disposition" where
  "classify_persisted_apply E d target_version =
     and_then (load_transactions E d) (\<lambda>ts. admit_apply ts target_version)"

definition transaction_for_health :: "upgrade_transaction list \<Rightarrow> upgrade_transaction option" where
  "transaction_for_health ts =
     (case active_transactions ts of
        [t] \<Rightarrow> Some t
      | [] \<Rightarrow> recent_transaction ts
      | _ \<Rightarrow> None)"

text \<open>The health probe scans in directory order, gives up on more than 64 records and leaves out
  the ones it cannot read.\<close>

fun health_ids :: "upgrade_env \<Rightarrow> string list \<Rightarrow> string list \<Rightarrow> string list option" where
  "health_ids E [] ids = Some ids"
| "health_ids E (name # names) ids =
     (case strip_suffix ''.json'' name of
        None \<Rightarrow> health_ids E names ids
      | Some i \<Rightarrow>
          if \<not> is_ok (validate_transaction_id E i) then health_ids E names ids
          else if MAX_UPGRADE_TRANSACTIONS < length (ids @ [i]) then None
          else health_ids E names (ids @ [i]))"

definition latest_transaction_id :: "upgrade_env \<Rightarrow> upgrade_dir \<Rightarrow> string option" where
  "latest_transaction_id E d =
     Option.bind (health_ids E (map fst (ud_files d)) []) (\<lambda>ids.
       let ts = List.map_filter (\<lambda>i. case read_transaction E d i of Inl _ \<Rightarrow> None | Inr t \<Rightarrow> Some t) ids
       in map_option ut_transaction_id (transaction_for_health ts))"

definition upgrade_status_of :: "upgrade_env \<Rightarrow> upgrade_dir \<Rightarrow> string \<Rightarrow> anyhow + upgrade_status" where
  "upgrade_status_of E d i =
     and_then (read_transaction E d i) (\<lambda>t.
     and_then (if \<not> upgrade_is_terminal (ut_state t)
               then and_then (transaction_lock_is_held E d i) (\<lambda>h. Inr (Some h)) else Inr None) (\<lambda>alive.
       Inr ((transaction_status t)\<lparr>us_coordinator_alive := alive, us_incomplete := (alive = Some False)\<rparr>)))"

section \<open>The child\<close>

record upgrade_candidate =
  ie_target_version :: string
  ie_digest_hex :: string

text \<open>The reads of the executable, chunk by chunk, until an empty one.\<close>

fun copy_bounded :: "nat \<Rightarrow> string list \<Rightarrow> anyhow + string" where
  "copy_bounded copied [] = Inr []"
| "copy_bounded copied (chunk # chunks) =
     (if chunk = [] then Inr []
      else ensure (copied + length chunk \<le> 256 * 1024 * 1024)
             (Message ''coordinator executable exceeds bounded identity size'') (
           and_then (copy_bounded (copied + length chunk) chunks) (\<lambda>rest. Inr (chunk @ rest))))"

definition bounded_file_digest_hex :: "(string \<Rightarrow> string) \<Rightarrow> string list \<Rightarrow> anyhow + string" where
  "bounded_file_digest_hex sha256_hex chunks =
     and_then (copy_bounded 0 chunks) (\<lambda>bytes. Inr (sha256_hex bytes))"

definition validate_approved_candidate_identity ::
  "upgrade_transaction \<Rightarrow> string \<Rightarrow> string \<Rightarrow> anyhow + unit" where
  "validate_approved_candidate_identity t target_version digest_hex =
     ensure (target_version = ut_target_version t)
       (Message ''coordinator executable target version mismatch'') (
     and_then (ok_or (ut_approved_executable_sha256 t)
         (Message ''upgrade transaction has no approved executable identity'')) (\<lambda>approved.
     ensure (digest_hex = approved)
       (Message ''installed Temote executable changed after approval'') (Inr ())))"

definition validate_approved_candidate :: "upgrade_transaction \<Rightarrow> upgrade_candidate \<Rightarrow> anyhow + unit" where
  "validate_approved_candidate t x =
     validate_approved_candidate_identity t (ie_target_version x) (ie_digest_hex x)"

record child_host =
  ch_pkg_version :: string
  ch_running_digest :: "anyhow + string"
  ch_capture_installed :: "anyhow + upgrade_candidate"
  ch_verify_planned_sessions :: "planned_session list \<Rightarrow> bool \<Rightarrow> anyhow + nat"
  ch_write_ready :: "anyhow + unit"

text \<open>The checks between taking the lock and the \<^verbatim>\<open>READY\<close> line. A child that fails has dropped
  the lock.\<close>

definition child_checks ::
  "upgrade_env \<Rightarrow> child_host \<Rightarrow> string \<Rightarrow> string \<Rightarrow> upgrade_dir \<Rightarrow> anyhow + (upgrade_transaction \<times> upgrade_candidate)" where
  "child_checks E ch i running_digest d =
     and_then (read_transaction E d i) (\<lambda>t.
     and_then (ch_capture_installed ch) (\<lambda>x.
     and_then (validate_approved_candidate_identity t (ch_pkg_version ch) running_digest) (\<lambda>_.
     and_then (validate_approved_candidate t x) (\<lambda>_.
     and_then (ch_verify_planned_sessions ch (ut_planned_sessions t) True) (\<lambda>_.
     and_then (ch_write_ready ch) (\<lambda>_. Inr (t, x)))))))"

definition child_ready ::
  "upgrade_env \<Rightarrow> child_host \<Rightarrow> string \<Rightarrow> int \<Rightarrow> int \<Rightarrow> upgrade_dir
     \<Rightarrow> (anyhow + (upgrade_transaction \<times> upgrade_candidate)) \<times> upgrade_dir" where
  "child_ready E ch i commit_fd executable_fd d =
     (case ensure (3 \<le> commit_fd) (Message ''invalid coordinator commit FD'') (
           ensure (3 \<le> executable_fd \<and> executable_fd \<noteq> commit_fd)
             (Message ''invalid coordinator executable FD'') (
           and_then (ch_running_digest ch) (\<lambda>digest.
           and_then (acquire_transaction_lock E i d) (\<lambda>(path, d1). Inr (digest, path, d1))))) of
        Inl e \<Rightarrow> (Inl e, d)
      | Inr (digest, path, d1) \<Rightarrow>
          (case child_checks E ch i digest d1 of
             Inl e \<Rightarrow> (Inl e, release_lock path d1)
           | Inr tx \<Rightarrow> (Inr tx, d1)))"

text \<open>\<open>line\<close> is what was read from the parent: \<open>None\<close> when the read failed or timed out.\<close>

definition child_decision :: "string option \<Rightarrow> anyhow + commit_decision" where
  "child_decision line =
     (if line = Some (''COMMIT'' @ [CHR 0x0A]) then barrier_commit barrier_new else barrier_abort barrier_new)"

definition run_child ::
  "upgrade_env \<Rightarrow> (string \<Rightarrow> string \<Rightarrow> bool) \<Rightarrow> (upgrade_state \<Rightarrow> u64) \<Rightarrow> child_host
     \<Rightarrow> (upgrade_transaction \<Rightarrow> upgrade_candidate \<Rightarrow> upgrade_executor) \<Rightarrow> (upgrade_candidate \<Rightarrow> anyhow + unit)
     \<Rightarrow> string \<Rightarrow> int \<Rightarrow> int \<Rightarrow> string option \<Rightarrow> upgrade_dir \<Rightarrow> unit run_outcome" where
  "run_child E accepts clock ch executor_new revalidate i commit_fd executable_fd line d =
     (case child_ready E ch i commit_fd executable_fd d of
        (Inl e, d1) \<Rightarrow> (Some (Inl e), \<lparr>rn_dir = d1, rn_log = []\<rparr>)
      | (Inr (t, x), d1) \<Rightarrow>
          (case and_then (child_decision line) (\<lambda>decision. and_then (revalidate x) (\<lambda>_. Inr decision)) of
             Inl e \<Rightarrow> (Some (Inl e), \<lparr>rn_dir = release_lock (i @ ''.lock'') d1, rn_log = []\<rparr>)
           | Inr decision \<Rightarrow>
               (case run_upgrade_coordinator_with_lock E accepts clock (executor_new t x) i decision [] d1 of
                  (res, r) \<Rightarrow>
                    (map_option (\<lambda>m. and_then m (\<lambda>_. Inr ())) res,
                     r\<lparr>rn_dir := release_lock (i @ ''.lock'') (rn_dir r)\<rparr>))))"

section \<open>The parent\<close>

datatype helper_generation = Compatible | Incompatible | Unavailable

record upgrade_preflight =
  pf_source_version :: string
  pf_supervisor_handoff_required :: bool
  pf_blocked_session_count :: nat
  pf_direct_ingress_action :: string
  pf_direct_ingress_blocked :: bool
  pf_reconnect_expected :: bool
  pf_helper_generation :: helper_generation
  pf_planned_sessions :: "planned_session list"

record activity_context =
  ac_session :: planned_session
  ac_operation_id :: uuid

record apply_host =
  ah_revalidate :: "anyhow + unit"
  ah_verify_planned_sessions :: "planned_session list \<Rightarrow> bool \<Rightarrow> anyhow + nat"
  ah_resolve_host_id :: "anyhow + string"
  ah_boot_generation :: string
  ah_clock :: "upgrade_state \<Rightarrow> string \<Rightarrow> u64"
  ah_new_id :: string
  ah_launch :: "anyhow + unit"
  ah_child :: child_host
  ah_commit_fd :: int
  ah_executable_fd :: int

record prepared_upgrade =
  pu_status :: upgrade_status
  pu_commit :: bool
  pu_accepted_new :: bool

definition completed_upgrade_is_current ::
  "upgrade_transaction \<Rightarrow> upgrade_preflight \<Rightarrow> string \<Rightarrow> anyhow + bool" where
  "completed_upgrade_is_current completed pf approved_digest =
     (if pf_supervisor_handoff_required pf \<or> pf_direct_ingress_action pf = ''restart'' then Inr False
      else ensure (ut_approved_executable_sha256 completed = Some approved_digest)
             (Message ''completed upgrade identity does not match the installed candidate'') (Inr True))"

definition prepared_transaction_from_approved ::
  "u64 \<Rightarrow> string \<Rightarrow> upgrade_preflight \<Rightarrow> string \<Rightarrow> string \<Rightarrow> string \<Rightarrow> string \<Rightarrow> u64 \<Rightarrow> upgrade_transaction" where
  "prepared_transaction_from_approved now new_id pf target_version approved host_id boot sequence =
     (new_transaction now new_id (pf_source_version pf) target_version host_id boot
        (pf_reconnect_expected pf) (pf_supervisor_handoff_required pf)
        (pf_direct_ingress_action pf = ''restart''))
       \<lparr>ut_planned_session_count := length (pf_planned_sessions pf), ut_sequence := sequence,
        ut_planned_sessions := pf_planned_sessions pf, ut_approved_executable_sha256 := Some approved\<rparr>"

text \<open>Launching the child and waiting for \<^verbatim>\<open>READY\<close>.\<close>

definition spawn_coordinator :: "upgrade_env \<Rightarrow> apply_host \<Rightarrow> string \<Rightarrow> upgrade_dir \<Rightarrow> (anyhow + unit) \<times> upgrade_dir" where
  "spawn_coordinator E ah i d =
     (case ah_launch ah of
        Inl e \<Rightarrow> (Inl e, d)
      | Inr _ \<Rightarrow>
          (case child_ready E (ah_child ah) i (ah_commit_fd ah) (ah_executable_fd ah) d of
             (Inl _, d1) \<Rightarrow> (Inl (Message ''upgrade coordinator failed before READY''), d1)
           | (Inr _, d1) \<Rightarrow> (Inr (), d1)))"

fun terminalize_loop ::
  "upgrade_env \<Rightarrow> (string \<Rightarrow> string \<Rightarrow> bool) \<Rightarrow> (string \<Rightarrow> u64) \<Rightarrow> upgrade_transaction list
     \<Rightarrow> upgrade_dir \<Rightarrow> (anyhow + unit) \<times> upgrade_dir" where
  "terminalize_loop E accepts now [] d = (Inr (), d)"
| "terminalize_loop E accepts now (t # ts) d =
     (if ut_state t \<noteq> Prepared then terminalize_loop E accepts now ts d
      else case transaction_lock_is_held E d (ut_transaction_id t) of
          Inl e \<Rightarrow> (Inl e, d)
        | Inr True \<Rightarrow> terminalize_loop E accepts now ts d
        | Inr False \<Rightarrow>
            (case and_then (mark_failed (now (ut_transaction_id t))
                ''prepared coordinator owner disappeared before commit'' t)
                (\<lambda>t'. write_transaction E accepts t' d) of
               Inl e \<Rightarrow> (Inl e, d)
             | Inr d' \<Rightarrow> terminalize_loop E accepts now ts d'))"

definition start_new ::
  "upgrade_env \<Rightarrow> (string \<Rightarrow> string \<Rightarrow> bool) \<Rightarrow> apply_host \<Rightarrow> upgrade_candidate \<Rightarrow> upgrade_preflight
     \<Rightarrow> activity_context option \<Rightarrow> u64 \<Rightarrow> upgrade_dir \<Rightarrow> (anyhow + prepared_upgrade) \<times> upgrade_dir" where
  "start_new E accepts ah x pf activity sequence d =
     (case ah_resolve_host_id ah of
        Inl e \<Rightarrow> (Inl e, d)
      | Inr host_id \<Rightarrow>
          let t0 = prepared_transaction_from_approved (ah_clock ah Prepared (ah_new_id ah)) (ah_new_id ah) pf (ie_target_version x)
                     (ie_digest_hex x) host_id (ah_boot_generation ah) sequence;
              t = (case activity of None \<Rightarrow> t0
                   | Some a \<Rightarrow> t0\<lparr>ut_transaction_id := ue_to_string E (ac_operation_id a),
                                  ut_activity_session := Some (ac_session a)\<rparr>)
          in case write_transaction E accepts t d of
               Inl e \<Rightarrow> (Inl e, d)
             | Inr d1 \<Rightarrow>
                 (case spawn_coordinator E ah (ut_transaction_id t) d1 of
                    (Inr _, d2) \<Rightarrow> (Inr \<lparr>pu_status = transaction_status t, pu_commit = True, pu_accepted_new = True\<rparr>, d2)
                  | (Inl e, d2) \<Rightarrow>
                      (case and_then (mark_failed (ah_clock ah Failed (ut_transaction_id t))
                          ''upgrade coordinator failed before commit'' t)
                          (\<lambda>t'. write_transaction E accepts t' d2) of
                         Inl e' \<Rightarrow> (Inl e', d2)
                       | Inr d3 \<Rightarrow> (Inl e, d3))))"

definition admitted_apply ::
  "upgrade_env \<Rightarrow> (string \<Rightarrow> string \<Rightarrow> bool) \<Rightarrow> apply_host \<Rightarrow> upgrade_candidate \<Rightarrow> upgrade_preflight
     \<Rightarrow> activity_context option \<Rightarrow> upgrade_dir \<Rightarrow> (anyhow + prepared_upgrade) \<times> upgrade_dir" where
  "admitted_apply E accepts ah x pf activity d =
     (case and_then (load_transactions E d) (\<lambda>persisted.
           and_then (next_transaction_sequence persisted) (\<lambda>sequence.
           and_then (admit_apply persisted (ie_target_version x)) (\<lambda>disposition. Inr (sequence, disposition)))) of
        Inl e \<Rightarrow> (Inl e, d)
      | Inr (sequence, ExistingActive i) \<Rightarrow>
          (and_then (read_transaction E d i) (\<lambda>t.
             Inr \<lparr>pu_status = transaction_status t, pu_commit = False, pu_accepted_new = False\<rparr>), d)
      | Inr (sequence, AlreadyCompleted i) \<Rightarrow>
          (case and_then (read_transaction E d i) (\<lambda>completed.
                and_then (completed_upgrade_is_current completed pf (ie_digest_hex x)) (\<lambda>current.
                  Inr (completed, current))) of
             Inl e \<Rightarrow> (Inl e, d)
           | Inr (completed, current) \<Rightarrow>
               if current then (Inr \<lparr>pu_status = transaction_status completed, pu_commit = False,
                                      pu_accepted_new = False\<rparr>, d)
               else start_new E accepts ah x pf activity sequence d)
      | Inr (sequence, ConflictActive i) \<Rightarrow>
          (Inl (Message ''upgrade transaction already owns the runtime for a different target''), d)
      | Inr (sequence, StartNew) \<Rightarrow> start_new E accepts ah x pf activity sequence d)"

definition apply_preconditions ::
  "apply_host \<Rightarrow> upgrade_candidate \<Rightarrow> upgrade_preflight \<Rightarrow> string option \<Rightarrow> anyhow + unit" where
  "apply_preconditions ah x pf expected_version =
     ensure (case expected_version of None \<Rightarrow> True | Some v \<Rightarrow> v = ie_target_version x)
       (Message ''installed target version changed'') (
     ensure (pf_blocked_session_count pf = 0) (Message ''upgrade is blocked by session(s)'') (
     ensure (\<not> pf_direct_ingress_blocked pf) (Message ''direct ingress upgrade is blocked'') (
     ensure (pf_helper_generation pf = Compatible)
       (Message ''sandbox helper generation is not compatible with the running supervisor'')
       (ah_revalidate ah))))"

definition prepare_apply ::
  "upgrade_env \<Rightarrow> (string \<Rightarrow> string \<Rightarrow> bool) \<Rightarrow> apply_host \<Rightarrow> upgrade_candidate \<Rightarrow> upgrade_preflight
     \<Rightarrow> string option \<Rightarrow> activity_context option \<Rightarrow> upgrade_dir \<Rightarrow> (anyhow + prepared_upgrade) \<times> upgrade_dir" where
  "prepare_apply E accepts ah x pf expected_version activity d =
     (case and_then (apply_preconditions ah x pf expected_version) (\<lambda>_. acquire_admission_lock d) of
        Inl e \<Rightarrow> (Inl e, d)
      | Inr d1 \<Rightarrow>
          (case and_then (ah_verify_planned_sessions ah (pf_planned_sessions pf) True) (\<lambda>_. load_transactions E d1) of
             Inl e \<Rightarrow> (Inl e, release_lock ''admission.lock'' d1)
           | Inr ts \<Rightarrow>
               (case terminalize_loop E accepts (ah_clock ah Failed) ts d1 of
                  (Inl e, d2) \<Rightarrow> (Inl e, release_lock ''admission.lock'' d2)
                | (Inr _, d2) \<Rightarrow>
                    (case admitted_apply E accepts ah x pf activity d2 of
                       (res, d3) \<Rightarrow> (res, release_lock ''admission.lock'' d3)))))"

section \<open>Selection is by recency\<close>

lemma max_by_key_snoc:
  "max_by_key f (xs @ [x]) =
     (case max_by_key f xs of None \<Rightarrow> Some x | Some y \<Rightarrow> if f y \<le> f x then Some x else Some y)"
  by (simp add: max_by_key_def)

lemma max_by_key_None_iff [simp]: "max_by_key f xs = None \<longleftrightarrow> xs = []"
  by (cases xs rule: rev_cases) (auto simp: max_by_key_snoc max_by_key_def split: option.split)

lemma max_by_key_Some:
  "max_by_key f xs = Some m \<Longrightarrow> m \<in> set xs \<and> (\<forall>x \<in> set xs. f x \<le> f m)"
proof (induction xs arbitrary: m rule: rev_induct)
  case (snoc x xs)
  then show ?case
    by (cases "max_by_key f xs") (fastforce simp: max_by_key_snoc split: if_splits)+
qed (simp add: max_by_key_def)

lemma next_sequence_above:
  assumes "next_transaction_sequence ts = Inr n" "t \<in> set ts"
  shows "ut_sequence t < n"
proof -
  from assms(2) obtain m where m: "max_by_key id (map ut_sequence ts) = Some m"
    by (cases "max_by_key id (map ut_sequence ts)") auto
  then have "ut_sequence t \<le> m" using max_by_key_Some [OF m] assms(2) by simp
  moreover from assms(1) m have "unat m + 1 < 2 ^ 64" "n = m + 1"
    by (simp_all add: next_transaction_sequence_def)
  then have "m < n" using unat_u64_add [of m 1] by (simp add: word_less_nat_alt)
  ultimately show ?thesis by simp
qed

section \<open>Frames\<close>

definition active :: "upgrade_env \<Rightarrow> upgrade_dir \<Rightarrow> string \<Rightarrow> bool" where
  "active E d i \<longleftrightarrow> (\<exists>t. read_transaction E d i = Inr t \<and> \<not> upgrade_is_terminal (ut_state t))"

lemma write_lock_held:
  "write_transaction E accepts t d = Inr d' \<Longrightarrow> transaction_lock_is_held E d' i = transaction_lock_is_held E d i"
  by (cases "validate_transaction_id E i")
    (auto simp: transaction_lock_is_held_def lock_path_def write_transaction_Inr_iff update_conv
      json_not_lock [symmetric] split: option.split node.split)

lemma write_active:
  assumes "upgrade_env_ok E" "write_transaction E accepts t d = Inr d'"
  shows "active E d' i \<longleftrightarrow>
    (if i = ut_transaction_id t then \<not> upgrade_is_terminal (ut_state t) else active E d i)"
  using write_read_transaction [OF assms, of i] by (auto simp: active_def)

lemma release_lock_active [simp]: "active E (release_lock path d) i = active E d i"
  by (simp add: active_def)

lemma release_other_lock_held:
  "path \<noteq> i @ ''.lock'' \<Longrightarrow> transaction_lock_is_held E (release_lock path d) i = transaction_lock_is_held E d i"
  by (cases "validate_transaction_id E i")
    (simp_all add: transaction_lock_is_held_def lock_path_def release_lock_def split: option.split node.split)

lemma acquire_lock_frame:
  assumes "acquire_lock busy path d = Inr d1" "path = p @ ''.lock''"
  shows "read_transaction E d1 i = read_transaction E d i"
    "i \<noteq> p \<Longrightarrow> transaction_lock_is_held E d1 i = transaction_lock_is_held E d i"
    "distinct (map fst (ud_files d)) \<Longrightarrow> distinct (map fst (ud_files d1))"
proof -
  obtain fs where d1: "d1 = \<lparr>ud_files = fs, ud_held = path # ud_held d\<rparr>"
    and fs: "fs = ud_files d \<or> fs = AList.update path (Regular 384 []) (ud_files d)"
    using assms(1)
    by (cases d) (auto simp: acquire_lock_def Let_def split: option.splits node.splits if_splits)
  then show "read_transaction E d1 i = read_transaction E d i"
    using assms(2)
    by (cases "validate_transaction_id E i")
      (auto simp: read_transaction_def read_transaction_if_present_def transaction_path_def update_conv)
  show "i \<noteq> p \<Longrightarrow> transaction_lock_is_held E d1 i = transaction_lock_is_held E d i"
    using assms(2) d1 fs
    by (cases "validate_transaction_id E i")
      (auto simp: transaction_lock_is_held_def lock_path_def update_conv split: option.split node.split)
  show "distinct (map fst (ud_files d)) \<Longrightarrow> distinct (map fst (ud_files d1))"
    using d1 fs by (auto simp: distinct_update)
qed

lemma load_covers:
  assumes "load_transactions E d = Inr ts"
  shows "t \<in> set ts \<longleftrightarrow> read_transaction E d (ut_transaction_id t) = Inr t"
proof -
  from assms obtain ids where ids: "list_transaction_ids E d = Inr ids"
    and all: "list_all2 (\<lambda>i t. read_transaction E d i = Inr t) ids ts"
    by (auto simp: load_transactions_iff)
  show ?thesis
  proof
    assume "t \<in> set ts"
    then obtain k where "k < length ts" "ts ! k = t" by (auto simp: in_set_conv_nth)
    with all have "read_transaction E d (ids ! k) = Inr t" by (auto simp: list_all2_conv_all_nth)
    then show "read_transaction E d (ut_transaction_id t) = Inr t" using read_transaction_valid by metis
  next
    assume r: "read_transaction E d (ut_transaction_id t) = Inr t"
    then have "ut_transaction_id t \<in> set ids"
      using read_transaction_valid [OF r] list_transaction_ids_set [OF ids]
      by (auto simp: read_transaction_iff read_if_present_Some_iff)
    then obtain k where k: "k < length ids" "ids ! k = ut_transaction_id t" by (auto simp: in_set_conv_nth)
    with all r have "k < length ts" "ts ! k = t" by (auto simp: list_all2_conv_all_nth)
    then show "t \<in> set ts" by auto
  qed
qed

lemma admit_no_active:
  assumes "load_transactions E d = Inr ts" "active_transactions ts = []"
  shows "\<not> active E d i"
proof
  assume "active E d i"
  then obtain t where t: "read_transaction E d i = Inr t" "\<not> upgrade_is_terminal (ut_state t)"
    by (auto simp: active_def)
  with load_covers [OF assms(1)] have "t \<in> set ts" using read_transaction_valid by metis
  with t assms(2) show False by (auto simp: active_transactions_def filter_empty_conv)
qed

lemma admit_apply_cases:
  assumes "admit_apply ts target = Inr disposition"
  shows "case disposition of
      StartNew \<Rightarrow> active_transactions ts = []
    | AlreadyCompleted i \<Rightarrow> active_transactions ts = [] \<and>
        (\<exists>t \<in> set ts. ut_transaction_id t = i \<and> ut_state t = Completed \<and> ut_target_version t = target)
    | ExistingActive i \<Rightarrow> \<exists>t. active_transactions ts = [t] \<and> ut_transaction_id t = i \<and> ut_target_version t = target
    | ConflictActive i \<Rightarrow> \<exists>t. active_transactions ts = [t] \<and> ut_transaction_id t = i \<and> ut_target_version t \<noteq> target"
proof (cases "active_transactions ts")
  case Nil
  with assms show ?thesis
    by (auto simp: admit_apply_def classify_apply_def latest_completed_transaction_def Let_def
        dest!: max_by_key_Some split: option.splits if_splits)
next
  case (Cons a as)
  with assms show ?thesis
    by (auto simp: admit_apply_def classify_apply_def Let_def split: if_splits)
qed

lemma acquire_transaction_lock_frame:
  assumes "acquire_transaction_lock E i d = Inr (path, d1)"
  shows "path = i @ ''.lock''" "read_transaction E d1 j = read_transaction E d j"
    "transaction_lock_is_held E d1 i = Inr True"
    "j \<noteq> i \<Longrightarrow> transaction_lock_is_held E d1 j = transaction_lock_is_held E d j"
proof -
  from assms have l: "acquire_lock ''upgrade transaction is owned by another live process'' (i @ ''.lock'') d = Inr d1"
    and p: "path = i @ ''.lock''" by (auto simp: acquire_transaction_lock_def lock_path_def)
  show "path = i @ ''.lock''" by (rule p)
  show "read_transaction E d1 j = read_transaction E d j" by (rule acquire_lock_frame(1) [OF l refl])
  show "j \<noteq> i \<Longrightarrow> transaction_lock_is_held E d1 j = transaction_lock_is_held E d j"
    by (rule acquire_lock_frame(2) [OF l refl])
  show "transaction_lock_is_held E d1 i = Inr True"
    using acquire_transaction_lock_Inr [OF assms] by (auto simp: transaction_lock_is_held_def lock_path_def)
qed

lemma child_ready_frame:
  assumes "child_ready E ch i commit_fd executable_fd d = (res, d')"
  shows "read_transaction E d' j = read_transaction E d j"
    "j \<noteq> i \<Longrightarrow> transaction_lock_is_held E d' j = transaction_lock_is_held E d j"
    "res = Inr (t, x) \<Longrightarrow> transaction_lock_is_held E d' i = Inr True \<and> read_transaction E d i = Inr t \<and>
       validate_approved_candidate t x = Inr ()"
proof -
  consider e where "res = Inl e" "d' = d"
    | path d1 where "acquire_transaction_lock E i d = Inr (path, d1)"
        "(\<exists>e. res = Inl e \<and> d' = release_lock path d1) \<or>
         (\<exists>digest t x. res = Inr (t, x) \<and> d' = d1 \<and> child_checks E ch i digest d1 = Inr (t, x))"
  proof -
    let ?m = "ensure (3 \<le> commit_fd) (Message ''invalid coordinator commit FD'') (
           ensure (3 \<le> executable_fd \<and> executable_fd \<noteq> commit_fd)
             (Message ''invalid coordinator executable FD'') (
           and_then (ch_running_digest ch) (\<lambda>digest.
           and_then (acquire_transaction_lock E i d) (\<lambda>(path, d1). Inr (digest, path, d1)))))"
    show thesis
    proof (cases ?m)
      case (Inl e)
      with assms that(1) [of e] show thesis by (simp add: child_ready_def)
    next
      case (Inr m)
      then obtain digest path d1 where m: "m = (digest, path, d1)" "acquire_transaction_lock E i d = Inr (path, d1)"
        by auto
      have "(res, d') = (case child_checks E ch i digest d1 of
          Inl e \<Rightarrow> (Inl e, release_lock path d1) | Inr tx \<Rightarrow> (Inr tx, d1))"
        using assms Inr m(1) by (simp add: child_ready_def)
      then have "(\<exists>e. res = Inl e \<and> d' = release_lock path d1) \<or>
          (\<exists>digest t x. res = Inr (t, x) \<and> d' = d1 \<and> child_checks E ch i digest d1 = Inr (t, x))"
        by (cases "child_checks E ch i digest d1") (simp_all, metis surj_pair)
      with m(2) that(2) show thesis by blast
    qed
  qed
  then have "read_transaction E d' j = read_transaction E d j \<and>
      (j \<noteq> i \<longrightarrow> transaction_lock_is_held E d' j = transaction_lock_is_held E d j) \<and>
      (res = Inr (t, x) \<longrightarrow> transaction_lock_is_held E d' i = Inr True \<and> read_transaction E d i = Inr t \<and>
       validate_approved_candidate t x = Inr ())"
  proof cases
    case (2 path d1)
    note frame = acquire_transaction_lock_frame [OF 2(1)]
    have "j \<noteq> i \<Longrightarrow> transaction_lock_is_held E (release_lock path d1) j = transaction_lock_is_held E d j"
      using frame by (simp add: release_other_lock_held)
    with 2(2) frame show ?thesis by (auto simp: child_checks_def)
  qed simp
  then show "read_transaction E d' j = read_transaction E d j"
    "j \<noteq> i \<Longrightarrow> transaction_lock_is_held E d' j = transaction_lock_is_held E d j"
    "res = Inr (t, x) \<Longrightarrow> transaction_lock_is_held E d' i = Inr True \<and> read_transaction E d i = Inr t \<and>
       validate_approved_candidate t x = Inr ()" by simp_all
qed

lemma spawn_coordinator_frame:
  assumes "spawn_coordinator E ah i d = (res, d')"
  shows "read_transaction E d' j = read_transaction E d j"
    "res = Inr u \<Longrightarrow> transaction_lock_is_held E d' i = Inr True"
proof -
  consider e where "res = Inl e" "d' = d"
    | r where "child_ready E (ah_child ah) i (ah_commit_fd ah) (ah_executable_fd ah) d = (r, d')"
        "res = Inr u \<longrightarrow> (\<exists>t x. r = Inr (t, x))"
  proof (cases "ah_launch ah")
    case (Inl e)
    with assms that(1) [of e] show thesis by (simp add: spawn_coordinator_def)
  next
    case (Inr v)
    obtain r d1 where c: "child_ready E (ah_child ah) i (ah_commit_fd ah) (ah_executable_fd ah) d = (r, d1)"
      by (cases "child_ready E (ah_child ah) i (ah_commit_fd ah) (ah_executable_fd ah) d")
    with assms Inr that(2) show thesis by (cases r) (auto simp: spawn_coordinator_def)
  qed
  then have "read_transaction E d' j = read_transaction E d j \<and>
      (res = Inr u \<longrightarrow> transaction_lock_is_held E d' i = Inr True)"
    by cases (auto dest: child_ready_frame)
  then show "read_transaction E d' j = read_transaction E d j"
    "res = Inr u \<Longrightarrow> transaction_lock_is_held E d' i = Inr True" by simp_all
qed

section \<open>The sweep\<close>

text \<open>An ownerless prepared record: no commit can have been observed for it.\<close>

definition abandoned :: "upgrade_env \<Rightarrow> upgrade_dir \<Rightarrow> upgrade_transaction \<Rightarrow> bool" where
  "abandoned E d t \<longleftrightarrow>
     ut_state t = Prepared \<and> transaction_lock_is_held E d (ut_transaction_id t) = Inr False"

lemma terminalize_step:
  assumes "upgrade_env_ok E"
    "and_then (mark_failed now summary t) (\<lambda>t'. write_transaction E accepts t' d) = Inr d'"
  shows "read_transaction E d' i = (if i = ut_transaction_id t
      then Inr (t\<lparr>ut_state := Failed, ut_failure_summary := Some summary, ut_updated_at := now\<rparr>)
      else read_transaction E d i)"
    "transaction_lock_is_held E d' i = transaction_lock_is_held E d i"
proof -
  let ?t = "t\<lparr>ut_state := Failed, ut_failure_summary := Some summary, ut_updated_at := now\<rparr>"
  from assms(2) have w: "write_transaction E accepts ?t d = Inr d'" by (auto simp: mark_failed_Inr_iff)
  from write_read_transaction [OF assms(1) w, of i] write_lock_held [OF w]
  show "read_transaction E d' i = (if i = ut_transaction_id t then Inr ?t else read_transaction E d i)"
    "transaction_lock_is_held E d' i = transaction_lock_is_held E d i" by simp_all
qed

lemma terminalize_loop_frame:
  assumes env: "upgrade_env_ok E"
  shows "\<lbrakk>terminalize_loop E accepts now ts d = (res, d'); distinct (map ut_transaction_id ts);
      \<forall>t \<in> set ts. read_transaction E d (ut_transaction_id t) = Inr t\<rbrakk>
    \<Longrightarrow> (read_transaction E d' i = read_transaction E d i \<or>
          (\<exists>t t'. t \<in> set ts \<and> ut_transaction_id t = i \<and> abandoned E d t \<and>
             read_transaction E d' i = Inr t' \<and> ut_state t' = Failed)) \<and>
        transaction_lock_is_held E d' i = transaction_lock_is_held E d i"
proof (induction ts arbitrary: d)
  case (Cons t ts)
  note r = Cons.prems(1)
  show ?case
  proof (cases "abandoned E d t")
    case False
    then have "(\<exists>e. (res, d') = (Inl e, d)) \<or> terminalize_loop E accepts now ts d = (res, d')"
      using r
      by (cases "transaction_lock_is_held E d (ut_transaction_id t)")
        (auto simp: abandoned_def split: if_split_asm bool.split_asm)
    then show ?thesis
    proof
      assume "terminalize_loop E accepts now ts d = (res, d')"
      from Cons.IH [OF this] Cons.prems(2,3) show ?thesis by auto
    qed auto
  next
    case True
    let ?step = "and_then (mark_failed (now (ut_transaction_id t))
      ''prepared coordinator owner disappeared before commit'' t) (\<lambda>t'. write_transaction E accepts t' d)"
    from True r have r': "(case ?step of Inl e \<Rightarrow> (Inl e, d) | Inr d' \<Rightarrow> terminalize_loop E accepts now ts d') = (res, d')"
      by (simp add: abandoned_def)
    show ?thesis
    proof (cases ?step)
      case (Inl e)
      with r' show ?thesis by simp
    next
      case (Inr d1)
      note st = terminalize_step [OF env Inr]
      from r' Inr have rest: "terminalize_loop E accepts now ts d1 = (res, d')" by simp
      have same: "read_transaction E d1 (ut_transaction_id u) = Inr u" if u: "u \<in> set ts" for u
      proof -
        from u Cons.prems(2) have "ut_transaction_id u \<noteq> ut_transaction_id t"
          by (auto intro: rev_image_eqI)
        with st(1) [of "ut_transaction_id u"] u Cons.prems(3) show ?thesis by simp
      qed
      have ab: "abandoned E d1 u = abandoned E d u" for u by (simp add: abandoned_def st(2))
      from Cons.IH [OF rest] Cons.prems(2) same have
        ih: "(read_transaction E d' i = read_transaction E d1 i \<or>
            (\<exists>t t'. t \<in> set ts \<and> ut_transaction_id t = i \<and> abandoned E d1 t \<and>
               read_transaction E d' i = Inr t' \<and> ut_state t' = Failed)) \<and>
          transaction_lock_is_held E d' i = transaction_lock_is_held E d1 i" by simp
      show ?thesis
      proof (cases "i = ut_transaction_id t")
        case eq: True
        have "\<not> (\<exists>u. u \<in> set ts \<and> ut_transaction_id u = i)" using Cons.prems(2) eq by (auto intro: rev_image_eqI)
        with ih have "read_transaction E d' i = read_transaction E d1 i" by blast
        with st(1) [of i] eq have "\<exists>t'. read_transaction E d' i = Inr t' \<and> ut_state t' = Failed" by simp
        with eq True ih st(2) show ?thesis by auto
      next
        case False
        with ih st ab show ?thesis by auto
      qed
    qed
  qed
qed simp

section \<open>One owner\<close>

definition sole_owner :: "upgrade_env \<Rightarrow> upgrade_candidate \<Rightarrow> upgrade_dir \<Rightarrow> prepared_upgrade \<Rightarrow> bool" where
  "sole_owner E x d p \<longleftrightarrow>
     pu_commit p \<and> (\<exists>t. read_transaction E d (ut_transaction_id t) = Inr t \<and> pu_status p = transaction_status t \<and>
       ut_state t = Prepared \<and> ut_target_version t = ie_target_version x \<and>
       ut_approved_executable_sha256 t = Some (ie_digest_hex x) \<and>
       transaction_lock_is_held E d (ut_transaction_id t) = Inr True \<and>
       (\<forall>i. active E d i \<longleftrightarrow> i = ut_transaction_id t))"

lemma start_new_owner:
  assumes env: "upgrade_env_ok E" and none: "\<And>i. \<not> active E d i"
    and s: "start_new E accepts ah x pf activity sequence d = (res, d')"
  shows "(\<exists>n. \<forall>i. active E d' i \<longrightarrow> i = n) \<and> (\<forall>p. res = Inr p \<longrightarrow> pu_accepted_new p \<and> sole_owner E x d' p)"
proof (cases "ah_resolve_host_id ah")
  case (Inl e)
  with s none show ?thesis by (auto simp: start_new_def)
next
  case (Inr host_id)
  define t0 where "t0 = prepared_transaction_from_approved (ah_clock ah Prepared (ah_new_id ah)) (ah_new_id ah) pf
    (ie_target_version x) (ie_digest_hex x) host_id (ah_boot_generation ah) sequence"
  define t where "t = (case activity of None \<Rightarrow> t0
     | Some a \<Rightarrow> t0\<lparr>ut_transaction_id := ue_to_string E (ac_operation_id a), ut_activity_session := Some (ac_session a)\<rparr>)"
  have t: "ut_state t = Prepared" "ut_target_version t = ie_target_version x"
    "ut_approved_executable_sha256 t = Some (ie_digest_hex x)"
    by (simp_all add: t_def t0_def prepared_transaction_from_approved_def new_transaction_def split: option.split)
  let ?rest = "\<lambda>d1. case spawn_coordinator E ah (ut_transaction_id t) d1 of
      (Inr _, d2) \<Rightarrow> (Inr \<lparr>pu_status = transaction_status t, pu_commit = True, pu_accepted_new = True\<rparr>, d2)
    | (Inl e, d2) \<Rightarrow> (case and_then (mark_failed (ah_clock ah Failed (ut_transaction_id t))
            ''upgrade coordinator failed before commit'' t) (\<lambda>t'. write_transaction E accepts t' d2) of
          Inl e' \<Rightarrow> (Inl e', d2) | Inr d3 \<Rightarrow> (Inl e, d3))"
  have s': "(case write_transaction E accepts t d of Inl e \<Rightarrow> (Inl e, d) | Inr d1 \<Rightarrow> ?rest d1) = (res, d')"
    using s Inr unfolding start_new_def t_def t0_def by (simp only: sum.case Let_def)
  show ?thesis
  proof (cases "write_transaction E accepts t d")
    case (Inl e)
    with s' none show ?thesis by auto
  next
    case w: (Inr d1)
    have act1: "active E d1 i \<longleftrightarrow> i = ut_transaction_id t" for i
      using write_active [OF env w] none t(1) by (simp add: upgrade_is_terminal_def)
    obtain sres d2 where sp: "spawn_coordinator E ah (ut_transaction_id t) d1 = (sres, d2)"
      by (cases "spawn_coordinator E ah (ut_transaction_id t) d1")
    note frame = spawn_coordinator_frame [OF sp]
    have act2: "active E d2 i \<longleftrightarrow> i = ut_transaction_id t" for i
      using act1 frame(1) by (simp add: active_def)
    show ?thesis
    proof (cases sres)
      case (Inr u)
      with s' w sp have r: "res = Inr \<lparr>pu_status = transaction_status t, pu_commit = True, pu_accepted_new = True\<rparr>"
        and d: "d' = d2" by simp_all
      have "read_transaction E d2 (ut_transaction_id t) = Inr t"
        using frame(1) write_read_transaction [OF env w] by simp
      with r d t act2 frame(2) Inr show ?thesis unfolding sole_owner_def by auto
    next
      case (Inl e)
      let ?step = "and_then (mark_failed (ah_clock ah Failed (ut_transaction_id t))
            ''upgrade coordinator failed before commit'' t) (\<lambda>t'. write_transaction E accepts t' d2)"
      from s' w sp Inl have "(case ?step of Inl e' \<Rightarrow> (Inl e', d2) | Inr d3 \<Rightarrow> (Inl e, d3)) = (res, d')" by simp
      moreover have "active E d3 i \<longrightarrow> i = ut_transaction_id t" if "?step = Inr d3" for d3 i
        using terminalize_step(1) [OF env that, of i] act2 by (auto simp: active_def)
      ultimately show ?thesis using act2 by (cases ?step) auto
    qed
  qed
qed

definition existing_owner :: "upgrade_env \<Rightarrow> upgrade_candidate \<Rightarrow> upgrade_preflight \<Rightarrow> upgrade_dir \<Rightarrow> prepared_upgrade \<Rightarrow> bool" where
  "existing_owner E x pf d p \<longleftrightarrow>
     \<not> pu_commit p \<and> (\<exists>t. read_transaction E d (ut_transaction_id t) = Inr t \<and> pu_status p = transaction_status t \<and>
       ut_target_version t = ie_target_version x \<and>
       (\<not> upgrade_is_terminal (ut_state t) \<or>
        ut_state t = Completed \<and> ut_approved_executable_sha256 t = Some (ie_digest_hex x) \<and>
        \<not> pf_supervisor_handoff_required pf \<and> pf_direct_ingress_action pf \<noteq> ''restart''))"

lemma admitted_apply_cases:
  assumes env: "upgrade_env_ok E" and s: "admitted_apply E accepts ah x pf activity d = (res, d')"
  shows "(d' = d \<and> (\<forall>p. res = Inr p \<longrightarrow> \<not> pu_accepted_new p \<and> existing_owner E x pf d p)) \<or>
    ((\<forall>i. \<not> active E d i) \<and> (\<exists>n. \<forall>i. active E d' i \<longrightarrow> i = n) \<and>
     (\<forall>p. res = Inr p \<longrightarrow> pu_accepted_new p \<and> sole_owner E x d' p))"
proof -
  let ?m = "and_then (load_transactions E d) (\<lambda>persisted.
    and_then (next_transaction_sequence persisted) (\<lambda>sequence.
    and_then (admit_apply persisted (ie_target_version x)) (\<lambda>disposition. Inr (sequence, disposition))))"
  show ?thesis
  proof (cases ?m)
    case (Inl e)
    with s show ?thesis by (auto simp: admitted_apply_def)
  next
    case (Inr m)
    then obtain ts sequence disp where m: "m = (sequence, disp)" and ts: "load_transactions E d = Inr ts"
      and adm: "admit_apply ts (ie_target_version x) = Inr disp" by auto
    note cases = admit_apply_cases [OF adm]
    show ?thesis
    proof (cases disp)
      case StartNew
      with s Inr m have st: "start_new E accepts ah x pf activity sequence d = (res, d')"
        by (simp add: admitted_apply_def)
      from cases StartNew have none: "\<not> active E d i" for i using admit_no_active [OF ts] by simp
      from start_new_owner [OF env none st] none show ?thesis by blast
    next
      case (ExistingActive i)
      with s Inr m have r: "res = and_then (read_transaction E d i) (\<lambda>t.
          Inr \<lparr>pu_status = transaction_status t, pu_commit = False, pu_accepted_new = False\<rparr>)" "d' = d"
        by (auto simp: admitted_apply_def)
      from cases ExistingActive obtain t where t: "active_transactions ts = [t]" "ut_transaction_id t = i"
        "ut_target_version t = ie_target_version x" by auto
      have "t \<in> set (active_transactions ts)" by (simp add: t(1))
      then have "t \<in> set ts" "\<not> upgrade_is_terminal (ut_state t)" by (simp_all add: active_transactions_def)
      with t(2,3) load_covers [OF ts, of t] r show ?thesis by (auto simp: existing_owner_def)
    next
      case (ConflictActive i)
      with s Inr m show ?thesis by (auto simp: admitted_apply_def)
    next
      case (AlreadyCompleted i)
      let ?c = "and_then (read_transaction E d i) (\<lambda>completed.
        and_then (completed_upgrade_is_current completed pf (ie_digest_hex x)) (\<lambda>current. Inr (completed, current)))"
      from cases AlreadyCompleted obtain t where t: "active_transactions ts = []" "t \<in> set ts"
        "ut_transaction_id t = i" "ut_state t = Completed" "ut_target_version t = ie_target_version x" by auto
      show ?thesis
      proof (cases ?c)
        case (Inl e)
        with s Inr m AlreadyCompleted show ?thesis by (auto simp: admitted_apply_def)
      next
        case c: (Inr q)
        with load_covers [OF ts, of t] t obtain current where q: "q = (t, current)"
          and cur: "completed_upgrade_is_current t pf (ie_digest_hex x) = Inr current" by auto
        show ?thesis
        proof (cases current)
          case True
          with s Inr m AlreadyCompleted c q have "res = Inr \<lparr>pu_status = transaction_status t, pu_commit = False,
              pu_accepted_new = False\<rparr>" "d' = d" by (simp_all add: admitted_apply_def)
          with cur True t load_covers [OF ts, of t] show ?thesis
            by (auto simp: existing_owner_def completed_upgrade_is_current_def split: if_splits)
        next
          case False
          with s Inr m AlreadyCompleted c q have st: "start_new E accepts ah x pf activity sequence d = (res, d')"
            by (simp add: admitted_apply_def)
          note none = admit_no_active [OF ts t(1)]
          from start_new_owner [OF env none st] none show ?thesis by blast
        qed
      qed
    qed
  qed
qed

lemma existing_owner_release: "existing_owner E x pf (release_lock path d) p = existing_owner E x pf d p"
  by (simp add: existing_owner_def)

lemma sole_owner_release:
  assumes "validate_transaction_id E ''admission'' \<noteq> Inr ()" "sole_owner E x d p"
  shows "sole_owner E x (release_lock ''admission.lock'' d) p"
proof -
  have "transaction_lock_is_held E (release_lock ''admission.lock'' d) i = transaction_lock_is_held E d i"
    if "read_transaction E d i = Inr t" for i t
  proof (rule release_other_lock_held)
    from that assms(1) have "i \<noteq> ''admission''" using read_transaction_valid by metis
    then show "''admission.lock'' \<noteq> i @ ''.lock''"
      using append_same_eq [of "''admission''" "''.lock''" i] by auto
  qed
  with assms(2) show ?thesis by (auto simp: sole_owner_def)
qed

lemma load_distinct:
  assumes "load_transactions E d = Inr ts" "distinct (map fst (ud_files d))"
  shows "distinct (map ut_transaction_id ts)" "\<forall>t \<in> set ts. read_transaction E d (ut_transaction_id t) = Inr t"
proof -
  from assms(1) obtain ids where ids: "list_transaction_ids E d = Inr ids"
    and all: "list_all2 (\<lambda>i t. read_transaction E d i = Inr t) ids ts"
    by (auto simp: load_transactions_iff)
  from all have "map ut_transaction_id ts = ids"
    by (induction rule: list_all2_induct) (auto dest: read_transaction_valid)
  moreover have "distinct ids"
    using ids assms(2) by (simp add: list_transaction_ids_Inr_iff distinct_map_filter_listed)
  ultimately show "distinct (map ut_transaction_id ts)" by simp
  show "\<forall>t \<in> set ts. read_transaction E d (ut_transaction_id t) = Inr t" using load_covers [OF assms(1)] by blast
qed

text \<open>What a call can do to the directory, for every outcome: a sweep of abandoned records, and
  behind it either nothing or a new transaction in a directory that had no active one left.\<close>

lemma prepare_apply_effect:
  assumes env: "upgrade_env_ok E" and adm: "ue_parse_str E ''admission'' = None"
    and dist: "distinct (map fst (ud_files d))"
    and s: "prepare_apply E accepts ah x pf expected_version activity d = (res, d')"
  obtains (same) "\<forall>i. read_transaction E d' i = read_transaction E d i" "\<exists>e. res = Inl e"
  | (swept) d2 where
      "\<forall>i. read_transaction E d2 i = read_transaction E d i \<or>
         (\<exists>t t'. read_transaction E d i = Inr t \<and> abandoned E d t \<and> read_transaction E d2 i = Inr t' \<and> ut_state t' = Failed)"
      "(\<forall>i. read_transaction E d' i = read_transaction E d2 i) \<and>
         (\<forall>p. res = Inr p \<longrightarrow> \<not> pu_accepted_new p \<and> existing_owner E x pf d' p) \<or>
       (\<forall>i. \<not> active E d2 i) \<and> (\<exists>n. \<forall>i. active E d' i \<longrightarrow> i = n) \<and>
         (\<forall>p. res = Inr p \<longrightarrow> pu_accepted_new p \<and> sole_owner E x d' p)"
proof -
  let ?m = "and_then (apply_preconditions ah x pf expected_version) (\<lambda>_. acquire_admission_lock d)"
  have not_adm: "validate_transaction_id E ''admission'' \<noteq> Inr ()"
    using adm by (simp add: validate_transaction_id_def)
  show thesis
  proof (cases ?m)
    case (Inl e)
    with s show thesis by (intro same) (auto simp: prepare_apply_def)
  next
    case (Inr d1)
    then have lock: "acquire_lock ''another upgrade apply is being admitted'' (''admission'' @ ''.lock'') d = Inr d1"
      by (simp add: acquire_admission_lock_def)
    note frame = acquire_lock_frame [OF lock refl]
    let ?l = "and_then (ah_verify_planned_sessions ah (pf_planned_sessions pf) True) (\<lambda>_. load_transactions E d1)"
    show thesis
    proof (cases ?l)
      case (Inl e)
      with s Inr show thesis by (intro same) (auto simp: prepare_apply_def frame(1))
    next
      case l: (Inr ts)
      then have ts: "load_transactions E d1 = Inr ts" by auto
      note loaded = load_distinct [OF ts frame(3) [OF dist]]
      obtain r2 d2 where sweep: "terminalize_loop E accepts (ah_clock ah Failed) ts d1 = (r2, d2)"
        by (cases "terminalize_loop E accepts (ah_clock ah Failed) ts d1")
      have sw: "read_transaction E d2 i = read_transaction E d i \<or>
         (\<exists>t t'. read_transaction E d i = Inr t \<and> abandoned E d t \<and> read_transaction E d2 i = Inr t' \<and> ut_state t' = Failed)" for i
      proof -
        consider "read_transaction E d2 i = read_transaction E d1 i"
          | t t' where "t \<in> set ts" "ut_transaction_id t = i" "abandoned E d1 t" "read_transaction E d2 i = Inr t'"
              "ut_state t' = Failed"
          using terminalize_loop_frame [OF env sweep loaded, of i] by blast
        then show ?thesis
        proof cases
          case 2
          then have r: "read_transaction E d i = Inr t" using loaded(2) frame(1) by metis
          then have "i \<noteq> ''admission''" using not_adm read_transaction_valid by metis
          with 2 frame(2) have "abandoned E d t" by (simp add: abandoned_def)
          with r 2 show ?thesis by blast
        qed (simp add: frame(1))
      qed
      show thesis
      proof (cases r2)
        case (Inl e)
        with s Inr l sweep have "res = Inl e" "d' = release_lock ''admission.lock'' d2"
          by (simp_all add: prepare_apply_def)
        then show thesis by (intro swept [of d2]) (use sw in simp_all)
      next
        case r: (Inr u)
        obtain r3 d3 where a: "admitted_apply E accepts ah x pf activity d2 = (r3, d3)"
          by (cases "admitted_apply E accepts ah x pf activity d2")
        with s Inr l sweep r have res: "res = r3" "d' = release_lock ''admission.lock'' d3"
          by (simp_all add: prepare_apply_def)
        show thesis
        proof (rule swept [of d2])
          show "\<forall>i. read_transaction E d2 i = read_transaction E d i \<or>
            (\<exists>t t'. read_transaction E d i = Inr t \<and> abandoned E d t \<and> read_transaction E d2 i = Inr t' \<and> ut_state t' = Failed)"
            using sw by blast
          show "(\<forall>i. read_transaction E d' i = read_transaction E d2 i) \<and>
              (\<forall>p. res = Inr p \<longrightarrow> \<not> pu_accepted_new p \<and> existing_owner E x pf d' p) \<or>
            (\<forall>i. \<not> active E d2 i) \<and> (\<exists>n. \<forall>i. active E d' i \<longrightarrow> i = n) \<and>
              (\<forall>p. res = Inr p \<longrightarrow> pu_accepted_new p \<and> sole_owner E x d' p)"
            using admitted_apply_cases [OF env a] sole_owner_release [OF not_adm]
            unfolding res release_lock_read release_lock_active existing_owner_release by blast
        qed
      qed
    qed
  qed
qed

lemma persist_idle:
  assumes "\<And>r'. rn_log r' = rn_log r @ [Persisted t] \<Longrightarrow> executed (rn_log (snd (k r'))) = executed (rn_log r')"
  shows "executed (rn_log (snd (persist E accepts t r k))) = executed (rn_log r)"
  using assms by (cases "write_transaction E accepts t (rn_dir r)") (auto simp: persist_def)

lemma not_committed_idle:
  assumes "run_upgrade_coordinator_with_lock E accepts clock ex i decision changes d = (out, r)"
    "executed (rn_log r) \<noteq> []" "read_transaction E d i = Inr t"
  shows "ut_state t = Prepared" "wait_decision decision changes = Some DecisionCommitted"
proof -
  let ?run = "run_upgrade_coordinator_with_lock E accepts clock ex i decision changes d"
  have idle: "executed (rn_log (snd ?run)) = []"
    if "ut_state t \<noteq> Prepared \<or> wait_decision decision changes \<noteq> Some DecisionCommitted"
    using that assms(3)
    by (cases "ut_state t = Prepared";
        cases "mark_failed (clock Failed) ''upgrade response was not delivered; destructive phase aborted'' t")
      (auto simp: run_upgrade_coordinator_with_lock_def Let_def persist_idle
        split: option.split commit_decision.split)
  with assms(1,2) show "ut_state t = Prepared" "wait_decision decision changes = Some DecisionCommitted"
    by auto
qed

section \<open>Properties\<close>

text \<open>C21. Only one transaction owns the runtime. Whatever a call of \<^verbatim>\<open>prepare_apply\<close> returns and
  wherever it fails, a transaction that was active and not abandoned is left as it was, and
  afterwards either no transaction is active that was not active before, or at most one is active
  at all.\<close>

theorem prepare_apply_single_owner:
  assumes env: "upgrade_env_ok E" and adm: "ue_parse_str E ''admission'' = None"
    and dist: "distinct (map fst (ud_files d))"
    and s: "prepare_apply E accepts ah x pf expected_version activity d = (res, d')"
  shows "(read_transaction E d i = Inr t \<and> \<not> upgrade_is_terminal (ut_state t) \<and> \<not> abandoned E d t
      \<longrightarrow> read_transaction E d' i = Inr t) \<and>
    ((\<forall>j. active E d' j \<longrightarrow> active E d j) \<or> (\<exists>n. \<forall>j. active E d' j \<longrightarrow> j = n))"
  using env adm dist s
proof (cases rule: prepare_apply_effect)
  case same
  then show ?thesis by (auto simp: active_def)
next
  case (swept d2)
  have less: "active E d2 j \<Longrightarrow> active E d j" for j
    using swept(1) unfolding active_def by (metis Inr_inject insert_iff upgrade_is_terminal_def)
  have keep: "read_transaction E d2 i = Inr t" "active E d2 i"
    if "read_transaction E d i = Inr t" "\<not> upgrade_is_terminal (ut_state t)" "\<not> abandoned E d t"
    using swept(1) that unfolding active_def by (metis Inr_inject)+
  have act: "active E d' j = active E d2 j" if "\<forall>i. read_transaction E d' i = read_transaction E d2 i" for j
    using that by (simp add: active_def)
  from swept(2) show ?thesis
  proof (elim disjE conjE)
    assume "\<forall>i. read_transaction E d' i = read_transaction E d2 i"
    then show ?thesis using keep less act by auto
  next
    assume "\<forall>i. \<not> active E d2 i" "\<exists>n. \<forall>i. active E d' i \<longrightarrow> i = n"
    then show ?thesis using keep by blast
  qed
qed

text \<open>What an accepted upgrade means. When \<^verbatim>\<open>prepare_apply\<close> accepts a new transaction, its
  record is durable and prepared for the installed version and digest, it is the only active one,
  and a live child holds its lock. When it answers with an existing one, that is a transaction for
  the same version which is either still active or completed for the same digest with no work left
  to do, and no commit handle is given out.\<close>

theorem prepare_apply_answer:
  assumes env: "upgrade_env_ok E" and adm: "ue_parse_str E ''admission'' = None"
    and dist: "distinct (map fst (ud_files d))"
    and s: "prepare_apply E accepts ah x pf expected_version activity d = (Inr p, d')"
  shows "if pu_accepted_new p then sole_owner E x d' p else existing_owner E x pf d' p"
  using env adm dist s
proof (cases rule: prepare_apply_effect)
  case (swept d2)
  from swept(2) show ?thesis by auto
qed simp

text \<open>C22. A phase of the upgrade runs only with consent and only in the approved program: if a
  child has handed any phase to its executor, the parent had sent the commit line, the running and
  the installed program both have the version and the digest that the prepared record approves, and
  the planned sessions had been verified.\<close>

theorem run_child_only_approved:
  assumes "run_child E accepts clock ch executor_new revalidate i commit_fd executable_fd line d = (out, r)"
    and "executed (rn_log r) \<noteq> []"
  shows "line = Some (''COMMIT'' @ [CHR 0x0A]) \<and>
    (\<exists>t x. read_transaction E d i = Inr t \<and> ut_state t = Prepared \<and>
       ch_running_digest ch = Inr (ie_digest_hex x) \<and> ch_capture_installed ch = Inr x \<and>
       ut_approved_executable_sha256 t = Some (ie_digest_hex x) \<and>
       ch_pkg_version ch = ut_target_version t \<and> ie_target_version x = ut_target_version t \<and>
       is_ok (ch_verify_planned_sessions ch (ut_planned_sessions t) True) \<and> is_ok (revalidate x))"
proof -
  obtain res d1 where c: "child_ready E ch i commit_fd executable_fd d = (res, d1)"
    by (cases "child_ready E ch i commit_fd executable_fd d")
  have "\<exists>t x. res = Inr (t, x)"
    using assms c by (cases res) (auto simp: run_child_def)
  then obtain t x where res: "res = Inr (t, x)" by blast
  from c res obtain digest path where dg: "ch_running_digest ch = Inr digest"
    and checks: "child_checks E ch i digest d1 = Inr (t, x)"
    by (auto simp: child_ready_def ensure_def and_then_def split: sum.splits if_splits)
  have read: "read_transaction E d1 i = Inr t" using checks by (auto simp: child_checks_def)
  then have read_d: "read_transaction E d i = Inr t" using child_ready_frame(1) [OF c] by simp
  let ?m = "and_then (child_decision line) (\<lambda>decision. and_then (revalidate x) (\<lambda>_. Inr decision))"
  obtain decision where m: "?m = Inr decision"
    using assms c res by (cases ?m) (auto simp: run_child_def)
  obtain o2 r2 where run: "run_upgrade_coordinator_with_lock E accepts clock (executor_new t x) i decision [] d1 = (o2, r2)"
    by (cases "run_upgrade_coordinator_with_lock E accepts clock (executor_new t x) i decision [] d1")
  have ex: "executed (rn_log r2) \<noteq> []"
    using assms c res m run by (auto simp: run_child_def)
  have "ut_state t = Prepared" and committed: "wait_decision decision [] = Some DecisionCommitted"
    using run ex read not_committed_idle by fastforce+
  moreover have "line = Some (''COMMIT'' @ [CHR 0x0A])"
    using m committed
    by (auto simp: child_decision_def barrier_abort_def barrier_new_def decide_def wait_decision.simps
        split: if_splits)
  moreover have "is_ok (revalidate x)" using m by (auto simp: is_ok_iff)
  ultimately show ?thesis
    using read_d dg checks
    by (auto simp: child_checks_def validate_approved_candidate_def validate_approved_candidate_identity_def is_ok_iff)
qed

section \<open>Witnesses\<close>

definition sample_candidate :: upgrade_candidate where
  "sample_candidate = \<lparr>ie_target_version = ''b'', ie_digest_hex = replicate 64 (CHR ''0'')\<rparr>"

definition sample_approved :: "upgrade_state \<Rightarrow> upgrade_transaction" where
  "sample_approved s = sample_upgrade\<lparr>ut_state := s, ut_approved_executable_sha256 := Some (replicate 64 (CHR ''0''))\<rparr>"

definition sample_child_host :: child_host where
  "sample_child_host = \<lparr>ch_pkg_version = ''b'', ch_running_digest = Inr (replicate 64 (CHR ''0'')),
     ch_capture_installed = Inr sample_candidate, ch_verify_planned_sessions = (\<lambda>_ _. Inr 0), ch_write_ready = Inr ()\<rparr>"

definition sample_host :: apply_host where
  "sample_host = \<lparr>ah_revalidate = Inr (), ah_verify_planned_sessions = (\<lambda>_ _. Inr 0), ah_resolve_host_id = Inr ''h'',
     ah_boot_generation = ''g'', ah_clock = (\<lambda>_ _. 3), ah_new_id = ''11'', ah_launch = Inr (), ah_child = sample_child_host,
     ah_commit_fd = 3, ah_executable_fd = 4\<rparr>"

definition sample_preflight :: upgrade_preflight where
  "sample_preflight = \<lparr>pf_source_version = ''a'', pf_supervisor_handoff_required = False,
     pf_blocked_session_count = 0, pf_direct_ingress_action = ''none'', pf_direct_ingress_blocked = False,
     pf_reconnect_expected = False, pf_helper_generation = Compatible, pf_planned_sessions = []\<rparr>"

lemma sample_approved_valid: "validate_transaction sample_env (sample_approved s) = Inr ()"
  using sample_upgrade_valid unfolding validate_transaction_iff
  by (simp add: sample_approved_def validate_digest_def lower_hex_def list_all_iff)

lemma sample_approved_fields [simp]:
  "ut_transaction_id (sample_approved s) = ''1''" "ut_state (sample_approved s) = s"
  "ut_target_version (sample_approved s) = ''b''" "ut_sequence (sample_approved s) = 0"
  "ut_approved_executable_sha256 (sample_approved s) = Some (replicate 64 (CHR ''0''))"
  by (simp_all add: sample_approved_def sample_upgrade_def new_transaction_def)

lemma sample_approved_size: "length (put_ut (sample_approved s)) \<le> MAX_UPGRADE_TRANSACTION_BYTES"
  by (cases s) (simp_all add: sample_approved_def sample_upgrade_def new_transaction_def put_upgrade_defs
      MAX_UPGRADE_TRANSACTION_BYTES_def)

lemma sample_approved_read:
  assumes "map_of (ud_files d) ''1.json'' = Some (Regular 384 (put_ut (sample_approved s)))"
  shows "read_transaction sample_env d ''1'' = Inr (sample_approved s)"
  using assms sample_approved_valid sample_approved_size
  by (simp add: read_transaction_iff read_if_present_Some_iff)

lemma sample_admission: "ue_parse_str sample_env ''admission'' = None"
  by (simp add: sample_env_def)

lemma sample_load:
  assumes "ud_files d = (''1.json'', Regular 384 (put_ut (sample_approved s))) # rest"
    "rest = [] \<or> rest = [(''admission.lock'', Regular 384 [])]"
  shows "load_transactions sample_env d = Inr [sample_approved s]"
proof -
  have "listed sample_env ''1.json'' = Some ''1''" "listed sample_env ''admission.lock'' = None"
    by (simp_all add: listed_def strip_suffix_def suffix_to_prefix)
  then have "list_transaction_ids sample_env d = Inr [''1'']"
    using assms by (auto simp: list_transaction_ids_Inr_iff List.map_filter_simps MAX_UPGRADE_TRANSACTIONS_def)
  moreover have "read_transaction sample_env d ''1'' = Inr (sample_approved s)"
    using assms(1) by (simp add: sample_approved_read)
  ultimately show ?thesis by (auto simp: load_transactions_iff)
qed

lemma sample_prepare:
  "\<exists>d'. prepare_apply sample_env (\<lambda>_ _. True) sample_host sample_candidate sample_preflight None None
     (sample_upgrade_dir (sample_approved Completed)) =
   (Inr \<lparr>pu_status = transaction_status (sample_approved Completed), pu_commit = False, pu_accepted_new = False\<rparr>, d')"
proof -
  let ?d1 = "\<lparr>ud_files = [(''1.json'', Regular 384 (put_ut (sample_approved Completed))), (''admission.lock'', Regular 384 [])],
    ud_held = [''admission.lock'']\<rparr>"
  have lock: "acquire_admission_lock (sample_upgrade_dir (sample_approved Completed)) = Inr ?d1"
    by (simp add: acquire_admission_lock_def acquire_lock_def sample_upgrade_dir_def)
  have load: "load_transactions sample_env ?d1 = Inr [sample_approved Completed]"
    using sample_load [of ?d1 Completed "[(''admission.lock'', Regular 384 [])]"] by simp
  have read: "read_transaction sample_env ?d1 ''1'' = Inr (sample_approved Completed)"
    by (rule sample_approved_read) simp
  have "admit_apply [sample_approved Completed] ''b'' = Inr (AlreadyCompleted ''1'')"
    by (simp add: admit_apply_def active_transactions_def upgrade_is_terminal_def classify_apply_def
        latest_completed_transaction_def max_by_key_def)
  moreover have "next_transaction_sequence [sample_approved Completed] = Inr 1"
    by (simp add: next_transaction_sequence_def max_by_key_def)
  ultimately have "admitted_apply sample_env (\<lambda>_ _. True) sample_host sample_candidate sample_preflight None ?d1 =
    (Inr \<lparr>pu_status = transaction_status (sample_approved Completed), pu_commit = False, pu_accepted_new = False\<rparr>, ?d1)"
    using load read
    by (simp add: admitted_apply_def sample_candidate_def completed_upgrade_is_current_def sample_preflight_def)
  moreover have "apply_preconditions sample_host sample_candidate sample_preflight None = Inr ()"
    by (simp add: apply_preconditions_def sample_host_def sample_preflight_def)
  ultimately show ?thesis
    using lock load by (simp add: prepare_apply_def sample_host_def)
qed

theorem prepare_apply_single_owner_witness:
  "\<exists>res d'. prepare_apply sample_env (\<lambda>_ _. True) sample_host sample_candidate sample_preflight None None
      (sample_upgrade_dir (sample_approved Committed)) = (res, d') \<and>
    read_transaction sample_env d' ''1'' = Inr (sample_approved Committed)"
proof -
  let ?d = "sample_upgrade_dir (sample_approved Committed)"
  obtain res d' where p: "prepare_apply sample_env (\<lambda>_ _. True) sample_host sample_candidate sample_preflight None None ?d = (res, d')"
    by fastforce
  have "read_transaction sample_env ?d ''1'' = Inr (sample_approved Committed)"
    by (rule sample_approved_read) (simp add: sample_upgrade_dir_def)
  with prepare_apply_single_owner [OF sample_env_ok sample_admission _ p, of "''1''" "sample_approved Committed"] p
  show ?thesis by (auto simp: sample_upgrade_dir_def abandoned_def upgrade_is_terminal_def)
qed

theorem prepare_apply_answer_witness:
  "\<exists>d'. existing_owner sample_env sample_candidate sample_preflight d'
     \<lparr>pu_status = transaction_status (sample_approved Completed), pu_commit = False, pu_accepted_new = False\<rparr>"
proof -
  obtain d' where p: "prepare_apply sample_env (\<lambda>_ _. True) sample_host sample_candidate sample_preflight None None
     (sample_upgrade_dir (sample_approved Completed)) =
     (Inr \<lparr>pu_status = transaction_status (sample_approved Completed), pu_commit = False, pu_accepted_new = False\<rparr>, d')"
    using sample_prepare by blast
  from prepare_apply_answer [OF sample_env_ok sample_admission _ p] show ?thesis
    by (auto simp: sample_upgrade_dir_def)
qed

definition sample_committed :: upgrade_transaction where
  "sample_committed = (sample_approved Committed)\<lparr>ut_updated_at := 2\<rparr>"

lemma sample_committed_facts:
  "validate_transaction sample_env sample_committed = Inr ()"
  "length (put_ut sample_committed) \<le> MAX_UPGRADE_TRANSACTION_BYTES" "ut_transaction_id sample_committed = ''1''"
  using sample_approved_valid [of Committed]
  by (simp_all add: sample_committed_def validate_transaction_iff)
    (simp_all add: sample_approved_def sample_upgrade_def new_transaction_def put_upgrade_defs
      MAX_UPGRADE_TRANSACTION_BYTES_def)

definition sample_accepts :: "string \<Rightarrow> string \<Rightarrow> bool" where
  "sample_accepts path bytes = (bytes = put_ut sample_committed)"

lemma sample_child_run:
  "\<exists>out r. run_child sample_env sample_accepts (\<lambda>_. 2) sample_child_host (\<lambda>_ _. sample_executor) (\<lambda>_. Inr ()) ''1'' 3 4
     (Some (''COMMIT'' @ [CHR 0x0A])) (sample_upgrade_dir (sample_approved Prepared)) = (out, r) \<and>
     executed (rn_log r) = [SupervisorHandoff]"
proof -
  let ?d = "sample_upgrade_dir (sample_approved Prepared)"
  let ?d1 = "\<lparr>ud_files = [(''1.json'', Regular 384 (put_ut (sample_approved Prepared))), (''1.lock'', Regular 384 [])],
    ud_held = [''1.lock'']\<rparr>"
  have lock: "acquire_transaction_lock sample_env ''1'' ?d = Inr (''1.lock'', ?d1)"
    by (simp add: acquire_transaction_lock_def lock_path_def acquire_lock_def sample_upgrade_dir_def)
  have read: "read_transaction sample_env ?d1 ''1'' = Inr (sample_approved Prepared)"
    by (rule sample_approved_read) simp
  have ready: "child_ready sample_env sample_child_host ''1'' 3 4 ?d = (Inr (sample_approved Prepared, sample_candidate), ?d1)"
    using lock read
    by (simp add: child_ready_def sample_child_host_def child_checks_def validate_approved_candidate_def
        validate_approved_candidate_identity_def sample_candidate_def)
  let ?t = "(note_phase sample_executor SupervisorHandoff sample_committed)\<lparr>ut_state := SupervisorHandoff, ut_updated_at := 2\<rparr>"
  have "put_ut ?t \<noteq> put_ut sample_committed"
  proof
    assume "put_ut ?t = put_ut sample_committed"
    then have "?t = sample_committed" by (metis option.inject sample_env_eval(2))
    then have "ut_state ?t = ut_state sample_committed" by (rule arg_cong)
    then show False by (simp add: sample_committed_def)
  qed
  then have "\<not> sample_accepts p (put_ut ?t)" for p by (simp add: sample_accepts_def)
  then have no: "\<exists>e. write_transaction sample_env sample_accepts ?t d = Inl e" for d
    by (cases "write_transaction sample_env sample_accepts ?t d") (auto simp: write_transaction_Inr_iff)
  have set: "set_state 2 Committed (sample_approved Prepared) = Inr sample_committed"
    by (simp add: set_state_Inr_iff can_transition_iff upgrade_is_terminal_def sample_committed_def sample_approved_def)
  obtain d2 where w: "write_transaction sample_env sample_accepts sample_committed ?d1 = Inr d2"
    using sample_committed_facts by (simp add: write_transaction_Inr_iff sample_accepts_def)
  have phases: "coordinator_phases sample_committed =
      [SupervisorHandoff, SessionsVerifying, EndpointVerifying, PluginReconciling, Completed]"
    by (simp add: coordinator_phases_def sample_committed_def sample_approved_def sample_upgrade_def new_transaction_def)
  have move: "set_state 2 SupervisorHandoff (note_phase sample_executor SupervisorHandoff sample_committed) = Inr ?t"
    by (simp add: set_state_Inr_iff can_transition_iff upgrade_is_terminal_def sample_committed_def)
  obtain e where e: "write_transaction sample_env sample_accepts ?t d2 = Inl e" using no by blast
  have "run_upgrade_coordinator_with_lock sample_env sample_accepts (\<lambda>_. 2) sample_executor ''1'' DecisionCommitted [] ?d1 =
      (Some (Inl e), \<lparr>rn_dir = d2, rn_log = [Persisted sample_committed, Executed SupervisorHandoff]\<rparr>)"
    using read set w phases move e
    by (simp add: run_upgrade_coordinator_with_lock_def Let_def sample_wait persist_def sample_executor_def)
  then show ?thesis
    using ready
    by (simp add: run_child_def child_decision_def barrier_commit_def barrier_new_def decide_def)
qed

theorem run_child_only_approved_witness:
  "\<exists>t (x :: upgrade_candidate).
     read_transaction sample_env (sample_upgrade_dir (sample_approved Prepared)) ''1'' = Inr t \<and>
     ut_state t = Prepared \<and> ch_running_digest sample_child_host = Inr (ie_digest_hex x) \<and>
     ut_approved_executable_sha256 t = Some (ie_digest_hex x)"
proof -
  obtain out r where r: "run_child sample_env sample_accepts (\<lambda>_. 2) sample_child_host (\<lambda>_ _. sample_executor) (\<lambda>_. Inr ()) ''1'' 3 4
     (Some (''COMMIT'' @ [CHR 0x0A])) (sample_upgrade_dir (sample_approved Prepared)) = (out, r)"
     "executed (rn_log r) = [SupervisorHandoff]"
    using sample_child_run by blast
  from run_child_only_approved [OF r(1)] r(2) show ?thesis by auto
qed

end
