(* ===== verification/Upgrade_Activity.thy ===== *)
theory Upgrade_Activity
  imports Activity_Contract Upgrade_Apply
begin

text \<open>
  The executor the coordinator child runs with, and the activity updates it emits when a record has
  become durable: \<^verbatim>\<open>ConcreteExecutor\<close> and \<^verbatim>\<open>upgrade_activity_update\<close> of
  \<^verbatim>\<open>src/src/upgrade_coordinator.rs\<close>. The operations of the supervisor, of the direct ingress and of
  the plug-in reconciler are the record \<open>upgrade_platform\<close>; an answer may depend on the phase in
  which it is asked for. The updates are those of the activity contract, so that the coordinator
  and the activity model meet here.
\<close>

section \<open>The concrete executor\<close>

record upgrade_platform =
  pl_revalidate :: "upgrade_state \<Rightarrow> anyhow + unit"
  pl_verify_planned_sessions :: "upgrade_state \<Rightarrow> planned_session list \<Rightarrow> bool \<Rightarrow> anyhow + nat"
  pl_apply_supervisor_upgrade :: "string \<Rightarrow> planned_session list \<Rightarrow> anyhow + nat"
  pl_prepare_direct_ingress :: "string \<Rightarrow> anyhow + unit"
  pl_apply_direct_ingress :: "anyhow + unit"
  pl_verify_ingress_identity :: "string \<Rightarrow> string \<Rightarrow> string \<Rightarrow> bool \<Rightarrow> string \<Rightarrow> anyhow + verified_identity"
  pl_reconcile_plugin :: "anyhow + unit"

text \<open>The result of one phase: what it stores in \<^verbatim>\<open>restored\<close> and \<^verbatim>\<open>verified\<close>.\<close>

datatype phase_result = Restored nat | Verified verified_identity | NoResult

definition execute_phase ::
  "upgrade_platform \<Rightarrow> upgrade_transaction \<Rightarrow> upgrade_state \<Rightarrow> anyhow + phase_result" where
  "execute_phase pl t phase =
     (case phase of
        SupervisorHandoff \<Rightarrow>
          and_then (pl_revalidate pl phase) (\<lambda>_.
          and_then (pl_verify_planned_sessions pl phase (ut_planned_sessions t) True) (\<lambda>_.
          and_then (pl_apply_supervisor_upgrade pl (ut_target_version t) (ut_planned_sessions t)) (\<lambda>n.
            Inr (Restored n))))
      | SessionsVerifying \<Rightarrow>
          and_then (pl_verify_planned_sessions pl phase (ut_planned_sessions t)
              (\<not> ut_supervisor_handoff_required t)) (\<lambda>n. Inr (Restored n))
      | IngressRestarting \<Rightarrow>
          and_then (pl_revalidate pl phase) (\<lambda>_.
          and_then (pl_verify_planned_sessions pl phase (ut_planned_sessions t)
              (\<not> ut_supervisor_handoff_required t)) (\<lambda>_.
          and_then (pl_prepare_direct_ingress pl (ut_target_version t)) (\<lambda>_.
          and_then (pl_apply_direct_ingress pl) (\<lambda>_. Inr NoResult))))
      | EndpointVerifying \<Rightarrow>
          and_then (pl_verify_ingress_identity pl (ut_target_version t) (ut_host_id t)
              (ut_source_boot_generation t) (ut_ingress_restart_required t) (ut_transaction_id t)) (\<lambda>v.
            Inr (Verified v))
      | PluginReconciling \<Rightarrow>
          and_then (pl_revalidate pl phase) (\<lambda>_.
          and_then (pl_reconcile_plugin pl) (\<lambda>_. Inr NoResult))
      | Completed \<Rightarrow> Inr NoResult
      | _ \<Rightarrow> Inl (Message ''unsupported coordinator phase''))"

text \<open>The coordinator asks for the restored sessions right after \<open>SessionsVerifying\<close> and for the
  identity right after \<open>EndpointVerifying\<close>, when the fields hold what that phase has stored.\<close>

definition concrete_executor :: "upgrade_platform \<Rightarrow> upgrade_transaction \<Rightarrow> upgrade_executor" where
  "concrete_executor pl t =
     \<lparr>ex_execute_phase = (\<lambda>phase. and_then (execute_phase pl t phase) (\<lambda>_. Inr Continue)),
      ex_restored_session_count =
        (case execute_phase pl t SessionsVerifying of Inr (Restored n) \<Rightarrow> Some n | _ \<Rightarrow> None),
      ex_verified_identity =
        (case execute_phase pl t EndpointVerifying of Inr (Verified v) \<Rightarrow> Some v | _ \<Rightarrow> None)\<rparr>"

section \<open>Activity updates\<close>

definition u64_saturating_sub :: "u64 \<Rightarrow> u64 \<Rightarrow> u64" where
  "u64_saturating_sub a b = (if b \<le> a then a - b else 0)"

definition u64_saturating_mul :: "u64 \<Rightarrow> u64 \<Rightarrow> u64" where
  "u64_saturating_mul a b = (if unat a * unat b < 2 ^ 64 then a * b else - 1)"

definition upgrade_duration :: "upgrade_transaction \<Rightarrow> u64" where
  "upgrade_duration t = u64_saturating_mul (u64_saturating_sub (ut_updated_at t) (ut_created_at t)) 1000"

definition upgrade_activity_of ::
  "upgrade_transaction \<Rightarrow> (activity_state \<times> u64 option \<times> activity_summary) option" where
  "upgrade_activity_of t =
     (case ut_state t of
        Prepared \<Rightarrow> None
      | upgrade_state.Committed \<Rightarrow> Some (Running, None, UpgradePhase activity_upgrade_phase.Committed)
      | upgrade_state.SupervisorHandoff \<Rightarrow> Some (Running, None, UpgradePhase activity_upgrade_phase.SupervisorHandoff)
      | upgrade_state.SessionsVerifying \<Rightarrow> Some (Running, None, UpgradePhase activity_upgrade_phase.SessionsVerifying)
      | upgrade_state.IngressRestarting \<Rightarrow> Some (Running, None, UpgradePhase activity_upgrade_phase.IngressRestarting)
      | upgrade_state.EndpointVerifying \<Rightarrow> Some (Running, None, UpgradePhase activity_upgrade_phase.EndpointVerifying)
      | upgrade_state.PluginReconciling \<Rightarrow> Some (Running, None, UpgradePhase activity_upgrade_phase.PluginReconciling)
      | upgrade_state.Completed \<Rightarrow> Some (activity_state.Completed, Some (upgrade_duration t), Empty)
      | upgrade_state.Failed \<Rightarrow>
          Some (activity_state.Failed, Some (upgrade_duration t), Failure OperationFailed)
      | RolledBack \<Rightarrow>
          Some (activity_state.Failed, Some (upgrade_duration t), Failure OperationFailed))"

definition upgrade_activity_update ::
  "upgrade_env \<Rightarrow> upgrade_transaction \<Rightarrow> (planned_session \<times> activity_update) option" where
  "upgrade_activity_update E t =
     Option.bind (ut_activity_session t) (\<lambda>session.
     Option.bind (ue_parse_str E (ut_transaction_id t)) (\<lambda>operation_id.
     Option.bind (upgrade_activity_of t) (\<lambda>(st, duration_ms, summary).
       case update_new operation_id SupervisorUpgrade st duration_ms summary of
         Inl _ \<Rightarrow> None
       | Inr update \<Rightarrow> Some (session, update))))"

section \<open>What a run leaves alone\<close>

text \<open>Two records of one plan differ at most in state, time of update, failure summary and the
  results of verification.\<close>

definition same_plan :: "upgrade_transaction \<Rightarrow> upgrade_transaction \<Rightarrow> bool" where
  "same_plan t q \<longleftrightarrow>
     q\<lparr>ut_state := ut_state t, ut_updated_at := ut_updated_at t, ut_failure_summary := ut_failure_summary t,
       ut_restored_session_count := ut_restored_session_count t, ut_verified_host_id := ut_verified_host_id t,
       ut_verified_version := ut_verified_version t,
       ut_verified_boot_generation := ut_verified_boot_generation t\<rparr> = t"

lemma same_plan_fields:
  assumes "same_plan t q"
  shows "ut_transaction_id q = ut_transaction_id t" "ut_activity_session q = ut_activity_session t"
    "ut_created_at q = ut_created_at t" "ut_target_version q = ut_target_version t"
  using arg_cong [OF assms [unfolded same_plan_def], of ut_transaction_id]
    arg_cong [OF assms [unfolded same_plan_def], of ut_activity_session]
    arg_cong [OF assms [unfolded same_plan_def], of ut_created_at]
    arg_cong [OF assms [unfolded same_plan_def], of ut_target_version] by simp_all

lemma same_plan_refl [simp]: "same_plan t t"
  by (simp add: same_plan_def)

lemma same_plan_update [simp]:
  "same_plan t (q\<lparr>ut_state := s, ut_updated_at := n\<rparr>) = same_plan t q"
  "same_plan t (q\<lparr>ut_state := s, ut_failure_summary := f, ut_updated_at := n\<rparr>) = same_plan t q"
  "same_plan t (note_phase ex p q) = same_plan t q"
  by (simp_all add: same_plan_def note_phase_def Let_def split: option.split)

abbreviation log_same_plan :: "upgrade_transaction \<Rightarrow> upgrade_run \<Rightarrow> bool" where
  "log_same_plan t r \<equiv> list_all (same_plan t) (persisted (rn_log r))"

lemma persist_same_plan:
  assumes "same_plan t q" "log_same_plan t r"
    "\<And>r'. log_same_plan t r' \<Longrightarrow> log_same_plan t (snd (k r'))"
  shows "log_same_plan t (snd (persist E accepts q r k))"
  using assms by (cases "write_transaction E accepts q (rn_dir r)") (simp_all add: persist_def)

lemma attempt_same_plan:
  assumes "log_same_plan t r" "\<And>x. m = Inr x \<Longrightarrow> log_same_plan t (snd (k x))"
  shows "log_same_plan t (snd (attempt m r k))"
  using assms by (cases m) simp_all

lemma run_phases_same_plan:
  "\<lbrakk>same_plan t q; log_same_plan t r\<rbrakk> \<Longrightarrow> log_same_plan t (snd (run_phases E accepts clock ex phases q r))"
proof (induction phases arbitrary: q r)
  case (Cons p phases)
  show ?case
  proof (cases "p = Completed")
    case True
    with Cons.prems show ?thesis
      by (auto simp: set_state_Inr_iff intro!: attempt_same_plan persist_same_plan)
  next
    case False
    then show ?thesis
      by (cases "ex_execute_phase ex p")
        (auto simp: Let_def set_state_Inr_iff mark_failed_Inr_iff mark_rolled_back_Inr_iff Cons
          intro!: attempt_same_plan persist_same_plan split: coordinator_step.split)
  qed
qed simp

lemma coordinator_same_plan:
  assumes "read_transaction E d i = Inr t"
  shows "log_same_plan t (snd (run_upgrade_coordinator_with_lock E accepts clock ex i decision changes d))"
  using assms
  by (auto simp: run_upgrade_coordinator_with_lock_def Let_def set_state_Inr_iff mark_failed_Inr_iff
      intro!: attempt_same_plan persist_same_plan run_phases_same_plan
      split: option.split commit_decision.split)

section \<open>Updates of a run\<close>

lemma trace_running:
  assumes "upgrade_trace ps es m" "Prepared \<notin> set ps"
  shows "Prepared \<notin> ut_state ` set (persisted es) \<and>
    list_all (\<lambda>q. \<not> upgrade_is_terminal (ut_state q)) (butlast (persisted es)) \<and>
    (persisted es \<noteq> [] \<longrightarrow> durable_state m = ut_state (last (persisted es))) \<and>
    (case m of At s \<Rightarrow> True | Doing s p \<Rightarrow> \<not> upgrade_is_terminal s \<and> p \<in> set ps)"
  using assms(1)
proof (induction rule: upgrade_trace.induct)
  case (trace_snoc es m e m')
  have all: "list_all (\<lambda>q. \<not> upgrade_is_terminal (ut_state q)) (persisted es)"
    if "\<not> upgrade_is_terminal (durable_state m)"
    using trace_snoc.IH that
    by (cases "persisted es" rule: rev_cases) auto
  from trace_snoc.hyps(2) show ?case
  proof (cases rule: upgrade_step.cases)
    case (execute s p)
    with trace_snoc.IH show ?thesis by (auto simp: durable_state_def dest: next_phase_mem)
  next
    case (phase_done t p s)
    with trace_snoc.IH all assms(2) show ?thesis by (auto simp: durable_state_def)
  next
    case (phase_stopped t s p)
    with trace_snoc.IH all show ?thesis by (auto simp: durable_state_def)
  qed (use trace_snoc.IH all in \<open>auto simp: durable_state_def upgrade_is_terminal_def\<close>)
qed (simp add: durable_state_def)

definition upgrade_update :: "uuid \<Rightarrow> upgrade_transaction \<Rightarrow> activity_update" where
  "upgrade_update oid q =
     (case upgrade_activity_of q of
        Some (st, duration, summary) \<Rightarrow>
          \<lparr>au_schema_version = ACTIVITY_SCHEMA_VERSION, au_operation_id = oid, au_operation = SupervisorUpgrade,
           au_state = st, au_duration_ms = duration, au_summary = summary\<rparr>)"

lemma upgrade_activity_update_eval:
  assumes "ut_activity_session q = Some session" "ue_parse_str E (ut_transaction_id q) = Some oid"
    "ut_state q \<noteq> Prepared"
  shows "upgrade_activity_update E q = Some (session, upgrade_update oid q)"
proof -
  obtain st dur sm where a: "upgrade_activity_of q = Some (st, dur, sm)" "terminal_state st \<longleftrightarrow> dur \<noteq> None"
    using assms(3) by (cases "ut_state q") (auto simp: upgrade_activity_of_def terminal_state_def)
  then obtain u where u: "update_new oid SupervisorUpgrade st dur sm = Inr u" by (auto simp: update_new_Inr_iff)
  then have "upgrade_update oid q = u" using a by (simp add: upgrade_update_def update_new_Inr_iff)
  with a u assms(1,2) show ?thesis by (simp add: upgrade_activity_update_def)
qed

lemma upgrade_update_fields:
  assumes "ut_state q \<noteq> Prepared"
  shows "validate_update (upgrade_update oid q) = Inr ()" "au_operation_id (upgrade_update oid q) = oid"
    "au_operation (upgrade_update oid q) = SupervisorUpgrade"
    "\<not> upgrade_is_terminal (ut_state q) \<Longrightarrow> au_state (upgrade_update oid q) = Running"
    "upgrade_is_terminal (ut_state q) \<Longrightarrow> terminal_state (au_state (upgrade_update oid q))"
    "au_state (upgrade_update oid q) = activity_state.Completed \<longleftrightarrow> ut_state q = Completed"
  using assms
  by (cases "ut_state q"; simp add: upgrade_update_def upgrade_activity_of_def validate_update_ok
      terminal_state_def upgrade_is_terminal_def)+

text \<open>An upgrade reports itself as one well-formed activity. For a transaction that was
  started from an activity session, every record that becomes durable gives exactly one valid update,
  addressed to that session under the transaction's identifier; all but the last say that the
  upgrade is running, and once the coordinator has returned a status the last one is terminal and
  reports completion exactly when the upgrade completed.\<close>

theorem upgrade_activity_lifecycle:
  assumes env: "upgrade_env_ok E" and read: "read_transaction E d i = Inr t" and prepared: "ut_state t = Prepared"
    and session: "ut_activity_session t = Some session" and oid: "ue_parse_str E i = Some oid"
    and run: "run_upgrade_coordinator_with_lock E accepts clock ex i decision changes d = (out, r)"
  shows "\<exists>us. map (upgrade_activity_update E) (persisted (rn_log r)) = map (\<lambda>u. Some (session, u)) us \<and>
    list_all (\<lambda>u. validate_update u = Inr () \<and> au_operation_id u = oid \<and> au_operation u = SupervisorUpgrade) us \<and>
    list_all (\<lambda>u. au_state u = Running) (butlast us) \<and>
    (\<forall>st. out = Some (Inr st) \<longrightarrow> us \<noteq> [] \<and> terminal_state (au_state (last us)) \<and>
       (au_state (last us) = activity_state.Completed \<longleftrightarrow> us_state st = Completed))"
proof -
  let ?P = "persisted (rn_log r)" and ?us = "map (upgrade_update oid) (persisted (rn_log r))"
  obtain m t' where c: "consistent E accepts d i (coordinator_phases t) r m t'"
    and o: "case out of None \<Rightarrow> rn_log r = []
      | Some (Inr st) \<Rightarrow> upgrade_is_terminal (ut_state t') \<and> st = transaction_status t'
      | Some (Inl e) \<Rightarrow> \<exists>t''. write_transaction E accepts t'' (rn_dir r) = Inl e \<and>
          ut_transaction_id t'' = i \<and> can_transition_to (ut_state t') (ut_state t'')"
    using coordinator_run_ends [OF env read prepared, of accepts clock ex decision changes]
    unfolding run_ends_def run fst_conv snd_conv by blast
  from c have tr: "upgrade_trace (coordinator_phases t) (rn_log r) m" and dm: "durable_state m = ut_state t'"
    by (simp_all add: consistent_def)
  have inv: "Prepared \<notin> ut_state ` set ?P"
      "list_all (\<lambda>q. \<not> upgrade_is_terminal (ut_state q)) (butlast ?P)"
      "?P \<noteq> [] \<Longrightarrow> ut_state t' = ut_state (last ?P)"
    using trace_running [OF tr] coordinator_phases_range [of Prepared t] dm by auto
  have id: "ut_transaction_id t = i" using read_transaction_valid [OF read] by blast
  have "log_same_plan t r" using coordinator_same_plan [OF read, of accepts clock ex decision changes] by (simp add: run)
  then have plan: "q \<in> set ?P \<Longrightarrow> ut_activity_session q = Some session \<and> ue_parse_str E (ut_transaction_id q) = Some oid" for q
    using session oid id same_plan_fields by (auto simp: list_all_iff)
  have np: "q \<in> set ?P \<Longrightarrow> ut_state q \<noteq> Prepared" for q using inv(1) by (auto intro: rev_image_eqI)
  have 1: "map (upgrade_activity_update E) ?P = map (\<lambda>u. Some (session, u)) ?us"
    using plan np by (auto simp: upgrade_activity_update_eval)
  have 2: "list_all (\<lambda>u. validate_update u = Inr () \<and> au_operation_id u = oid \<and> au_operation u = SupervisorUpgrade) ?us"
    using np upgrade_update_fields(1,2,3) by (auto simp: list_all_iff)
  have 3: "list_all (\<lambda>u. au_state u = Running) (butlast ?us)"
    using inv(2) np [OF in_set_butlastD] upgrade_update_fields(4)
    by (simp add: list_all_iff map_butlast [symmetric])
  have 4: "?us \<noteq> [] \<and> terminal_state (au_state (last ?us)) \<and>
      (au_state (last ?us) = activity_state.Completed \<longleftrightarrow> us_state st = Completed)" if out: "out = Some (Inr st)" for st
  proof -
    from out o have st: "upgrade_is_terminal (ut_state t')" "us_state st = ut_state t'" by auto
    have ne: "?P \<noteq> []"
      using trace_durable [OF tr] dm st(1) by (auto simp: upgrade_is_terminal_def)
    then have "last ?P \<in> set ?P" by simp
    with ne st inv(3) np upgrade_update_fields(5,6) show ?thesis by (auto simp: last_map)
  qed
  show ?thesis using 1 2 3 4 by blast
qed

section \<open>Verification results of a completed run\<close>

lemma run_phases_results:
  "\<lbrakk>run_phases E accepts clock ex phases t r = (Some (Inr st), r'); us_state st = Completed; distinct phases;
    Completed \<in> set phases\<rbrakk>
    \<Longrightarrow> us_restored_session_count st =
          (if SessionsVerifying \<in> set (takeWhile (\<lambda>p. p \<noteq> Completed) phases) then ex_restored_session_count ex
           else ut_restored_session_count t) \<and>
        (EndpointVerifying \<in> set (takeWhile (\<lambda>p. p \<noteq> Completed) phases) \<longrightarrow> ex_verified_identity ex = Some v \<longrightarrow>
           us_verified_version st = Some (vi_version v) \<and> us_verified_host_id st = Some (vi_host_id v) \<and>
           us_verified_boot_generation st = Some (vi_boot_generation v)) \<and>
        (EndpointVerifying \<notin> set (takeWhile (\<lambda>p. p \<noteq> Completed) phases) \<longrightarrow>
           us_verified_version st = ut_verified_version t \<and> us_verified_host_id st = ut_verified_host_id t \<and>
           us_verified_boot_generation st = ut_verified_boot_generation t)"
proof (induction phases arbitrary: t r)
  case (Cons p phases)
  show ?case
  proof (cases "p = Completed")
    case True
    with Cons.prems(1) show ?thesis
      by (auto simp: attempt_success persist_success set_state_Inr_iff transaction_status_def)
  next
    case False
    have "phase_continues ex p"
    proof (rule ccontr)
      assume "\<not> phase_continues ex p"
      with Cons.prems(1,2) False show False
        by (cases "ex_execute_phase ex p")
          (auto simp: Let_def attempt_success persist_success mark_failed_Inr_iff mark_rolled_back_Inr_iff
            split: coordinator_step.splits)
    qed
    with Cons.prems(1) False obtain r2 where
      run: "run_phases E accepts clock ex phases ((note_phase ex p t)\<lparr>ut_state := p, ut_updated_at := clock p\<rparr>) r2 =
        (Some (Inr st), r')"
      by (auto simp: Let_def attempt_success persist_success set_state_Inr_iff)
    have "distinct phases" "Completed \<in> set phases" using Cons.prems(3,4) False by auto
    note ih = Cons.IH [OF run Cons.prems(2) this]
    have notin: "p \<notin> set (takeWhile (\<lambda>q. q \<noteq> Completed) phases)"
      using Cons.prems(3) by (auto dest: set_takeWhileD)
    show ?thesis
      using ih False notin
      by (cases "p = SessionsVerifying"; cases "p = EndpointVerifying"; cases "ex_verified_identity ex")
        (auto simp: note_phase_def)
  qed
qed simp

text \<open>A completed upgrade was carried out and verified. The child's coordinator never reports a
  rollback; if it reports completion, every required phase succeeded, and the status carries the
  number of sessions that the session check counted and the identity that the endpoint
  check returned.\<close>

theorem upgrade_completion_verified:
  assumes read: "read_transaction E d i = Inr t"
    and run: "run_upgrade_coordinator_with_lock E accepts clock (concrete_executor pl t) i decision changes d =
      (Some (Inr st), r)"
  shows "us_state st \<in> {Completed, Failed} \<and>
    (us_state st = Completed \<longrightarrow>
       list_all (\<lambda>p. is_ok (execute_phase pl t p)) (required_phases t) \<and>
       (\<exists>n v. execute_phase pl t SessionsVerifying = Inr (Restored n) \<and> us_restored_session_count st = Some n \<and>
          execute_phase pl t EndpointVerifying = Inr (Verified v) \<and> us_verified_version st = Some (vi_version v) \<and>
          us_verified_host_id st = Some (vi_host_id v) \<and> us_verified_boot_generation st = Some (vi_boot_generation v)))"
proof (cases "wait_decision decision changes = Some DecisionCommitted")
  case False
  with read run show ?thesis
    by (auto simp: run_upgrade_coordinator_with_lock_def Let_def attempt_success persist_success
        mark_failed_Inr_iff split: option.splits commit_decision.splits)
next
  case True
  let ?ex = "concrete_executor pl t"
  from True read run obtain t' r' where t': "set_state (clock Committed) Committed t = Inr t'"
    and r': "run_phases E accepts clock ?ex (coordinator_phases t') t' r' = (Some (Inr st), r)"
    by (auto simp: run_upgrade_coordinator_with_lock_def Let_def attempt_success persist_success)
  from t' have ph: "coordinator_phases t' = coordinator_phases t"
    by (simp add: set_state_Inr_iff coordinator_phases_def)
  have ne: "coordinator_phases t \<noteq> []" "Completed \<in> set (coordinator_phases t)" "distinct (coordinator_phases t)"
    "SessionsVerifying \<in> set (takeWhile (\<lambda>p. p \<noteq> Completed) (coordinator_phases t))"
    "EndpointVerifying \<in> set (takeWhile (\<lambda>p. p \<noteq> Completed) (coordinator_phases t))"
    "SessionsVerifying \<in> set (required_phases t)" "EndpointVerifying \<in> set (required_phases t)"
    by (auto simp: coordinator_phases_def required_phases_def butlast_append)
  have out: "us_state st = outcome_state ?ex (required_phases t)"
    using run_phases_outcome [OF r' [unfolded ph] ne(1)] coordinator_phases_ordered(3,4) [of t]
    by (simp add: required_phases_def)
  have cont: "phase_continues ?ex p \<longleftrightarrow> is_ok (execute_phase pl t p)"
    and stop: "ex_execute_phase ?ex p \<noteq> Inr Rollback" for p
    by (cases "execute_phase pl t p"; simp add: concrete_executor_def)+
  have never: "us_state st \<in> {Completed, Failed}"
  proof -
    have "ex_execute_phase ?ex p = Inr a \<Longrightarrow> a = Continue" for p a
      using stop [of p] by (cases a) auto
    then show ?thesis
      unfolding out outcome_state_def first_stop_def
      by (auto split: option.splits sum.splits simp: find_Some_iff)
  qed
  show ?thesis
  proof (intro conjI impI)
    show "us_state st \<in> {Completed, Failed}" by (rule never)
  next
    assume comp: "us_state st = Completed"
    then have "first_stop ?ex (required_phases t) = None"
      unfolding out outcome_state_def by (auto split: option.splits sum.splits)
    then show all: "list_all (\<lambda>p. is_ok (execute_phase pl t p)) (required_phases t)"
      by (simp add: first_stop_def find_None_iff list_all_iff cont [symmetric])
    have "is_ok (execute_phase pl t SessionsVerifying)" "is_ok (execute_phase pl t EndpointVerifying)"
      using all ne(6,7) by (simp_all add: list_all_iff)
    then obtain n v where nv: "execute_phase pl t SessionsVerifying = Inr (Restored n)"
      "execute_phase pl t EndpointVerifying = Inr (Verified v)"
      by (auto simp: execute_phase_def)
    then have "ex_restored_session_count ?ex = Some n" "ex_verified_identity ?ex = Some v"
      by (simp_all add: concrete_executor_def)
    with run_phases_results [OF r' [unfolded ph] comp ne(3,2), of v] ne(4,5) nv
    show "\<exists>n v. execute_phase pl t SessionsVerifying = Inr (Restored n) \<and> us_restored_session_count st = Some n \<and>
          execute_phase pl t EndpointVerifying = Inr (Verified v) \<and> us_verified_version st = Some (vi_version v) \<and>
          us_verified_host_id st = Some (vi_host_id v) \<and> us_verified_boot_generation st = Some (vi_boot_generation v)"
      by simp
  qed
qed

section \<open>Witnesses\<close>

definition sample_platform :: upgrade_platform where
  "sample_platform =
     \<lparr>pl_revalidate = (\<lambda>_. Inr ()), pl_verify_planned_sessions = (\<lambda>_ _ _. Inr 0),
      pl_apply_supervisor_upgrade = (\<lambda>_ _. Inr 0), pl_prepare_direct_ingress = (\<lambda>_. Inr ()),
      pl_apply_direct_ingress = Inr (),
      pl_verify_ingress_identity = (\<lambda>_ _ _ _ _. Inr \<lparr>vi_host_id = ''h'', vi_version = ''b'', vi_boot_generation = ''g2''\<rparr>),
      pl_reconcile_plugin = Inr ()\<rparr>"

theorem upgrade_completion_verified_witness:
  "us_state (transaction_status sample_failed) \<in> {Completed, Failed}"
  using upgrade_completion_verified [OF sample_upgrade_read
      sample_aborted_run [of "concrete_executor sample_platform sample_upgrade"]] by blast

definition sample_reported :: upgrade_transaction where
  "sample_reported = sample_upgrade\<lparr>ut_activity_session :=
     Some \<lparr>ps_session_id = ''s'', ps_source_process_id = 7, ps_source_started_at = 9\<rparr>\<rparr>"

lemma sample_reported_read:
  "read_transaction sample_env (sample_upgrade_dir sample_reported) ''1'' = Inr sample_reported"
proof -
  have "validate_transaction sample_env sample_reported = Inr ()"
    using sample_upgrade_valid unfolding validate_transaction_iff
    by (simp add: sample_reported_def validate_identity_def validate_session_id_def label_byte_def
        is_ascii_alphanumeric_def)
  moreover have "length (put_ut sample_reported) \<le> MAX_UPGRADE_TRANSACTION_BYTES"
    by (simp add: sample_reported_def sample_upgrade_def new_transaction_def put_upgrade_defs
        MAX_UPGRADE_TRANSACTION_BYTES_def)
  ultimately show ?thesis
    by (simp add: read_transaction_iff read_if_present_Some_iff sample_upgrade_dir_def)
      (simp add: sample_reported_def sample_upgrade_def new_transaction_def)
qed

theorem upgrade_activity_lifecycle_witness:
  "\<exists>us. map (upgrade_activity_update sample_env) (persisted (rn_log (snd (run_upgrade_coordinator_with_lock sample_env
      (\<lambda>_ _. True) (\<lambda>_. 2) (concrete_executor sample_platform sample_reported) ''1'' DecisionCommitted []
      (sample_upgrade_dir sample_reported))))) =
    map (\<lambda>u. Some (\<lparr>ps_session_id = ''s'', ps_source_process_id = 7, ps_source_started_at = 9\<rparr>, u)) us"
proof -
  have "ut_state sample_reported = Prepared" "ut_activity_session sample_reported =
      Some \<lparr>ps_session_id = ''s'', ps_source_process_id = 7, ps_source_started_at = 9\<rparr>"
    "ue_parse_str sample_env ''1'' = Some 1"
    by (simp_all add: sample_reported_def sample_upgrade_def new_transaction_def sample_env_def)
  from upgrade_activity_lifecycle [OF sample_env_ok sample_reported_read this surjective_pairing]
  show ?thesis by blast
qed

end
