(* ===== verification/Session_Grants.thy ===== *)
theory Session_Grants
  imports Approval_Policy Upgrade_Transaction Change_Format
begin

text \<open>
  Sessions and their capability grants: the session record and its wire form, the validation of
  loaded metadata, and the application and revocation of grants (\<^verbatim>\<open>src/src/config.rs\<close>), and the
  commands by which the supervisor changes a live session (the runtime loop of
  \<^verbatim>\<open>src/src/approvals.rs\<close>).

  A path is the list of its components, which is what Rust compares and orders paths by.
  \<open>canonical_directory\<close> is the file system's \<^verbatim>\<open>canonicalize\<close> and \<^verbatim>\<open>is_dir\<close>; the model holds it
  fixed. Operations on \<^verbatim>\<open>&mut Session\<close> return the session beside their result, because an
  operation that fails may have changed it already.
\<close>

section \<open>Paths\<close>

datatype path_component = RootDir | CurDir | ParentDir | Normal string

type_synonym path = "path_component list"

definition component_key :: "path_component \<Rightarrow> nat \<times> string" where
  "component_key c =
     (case c of RootDir \<Rightarrow> (0, []) | CurDir \<Rightarrow> (1, []) | ParentDir \<Rightarrow> (2, []) | Normal s \<Rightarrow> (3, s))"

lemma component_key_inj: "component_key a = component_key b \<longleftrightarrow> a = b"
  by (cases a; cases b) (simp_all add: component_key_def)

instantiation path_component :: linorder
begin

definition less_eq_path_component :: "path_component \<Rightarrow> path_component \<Rightarrow> bool" where
  "less_eq_path_component a b = (component_key a \<le> component_key b)"

definition less_path_component :: "path_component \<Rightarrow> path_component \<Rightarrow> bool" where
  "less_path_component a b = (component_key a < component_key b)"

instance
  by standard
    (auto simp: less_eq_path_component_def less_path_component_def component_key_inj
      simp flip: component_key_inj)

end

definition is_absolute :: "path \<Rightarrow> bool" where
  "is_absolute p = (case p of RootDir # _ \<Rightarrow> True | _ \<Rightarrow> False)"

section \<open>Sessions\<close>

type_synonym u16 = "16 word"

record session_grants =
  gr_listen_ports :: "u16 list"
  gr_dev_tool_env_prefixes :: "string list"
  gr_ambient_git_credentials :: bool

record session =
  se_id :: string
  se_cwd :: path
  se_permitted_directories :: "path list"
  se_started_at :: u64
  se_process_id :: u32
  se_permission_mode :: permission_mode
  se_grants :: session_grants

definition mode_parse :: "string \<Rightarrow> anyhow + permission_mode" where
  "mode_parse v =
     (if v = ''ask'' then Inr Ask
      else if v = ''agent'' then Inr Agent
      else if v = ''yolo'' then Inr Yolo
      else Inl (Message ''unknown permission mode''))"

definition mode_as_str :: "permission_mode \<Rightarrow> string" where
  "mode_as_str m = (case m of Ask \<Rightarrow> ''ask'' | Agent \<Rightarrow> ''agent'' | Yolo \<Rightarrow> ''yolo'')"

definition from_legacy_yolo :: "bool \<Rightarrow> permission_mode" where
  "from_legacy_yolo yolo = (if yolo then Yolo else Ask)"

definition is_yolo :: "permission_mode \<Rightarrow> bool" where
  "is_yolo m = (m = Yolo)"

record session_wire =
  sw_id :: string
  sw_cwd :: path
  sw_permitted_directories :: "path list"
  sw_started_at :: u64
  sw_process_id :: u32
  sw_permission_mode :: "permission_mode option"
  sw_yolo :: bool
  sw_grants :: session_grants

definition session_of_wire :: "session_wire \<Rightarrow> session" where
  "session_of_wire w =
     \<lparr>se_id = sw_id w, se_cwd = sw_cwd w, se_permitted_directories = sw_permitted_directories w,
      se_started_at = sw_started_at w, se_process_id = sw_process_id w,
      se_permission_mode =
        (case sw_permission_mode w of None \<Rightarrow> from_legacy_yolo (sw_yolo w) | Some m \<Rightarrow> m),
      se_grants = sw_grants w\<rparr>"

definition wire_of_session :: "session \<Rightarrow> session_wire" where
  "wire_of_session s =
     \<lparr>sw_id = se_id s, sw_cwd = se_cwd s, sw_permitted_directories = se_permitted_directories s,
      sw_started_at = se_started_at s, sw_process_id = se_process_id s,
      sw_permission_mode = Some (se_permission_mode s), sw_yolo = is_yolo (se_permission_mode s),
      sw_grants = se_grants s\<rparr>"

definition no_grants :: session_grants where
  "no_grants = \<lparr>gr_listen_ports = [], gr_dev_tool_env_prefixes = [], gr_ambient_git_credentials = False\<rparr>"

definition session_id :: "string \<Rightarrow> string option \<Rightarrow> anyhow + string" where
  "session_id new_uuid i =
     (let i' = (case i of None \<Rightarrow> new_uuid | Some v \<Rightarrow> v)
      in and_then (validate_session_id i') (\<lambda>_. Inr i'))"

definition new_session_with_mode ::
  "(path \<Rightarrow> anyhow + path) \<Rightarrow> string \<Rightarrow> u64 \<Rightarrow> path \<Rightarrow> string option \<Rightarrow> permission_mode \<Rightarrow> anyhow + session" where
  "new_session_with_mode canonical_directory new_uuid now cwd i mode =
     and_then (canonical_directory cwd) (\<lambda>cwd'.
     and_then (session_id new_uuid i) (\<lambda>i'.
       Inr \<lparr>se_id = i', se_cwd = cwd', se_permitted_directories = [cwd'], se_started_at = now,
            se_process_id = 0, se_permission_mode = mode, se_grants = no_grants\<rparr>))"

definition validate_loaded_session_identity :: "string \<Rightarrow> session \<Rightarrow> anyhow + unit" where
  "validate_loaded_session_identity requested s =
     and_then (validate_session_id requested) (\<lambda>_.
     ensure (se_id s = requested) (Message ''session metadata ID mismatch'') (
     validate_session_id (se_id s)))"

fun validate_roots :: "(path \<Rightarrow> anyhow + path) \<Rightarrow> path list \<Rightarrow> path list \<Rightarrow> anyhow + path list" where
  "validate_roots canonical_directory [] seen = Inr seen"
| "validate_roots canonical_directory (root # roots) seen =
     and_then (canonical_directory root) (\<lambda>canonical.
     ensure (canonical = root) (Message ''session permitted root is not canonical'') (
     ensure (root \<notin> set seen) (Message ''duplicate session permitted root'')
       (validate_roots canonical_directory roots (root # seen))))"

definition validate_loaded_session :: "(path \<Rightarrow> anyhow + path) \<Rightarrow> string \<Rightarrow> session \<Rightarrow> anyhow + unit" where
  "validate_loaded_session canonical_directory requested s =
     and_then (validate_loaded_session_identity requested s) (\<lambda>_.
     and_then (canonical_directory (se_cwd s)) (\<lambda>canonical_cwd.
     ensure (canonical_cwd = se_cwd s) (Message ''session cwd is not canonical'') (
     ensure (se_permitted_directories s \<noteq> []) (Message ''session metadata has no permitted directories'') (
     and_then (validate_roots canonical_directory (se_permitted_directories s) []) (\<lambda>seen.
     ensure (se_cwd s \<in> set seen)
       (Message ''session cwd is missing from permitted directories'') (Inr ()))))))"

text \<open>Loading: a file per session in the sessions directory, its text read and written by serde through
  the wire form (a parameter). The file is opened without following links, must be a regular file, and
  is refused above 64 KiB.\<close>

definition MAX_SESSION_METADATA_BYTES :: nat where "MAX_SESSION_METADATA_BYTES = 64 * 1024"

record session_codec =
  sc_to_vec :: "session_wire \<Rightarrow> string"
  sc_from_slice :: "string \<Rightarrow> session_wire option"

type_synonym session_dir = "string \<Rightarrow> node option"

definition session_path :: "string \<Rightarrow> anyhow + string" where
  "session_path i = and_then (validate_session_id i) (\<lambda>_. Inr (i @ ''.json''))"

definition load_session_metadata :: "session_codec \<Rightarrow> session_dir \<Rightarrow> string \<Rightarrow> anyhow + session" where
  "load_session_metadata C d i =
     and_then (session_path i) (\<lambda>path.
     case d path of
       None \<Rightarrow> Inl (Message ''session was not found or could not be opened safely'')
     | Some Symlink \<Rightarrow> Inl (Message ''session was not found or could not be opened safely'')
     | Some Directory \<Rightarrow> Inl (Message ''session metadata is not a regular file'')
     | Some (Regular mode content) \<Rightarrow>
         ensure (length content \<le> MAX_SESSION_METADATA_BYTES)
           (Message ''session metadata exceeds 65536 bytes'') (
         let bytes = take (MAX_SESSION_METADATA_BYTES + 1) content
         in ensure (length bytes \<le> MAX_SESSION_METADATA_BYTES)
              (Message ''session metadata exceeds 65536 bytes'') (
            and_then (ok_or (sc_from_slice C bytes) (Message ''invalid temote-mcp session'')) (\<lambda>w.
            Inr (session_of_wire w)))))"

definition read_session_metadata ::
  "(path \<Rightarrow> anyhow + path) \<Rightarrow> session_codec \<Rightarrow> session_dir \<Rightarrow> string \<Rightarrow> anyhow + session" where
  "read_session_metadata canonical_directory C d i =
     and_then (load_session_metadata C d i) (\<lambda>s.
     and_then (validate_loaded_session canonical_directory i s) (\<lambda>_. Inr s))"

text \<open>The file a successful \<^verbatim>\<open>save_session\<close> leaves: the whole text, owner-only, whatever its length.\<close>

definition write_session_file :: "session_codec \<Rightarrow> session \<Rightarrow> session_dir \<Rightarrow> anyhow + session_dir" where
  "write_session_file C s d =
     and_then (session_path (se_id s)) (\<lambda>path.
       Inr (d(path \<mapsto> Regular 384 (sc_to_vec C (wire_of_session s)))))"

section \<open>Grant requests\<close>

definition MAX_GRANT_LISTEN_PORTS :: nat where "MAX_GRANT_LISTEN_PORTS = 64"

definition MAX_GRANT_ENV_PREFIXES :: nat where "MAX_GRANT_ENV_PREFIXES = 32"

definition MAX_GRANT_ENV_PREFIX_BYTES :: nat where "MAX_GRANT_ENV_PREFIX_BYTES = 64"

definition MAX_GRANT_DIRECTORIES :: nat where "MAX_GRANT_DIRECTORIES = 16"

record grant_request =
  gq_listen_ports :: "u16 list"
  gq_dev_tool_env_prefixes :: "string list"
  gq_ambient_git_credentials :: bool
  gq_directories :: "path list"

definition is_effectively_empty :: "grant_request \<Rightarrow> bool" where
  "is_effectively_empty q =
     (gq_listen_ports q = [] \<and> gq_dev_tool_env_prefixes q = [] \<and>
      \<not> gq_ambient_git_credentials q \<and> gq_directories q = [])"

definition validate_dev_tool_env_prefix :: "string \<Rightarrow> anyhow + unit" where
  "validate_dev_tool_env_prefix v =
     ensure (v \<noteq> [] \<and> length v \<le> MAX_GRANT_ENV_PREFIX_BYTES)
       (Message ''dev-tool env prefix must be 1..=64 bytes'') (
     ensure (list_all (\<lambda>c. is_ascii_alphanumeric c \<or> c = CHR ''_'') v)
       (Message ''dev-tool env prefix may contain only ASCII letters, numbers, and underscore'') (Inr ()))"

fun for_each :: "('a \<Rightarrow> anyhow + unit) \<Rightarrow> 'a list \<Rightarrow> anyhow + unit" where
  "for_each f [] = Inr ()"
| "for_each f (x # xs) = and_then (f x) (\<lambda>_. for_each f xs)"

definition validate_request :: "grant_request \<Rightarrow> anyhow + unit" where
  "validate_request q =
     ensure (length (gq_listen_ports q) \<le> MAX_GRANT_LISTEN_PORTS)
       (Message ''listen port grant exceeds 64 ports'') (
     ensure (length (gq_dev_tool_env_prefixes q) \<le> MAX_GRANT_ENV_PREFIXES)
       (Message ''dev-tool env prefix grant exceeds 32 prefixes'') (
     ensure (length (gq_directories q) \<le> MAX_GRANT_DIRECTORIES)
       (Message ''directory grant exceeds 16 directories'') (
     and_then (for_each validate_dev_tool_env_prefix (gq_dev_tool_env_prefixes q)) (\<lambda>_.
     for_each (\<lambda>d. ensure (is_absolute d) (Message ''directory grant must be an absolute path'') (Inr ()))
       (gq_directories q)))))"

definition grants_missing_from ::
  "(path \<Rightarrow> anyhow + path) \<Rightarrow> grant_request \<Rightarrow> session \<Rightarrow> anyhow + grant_request" where
  "grants_missing_from canonical_directory q s =
     and_then (validate_request q) (\<lambda>_.
     and_then (collect_results canonical_directory (gq_directories q)) (\<lambda>directories.
       Inr \<lparr>gq_listen_ports =
              sort_dedup (filter (\<lambda>p. p \<notin> set (gr_listen_ports (se_grants s))) (gq_listen_ports q)),
            gq_dev_tool_env_prefixes =
              sort_dedup (filter (\<lambda>p. p \<notin> set (gr_dev_tool_env_prefixes (se_grants s)))
                (gq_dev_tool_env_prefixes q)),
            gq_ambient_git_credentials =
              (gq_ambient_git_credentials q \<and> \<not> gr_ambient_git_credentials (se_grants s)),
            gq_directories =
              sort_dedup (filter (\<lambda>d. d \<notin> set (se_permitted_directories s)) directories)\<rparr>))"

definition apply_session_grants ::
  "(path \<Rightarrow> anyhow + path) \<Rightarrow> grant_request \<Rightarrow> session \<Rightarrow> (anyhow + grant_request) \<times> session" where
  "apply_session_grants canonical_directory q s =
     (case grants_missing_from canonical_directory q s of
        Inl e \<Rightarrow> (Inl e, s)
      | Inr applied \<Rightarrow>
          if is_effectively_empty applied then (Inr applied, s)
          else
            let ports = sort_dedup (gr_listen_ports (se_grants s) @ gq_listen_ports applied);
                s1 = s\<lparr>se_grants := (se_grants s)\<lparr>gr_listen_ports := ports\<rparr>\<rparr>
            in if \<not> length ports \<le> MAX_GRANT_LISTEN_PORTS
               then (Inl (Message ''listen port grant exceeds 64 ports''), s1)
               else
                 let prefixes = sort_dedup (gr_dev_tool_env_prefixes (se_grants s1) @ gq_dev_tool_env_prefixes applied);
                     s2 = s1\<lparr>se_grants := (se_grants s1)\<lparr>gr_dev_tool_env_prefixes := prefixes\<rparr>\<rparr>
                 in if \<not> length prefixes \<le> MAX_GRANT_ENV_PREFIXES
                    then (Inl (Message ''dev-tool env prefix grant exceeds 32 prefixes''), s2)
                    else
                      (Inr applied,
                       s2\<lparr>se_grants := (se_grants s2)\<lparr>gr_ambient_git_credentials :=
                              (gr_ambient_git_credentials (se_grants s2) \<or> gq_ambient_git_credentials applied)\<rparr>,
                          se_permitted_directories :=
                              sort_dedup (se_permitted_directories s2 @ gq_directories applied)\<rparr>))"

definition revoke_session_grants :: "grant_request \<Rightarrow> session \<Rightarrow> (anyhow + grant_request) \<times> session" where
  "revoke_session_grants q s =
     (case ensure (gq_directories q = [])
             (Message ''directories are revoked with session permission revoke'') (validate_request q) of
        Inl e \<Rightarrow> (Inl e, s)
      | Inr _ \<Rightarrow>
          let g = se_grants s;
              ambient = (gq_ambient_git_credentials q \<and> gr_ambient_git_credentials g)
          in (Inr \<lparr>gq_listen_ports = filter (\<lambda>p. p \<in> set (gr_listen_ports g)) (gq_listen_ports q),
                   gq_dev_tool_env_prefixes =
                     filter (\<lambda>p. p \<in> set (gr_dev_tool_env_prefixes g)) (gq_dev_tool_env_prefixes q),
                   gq_ambient_git_credentials = ambient, gq_directories = []\<rparr>,
              s\<lparr>se_grants :=
                 \<lparr>gr_listen_ports = filter (\<lambda>p. p \<notin> set (gq_listen_ports q)) (gr_listen_ports g),
                  gr_dev_tool_env_prefixes =
                    filter (\<lambda>p. p \<notin> set (gq_dev_tool_env_prefixes q)) (gr_dev_tool_env_prefixes g),
                  gr_ambient_git_credentials = (if ambient then False else gr_ambient_git_credentials g)\<rparr>\<rparr>))"

section \<open>The runtime commands\<close>

datatype runtime_command =
    SetPermissionMode permission_mode
  | AllowDirectory path
  | ApplyGrants grant_request
  | RevokeGrants grant_request
  | RevokeDirectory path
  | Snapshot
  | SetUpgradeQuiesced bool
  | CrashForTest
  | Shutdown

record grant_response =
  rs_delta_key :: string
  rs_delta :: grant_request
  rs_grants :: session_grants
  rs_permitted_directories :: "path list"

definition grant_response_value :: "session \<Rightarrow> string \<Rightarrow> grant_request \<Rightarrow> grant_response" where
  "grant_response_value s delta_key delta =
     \<lparr>rs_delta_key = delta_key, rs_delta = delta, rs_grants = se_grants s,
      rs_permitted_directories = se_permitted_directories s\<rparr>"

datatype runtime_response =
    Done "anyhow + unit"
  | Granted "anyhow + grant_response"
  | Snapshotted session
  | Ended "anyhow + unit"

text \<open>The metadata on disk is \<open>rt_saved\<close>; \<open>save\<close> is the file system's answer to a
  \<^verbatim>\<open>save_session\<close>, which renames a complete temporary file or changes nothing.\<close>

record session_runtime =
  rt_session :: session
  rt_saved :: "session option"
  rt_upgrade_quiesced :: bool
  rt_active_operations :: nat

definition save_session ::
  "(session \<Rightarrow> anyhow + unit) \<Rightarrow> session_runtime \<Rightarrow> (anyhow + unit) \<times> session_runtime" where
  "save_session save rt =
     (case and_then (validate_session_id (se_id (rt_session rt))) (\<lambda>_. save (rt_session rt)) of
        Inl e \<Rightarrow> (Inl e, rt)
      | Inr _ \<Rightarrow> (Inr (), rt\<lparr>rt_saved := Some (rt_session rt)\<rparr>))"

definition then_save ::
  "(session \<Rightarrow> anyhow + unit) \<Rightarrow> (anyhow + 'a) \<times> session \<Rightarrow> session_runtime \<Rightarrow> (anyhow + 'a) \<times> session_runtime" where
  "then_save save op rt =
     (case op of (res, s) \<Rightarrow>
        let rt1 = rt\<lparr>rt_session := s\<rparr>
        in case res of
             Inl e \<Rightarrow> (Inl e, rt1)
           | Inr v \<Rightarrow> (case save_session save rt1 of (res', rt2) \<Rightarrow> (and_then res' (\<lambda>_. Inr v), rt2)))"

definition allow_directory :: "(path \<Rightarrow> anyhow + path) \<Rightarrow> path \<Rightarrow> session \<Rightarrow> (anyhow + unit) \<times> session" where
  "allow_directory canonical_directory p s =
     (case canonical_directory p of
        Inl e \<Rightarrow> (Inl e, s)
      | Inr directory \<Rightarrow>
          if directory \<notin> set (se_permitted_directories s)
          then (Inr (), s\<lparr>se_permitted_directories := sort (se_permitted_directories s @ [directory])\<rparr>)
          else (Inr (), s))"

definition revoke_directory :: "(path \<Rightarrow> anyhow + path) \<Rightarrow> path \<Rightarrow> session \<Rightarrow> (anyhow + unit) \<times> session" where
  "revoke_directory canonical_directory p s =
     (case canonical_directory p of
        Inl e \<Rightarrow> (Inl e, s)
      | Inr directory \<Rightarrow>
          if directory = se_cwd s then (Inl (Message ''cannot revoke the session cwd''), s)
          else (Inr (), s\<lparr>se_permitted_directories :=
                  filter (\<lambda>item. item \<noteq> directory) (se_permitted_directories s)\<rparr>))"

definition handle_command ::
  "(path \<Rightarrow> anyhow + path) \<Rightarrow> (session \<Rightarrow> anyhow + unit) \<Rightarrow> runtime_command \<Rightarrow> session_runtime
     \<Rightarrow> runtime_response \<times> session_runtime" where
  "handle_command canonical_directory save cmd rt =
     (let s = rt_session rt
      in case cmd of
           SetPermissionMode mode \<Rightarrow>
             (case save_session save (rt\<lparr>rt_session := s\<lparr>se_permission_mode := mode\<rparr>\<rparr>) of
                (res, rt') \<Rightarrow> (Done res, rt'))
         | AllowDirectory p \<Rightarrow>
             (case then_save save (allow_directory canonical_directory p s) rt of (res, rt') \<Rightarrow> (Done res, rt'))
         | RevokeDirectory p \<Rightarrow>
             (case then_save save (revoke_directory canonical_directory p s) rt of (res, rt') \<Rightarrow> (Done res, rt'))
         | ApplyGrants q \<Rightarrow>
             (case then_save save (apply_session_grants canonical_directory q s) rt of
                (res, rt') \<Rightarrow>
                  (Granted (and_then res (\<lambda>applied. Inr (grant_response_value (rt_session rt') ''applied'' applied))), rt'))
         | RevokeGrants q \<Rightarrow>
             (case then_save save (revoke_session_grants q s) rt of
                (res, rt') \<Rightarrow>
                  (Granted (and_then res (\<lambda>removed. Inr (grant_response_value (rt_session rt') ''removed'' removed))), rt'))
         | Snapshot \<Rightarrow> (Snapshotted s, rt)
         | SetUpgradeQuiesced v \<Rightarrow>
             if v \<and> rt_active_operations rt \<noteq> 0
             then (Done (Inl (Message ''session has in-flight operation(s)'')), rt)
             else (Done (Inr ()), rt\<lparr>rt_upgrade_quiesced := v\<rparr>)
         | CrashForTest \<Rightarrow> (Ended (Inl (Message ''injected runtime crash for test'')), rt)
         | Shutdown \<Rightarrow> (Ended (Inr ()), rt))"

fun run_commands ::
  "(path \<Rightarrow> anyhow + path) \<Rightarrow> (runtime_command \<times> (session \<Rightarrow> anyhow + unit)) list \<Rightarrow> session_runtime \<Rightarrow> session_runtime" where
  "run_commands canonical_directory [] rt = rt"
| "run_commands canonical_directory ((cmd, save) # cmds) rt =
     (case handle_command canonical_directory save cmd rt of
        (Ended _, rt') \<Rightarrow> rt'
      | (_, rt') \<Rightarrow> run_commands canonical_directory cmds rt')"

section \<open>The session invariant\<close>

text \<open>What a live session satisfies at all times. It is stronger than the check on loaded
  metadata; the number of ports is not bounded by it.\<close>

definition session_ok :: "(path \<Rightarrow> anyhow + path) \<Rightarrow> session \<Rightarrow> bool" where
  "session_ok canonical_directory s \<longleftrightarrow>
     validate_session_id (se_id s) = Inr () \<and> se_cwd s \<in> set (se_permitted_directories s) \<and>
     (\<forall>d \<in> set (se_permitted_directories s). canonical_directory d = Inr d) \<and>
     ascending (se_permitted_directories s) \<and> ascending (gr_listen_ports (se_grants s)) \<and>
     ascending (gr_dev_tool_env_prefixes (se_grants s)) \<and>
     (\<forall>v \<in> set (gr_dev_tool_env_prefixes (se_grants s)). validate_dev_tool_env_prefix v = Inr ())"

text \<open>\<^verbatim>\<open>canonicalize\<close> returns a canonical path.\<close>

definition canonical_idempotent :: "(path \<Rightarrow> anyhow + path) \<Rightarrow> bool" where
  "canonical_idempotent canonical_directory \<longleftrightarrow>
     (\<forall>p d. canonical_directory p = Inr d \<longrightarrow> canonical_directory d = Inr d)"

lemma for_each_Inr_iff [simp]: "for_each f xs = Inr u \<longleftrightarrow> (\<forall>x \<in> set xs. f x = Inr ())"
  by (induction xs) auto

lemma validate_roots_Inr_iff:
  "validate_roots canonical_directory roots seen = Inr r \<longleftrightarrow>
     (\<forall>d \<in> set roots. canonical_directory d = Inr d) \<and> distinct roots \<and> set roots \<inter> set seen = {} \<and>
     r = rev roots @ seen"
  by (induction roots arbitrary: seen) auto

lemma session_ok_validates:
  "session_ok canonical_directory s \<Longrightarrow> validate_loaded_session canonical_directory (se_id s) s = Inr ()"
  by (auto simp: session_ok_def validate_loaded_session_def validate_loaded_session_identity_def
      validate_roots_Inr_iff)

lemma session_of_wire_of_session [simp]: "session_of_wire (wire_of_session s) = s"
  by (simp add: session_of_wire_def wire_of_session_def)

text \<open>Reading a session back that was written: it is refused for its length or it is the session.\<close>

lemma read_written_session:
  assumes ok: "session_ok canonical_directory s" and written: "write_session_file C s d = Inr d'"
    and law: "sc_from_slice C (sc_to_vec C (wire_of_session s)) = Some (wire_of_session s)"
  shows "read_session_metadata canonical_directory C d' (se_id s) =
    (if length (sc_to_vec C (wire_of_session s)) \<le> 64 * 1024 then Inr s
     else Inl (Message ''session metadata exceeds 65536 bytes''))"
proof -
  have path: "session_path (se_id s) = Inr (se_id s @ ''.json'')" using ok by (simp add: session_path_def session_ok_def)
  with written have "d' (se_id s @ ''.json'') = Some (Regular 384 (sc_to_vec C (wire_of_session s)))"
    by (auto simp: write_session_file_def)
  with path law session_ok_validates [OF ok] show ?thesis
    by (simp add: read_session_metadata_def load_session_metadata_def MAX_SESSION_METADATA_BYTES_def Let_def ok_or_def)
qed

lemma grants_missing_from_Inr:
  assumes "grants_missing_from canonical_directory q s = Inr a"
  shows "ascending (gq_listen_ports a)" "ascending (gq_dev_tool_env_prefixes a)" "ascending (gq_directories a)"
    "set (gq_listen_ports a) = set (gq_listen_ports q) - set (gr_listen_ports (se_grants s))"
    "set (gq_dev_tool_env_prefixes a) = set (gq_dev_tool_env_prefixes q) - set (gr_dev_tool_env_prefixes (se_grants s))"
    "gq_ambient_git_credentials a \<longleftrightarrow> gq_ambient_git_credentials q \<and> \<not> gr_ambient_git_credentials (se_grants s)"
    "set (gq_directories a) =
       {d. \<exists>p \<in> set (gq_directories q). canonical_directory p = Inr d} - set (se_permitted_directories s)"
    "\<forall>v \<in> set (gq_dev_tool_env_prefixes q). validate_dev_tool_env_prefix v = Inr ()"
    "\<forall>p \<in> set (gq_directories q). is_ok (canonical_directory p)"
proof -
  from assms obtain ds where ds: "list_all2 (\<lambda>p d. canonical_directory p = Inr d) (gq_directories q) ds"
    and a: "a = \<lparr>gq_listen_ports =
              sort_dedup (filter (\<lambda>p. p \<notin> set (gr_listen_ports (se_grants s))) (gq_listen_ports q)),
            gq_dev_tool_env_prefixes =
              sort_dedup (filter (\<lambda>p. p \<notin> set (gr_dev_tool_env_prefixes (se_grants s))) (gq_dev_tool_env_prefixes q)),
            gq_ambient_git_credentials = (gq_ambient_git_credentials q \<and> \<not> gr_ambient_git_credentials (se_grants s)),
            gq_directories = sort_dedup (filter (\<lambda>d. d \<notin> set (se_permitted_directories s)) ds)\<rparr>"
    and v: "validate_request q = Inr ()"
    by (auto simp: grants_missing_from_def collect_results_Inr_iff)
  have ds_set: "set ds = {d. \<exists>p \<in> set (gq_directories q). canonical_directory p = Inr d}"
    using ds by (induction rule: list_all2_induct) auto
  show "ascending (gq_listen_ports a)" "ascending (gq_dev_tool_env_prefixes a)" "ascending (gq_directories a)"
    by (simp_all add: a)
  show "set (gq_listen_ports a) = set (gq_listen_ports q) - set (gr_listen_ports (se_grants s))"
    "set (gq_dev_tool_env_prefixes a) = set (gq_dev_tool_env_prefixes q) - set (gr_dev_tool_env_prefixes (se_grants s))"
    "gq_ambient_git_credentials a \<longleftrightarrow> gq_ambient_git_credentials q \<and> \<not> gr_ambient_git_credentials (se_grants s)"
    "set (gq_directories a) =
       {d. \<exists>p \<in> set (gq_directories q). canonical_directory p = Inr d} - set (se_permitted_directories s)"
    by (auto simp: a ds_set [symmetric])
  show "\<forall>v \<in> set (gq_dev_tool_env_prefixes q). validate_dev_tool_env_prefix v = Inr ()"
    using v by (simp add: validate_request_def)
  show "\<forall>p \<in> set (gq_directories q). is_ok (canonical_directory p)"
    using ds by (induction rule: list_all2_induct) auto
qed

lemma apply_session_grants_cases:
  assumes "apply_session_grants canonical_directory q s = (res, s')"
  obtains (refused) e where "grants_missing_from canonical_directory q s = Inl e" "res = Inl e" "s' = s"
  | (covered) a where "grants_missing_from canonical_directory q s = Inr a" "is_effectively_empty a" "res = Inr a" "s' = s"
  | (too_many_ports) a where "grants_missing_from canonical_directory q s = Inr a"
      "res = Inl (Message ''listen port grant exceeds 64 ports'')"
      "MAX_GRANT_LISTEN_PORTS < length (sort_dedup (gr_listen_ports (se_grants s) @ gq_listen_ports a))"
      "s' = s\<lparr>se_grants := (se_grants s)\<lparr>gr_listen_ports :=
         sort_dedup (gr_listen_ports (se_grants s) @ gq_listen_ports a)\<rparr>\<rparr>"
  | (too_many_prefixes) a where "grants_missing_from canonical_directory q s = Inr a"
      "res = Inl (Message ''dev-tool env prefix grant exceeds 32 prefixes'')"
      "MAX_GRANT_ENV_PREFIXES < length (sort_dedup (gr_dev_tool_env_prefixes (se_grants s) @ gq_dev_tool_env_prefixes a))"
      "s' = s\<lparr>se_grants := (se_grants s)\<lparr>
         gr_listen_ports := sort_dedup (gr_listen_ports (se_grants s) @ gq_listen_ports a),
         gr_dev_tool_env_prefixes := sort_dedup (gr_dev_tool_env_prefixes (se_grants s) @ gq_dev_tool_env_prefixes a)\<rparr>\<rparr>"
  | (applied) a where "grants_missing_from canonical_directory q s = Inr a" "\<not> is_effectively_empty a" "res = Inr a"
      "length (sort_dedup (gr_listen_ports (se_grants s) @ gq_listen_ports a)) \<le> MAX_GRANT_LISTEN_PORTS"
      "length (sort_dedup (gr_dev_tool_env_prefixes (se_grants s) @ gq_dev_tool_env_prefixes a)) \<le> MAX_GRANT_ENV_PREFIXES"
      "s' = s\<lparr>se_grants := \<lparr>gr_listen_ports = sort_dedup (gr_listen_ports (se_grants s) @ gq_listen_ports a),
           gr_dev_tool_env_prefixes = sort_dedup (gr_dev_tool_env_prefixes (se_grants s) @ gq_dev_tool_env_prefixes a),
           gr_ambient_git_credentials = (gr_ambient_git_credentials (se_grants s) \<or> gq_ambient_git_credentials a)\<rparr>,
         se_permitted_directories := sort_dedup (se_permitted_directories s @ gq_directories a)\<rparr>"
proof (cases "grants_missing_from canonical_directory q s")
  case (Inl e)
  with assms show thesis by (intro refused [OF Inl]) (simp_all add: apply_session_grants_def)
next
  case (Inr a)
  let ?P = "sort_dedup (gr_listen_ports (se_grants s) @ gq_listen_ports a)"
  let ?V = "sort_dedup (gr_dev_tool_env_prefixes (se_grants s) @ gq_dev_tool_env_prefixes a)"
  consider "is_effectively_empty a" | "\<not> is_effectively_empty a" "\<not> length ?P \<le> MAX_GRANT_LISTEN_PORTS"
    | "\<not> is_effectively_empty a" "length ?P \<le> MAX_GRANT_LISTEN_PORTS" "\<not> length ?V \<le> MAX_GRANT_ENV_PREFIXES"
    | "\<not> is_effectively_empty a" "length ?P \<le> MAX_GRANT_LISTEN_PORTS" "length ?V \<le> MAX_GRANT_ENV_PREFIXES"
    by blast
  then show thesis
  proof cases
    case 1
    with assms Inr show thesis by (intro covered [OF Inr]) (simp_all add: apply_session_grants_def)
  next
    case 2
    with assms Inr show thesis by (intro too_many_ports [OF Inr]) (auto simp: apply_session_grants_def Let_def)
  next
    case 3
    with assms Inr show thesis by (intro too_many_prefixes [OF Inr]) (auto simp: apply_session_grants_def Let_def)
  next
    case 4
    with assms Inr show thesis
      by (intro applied [OF Inr]) (auto simp: apply_session_grants_def Let_def)
  qed
qed

lemma apply_session_ok:
  assumes canon: "canonical_idempotent canonical_directory" and ok: "session_ok canonical_directory s"
    and op: "apply_session_grants canonical_directory q s = (res, s')"
  shows "session_ok canonical_directory s'"
  using op
proof (cases rule: apply_session_grants_cases)
  case (too_many_ports a)
  with ok show ?thesis by (simp add: session_ok_def)
next
  case (too_many_prefixes a)
  with ok grants_missing_from_Inr(5,8) [OF too_many_prefixes(1)] show ?thesis by (auto simp: session_ok_def)
next
  case (applied a)
  have "canonical_directory d = Inr d" if "d \<in> set (gq_directories a)" for d
    using that grants_missing_from_Inr(7) [OF applied(1)] canon by (auto simp: canonical_idempotent_def)
  with ok applied grants_missing_from_Inr(5,8) [OF applied(1)] show ?thesis by (auto simp: session_ok_def)
qed (use ok in simp_all)

lemma revoke_session_grants_cases:
  assumes "revoke_session_grants q s = (res, s')"
  obtains (refused) e where "res = Inl e" "s' = s"
  | (revoked) a where "res = Inr a" "gq_directories q = []"
      "s' = s\<lparr>se_grants :=
         \<lparr>gr_listen_ports = filter (\<lambda>p. p \<notin> set (gq_listen_ports q)) (gr_listen_ports (se_grants s)),
          gr_dev_tool_env_prefixes =
            filter (\<lambda>p. p \<notin> set (gq_dev_tool_env_prefixes q)) (gr_dev_tool_env_prefixes (se_grants s)),
          gr_ambient_git_credentials = (gr_ambient_git_credentials (se_grants s) \<and> \<not> gq_ambient_git_credentials q)\<rparr>\<rparr>"
proof (cases "ensure (gq_directories q = [])
    (Message ''directories are revoked with session permission revoke'') (validate_request q)")
  case (Inl e)
  with assms show thesis by (intro refused [of e]) (auto simp: revoke_session_grants_def)
next
  case (Inr u)
  with assms show thesis by (intro revoked) (auto simp: revoke_session_grants_def Let_def)
qed

lemma revoke_session_ok:
  assumes "session_ok canonical_directory s" "revoke_session_grants q s = (res, s')"
  shows "session_ok canonical_directory s'"
  using assms(2)
proof (cases rule: revoke_session_grants_cases)
  case (revoked a)
  with assms(1) show ?thesis by (auto simp: session_ok_def ascending_filter sorted_filter [where f = id, simplified])
qed (use assms(1) in simp)

lemma allow_directory_ok:
  assumes "canonical_idempotent canonical_directory" "session_ok canonical_directory s"
  shows "session_ok canonical_directory (snd (allow_directory canonical_directory p s))"
  using assms
  by (cases "canonical_directory p") (auto simp: allow_directory_def session_ok_def canonical_idempotent_def)

lemma revoke_directory_ok:
  assumes "session_ok canonical_directory s"
  shows "session_ok canonical_directory (snd (revoke_directory canonical_directory p s))"
  using assms
  by (cases "canonical_directory p")
    (auto simp: revoke_directory_def session_ok_def sorted_filter [where f = id, simplified])

definition runtime_ok :: "(path \<Rightarrow> anyhow + path) \<Rightarrow> session_runtime \<Rightarrow> bool" where
  "runtime_ok canonical_directory rt \<longleftrightarrow>
     session_ok canonical_directory (rt_session rt) \<and>
     (case rt_saved rt of None \<Rightarrow> True | Some s \<Rightarrow> session_ok canonical_directory s)"

lemma save_session_ok:
  "runtime_ok canonical_directory rt \<Longrightarrow> runtime_ok canonical_directory (snd (save_session save rt))"
  by (auto simp: save_session_def runtime_ok_def split: sum.split)

lemma then_save_ok:
  assumes "runtime_ok canonical_directory rt" "session_ok canonical_directory (snd op)"
  shows "runtime_ok canonical_directory (snd (then_save save op rt))"
proof -
  have "runtime_ok canonical_directory (rt\<lparr>rt_session := snd op\<rparr>)" using assms by (simp add: runtime_ok_def)
  from this save_session_ok [OF this, of save] show ?thesis
    by (cases op; cases "fst op") (auto simp: then_save_def Let_def split: prod.split)
qed

lemma handle_command_ok:
  assumes "canonical_idempotent canonical_directory" "runtime_ok canonical_directory rt"
  shows "runtime_ok canonical_directory (snd (handle_command canonical_directory save cmd rt))"
proof -
  have ok: "session_ok canonical_directory (rt_session rt)" using assms(2) by (simp add: runtime_ok_def)
  have ops: "session_ok canonical_directory (snd (apply_session_grants canonical_directory q (rt_session rt)))"
    "session_ok canonical_directory (snd (revoke_session_grants q (rt_session rt)))" for q
    using apply_session_ok [OF assms(1) ok surjective_pairing] revoke_session_ok [OF ok surjective_pairing] by blast+
  have mode: "runtime_ok canonical_directory (rt\<lparr>rt_session := (rt_session rt)\<lparr>se_permission_mode := m\<rparr>\<rparr>)" for m
    using assms(2) by (simp add: runtime_ok_def session_ok_def)
  have quiesced: "runtime_ok canonical_directory (rt\<lparr>rt_upgrade_quiesced := v\<rparr>)" for v
    using assms(2) by (simp add: runtime_ok_def)
  show ?thesis
    by (cases cmd)
      (simp_all add: handle_command_def Let_def prod.case_eq_if save_session_ok [OF mode] quiesced assms
        then_save_ok [OF assms(2) ops(1)] then_save_ok [OF assms(2) ops(2)]
        then_save_ok [OF assms(2) allow_directory_ok [OF assms(1) ok]]
        then_save_ok [OF assms(2) revoke_directory_ok [OF ok]])
qed

lemma run_commands_ok:
  assumes "canonical_idempotent canonical_directory"
  shows "runtime_ok canonical_directory rt \<Longrightarrow> runtime_ok canonical_directory (run_commands canonical_directory cmds rt)"
proof (induction cmds arbitrary: rt)
  case (Cons c cmds)
  obtain cmd save where c: "c = (cmd, save)" by fastforce
  obtain resp rt' where step: "handle_command canonical_directory save cmd rt = (resp, rt')" by fastforce
  have "runtime_ok canonical_directory rt'" using handle_command_ok [OF assms Cons.prems, of save cmd] by (simp add: step)
  then show ?case using Cons.IH by (cases resp) (simp_all add: c step)
qed simp

lemma missing_after_apply:
  assumes "grants_missing_from canonical_directory q s = Inr a"
    "set (gq_listen_ports q) \<subseteq> set (gr_listen_ports (se_grants s'))"
    "set (gq_dev_tool_env_prefixes q) \<subseteq> set (gr_dev_tool_env_prefixes (se_grants s'))"
    "gq_ambient_git_credentials q \<longrightarrow> gr_ambient_git_credentials (se_grants s')"
    "{d. \<exists>p \<in> set (gq_directories q). canonical_directory p = Inr d} \<subseteq> set (se_permitted_directories s')"
  shows "\<exists>a'. grants_missing_from canonical_directory q s' = Inr a' \<and> is_effectively_empty a'"
proof -
  from assms(1) obtain ds where "validate_request q = Inr ()" "collect_results canonical_directory (gq_directories q) = Inr ds"
    by (auto simp: grants_missing_from_def)
  moreover from this(2) have "set ds = {d. \<exists>p \<in> set (gq_directories q). canonical_directory p = Inr d}"
    unfolding collect_results_Inr_iff by (induction rule: list_all2_induct) auto
  ultimately show ?thesis
    using assms(2-5) by (auto simp: grants_missing_from_def is_effectively_empty_def filter_empty_conv)
qed

section \<open>Properties\<close>


text \<open>Applying grants adds exactly what was missing. On success the answer lists what the session
  did not have yet, the session then has its old grants and the requested ones and nothing else,
  within the limits whenever something was added, and the same request applied again adds nothing and
  leaves the session as it is.\<close>

theorem apply_grants_exact:
  assumes "apply_session_grants canonical_directory q s = (Inr a, s')"
  shows "set (gq_listen_ports a) = set (gq_listen_ports q) - set (gr_listen_ports (se_grants s)) \<and>
    set (gq_dev_tool_env_prefixes a) = set (gq_dev_tool_env_prefixes q) - set (gr_dev_tool_env_prefixes (se_grants s)) \<and>
    set (gr_listen_ports (se_grants s')) = set (gr_listen_ports (se_grants s)) \<union> set (gq_listen_ports q) \<and>
    set (gr_dev_tool_env_prefixes (se_grants s')) =
      set (gr_dev_tool_env_prefixes (se_grants s)) \<union> set (gq_dev_tool_env_prefixes q) \<and>
    gr_ambient_git_credentials (se_grants s') = (gr_ambient_git_credentials (se_grants s) \<or> gq_ambient_git_credentials q) \<and>
    set (se_permitted_directories s') = set (se_permitted_directories s) \<union>
      {d. \<exists>p \<in> set (gq_directories q). canonical_directory p = Inr d} \<and>
    (s' = s \<or> length (gr_listen_ports (se_grants s')) \<le> 64 \<and> length (gr_dev_tool_env_prefixes (se_grants s')) \<le> 32) \<and>
    (\<exists>a'. apply_session_grants canonical_directory q s' = (Inr a', s') \<and> is_effectively_empty a')"
proof -
  have m: "grants_missing_from canonical_directory q s = Inr a"
    using assms by (cases rule: apply_session_grants_cases) simp_all
  note facts = grants_missing_from_Inr [OF m]
  have sets: "(set (gr_listen_ports (se_grants s')) = set (gr_listen_ports (se_grants s)) \<union> set (gq_listen_ports q)) \<and>
    (set (gr_dev_tool_env_prefixes (se_grants s')) =
      set (gr_dev_tool_env_prefixes (se_grants s)) \<union> set (gq_dev_tool_env_prefixes q)) \<and>
    (gr_ambient_git_credentials (se_grants s') = (gr_ambient_git_credentials (se_grants s) \<or> gq_ambient_git_credentials q)) \<and>
    (set (se_permitted_directories s') = set (se_permitted_directories s) \<union>
      {d. \<exists>p \<in> set (gq_directories q). canonical_directory p = Inr d}) \<and>
    (s' = s \<or> length (gr_listen_ports (se_grants s')) \<le> 64 \<and> length (gr_dev_tool_env_prefixes (se_grants s')) \<le> 32)"
    using assms
  proof (cases rule: apply_session_grants_cases)
    case (covered a)
    with m facts show ?thesis by (auto simp: is_effectively_empty_def)
  next
    case (applied a)
    with m facts show ?thesis by (auto simp: MAX_GRANT_LISTEN_PORTS_def MAX_GRANT_ENV_PREFIXES_def)
  qed simp_all
  obtain a' where "grants_missing_from canonical_directory q s' = Inr a'" "is_effectively_empty a'"
    using missing_after_apply [OF m, of s'] sets by auto
  then have "apply_session_grants canonical_directory q s' = (Inr a', s')" by (simp add: apply_session_grants_def)
  with facts(4,5) sets \<open>is_effectively_empty a'\<close> show ?thesis by blast
qed

text \<open>Revoking what an application added gives the grants back as they were. Directories are
  not revoked this way and stay.\<close>

theorem apply_then_revoke:
  assumes "session_ok canonical_directory s"
    and "apply_session_grants canonical_directory q s = (Inr a, s1)"
    and "revoke_session_grants (a\<lparr>gq_directories := []\<rparr>) s1 = (Inr b, s2)"
  shows "se_grants s2 = se_grants s \<and> se_permitted_directories s2 = se_permitted_directories s1"
proof -
  have m: "grants_missing_from canonical_directory q s = Inr a"
    using assms(2) by (cases rule: apply_session_grants_cases) simp_all
  note facts = grants_missing_from_Inr [OF m]
  have asc: "ascending (gr_listen_ports (se_grants s))" "ascending (gr_dev_tool_env_prefixes (se_grants s))"
    using assms(1) by (simp_all add: session_ok_def)
  have restored: "(filter (\<lambda>p. p \<notin> set (gq_listen_ports a)) (gr_listen_ports (se_grants s1)) = gr_listen_ports (se_grants s)) \<and>
    (filter (\<lambda>p. p \<notin> set (gq_dev_tool_env_prefixes a)) (gr_dev_tool_env_prefixes (se_grants s1)) =
      gr_dev_tool_env_prefixes (se_grants s)) \<and>
    ((gr_ambient_git_credentials (se_grants s1) \<and> \<not> gq_ambient_git_credentials a) = gr_ambient_git_credentials (se_grants s))"
    using assms(2)
  proof (cases rule: apply_session_grants_cases)
    case (covered a')
    with m show ?thesis by (simp add: is_effectively_empty_def)
  next
    case (applied a')
    with m have "a' = a" by simp
    have "set (gq_listen_ports a) \<inter> set (gr_listen_ports (se_grants s)) = {}"
      "set (gq_dev_tool_env_prefixes a) \<inter> set (gr_dev_tool_env_prefixes (se_grants s)) = {}"
      using facts(4,5) by auto
    with applied(6) \<open>a' = a\<close> asc facts(6) show ?thesis by (auto simp: sort_dedup_filter_append)
  qed simp_all
  show ?thesis
    using assms(3) by (cases rule: revoke_session_grants_cases) (simp_all add: restored)
qed

text \<open>C24. A refused application is not without effect. When the union of old and requested ports
  exceeds the limit of 64, the application is answered with an error, and the live session holds the
  whole union all the same; the next change of the permission mode that is saved stores it.\<close>

theorem refused_ports_stay_granted:
  assumes "grants_missing_from canonical_directory q s = Inr a"
    and "64 < card (set (gr_listen_ports (se_grants s)) \<union> set (gq_listen_ports q))"
    and "length (gr_listen_ports (se_grants s)) \<le> 64"
    and "rt_session rt = s" and "\<forall>s. save s = Inr ()" and "validate_session_id (se_id s) = Inr ()"
    and "handle_command canonical_directory save (ApplyGrants q) rt = (resp, rt1)"
    and "handle_command canonical_directory save (SetPermissionMode mode) rt1 = (resp2, rt2)"
  shows "resp = Granted (Inl (Message ''listen port grant exceeds 64 ports'')) \<and>
    set (gr_listen_ports (se_grants (rt_session rt1))) =
      set (gr_listen_ports (se_grants s)) \<union> set (gq_listen_ports q) \<and>
    resp2 = Done (Inr ()) \<and>
    (\<exists>saved. rt_saved rt2 = Some saved \<and>
      set (gr_listen_ports (se_grants saved)) = set (gr_listen_ports (se_grants s)) \<union> set (gq_listen_ports q))"
proof -
  note facts = grants_missing_from_Inr [OF assms(1)]
  let ?U = "sort_dedup (gr_listen_ports (se_grants s) @ gq_listen_ports a)"
  have set: "set ?U = set (gr_listen_ports (se_grants s)) \<union> set (gq_listen_ports q)" using facts(4) by auto
  then have long: "\<not> length ?U \<le> MAX_GRANT_LISTEN_PORTS"
    using assms(2) by (simp add: length_sort_dedup MAX_GRANT_LISTEN_PORTS_def)
  have "card (set (gr_listen_ports (se_grants s))) \<le> 64" using assms(3) card_length le_trans by blast
  then have "gq_listen_ports a \<noteq> []" using assms(2) set by auto
  then have "\<not> is_effectively_empty a" by (simp add: is_effectively_empty_def)
  with assms(1) long have ap: "apply_session_grants canonical_directory q s =
      (Inl (Message ''listen port grant exceeds 64 ports''), s\<lparr>se_grants := (se_grants s)\<lparr>gr_listen_ports := ?U\<rparr>\<rparr>)"
    by (simp add: apply_session_grants_def Let_def)
  with assms(4,7) have 1: "resp = Granted (Inl (Message ''listen port grant exceeds 64 ports''))"
    "rt1 = rt\<lparr>rt_session := s\<lparr>se_grants := (se_grants s)\<lparr>gr_listen_ports := ?U\<rparr>\<rparr>\<rparr>"
    by (auto simp: handle_command_def then_save_def Let_def)
  with assms(5,6,8) set show ?thesis
    by (auto simp: handle_command_def save_session_def Let_def)
qed

section \<open>Witnesses\<close>

definition sample_canonical :: "path \<Rightarrow> anyhow + path" where
  "sample_canonical p = (if is_absolute p then Inr p else Inl NotFound)"

lemma sample_canonical_idempotent: "canonical_idempotent sample_canonical"
  by (auto simp: canonical_idempotent_def sample_canonical_def split: if_splits)

definition sample_session :: "u16 list \<Rightarrow> session" where
  "sample_session ports =
     \<lparr>se_id = ''s'', se_cwd = [RootDir, Normal ''w''], se_permitted_directories = [[RootDir, Normal ''w'']],
      se_started_at = 1, se_process_id = 0, se_permission_mode = Ask,
      se_grants = no_grants\<lparr>gr_listen_ports := ports\<rparr>\<rparr>"

definition sample_ports_request :: "u16 list \<Rightarrow> grant_request" where
  "sample_ports_request ports =
     \<lparr>gq_listen_ports = ports, gq_dev_tool_env_prefixes = [], gq_ambient_git_credentials = False, gq_directories = []\<rparr>"

lemma sample_session_id: "validate_session_id ''s'' = Inr ()"
  by (simp add: validate_session_id_def label_byte_def is_ascii_alphanumeric_def)

lemma sample_new_session:
  "new_session_with_mode sample_canonical ''u'' 1 [RootDir, Normal ''w''] (Some ''s'') Ask = Inr (sample_session [])"
  by (simp add: new_session_with_mode_def session_id_def sample_canonical_def is_absolute_def sample_session_id
      sample_session_def no_grants_def)

lemma sample_session_ok: "session_ok sample_canonical (sample_session [])"
  by (simp add: session_ok_def sample_session_def sample_session_id sample_canonical_def is_absolute_def no_grants_def)

lemma sample_missing:
  "grants_missing_from sample_canonical (sample_ports_request [80]) (sample_session ports) =
     Inr (sample_ports_request (if 80 \<in> set ports then [] else [80]))"
  by (simp add: grants_missing_from_def validate_request_def sample_ports_request_def sample_session_def
      no_grants_def sort_dedup_def MAX_GRANT_LISTEN_PORTS_def)

lemma sample_apply:
  "apply_session_grants sample_canonical (sample_ports_request [80]) (sample_session []) =
     (Inr (sample_ports_request [80]), sample_session [80])"
  by (simp add: apply_session_grants_def sample_missing)
    (simp add: is_effectively_empty_def sample_ports_request_def sample_session_def no_grants_def sort_dedup_def
      MAX_GRANT_LISTEN_PORTS_def Let_def)

lemma sample_revoke:
  "\<exists>b. revoke_session_grants ((sample_ports_request [80])\<lparr>gq_directories := []\<rparr>) (sample_session [80]) =
     (Inr b, sample_session [])"
  by (simp add: revoke_session_grants_def validate_request_def sample_ports_request_def sample_session_def
      no_grants_def MAX_GRANT_LISTEN_PORTS_def)

text \<open>A concrete text of a session and its reader.\<close>

primrec put_component :: "path_component \<Rightarrow> string" where
  "put_component RootDir = put_nat 0"
| "put_component CurDir = put_nat 1"
| "put_component ParentDir = put_nat 2"
| "put_component (Normal v) = put_nat 3 @ put_str v"

definition take_component :: "path_component reader" where
  "take_component = and_read take_nat (\<lambda>n. if n = 0 then read_value RootDir else if n = 1 then read_value CurDir
     else if n = 2 then read_value ParentDir else and_read take_str (\<lambda>v. read_value (Normal v)))"

lemma take_put_component [simp]: "take_component (put_component c @ s) = Some (c, s)"
  by (cases c) (simp_all add: take_component_def read_value_def)

primrec put_mode :: "permission_mode \<Rightarrow> string" where
  "put_mode Ask = put_nat 0"
| "put_mode Agent = put_nat 1"
| "put_mode Yolo = put_nat 2"

definition take_mode :: "permission_mode reader" where
  "take_mode = and_read take_nat (\<lambda>n. read_value (if n = 0 then Ask else if n = 1 then Agent else Yolo))"

lemma take_put_mode [simp]: "take_mode (put_mode m @ s) = Some (m, s)"
  by (cases m) (simp_all add: take_mode_def read_value_def)

definition put_session :: "session_wire \<Rightarrow> string" where
  "put_session w = put_str (sw_id w) @ put_list put_component (sw_cwd w)
     @ put_list (put_list put_component) (sw_permitted_directories w) @ put_word (sw_started_at w)
     @ put_word (sw_process_id w) @ put_opt put_mode (sw_permission_mode w) @ put_bool (sw_yolo w)
     @ put_list put_word (gr_listen_ports (sw_grants w)) @ put_list put_str (gr_dev_tool_env_prefixes (sw_grants w))
     @ put_bool (gr_ambient_git_credentials (sw_grants w))"

definition take_session :: "session_wire reader" where
  "take_session =
     and_read take_str (\<lambda>x0.
     and_read (take_list take_component) (\<lambda>x1.
     and_read (take_list (take_list take_component)) (\<lambda>x2.
     and_read take_word (\<lambda>x3.
     and_read take_word (\<lambda>x4.
     and_read (take_opt take_mode) (\<lambda>x5.
     and_read take_bool (\<lambda>x6.
     and_read (take_list take_word) (\<lambda>x7.
     and_read (take_list take_str) (\<lambda>x8.
     and_read take_bool (\<lambda>x9.
     read_value \<lparr>sw_id = x0, sw_cwd = x1, sw_permitted_directories = x2, sw_started_at = x3,
       sw_process_id = x4, sw_permission_mode = x5, sw_yolo = x6,
       sw_grants = \<lparr>gr_listen_ports = x7, gr_dev_tool_env_prefixes = x8, gr_ambient_git_credentials = x9\<rparr>\<rparr>))))))))))"

lemma take_put_session [simp]: "take_session (put_session w @ s) = Some (w, s)"
  by (simp add: take_session_def put_session_def read_value_def)

definition sample_session_codec :: session_codec where
  "sample_session_codec = \<lparr>sc_to_vec = put_session, sc_from_slice = (\<lambda>s. map_option fst (take_session s))\<rparr>"

lemma sample_session_law: "sc_from_slice sample_session_codec (sc_to_vec sample_session_codec w) = Some w"
  using take_put_session [of w "[]"] by (simp add: sample_session_codec_def)

definition sample_commands :: "(runtime_command \<times> (session \<Rightarrow> anyhow + unit)) list" where
  "sample_commands = [(AllowDirectory [RootDir], \<lambda>_. Inr ()), (ApplyGrants (sample_ports_request [80]), \<lambda>_. Inr ())]"

definition sample_runtime :: session_runtime where
  "sample_runtime = \<lparr>rt_session = (sample_session [])\<lparr>se_process_id := 5\<rparr>, rt_saved = None,
     rt_upgrade_quiesced = False, rt_active_operations = 0\<rparr>"


theorem apply_grants_exact_witness:
  "set (gr_listen_ports (se_grants (sample_session [80]))) =
     set (gr_listen_ports (se_grants (sample_session []))) \<union> set (gq_listen_ports (sample_ports_request [80]))"
  using apply_grants_exact [OF sample_apply] by blast

theorem apply_then_revoke_witness:
  "\<exists>b. revoke_session_grants ((sample_ports_request [80])\<lparr>gq_directories := []\<rparr>) (sample_session [80]) =
     (Inr b, sample_session []) \<and> se_grants (sample_session []) = no_grants"
proof -
  obtain b where b: "revoke_session_grants ((sample_ports_request [80])\<lparr>gq_directories := []\<rparr>) (sample_session [80]) =
     (Inr b, sample_session [])" using sample_revoke by blast
  from apply_then_revoke [OF sample_session_ok sample_apply b] b show ?thesis
    by (simp add: sample_session_def no_grants_def)
qed

definition sample_full_ports :: "u16 list" where
  "sample_full_ports = map word_of_nat [100..<164]"

lemma sample_full_card: "card (set sample_full_ports \<union> {80}) = 65"
proof -
  have inj: "inj_on (word_of_nat :: nat \<Rightarrow> u16) {100..<164}"
    by (rule inj_on_inverseI [of _ unat]) (simp add: unat_of_nat)
  then have "card (set sample_full_ports) = 64"
    by (simp add: sample_full_ports_def card_image)
  moreover have "(80 :: u16) \<notin> set sample_full_ports"
  proof
    assume "(80 :: u16) \<in> set sample_full_ports"
    then obtain n where n: "100 \<le> n" "n < 164" "(80 :: u16) = word_of_nat n" by (auto simp: sample_full_ports_def)
    from arg_cong [OF n(3), of unat] n(2) have "n = 80" by (simp add: unat_of_nat)
    with n(1) show False by simp
  qed
  ultimately show ?thesis by simp
qed

theorem refused_ports_stay_granted_witness:
  "\<exists>(rt2 :: session_runtime) saved. rt_saved rt2 = Some saved \<and> card (set (gr_listen_ports (se_grants saved))) = 65"
proof -
  let ?s = "sample_session sample_full_ports" and ?save = "\<lambda>_::session. Inr () :: anyhow + unit"
  let ?rt = "\<lparr>rt_session = ?s, rt_saved = None, rt_upgrade_quiesced = False, rt_active_operations = 0\<rparr>"
  have ports: "set (gr_listen_ports (se_grants ?s)) \<union> set (gq_listen_ports (sample_ports_request [80])) =
      set sample_full_ports \<union> {80}"
    by (simp add: sample_session_def no_grants_def sample_ports_request_def)
  have len: "length (gr_listen_ports (se_grants ?s)) \<le> 64"
    by (simp add: sample_session_def no_grants_def sample_full_ports_def)
  have id: "validate_session_id (se_id ?s) = Inr ()" by (simp add: sample_session_def sample_session_id)
  obtain resp rt1 where 1: "handle_command sample_canonical ?save (ApplyGrants (sample_ports_request [80])) ?rt = (resp, rt1)"
    by fastforce
  obtain resp2 rt2 where 2: "handle_command sample_canonical ?save (SetPermissionMode Ask) rt1 = (resp2, rt2)"
    by fastforce
  have "64 < card (set (gr_listen_ports (se_grants ?s)) \<union> set (gq_listen_ports (sample_ports_request [80])))"
    unfolding ports sample_full_card by simp
  from refused_ports_stay_granted [OF sample_missing this len _ _ id 1 2] obtain saved where
    "rt_saved rt2 = Some saved" "set (gr_listen_ports (se_grants saved)) = set sample_full_ports \<union> {80}"
    unfolding ports by auto
  then show ?thesis using sample_full_card by metis
qed

end
