(* ===== verification/Pending_Interaction.thy ===== *)
theory Pending_Interaction
  imports Json Change_Record
begin

text \<open>
  The bounded summary of pending approvals and questions that a backend attaches to a task,
  \<^verbatim>\<open>src/src/pending_interaction.rs\<close> lines 20 to 265: the observation that makes a summary, the
  record of a failed read, its validation, and the projection for readers. The serialised form is
  the JSON value of the derived instances; its text, of which only the length matters here, is
  the parameter \<open>to_vec\<close>.
\<close>

section \<open>Data\<close>

type_synonym u8 = "8 word"

definition MAX_SERIALIZED_BYTES :: nat where "MAX_SERIALIZED_BYTES = 4 * 1024"

definition MAX_COUNT :: u8 where "MAX_COUNT = 64"

definition MAX_TYPES :: nat where "MAX_TYPES = 4"

definition SUMMARY_TTL_SECS :: u64 where "SUMMARY_TTL_SECS = 30"

datatype summary_state = StateNone | Pending | Unknown | Unsupported | Unavailable

datatype producer_kind = RuntimeOwner | HostRemoteObserver

datatype interaction_type = Permission | Question | Approval

definition state_text :: "summary_state \<Rightarrow> string" where
  "state_text s =
     (case s of
        StateNone \<Rightarrow> ''none''
      | Pending \<Rightarrow> ''pending''
      | Unknown \<Rightarrow> ''unknown''
      | Unsupported \<Rightarrow> ''unsupported''
      | Unavailable \<Rightarrow> ''unavailable'')"

definition producer_text :: "producer_kind \<Rightarrow> string" where
  "producer_text k =
     (case k of RuntimeOwner \<Rightarrow> ''runtime_owner'' | HostRemoteObserver \<Rightarrow> ''host_remote_observer'')"

definition type_text :: "interaction_type \<Rightarrow> string" where
  "type_text t =
     (case t of Permission \<Rightarrow> ''permission'' | Question \<Rightarrow> ''question'' | Approval \<Rightarrow> ''approval'')"

text \<open>The derived order is the order of declaration.\<close>

definition type_rank :: "interaction_type \<Rightarrow> nat" where
  "type_rank t = (case t of Permission \<Rightarrow> 0 | Question \<Rightarrow> 1 | Approval \<Rightarrow> 2)"

lemma type_rank_inj: "type_rank a = type_rank b \<longleftrightarrow> a = b"
  by (cases a; cases b) (simp_all add: type_rank_def)

instantiation interaction_type :: linorder
begin

definition less_eq_interaction_type :: "interaction_type \<Rightarrow> interaction_type \<Rightarrow> bool" where
  "less_eq_interaction_type a b = (type_rank a \<le> type_rank b)"

definition less_interaction_type :: "interaction_type \<Rightarrow> interaction_type \<Rightarrow> bool" where
  "less_interaction_type a b = (type_rank a < type_rank b)"

instance
  by standard
    (auto simp: less_eq_interaction_type_def less_interaction_type_def simp flip: type_rank_inj)

end

record pending_summary =
  sm_state :: summary_state
  sm_count :: "u8 option"
  sm_types :: "interaction_type list"
  sm_summary_revision :: u64
  sm_observed_at :: u64
  sm_producer_kind :: producer_kind
  sm_producer_epoch :: u64
  sm_expires_at :: u64
  sm_truncated :: bool

definition summary_value :: "pending_summary \<Rightarrow> json" where
  "summary_value s =
     JObject ([(''state'', JString (state_text (sm_state s)))]
       @ (case sm_count s of None \<Rightarrow> [] | Some c \<Rightarrow> [(''count'', juint (ucast c))])
       @ [(''types'', JArray (map (\<lambda>t. JString (type_text t)) (sm_types s))),
          (''summary_revision'', juint (sm_summary_revision s)),
          (''observed_at'', juint (sm_observed_at s)),
          (''producer_kind'', JString (producer_text (sm_producer_kind s))),
          (''producer_epoch'', juint (sm_producer_epoch s)),
          (''expires_at'', juint (sm_expires_at s)),
          (''truncated'', JBool (sm_truncated s))])"

section \<open>Operations\<close>

definition count_is :: "(u8 \<Rightarrow> bool) \<Rightarrow> u8 option \<Rightarrow> bool" where
  "count_is P c = (case c of None \<Rightarrow> True | Some n \<Rightarrow> P n)"

definition validate_summary_record :: "(json \<Rightarrow> string) \<Rightarrow> pending_summary \<Rightarrow> anyhow + unit" where
  "validate_summary_record to_vec s =
     ensure (count_is (\<lambda>c. c \<le> MAX_COUNT) (sm_count s)) (Message ''pending interaction count exceeds 64'') (
     ensure (0 < sm_summary_revision s)
       (Message ''pending interaction summary revision must be positive'') (
     ensure (0 < sm_producer_epoch s)
       (Message ''pending interaction producer epoch must be positive'') (
     ensure (length (sm_types s) \<le> MAX_TYPES)
       (Message ''pending interaction summary contains too many types'') (
     ensure (sort_dedup (sm_types s) = sm_types s)
       (Message ''pending interaction summary types are not unique and sorted'') (
     ensure (sm_state s \<noteq> StateNone
         \<or> (sm_types s = [] \<and> count_is (\<lambda>c. c = 0) (sm_count s) \<and> \<not> sm_truncated s))
       (Message ''none pending interaction summary cannot contain pending items'') (
     and_then (ok_or (u64_checked_add (sm_observed_at s) SUMMARY_TTL_SECS)
         (Message ''pending interaction summary expiry overflow'')) (\<lambda>expected_expiry.
     ensure (sm_expires_at s = expected_expiry)
       (Message ''pending interaction summary expiry does not match its TTL'') (
     ensure (length (to_vec (summary_value s)) \<le> MAX_SERIALIZED_BYTES)
       (Message ''pending interaction summary exceeds 4096 bytes'') (Inr ())))))))))"

text \<open>The check of a previous summary before it is succeeded.\<close>

definition check_previous ::
  "(json \<Rightarrow> string) \<Rightarrow> producer_kind \<Rightarrow> u64 \<Rightarrow> pending_summary \<Rightarrow> anyhow + unit" where
  "check_previous to_vec kind epoch previous =
     and_then (validate_summary_record to_vec previous) (\<lambda>_.
     ensure (sm_producer_kind previous \<noteq> kind \<or> sm_producer_epoch previous \<le> epoch)
       (Message ''pending interaction producer epoch cannot move backwards'') (Inr ()))"

definition observe ::
  "(json \<Rightarrow> string) \<Rightarrow> pending_summary option \<Rightarrow> summary_state \<Rightarrow> u8 option \<Rightarrow> interaction_type list \<Rightarrow> bool
     \<Rightarrow> producer_kind \<Rightarrow> u64 \<Rightarrow> u64 \<Rightarrow> anyhow + pending_summary" where
  "observe to_vec previous state count types truncated kind epoch now =
     ensure (count_is (\<lambda>c. c \<le> MAX_COUNT) count) (Message ''pending interaction count exceeds 64'') (
     let sorted_types = sort_dedup types;
         was_truncated = (truncated \<or> MAX_TYPES < length sorted_types);
         bounded_types = take MAX_TYPES sorted_types
     in ensure (state = StateNone
            \<longrightarrow> bounded_types = [] \<and> count_is (\<lambda>c. c = 0) count \<and> \<not> was_truncated)
          (Message ''none pending interaction summary cannot contain pending items'') (
        and_then (case previous of None \<Rightarrow> Inr () | Some p \<Rightarrow> check_previous to_vec kind epoch p) (\<lambda>_.
        let semantic_change = (case previous of None \<Rightarrow> True | Some p \<Rightarrow>
              sm_state p \<noteq> state \<or> sm_count p \<noteq> count \<or> sm_types p \<noteq> bounded_types
              \<or> sm_truncated p \<noteq> was_truncated)
        in and_then (case previous of
               None \<Rightarrow> Inr 1
             | Some p \<Rightarrow>
                 if semantic_change
                 then ok_or (u64_checked_add (sm_summary_revision p) 1)
                        (Message ''pending interaction summary revision overflow'')
                 else Inr (sm_summary_revision p)) (\<lambda>revision.
           and_then (ok_or (u64_checked_add now SUMMARY_TTL_SECS)
               (Message ''pending interaction summary expiry overflow'')) (\<lambda>expires_at.
           let s = \<lparr>sm_state = state, sm_count = count, sm_types = bounded_types,
                    sm_summary_revision = revision, sm_observed_at = now, sm_producer_kind = kind,
                    sm_producer_epoch = epoch, sm_expires_at = expires_at, sm_truncated = was_truncated\<rparr>
           in and_then (validate_summary_record to_vec s) (\<lambda>_. Inr s))))))"

definition unavailable ::
  "(json \<Rightarrow> string) \<Rightarrow> pending_summary option \<Rightarrow> producer_kind \<Rightarrow> u64 \<Rightarrow> anyhow + pending_summary" where
  "unavailable to_vec previous kind epoch =
     and_then (case previous of
         Some p \<Rightarrow>
           and_then (check_previous to_vec kind epoch p) (\<lambda>_.
             Inr (p\<lparr>sm_state := Unavailable, sm_count := None, sm_types := [], sm_truncated := False,
                    sm_producer_kind := kind, sm_producer_epoch := epoch\<rparr>,
                  sm_state p \<noteq> Unavailable \<or> sm_count p \<noteq> None \<or> sm_types p \<noteq> [] \<or> sm_truncated p))
       | None \<Rightarrow>
           Inr (\<lparr>sm_state = Unavailable, sm_count = None, sm_types = [], sm_summary_revision = 1,
                 sm_observed_at = 0, sm_producer_kind = kind, sm_producer_epoch = epoch,
                 sm_expires_at = SUMMARY_TTL_SECS, sm_truncated = False\<rparr>, False)) (\<lambda>(s, semantic_change).
     and_then (if semantic_change
               then and_then (ok_or (u64_checked_add (sm_summary_revision s) 1)
                      (Message ''pending interaction summary revision overflow'')) (\<lambda>n.
                      Inr (s\<lparr>sm_summary_revision := n\<rparr>))
               else Inr s) (\<lambda>s'.
     and_then (validate_summary_record to_vec s') (\<lambda>_. Inr s')))"

definition projection :: "(json \<Rightarrow> string) \<Rightarrow> pending_summary option \<Rightarrow> u64 \<Rightarrow> json" where
  "projection to_vec summary now =
     (case summary of
        None \<Rightarrow> JObject [(''state'', JString ''unsupported'')]
      | Some s \<Rightarrow>
          if \<not> is_ok (validate_summary_record to_vec s) then JObject [(''state'', JString ''unavailable'')]
          else if sm_expires_at s \<le> now then
            JObject [(''state'', JString ''unavailable''),
              (''summary_revision'', juint (sm_summary_revision s)),
              (''observed_at'', juint (sm_observed_at s)),
              (''producer_kind'', JString (producer_text (sm_producer_kind s))),
              (''producer_epoch'', juint (sm_producer_epoch s)),
              (''expires_at'', juint (sm_expires_at s))]
          else summary_value s)"

section \<open>Chains of summaries\<close>

text \<open>What a reader means by the content of a summary.\<close>

definition summary_content :: "pending_summary \<Rightarrow> summary_state \<times> u8 option \<times> interaction_type list \<times> bool" where
  "summary_content s = (sm_state s, sm_count s, sm_types s, sm_truncated s)"

text \<open>One summary succeeds another by an observation or by a failed read.\<close>

inductive summary_step :: "(json \<Rightarrow> string) \<Rightarrow> pending_summary \<Rightarrow> pending_summary \<Rightarrow> bool" for to_vec where
  observed: "observe to_vec (Some p) state count types truncated kind epoch now = Inr s \<Longrightarrow> summary_step to_vec p s"
| failed: "unavailable to_vec (Some p) kind epoch = Inr s \<Longrightarrow> summary_step to_vec p s"

inductive summary_chain :: "(json \<Rightarrow> string) \<Rightarrow> pending_summary \<Rightarrow> pending_summary \<Rightarrow> bool" for to_vec where
  chain_refl: "summary_chain to_vec p p"
| chain_step: "\<lbrakk>summary_chain to_vec p q; summary_step to_vec q s\<rbrakk> \<Longrightarrow> summary_chain to_vec p s"

section \<open>Validity\<close>

definition summary_ok :: "(json \<Rightarrow> string) \<Rightarrow> pending_summary \<Rightarrow> bool" where
  "summary_ok to_vec s \<longleftrightarrow> validate_summary_record to_vec s = Inr ()"

text \<open>There are fewer kinds of interaction than a summary may list, so nothing is ever cut off.\<close>

lemma length_sort_dedup_types: "length (sort_dedup (types :: interaction_type list)) \<le> 3"
proof -
  have "set types \<subseteq> {Permission, Question, Approval}"
    using interaction_type.exhaust by auto
  then have "card (set types) \<le> card {Permission, Question, Approval}"
    by (rule card_mono [rotated]) simp
  then show ?thesis by (simp add: length_sort_dedup)
qed

lemma bounded_types_complete:
  "\<not> MAX_TYPES < length (sort_dedup (types :: interaction_type list))"
  "take MAX_TYPES (sort_dedup (types :: interaction_type list)) = sort_dedup types"
  using length_sort_dedup_types [of types] by (simp_all add: MAX_TYPES_def)

lemma check_previous_Inr:
  "check_previous to_vec kind epoch p = Inr () \<longleftrightarrow>
     summary_ok to_vec p \<and> (sm_producer_kind p = kind \<longrightarrow> sm_producer_epoch p \<le> epoch)"
  by (auto simp: check_previous_def summary_ok_def)

text \<open>The observation that is made, when one is made.\<close>

definition observation ::
  "pending_summary option \<Rightarrow> summary_state \<Rightarrow> u8 option \<Rightarrow> interaction_type list \<Rightarrow> bool
     \<Rightarrow> producer_kind \<Rightarrow> u64 \<Rightarrow> u64 \<Rightarrow> pending_summary" where
  "observation previous state count types truncated kind epoch now =
     \<lparr>sm_state = state, sm_count = count, sm_types = sort_dedup types,
      sm_summary_revision =
        (case previous of None \<Rightarrow> 1 | Some p \<Rightarrow>
           if summary_content p = (state, count, sort_dedup types, truncated)
           then sm_summary_revision p else sm_summary_revision p + 1),
      sm_observed_at = now, sm_producer_kind = kind, sm_producer_epoch = epoch,
      sm_expires_at = now + SUMMARY_TTL_SECS, sm_truncated = truncated\<rparr>"

lemma observe_Inr:
  assumes "observe to_vec previous state count types truncated kind epoch now = Inr s"
  shows "s = observation previous state count types truncated kind epoch now" (is ?made)
    and "summary_ok to_vec s" (is ?valid)
    and "previous = Some p \<Longrightarrow> check_previous to_vec kind epoch p = Inr ()"
    and "previous = Some p \<Longrightarrow> summary_content p \<noteq> summary_content s \<Longrightarrow> unat (sm_summary_revision p) + 1 < 2 ^ 64"
proof -
  show ?made
    using assms
    by (auto simp: observe_def observation_def Let_def bounded_types_complete summary_content_def
        split: option.splits if_splits)
  show ?valid
    using assms by (auto simp: observe_def summary_ok_def Let_def)
  show "check_previous to_vec kind epoch p = Inr ()" if "previous = Some p"
    using assms that by (auto simp: observe_def Let_def)
  show "unat (sm_summary_revision p) + 1 < 2 ^ 64"
    if "previous = Some p" "summary_content p \<noteq> summary_content s"
    using assms that
    by (auto simp: observe_def Let_def summary_content_def bounded_types_complete split: if_splits)
qed


lemma unavailable_Inr:
  assumes "unavailable to_vec (Some p) kind epoch = Inr s"
  shows "summary_content s = (Unavailable, None, [], False)"
    and "summary_ok to_vec s"
    and "sm_observed_at s = sm_observed_at p \<and> sm_expires_at s = sm_expires_at p"
    and "sm_producer_kind s = kind \<and> sm_producer_epoch s = epoch"
    and "check_previous to_vec kind epoch p = Inr ()"
    and "if summary_content p = summary_content s then sm_summary_revision s = sm_summary_revision p
         else sm_summary_revision s = sm_summary_revision p + 1 \<and> unat (sm_summary_revision p) + 1 < 2 ^ 64"
  using assms
  by (auto simp: unavailable_def summary_content_def summary_ok_def split: if_splits)

section \<open>Steps and chains\<close>

text \<open>
  A step succeeds a valid summary, produces a valid one, counts exactly the changes of content and
  never moves the epoch of one producer back.
\<close>

lemma summary_step_facts:
  assumes "summary_step to_vec p s"
  shows "summary_ok to_vec p" "summary_ok to_vec s"
    and "unat (sm_summary_revision s) =
           unat (sm_summary_revision p) + (if summary_content p = summary_content s then 0 else 1)"
    and "sm_producer_kind p = sm_producer_kind s \<Longrightarrow> sm_producer_epoch p \<le> sm_producer_epoch s"
proof -
  have "summary_ok to_vec p \<and> summary_ok to_vec s
    \<and> unat (sm_summary_revision s) =
        unat (sm_summary_revision p) + (if summary_content p = summary_content s then 0 else 1)
    \<and> (sm_producer_kind p = sm_producer_kind s \<longrightarrow> sm_producer_epoch p \<le> sm_producer_epoch s)"
    using assms
  proof cases
    case (observed state count types truncated kind epoch now)
    note made = observe_Inr [OF observed]
    have content: "summary_content s = (state, count, sort_dedup types, truncated)"
      using made(1) by (simp add: observation_def summary_content_def)
    have "sm_summary_revision s =
        (if summary_content p = summary_content s then sm_summary_revision p else sm_summary_revision p + 1)"
      unfolding content using made(1) by (simp add: observation_def)
    then have "unat (sm_summary_revision s) =
        unat (sm_summary_revision p) + (if summary_content p = summary_content s then 0 else 1)"
      using made(4) [of p] by (simp add: unat_u64_add)
    moreover have "sm_producer_kind s = kind" "sm_producer_epoch s = epoch"
      using made(1) by (simp_all add: observation_def)
    ultimately show ?thesis using made(2) made(3) [of p] by (simp add: check_previous_Inr)
  next
    case (failed kind epoch)
    note made = unavailable_Inr [OF failed]
    have "unat (sm_summary_revision s) =
        unat (sm_summary_revision p) + (if summary_content p = summary_content s then 0 else 1)"
      using made(6) by (simp add: unat_u64_add split: if_splits)
    then show ?thesis using made(2,4,5) by (simp add: check_previous_Inr)
  qed
  then show "summary_ok to_vec p" "summary_ok to_vec s"
    and "unat (sm_summary_revision s) =
           unat (sm_summary_revision p) + (if summary_content p = summary_content s then 0 else 1)"
    and "sm_producer_kind p = sm_producer_kind s \<Longrightarrow> sm_producer_epoch p \<le> sm_producer_epoch s"
    by blast+
qed

section \<open>Properties\<close>

text \<open>
  C25. The revision of a summary identifies its content. However many observations and failed reads
  lie between a valid summary and a later one, the later one is valid, its revision has not gone
  back, and when the two revisions are equal nothing a reader sees of the pending interactions
  has changed in between.
\<close>

theorem summary_revision_identifies_content:
  assumes "summary_chain to_vec p s" and "validate_summary_record to_vec p = Inr ()"
  shows "validate_summary_record to_vec s = Inr () \<and> sm_summary_revision p \<le> sm_summary_revision s \<and>
    (sm_summary_revision p = sm_summary_revision s \<longrightarrow> summary_content p = summary_content s)"
proof -
  have "summary_ok to_vec s \<and> unat (sm_summary_revision p) \<le> unat (sm_summary_revision s)
    \<and> (unat (sm_summary_revision p) = unat (sm_summary_revision s) \<longrightarrow> summary_content p = summary_content s)"
    using assms
  proof induction
    case (chain_refl p)
    then show ?case by (simp add: summary_ok_def)
  next
    case (chain_step p q s)
    note step = summary_step_facts [OF chain_step.hyps(2)]
    have before: "unat (sm_summary_revision p) \<le> unat (sm_summary_revision q)"
        "unat (sm_summary_revision p) = unat (sm_summary_revision q) \<longrightarrow> summary_content p = summary_content q"
      using chain_step by simp_all
    then show ?case using step(2,3) by (auto split: if_splits)
  qed
  then show ?thesis by (simp add: summary_ok_def word_le_nat_alt)
qed

definition sample_pending :: pending_summary where
  "sample_pending = \<lparr>sm_state = Pending, sm_count = Some 2, sm_types = [Permission, Approval],
     sm_summary_revision = 1, sm_observed_at = 100, sm_producer_kind = RuntimeOwner,
     sm_producer_epoch = 1, sm_expires_at = 130, sm_truncated = False\<rparr>"

lemma sample_pending_chain:
  "validate_summary_record (\<lambda>_. []) sample_pending = Inr ()"
  "summary_chain (\<lambda>_. []) sample_pending (sample_pending\<lparr>sm_observed_at := 110, sm_expires_at := 140\<rparr>)"
proof -
  show "validate_summary_record (\<lambda>_. []) sample_pending = Inr ()"
    by (simp add: sample_pending_def validate_summary_record_def count_is_def MAX_COUNT_def
        MAX_TYPES_def SUMMARY_TTL_SECS_def MAX_SERIALIZED_BYTES_def less_eq_interaction_type_def
        type_rank_def u64_checked_add_def sort_dedup_def)
  have "observe (\<lambda>_. []) (Some sample_pending) Pending (Some 2) [Approval, Permission, Approval] False
      RuntimeOwner 1 110 = Inr (sample_pending\<lparr>sm_observed_at := 110, sm_expires_at := 140\<rparr>)"
    by (simp add: sample_pending_def observe_def check_previous_def validate_summary_record_def
        count_is_def MAX_COUNT_def MAX_TYPES_def SUMMARY_TTL_SECS_def MAX_SERIALIZED_BYTES_def
        less_eq_interaction_type_def type_rank_def u64_checked_add_def sort_dedup_def Let_def)
  then show "summary_chain (\<lambda>_. []) sample_pending (sample_pending\<lparr>sm_observed_at := 110, sm_expires_at := 140\<rparr>)"
    by (intro chain_step [OF chain_refl] observed)
qed

theorem summary_revision_identifies_content_witness:
  "\<exists>s. s \<noteq> sample_pending \<and> summary_chain (\<lambda>_. []) sample_pending s
     \<and> validate_summary_record (\<lambda>_. []) s = Inr () \<and> summary_content sample_pending = summary_content s"
proof (intro exI conjI)
  let ?s = "sample_pending\<lparr>sm_observed_at := 110, sm_expires_at := 140\<rparr>"
  show "?s \<noteq> sample_pending" by (simp add: sample_pending_def)
  show chain: "summary_chain (\<lambda>_. []) sample_pending ?s" by (rule sample_pending_chain)
  note facts = summary_revision_identifies_content [OF chain sample_pending_chain(1)]
  show "validate_summary_record (\<lambda>_. []) ?s = Inr ()" using facts by blast
  show "summary_content sample_pending = summary_content ?s" using facts by simp
qed

text \<open>
  A reader is told that nothing is pending only on the strength of a valid observation that says
  so and has not expired. A missing summary reads as unsupported, and an invalid, an expired and an
  unavailable one read as unavailable, never as none.
\<close>

theorem projection_none_iff:
  "jget (projection to_vec summary now) ''state'' = Some (JString ''none'') \<longleftrightarrow>
     (\<exists>s. summary = Some s \<and> validate_summary_record to_vec s = Inr () \<and> now < sm_expires_at s
        \<and> sm_state s = StateNone \<and> sm_types s = [] \<and> sm_count s \<in> {None, Some 0} \<and> \<not> sm_truncated s)"
  by (auto simp: projection_def summary_value_def state_text_def is_ok_iff
      validate_summary_record_def count_is_def
      split: option.splits summary_state.splits)

end
