(* ===== verification/Observation_Record.thy ===== *)
theory Observation_Record
  imports Task_Approval Session_Grants
begin

text \<open>
  What the owner-only journal records of a task operation, \<^verbatim>\<open>src/src/observation.rs\<close>: the record
  types, the bounds and the sanitiser, and the records that \<^verbatim>\<open>record_instruction\<close> and
  \<^verbatim>\<open>record_outcome\<close> hand to the store, in order. A record is made when it is handed over, so that a
  recording function yields functions of the \<^verbatim>\<open>Uuid::new_v4\<close> and the time drawn then.
\<close>

section \<open>Data\<close>

definition OBSERVATION_SCHEMA_VERSION :: u32 where "OBSERVATION_SCHEMA_VERSION = 1"

definition INSTRUCTION_PREVIEW_BYTES :: nat where "INSTRUCTION_PREVIEW_BYTES = 4096"

definition VIEW_INLINE_BYTES :: nat where "VIEW_INLINE_BYTES = 8192"

definition ERROR_PREVIEW_BYTES :: nat where "ERROR_PREVIEW_BYTES = 512"

definition DENY_KEYS_EXACT :: "string list" where
  "DENY_KEYS_EXACT = [''task'', ''input'', ''prompt'', ''auth'', ''api_key'', ''apikey'', ''bearer'', ''private_key'']"

definition DENY_KEYS_SUBSTRING :: "string list" where
  "DENY_KEYS_SUBSTRING = [''secret'', ''token'', ''password'', ''passwd'', ''credential'', ''authorization'']"

record actor_ref =
  ar_transport :: string
  ar_principal :: "string option"

definition mcp_actor :: "bool \<Rightarrow> actor_ref" where
  "mcp_actor public = \<lparr>ar_transport = (if public then ''mcp-public'' else ''mcp-stdio''), ar_principal = None\<rparr>"

record session_instance_ref =
  ir_started_at :: u64
  ir_process_id :: u32

record evidence_ref =
  er_evidence_id :: string
  er_bytes :: u64
  er_retention_seconds :: u64

record state_ref =
  sr_task_id :: "string option"
  sr_status :: "string option"
  sr_revision :: "u64 option"
  sr_generation :: "u64 option"

record provenance_ref =
  pr_tool :: string
  pr_source :: string
  pr_control_action :: "string option"

datatype observation_kind =
    Instruction | OperationAccepted | ExecutionState | Evidence | Verification | DeliveryKind | Reconciliation

definition kind_as_str :: "observation_kind \<Rightarrow> string" where
  "kind_as_str k =
     (case k of
        Instruction \<Rightarrow> ''instruction''
      | OperationAccepted \<Rightarrow> ''operation_accepted''
      | ExecutionState \<Rightarrow> ''execution_state''
      | Evidence \<Rightarrow> ''evidence''
      | Verification \<Rightarrow> ''verification''
      | DeliveryKind \<Rightarrow> ''delivery''
      | Reconciliation \<Rightarrow> ''reconciliation'')"

definition kind_parse :: "string \<Rightarrow> observation_kind option" where
  "kind_parse s =
     (if s = ''instruction'' then Some Instruction
      else if s = ''operation_accepted'' then Some OperationAccepted
      else if s = ''execution_state'' then Some ExecutionState
      else if s = ''evidence'' then Some Evidence
      else if s = ''verification'' then Some Verification
      else if s = ''delivery'' then Some DeliveryKind
      else if s = ''reconciliation'' then Some Reconciliation
      else None)"

interpretation observation_kind: wire_enum kind_as_str kind_parse
  by unfold_locales
    (rename_tac x, case_tac x, auto simp: kind_parse_def kind_as_str_def split: if_splits)

datatype observation_content =
    TextContent (tc_preview: string) (tc_total_bytes: nat) (tc_sha256: string) (tc_truncated: bool)
  | ViewContent json
  | ViewDigest string nat bool
  | ErrorContent string
  | NoContent

record observation =
  ob_id :: uuid
  ob_schema_version :: u32
  ob_observed_at :: u64
  ob_accepted_at :: "u64 option"
  ob_session_id :: string
  ob_session_instance :: session_instance_ref
  ob_repository :: "string option"
  ob_repository_key :: "string option"
  ob_workspace_id :: "string option"
  ob_task_id :: "string option"
  ob_execution_id :: "string option"
  ob_operation_id :: "string option"
  ob_actor :: actor_ref
  ob_target_backend :: string
  ob_action :: string
  ob_kind :: observation_kind
  ob_content :: observation_content
  ob_state_ref :: "state_ref option"
  ob_evidence_refs :: "evidence_ref list"
  ob_provenance :: provenance_ref
  ob_revision :: nat
  ob_dedupe_key :: string

text \<open>What the module takes from outside: SHA-256 in hexadecimal, the text of a JSON value, and the
  forge identity of a workspace, which is read from its git metadata.\<close>

record observation_env =
  oe_sha256_hex :: "string \<Rightarrow> string"
  oe_json_text :: "json \<Rightarrow> string"
  oe_repository_key :: "path \<Rightarrow> string option"

section \<open>Bounds\<close>

text \<open>\<open>floor_char_boundary\<close> is the loop that steps back to a character boundary.\<close>

definition truncate_utf8 :: "string \<Rightarrow> nat \<Rightarrow> string \<times> bool" where
  "truncate_utf8 s max_bytes =
     (if length s \<le> max_bytes then (s, False) else (take (floor_char_boundary s max_bytes) s, True))"

definition text_content :: "observation_env \<Rightarrow> string \<Rightarrow> nat \<Rightarrow> observation_content" where
  "text_content E s preview_bytes =
     (let (preview, truncated) = truncate_utf8 s preview_bytes
      in TextContent preview (length s) (oe_sha256_hex E s) truncated)"

definition to_ascii_lowercase :: "string \<Rightarrow> string" where
  "to_ascii_lowercase s =
     map (\<lambda>c. if 65 \<le> (of_char c :: nat) \<and> (of_char c :: nat) \<le> 90 then char_of ((of_char c :: nat) + 32) else c) s"

fun contains_str :: "string \<Rightarrow> string \<Rightarrow> bool" where
  "contains_str [] name = (name = [])"
| "contains_str (c # s) name = (take (length name) (c # s) = name \<or> contains_str s name)"

definition denied_key :: "string \<Rightarrow> bool" where
  "denied_key key =
     (let lower = to_ascii_lowercase key
      in list_ex (\<lambda>name. lower = name) DENY_KEYS_EXACT \<or> list_ex (contains_str lower) DENY_KEYS_SUBSTRING)"

fun sanitize_value :: "json \<Rightarrow> json" where
  "sanitize_value (JObject fs) =
     JObject (map (\<lambda>(k, v). (k, sanitize_value v)) (filter (\<lambda>(k, v). \<not> denied_key k) fs))"
| "sanitize_value (JArray xs) = JArray (map sanitize_value xs)"
| "sanitize_value v = v"

definition view_content :: "observation_env \<Rightarrow> json \<Rightarrow> json \<times> observation_content" where
  "view_content E view =
     (let sanitized = sanitize_value view; serialized = oe_json_text E sanitized
      in if length serialized \<le> VIEW_INLINE_BYTES then (sanitized, ViewContent sanitized)
         else (sanitized, ViewDigest (oe_sha256_hex E serialized) (length serialized) True))"

section \<open>Reading a view\<close>

fun execution_id_in :: "json \<Rightarrow> string list \<Rightarrow> string option" where
  "execution_id_in view [] = None"
| "execution_id_in view (key # keys) =
     (case Option.bind (jget view key) as_str of
        Some v \<Rightarrow> if v \<noteq> [] then Some v else execution_id_in view keys
      | None \<Rightarrow> execution_id_in view keys)"

definition execution_id_of :: "json \<Rightarrow> string option" where
  "execution_id_of view =
     execution_id_in view [''thread_id'', ''opencode_session_id'', ''acp_session_id'', ''devin_session_id'']"

definition state_ref_of :: "json \<Rightarrow> state_ref option" where
  "state_ref_of view =
     (let task_id = Option.bind (jget view ''task_id'') as_str;
          status = Option.bind (jget view ''status'') as_str
      in if task_id = None \<and> status = None then None
         else Some \<lparr>sr_task_id = task_id, sr_status = status,
                sr_revision = Option.bind (jget view ''revision'') as_u64,
                sr_generation = Option.bind (jget view ''generation'') as_u64\<rparr>)"

definition evidence_entry :: "json \<Rightarrow> evidence_ref option" where
  "evidence_entry entry =
     Option.bind (Option.bind (jget entry ''evidence_id'') as_str) (\<lambda>i.
     Option.bind (Option.bind (jget entry ''bytes'') as_u64) (\<lambda>n.
     Option.bind (Option.bind (jget entry ''retention_seconds'') as_u64) (\<lambda>r.
       Some \<lparr>er_evidence_id = i, er_bytes = n, er_retention_seconds = r\<rparr>)))"

definition evidence_refs_of :: "json \<Rightarrow> evidence_ref list" where
  "evidence_refs_of view =
     (case Option.bind (jget view ''evidence'') as_array of
        None \<Rightarrow> [] | Some refs \<Rightarrow> List.map_filter evidence_entry refs)"

definition reconciliation_marked :: "json \<Rightarrow> bool" where
  "reconciliation_marked view \<longleftrightarrow>
     Option.bind (jget view ''reconciliation_required'') as_bool = Some True
     \<or> Option.bind (jget view ''status'') as_str = Some ''reconciliation_required''"

definition content_digest :: "observation_env \<Rightarrow> observation_content \<Rightarrow> string" where
  "content_digest E c =
     (case c of
        ViewContent view \<Rightarrow> oe_sha256_hex E (oe_json_text E view)
      | ViewDigest sha256 _ _ \<Rightarrow> sha256
      | TextContent _ _ sha256 _ \<Rightarrow> sha256
      | ErrorContent preview \<Rightarrow> oe_sha256_hex E preview
      | NoContent \<Rightarrow> ''none'')"

section \<open>Making records\<close>

definition action_of :: "operation \<Rightarrow> string" where
  "action_of op =
     (case op of Status \<Rightarrow> ''status'' | TaskStart \<Rightarrow> ''task_start'' | TaskGet \<Rightarrow> ''task_get''
      | TaskList \<Rightarrow> ''task_list'' | TaskControl \<Rightarrow> ''task_control'')"

definition repository_label :: "session \<Rightarrow> string option" where
  "repository_label s =
     (case rev (se_cwd s) of Normal name # _ \<Rightarrow> Some name | _ \<Rightarrow> None)"

type_synonym stamp = "uuid \<times> u64"

type_synonym recording = "stamp \<Rightarrow> observation"

definition base_observation ::
  "observation_env \<Rightarrow> session \<Rightarrow> actor_ref \<Rightarrow> backend \<Rightarrow> string \<Rightarrow> string \<Rightarrow> observation_kind \<Rightarrow> string \<Rightarrow> recording" where
  "base_observation E s actor b action tool kind dedupe_key stamp =
     \<lparr>ob_id = fst stamp, ob_schema_version = OBSERVATION_SCHEMA_VERSION, ob_observed_at = snd stamp,
      ob_accepted_at = None, ob_session_id = se_id s,
      ob_session_instance = \<lparr>ir_started_at = se_started_at s, ir_process_id = se_process_id s\<rparr>,
      ob_repository = repository_label s, ob_repository_key = oe_repository_key E (se_cwd s),
      ob_workspace_id = None, ob_task_id = None, ob_execution_id = None, ob_operation_id = None,
      ob_actor = actor, ob_target_backend = backend_name b, ob_action = action, ob_kind = kind,
      ob_content = NoContent, ob_state_ref = None, ob_evidence_refs = [],
      ob_provenance = \<lparr>pr_tool = tool, pr_source = ''orchestration'', pr_control_action = None\<rparr>,
      ob_revision = 0, ob_dedupe_key = dedupe_key\<rparr>"

text \<open>\<^verbatim>\<open>format!\<close> with a colon between the parts of a dedupe key.\<close>

fun key_of :: "string list \<Rightarrow> string" where
  "key_of [] = []"
| "key_of [part] = part"
| "key_of (part # parts) = part @ '':'' @ key_of parts"

definition instruction_text :: "task_request \<Rightarrow> json \<Rightarrow> string option" where
  "instruction_text request args =
     (case request of
        StartRequest _ \<Rightarrow> Option.bind (jget args ''task'') as_str
      | ControlRequest r \<Rightarrow>
          if control_action r = Steer then Option.bind (jget args ''input'') as_str else None
      | _ \<Rightarrow> None)"

definition record_instruction ::
  "observation_env \<Rightarrow> session \<Rightarrow> actor_ref \<Rightarrow> backend \<Rightarrow> operation \<Rightarrow> task_request \<Rightarrow> json \<Rightarrow> recording" where
  "record_instruction E s actor b op request args stamp =
     (let o0 = base_observation E s actor b (action_of op) (operation_name b op) Instruction [] stamp;
          o1 = (case request of
             StartRequest r \<Rightarrow>
               o0\<lparr>ob_operation_id := Some (start_operation_id r),
                  ob_dedupe_key := key_of [''instr'', se_id s, ''start'', start_operation_id r]\<rparr>
           | ControlRequest r \<Rightarrow>
               o0\<lparr>ob_operation_id := Some (control_operation_id r), ob_task_id := Some (control_task_id r),
                  ob_provenance := (ob_provenance o0)
                    \<lparr>pr_control_action := Some (control_action_as_str (control_action r))\<rparr>,
                  ob_dedupe_key := key_of [''instr'', se_id s, ''control'', control_operation_id r]\<rparr>
           | GetRequest r \<Rightarrow>
               o0\<lparr>ob_task_id := Some (get_task_id r),
                  ob_dedupe_key := key_of [''instr'', se_id s, ''get'', get_task_id r]\<rparr>
           | ListRequest \<Rightarrow> o0\<lparr>ob_dedupe_key := key_of [''instr'', se_id s, ''list'']\<rparr>
           | StatusRequest \<Rightarrow> o0\<lparr>ob_dedupe_key := key_of [''instr'', se_id s, ''status'', backend_name b]\<rparr>)
      in o1\<lparr>ob_content := (case instruction_text request args of
              Some t \<Rightarrow> text_content E t INSTRUCTION_PREVIEW_BYTES | None \<Rightarrow> NoContent)\<rparr>)"

definition record_state_view ::
  "observation_env \<Rightarrow> session \<Rightarrow> actor_ref \<Rightarrow> backend \<Rightarrow> operation \<Rightarrow> json \<Rightarrow> recording list" where
  "record_state_view E s actor b op view =
     (case state_ref_of view of
        None \<Rightarrow> []
      | Some st \<Rightarrow>
          let action = action_of op; tool = operation_name b op;
              task_label = (case sr_task_id st of None \<Rightarrow> [] | Some t \<Rightarrow> t);
              (sanitized, content) = view_content E view;
              refs = evidence_refs_of sanitized
          in [\<lambda>stamp. (base_observation E s actor b action tool ExecutionState
                 (key_of [''state'', se_id s, backend_name b, task_label, content_digest E content]) stamp)
                 \<lparr>ob_task_id := sr_task_id st, ob_state_ref := Some st,
                  ob_execution_id := execution_id_of sanitized, ob_evidence_refs := refs, ob_content := content\<rparr>]
             @ map (\<lambda>evidence stamp. (base_observation E s actor b action tool Evidence
                 (key_of [''ev'', se_id s, er_evidence_id evidence]) stamp)
                 \<lparr>ob_task_id := sr_task_id st, ob_evidence_refs := [evidence]\<rparr>) refs
             @ (if reconciliation_marked view
                then [\<lambda>stamp. (base_observation E s actor b action tool Reconciliation
                        (key_of [''recon'', se_id s, task_label,
                           decimal (unat (case sr_revision st of None \<Rightarrow> 0 | Some r \<Rightarrow> r))]) stamp)
                        \<lparr>ob_task_id := sr_task_id st, ob_state_ref := Some st\<rparr>]
                else []))"

definition request_task_id :: "task_request \<Rightarrow> string option" where
  "request_task_id request =
     (case request of GetRequest r \<Rightarrow> Some (get_task_id r) | ControlRequest r \<Rightarrow> Some (control_task_id r)
      | _ \<Rightarrow> None)"

definition request_operation_id :: "task_request \<Rightarrow> string option" where
  "request_operation_id request =
     (case request of StartRequest r \<Rightarrow> Some (start_operation_id r)
      | ControlRequest r \<Rightarrow> Some (control_operation_id r) | _ \<Rightarrow> None)"

definition accepted_record ::
  "observation_env \<Rightarrow> session \<Rightarrow> actor_ref \<Rightarrow> backend \<Rightarrow> operation \<Rightarrow> task_request \<Rightarrow> json
     \<Rightarrow> observation_kind \<times> string \<Rightarrow> recording" where
  "accepted_record E s actor b op request view kind_prefix stamp =
     (let operation_id = request_operation_id request;
          o0 = base_observation E s actor b (action_of op) (operation_name b op) (fst kind_prefix)
                 (key_of [snd kind_prefix, se_id s, case operation_id of None \<Rightarrow> [] | Some i \<Rightarrow> i]) stamp
      in o0\<lparr>ob_operation_id := operation_id, ob_accepted_at := Some (ob_observed_at o0),
            ob_task_id := Option.bind (jget view ''task_id'') as_str,
            ob_execution_id := execution_id_of view, ob_state_ref := state_ref_of view,
            ob_provenance := (case request of
               ControlRequest r \<Rightarrow> (ob_provenance o0)\<lparr>pr_control_action :=
                 Some (control_action_as_str (control_action r))\<rparr>
             | _ \<Rightarrow> ob_provenance o0)\<rparr>)"

definition error_record ::
  "observation_env \<Rightarrow> session \<Rightarrow> actor_ref \<Rightarrow> backend \<Rightarrow> operation \<Rightarrow> task_request \<Rightarrow> string \<Rightarrow> recording" where
  "error_record E s actor b op request e stamp =
     (let preview = fst (truncate_utf8 e ERROR_PREVIEW_BYTES);
          task_id = request_task_id request; operation_id = request_operation_id request;
          key_target = (case task_id of Some t \<Rightarrow> t
             | None \<Rightarrow> (case operation_id of Some i \<Rightarrow> i | None \<Rightarrow> action_of op))
      in (base_observation E s actor b (action_of op) (operation_name b op) Reconciliation
            (key_of [''err'', se_id s, action_of op, key_target, oe_sha256_hex E preview]) stamp)
          \<lparr>ob_task_id := task_id, ob_operation_id := operation_id,
           ob_state_ref := Some \<lparr>sr_task_id = task_id, sr_status = Some ''dispatch_error'',
             sr_revision = None, sr_generation = None\<rparr>,
           ob_content := ErrorContent preview\<rparr>)"

definition record_outcome ::
  "observation_env \<Rightarrow> session \<Rightarrow> actor_ref \<Rightarrow> backend \<Rightarrow> operation \<Rightarrow> task_request \<Rightarrow> string + json \<Rightarrow> recording list" where
  "record_outcome E s actor b op request result =
     (case result of
        Inr view \<Rightarrow>
          (if request_operation_id request \<noteq> None
           then map (accepted_record E s actor b op request view)
                  [(OperationAccepted, ''accepted''), (DeliveryKind, ''del'')]
           else [])
          @ (case request of
               StatusRequest \<Rightarrow>
                 let content = snd (view_content E view)
                 in [\<lambda>stamp. (base_observation E s actor b (action_of op) (operation_name b op) Verification
                       (key_of [''verify'', se_id s, backend_name b, content_digest E content]) stamp)
                       \<lparr>ob_content := content\<rparr>]
             | ListRequest \<Rightarrow>
                 (case Option.bind (jget view ''tasks'') as_array of
                    None \<Rightarrow> []
                  | Some tasks \<Rightarrow> concat (map (record_state_view E s actor b op) tasks))
             | _ \<Rightarrow> record_state_view E s actor b op view)
      | Inl e \<Rightarrow> [error_record E s actor b op request e])"

section \<open>The JSON of a record\<close>

text \<open>The derived \<^verbatim>\<open>Serialize\<close> instances; \<open>skip_none\<close> is
  \<^verbatim>\<open>skip_serializing_if = "Option::is_none"\<close>, and \<open>display\<close> the text of a UUID.\<close>

definition skip_none :: "string \<Rightarrow> ('a \<Rightarrow> json) \<Rightarrow> 'a option \<Rightarrow> (string \<times> json) list" where
  "skip_none key f v = (case v of None \<Rightarrow> [] | Some x \<Rightarrow> [(key, f x)])"

definition jnat :: "nat \<Rightarrow> json" where
  "jnat n = juint (of_nat n)"

definition content_value :: "observation_content \<Rightarrow> json" where
  "content_value c =
     (case c of
        TextContent preview total_bytes sha256 truncated \<Rightarrow>
          JObject [(''kind'', JString ''text''), (''preview'', JString preview), (''total_bytes'', jnat total_bytes),
            (''sha256'', JString sha256), (''truncated'', JBool truncated)]
      | ViewContent view \<Rightarrow> JObject [(''kind'', JString ''view''), (''view'', view)]
      | ViewDigest sha256 total_bytes truncated \<Rightarrow>
          JObject [(''kind'', JString ''view_digest''), (''sha256'', JString sha256),
            (''total_bytes'', jnat total_bytes), (''truncated'', JBool truncated)]
      | ErrorContent preview \<Rightarrow> JObject [(''kind'', JString ''error''), (''preview'', JString preview)]
      | NoContent \<Rightarrow> JObject [(''kind'', JString ''none'')])"

definition actor_value :: "actor_ref \<Rightarrow> json" where
  "actor_value a = JObject ([(''transport'', JString (ar_transport a))] @ skip_none ''principal'' JString (ar_principal a))"

definition state_ref_value :: "state_ref \<Rightarrow> json" where
  "state_ref_value st =
     JObject (skip_none ''task_id'' JString (sr_task_id st) @ skip_none ''status'' JString (sr_status st)
       @ skip_none ''revision'' juint (sr_revision st) @ skip_none ''generation'' juint (sr_generation st))"

definition evidence_value :: "evidence_ref \<Rightarrow> json" where
  "evidence_value e =
     JObject [(''evidence_id'', JString (er_evidence_id e)), (''bytes'', juint (er_bytes e)),
       (''retention_seconds'', juint (er_retention_seconds e))]"

definition provenance_value :: "provenance_ref \<Rightarrow> json" where
  "provenance_value p =
     JObject ([(''tool'', JString (pr_tool p)), (''source'', JString (pr_source p))]
       @ skip_none ''control_action'' JString (pr_control_action p))"

definition observation_value :: "(uuid \<Rightarrow> string) \<Rightarrow> observation \<Rightarrow> json" where
  "observation_value display ob =
     JObject ([(''id'', JString (display (ob_id ob))), (''schema_version'', juint (ucast (ob_schema_version ob))),
         (''observed_at'', juint (ob_observed_at ob))]
       @ skip_none ''accepted_at'' juint (ob_accepted_at ob)
       @ [(''session_id'', JString (ob_session_id ob)),
          (''session_instance'', JObject [(''started_at'', juint (ir_started_at (ob_session_instance ob))),
             (''process_id'', juint (ucast (ir_process_id (ob_session_instance ob))))])]
       @ skip_none ''repository'' JString (ob_repository ob)
       @ skip_none ''repository_key'' JString (ob_repository_key ob)
       @ skip_none ''workspace_id'' JString (ob_workspace_id ob)
       @ skip_none ''task_id'' JString (ob_task_id ob)
       @ skip_none ''execution_id'' JString (ob_execution_id ob)
       @ skip_none ''operation_id'' JString (ob_operation_id ob)
       @ [(''actor'', actor_value (ob_actor ob)), (''target'', JObject [(''backend'', JString (ob_target_backend ob))]),
          (''action'', JString (ob_action ob)), (''kind'', JString (kind_as_str (ob_kind ob))),
          (''content'', content_value (ob_content ob))]
       @ skip_none ''state_ref'' state_ref_value (ob_state_ref ob)
       @ [(''evidence_refs'', JArray (map evidence_value (ob_evidence_refs ob))),
          (''provenance'', provenance_value (ob_provenance ob)), (''revision'', jnat (ob_revision ob)),
          (''dedupe_key'', JString (ob_dedupe_key ob))])"

definition content_descriptor :: "observation_content \<Rightarrow> json" where
  "content_descriptor c =
     (case c of
        TextContent _ total_bytes sha256 truncated \<Rightarrow>
          JObject [(''kind'', JString ''text''), (''total_bytes'', jnat total_bytes), (''sha256'', JString sha256),
            (''truncated'', JBool truncated)]
      | ViewContent _ \<Rightarrow> JObject [(''kind'', JString ''view'')]
      | ViewDigest sha256 total_bytes _ \<Rightarrow>
          JObject [(''kind'', JString ''view_digest''), (''sha256'', JString sha256), (''total_bytes'', jnat total_bytes)]
      | ErrorContent _ \<Rightarrow> JObject [(''kind'', JString ''error'')]
      | NoContent \<Rightarrow> JObject [(''kind'', JString ''none'')])"

definition listing_view :: "(uuid \<Rightarrow> string) \<Rightarrow> observation \<Rightarrow> bool \<Rightarrow> json" where
  "listing_view display ob include_content =
     JObject [(''id'', JString (display (ob_id ob))), (''revision'', jnat (ob_revision ob)),
       (''kind'', JString (kind_as_str (ob_kind ob))), (''action'', JString (ob_action ob)),
       (''observed_at'', juint (ob_observed_at ob)), (''accepted_at'', jopt juint (ob_accepted_at ob)),
       (''session_id'', JString (ob_session_id ob)), (''repository'', jopt JString (ob_repository ob)),
       (''task_id'', jopt JString (ob_task_id ob)), (''execution_id'', jopt JString (ob_execution_id ob)),
       (''operation_id'', jopt JString (ob_operation_id ob)), (''actor'', actor_value (ob_actor ob)),
       (''target'', JObject [(''backend'', JString (ob_target_backend ob))]),
       (''state_ref'', jopt state_ref_value (ob_state_ref ob)),
       (''evidence_refs'', JArray (map evidence_value (ob_evidence_refs ob))),
       (''provenance'', provenance_value (ob_provenance ob)), (''dedupe_key'', JString (ob_dedupe_key ob)),
       (''content'', if include_content then content_value (ob_content ob) else content_descriptor (ob_content ob))]"

section \<open>The sanitiser\<close>

text \<open>No denied key at any depth.\<close>

fun clean :: "json \<Rightarrow> bool" where
  "clean (JObject fs) = list_all (\<lambda>(k, v). \<not> denied_key k \<and> clean v) fs"
| "clean (JArray xs) = list_all clean xs"
| "clean v = True"

text \<open>The value at a position: keys of objects and indices of arrays.\<close>

datatype json_step = Key string | Index nat

fun at_path :: "json \<Rightarrow> json_step list \<Rightarrow> json option" where
  "at_path v [] = Some v"
| "at_path (JObject fs) (Key k # p) = Option.bind (map_of fs k) (\<lambda>v. at_path v p)"
| "at_path (JArray xs) (Index i # p) = (if i < length xs then at_path (xs ! i) p else None)"
| "at_path v (x # p) = None"

definition allowed_path :: "json_step list \<Rightarrow> bool" where
  "allowed_path p = list_all (\<lambda>x. case x of Key k \<Rightarrow> \<not> denied_key k | Index _ \<Rightarrow> True) p"

lemma sanitize_clean: "clean (sanitize_value v)"
  by (induction v rule: sanitize_value.induct) (auto simp: list_all_iff)

lemma map_of_sanitized:
  "\<not> denied_key k \<Longrightarrow>
     map_of (map (\<lambda>(k, v). (k, f v)) (filter (\<lambda>(k, v). \<not> denied_key k) fs)) k = map_option f (map_of fs k)"
  by (induction fs) auto

lemma sanitize_at_path:
  "allowed_path p \<Longrightarrow> at_path (sanitize_value v) p = map_option sanitize_value (at_path v p)"
proof (induction v p rule: at_path.induct)
  case (2 fs k p)
  then show ?case
    by (cases "map_of fs k") (simp_all add: map_of_sanitized allowed_path_def)
qed (auto simp: allowed_path_def)

lemma clean_unchanged: "clean v \<Longrightarrow> sanitize_value v = v"
proof (induction v rule: sanitize_value.induct)
  case (1 fs)
  then have "filter (\<lambda>(k, v). \<not> denied_key k) fs = fs" by (auto simp: filter_id_conv list_all_iff)
  moreover have "(case kv of (k, v) \<Rightarrow> (k, sanitize_value v)) = kv" if "kv \<in> set fs" for kv
    using 1 that by (cases kv) (fastforce simp: list_all_iff)
  ultimately show ?case by (simp add: map_idI)
qed (auto simp: list_all_iff map_idI)

section \<open>Bounded contents\<close>

lemma floor_char_boundary_self: "is_char_boundary s n \<Longrightarrow> floor_char_boundary s n = n"
  by (cases n) simp_all

lemma truncate_utf8_facts:
  assumes "truncate_utf8 s n = (t, b)"
  shows "length t \<le> n" "t = take (length t) s" "b \<longleftrightarrow> n < length s" "\<not> b \<Longrightarrow> t = s"
  using assms floor_char_boundary_le [of s n]
  by (auto simp: truncate_utf8_def min_def split: if_splits)

definition content_ok :: "observation_env \<Rightarrow> observation_content \<Rightarrow> bool" where
  "content_ok E c \<longleftrightarrow>
     (case c of
        TextContent preview total_bytes _ truncated \<Rightarrow>
          length preview \<le> INSTRUCTION_PREVIEW_BYTES \<and> (\<not> truncated \<longrightarrow> total_bytes = length preview)
      | ViewContent view \<Rightarrow> clean view \<and> length (oe_json_text E view) \<le> VIEW_INLINE_BYTES
      | ViewDigest _ total_bytes truncated \<Rightarrow> VIEW_INLINE_BYTES < total_bytes \<and> truncated
      | ErrorContent preview \<Rightarrow> length preview \<le> ERROR_PREVIEW_BYTES
      | NoContent \<Rightarrow> True)"

lemma content_ok_simps [simp]:
  "content_ok E NoContent"
  "content_ok E (text_content E t INSTRUCTION_PREVIEW_BYTES)"
  "content_ok E (snd (view_content E view))"
  "content_ok E (ErrorContent (fst (truncate_utf8 e ERROR_PREVIEW_BYTES)))"
proof -
  show "content_ok E (text_content E t INSTRUCTION_PREVIEW_BYTES)"
    using truncate_utf8_facts [of t INSTRUCTION_PREVIEW_BYTES]
    by (cases "truncate_utf8 t INSTRUCTION_PREVIEW_BYTES") (auto simp: content_ok_def text_content_def)
  show "content_ok E (ErrorContent (fst (truncate_utf8 e ERROR_PREVIEW_BYTES)))"
    using truncate_utf8_facts(1) [of e ERROR_PREVIEW_BYTES]
    by (cases "truncate_utf8 e ERROR_PREVIEW_BYTES") (auto simp: content_ok_def)
qed (simp_all add: content_ok_def view_content_def Let_def sanitize_clean)

text \<open>A record as it is handed to the store.\<close>

definition handed_over :: "observation_env \<Rightarrow> session \<Rightarrow> backend \<Rightarrow> operation \<Rightarrow> stamp \<Rightarrow> observation \<Rightarrow> bool" where
  "handed_over E s b op stamp ob \<longleftrightarrow>
     ob_id ob = fst stamp \<and> ob_observed_at ob = snd stamp \<and>
     ob_schema_version ob = OBSERVATION_SCHEMA_VERSION \<and> ob_session_id ob = se_id s \<and>
     ob_target_backend ob = backend_name b \<and> ob_action ob = action_of op \<and>
     pr_tool (ob_provenance ob) = operation_name b op \<and> content_ok E (ob_content ob) \<and>
     (\<exists>word parts. ob_dedupe_key ob = key_of (word # se_id s # parts))"

lemma key_of_Cons: "\<exists>word parts. key_of (w # i # ps) = key_of (word # i # parts)"
  by blast

lemma record_instruction_handed_over:
  "handed_over E s b op stamp (record_instruction E s actor b op request args stamp)"
  by (cases request)
    (auto simp: handed_over_def record_instruction_def base_observation_def Let_def key_of_Cons
      simp del: key_of.simps split: option.split)

lemma record_state_view_handed_over:
  assumes "r \<in> set (record_state_view E s actor b op view)"
  shows "handed_over E s b op stamp (r stamp)"
proof (cases "state_ref_of view")
  case None
  with assms show ?thesis by (simp add: record_state_view_def)
next
  case (Some st)
  then show ?thesis
    using assms content_ok_simps(3) [of E view]
    by (cases "view_content E view")
      (auto simp: record_state_view_def handed_over_def base_observation_def Let_def key_of_Cons
        simp del: key_of.simps split: if_splits)
qed

lemma accepted_record_handed_over: "handed_over E s b op stamp (accepted_record E s actor b op request view kp stamp)"
  by (cases request)
    (simp_all add: accepted_record_def handed_over_def base_observation_def Let_def key_of_Cons del: key_of.simps)

lemma error_record_handed_over: "handed_over E s b op stamp (error_record E s actor b op request e stamp)"
  by (simp add: error_record_def handed_over_def base_observation_def Let_def key_of_Cons del: key_of.simps)

lemma verification_handed_over:
  "handed_over E s b op stamp ((base_observation E s actor b (action_of op) (operation_name b op) Verification
     (key_of [''verify'', se_id s, x, y]) stamp)\<lparr>ob_content := snd (view_content E view)\<rparr>)"
  by (simp add: handed_over_def base_observation_def key_of_Cons del: key_of.simps)

lemma record_outcome_handed_over:
  assumes "r \<in> set (record_outcome E s actor b op request result)"
  shows "handed_over E s b op stamp (r stamp)"
proof (cases result)
  case (Inl e)
  with assms show ?thesis by (simp add: record_outcome_def error_record_handed_over)
next
  case (Inr view)
  then consider
      (accepted) kp where "r = accepted_record E s actor b op request view kp"
    | (verification) x y where "r = (\<lambda>stamp. (base_observation E s actor b (action_of op) (operation_name b op)
        Verification (key_of [''verify'', se_id s, x, y]) stamp)\<lparr>ob_content := snd (view_content E view)\<rparr>)"
    | (state) v where "r \<in> set (record_state_view E s actor b op v)"
    using assms
    by (cases request)
      (auto simp: record_outcome_def Let_def simp del: key_of.simps split: if_splits option.splits)
  then show ?thesis
    by cases
      (simp_all add: accepted_record_handed_over verification_handed_over record_state_view_handed_over
        del: key_of.simps)
qed

section \<open>Properties\<close>

lemma contains_str_sublist: "contains_str s name \<longleftrightarrow> sublist name s"
  by (induction s) (auto simp: sublist_Cons_right prefix_def take_is_prefix intro: take_is_prefix, metis append_eq_conv_conj)

text \<open>C29. Sanitising a view removes exactly the denied keys. No key that may carry a secret or
  instruction text is left at any depth; every value that is reached through allowed keys only is
  still there, itself sanitised; and a view without denied keys is not changed. In any mix of case, a
  key is denied if it is one of eight names or if one of six words occurs in it.\<close>

theorem sanitize_value_exact:
  "clean (sanitize_value v) \<and> (clean v \<longrightarrow> sanitize_value v = v) \<and>
   (allowed_path p \<longrightarrow> at_path (sanitize_value v) p = map_option sanitize_value (at_path v p)) \<and>
   (\<forall>key. denied_key key \<longleftrightarrow>
      to_ascii_lowercase key \<in> {''task'', ''input'', ''prompt'', ''auth'', ''api_key'', ''apikey'', ''bearer'', ''private_key''} \<or>
      (\<exists>word \<in> {''secret'', ''token'', ''password'', ''passwd'', ''credential'', ''authorization''}.
         sublist word (to_ascii_lowercase key)))"
proof -
  have "denied_key key \<longleftrightarrow> to_ascii_lowercase key \<in> set DENY_KEYS_EXACT \<or>
      (\<exists>word \<in> set DENY_KEYS_SUBSTRING. sublist word (to_ascii_lowercase key))" for key
    by (auto simp: denied_key_def Let_def list_ex_iff contains_str_sublist)
  then show ?thesis
    using sanitize_clean clean_unchanged sanitize_at_path unfolding DENY_KEYS_EXACT_def DENY_KEYS_SUBSTRING_def list.set
    by blast
qed

definition sample_view :: json where
  "sample_view = JObject [(''status'', JString ''running''),
     (''agent'', JArray [JObject [(''Access_Token'', JString ''x''), (''name'', JString ''a'')]])]"

theorem sanitize_value_exact_witness:
  "\<not> clean sample_view \<and> clean (sanitize_value sample_view) \<and>
   at_path (sanitize_value sample_view) [Key ''agent'', Index 0, Key ''name''] = Some (JString ''a'') \<and>
   at_path (sanitize_value sample_view) [Key ''agent'', Index 0, Key ''Access_Token''] = None"
proof -
  have denied: "denied_key ''Access_Token''" "\<not> denied_key ''agent''" "\<not> denied_key ''name''" "\<not> denied_key ''status''"
    by code_simp+
  have "allowed_path [Key ''agent'', Index 0, Key ''name'']" using denied by (simp add: allowed_path_def)
  then have "at_path (sanitize_value sample_view) [Key ''agent'', Index 0, Key ''name''] = Some (JString ''a'')"
    using sanitize_value_exact [THEN conjunct2, THEN conjunct2, THEN conjunct1,
        of "[Key ''agent'', Index 0, Key ''name'']" sample_view]
    by (simp add: sample_view_def)
  moreover have "clean (sanitize_value sample_view)" by (rule sanitize_value_exact [THEN conjunct1])
  ultimately show ?thesis using denied by (simp add: sample_view_def)
qed

text \<open>Everything handed to the journal is bounded and attributed. Whatever the request, its
  arguments and the result of the backend, a record carries the identity drawn for it, the session,
  backend, operation and tool it belongs to, a dedupe key that starts with its session, and a
  bounded content: at most 4096 bytes of instruction text, at most 512 bytes of an error, a view only
  when it is sanitised and its text has at most 8192 bytes.\<close>

theorem recorded_bounded:
  assumes "recording = record_instruction E s actor b op request args \<or>
    recording \<in> set (record_outcome E s actor b op request result)"
  shows "handed_over E s b op stamp (recording stamp)"
  using assms record_instruction_handed_over record_outcome_handed_over by blast

definition sample_observation_env :: observation_env where
  "sample_observation_env = \<lparr>oe_sha256_hex = (\<lambda>s. replicate 64 (CHR ''0'')), oe_json_text = (\<lambda>_. ''{}''),
     oe_repository_key = (\<lambda>_. None)\<rparr>"

theorem recorded_bounded_witness:
  "\<exists>recording. recording \<in> set (record_outcome sample_observation_env (sample_session []) (mcp_actor True) Codex
       TaskList ListRequest (Inl (replicate 600 (CHR ''x'')))) \<and>
     handed_over sample_observation_env (sample_session []) Codex TaskList (7, 100) (recording (7, 100)) \<and>
     ob_content (recording (7, 100)) = ErrorContent (replicate 512 (CHR ''x''))"
proof (intro exI conjI)
  let ?r = "error_record sample_observation_env (sample_session []) (mcp_actor True) Codex TaskList ListRequest
    (replicate 600 (CHR ''x''))"
  show mem: "?r \<in> set (record_outcome sample_observation_env (sample_session []) (mcp_actor True) Codex
      TaskList ListRequest (Inl (replicate 600 (CHR ''x''))))" by (simp add: record_outcome_def)
  show "handed_over sample_observation_env (sample_session []) Codex TaskList (7, 100) (?r (7, 100))"
    using recorded_bounded mem by blast
  have "is_char_boundary (replicate 600 (CHR ''x'')) 512" by (simp add: is_char_boundary_def Let_def)
  then have "floor_char_boundary (replicate 600 (CHR ''x'')) 512 = 512" by (rule floor_char_boundary_self)
  then have "fst (truncate_utf8 (replicate 600 (CHR ''x'')) ERROR_PREVIEW_BYTES) = replicate 512 (CHR ''x'')"
    by (simp add: truncate_utf8_def ERROR_PREVIEW_BYTES_def)
  then show "ob_content (?r (7, 100)) = ErrorContent (replicate 512 (CHR ''x''))"
    by (simp add: error_record_def Let_def)
qed

end
