(* ===== verification/Observation_Journal.thy ===== *)
theory Observation_Journal
  imports Change_Format Observation_Record
begin

text \<open>
  The append-only journal of one session, \<^verbatim>\<open>src/src/observation/store.rs\<close>: its lines, the sidecar,
  the cache of the running process, append with deduplication and compaction, and the readers. The
  journal is its bytes, so that a line that was only partly written can be told from a whole one; the
  sidecar is its parsed content, absent when it cannot be read. Every operation runs under the lock
  of its journal and is one step; what the file system answers is \<open>journal_io\<close>. The counters are
  64-bit numbers, written as natural numbers with saturation at \<open>u64_max\<close>.
\<close>

section \<open>Data\<close>

definition u64_max :: nat where "u64_max = 2 ^ 64 - 1"

definition sat_add :: "nat \<Rightarrow> nat \<Rightarrow> nat" where
  "sat_add a b = min (a + b) u64_max"

definition MAX_JOURNAL_BYTES :: nat where "MAX_JOURNAL_BYTES = 8 * 1048576"

definition COMPACTION_TARGET_BYTES :: nat where
  "COMPACTION_TARGET_BYTES = MAX_JOURNAL_BYTES - MAX_JOURNAL_BYTES div 4"

record journal_cache =
  jc_file_len :: nat
  jc_revision :: nat
  jc_dedupe :: "string \<rightharpoonup> nat"

definition default_cache :: journal_cache where
  "default_cache = \<lparr>jc_file_len = 0, jc_revision = 0, jc_dedupe = (\<lambda>_. None)\<rparr>"

record journal_meta =
  jm_base_revision :: nat
  jm_write_failures :: nat
  jm_compactions :: nat
  jm_last_write_error :: "string option"

definition default_meta :: journal_meta where
  "default_meta = \<lparr>jm_base_revision = 0, jm_write_failures = 0, jm_compactions = 0, jm_last_write_error = None\<rparr>"

text \<open>What is found at the path of the journal: a regular file, a directory, or a symbolic link to
  a regular file.\<close>

datatype journal_node = JFile string | JDirectory | JSymlink

record journal_files =
  jf_journal :: "journal_node option"
  jf_meta :: "journal_meta option"

datatype append_outcome = Appended nat | Duplicate nat

record list_filter =
  lf_kind :: "observation_kind option"
  lf_task_id :: "string option"
  lf_after_revision :: "nat option"
  lf_limit :: "nat option"

text \<open>\<^verbatim>\<open>serde_json::to_vec\<close> and \<^verbatim>\<open>serde_json::from_str\<close> of a record.\<close>

record journal_codec =
  co_text :: "observation \<Rightarrow> string"
  co_parse :: "string \<Rightarrow> observation option"

text \<open>\<open>io_append\<close> is the fate of the bytes of one line: all of them, or an error after some of
  them.\<close>

datatype line_write = Whole | Torn nat

record journal_io =
  io_prepare :: "anyhow + unit"
  io_rewrite :: "anyhow + unit"
  io_write_meta :: "anyhow + unit"
  io_append :: line_write

section \<open>Lines\<close>

text \<open>The check of \<^verbatim>\<open>read_to_string\<close>: well-formed UTF-8.\<close>

definition cont_byte :: "nat \<Rightarrow> bool" where
  "cont_byte b \<longleftrightarrow> 128 \<le> b \<and> b \<le> 191"

fun utf8_bytes_valid :: "nat list \<Rightarrow> bool" where
  "utf8_bytes_valid [] = True"
| "utf8_bytes_valid (a # bs) =
     (if a < 128 then utf8_bytes_valid bs
      else if 194 \<le> a \<and> a \<le> 223 then
        (case bs of b # cs \<Rightarrow> cont_byte b \<and> utf8_bytes_valid cs | _ \<Rightarrow> False)
      else if 224 \<le> a \<and> a \<le> 239 then
        (case bs of b # c # cs \<Rightarrow>
           (if a = 224 then 160 \<le> b \<and> b \<le> 191 else if a = 237 then 128 \<le> b \<and> b \<le> 159 else cont_byte b)
           \<and> cont_byte c \<and> utf8_bytes_valid cs
         | _ \<Rightarrow> False)
      else if 240 \<le> a \<and> a \<le> 244 then
        (case bs of b # c # d # cs \<Rightarrow>
           (if a = 240 then 144 \<le> b \<and> b \<le> 191 else if a = 244 then 128 \<le> b \<and> b \<le> 143 else cont_byte b)
           \<and> cont_byte c \<and> cont_byte d \<and> utf8_bytes_valid cs
         | _ \<Rightarrow> False)
      else False)"

definition utf8_valid :: "string \<Rightarrow> bool" where
  "utf8_valid s = utf8_bytes_valid (map of_char s)"

text \<open>\<^verbatim>\<open>str::lines\<close>: split at line feeds, without an empty last piece and without a carriage
  return at the end of a line.\<close>

fun split_newline :: "string \<Rightarrow> string list" where
  "split_newline [] = []"
| "split_newline (c # s) =
     (if c = CHR 0x0A then [] # split_newline s
      else (case split_newline s of [] \<Rightarrow> [[c]] | l # ls \<Rightarrow> (c # l) # ls))"

definition strip_cr :: "string \<Rightarrow> string" where
  "strip_cr l = (if l \<noteq> [] \<and> last l = CHR 0x0D then butlast l else l)"

definition str_lines :: "string \<Rightarrow> string list" where
  "str_lines s = map strip_cr (split_newline s)"

fun read_lines :: "journal_codec \<Rightarrow> string list \<Rightarrow> uuid set \<Rightarrow> observation list \<times> nat" where
  "read_lines C [] seen = ([], 0)"
| "read_lines C (l # ls) seen =
     (if trim_is_empty l then read_lines C ls seen
      else case co_parse C l of
          Some ob \<Rightarrow>
            if ob_schema_version ob = OBSERVATION_SCHEMA_VERSION then
              if ob_id ob \<in> seen then (case read_lines C ls seen of (obs, bad) \<Rightarrow> (obs, Suc bad))
              else (case read_lines C ls (insert (ob_id ob) seen) of (obs, bad) \<Rightarrow> (ob # obs, bad))
            else (case read_lines C ls seen of (obs, bad) \<Rightarrow> (obs, Suc bad))
        | None \<Rightarrow> (case read_lines C ls seen of (obs, bad) \<Rightarrow> (obs, Suc bad)))"

definition read_journal :: "journal_codec \<Rightarrow> journal_node option \<Rightarrow> anyhow + (observation list \<times> nat)" where
  "read_journal C n =
     (case n of
        Some (JFile s) \<Rightarrow>
          ensure (utf8_valid s) (Message ''cannot read observation journal'') (Inr (read_lines C (str_lines s) {}))
      | Some JDirectory \<Rightarrow> Inl (Message ''cannot read observation journal'')
      | Some JSymlink \<Rightarrow> Inl (Message ''refusing symlink'')
      | None \<Rightarrow> Inl (Message ''cannot open observation journal''))"

section \<open>The sidecar and the cache\<close>

definition read_meta :: "journal_files \<Rightarrow> journal_meta" where
  "read_meta f = (case jf_meta f of None \<Rightarrow> default_meta | Some m \<Rightarrow> m)"

text \<open>The lock of a session's journal, after the directories were made.\<close>

definition prepare :: "journal_io \<Rightarrow> string \<Rightarrow> anyhow + unit" where
  "prepare io sid = and_then (io_prepare io) (\<lambda>_. validate_session_id sid)"

definition note_write_failure :: "journal_io \<Rightarrow> string \<Rightarrow> string \<Rightarrow> journal_files \<Rightarrow> journal_files" where
  "note_write_failure io sid message f =
     (case and_then (prepare io sid) (\<lambda>_. io_write_meta io) of
        Inl _ \<Rightarrow> f
      | Inr _ \<Rightarrow>
          let m = read_meta f
          in f\<lparr>jf_meta := Some (m\<lparr>jm_write_failures := sat_add (jm_write_failures m) 1,
                jm_last_write_error := Some (concat (map push_char (take 256 (str_chars message))))\<rparr>)\<rparr>)"

definition dedupe_map :: "observation list \<Rightarrow> string \<rightharpoonup> nat" where
  "dedupe_map obs = map_of (rev (map (\<lambda>ob. (ob_dedupe_key ob, ob_revision ob)) obs))"

definition journal_len :: "journal_node option \<Rightarrow> anyhow + nat" where
  "journal_len n =
     (case n of
        None \<Rightarrow> Inr 0
      | Some (JFile s) \<Rightarrow> Inr (length s)
      | Some JDirectory \<Rightarrow> Inl (Message ''observation journal is not a regular file'')
      | Some JSymlink \<Rightarrow> Inl (Message ''refusing symlink''))"

definition refresh_cache_locked ::
  "journal_codec \<Rightarrow> journal_files \<Rightarrow> journal_cache \<Rightarrow> anyhow + (nat \<times> journal_cache)" where
  "refresh_cache_locked C f cache =
     and_then (journal_len (jf_journal f)) (\<lambda>actual_len.
     if actual_len = jc_file_len cache then Inr (actual_len, cache)
     else let base = jm_base_revision (read_meta f)
          in if actual_len = 0
             then Inr (0, \<lparr>jc_file_len = 0, jc_revision = base, jc_dedupe = (\<lambda>_. None)\<rparr>)
             else and_then (read_journal C (jf_journal f)) (\<lambda>(obs, _).
               Inr (actual_len,
                 \<lparr>jc_file_len = actual_len,
                  jc_revision = max (if obs = [] then base else ob_revision (last obs)) base,
                  jc_dedupe = dedupe_map obs\<rparr>)))"

section \<open>Compaction\<close>

definition line_of :: "journal_codec \<Rightarrow> observation \<Rightarrow> string" where
  "line_of C ob = co_text C ob @ [CHR 0x0A]"

text \<open>The loop over the records from the newest; the result is in that order, too.\<close>

fun keep_newest :: "journal_codec \<Rightarrow> nat \<Rightarrow> observation list \<Rightarrow> observation list" where
  "keep_newest C kept_bytes [] = []"
| "keep_newest C kept_bytes (ob # obs) =
     (let bytes = length (co_text C ob) + 1
      in if COMPACTION_TARGET_BYTES < kept_bytes + bytes then []
         else ob # keep_newest C (kept_bytes + bytes) obs)"

definition compact_locked ::
  "journal_codec \<Rightarrow> journal_io \<Rightarrow> journal_files \<Rightarrow> journal_meta \<Rightarrow> (anyhow + journal_cache) \<times> journal_files" where
  "compact_locked C io f m =
     (case and_then (read_journal C (jf_journal f)) (\<lambda>(obs, _). and_then (io_rewrite io) (\<lambda>_. Inr obs)) of
        Inl e \<Rightarrow> (Inl e, f)
      | Inr obs \<Rightarrow>
          let kept = rev (keep_newest C 0 (rev obs));
              dropped = length obs - length kept;
              payload = concat (map (line_of C) kept);
              f1 = f\<lparr>jf_journal := Some (JFile payload)\<rparr>;
              m1 = m\<lparr>jm_base_revision := sat_add (jm_base_revision m) dropped,
                     jm_compactions := sat_add (jm_compactions m) 1\<rparr>
          in case io_write_meta io of
               Inl e \<Rightarrow> (Inl e, f1)
             | Inr _ \<Rightarrow>
                 (Inr \<lparr>jc_file_len = length payload,
                       jc_revision = (if kept = [] then jm_base_revision m1 else ob_revision (last kept)),
                       jc_dedupe = dedupe_map kept\<rparr>,
                  f1\<lparr>jf_meta := Some m1\<rparr>))"

section \<open>Append\<close>

definition journal_bytes :: "journal_files \<Rightarrow> string" where
  "journal_bytes f = (case jf_journal f of Some (JFile s) \<Rightarrow> s | _ \<Rightarrow> [])"

text \<open>The line is written behind whatever the journal ends with.\<close>

definition write_line ::
  "journal_io \<Rightarrow> string \<Rightarrow> observation \<Rightarrow> journal_files \<Rightarrow> journal_cache
     \<Rightarrow> (anyhow + append_outcome) \<times> journal_files \<times> journal_cache" where
  "write_line io line ob f cache =
     (case io_append io of
        Torn n \<Rightarrow> (Inl Malformed, f\<lparr>jf_journal := Some (JFile (journal_bytes f @ take n line))\<rparr>, cache)
      | Whole \<Rightarrow>
          (Inr (Appended (ob_revision ob)),
           f\<lparr>jf_journal := Some (JFile (journal_bytes f @ line))\<rparr>,
           \<lparr>jc_file_len = length (journal_bytes f @ line), jc_revision = ob_revision ob,
            jc_dedupe = (jc_dedupe cache)(ob_dedupe_key ob \<mapsto> ob_revision ob)\<rparr>))"

definition append_observation ::
  "journal_codec \<Rightarrow> journal_io \<Rightarrow> observation \<Rightarrow> journal_files \<Rightarrow> journal_cache
     \<Rightarrow> (anyhow + append_outcome) \<times> journal_files \<times> journal_cache" where
  "append_observation C io ob f cache =
     (case and_then (prepare io (ob_session_id ob)) (\<lambda>_. refresh_cache_locked C f cache) of
        Inl e \<Rightarrow> (Inl e, f, cache)
      | Inr (current_len, cache1) \<Rightarrow>
          (case jc_dedupe cache1 (ob_dedupe_key ob) of
             Some revision \<Rightarrow> (Inr (Duplicate revision), f, cache1)
           | None \<Rightarrow>
               let m = read_meta f;
                   revision = max (sat_add (jc_revision cache1) 1) (jm_base_revision m);
                   ob1 = ob\<lparr>ob_revision := revision\<rparr>;
                   line = line_of C ob1
               in if MAX_JOURNAL_BYTES < sat_add current_len (length line)
                  then (case compact_locked C io f m of
                          (Inl e, f1) \<Rightarrow> (Inl e, f1, cache1)
                        | (Inr cache2, f1) \<Rightarrow> write_line io line ob1 f1 cache2)
                  else write_line io line ob1 f cache1))"

text \<open>\<^verbatim>\<open>append_best_effort\<close>: a failure is noted in the sidecar and goes no further.\<close>

definition append_best_effort ::
  "journal_codec \<Rightarrow> journal_io \<Rightarrow> (anyhow \<Rightarrow> string) \<Rightarrow> journal_io \<Rightarrow> observation \<Rightarrow> journal_files \<Rightarrow> journal_cache
     \<Rightarrow> journal_files \<times> journal_cache" where
  "append_best_effort C io show_error io' ob f cache =
     (case append_observation C io ob f cache of
        (Inr _, f1, cache1) \<Rightarrow> (f1, cache1)
      | (Inl e, f1, cache1) \<Rightarrow> (note_write_failure io' (ob_session_id ob) (show_error e) f1, cache1))"

section \<open>Readers\<close>

definition filter_matches :: "list_filter \<Rightarrow> string \<Rightarrow> observation \<Rightarrow> bool" where
  "filter_matches flt sid ob \<longleftrightarrow>
     ob_session_id ob = sid
     \<and> (case lf_after_revision flt of None \<Rightarrow> True | Some after \<Rightarrow> after < ob_revision ob)
     \<and> (case lf_kind flt of None \<Rightarrow> True | Some kind \<Rightarrow> ob_kind ob = kind)
     \<and> (case lf_task_id flt of None \<Rightarrow> True | Some task \<Rightarrow> ob_task_id ob = Some task)"

definition is_file_node :: "journal_node option \<Rightarrow> bool" where
  "is_file_node n = (case n of Some (JFile _) \<Rightarrow> True | Some JSymlink \<Rightarrow> True | _ \<Rightarrow> False)"

definition list_observations ::
  "journal_codec \<Rightarrow> journal_io \<Rightarrow> string \<Rightarrow> list_filter \<Rightarrow> journal_files \<Rightarrow> anyhow + (observation list \<times> nat)" where
  "list_observations C io sid flt f =
     and_then (validate_session_id sid) (\<lambda>_.
     and_then (if is_file_node (jf_journal f)
               then and_then (prepare io sid) (\<lambda>_. read_journal C (jf_journal f))
               else Inr ([], 0)) (\<lambda>(obs, corrupt).
     let filtered = filter (filter_matches flt sid) obs
     in Inr (case lf_limit flt of
               None \<Rightarrow> filtered
             | Some limit \<Rightarrow> drop (length filtered - limit) filtered, corrupt)))"

definition get_observation ::
  "journal_codec \<Rightarrow> journal_io \<Rightarrow> string \<Rightarrow> uuid \<Rightarrow> journal_files \<Rightarrow> anyhow + observation option" where
  "get_observation C io sid i f =
     and_then (list_observations C io sid
         \<lparr>lf_kind = None, lf_task_id = None, lf_after_revision = None, lf_limit = None\<rparr> f) (\<lambda>(obs, _).
     Inr (find (\<lambda>ob. ob_id ob = i) obs))"

record replication_snapshot =
  rp_base_revision :: nat
  rp_head_revision :: nat
  rp_gap_count :: nat
  rp_write_failures :: nat
  rp_corrupt_lines :: nat
  rp_records :: "observation list"

fun count_gaps :: "observation list \<Rightarrow> nat \<Rightarrow> nat \<Rightarrow> nat" where
  "count_gaps [] expected gaps = gaps"
| "count_gaps (ob # obs) expected gaps =
     count_gaps obs (max expected (sat_add (ob_revision ob) 1))
       (if expected < ob_revision ob then sat_add gaps (ob_revision ob - expected) else gaps)"

definition snapshot ::
  "journal_codec \<Rightarrow> journal_io \<Rightarrow> string \<Rightarrow> nat \<Rightarrow> nat \<Rightarrow> journal_files \<Rightarrow> anyhow + replication_snapshot" where
  "snapshot C io sid after_revision limit f =
     and_then (validate_session_id sid) (\<lambda>_.
     and_then (case jf_journal f of
         None \<Rightarrow> Inr ([], 0)
       | Some JDirectory \<Rightarrow> Inl (Message ''observation journal is not a regular file'')
       | n \<Rightarrow> and_then (prepare io sid) (\<lambda>_. read_journal C n)) (\<lambda>(obs, corrupt).
     let m = read_meta f;
         own = sort_key ob_revision (filter (\<lambda>ob. ob_session_id ob = sid) obs)
     in Inr \<lparr>rp_base_revision = jm_base_revision m,
             rp_head_revision = (if own = [] then jm_base_revision m else ob_revision (last own)),
             rp_gap_count = count_gaps own (sat_add (jm_base_revision m) 1) 0,
             rp_write_failures = jm_write_failures m, rp_corrupt_lines = corrupt,
             rp_records = take limit (filter (\<lambda>ob. after_revision < ob_revision ob) own)\<rparr>))"

record journal_status =
  js_exists :: bool
  js_revision :: nat
  js_base_revision :: nat
  js_observations :: nat
  js_bytes :: nat
  js_compactions :: nat
  js_write_failures :: nat
  js_last_write_error :: "string option"
  js_corrupt_lines :: nat
  js_degraded :: bool

definition journal_status_of :: "journal_codec \<Rightarrow> journal_io \<Rightarrow> string \<Rightarrow> journal_files \<Rightarrow> anyhow + journal_status" where
  "journal_status_of C io sid f =
     and_then (validate_session_id sid) (\<lambda>_.
     let m = read_meta f;
         st = \<lparr>js_exists = False, js_revision = 0, js_base_revision = jm_base_revision m, js_observations = 0,
               js_bytes = 0, js_compactions = jm_compactions m, js_write_failures = jm_write_failures m,
               js_last_write_error = jm_last_write_error m,
               js_corrupt_lines = 0, js_degraded = (0 < jm_write_failures m)\<rparr>
     in case jf_journal f of
          None \<Rightarrow> Inr st
        | Some JDirectory \<Rightarrow> Inl (Message ''observation journal is not a regular file'')
        | n \<Rightarrow> and_then (prepare io sid) (\<lambda>_. and_then (read_journal C n) (\<lambda>(obs, corrupt).
            Inr (st\<lparr>js_exists := True, js_bytes := length (journal_bytes f), js_corrupt_lines := corrupt,
                    js_observations := length (filter (\<lambda>ob. ob_session_id ob = sid) obs),
                    js_revision := (if obs = [] then jm_base_revision m else Max (ob_revision ` set obs)),
                    js_degraded := (0 < jm_write_failures m \<or> 0 < corrupt)\<rparr>))))"

section \<open>Whole lines\<close>

text \<open>What is asked of the JSON text of a record: it parses back, it is one line of well-formed UTF-8
  that is neither blank nor ends in a carriage return, and it is at most a quarter of the journal.\<close>

definition line_ok :: "journal_codec \<Rightarrow> observation \<Rightarrow> bool" where
  "line_ok C ob \<longleftrightarrow>
     co_parse C (co_text C ob) = Some ob \<and> CHR 0x0A \<notin> set (co_text C ob) \<and>
     co_text C ob \<noteq> [] \<and> last (co_text C ob) \<noteq> CHR 0x0D \<and>
     \<not> trim_is_empty (co_text C ob) \<and> utf8_valid (co_text C ob) \<and>
     4 * length (line_of C ob) \<le> MAX_JOURNAL_BYTES"

definition journal_text :: "journal_codec \<Rightarrow> observation list \<Rightarrow> string" where
  "journal_text C obs = concat (map (line_of C) obs)"

lemma journal_text_simps [simp]:
  "journal_text C [] = []"
  "journal_text C (ob # obs) = line_of C ob @ journal_text C obs"
  "journal_text C (obs @ obs') = journal_text C obs @ journal_text C obs'"
  by (simp_all add: journal_text_def)

lemma journal_text_Nil_iff [simp]: "journal_text C obs = [] \<longleftrightarrow> obs = []"
  by (cases obs) (simp_all add: line_of_def)

lemma split_newline_line:
  "CHR 0x0A \<notin> set l \<Longrightarrow> split_newline (l @ CHR 0x0A # s) = l # split_newline s"
  by (induction l) auto

lemma split_newline_tail: "CHR 0x0A \<notin> set l \<Longrightarrow> l \<noteq> [] \<Longrightarrow> split_newline l = [l]"
proof (induction l)
  case (Cons c l)
  then show ?case by (cases l) auto
qed simp

lemma str_lines_journal:
  "\<forall>ob \<in> set obs. line_ok C ob \<Longrightarrow> str_lines (journal_text C obs @ s) = map (co_text C) obs @ str_lines s"
  by (induction obs)
    (auto simp: str_lines_def line_ok_def line_of_def split_newline_line strip_cr_def)

lemma utf8_valid_append: "utf8_bytes_valid xs \<Longrightarrow> utf8_bytes_valid (xs @ ys) = utf8_bytes_valid ys"
  by (induction xs rule: utf8_bytes_valid.induct) (auto split: if_splits list.splits)

lemma utf8_valid_journal:
  "\<forall>ob \<in> set obs. line_ok C ob \<Longrightarrow> utf8_valid (journal_text C obs @ s) = utf8_valid s"
  by (induction obs)
    (auto simp: utf8_valid_def line_ok_def line_of_def utf8_valid_append)

lemma read_lines_journal:
  assumes "\<forall>ob \<in> set obs. line_ok C ob \<and> ob_schema_version ob = OBSERVATION_SCHEMA_VERSION"
    and "distinct (map ob_id obs)" and "ob_id ` set obs \<inter> seen = {}"
  shows "read_lines C (map (co_text C) obs @ ls) seen =
    (case read_lines C ls (ob_id ` set obs \<union> seen) of (obs', bad) \<Rightarrow> (obs @ obs', bad))"
  using assms
proof (induction obs arbitrary: seen)
  case (Cons ob obs)
  then have "ob_id ` set obs \<inter> insert (ob_id ob) seen = {}" by auto
  with Cons have "read_lines C (map (co_text C) obs @ ls) (insert (ob_id ob) seen) =
      (case read_lines C ls (ob_id ` set obs \<union> insert (ob_id ob) seen) of (obs', bad) \<Rightarrow> (obs @ obs', bad))"
    by simp
  moreover have "ob_id ` set obs \<union> insert (ob_id ob) seen = insert (ob_id ob) (ob_id ` set obs \<union> seen)" by auto
  ultimately show ?case using Cons.prems by (auto simp: line_ok_def split: prod.splits)
qed (simp split: prod.splits)

text \<open>Reading a journal of whole lines that ends in other bytes.\<close>

lemma read_journal_tail:
  assumes "\<forall>ob \<in> set obs. line_ok C ob \<and> ob_schema_version ob = OBSERVATION_SCHEMA_VERSION"
    and "distinct (map ob_id obs)" and "utf8_valid s"
  shows "read_journal C (Some (JFile (journal_text C obs @ s))) =
    Inr (case read_lines C (str_lines s) (ob_id ` set obs) of (obs', bad) \<Rightarrow> (obs @ obs', bad))"
  using assms read_lines_journal [of obs C "{}" "str_lines s"]
  by (simp add: read_journal_def str_lines_journal utf8_valid_journal)

lemma read_journal_text:
  assumes "\<forall>ob \<in> set obs. line_ok C ob \<and> ob_schema_version ob = OBSERVATION_SCHEMA_VERSION"
    and "distinct (map ob_id obs)"
  shows "read_journal C (Some (JFile (journal_text C obs))) = Inr (obs, 0)"
  using read_journal_tail [OF assms, of "[]"] by (simp add: str_lines_def utf8_valid_def)

section \<open>What compaction keeps\<close>

lemma keep_newest_take: "\<exists>n. keep_newest C b obs = take n obs"
proof (induction obs arbitrary: b)
  case (Cons ob obs)
  from Cons.IH [of "b + length (co_text C ob) + 1"] obtain n
    where "keep_newest C (b + length (co_text C ob) + 1) obs = take n obs" by blast
  then show ?case
    by (cases "COMPACTION_TARGET_BYTES < b + (length (co_text C ob) + 1)")
      (auto simp: Let_def intro: exI [of _ 0] exI [of _ "Suc n"])
qed simp

lemma keep_newest_bytes:
  "b \<le> COMPACTION_TARGET_BYTES \<Longrightarrow> b + length (journal_text C (keep_newest C b obs)) \<le> COMPACTION_TARGET_BYTES"
proof (induction obs arbitrary: b)
  case (Cons ob obs)
  show ?case
  proof (cases "COMPACTION_TARGET_BYTES < b + (length (co_text C ob) + 1)")
    case False
    with Cons.IH [of "b + length (co_text C ob) + 1"] show ?thesis by (simp add: Let_def line_of_def)
  qed (use Cons.prems in \<open>simp add: Let_def\<close>)
qed simp

lemma journal_text_rev: "length (journal_text C (rev obs)) = length (journal_text C obs)"
  by (induction obs) simp_all

lemma target_bytes: "COMPACTION_TARGET_BYTES = 6291456" "MAX_JOURNAL_BYTES = 8388608"
  by (simp_all add: COMPACTION_TARGET_BYTES_def MAX_JOURNAL_BYTES_def)

lemma kept_suffix:
  fixes C :: journal_codec
  defines "kept obs \<equiv> rev (keep_newest C 0 (rev obs))"
  shows "kept obs = drop (length obs - length (kept obs)) obs" (is ?drop)
    and "length (journal_text C (kept obs)) \<le> COMPACTION_TARGET_BYTES" (is ?bytes)
    and "obs \<noteq> [] \<Longrightarrow> line_ok C (last obs) \<Longrightarrow> kept obs \<noteq> []"
proof -
  obtain n where n: "keep_newest C 0 (rev obs) = take n (rev obs)" using keep_newest_take by blast
  show ?drop unfolding kept_def n by (simp add: rev_take min_def)
  show ?bytes using keep_newest_bytes [of 0 C "rev obs"] by (simp add: kept_def journal_text_rev)
  show "kept obs \<noteq> []" if "obs \<noteq> []" "line_ok C (last obs)"
  proof -
    from that(1) obtain pre ob where obs: "obs = pre @ [ob]" by (metis append_butlast_last_id)
    with that(2) show ?thesis
      by (simp add: kept_def Let_def line_ok_def line_of_def target_bytes)
  qed
qed

section \<open>The journal as a log\<close>

text \<open>\<open>log\<close> is everything that was ever appended, numbered from one; the journal holds all of it but
  the first \<open>k\<close> records, and never nothing once there was something.\<close>

definition journal_holds :: "journal_codec \<Rightarrow> journal_files \<Rightarrow> observation list \<Rightarrow> bool" where
  "journal_holds C f obs \<longleftrightarrow>
     jf_journal f = Some (JFile (journal_text C obs)) \<or> jf_journal f = None \<and> obs = []"

definition log_ok :: "journal_codec \<Rightarrow> string \<Rightarrow> observation list \<Rightarrow> bool" where
  "log_ok C sid log \<longleftrightarrow>
     list_all (\<lambda>ob. line_ok C ob \<and> ob_schema_version ob = OBSERVATION_SCHEMA_VERSION \<and> ob_session_id ob = sid) log \<and>
     distinct (map ob_id log) \<and> map ob_revision log = [1..<Suc (length log)] \<and> length log \<le> u64_max"

definition cache_ok :: "journal_codec \<Rightarrow> observation list \<Rightarrow> nat \<Rightarrow> journal_cache \<Rightarrow> bool" where
  "cache_ok C log k cache \<longleftrightarrow>
     (jc_file_len cache = length (journal_text C (drop k log)) \<longrightarrow>
        jc_dedupe cache = dedupe_map (drop k log) \<and> jc_revision cache = length log)"

definition retained_ok :: "journal_codec \<Rightarrow> journal_files \<Rightarrow> observation list \<Rightarrow> nat \<Rightarrow> bool" where
  "retained_ok C f log k \<longleftrightarrow>
     journal_holds C f (drop k log) \<and> distinct (map ob_dedupe_key (drop k log)) \<and>
     jm_base_revision (read_meta f) \<le> k \<and> (if log = [] then k = 0 else k < length log) \<and>
     length (journal_text C (drop k log)) \<le> MAX_JOURNAL_BYTES"

definition journal_inv ::
  "journal_codec \<Rightarrow> string \<Rightarrow> journal_files \<Rightarrow> journal_cache \<Rightarrow> observation list \<Rightarrow> nat \<Rightarrow> bool" where
  "journal_inv C sid f cache log k \<longleftrightarrow> log_ok C sid log \<and> retained_ok C f log k \<and> cache_ok C log k cache"

lemma dedupe_map_snoc: "dedupe_map (obs @ [ob]) = (dedupe_map obs)(ob_dedupe_key ob \<mapsto> ob_revision ob)"
  by (simp add: dedupe_map_def)

lemma dedupe_map_None: "dedupe_map obs key = None \<longleftrightarrow> key \<notin> ob_dedupe_key ` set obs"
  by (simp add: dedupe_map_def map_of_eq_None_iff image_image)

lemma dedupe_map_Some:
  "dedupe_map obs key = Some r \<Longrightarrow> \<exists>ob \<in> set obs. ob_dedupe_key ob = key \<and> ob_revision ob = r"
  by (auto simp: dedupe_map_def dest!: map_of_SomeD)

lemma log_ok_drop:
  assumes "log_ok C sid log"
  shows "\<forall>ob \<in> set (drop k log). line_ok C ob \<and> ob_schema_version ob = OBSERVATION_SCHEMA_VERSION"
    and "distinct (map ob_id (drop k log))"
    and "\<forall>ob \<in> set (drop k log). ob_session_id ob = sid"
    and "map ob_revision (drop k log) = [Suc k..<Suc (length log)]"
proof -
  have ok: "\<forall>ob \<in> set log. line_ok C ob \<and> ob_schema_version ob = OBSERVATION_SCHEMA_VERSION \<and> ob_session_id ob = sid"
    using assms by (simp add: log_ok_def list_all_iff)
  show "\<forall>ob \<in> set (drop k log). line_ok C ob \<and> ob_schema_version ob = OBSERVATION_SCHEMA_VERSION"
    "\<forall>ob \<in> set (drop k log). ob_session_id ob = sid" using ok by (meson in_set_dropD)+
  show "distinct (map ob_id (drop k log))"
    using assms distinct_drop [of "map ob_id log" k] by (simp add: log_ok_def drop_map)
  show "map ob_revision (drop k log) = [Suc k..<Suc (length log)]"
    using assms unfolding log_ok_def drop_map [symmetric] by (simp add: drop_upt del: upt_Suc)
qed

lemma last_revision:
  assumes "log_ok C sid log" "k < length log"
  shows "ob_revision (last (drop k log)) = length log"
proof -
  have "last (map ob_revision (drop k log)) = last [Suc k..<Suc (length log)]"
    using log_ok_drop(4) [OF assms(1)] by simp
  then show ?thesis using assms(2) by (simp add: last_map)
qed

lemma read_journal_retained:
  assumes "log_ok C sid log" "jf_journal f = Some (JFile (journal_text C (drop k log)))"
  shows "read_journal C (jf_journal f) = Inr (drop k log, 0)"
  using read_journal_text [OF log_ok_drop(1,2) [OF assms(1)]] assms(2) by simp

text \<open>After a refresh the cache describes the journal.\<close>

lemma refresh_coherent:
  assumes "journal_inv C sid f cache log k"
  shows "\<exists>cache'. refresh_cache_locked C f cache = Inr (length (journal_text C (drop k log)), cache') \<and>
    jc_file_len cache' = length (journal_text C (drop k log)) \<and>
    jc_dedupe cache' = dedupe_map (drop k log) \<and> jc_revision cache' = length log"
proof (cases "length (journal_text C (drop k log)) = jc_file_len cache")
  case True
  with assms show ?thesis
    by (auto simp: refresh_cache_locked_def journal_inv_def retained_ok_def journal_holds_def journal_len_def cache_ok_def)
next
  case stale: False
  from assms have log: "log_ok C sid log" and held: "journal_holds C f (drop k log)"
    and base: "jm_base_revision (read_meta f) \<le> k" and k: "if log = [] then k = 0 else k < length log"
    by (auto simp: journal_inv_def retained_ok_def)
  show ?thesis
  proof (cases "log = []")
    case True
    with k base held stale show ?thesis
      by (auto simp: refresh_cache_locked_def journal_holds_def journal_len_def Let_def dedupe_map_def)
  next
    case False
    with k held have journal: "jf_journal f = Some (JFile (journal_text C (drop k log)))" "drop k log \<noteq> []" "k < length log"
      by (auto simp: journal_holds_def)
    with base show ?thesis
      using stale read_journal_retained [OF log journal(1)] last_revision [OF log journal(3)]
      by (simp add: refresh_cache_locked_def journal_len_def Let_def max_def)
  qed
qed


definition coherent :: "journal_codec \<Rightarrow> observation list \<Rightarrow> nat \<Rightarrow> journal_cache \<Rightarrow> bool" where
  "coherent C log k cache \<longleftrightarrow>
     jc_file_len cache = length (journal_text C (drop k log)) \<and>
     jc_dedupe cache = dedupe_map (drop k log) \<and> jc_revision cache = length log"

lemma coherent_cache_ok: "coherent C log k cache \<Longrightarrow> cache_ok C log k cache"
  by (simp add: coherent_def cache_ok_def)

lemma compact_retains:
  assumes log: "log_ok C sid log" and inv: "retained_ok C f log k" and more: "log \<noteq> []"
    and run: "compact_locked C io f (read_meta f) = (res, f1)"
  obtains (unchanged) e where "res = Inl e" "f1 = f"
    | (compacted) k' where "k \<le> k'" "retained_ok C f1 log k'"
        "length (journal_text C (drop k' log)) \<le> COMPACTION_TARGET_BYTES"
        "case res of Inl _ \<Rightarrow> True | Inr cache \<Rightarrow> coherent C log k' cache"
proof -
  from inv more have k: "k < length log" and held: "jf_journal f = Some (JFile (journal_text C (drop k log)))"
    and base: "jm_base_revision (read_meta f) \<le> k"
    and keys: "distinct (map ob_dedupe_key (drop k log))"
    by (auto simp: retained_ok_def journal_holds_def)
  have read: "read_journal C (jf_journal f) = Inr (drop k log, 0)" by (rule read_journal_retained [OF log held])
  define kept where "kept = rev (keep_newest C 0 (rev (drop k log)))"
  define k' where "k' = k + (length (drop k log) - length kept)"
  have "last (drop k log) \<in> set (drop k log)" using k by (intro last_in_set) simp
  then have "line_ok C (last (drop k log))" using log_ok_drop(1) [OF log] by blast
  then have kept: "kept = drop k' log" "kept \<noteq> []" "length (journal_text C kept) \<le> COMPACTION_TARGET_BYTES"
    using kept_suffix [where C = C and obs = "drop k log"] k by (simp_all add: kept_def [symmetric] k'_def add.commute)
  then have k': "k \<le> k'" "k' < length log"
    by (simp add: k'_def, metis drop_all leI)
  have "distinct (map ob_dedupe_key (drop k' log))"
    using keys distinct_drop [of "map ob_dedupe_key (drop k log)" "k' - k"] k'(1) by (simp add: drop_map)
  moreover have "sat_add (jm_base_revision (read_meta f)) (k' - k) \<le> k'"
    using base k'(1) by (simp add: sat_add_def)
  ultimately have ret: "retained_ok C f1 log k'" if "jf_journal f1 = Some (JFile (journal_text C kept))"
      "jm_base_revision (read_meta f1) \<in> {jm_base_revision (read_meta f), sat_add (jm_base_revision (read_meta f)) (k' - k)}"
    using that base kept k' more by (auto simp: retained_ok_def journal_holds_def target_bytes)
  show thesis
  proof (cases "io_rewrite io")
    case (Inl e)
    with run read show thesis by (intro unchanged [of e]) (simp_all add: compact_locked_def)
  next
    case (Inr u)
    have drp: "length (drop k log) - length kept = k' - k" by (simp add: k'_def)
    show thesis
    proof (cases "io_write_meta io")
      case meta: (Inl e)
      have "f1 = f\<lparr>jf_journal := Some (JFile (journal_text C kept))\<rparr>" "res = Inl e"
        using run read Inr meta by (simp_all add: compact_locked_def Let_def kept_def journal_text_def)
      then show thesis using ret k'(1) kept
        by (intro compacted [of k']) (simp_all add: read_meta_def)
    next
      case meta: (Inr u')
      have "jf_journal f1 = Some (JFile (journal_text C kept))"
        "jm_base_revision (read_meta f1) = sat_add (jm_base_revision (read_meta f)) (k' - k)"
        "res = Inr \<lparr>jc_file_len = length (journal_text C kept), jc_revision = ob_revision (last kept),
           jc_dedupe = dedupe_map kept\<rparr>"
        using run read Inr meta kept(2)
        unfolding drp [symmetric]
        by (auto simp: compact_locked_def Let_def kept_def journal_text_def read_meta_def)
      then show thesis
        using ret k' kept last_revision [OF log k'(2)]
        by (intro compacted [of k']) (simp_all add: coherent_def)
    qed
  qed
qed

lemma write_line_Whole:
  assumes log: "log_ok C sid log" and inv: "retained_ok C f log k" and cache: "coherent C log k cache"
    and ob: "line_ok C ob" "ob_schema_version ob = OBSERVATION_SCHEMA_VERSION" "ob_session_id ob = sid"
      "ob_id ob \<notin> ob_id ` set log" "ob_revision ob = Suc (length log)" "length log < u64_max"
    and new: "ob_dedupe_key ob \<notin> ob_dedupe_key ` set (drop k log)"
    and fits: "length (journal_text C (drop k log)) + length (line_of C ob) \<le> MAX_JOURNAL_BYTES"
    and run: "write_line io (line_of C ob) ob f cache = (res, f', cache')" and whole: "io_append io = Whole"
  shows "res = Inr (Appended (Suc (length log))) \<and> journal_inv C sid f' cache' (log @ [ob]) k"
proof -
  have bytes: "journal_bytes f = journal_text C (drop k log)"
    using inv by (auto simp: retained_ok_def journal_holds_def journal_bytes_def)
  have k: "k \<le> length log" using inv by (auto simp: retained_ok_def split: if_splits)
  then have drp: "drop k (log @ [ob]) = drop k log @ [ob]" by simp
  have out: "res = Inr (Appended (ob_revision ob))"
    "f' = f\<lparr>jf_journal := Some (JFile (journal_text C (drop k (log @ [ob]))))\<rparr>"
    "cache' = \<lparr>jc_file_len = length (journal_text C (drop k (log @ [ob]))), jc_revision = ob_revision ob,
       jc_dedupe = (jc_dedupe cache)(ob_dedupe_key ob \<mapsto> ob_revision ob)\<rparr>"
    using run whole bytes drp by (auto simp: write_line_def)
  have "log_ok C sid (log @ [ob])" using log ob by (auto simp: log_ok_def)
  moreover have "retained_ok C f' (log @ [ob]) k"
    using inv new fits k drp by (auto simp: out(2) retained_ok_def journal_holds_def read_meta_def split: if_splits)
  moreover have "coherent C (log @ [ob]) k cache'"
    using cache ob(5) drp by (simp add: out(3) coherent_def dedupe_map_snoc)
  ultimately show ?thesis using out(1) ob(5) by (simp add: journal_inv_def coherent_cache_ok)
qed

lemma write_line_nothing:
  assumes "retained_ok C f log k" and "write_line io line ob f cache = (res, f', cache')" and "io_append io = Torn 0"
  shows "(\<exists>e. res = Inl e) \<and> retained_ok C f' log k \<and> cache' = cache"
  using assms
  by (auto simp: write_line_def retained_ok_def journal_holds_def journal_bytes_def read_meta_def)


text \<open>An append that the environment does not tear: a fresh record of the session whose text is
  acceptable under the next revision, and a write that succeeds or leaves nothing behind.\<close>

definition untorn :: "journal_codec \<Rightarrow> string \<Rightarrow> journal_io \<Rightarrow> observation \<Rightarrow> observation list \<Rightarrow> bool" where
  "untorn C sid io ob log \<longleftrightarrow>
     ob_session_id ob = sid \<and> ob_schema_version ob = OBSERVATION_SCHEMA_VERSION \<and>
     ob_id ob \<notin> ob_id ` set log \<and> line_ok C (ob\<lparr>ob_revision := Suc (length log)\<rparr>) \<and>
     (io_append io = Whole \<or> io_append io = Torn 0) \<and> length log < u64_max"

text \<open>How an append that was not recognised as a duplicate may end: nothing new, or the next record.\<close>

definition append_ends ::
  "journal_codec \<Rightarrow> string \<Rightarrow> observation list \<Rightarrow> nat \<Rightarrow> observation \<Rightarrow> (anyhow + append_outcome)
     \<Rightarrow> journal_files \<Rightarrow> journal_cache \<Rightarrow> bool" where
  "append_ends C sid log k ob res f' cache' \<longleftrightarrow>
     (\<exists>k' \<ge> k.
       (\<exists>e. res = Inl e \<and> journal_inv C sid f' cache' log k') \<or>
       (res = Inr (Appended (Suc (length log))) \<and> ob_dedupe_key ob \<notin> ob_dedupe_key ` set (drop k log) \<and>
        journal_inv C sid f' cache' (log @ [ob\<lparr>ob_revision := Suc (length log)\<rparr>]) k'))"

lemma write_line_ends:
  assumes io: "untorn C sid io ob log" and log: "log_ok C sid log"
    and ret: "retained_ok C f log k'" and coh: "coherent C log k' cache" and k: "k \<le> k'"
    and new: "ob_dedupe_key ob \<notin> ob_dedupe_key ` set (drop k log)"
    and fits: "length (journal_text C (drop k' log)) + length (line_of C (ob\<lparr>ob_revision := Suc (length log)\<rparr>)) \<le> MAX_JOURNAL_BYTES"
    and w: "write_line io (line_of C (ob\<lparr>ob_revision := Suc (length log)\<rparr>)) (ob\<lparr>ob_revision := Suc (length log)\<rparr>) f cache =
      (res, f', cache')"
  shows "append_ends C sid log k ob res f' cache'"
proof (cases "io_append io = Whole")
  case True
  let ?ob = "ob\<lparr>ob_revision := Suc (length log)\<rparr>"
  have "set (drop k' log) \<subseteq> set (drop k log)" using k by (rule set_drop_subset_set_drop)
  then have "ob_dedupe_key ?ob \<notin> ob_dedupe_key ` set (drop k' log)" using new by auto
  then have "res = Inr (Appended (Suc (length log))) \<and> journal_inv C sid f' cache' (log @ [?ob]) k'"
    using write_line_Whole [OF log ret coh _ _ _ _ _ _ _ fits w True] io by (simp add: untorn_def)
  with new k show ?thesis by (auto simp: append_ends_def)
next
  case False
  with io have "io_append io = Torn 0" by (simp add: untorn_def)
  from write_line_nothing [OF ret w this] log coh k show ?thesis
    by (auto simp: append_ends_def journal_inv_def coherent_cache_ok)
qed

lemma append_new:
  assumes io: "untorn C sid io ob log" and inv: "journal_inv C sid f cache1 log k"
    and coh: "coherent C log k cache1" and prep: "prepare io (ob_session_id ob) = Inr u"
    and ref: "refresh_cache_locked C f cache = Inr (length (journal_text C (drop k log)), cache1)"
    and none: "jc_dedupe cache1 (ob_dedupe_key ob) = None"
    and run: "append_observation C io ob f cache = (res, f', cache')"
  shows "append_ends C sid log k ob res f' cache'"
proof -
  let ?text = "journal_text C (drop k log)" and ?ob = "ob\<lparr>ob_revision := Suc (length log)\<rparr>"
  from inv have log: "log_ok C sid log" and ret: "retained_ok C f log k" by (auto simp: journal_inv_def)
  have new: "ob_dedupe_key ob \<notin> ob_dedupe_key ` set (drop k log)"
    using coh none by (simp add: coherent_def dedupe_map_None)
  have "jm_base_revision (read_meta f) \<le> length log" using ret by (auto simp: retained_ok_def split: if_splits)
  then have rev1: "max (sat_add (jc_revision cache1) 1) (jm_base_revision (read_meta f)) = Suc (length log)"
    using coh io by (simp add: coherent_def sat_add_def untorn_def max_def)
  have quarter: "4 * length (line_of C ?ob) \<le> MAX_JOURNAL_BYTES" using io by (simp add: untorn_def line_ok_def)
  note ends = write_line_ends [OF io log]
  show ?thesis
  proof (cases "MAX_JOURNAL_BYTES < sat_add (length ?text) (length (line_of C ?ob))")
    case False
    then have "length ?text + length (line_of C ?ob) \<le> MAX_JOURNAL_BYTES"
      by (auto simp: sat_add_def target_bytes u64_max_def min_def split: if_splits)
    moreover have "write_line io (line_of C ?ob) ?ob f cache1 = (res, f', cache')"
      using run prep ref none False rev1 by (simp add: append_observation_def Let_def)
    ultimately show ?thesis using ends [OF ret coh order_refl new] by blast
  next
    case big: True
    then have more: "log \<noteq> []" and long: "COMPACTION_TARGET_BYTES < length ?text"
      using quarter by (auto simp: sat_add_def target_bytes min_def split: if_splits)
    obtain res1 f1 where c: "compact_locked C io f (read_meta f) = (res1, f1)" by fastforce
    have run1: "(res, f', cache') = (case res1 of Inl e \<Rightarrow> (Inl e, f1, cache1)
        | Inr cache2 \<Rightarrow> write_line io (line_of C ?ob) ?ob f1 cache2)"
      using run prep ref none big rev1 c by (simp add: append_observation_def Let_def split: sum.splits)
    from log ret more c show ?thesis
    proof (cases rule: compact_retains)
      case (unchanged e)
      with run1 inv show ?thesis by (auto simp: append_ends_def)
    next
      case (compacted k')
      show ?thesis
      proof (cases res1)
        case (Inl e)
        moreover have "cache_ok C log k' cache1" using coh long compacted(3) by (simp add: cache_ok_def coherent_def)
        ultimately show ?thesis using run1 log compacted(1,2) by (auto simp: append_ends_def journal_inv_def)
      next
        case (Inr cache2)
        then have "coherent C log k' cache2" "write_line io (line_of C ?ob) ?ob f1 cache2 = (res, f', cache')"
          using compacted(4) run1 by simp_all
        moreover have "length (journal_text C (drop k' log)) + length (line_of C ?ob) \<le> MAX_JOURNAL_BYTES"
          using compacted(3) quarter by (simp add: target_bytes)
        ultimately show ?thesis using ends [OF compacted(2) _ compacted(1) new] by blast
      qed
    qed
  qed
qed

lemma append_inv:
  assumes inv: "journal_inv C sid f cache log k" and io: "untorn C sid io ob log"
    and run: "append_observation C io ob f cache = (res, f', cache')"
  shows "append_ends C sid log k ob res f' cache' \<or>
    (\<exists>r. res = Inr (Duplicate r) \<and> f' = f \<and> journal_inv C sid f' cache' log k \<and>
       (\<exists>ob' \<in> set (drop k log). ob_dedupe_key ob' = ob_dedupe_key ob \<and> ob_revision ob' = r))"
proof (cases "prepare io (ob_session_id ob)")
  case (Inl e)
  with run inv show ?thesis by (auto simp: append_observation_def append_ends_def)
next
  case (Inr u)
  obtain cache1 where ref: "refresh_cache_locked C f cache = Inr (length (journal_text C (drop k log)), cache1)"
    and coh: "coherent C log k cache1" using refresh_coherent [OF inv] by (auto simp: coherent_def)
  have inv1: "journal_inv C sid f cache1 log k" using inv coh by (simp add: journal_inv_def coherent_cache_ok)
  show ?thesis
  proof (cases "jc_dedupe cache1 (ob_dedupe_key ob)")
    case (Some r)
    with run Inr ref have "res = Inr (Duplicate r)" "f' = f" "cache' = cache1"
      by (auto simp: append_observation_def)
    with inv1 coh Some dedupe_map_Some show ?thesis by (auto simp: coherent_def)
  next
    case None
    from append_new [OF io inv1 coh Inr ref None run] show ?thesis by blast
  qed
qed

section \<open>Runs\<close>

text \<open>Any sequence of untorn appends, of restarts, which lose the cache, and of noted failures, on a
  journal that starts without files.\<close>

inductive journal_step ::
  "journal_codec \<Rightarrow> string \<Rightarrow> journal_files \<Rightarrow> journal_cache \<Rightarrow> observation list
     \<Rightarrow> journal_files \<Rightarrow> journal_cache \<Rightarrow> observation list \<Rightarrow> bool"
  for C sid where
  append: "untorn C sid io ob log \<Longrightarrow> append_observation C io ob f cache = (res, f', cache') \<Longrightarrow>
    journal_step C sid f cache log f' cache'
      (case res of Inr (Appended r) \<Rightarrow> log @ [ob\<lparr>ob_revision := r\<rparr>] | _ \<Rightarrow> log)"
| restart: "journal_step C sid f cache log f default_cache log"
| noted: "journal_step C sid f cache log (note_write_failure io sid message f) cache log"

inductive journal_run :: "journal_codec \<Rightarrow> string \<Rightarrow> journal_files \<Rightarrow> journal_cache \<Rightarrow> observation list \<Rightarrow> bool"
  for C sid where
  fresh: "journal_run C sid \<lparr>jf_journal = None, jf_meta = None\<rparr> default_cache []"
| step: "journal_run C sid f cache log \<Longrightarrow> journal_step C sid f cache log f' cache' log' \<Longrightarrow>
    journal_run C sid f' cache' log'"

lemma note_write_failure_frame [simp]:
  "jf_journal (note_write_failure io sid message f) = jf_journal f"
  "jm_base_revision (read_meta (note_write_failure io sid message f)) = jm_base_revision (read_meta f)"
  by (auto simp: note_write_failure_def read_meta_def Let_def split: sum.splits option.splits)

lemma fresh_inv: "journal_inv C sid \<lparr>jf_journal = None, jf_meta = None\<rparr> default_cache [] 0"
  by (simp add: journal_inv_def log_ok_def retained_ok_def journal_holds_def cache_ok_def default_cache_def
      read_meta_def default_meta_def dedupe_map_def)

text \<open>A step drops records only from the front and adds them only behind.\<close>

lemma journal_step_inv:
  assumes "journal_step C sid f cache log f' cache' log'" and "journal_inv C sid f cache log k"
  shows "\<exists>k' \<ge> k. \<exists>more. journal_inv C sid f' cache' log' k' \<and> log' = log @ more"
  using assms
proof (induction rule: journal_step.induct)
  case (append io ob log f cache res f' cache')
  from append_inv [OF append.prems append.hyps] show ?case by (fastforce simp: append_ends_def)
next
  case (restart f cache log)
  then have "cache_ok C log k default_cache"
    by (auto simp: cache_ok_def default_cache_def journal_inv_def retained_ok_def dedupe_map_def split: if_splits)
  with restart show ?case by (auto simp: journal_inv_def)
next
  case (noted f cache log io message)
  then show ?case by (auto simp: journal_inv_def retained_ok_def journal_holds_def)
qed

lemma journal_run_inv: "journal_run C sid f cache log \<Longrightarrow> \<exists>k. journal_inv C sid f cache log k"
proof (induction rule: journal_run.induct)
  case fresh
  then show ?case using fresh_inv by blast
next
  case (step f cache log f' cache' log')
  then show ?case using journal_step_inv by blast
qed

lemma list_observations_retained:
  assumes inv: "journal_inv C sid f cache log k" and prep: "prepare io sid = Inr ()"
  shows "list_observations C io sid flt f =
    (let matching = filter (filter_matches flt sid) (drop k log)
     in Inr (case lf_limit flt of None \<Rightarrow> matching | Some limit \<Rightarrow> drop (length matching - limit) matching, 0))"
proof -
  from prep have valid: "validate_session_id sid = Inr ()" by (auto simp: prepare_def)
  from inv have log: "log_ok C sid log" and held: "journal_holds C f (drop k log)"
    by (auto simp: journal_inv_def retained_ok_def)
  show ?thesis
  proof (cases "jf_journal f")
    case None
    with held valid show ?thesis by (simp add: list_observations_def journal_holds_def is_file_node_def Let_def split: option.split)
  next
    case (Some n)
    with held have j: "jf_journal f = Some (JFile (journal_text C (drop k log)))" by (simp add: journal_holds_def)
    from read_journal_retained [OF log j] prep valid show ?thesis
      by (simp add: list_observations_def is_file_node_def j Let_def split: option.split)
  qed
qed

lemma get_retained:
  assumes inv: "journal_inv C sid f cache log k" and prep: "prepare io sid = Inr ()"
  shows "get_observation C io sid i f = Inr (find (\<lambda>ob. ob_id ob = i) (drop k log))"
proof -
  have "list_all (\<lambda>ob. ob_session_id ob = sid) (drop k log)"
    using log_ok_drop(3) inv by (auto simp: journal_inv_def list_all_iff)
  then have "filter (filter_matches \<lparr>lf_kind = None, lf_task_id = None, lf_after_revision = None, lf_limit = None\<rparr> sid)
      (drop k log) = drop k log"
    by (auto simp: filter_id_conv filter_matches_def list_all_iff)
  then show ?thesis by (simp add: get_observation_def list_observations_retained [OF inv prep])
qed

lemma find_by_id: "ob \<in> set obs \<Longrightarrow> distinct (map ob_id obs) \<Longrightarrow> find (\<lambda>x. ob_id x = ob_id ob) obs = Some ob"
  by (induction obs) auto

section \<open>Properties\<close>

text \<open>C26. The journal implements an append-only log of which it retains the newest part. After any
  sequence of untorn appends, restarts and noted failures, everything appended carries the revisions
  one, two, three and so on; the journal is at most 8 MiB and lists exactly the records from some
  point on, without a hole or a corrupt line, never losing the last one; no dedupe key occurs twice
  among them; and the base revision of the sidecar claims no more than was really dropped.\<close>

theorem journal_refines_log:
  assumes "journal_run C sid f cache log" and "prepare io sid = Inr ()"
  shows "map ob_revision log = [1..<Suc (length log)] \<and> length (journal_bytes f) \<le> MAX_JOURNAL_BYTES \<and>
    (\<exists>k. (log = [] \<or> k < length log) \<and> distinct (map ob_dedupe_key (drop k log)) \<and>
       jm_base_revision (read_meta f) \<le> k \<and>
       (\<forall>flt. list_observations C io sid flt f =
          (let matching = filter (filter_matches flt sid) (drop k log)
           in Inr (case lf_limit flt of None \<Rightarrow> matching
                   | Some limit \<Rightarrow> drop (length matching - limit) matching, 0))))"
proof -
  obtain k where inv: "journal_inv C sid f cache log k" using journal_run_inv [OF assms(1)] by blast
  have "length (journal_bytes f) \<le> MAX_JOURNAL_BYTES"
    using inv by (auto simp: journal_inv_def retained_ok_def journal_holds_def journal_bytes_def)
  moreover have "map ob_revision log = [1..<Suc (length log)]" using inv by (simp add: journal_inv_def log_ok_def)
  moreover have "(log = [] \<or> k < length log) \<and> distinct (map ob_dedupe_key (drop k log)) \<and> jm_base_revision (read_meta f) \<le> k"
    using inv by (auto simp: journal_inv_def retained_ok_def split: if_splits)
  ultimately show ?thesis using list_observations_retained [OF inv assms(2)] by blast
qed

text \<open>An append is recorded exactly once. In a journal that was never torn, an append that reports
  a new record gives it the next revision, and the record can be fetched by its identifier; one that
  reports a duplicate changes nothing and names the revision of the retained record with the same
  key; one that fails adds no record.\<close>

theorem append_exact:
  assumes run: "journal_run C sid f cache log" and io: "untorn C sid io ob log"
    and app: "append_observation C io ob f cache = (res, f', cache')" and prep: "prepare io' sid = Inr ()"
  shows "case res of
      Inr (Appended r) \<Rightarrow> r = Suc (length log) \<and>
        get_observation C io' sid (ob_id ob) f' = Inr (Some (ob\<lparr>ob_revision := r\<rparr>))
    | Inr (Duplicate r) \<Rightarrow> f' = f \<and> (\<exists>ob'. get_observation C io' sid (ob_id ob') f = Inr (Some ob') \<and>
        ob_dedupe_key ob' = ob_dedupe_key ob \<and> ob_revision ob' = r)
    | Inl _ \<Rightarrow> get_observation C io' sid (ob_id ob) f' = Inr None"
proof -
  obtain k where inv: "journal_inv C sid f cache log k" using journal_run_inv [OF run] by blast
  from append_inv [OF inv io app] show ?thesis
  proof
    assume "append_ends C sid log k ob res f' cache'"
    then obtain k' where k': "(\<exists>e. res = Inl e \<and> journal_inv C sid f' cache' log k') \<or>
        (res = Inr (Appended (Suc (length log))) \<and>
         journal_inv C sid f' cache' (log @ [ob\<lparr>ob_revision := Suc (length log)\<rparr>]) k')"
      by (auto simp: append_ends_def)
    then show ?thesis
    proof
      assume "\<exists>e. res = Inl e \<and> journal_inv C sid f' cache' log k'"
      then obtain e where e: "res = Inl e" "journal_inv C sid f' cache' log k'" by blast
      have "ob_id ob \<notin> ob_id ` set (drop k' log)"
        using io image_mono [OF set_drop_subset [of k' log], of ob_id] by (auto simp: untorn_def)
      then have "find (\<lambda>x. ob_id x = ob_id ob) (drop k' log) = None"
        by (metis (mono_tags, lifting) find_None_iff image_eqI)
      with e get_retained [OF e(2) prep] show ?thesis by simp
    next
      let ?ob = "ob\<lparr>ob_revision := Suc (length log)\<rparr>"
      assume a: "res = Inr (Appended (Suc (length log))) \<and> journal_inv C sid f' cache' (log @ [?ob]) k'"
      then have "k' \<le> length log" by (auto simp: journal_inv_def retained_ok_def split: if_splits)
      then have mem: "?ob \<in> set (drop k' (log @ [?ob]))" by simp
      have "distinct (map ob_id (drop k' (log @ [?ob])))" using a log_ok_drop(2) [of C sid "log @ [?ob]" k'] unfolding journal_inv_def by blast
      from find_by_id [OF mem this] have "find (\<lambda>x. ob_id x = ob_id ob) (drop k' (log @ [?ob])) = Some ?ob" by simp
      with a get_retained [OF conjunct2 [OF a] prep] show ?thesis by simp
    qed
  next
    assume "\<exists>r. res = Inr (Duplicate r) \<and> f' = f \<and> journal_inv C sid f' cache' log k \<and>
       (\<exists>ob' \<in> set (drop k log). ob_dedupe_key ob' = ob_dedupe_key ob \<and> ob_revision ob' = r)"
    then obtain r ob' where d: "res = Inr (Duplicate r)" "f' = f" "ob' \<in> set (drop k log)"
      "ob_dedupe_key ob' = ob_dedupe_key ob" "ob_revision ob' = r" by blast
    have "distinct (map ob_id (drop k log))" using inv log_ok_drop(2) by (auto simp: journal_inv_def)
    from find_by_id [OF d(3) this] get_retained [OF inv prep] d show ?thesis by auto
  qed
qed

section \<open>Torn lines\<close>

lemma refresh_default:
  assumes "jf_journal f = Some (JFile s)" "s \<noteq> []" "jc_file_len cache \<noteq> length s"
  shows "refresh_cache_locked C f cache =
    and_then (read_journal C (Some (JFile s))) (\<lambda>(obs, _).
      Inr (length s, \<lparr>jc_file_len = length s,
        jc_revision = max (if obs = [] then jm_base_revision (read_meta f) else ob_revision (last obs))
          (jm_base_revision (read_meta f)),
        jc_dedupe = dedupe_map obs\<rparr>))"
  using assms by (auto simp: refresh_cache_locked_def journal_len_def Let_def)

text \<open>C32. A record that is appended behind a torn line is lost. If the journal ends in a line that was
  only partly written, a process that starts afterwards appends its next record to that line: it
  reports the record as appended and refuses it as a duplicate from then on, but no reader ever
  finds it.\<close>

theorem torn_line_swallows_record:
  assumes obs: "\<forall>ob \<in> set obs. line_ok C ob \<and> ob_schema_version ob = OBSERVATION_SCHEMA_VERSION"
      "distinct (map ob_id obs)" "obs \<noteq> []"
    and revision: "jm_base_revision (read_meta f) \<le> ob_revision (last obs)" "r = Suc (ob_revision (last obs))" "r \<le> u64_max"
    and journal: "jf_journal f = Some (JFile (journal_text C obs @ torn))"
    and torn: "torn \<noteq> []" "CHR 0x0A \<notin> set torn" "utf8_valid torn" "\<not> trim_is_empty (strip_cr torn)"
      "co_parse C (strip_cr torn) = None"
    and glued: "line_ok C (ob\<lparr>ob_revision := r\<rparr>)" "co_parse C (torn @ co_text C (ob\<lparr>ob_revision := r\<rparr>)) = None"
      "\<not> trim_is_empty (torn @ co_text C (ob\<lparr>ob_revision := r\<rparr>))"
      "length (journal_text C obs @ torn @ line_of C (ob\<lparr>ob_revision := r\<rparr>)) \<le> MAX_JOURNAL_BYTES"
    and new: "ob_dedupe_key ob \<notin> ob_dedupe_key ` set obs"
    and io: "prepare io (ob_session_id ob) = Inr ()" "io_append io = Whole"
    and run: "append_observation C io ob f default_cache = (res, f', cache')"
  shows "res = Inr (Appended r) \<and> read_journal C (jf_journal f') = Inr (obs, 1) \<and>
    append_observation C io ob f' cache' = (Inr (Duplicate r), f', cache')"
proof -
  let ?s = "journal_text C obs @ torn" and ?ob = "ob\<lparr>ob_revision := r\<rparr>"
  have torn_lines: "str_lines torn = [strip_cr torn]" using torn by (simp add: str_lines_def split_newline_tail)
  have read: "read_journal C (Some (JFile ?s)) = Inr (obs, 1)"
    using read_journal_tail [OF obs(1,2) torn(3)] torn(4,5) by (simp add: torn_lines)
  obtain cache1 where ref: "refresh_cache_locked C f default_cache = Inr (length ?s, cache1)"
    and c1: "jc_dedupe cache1 = dedupe_map obs" "jc_revision cache1 = ob_revision (last obs)"
    using refresh_default [OF journal, of default_cache C] torn(1) read obs(3) revision(1)
    by (auto simp: default_cache_def)
  have rev: "max (sat_add (jc_revision cache1) 1) (jm_base_revision (read_meta f)) = r"
    using c1(2) revision by (simp add: sat_add_def max_def)
  have none: "dedupe_map obs (ob_dedupe_key ob) = None" using new by (simp add: dedupe_map_None)
  have fits: "\<not> MAX_JOURNAL_BYTES < sat_add (length ?s) (length (line_of C ?ob))"
    using glued(4) by (simp add: sat_add_def)
  have "append_observation C io ob f default_cache = write_line io (line_of C ?ob) ?ob f cache1"
    using io ref c1(1) none fits rev by (simp add: append_observation_def Let_def)
  then have out: "res = Inr (Appended r)" "jf_journal f' = Some (JFile (?s @ line_of C ?ob))"
      "cache' = \<lparr>jc_file_len = length (?s @ line_of C ?ob), jc_revision = r,
        jc_dedupe = (jc_dedupe cache1)(ob_dedupe_key ob \<mapsto> r)\<rparr>"
    using run io(2) journal by (auto simp: write_line_def journal_bytes_def)
  have "str_lines (torn @ line_of C ?ob) = [torn @ co_text C ?ob]"
    using glued(1) torn(2) split_newline_line [of "torn @ co_text C ?ob" "[]"]
    by (simp add: str_lines_def line_of_def line_ok_def strip_cr_def)
  moreover have "utf8_valid (torn @ line_of C ?ob)"
    using torn(3) glued(1) by (simp add: utf8_valid_def line_ok_def line_of_def utf8_valid_append)
  ultimately have "read_journal C (jf_journal f') = Inr (obs, 1)"
    using read_journal_tail [OF obs(1,2), of "torn @ line_of C ?ob"] glued(2,3) by (simp add: out(2))
  moreover have "append_observation C io ob f' cache' = (Inr (Duplicate r), f', cache')"
    using io out(2,3) by (simp add: append_observation_def refresh_cache_locked_def journal_len_def)
  ultimately show ?thesis using out(1) by blast
qed

text \<open>A line torn inside a character stops the journal. Such a journal is not UTF-8, and then
  reading fails as a whole: no append succeeds any more, nor does any listing, and nothing an append
  does repairs it.\<close>

theorem torn_character_blocks_journal:
  assumes obs: "\<forall>ob \<in> set obs. line_ok C ob" and journal: "jf_journal f = Some (JFile (journal_text C obs))"
    and torn: "io_append io = Torn n" "\<not> utf8_valid (take n line)"
    and run: "write_line io line ob f cache = (res, f1, cache1)"
    and stale: "jc_file_len cache' \<noteq> length (journal_bytes f1)"
    and prep: "prepare io' sid = Inr ()"
  shows "(\<exists>e. append_observation C io' ob' f1 cache' = (Inl e, f1, cache')) \<and>
    (\<exists>e. list_observations C io' sid flt f1 = Inl e)"
proof -
  let ?s = "journal_text C obs @ take n line"
  have f1: "jf_journal f1 = Some (JFile ?s)"
    using run torn(1) journal by (auto simp: write_line_def journal_bytes_def)
  have bad: "\<not> utf8_valid ?s" using torn(2) utf8_valid_journal [OF obs] by simp
  have "utf8_valid []" by (simp add: utf8_valid_def)
  with bad have "?s \<noteq> []" by metis
  have read: "read_journal C (Some (JFile ?s)) = Inl (Message ''cannot read observation journal'')"
    using bad by (simp add: read_journal_def)
  have "refresh_cache_locked C f1 cache' = Inl (Message ''cannot read observation journal'')"
    using refresh_default [OF f1 \<open>?s \<noteq> []\<close>] stale read f1 by (simp add: journal_bytes_def)
  moreover have "validate_session_id sid = Inr ()" using prep by (auto simp: prepare_def)
  ultimately show ?thesis
    using read f1 prep
    by (cases "prepare io' (ob_session_id ob')")
      (simp_all add: append_observation_def list_observations_def is_file_node_def)
qed

section \<open>Witnesses\<close>

text \<open>A text format for the records of one session that differ in identifier and revision; every
  line starts with a character of two bytes.\<close>

definition sample_record :: "nat \<Rightarrow> observation" where
  "sample_record i = base_observation sample_observation_env (sample_session []) (mcp_actor True) Codex ''status''
     ''codex_status'' Verification (put_nat i) (of_nat i, 100)"

definition sample_lead :: string where
  "sample_lead = [CHR 0xC3, CHR 0xA9]"

definition sample_codec :: journal_codec where
  "sample_codec =
     \<lparr>co_text = (\<lambda>ob. sample_lead @ put_nat (unat (ob_id ob)) @ put_nat (ob_revision ob)),
      co_parse = (\<lambda>s. if take 2 s \<noteq> sample_lead then None else
        case and_read take_nat (\<lambda>i. and_read take_nat (\<lambda>r. read_value (i, r))) (drop 2 s) of
          Some ((i, r), []) \<Rightarrow> Some ((sample_record i)\<lparr>ob_revision := r\<rparr>)
        | _ \<Rightarrow> None)\<rparr>"

definition sample_io :: "line_write \<Rightarrow> journal_io" where
  "sample_io w = \<lparr>io_prepare = Inr (), io_rewrite = Inr (), io_write_meta = Inr (), io_append = w\<rparr>"

lemma sample_record_fields [simp]:
  "ob_session_id (sample_record i) = se_id (sample_session [])"
  "ob_schema_version (sample_record i) = OBSERVATION_SCHEMA_VERSION"
  "ob_dedupe_key (sample_record i) = put_nat i" "ob_id (sample_record i) = of_nat i"
  by (simp_all add: sample_record_def base_observation_def)

lemma sample_text [simp]:
  "co_text sample_codec ((sample_record i)\<lparr>ob_revision := r\<rparr>) = sample_lead @ put_nat (unat (of_nat i :: uuid)) @ put_nat r"
  by (simp add: sample_codec_def)

lemma utf8_valid_ones: "utf8_bytes_valid (map of_char (put_nat n) @ bs) = utf8_bytes_valid bs"
  by (induction n) (simp_all add: put_nat_def)

lemma put_nat_inj: "put_nat a = put_nat b \<longleftrightarrow> a = b"
  by (metis put_nat_length Suc_inject)

lemma sample_not_blank: "\<not> trim_is_empty (sample_lead @ s)"
proof -
  have "str_chars (sample_lead @ s) = 233 # str_chars s" by (simp add: str_chars_def sample_lead_def)
  then show ?thesis by (simp add: trim_is_empty_def trim_chars_def is_whitespace_def dropWhile_eq_Nil_conv)
qed

lemma sample_line_ok:
  assumes "i \<le> 100" "r \<le> 100"
  shows "line_ok sample_codec ((sample_record i)\<lparr>ob_revision := r\<rparr>)"
proof -
  have i: "unat (of_nat i :: uuid) = i" using assms(1) by (simp add: unat_of_nat)
  let ?t = "sample_lead @ put_nat i @ put_nat r"
  have "co_parse sample_codec ?t = Some ((sample_record i)\<lparr>ob_revision := r\<rparr>)"
    using take_put_nat [of r "[]"]
    by (simp add: sample_codec_def sample_lead_def read_value_def and_read_def)
  moreover have "CHR 0x0A \<notin> set ?t" "?t \<noteq> []" "last ?t \<noteq> CHR 0x0D"
    by (auto simp: sample_lead_def put_nat_def)
  moreover have "\<not> trim_is_empty ?t" by (rule sample_not_blank)
  moreover have "utf8_valid ?t"
    using utf8_valid_ones [of r "[]"]
    by (simp add: utf8_valid_def sample_lead_def cont_byte_def utf8_valid_ones)
  ultimately show ?thesis
    using assms by (simp add: line_ok_def line_of_def i sample_lead_def target_bytes)
qed

lemma sample_journal_prepare: "prepare (sample_io w) (se_id (sample_session [])) = Inr ()"
  by (simp add: prepare_def sample_io_def sample_session_def validate_session_id_def label_byte_def
      is_ascii_alphanumeric_def Let_def)


abbreviation no_files :: journal_files where
  "no_files \<equiv> \<lparr>jf_journal = None, jf_meta = None\<rparr>"

abbreviation first_record :: observation where
  "first_record \<equiv> (sample_record 1)\<lparr>ob_revision := 1\<rparr>"

lemma sample_untorn: "untorn sample_codec (se_id (sample_session [])) (sample_io Whole) (sample_record 1) []"
  using sample_line_ok [of 1 1] by (simp add: untorn_def sample_io_def u64_max_def)

lemma sample_append:
  "append_observation sample_codec (sample_io Whole) (sample_record 1) no_files default_cache =
     (Inr (Appended 1), no_files\<lparr>jf_journal := Some (JFile (line_of sample_codec first_record))\<rparr>,
      \<lparr>jc_file_len = length (line_of sample_codec first_record), jc_revision = 1,
       jc_dedupe = [put_nat 1 \<mapsto> 1]\<rparr>)"
  using sample_journal_prepare [of Whole]
  by (simp add: append_observation_def refresh_cache_locked_def journal_len_def default_cache_def read_meta_def
      default_meta_def sat_add_def u64_max_def Let_def write_line_def journal_bytes_def sample_io_def
      line_of_def target_bytes sample_lead_def)

lemma sample_run:
  "journal_run sample_codec (se_id (sample_session []))
     (no_files\<lparr>jf_journal := Some (JFile (line_of sample_codec first_record))\<rparr>)
     \<lparr>jc_file_len = length (line_of sample_codec first_record), jc_revision = 1, jc_dedupe = [put_nat 1 \<mapsto> 1]\<rparr>
     [first_record]"
  using journal_run.step [OF journal_run.fresh append [OF sample_untorn sample_append]] by simp

theorem journal_refines_log_witness:
  "\<exists>f cache. journal_run sample_codec (se_id (sample_session [])) f cache [first_record] \<and>
     jm_base_revision (read_meta f) = 0 \<and> length (journal_bytes f) \<le> MAX_JOURNAL_BYTES"
proof -
  have "jm_base_revision (read_meta (no_files\<lparr>jf_journal := Some (JFile (line_of sample_codec first_record))\<rparr>)) = 0"
    by (simp add: read_meta_def default_meta_def)
  with sample_run journal_refines_log [OF sample_run sample_journal_prepare [of Whole]] show ?thesis by blast
qed

theorem append_exact_witness:
  "\<exists>f' cache'. append_observation sample_codec (sample_io Whole) (sample_record 1) no_files default_cache =
       (Inr (Appended 1), f', cache') \<and>
     get_observation sample_codec (sample_io Whole) (se_id (sample_session [])) 1 f' = Inr (Some first_record)"
  using append_exact [OF journal_run.fresh sample_untorn sample_append sample_journal_prepare [of Whole]] sample_append by auto

theorem torn_line_swallows_record_witness:
  "\<exists>f'. read_journal sample_codec (jf_journal f') = Inr ([first_record], 1) \<and>
     (\<exists>f cache'. append_observation sample_codec (sample_io Whole) (sample_record 2) f default_cache =
       (Inr (Appended 2), f', cache'))"
proof -
  let ?torn = "sample_lead @ ''1''" and ?ob = "(sample_record 2)\<lparr>ob_revision := 2\<rparr>"
  let ?f = "no_files\<lparr>jf_journal := Some (JFile (journal_text sample_codec [first_record] @ ?torn))\<rparr>"
  obtain res f' cache' where run: "append_observation sample_codec (sample_io Whole) (sample_record 2) ?f default_cache =
      (res, f', cache')" by (metis prod_cases3)
  have ok: "line_ok sample_codec first_record" "line_ok sample_codec ?ob"
    using sample_line_ok [of 1 1] sample_line_ok [of 2 2] by simp_all
  have two: "put_nat 2 = ''110''" by (simp add: put_nat_def numeral_2_eq_2)
  have text2: "co_text sample_codec ?ob = sample_lead @ ''110110''" by (simp add: unat_of_nat two)
  have blank: "\<not> trim_is_empty (strip_cr ?torn)" "\<not> trim_is_empty (?torn @ co_text sample_codec ?ob)"
    using sample_not_blank by (simp_all add: text2 strip_cr_def)
  have parse: "co_parse sample_codec (strip_cr ?torn) = None" "co_parse sample_codec (?torn @ co_text sample_codec ?ob) = None"
    unfolding text2
    by (simp_all add: sample_codec_def strip_cr_def sample_lead_def and_read_def read_value_def)
  have torn: "?torn \<noteq> []" "CHR 0x0A \<notin> set ?torn" "utf8_valid ?torn"
    by (simp_all add: sample_lead_def utf8_valid_def cont_byte_def)
  have "length (journal_text sample_codec [first_record] @ ?torn @ line_of sample_codec ?ob) \<le> MAX_JOURNAL_BYTES"
    by (simp add: text2 line_of_def target_bytes sample_lead_def)
  then have "res = Inr (Appended 2) \<and> read_journal sample_codec (jf_journal f') = Inr ([first_record], 1)"
    using torn_line_swallows_record [OF _ _ _ _ _ _ _ torn blank(1) parse(1) ok(2) parse(2) blank(2) _ _ _ _ run,
        of "[first_record]"] ok sample_journal_prepare [of Whole]
    by (simp add: read_meta_def default_meta_def u64_max_def sample_io_def put_nat_inj)
  with run show ?thesis by blast
qed

theorem torn_character_blocks_journal_witness:
  "\<exists>f1. (\<exists>res cache1. write_line (sample_io (Torn 1)) (line_of sample_codec first_record) first_record no_files
        default_cache = (res, f1, cache1)) \<and>
     (\<exists>e. append_observation sample_codec (sample_io Whole) (sample_record 2) f1 default_cache = (Inl e, f1, default_cache))"
proof -
  let ?f = "no_files\<lparr>jf_journal := Some (JFile [])\<rparr>"
  let ?f1 = "no_files\<lparr>jf_journal := Some (JFile [CHR 0xC3])\<rparr>"
  have w: "write_line (sample_io (Torn 1)) (line_of sample_codec first_record) first_record f default_cache =
      (Inl Malformed, ?f1, default_cache)" if "f = ?f \<or> f = no_files" for f
    using that by (auto simp: write_line_def sample_io_def journal_bytes_def line_of_def sample_lead_def)
  have "\<not> utf8_valid (take 1 (line_of sample_codec first_record))"
    by (simp add: line_of_def sample_lead_def utf8_valid_def)
  then have "\<exists>e. append_observation sample_codec (sample_io Whole) (sample_record 2) ?f1 default_cache = (Inl e, ?f1, default_cache)"
    using torn_character_blocks_journal [of "[]" sample_codec ?f "sample_io (Torn 1)" 1 "line_of sample_codec first_record"
        first_record default_cache "Inl Malformed" ?f1 default_cache default_cache "sample_io Whole" "se_id (sample_session [])"
        "sample_record 2"] w [of ?f] sample_journal_prepare [of Whole]
    by (simp add: sample_io_def journal_bytes_def default_cache_def)
  with w [of no_files] show ?thesis by blast
qed

end
