(* ===== verification/Observation_Replicator.thy ===== *)
theory Observation_Replicator
  imports Observation_Journal
begin

text \<open>
  Replication of the retained journals to the hosted service,
  \<^verbatim>\<open>src/src/observation/replicator.rs\<close> and \<^verbatim>\<open>retained_sessions\<close> of \<^verbatim>\<open>observation/store.rs\<close>: the
  scan over the sessions, the bounded batch, the acknowledged cursor and the retry delay. The
  service is the answer to one request. A state file is its parsed content, absent when it cannot
  be read; writing one may fail before or after the new content is in place. An \<^verbatim>\<open>Instant\<close> is a
  number of nanoseconds.
\<close>

section \<open>Data\<close>

definition SYNC_SCHEMA_VERSION :: u32 where "SYNC_SCHEMA_VERSION = 1"

definition MAX_BATCH_RECORDS :: nat where "MAX_BATCH_RECORDS = 32"

definition MAX_BATCH_BYTES :: nat where "MAX_BATCH_BYTES = 512 * 1024"

definition INITIAL_RETRY_DELAY :: nat where "INITIAL_RETRY_DELAY = 2"

definition MAX_RETRY_DELAY :: nat where "MAX_RETRY_DELAY = 300"

definition nanos :: "nat \<Rightarrow> nat" where
  "nanos seconds = seconds * 1000000000"

record ack_state =
  ak_schema_version :: u32
  ak_host_id :: string
  ak_session_id :: string
  ak_acked_through_revision :: nat
  ak_delivered_through_revision :: nat
  ak_repository_key :: "string option"
  ak_reported_base_revision :: nat
  ak_reported_head_revision :: nat
  ak_reported_gap_count :: nat
  ak_reported_degraded :: bool
  ak_updated_at :: nat

record replicator_status =
  rs_schema_version :: u32
  rs_host_id :: string
  rs_last_session_id :: "string option"
  rs_last_attempt_at :: "nat option"
  rs_last_success_at :: "nat option"
  rs_last_error_code :: "string option"
  rs_consecutive_failures :: nat
  rs_retry_after_seconds :: nat
  rs_retry_at :: "nat option"
  rs_sessions_seen :: nat
  rs_records_acked :: nat
  rs_last_cloud_head_seq :: "nat option"
  rs_last_source_complete :: "bool option"

record sync_record =
  sr_source_revision :: nat
  sr_observation :: json

record sync_request =
  sq_schema_version :: u32
  sq_session_id :: string
  sq_repository_key :: "string option"
  sq_source_base_revision :: nat
  sq_source_head_revision :: nat
  sq_journal_degraded :: bool
  sq_gap_count :: nat
  sq_records :: "sync_record list"

record sync_response =
  sp_session_id :: string
  sp_acked_through_revision :: nat
  sp_committed_through_revision :: nat
  sp_cloud_head_seq :: nat
  sp_complete :: bool

datatype sync_failure =
    LocalStore | Authentication | RemoteRejected | Timeout | Transport | InvalidResponse | InvalidAck
  | IdentityConflict

definition failure_as_str :: "sync_failure \<Rightarrow> string" where
  "failure_as_str c =
     (case c of
        LocalStore \<Rightarrow> ''local_store''
      | Authentication \<Rightarrow> ''authentication''
      | RemoteRejected \<Rightarrow> ''remote_rejected''
      | Timeout \<Rightarrow> ''timeout''
      | Transport \<Rightarrow> ''transport''
      | InvalidResponse \<Rightarrow> ''invalid_response''
      | InvalidAck \<Rightarrow> ''invalid_ack''
      | IdentityConflict \<Rightarrow> ''identity_conflict'')"

datatype sync_outcome =
    NoWork
  | Busy
  | Backoff nat
  | Acked string nat nat

record pending_batch =
  pb_request :: sync_request
  pb_previous_ack :: ack_state
  pb_session_id :: string

text \<open>The process: its host, its setting and what it remembers between two calls.\<close>

record host_replicator =
  hr_host_id :: string
  hr_include_previews :: bool
  hr_retry_at :: "nat option"
  hr_retry_delay :: nat
  hr_status :: replicator_status

text \<open>The directory of the journals and the state files.\<close>

record sync_disk =
  sd_entries :: "(string \<times> journal_node) list"
  sd_metas :: "string \<rightharpoonup> journal_meta"
  sd_status :: "replicator_status option"
  sd_acks :: "string \<rightharpoonup> ack_state"

datatype state_write = Stored | StoredUnsure | Unstored

datatype sync_point = AtStart | AtAttempt | AtAck | AtSuccess | AtFailure

text \<open>What the surroundings answer during one call.\<close>

record sync_env =
  sy_codec :: journal_codec
  sy_display :: "uuid \<Rightarrow> string"
  sy_json_text :: "json \<Rightarrow> string"
  sy_sha256_hex :: "string \<Rightarrow> string"
  sy_lock :: "anyhow + bool"
  sy_directory :: "anyhow + unit"
  sy_journal_io :: "string \<Rightarrow> journal_io"
  sy_unix_time :: "sync_point \<Rightarrow> nat"
  sy_instant :: "sync_point \<Rightarrow> nat"
  sy_write_status :: "string + sync_point \<Rightarrow> state_write"
  sy_write_ack :: state_write
  sy_send :: "sync_request \<Rightarrow> sync_failure + sync_response"

section \<open>What leaves the host\<close>

definition view_digest_value :: "sync_env \<Rightarrow> string \<Rightarrow> json" where
  "view_digest_value E bytes =
     JObject [(''kind'', JString ''view_digest''), (''sha256'', JString (sy_sha256_hex E bytes)),
       (''total_bytes'', jnat (length bytes)), (''truncated'', JBool False)]"

definition cloud_content :: "sync_env \<Rightarrow> observation_content \<Rightarrow> bool \<Rightarrow> json" where
  "cloud_content E c include_previews =
     (case c of
        TextContent preview total_bytes sha256 truncated \<Rightarrow>
          JObject [(''kind'', JString ''text''),
            (''preview'', JString (if include_previews
               then concat (map push_char (take INSTRUCTION_PREVIEW_BYTES (str_chars preview))) else [])),
            (''total_bytes'', jnat total_bytes), (''sha256'', JString sha256), (''truncated'', JBool truncated)]
      | ViewContent view \<Rightarrow>
          if include_previews then JObject [(''kind'', JString ''view''), (''view'', view)]
          else view_digest_value E (sy_json_text E view)
      | ViewDigest sha256 total_bytes truncated \<Rightarrow>
          JObject [(''kind'', JString ''view_digest''), (''sha256'', JString sha256),
            (''total_bytes'', jnat total_bytes), (''truncated'', JBool truncated)]
      | ErrorContent preview \<Rightarrow>
          if include_previews then JObject [(''kind'', JString ''error''), (''preview'', JString preview)]
          else view_digest_value E preview
      | NoContent \<Rightarrow> JObject [(''kind'', JString ''none'')])"

definition object_remove :: "string \<Rightarrow> (string \<times> json) list \<Rightarrow> (string \<times> json) list" where
  "object_remove k fs = filter (\<lambda>(k', _). k' \<noteq> k) fs"

fun object_insert :: "string \<Rightarrow> json \<Rightarrow> (string \<times> json) list \<Rightarrow> (string \<times> json) list" where
  "object_insert k v [] = [(k, v)]"
| "object_insert k v ((k', v') # fs) = (if k' = k then (k, v) # fs else (k', v') # object_insert k v fs)"

definition cloud_observation :: "sync_env \<Rightarrow> observation \<Rightarrow> bool \<Rightarrow> json" where
  "cloud_observation E ob include_previews =
     (case observation_value (sy_display E) ob of
        JObject fs \<Rightarrow>
          JObject (object_insert ''content'' (cloud_content E (ob_content ob) include_previews)
            (object_remove ''repository_key'' (object_remove ''repository'' fs)))
      | v \<Rightarrow> v)"

definition sync_record_value :: "sync_record \<Rightarrow> json" where
  "sync_record_value r = JObject [(''source_revision'', jnat (sr_source_revision r)), (''observation'', sr_observation r)]"

section \<open>The batch\<close>

definition session_files :: "sync_disk \<Rightarrow> string \<Rightarrow> journal_files" where
  "session_files d sid =
     \<lparr>jf_journal = map_of (sd_entries d) (''obs-'' @ sid @ ''.jsonl''), jf_meta = sd_metas d sid\<rparr>"

definition strip_prefix :: "string \<Rightarrow> string \<Rightarrow> string option" where
  "strip_prefix pre s = (if take (length pre) s = pre then Some (drop (length pre) s) else None)"

definition entry_session :: "string \<times> journal_node \<Rightarrow> string option" where
  "entry_session entry =
     Option.bind (strip_prefix ''obs-'' (fst entry)) (\<lambda>s.
     Option.bind (strip_suffix ''.jsonl'' s) (\<lambda>sid.
     case (validate_session_id sid, snd entry) of
       (Inr _, JFile _) \<Rightarrow> Some sid
     | _ \<Rightarrow> None))"

definition retained_sessions :: "sync_env \<Rightarrow> sync_disk \<Rightarrow> anyhow + string list" where
  "retained_sessions E d =
     and_then (sy_directory E) (\<lambda>_. Inr (sort (List.map_filter entry_session (sd_entries d))))"

text \<open>The loop over the records of the snapshot, with the key and the bytes of those taken so far; the
  key is known exactly when a record was taken.\<close>

fun batch_records ::
  "sync_env \<Rightarrow> bool \<Rightarrow> string option option \<Rightarrow> nat \<Rightarrow> observation list \<Rightarrow> anyhow + (sync_record list \<times> string option option)" where
  "batch_records E previews key encoded [] = Inr ([], key)"
| "batch_records E previews key encoded (ob # obs) =
     (if key \<noteq> None \<and> key \<noteq> Some (ob_repository_key ob) then Inr ([], key)
      else
        let record = \<lparr>sr_source_revision = ob_revision ob, sr_observation = cloud_observation E ob previews\<rparr>;
            bytes = length (sy_json_text E (sync_record_value record))
        in if key \<noteq> None \<and> MAX_BATCH_BYTES < encoded + bytes then Inr ([], key)
           else ensure (bytes \<le> MAX_BATCH_BYTES)
                  (Message ''one observation exceeds the cloud sync batch byte limit'') (
                and_then (batch_records E previews (Some (ob_repository_key ob)) (encoded + bytes) obs) (\<lambda>(rs, key').
                  Inr (record # rs, key'))))"

definition fresh_ack :: "string \<Rightarrow> string \<Rightarrow> ack_state" where
  "fresh_ack host_id sid =
     \<lparr>ak_schema_version = SYNC_SCHEMA_VERSION, ak_host_id = host_id, ak_session_id = sid,
      ak_acked_through_revision = 0, ak_delivered_through_revision = 0, ak_repository_key = None,
      ak_reported_base_revision = 0, ak_reported_head_revision = 0, ak_reported_gap_count = 0,
      ak_reported_degraded = False, ak_updated_at = 0\<rparr>"

definition read_ack :: "string \<Rightarrow> sync_disk \<Rightarrow> string \<Rightarrow> ack_state" where
  "read_ack host_id d sid =
     (case sd_acks d sid of
        Some ack \<Rightarrow>
          if ak_schema_version ack \<noteq> SYNC_SCHEMA_VERSION \<or> ak_host_id ack \<noteq> host_id \<or> ak_session_id ack \<noteq> sid
          then fresh_ack host_id sid else ack
      | None \<Rightarrow> fresh_ack host_id sid)"

definition cursor :: "ack_state \<Rightarrow> nat" where
  "cursor ack = max (ak_acked_through_revision ack) (ak_delivered_through_revision ack)"

definition identity_changed :: anyhow where
  "identity_changed = Message ''observation source repository identity changed''"

text \<open>One session of the scan: an error, no work, or the batch to send.\<close>

definition session_batch :: "sync_env \<Rightarrow> host_replicator \<Rightarrow> sync_disk \<Rightarrow> string \<Rightarrow> anyhow + pending_batch option" where
  "session_batch E h d sid =
     (let ack = read_ack (hr_host_id h) d sid; scan_after = cursor ack
      in and_then (snapshot (sy_codec E) (sy_journal_io E sid) sid scan_after MAX_BATCH_RECORDS (session_files d sid)) (\<lambda>sn.
         ensure (scan_after \<le> rp_head_revision sn)
           (Message ''observation replication cursor is ahead of its journal'') (
         and_then (batch_records E (hr_include_previews h) None 0 (rp_records sn)) (\<lambda>(records, key).
         let gap_count = max (ak_reported_gap_count ack)
               (sat_add (sat_add (sat_add (rp_base_revision sn - scan_after) (rp_gap_count sn)) (rp_corrupt_lines sn))
                  (rp_write_failures sn));
             degraded = (ak_reported_degraded ack \<or> 0 < rp_write_failures sn \<or> 0 < rp_corrupt_lines sn \<or> 0 < gap_count);
             metadata_changed = (ak_reported_base_revision ack \<noteq> rp_base_revision sn
               \<or> ak_reported_head_revision ack \<noteq> rp_head_revision sn
               \<or> ak_reported_gap_count ack \<noteq> gap_count \<or> ak_reported_degraded ack \<noteq> degraded)
         in if records = [] \<and> \<not> metadata_changed then Inr None
            else
              let repository_key = (if records = [] then ak_repository_key ack
                    else case key of None \<Rightarrow> None | Some k \<Rightarrow> k)
              in ensure (records = [] \<or> ak_repository_key ack = None \<or> ak_repository_key ack = repository_key)
                   identity_changed (
                 Inr (Some \<lparr>pb_request = \<lparr>sq_schema_version = SYNC_SCHEMA_VERSION, sq_session_id = sid,
                     sq_repository_key = repository_key, sq_source_base_revision = rp_base_revision sn,
                     sq_source_head_revision = rp_head_revision sn, sq_journal_degraded = degraded,
                     sq_gap_count = gap_count, sq_records = records\<rparr>,
                   pb_previous_ack = ack, pb_session_id = sid\<rparr>))))))"

section \<open>The scan\<close>

definition save_status :: "sync_env \<Rightarrow> string + sync_point \<Rightarrow> host_replicator \<Rightarrow> sync_disk \<Rightarrow> bool \<times> sync_disk" where
  "save_status E p h d =
     (case sy_write_status E p of
        Stored \<Rightarrow> (True, d\<lparr>sd_status := Some (hr_status h)\<rparr>)
      | StoredUnsure \<Rightarrow> (False, d\<lparr>sd_status := Some (hr_status h)\<rparr>)
      | Unstored \<Rightarrow> (False, d))"

fun scan_sessions ::
  "sync_env \<Rightarrow> string list \<Rightarrow> host_replicator \<Rightarrow> sync_disk
     \<Rightarrow> (anyhow + pending_batch option) \<times> host_replicator \<times> sync_disk" where
  "scan_sessions E [] h d = (Inr None, h, d)"
| "scan_sessions E (sid # sids) h d =
     (let h1 = h\<lparr>hr_status := (hr_status h)\<lparr>rs_last_session_id := Some sid\<rparr>\<rparr>
      in case save_status E (Inl sid) h1 d of
           (False, d1) \<Rightarrow> (Inl Malformed, h1, d1)
         | (True, d1) \<Rightarrow>
             (case session_batch E h1 d1 sid of
                Inl e \<Rightarrow> (Inl e, h1, d1)
              | Inr (Some b) \<Rightarrow> (Inr (Some b), h1, d1)
              | Inr None \<Rightarrow> scan_sessions E sids h1 d1))"

text \<open>The sessions in the order of the scan: from the one behind the session scanned last, and round.\<close>

definition scan_start :: "string option \<Rightarrow> string list \<Rightarrow> nat" where
  "scan_start last_id sessions =
     (case last_id of
        None \<Rightarrow> 0
      | Some l \<Rightarrow> length (takeWhile (\<lambda>s. s \<le> l) sessions) mod length sessions)"

definition scan_order :: "string option \<Rightarrow> string list \<Rightarrow> string list" where
  "scan_order last_id sessions =
     map (\<lambda>offset. sessions ! ((scan_start last_id sessions + offset) mod length sessions)) [0..<length sessions]"

definition next_batch ::
  "sync_env \<Rightarrow> host_replicator \<Rightarrow> sync_disk \<Rightarrow> (anyhow + pending_batch option) \<times> host_replicator \<times> sync_disk" where
  "next_batch E h d =
     (case retained_sessions E d of
        Inl e \<Rightarrow> (Inl e, h, d)
      | Inr sessions \<Rightarrow>
          if sessions = [] then (Inr None, h, d)
          else scan_sessions E (scan_order (rs_last_session_id (hr_status h)) sessions)
                 (h\<lparr>hr_status := (hr_status h)\<lparr>rs_sessions_seen := length sessions\<rparr>\<rparr>) d)"

section \<open>One round\<close>

definition next_delay :: "nat \<Rightarrow> nat" where
  "next_delay retry_after_seconds =
     (if retry_after_seconds = 0 then INITIAL_RETRY_DELAY else min (retry_after_seconds * 2) MAX_RETRY_DELAY)"

definition record_failure ::
  "sync_env \<Rightarrow> sync_failure \<Rightarrow> host_replicator \<Rightarrow> sync_disk \<Rightarrow> (sync_failure + sync_outcome) \<times> host_replicator \<times> sync_disk" where
  "record_failure E code h d =
     (let st = hr_status h;
          st1 = st\<lparr>rs_last_error_code := Some (failure_as_str code),
                   rs_consecutive_failures := min (rs_consecutive_failures st + 1) (2 ^ 32 - 1),
                   rs_retry_after_seconds := hr_retry_delay h,
                   rs_retry_at := Some (sat_add (sy_unix_time E AtFailure) (hr_retry_delay h))\<rparr>;
          h1 = h\<lparr>hr_status := st1, hr_retry_at := Some (sy_instant E AtFailure + nanos (hr_retry_delay h)),
                 hr_retry_delay := min (hr_retry_delay h * 2) MAX_RETRY_DELAY\<rparr>
      in (Inl code, h1, snd (save_status E (Inr AtFailure) h1 d)))"

text \<open>The status of another process of the same host is taken over.\<close>

definition resume_at :: "sync_env \<Rightarrow> nat option \<Rightarrow> nat option" where
  "resume_at E retry_at =
     (case retry_at of
        Some t \<Rightarrow>
          if sy_unix_time E AtStart < t then Some (sy_instant E AtStart + nanos (t - sy_unix_time E AtStart)) else None
      | None \<Rightarrow> None)"

definition load_status :: "sync_env \<Rightarrow> host_replicator \<Rightarrow> sync_disk \<Rightarrow> host_replicator" where
  "load_status E h d =
     (case sd_status d of
        Some st \<Rightarrow>
          if rs_schema_version st = SYNC_SCHEMA_VERSION \<and> rs_host_id st = hr_host_id h
          then h\<lparr>hr_status := st, hr_retry_delay := next_delay (rs_retry_after_seconds st),
                 hr_retry_at := resume_at E (rs_retry_at st)\<rparr>
          else h
      | None \<Rightarrow> h)"

section \<open>The start of the process\<close>

definition MAX_HOST_ID_BYTES :: nat where "MAX_HOST_ID_BYTES = 128"

definition alnum_byte :: "char \<Rightarrow> bool" where
  "alnum_byte c = (let b = of_char c :: nat
     in 48 \<le> b \<and> b \<le> 57 \<or> 65 \<le> b \<and> b \<le> 90 \<or> 97 \<le> b \<and> b \<le> 122)"

definition host_identity_validate :: "string \<Rightarrow> anyhow + string" where
  "host_identity_validate s =
     ensure (s \<noteq> []) (Message ''host ID must not be empty'') (
     ensure (length s \<le> MAX_HOST_ID_BYTES) (Message ''host ID must be at most 128 bytes'') (
     ensure (list_all (\<lambda>c. alnum_byte c \<or> c \<in> set ''._-'') s)
       (Message (''host ID may contain only ASCII letters, digits, '' @ [CHR 0x27, CHR 0x2E, CHR 0x27] @ '', ''
          @ [CHR 0x27, CHR 0x5F, CHR 0x27] @ '', and '' @ [CHR 0x27, CHR 0x2D, CHR 0x27])) (
     ensure (list_ex alnum_byte s) (Message ''host ID must contain at least one letter or digit'') (
     Inr s))))"

definition default_status :: "string \<Rightarrow> replicator_status" where
  "default_status host_id =
     \<lparr>rs_schema_version = SYNC_SCHEMA_VERSION, rs_host_id = host_id, rs_last_session_id = None,
      rs_last_attempt_at = None, rs_last_success_at = None, rs_last_error_code = None,
      rs_consecutive_failures = 0, rs_retry_after_seconds = 0, rs_retry_at = None, rs_sessions_seen = 0,
      rs_records_acked = 0, rs_last_cloud_head_seq = None, rs_last_source_complete = None\<rparr>"

text \<open>\<open>opened\<close> is whether the directories could be made; \<open>previews\<close> the setting of the environment.\<close>

definition new_replicator ::
  "sync_env \<Rightarrow> anyhow + unit \<Rightarrow> bool \<Rightarrow> string \<Rightarrow> sync_disk \<Rightarrow> anyhow + host_replicator" where
  "new_replicator E opened previews host_id d =
     and_then (host_identity_validate host_id) (\<lambda>host_id.
     and_then opened (\<lambda>_.
     let st0 = (case sd_status d of Some st \<Rightarrow> st | None \<Rightarrow> default_status host_id);
         st = (if rs_schema_version st0 \<noteq> SYNC_SCHEMA_VERSION \<or> rs_host_id st0 \<noteq> host_id
               then default_status host_id else st0)
     in Inr \<lparr>hr_host_id = host_id, hr_include_previews = previews, hr_retry_at = resume_at E (rs_retry_at st),
             hr_retry_delay = next_delay (rs_retry_after_seconds st), hr_status = st\<rparr>))"

section \<open>Sending a batch\<close>

definition last_sent_revision :: "sync_request \<Rightarrow> nat" where
  "last_sent_revision rq =
     (if sq_records rq = [] then sq_source_head_revision rq else sr_source_revision (last (sq_records rq)))"

definition ack_acceptable :: "pending_batch \<Rightarrow> sync_response \<Rightarrow> bool" where
  "ack_acceptable b rp \<longleftrightarrow>
     sp_session_id rp = pb_session_id b
     \<and> ak_acked_through_revision (pb_previous_ack b) \<le> sp_acked_through_revision rp
     \<and> sp_acked_through_revision rp \<le> sq_source_head_revision (pb_request b)
     \<and> sp_committed_through_revision rp \<le> last_sent_revision (pb_request b)"

definition advance_ack :: "sync_env \<Rightarrow> pending_batch \<Rightarrow> sync_response \<Rightarrow> ack_state" where
  "advance_ack E b rp =
     (let ack = pb_previous_ack b; rq = pb_request b
      in ack\<lparr>ak_acked_through_revision := max (ak_acked_through_revision ack) (sp_acked_through_revision rp),
             ak_delivered_through_revision := max (max (ak_delivered_through_revision ack)
               (sp_committed_through_revision rp)) (sp_acked_through_revision rp),
             ak_repository_key := sq_repository_key rq, ak_reported_base_revision := sq_source_base_revision rq,
             ak_reported_head_revision := sq_source_head_revision rq, ak_reported_gap_count := sq_gap_count rq,
             ak_reported_degraded := sq_journal_degraded rq, ak_updated_at := sy_unix_time E AtAck\<rparr>)"

definition record_success ::
  "sync_env \<Rightarrow> pending_batch \<Rightarrow> sync_response \<Rightarrow> host_replicator \<Rightarrow> sync_disk \<Rightarrow> host_replicator \<times> sync_disk" where
  "record_success E b rp h d =
     (let st = hr_status h;
          through = max (sp_committed_through_revision rp) (sp_acked_through_revision rp);
          h1 = h\<lparr>hr_retry_at := None, hr_retry_delay := INITIAL_RETRY_DELAY,
                 hr_status := st\<lparr>rs_last_success_at := Some (sy_unix_time E AtSuccess), rs_last_error_code := None,
                   rs_consecutive_failures := 0, rs_retry_after_seconds := 0, rs_retry_at := None,
                   rs_records_acked := sat_add (rs_records_acked st)
                     (length (filter (\<lambda>r. sr_source_revision r \<le> through) (sq_records (pb_request b)))),
                   rs_last_cloud_head_seq := Some (sp_cloud_head_seq rp),
                   rs_last_source_complete := Some (sp_complete rp)\<rparr>\<rparr>
      in (h1, snd (save_status E (Inr AtSuccess) h1 d)))"

definition deliver ::
  "sync_env \<Rightarrow> pending_batch \<Rightarrow> host_replicator \<Rightarrow> sync_disk \<Rightarrow> (sync_failure + sync_outcome) \<times> host_replicator \<times> sync_disk" where
  "deliver E b h d =
     (case sy_send E (pb_request b) of
        Inl code \<Rightarrow> record_failure E code h d
      | Inr rp \<Rightarrow>
          if \<not> ack_acceptable b rp then record_failure E InvalidAck h d
          else
            let ack = advance_ack E b rp; d1 = d\<lparr>sd_acks := (sd_acks d)(pb_session_id b \<mapsto> ack)\<rparr>
            in case sy_write_ack E of
                 Unstored \<Rightarrow> record_failure E LocalStore h d
               | StoredUnsure \<Rightarrow> record_failure E LocalStore h d1
               | Stored \<Rightarrow>
                   (Inr (Acked (pb_session_id b) (length (sq_records (pb_request b))) (ak_delivered_through_revision ack)),
                    record_success E b rp h d1))"

definition sync_next ::
  "sync_env \<Rightarrow> host_replicator \<Rightarrow> sync_disk \<Rightarrow> (sync_failure + sync_outcome) \<times> host_replicator \<times> sync_disk" where
  "sync_next E h d =
     (case sy_lock E of
        Inl _ \<Rightarrow> record_failure E LocalStore h d
      | Inr False \<Rightarrow> (Inr Busy, h, d)
      | Inr True \<Rightarrow>
          let h1 = load_status E h d
          in case (case hr_retry_at h1 of Some t \<Rightarrow> if sy_instant E AtStart < t then Some t else None | None \<Rightarrow> None) of
               Some t \<Rightarrow> (Inr (Backoff ((t - sy_instant E AtStart) div 1000000000 + 1)), h1, d)
             | None \<Rightarrow>
                 (case next_batch E h1 d of
                    (Inl e, h2, d2) \<Rightarrow> record_failure E (if e = identity_changed then IdentityConflict else LocalStore) h2 d2
                  | (Inr None, h2, d2) \<Rightarrow> (Inr NoWork, h2, d2)
                  | (Inr (Some b), h2, d2) \<Rightarrow>
                      let h3 = h2\<lparr>hr_status := (hr_status h2)\<lparr>rs_last_attempt_at := Some (sy_unix_time E AtAttempt)\<rparr>\<rparr>
                      in deliver E b h3 (snd (save_status E (Inr AtAttempt) h3 d2))))"

section \<open>Objects\<close>

lemma map_of_object_remove: "map_of (object_remove k fs) j = (if j = k then None else map_of fs j)"
  by (induction fs) (auto simp: object_remove_def)

lemma map_of_object_insert: "map_of (object_insert k v fs) j = (if j = k then Some v else map_of fs j)"
  by (induction fs) auto

section \<open>The snapshot of a log\<close>

lemma sort_key_sorted: "sorted (map f xs) \<Longrightarrow> sort_key f xs = xs"
  by (induction xs) (simp_all add: insort_is_Cons)

lemma log_sorted: "log_ok C sid log \<Longrightarrow> sorted (map ob_revision (drop k log))"
  using log_ok_drop(4) by (metis sorted_upt)

lemma revision_bounds:
  assumes "log_ok C sid log" "ob \<in> set (drop k log)"
  shows "k < ob_revision ob" "ob_revision ob \<le> length log"
proof -
  have "ob_revision ob \<in> set (map ob_revision (drop k log))" using assms(2) by simp
  then have "ob_revision ob \<in> set [Suc k..<Suc (length log)]" using log_ok_drop(4) [OF assms(1)] by metis
  then show "k < ob_revision ob" "ob_revision ob \<le> length log" by auto
qed

lemma snapshot_retained:
  assumes inv: "journal_inv C sid f cache log k" and run: "snapshot C io sid after_revision limit f = Inr sn"
  shows "rp_base_revision sn \<le> k" "rp_head_revision sn = length log"
    and "rp_records sn = take limit (filter (\<lambda>ob. after_revision < ob_revision ob) (drop k log))"
proof -
  from inv have log: "log_ok C sid log" and held: "journal_holds C f (drop k log)"
    and k: "if log = [] then k = 0 else k < length log" and base: "jm_base_revision (read_meta f) \<le> k"
    by (auto simp: journal_inv_def retained_ok_def)
  have "filter (\<lambda>ob. ob_session_id ob = sid) (drop k log) = drop k log"
    using log_ok_drop(3) [OF log] by (simp add: filter_id_conv)
  then have own: "sort_key ob_revision (filter (\<lambda>ob. ob_session_id ob = sid) (drop k log)) = drop k log"
    using log_sorted [OF log] by (simp add: sort_key_sorted)
  have head: "(length log \<le> k \<longrightarrow> jm_base_revision (read_meta f) = length log) \<and>
      (\<not> length log \<le> k \<longrightarrow> ob_revision (last log) = length log)"
    using k base last_revision [OF log, of k] by (auto split: if_splits)
  have "sn = \<lparr>rp_base_revision = jm_base_revision (read_meta f), rp_head_revision = length log,
      rp_gap_count = rp_gap_count sn, rp_write_failures = jm_write_failures (read_meta f), rp_corrupt_lines = 0,
      rp_records = take limit (filter (\<lambda>ob. after_revision < ob_revision ob) (drop k log))\<rparr>"
  proof (cases "jf_journal f")
    case None
    with held have "drop k log = []" by (simp add: journal_holds_def)
    with None run head show ?thesis by (auto simp: snapshot_def Let_def)
  next
    case (Some n)
    with held have j: "jf_journal f = Some (JFile (journal_text C (drop k log)))" by (simp add: journal_holds_def)
    from read_journal_retained [OF log j] j
    have "read_journal C (Some (JFile (journal_text C (drop k log)))) = Inr (drop k log, 0)" by simp
    then show ?thesis using run own head by (auto simp: snapshot_def Let_def j)
  qed
  then show "rp_base_revision sn \<le> k" "rp_head_revision sn = length log"
    "rp_records sn = take limit (filter (\<lambda>ob. after_revision < ob_revision ob) (drop k log))"
    using base by (metis replication_snapshot.select_convs(1), metis replication_snapshot.select_convs(2),
      metis replication_snapshot.select_convs(6))
qed

section \<open>What a batch holds\<close>

definition record_of :: "sync_env \<Rightarrow> bool \<Rightarrow> observation \<Rightarrow> sync_record" where
  "record_of E previews ob =
     \<lparr>sr_source_revision = ob_revision ob, sr_observation = cloud_observation E ob previews\<rparr>"

definition batch_bytes :: "sync_env \<Rightarrow> sync_record list \<Rightarrow> nat" where
  "batch_bytes E rs = sum_list (map (\<lambda>r. length (sy_json_text E (sync_record_value r))) rs)"

lemma batch_records_Inr:
  assumes "batch_records E previews key encoded obs = Inr (rs, key')"
    and "key = None \<Longrightarrow> encoded = 0" and "encoded \<le> MAX_BATCH_BYTES"
  shows "\<exists>n. rs = map (record_of E previews) (take n obs) \<and>
    (\<forall>ob \<in> set (take n obs). key' = Some (ob_repository_key ob)) \<and>
    (key \<noteq> None \<longrightarrow> key' = key) \<and> (key = None \<and> obs \<noteq> [] \<longrightarrow> rs \<noteq> []) \<and>
    encoded + batch_bytes E rs \<le> MAX_BATCH_BYTES"
  using assms
proof (induction obs arbitrary: key encoded rs)
  case Nil
  then show ?case by (simp add: batch_bytes_def)
next
  case (Cons ob obs)
  let ?r = "record_of E previews ob"
  let ?b = "length (sy_json_text E (sync_record_value ?r))"
  show ?case
  proof (cases "key \<noteq> None \<and> (key \<noteq> Some (ob_repository_key ob) \<or> MAX_BATCH_BYTES < encoded + ?b)")
    case True
    with Cons.prems have "rs = []" "key' = key" by (auto simp: record_of_def Let_def split: if_splits)
    with True Cons.prems show ?thesis by (intro exI [of _ 0]) (simp add: batch_bytes_def)
  next
    case False
    with Cons.prems obtain rs' where rs: "rs = ?r # rs'" and small: "?b \<le> MAX_BATCH_BYTES"
      and rest: "batch_records E previews (Some (ob_repository_key ob)) (encoded + ?b) obs = Inr (rs', key')"
      by (auto simp: record_of_def Let_def split: if_splits)
    have fits: "encoded + ?b \<le> MAX_BATCH_BYTES" using False small Cons.prems(2) by (cases key) auto
    from Cons.IH [OF rest _ fits] obtain n
      where "rs' = map (record_of E previews) (take n obs)"
        "\<forall>ob \<in> set (take n obs). key' = Some (ob_repository_key ob)" "key' = Some (ob_repository_key ob)"
        "encoded + ?b + batch_bytes E rs' \<le> MAX_BATCH_BYTES"
      by auto
    with rs False show ?thesis
      by (intro exI [of _ "Suc n"]) (auto simp: batch_bytes_def)
  qed
qed

text \<open>A batch ends early only where the next record belongs to another repository or has no room.\<close>

lemma batch_records_stops:
  assumes "batch_records E previews key encoded obs = Inr (rs, key')" and "length rs < length obs"
  shows "key' \<noteq> Some (ob_repository_key (obs ! length rs)) \<or>
    MAX_BATCH_BYTES < encoded + batch_bytes E (rs @ [record_of E previews (obs ! length rs)])"
  using assms
proof (induction obs arbitrary: key encoded rs)
  case (Cons ob obs)
  let ?r = "record_of E previews ob"
  let ?b = "length (sy_json_text E (sync_record_value ?r))"
  show ?case
  proof (cases "key \<noteq> None \<and> (key \<noteq> Some (ob_repository_key ob) \<or> MAX_BATCH_BYTES < encoded + ?b)")
    case True
    with Cons.prems(1) have "rs = []" "key' = key" by (auto simp: record_of_def Let_def split: if_splits)
    with True show ?thesis by (auto simp: batch_bytes_def)
  next
    case False
    with Cons.prems(1) obtain rs' where rs: "rs = ?r # rs'"
      and rest: "batch_records E previews (Some (ob_repository_key ob)) (encoded + ?b) obs = Inr (rs', key')"
      by (auto simp: record_of_def Let_def split: if_splits)
    from Cons.IH [OF rest] Cons.prems(2) rs show ?thesis by (auto simp: batch_bytes_def add.assoc)
  qed
qed simp


section \<open>What a round changes\<close>

text \<open>Two states that agree on everything a batch is made from.\<close>

definition same_source :: "host_replicator \<times> sync_disk \<Rightarrow> host_replicator \<times> sync_disk \<Rightarrow> bool" where
  "same_source a b \<longleftrightarrow>
     hr_host_id (fst a) = hr_host_id (fst b) \<and> hr_include_previews (fst a) = hr_include_previews (fst b) \<and>
     sd_entries (snd a) = sd_entries (snd b) \<and> sd_metas (snd a) = sd_metas (snd b) \<and> sd_acks (snd a) = sd_acks (snd b)"

lemma same_source_refl [simp]: "same_source a a"
  by (simp add: same_source_def)

lemma same_source_trans: "same_source a b \<Longrightarrow> same_source b c \<Longrightarrow> same_source a c"
  by (simp add: same_source_def)

lemma session_batch_cong: "same_source (h, d) (h', d') \<Longrightarrow> session_batch E h d sid = session_batch E h' d' sid"
  by (simp add: session_batch_def same_source_def read_ack_def session_files_def)

lemma save_status_source [simp]:
  "sd_entries (snd (save_status E p h d)) = sd_entries d" "sd_metas (snd (save_status E p h d)) = sd_metas d"
  "sd_acks (snd (save_status E p h d)) = sd_acks d"
  by (simp_all add: save_status_def split: state_write.splits)

lemma session_batch_Some:
  assumes "session_batch E h d sid = Inr (Some b)"
  shows "pb_session_id b = sid" "pb_previous_ack b = read_ack (hr_host_id h) d sid"
    and "sq_session_id (pb_request b) = sid"
  using assms by (auto simp: session_batch_def Let_def split: if_splits)

lemma scan_sessions_effect:
  assumes "scan_sessions E sids h d = (res, h', d')"
  shows "same_source (h, d) (h', d')"
    and "res = Inr (Some b) \<Longrightarrow> pb_session_id b \<in> set sids \<and> session_batch E h d (pb_session_id b) = Inr (Some b)"
proof -
  have "same_source (h, d) (h', d') \<and>
    (res = Inr (Some b) \<longrightarrow> pb_session_id b \<in> set sids \<and> session_batch E h d (pb_session_id b) = Inr (Some b))"
    using assms
  proof (induction sids arbitrary: h d)
    case (Cons sid sids)
    define h1 where "h1 = h\<lparr>hr_status := (hr_status h)\<lparr>rs_last_session_id := Some sid\<rparr>\<rparr>"
    obtain ok d1 where save: "save_status E (Inl sid) h1 d = (ok, d1)" by fastforce
    have same: "same_source (h, d) (h1, d1)"
      using save save_status_source [of E "Inl sid" h1 d] by (simp add: same_source_def h1_def)
    have sb: "session_batch E h d sid' = session_batch E h1 d1 sid'" for sid'
      using same by (rule session_batch_cong)
    show ?case
    proof (cases "ok \<and> session_batch E h1 d1 sid = Inr None")
      case True
      then have "scan_sessions E sids h1 d1 = (res, h', d')"
        using Cons.prems save by (simp add: h1_def Let_def)
      from Cons.IH [OF this] same same_source_trans sb show ?thesis by (metis list.set_intros(2))
    next
      case False
      then have "h' = h1" "d' = d1" "res = Inr (Some b) \<Longrightarrow> session_batch E h1 d1 sid = Inr (Some b)"
        using Cons.prems save by (auto simp: h1_def [symmetric] Let_def split: bool.splits sum.splits option.splits)
      then show ?thesis using same session_batch_Some(1) sb by (metis list.set_intros(1))
    qed
  qed auto
  then show "same_source (h, d) (h', d')"
    "res = Inr (Some b) \<Longrightarrow> pb_session_id b \<in> set sids \<and> session_batch E h d (pb_session_id b) = Inr (Some b)" by blast+
qed

lemma record_failure_source:
  "record_failure E code h d = (res, h', d') \<Longrightarrow> res = Inl code \<and> same_source (h, d) (h', d')"
  by (auto simp: record_failure_def Let_def same_source_def)

lemma load_status_source: "same_source (h, d) (load_status E h d, d)"
  by (simp add: load_status_def same_source_def split: option.splits)

text \<open>The cursors on disk change only by an acceptable answer to the batch that was sent.\<close>

definition acks_after ::
  "sync_env \<Rightarrow> host_replicator \<Rightarrow> sync_disk \<Rightarrow> sync_disk \<Rightarrow> pending_batch \<Rightarrow> sync_response \<Rightarrow> bool" where
  "acks_after E h d d' b rp \<longleftrightarrow>
     session_batch E h d (pb_session_id b) = Inr (Some b) \<and> sy_send E (pb_request b) = Inr rp \<and> ack_acceptable b rp \<and>
     sd_acks d' = (sd_acks d)(pb_session_id b \<mapsto> advance_ack E b rp)"

lemma deliver_effect:
  assumes "deliver E b h d = (res, h', d')" and "session_batch E h d (pb_session_id b) = Inr (Some b)"
  shows "sd_entries d' = sd_entries d \<and> sd_metas d' = sd_metas d \<and> hr_host_id h' = hr_host_id h \<and>
    hr_include_previews h' = hr_include_previews h \<and> (sd_acks d' = sd_acks d \<or> (\<exists>rp. acks_after E h d d' b rp))"
proof -
  note failed = record_failure_source [unfolded same_source_def]
  show ?thesis
  proof (cases "sy_send E (pb_request b)")
    case (Inl code)
    with assms(1) show ?thesis using failed by (fastforce simp: deliver_def)
  next
    case (Inr rp)
    let ?d1 = "d\<lparr>sd_acks := (sd_acks d)(pb_session_id b \<mapsto> advance_ack E b rp)\<rparr>"
    show ?thesis
    proof (cases "ack_acceptable b rp")
      case False
      with Inr assms(1) show ?thesis using failed by (fastforce simp: deliver_def)
    next
      case True
      with Inr assms(1) consider "record_failure E LocalStore h d = (res, h', d')"
        | "record_failure E LocalStore h ?d1 = (res, h', d')" | "record_success E b rp h ?d1 = (h', d')"
        by (auto simp: deliver_def Let_def split: state_write.splits)
      then show ?thesis
      proof cases
        case 3
        then show ?thesis using Inr True assms(2) by (auto simp: record_success_def Let_def acks_after_def)
      qed (use Inr True assms(2) failed in \<open>fastforce simp: acks_after_def\<close>)+
    qed
  qed
qed

lemma next_batch_effect:
  assumes "next_batch E h d = (res, h', d')"
  shows "same_source (h, d) (h', d')"
    and "res = Inr (Some b) \<Longrightarrow> session_batch E h d (pb_session_id b) = Inr (Some b)"
proof -
  have "same_source (h, d) (h', d') \<and>
      (res = Inr (Some b) \<longrightarrow> session_batch E h d (pb_session_id b) = Inr (Some b))"
  proof (cases "retained_sessions E d")
    case (Inl e)
    with assms show ?thesis by (auto simp: next_batch_def)
  next
    case (Inr sessions)
    let ?h = "h\<lparr>hr_status := (hr_status h)\<lparr>rs_sessions_seen := length sessions\<rparr>\<rparr>"
    have seen: "same_source (h, d) (?h, d)" by (simp add: same_source_def)
    show ?thesis
    proof (cases "sessions = []")
      case True
      with assms Inr show ?thesis by (auto simp: next_batch_def)
    next
      case False
      then have scan: "scan_sessions E (scan_order (rs_last_session_id (hr_status h)) sessions) ?h d = (res, h', d')"
        using assms Inr by (simp add: next_batch_def)
      have "same_source (h, d) (h', d')" using seen scan_sessions_effect(1) [OF scan] by (rule same_source_trans)
      with scan_sessions_effect(2) [OF scan, of b] session_batch_cong [OF seen, of E] show ?thesis by simp
    qed
  qed
  then show "same_source (h, d) (h', d')"
    "res = Inr (Some b) \<Longrightarrow> session_batch E h d (pb_session_id b) = Inr (Some b)" by blast+
qed

text \<open>What a call leaves alone, and the one way in which it moves a cursor.\<close>

definition round_effect ::
  "sync_env \<Rightarrow> host_replicator \<Rightarrow> sync_disk \<Rightarrow> pending_batch option \<Rightarrow> host_replicator \<Rightarrow> sync_disk \<Rightarrow> bool" where
  "round_effect E h d sent h' d' \<longleftrightarrow>
     sd_entries d' = sd_entries d \<and> sd_metas d' = sd_metas d \<and> hr_host_id h' = hr_host_id h \<and>
     hr_include_previews h' = hr_include_previews h \<and>
     (sd_acks d' = sd_acks d \<or> (\<exists>b rp. sent = Some b \<and> acks_after E h d d' b rp))"

lemma round_effect_same: "same_source (h, d) (h', d') \<Longrightarrow> round_effect E h d sent h' d'"
  by (simp add: round_effect_def same_source_def)

lemma round_effect_from:
  assumes same: "same_source (h, d) (h1, d1)" and after: "round_effect E h1 d1 sent h' d'"
  shows "round_effect E h d sent h' d'"
proof -
  have "acks_after E h d d' b rp" if "acks_after E h1 d1 d' b rp" for b rp
    using that same session_batch_cong [OF same, of E] by (simp add: acks_after_def same_source_def)
  with assms show ?thesis by (auto simp: round_effect_def same_source_def)
qed

definition sent_batch :: "sync_env \<Rightarrow> host_replicator \<Rightarrow> sync_disk \<Rightarrow> pending_batch option" where
  "sent_batch E h d = (case fst (next_batch E (load_status E h d) d) of Inr r \<Rightarrow> r | Inl _ \<Rightarrow> None)"

lemma sync_next_effect:
  assumes "sync_next E h d = (res, h', d')"
  shows "round_effect E h d (sent_batch E h d) h' d'"
proof (cases "sy_lock E")
  case (Inl e)
  with assms show ?thesis using record_failure_source round_effect_same by (fastforce simp: sync_next_def)
next
  case (Inr got)
  define h1 where "h1 = load_status E h d"
  have h1: "same_source (h, d) (h1, d)" by (simp add: h1_def load_status_source)
  define wait where "wait =
    (case hr_retry_at h1 of Some t \<Rightarrow> if sy_instant E AtStart < t then Some t else None | None \<Rightarrow> None)"
  obtain r2 h2 d2 where nb: "next_batch E h1 d = (r2, h2, d2)" by (metis prod_cases3)
  have h2: "same_source (h, d) (h2, d2)" using h1 next_batch_effect(1) [OF nb] by (rule same_source_trans)
  show ?thesis
  proof (cases "got \<and> wait = None")
    case False
    then have "(h' = h \<or> h' = h1) \<and> d' = d"
      using assms Inr by (cases got; cases wait) (auto simp: sync_next_def h1_def [symmetric] wait_def [symmetric] Let_def)
    with h1 show ?thesis by (auto intro: round_effect_same)
  next
    case True
    then have step: "sync_next E h d = (case (r2, h2, d2) of
        (Inl e, h2, d2) \<Rightarrow> record_failure E (if e = identity_changed then IdentityConflict else LocalStore) h2 d2
      | (Inr None, h2, d2) \<Rightarrow> (Inr NoWork, h2, d2)
      | (Inr (Some b), h2, d2) \<Rightarrow>
          let h3 = h2\<lparr>hr_status := (hr_status h2)\<lparr>rs_last_attempt_at := Some (sy_unix_time E AtAttempt)\<rparr>\<rparr>
          in deliver E b h3 (snd (save_status E (Inr AtAttempt) h3 d2)))"
      using Inr by (simp add: sync_next_def h1_def [symmetric] wait_def [symmetric] nb)
    consider (err) e where "r2 = Inl e" | (none) "r2 = Inr None" | (some) b where "r2 = Inr (Some b)"
      by (metis sum.exhaust option.exhaust)
    then show ?thesis
    proof cases
      case (err e)
      with step assms have "record_failure E (if e = identity_changed then IdentityConflict else LocalStore) h2 d2 = (res, h', d')"
        by simp
      from record_failure_source [OF this] have "same_source (h2, d2) (h', d')" by simp
      with h2 show ?thesis using same_source_trans round_effect_same by blast
    next
      case none
      with step assms h2 show ?thesis by (auto intro: round_effect_same)
    next
      case (some b)
      define h3 where "h3 = h2\<lparr>hr_status := (hr_status h2)\<lparr>rs_last_attempt_at := Some (sy_unix_time E AtAttempt)\<rparr>\<rparr>"
      define d3 where "d3 = snd (save_status E (Inr AtAttempt) h3 d2)"
      have sent: "deliver E b h3 d3 = (res, h', d')"
        using some step assms by (simp add: h3_def [symmetric] d3_def [symmetric] Let_def)
      have "same_source (h2, d2) (h3, d3)" by (simp add: same_source_def h3_def d3_def)
      with h2 have h3: "same_source (h, d) (h3, d3)" by (rule same_source_trans)
      have "session_batch E h d (pb_session_id b) = Inr (Some b)"
        using next_batch_effect(2) [OF nb some] session_batch_cong [OF h1] by simp
      then have "session_batch E h3 d3 (pb_session_id b) = Inr (Some b)" using session_batch_cong [OF h3] by simp
      from deliver_effect [OF sent this] have "round_effect E h3 d3 (Some b) h' d'" by (auto simp: round_effect_def)
      moreover have "sent_batch E h d = Some b" using nb some by (simp add: sent_batch_def h1_def)
      ultimately show ?thesis using h3 round_effect_from by metis
    qed
  qed
qed


section \<open>Privacy\<close>

text \<open>What a record says about its content when previews stay on the host: of a text its size, digest
  and truncation, of a view or an error the size and digest.\<close>

datatype content_release = ReleasedText nat string bool | ReleasedDigest string nat bool | ReleasedNothing

definition content_release :: "sync_env \<Rightarrow> observation_content \<Rightarrow> content_release" where
  "content_release E c =
     (case c of
        TextContent _ total_bytes sha256 truncated \<Rightarrow> ReleasedText total_bytes sha256 truncated
      | ViewContent view \<Rightarrow> ReleasedDigest (sy_sha256_hex E (sy_json_text E view)) (length (sy_json_text E view)) False
      | ViewDigest sha256 total_bytes truncated \<Rightarrow> ReleasedDigest sha256 total_bytes truncated
      | ErrorContent preview \<Rightarrow> ReleasedDigest (sy_sha256_hex E preview) (length preview) False
      | NoContent \<Rightarrow> ReleasedNothing)"

lemma cloud_content_release:
  "content_release E c = content_release E c' \<Longrightarrow> cloud_content E c False = cloud_content E c' False"
  by (cases c; cases c') (auto simp: content_release_def cloud_content_def view_digest_value_def)

lemma object_remove_append [simp]: "object_remove k (fs @ gs) = object_remove k fs @ object_remove k gs"
  by (simp add: object_remove_def)

lemma object_remove_Cons [simp]: "object_remove k ((k', v) # fs) = (if k' = k then object_remove k fs else (k', v) # object_remove k fs)"
  by (simp add: object_remove_def)

lemma object_remove_Nil [simp]: "object_remove k [] = []"
  by (simp add: object_remove_def)

lemma object_remove_skip_none [simp]:
  "object_remove k (skip_none k' f v) = (if k' = k then [] else skip_none k' f v)"
  by (simp add: skip_none_def split: option.split)

lemma object_insert_append:
  "object_insert k v (fs @ gs) = (if map_of fs k = None then fs @ object_insert k v gs else object_insert k v fs @ gs)"
  by (induction fs) auto

lemma object_insert_skip_none [simp]:
  "k' \<noteq> k \<Longrightarrow> object_insert k v (skip_none k' f x @ gs) = skip_none k' f x @ object_insert k v gs"
  by (simp add: object_insert_append skip_none_def split: option.split)

text \<open>C30. What leaves the host. An uploaded record never carries the local repository label or the
  repository key, and every other field but the content is the recorded one. Unless previews were
  enabled, the record does not depend on the recorded text, view or error beyond their sizes,
  digests and truncation marks: two records that differ in nothing else are uploaded alike.\<close>

theorem cloud_observation_private:
  assumes "content_release E c = content_release E (ob_content ob)"
  shows "cloud_observation E (ob\<lparr>ob_repository := repo, ob_repository_key := key, ob_content := c\<rparr>) False =
      cloud_observation E ob False \<and>
    (\<exists>fs gs. observation_value (sy_display E) ob = JObject fs \<and> cloud_observation E ob previews = JObject gs \<and>
      map_of gs = (map_of fs)(''repository'' := None, ''repository_key'' := None,
        ''content'' \<mapsto> cloud_content E (ob_content ob) previews))"
proof
  show "cloud_observation E (ob\<lparr>ob_repository := repo, ob_repository_key := key, ob_content := c\<rparr>) False =
      cloud_observation E ob False"
    using cloud_content_release [OF assms] by (simp add: cloud_observation_def observation_value_def)
  obtain fs where fs: "observation_value (sy_display E) ob = JObject fs" by (simp add: observation_value_def)
  then have "cloud_observation E ob previews = JObject (object_insert ''content'' (cloud_content E (ob_content ob) previews)
      (object_remove ''repository_key'' (object_remove ''repository'' fs)))"
    by (simp add: cloud_observation_def)
  moreover have "map_of (object_insert ''content'' (cloud_content E (ob_content ob) previews)
      (object_remove ''repository_key'' (object_remove ''repository'' fs))) =
    (map_of fs)(''repository'' := None, ''repository_key'' := None, ''content'' \<mapsto> cloud_content E (ob_content ob) previews)"
    by (rule ext) (simp add: map_of_object_insert map_of_object_remove)
  ultimately show "\<exists>fs gs. observation_value (sy_display E) ob = JObject fs \<and> cloud_observation E ob previews = JObject gs \<and>
      map_of gs = (map_of fs)(''repository'' := None, ''repository_key'' := None,
        ''content'' \<mapsto> cloud_content E (ob_content ob) previews)"
    using fs by blast
qed

section \<open>The batch of a journal\<close>

lemma and_then_InrE:
  assumes "and_then m f = Inr y"
  obtains x where "m = Inr x" "f x = Inr y"
  using assms by (cases m) auto

lemma batch_records_start:
  assumes "batch_records E previews None 0 obs = Inr (rs, key)"
  shows "\<exists>n. rs = map (record_of E previews) (take n obs) \<and> (\<forall>ob \<in> set (take n obs). key = Some (ob_repository_key ob)) \<and>
    (obs \<noteq> [] \<longrightarrow> rs \<noteq> []) \<and> batch_bytes E rs \<le> MAX_BATCH_BYTES"
proof -
  from batch_records_Inr [OF assms] obtain n where "rs = map (record_of E previews) (take n obs) \<and>
    (\<forall>ob \<in> set (take n obs). key = Some (ob_repository_key ob)) \<and> (None \<noteq> None \<longrightarrow> key = None) \<and>
    (None = None \<and> obs \<noteq> [] \<longrightarrow> rs \<noteq> []) \<and> 0 + batch_bytes E rs \<le> MAX_BATCH_BYTES"
    by blast
  then show ?thesis unfolding add_0 by blast
qed

lemma session_batch_exact:
  assumes inv: "journal_inv (sy_codec E) sid (session_files d sid) cache log k"
    and batch: "session_batch E h d sid = Inr (Some b)"
  shows "\<exists>n \<le> MAX_BATCH_RECORDS.
    (let pending = filter (\<lambda>ob. cursor (read_ack (hr_host_id h) d sid) < ob_revision ob) (drop k log); rq = pb_request b
     in sq_records rq = map (record_of E (hr_include_previews h)) (take n pending) \<and>
        (\<forall>ob \<in> set (take n pending). ob_repository_key ob = sq_repository_key rq) \<and>
        (pending \<noteq> [] \<longrightarrow> sq_records rq \<noteq> []) \<and> batch_bytes E (sq_records rq) \<le> MAX_BATCH_BYTES \<and>
        sq_source_head_revision rq = length log \<and> sq_source_base_revision rq \<le> k \<and>
        cursor (read_ack (hr_host_id h) d sid) \<le> length log)"
proof -
  let ?ack = "read_ack (hr_host_id h) d sid"
  let ?pending = "filter (\<lambda>ob. cursor ?ack < ob_revision ob) (drop k log)"
  obtain sn where sn: "snapshot (sy_codec E) (sy_journal_io E sid) sid (cursor ?ack) MAX_BATCH_RECORDS (session_files d sid) = Inr sn"
    using batch by (auto simp: session_batch_def Let_def elim!: and_then_InrE)
  note snap = snapshot_retained [OF inv sn]
  obtain rs key where br: "batch_records E (hr_include_previews h) None 0 (take MAX_BATCH_RECORDS ?pending) = Inr (rs, key)"
    using batch sn snap(3) by (auto simp: session_batch_def Let_def split: if_splits elim!: and_then_InrE)
  from batch sn snap br have request: "sq_records (pb_request b) = rs"
    "sq_source_head_revision (pb_request b) = length log" "sq_source_base_revision (pb_request b) \<le> k"
    "rs \<noteq> [] \<Longrightarrow> sq_repository_key (pb_request b) = (case key of None \<Rightarrow> None | Some k \<Rightarrow> k)"
    "cursor ?ack \<le> length log"
    by (auto simp: session_batch_def Let_def split: if_splits)
  from batch_records_start [OF br] obtain n
    where n: "rs = map (record_of E (hr_include_previews h)) (take n (take MAX_BATCH_RECORDS ?pending))"
      "\<forall>ob \<in> set (take n (take MAX_BATCH_RECORDS ?pending)). key = Some (ob_repository_key ob)"
      "take MAX_BATCH_RECORDS ?pending \<noteq> [] \<longrightarrow> rs \<noteq> []" "batch_bytes E rs \<le> MAX_BATCH_BYTES"
    by blast
  have "ob_repository_key ob = sq_repository_key (pb_request b)"
    if "ob \<in> set (take n (take MAX_BATCH_RECORDS ?pending))" for ob
    using that n(1,2) request(4) by (cases "rs = []") auto
  moreover have "?pending \<noteq> [] \<longrightarrow> rs \<noteq> []" using n(3) by (auto simp: MAX_BATCH_RECORDS_def)
  ultimately show ?thesis using n(1,4) request(1,2,3,5)
    by (intro exI [of _ "min n MAX_BATCH_RECORDS"]) (simp add: Let_def)
qed

text \<open>Without a filter the journal lists everything it retains.\<close>

lemma list_observations_everything:
  assumes inv: "journal_inv C sid f cache log k" and prep: "prepare io sid = Inr ()"
  shows "list_observations C io sid \<lparr>lf_kind = None, lf_task_id = None, lf_after_revision = None, lf_limit = None\<rparr> f =
    Inr (drop k log, 0)"
proof -
  have "\<forall>ob \<in> set (drop k log). ob_session_id ob = sid"
    using inv by (auto simp: journal_inv_def log_ok_def list_all_iff dest: in_set_dropD)
  then show ?thesis using list_observations_retained [OF inv prep] by (simp add: filter_matches_def)
qed

lemma session_batch_stops:
  assumes inv: "journal_inv (sy_codec E) sid (session_files d sid) cache log k"
    and batch: "session_batch E h d sid = Inr (Some b)"
    and pending: "pending = filter (\<lambda>ob. cursor (read_ack (hr_host_id h) d sid) < ob_revision ob) (drop k log)"
    and more: "length (sq_records (pb_request b)) < min MAX_BATCH_RECORDS (length pending)"
  shows "ob_repository_key (pending ! length (sq_records (pb_request b))) \<noteq> sq_repository_key (pb_request b) \<or>
    MAX_BATCH_BYTES < batch_bytes E
      (sq_records (pb_request b) @ [record_of E (hr_include_previews h) (pending ! length (sq_records (pb_request b)))])"
proof -
  let ?ack = "read_ack (hr_host_id h) d sid"
  obtain sn where sn: "snapshot (sy_codec E) (sy_journal_io E sid) sid (cursor ?ack) MAX_BATCH_RECORDS (session_files d sid) = Inr sn"
    using batch by (auto simp: session_batch_def Let_def elim!: and_then_InrE)
  note snap = snapshot_retained [OF inv sn]
  obtain rs key where br: "batch_records E (hr_include_previews h) None 0 (take MAX_BATCH_RECORDS pending) = Inr (rs, key)"
    using batch sn snap(3) pending by (auto simp: session_batch_def Let_def split: if_splits elim!: and_then_InrE)
  have request: "sq_records (pb_request b) = rs"
    "sq_repository_key (pb_request b) = (case key of None \<Rightarrow> None | Some k \<Rightarrow> k)" if "rs \<noteq> []"
    using that batch sn snap(3) br pending by (auto simp: session_batch_def Let_def split: if_splits)
  have rs: "sq_records (pb_request b) = rs"
    using batch sn snap(3) br pending by (auto simp: session_batch_def Let_def split: if_splits)
  have "rs \<noteq> []"
    using batch_records_start [OF br] more by (auto simp: MAX_BATCH_RECORDS_def)
  moreover from this have "key = Some (sq_repository_key (pb_request b))"
    using request(2) batch_records_start [OF br] by (cases rs) (auto split: option.splits)
  ultimately show ?thesis
    using batch_records_stops [OF br] more by (auto simp: rs)
qed

section \<open>Runs against the service\<close>

text \<open>What the service promises of its answer to the request that was sent: it forgets nothing,
  \<open>acked_through_revision\<close> is contiguous behind the base that was reported, and of the records sent
  those up to \<open>committed_through_revision\<close> are held.\<close>

definition service_keeps :: "sync_env \<Rightarrow> host_replicator \<Rightarrow> sync_disk \<Rightarrow> string \<Rightarrow> nat set \<Rightarrow> nat set \<Rightarrow> bool" where
  "service_keeps E h d sid held held' \<longleftrightarrow>
     held \<subseteq> held' \<and>
     (\<forall>b rp. sent_batch E h d = Some b \<longrightarrow> pb_session_id b = sid \<longrightarrow> sy_send E (pb_request b) = Inr rp \<longrightarrow>
        {sq_source_base_revision (pb_request b)<..sp_acked_through_revision rp} \<subseteq> held' \<and>
        (\<forall>r \<in> set (sq_records (pb_request b)).
           sr_source_revision r \<le> sp_committed_through_revision rp \<longrightarrow> sr_source_revision r \<in> held'))"

text \<open>One session: appends and the other steps of its journal, restarts of the agent and rounds of
  replication in any order, while other sessions do what they like. \<open>held\<close> is what the service has.\<close>

inductive source_run ::
  "journal_codec \<Rightarrow> string \<Rightarrow> host_replicator \<Rightarrow> sync_disk \<Rightarrow> journal_cache \<Rightarrow> observation list \<Rightarrow> nat set \<Rightarrow> bool"
  for C sid where
  idle: "session_files d sid = \<lparr>jf_journal = None, jf_meta = None\<rparr> \<Longrightarrow> sd_acks d sid = None \<Longrightarrow>
    source_run C sid h d default_cache [] {}"
| journal: "source_run C sid h d cache log held \<Longrightarrow>
    journal_step C sid (session_files d sid) cache log (session_files d' sid) cache' log' \<Longrightarrow>
    sd_acks d' sid = sd_acks d sid \<Longrightarrow> source_run C sid h d' cache' log' held"
| restarted: "source_run C sid h d cache log held \<Longrightarrow> new_replicator E opened previews (hr_host_id h) d = Inr h' \<Longrightarrow>
    source_run C sid h' d cache log held"
| round: "source_run C sid h d cache log held \<Longrightarrow> sy_codec E = C \<Longrightarrow> service_keeps E h d sid held held' \<Longrightarrow>
    sync_next E h d = (res, h', d') \<Longrightarrow> source_run C sid h' d' cache log held'"

definition replicated :: "observation list \<Rightarrow> nat \<Rightarrow> nat \<Rightarrow> nat set \<Rightarrow> bool" where
  "replicated log k c held \<longleftrightarrow> c \<le> length log \<and> (\<forall>ob \<in> set (drop k log). ob_revision ob \<le> c \<longrightarrow> ob_revision ob \<in> held)"

lemma read_ack_cong: "sd_acks d' sid = sd_acks d sid \<Longrightarrow> read_ack host d' sid = read_ack host d sid"
  by (simp add: read_ack_def)

lemma read_ack_fields:
  "ak_schema_version (read_ack host d sid) = SYNC_SCHEMA_VERSION" "ak_host_id (read_ack host d sid) = host"
  "ak_session_id (read_ack host d sid) = sid"
  by (auto simp: read_ack_def fresh_ack_def split: option.split)

lemma read_ack_after:
  assumes "acks_after E h d d' b rp"
  shows "read_ack (hr_host_id h) d' sid =
    (if sid = pb_session_id b then advance_ack E b rp else read_ack (hr_host_id h) d sid)"
proof -
  from assms have "pb_previous_ack b = read_ack (hr_host_id h) d (pb_session_id b)"
    "sd_acks d' = (sd_acks d)(pb_session_id b \<mapsto> advance_ack E b rp)"
    using session_batch_Some(2) by (auto simp: acks_after_def)
  then show ?thesis
    using read_ack_fields [of "hr_host_id h" d "pb_session_id b"]
    by (simp add: read_ack_def [of _ d'] advance_ack_def Let_def read_ack_def [of _ d sid])
qed

lemma cursor_advance:
  "cursor (advance_ack E b rp) =
     max (cursor (pb_previous_ack b)) (max (sp_acked_through_revision rp) (sp_committed_through_revision rp))"
  by (simp add: cursor_def advance_ack_def Let_def max.assoc max.commute max.left_commute)

lemma sorted_prefix_member:
  assumes "sorted_wrt (<) (map f xs)" "x \<in> set xs" "take n xs \<noteq> []" "f x \<le> (f (last (take n xs)) :: nat)"
  shows "x \<in> set (take n xs)"
proof (rule ccontr)
  assume "x \<notin> set (take n xs)"
  then have "x \<in> set (drop n xs)" using assms(2) by (metis Un_iff append_take_drop_id set_append)
  moreover have "sorted_wrt (<) (map f (take n xs) @ map f (drop n xs))"
    using assms(1) by (simp flip: map_append)
  ultimately have "f (last (take n xs)) < f x" using assms(3) by (auto simp: sorted_wrt_append)
  with assms(4) show False by simp
qed

lemma pending_sorted:
  assumes "log_ok C sid log"
  shows "sorted_wrt (<) (map ob_revision (filter (\<lambda>ob. c < ob_revision ob) (drop k log)))"
proof -
  have "map ob_revision (filter (\<lambda>ob. c < ob_revision ob) (drop k log)) = filter (\<lambda>r. c < r) (map ob_revision (drop k log))"
    by (simp add: filter_map o_def)
  also have "\<dots> = filter (\<lambda>r. c < r) [Suc k..<Suc (length log)]" using log_ok_drop(4) [OF assms] by simp
  finally show ?thesis by (simp add: sorted_wrt_filter del: upt_Suc)
qed

lemma replicated_advance:
  assumes inv: "journal_inv (sy_codec E) sid (session_files d sid) cache log k"
    and after: "acks_after E h d d' b rp" and sent: "sent_batch E h d = Some b" "pb_session_id b = sid"
    and service: "service_keeps E h d sid held held'"
    and old: "replicated log k (cursor (read_ack (hr_host_id h) d sid)) held"
  shows "replicated log k (cursor (advance_ack E b rp)) held'"
proof -
  define c where "c = cursor (read_ack (hr_host_id h) d sid)"
  define pending where "pending = filter (\<lambda>ob. c < ob_revision ob) (drop k log)"
  have log: "log_ok (sy_codec E) sid log" using inv by (simp add: journal_inv_def)
  have sb: "session_batch E h d sid = Inr (Some b)" using after sent(2) by (simp add: acks_after_def)
  obtain n where n: "sq_records (pb_request b) = map (record_of E (hr_include_previews h)) (take n pending)"
    "pending \<noteq> [] \<longrightarrow> sq_records (pb_request b) \<noteq> []" "sq_source_head_revision (pb_request b) = length log"
    "sq_source_base_revision (pb_request b) \<le> k"
    using session_batch_exact [OF inv sb] by (auto simp: Let_def c_def pending_def)
  have ack: "pb_previous_ack b = read_ack (hr_host_id h) d sid" using session_batch_Some(2) [OF sb] .
  have ok: "sp_acked_through_revision rp \<le> length log" "sp_committed_through_revision rp \<le> last_sent_revision (pb_request b)"
    using after n(3) by (auto simp: acks_after_def ack_acceptable_def)
  have last_sent: "last_sent_revision (pb_request b) = ob_revision (last (take n pending))" if "take n pending \<noteq> []"
    using that n(1) by (simp add: last_sent_revision_def last_map record_of_def)
  have "ob_revision (last (take n pending)) \<le> length log" if "take n pending \<noteq> []"
  proof -
    have "last (take n pending) \<in> set (drop k log)"
      using last_in_set [OF that] by (auto simp: pending_def dest: in_set_takeD)
    then show ?thesis using revision_bounds [OF log] by blast
  qed
  then have "last_sent_revision (pb_request b) \<le> length log"
    using last_sent n(1,3) by (cases "take n pending = []") (auto simp: last_sent_revision_def)
  then have bound: "cursor (advance_ack E b rp) \<le> length log"
    using ok old by (simp add: cursor_advance ack replicated_def)
  have service': "held \<subseteq> held'" "{sq_source_base_revision (pb_request b)<..sp_acked_through_revision rp} \<subseteq> held'"
    "\<forall>r \<in> set (sq_records (pb_request b)).
       sr_source_revision r \<le> sp_committed_through_revision rp \<longrightarrow> sr_source_revision r \<in> held'"
    using service after sent by (auto simp: service_keeps_def acks_after_def)
  have "ob_revision ob \<in> held'" if ob: "ob \<in> set (drop k log)" and le: "ob_revision ob \<le> cursor (advance_ack E b rp)" for ob
  proof -
    consider "ob_revision ob \<le> c" | "ob_revision ob \<le> sp_acked_through_revision rp"
      | "c < ob_revision ob" "ob_revision ob \<le> sp_committed_through_revision rp"
      using le by (fastforce simp: cursor_advance ack c_def le_max_iff_disj not_less)
    then show ?thesis
    proof cases
      case 1
      then show ?thesis using old ob service'(1) by (auto simp: replicated_def c_def)
    next
      case 2
      then show ?thesis using service'(2) n(4) revision_bounds(1) [OF log ob] by auto
    next
      case 3
      then have "ob \<in> set pending" using ob by (simp add: pending_def)
      moreover from this have "take n pending \<noteq> []" using n(1,2) by (metis empty_iff empty_set list.map_disc_iff)
      ultimately have "ob \<in> set (take n pending)"
        using sorted_prefix_member pending_sorted [OF log, of c k] ok(2) 3(2) last_sent
        by (metis le_trans pending_def)
      then have "record_of E (hr_include_previews h) ob \<in> set (sq_records (pb_request b))" using n(1) by simp
      then show ?thesis using service'(3) 3(2) by (fastforce simp: record_of_def)
    qed
  qed
  with bound show ?thesis by (simp add: replicated_def)
qed

lemma source_run_replicated:
  "source_run C sid h d cache log held \<Longrightarrow>
     \<exists>k. journal_inv C sid (session_files d sid) cache log k \<and> replicated log k (cursor (read_ack (hr_host_id h) d sid)) held"
proof (induction rule: source_run.induct)
  case (idle d h)
  then show ?case using fresh_inv by (fastforce simp: replicated_def read_ack_def fresh_ack_def cursor_def)
next
  case (journal h d cache log held d' cache' log')
  then obtain k where k: "journal_inv C sid (session_files d sid) cache log k"
    "replicated log k (cursor (read_ack (hr_host_id h) d sid)) held" by blast
  from journal_step_inv [OF journal.hyps(2) k(1)] obtain k' more
    where k': "k \<le> k'" "journal_inv C sid (session_files d' sid) cache' log' k'" "log' = log @ more" by blast
  have "replicated log' k' (cursor (read_ack (hr_host_id h) d sid)) held"
  proof -
    have "ob \<in> set (drop k log)" if ob: "ob \<in> set (drop k' log')" "ob_revision ob \<le> length log" for ob
    proof -
      have "log_ok C sid log'" using k'(2) by (simp add: journal_inv_def)
      then have "ob \<notin> set (drop (length log) log')" using revision_bounds(1) ob(2) by fastforce
      with ob(1) k'(3) have "ob \<in> set (drop k' log)" by (auto dest: in_set_dropD)
      then show ?thesis using set_drop_subset_set_drop [OF k'(1), of log] by auto
    qed
    then show ?thesis using k(2) k'(3) by (fastforce simp: replicated_def)
  qed
  then show ?case using k'(2) read_ack_cong [of d' sid d] journal.hyps(3) by auto
next
  case (restarted h d cache log held E opened previews h')
  then have "hr_host_id h' = hr_host_id h"
    by (auto simp: new_replicator_def host_identity_validate_def Let_def split: if_splits elim!: and_then_InrE)
  with restarted.IH show ?case by simp
next
  case (round h d cache log held E held' res h' d')
  then obtain k where k: "journal_inv (sy_codec E) sid (session_files d sid) cache log k"
    "replicated log k (cursor (read_ack (hr_host_id h) d sid)) held" by blast
  have eff: "round_effect E h d (sent_batch E h d) h' d'" using sync_next_effect [OF round.hyps(4)] .
  then have same: "session_files d' sid = session_files d sid" "hr_host_id h' = hr_host_id h"
    by (simp_all add: round_effect_def session_files_def)
  have more: "replicated log k c held'" if "replicated log k c held" for c
    using that round.hyps(3) by (auto simp: replicated_def service_keeps_def)
  have "replicated log k (cursor (read_ack (hr_host_id h) d' sid)) held'"
  proof (cases "sd_acks d' = sd_acks d")
    case True
    then show ?thesis using more [OF k(2)] read_ack_cong [of d' sid d] by simp
  next
    case False
    with eff obtain b rp where b: "sent_batch E h d = Some b" "acks_after E h d d' b rp" by (auto simp: round_effect_def)
    show ?thesis
      using read_ack_after [OF b(2), of sid] more [OF k(2)] replicated_advance [OF k(1) b(2,1) _ round.hyps(3) k(2)]
      by (cases "sid = pb_session_id b") auto
  qed
  then show ?case using k(1) same round.hyps(2) by auto
qed

section \<open>The fair scan\<close>

text \<open>How many sessions are scanned before \<open>sid\<close> has its turn.\<close>

definition turn :: "string option \<Rightarrow> string list \<Rightarrow> string \<Rightarrow> nat" where
  "turn last_id sessions sid = length (takeWhile (\<lambda>s. s \<noteq> sid) (scan_order last_id sessions))"

lemma scan_start_less: "sessions \<noteq> [] \<Longrightarrow> scan_start last_id sessions < length sessions"
  by (simp add: scan_start_def split: option.split)

lemma scan_order_rotate: "scan_order last_id sessions = rotate (scan_start last_id sessions) sessions"
proof (cases "sessions = []")
  case False
  show ?thesis
    by (rule nth_equalityI) (simp_all add: scan_order_def nth_rotate False add.commute)
qed (simp add: scan_order_def)

lemma scan_order_set [simp]: "set (scan_order last_id sessions) = set sessions"
  by (simp add: scan_order_rotate)

lemma takeWhile_sorted_upto:
  fixes xs :: "'a :: linorder list"
  assumes "sorted_wrt (<) xs" "i < length xs"
  shows "length (takeWhile (\<lambda>x. x \<le> xs ! i) xs) = Suc i"
proof -
  have "takeWhile (\<lambda>x. x \<le> xs ! i) xs = take (Suc i) xs"
  proof (rule takeWhile_eq_take_P_nth)
    fix j assume "j < Suc i" "j < length xs"
    then consider "j = i" | "j < i" by linarith
    then show "xs ! j \<le> xs ! i"
    proof cases
      case 2
      then have "xs ! j < xs ! i" using assms sorted_wrt_nth_less by blast
      then show ?thesis by (rule less_imp_le)
    qed simp
  next
    assume "Suc i < length xs"
    then have "xs ! i < xs ! Suc i" using assms sorted_wrt_nth_less by blast
    then show "\<not> xs ! Suc i \<le> xs ! i" by (simp add: not_le)
  qed
  then show ?thesis using assms(2) by simp
qed

lemma takeWhile_rotate_behind:
  assumes "m < length (takeWhile (\<lambda>s. s \<noteq> x) xs)" "x \<in> set xs"
  shows "length (takeWhile (\<lambda>s. s \<noteq> x) (rotate (Suc m) xs)) < length (takeWhile (\<lambda>s. s \<noteq> x) xs)"
proof -
  obtain ys zs where xs: "xs = ys @ x # zs" and x: "x \<notin> set ys" using assms(2) by (metis split_list_first)
  have w: "takeWhile (\<lambda>s. s \<noteq> x) (us @ x # vs) = us" if "x \<notin> set us" for us vs
    using that by (induction us) auto
  have m: "Suc m \<le> length ys" using assms(1) w [OF x] by (simp add: xs)
  then have "rotate (Suc m) xs = drop (Suc m) ys @ x # zs @ take (Suc m) ys"
    by (simp add: rotate_drop_take xs del: rotate_Suc)
  moreover have "x \<notin> set (drop (Suc m) ys)" using x by (meson in_set_dropD)
  ultimately show ?thesis using w [OF x] w m by (simp add: xs)
qed

lemma nth_takeWhile_first: "x \<in> set xs \<Longrightarrow> xs ! length (takeWhile (\<lambda>s. s \<noteq> x) xs) = x"
  by (induction xs) auto

lemma rotate_on: "rotate (Suc ((s + m) mod length xs) mod length xs) xs = rotate (Suc m) (rotate s xs)"
proof -
  have "rotate (Suc ((s + m) mod length xs) mod length xs) xs = rotate (Suc (s + m)) xs"
    by (metis mod_Suc_eq rotate_conv_mod)
  then show ?thesis by (simp add: rotate_rotate add.commute del: rotate_Suc)
qed

text \<open>Continuing behind the session at position \<open>m\<close> of the scan is the same scan, rotated on.\<close>

lemma scan_order_behind:
  assumes "sorted_wrt (<) sessions" "m < length sessions"
  shows "scan_order (Some (scan_order last_id sessions ! m)) sessions = rotate (Suc m) (scan_order last_id sessions)"
proof -
  let ?n = "length sessions" and ?s = "scan_start last_id sessions"
  let ?i = "(?s + m) mod ?n"
  have i: "scan_order last_id sessions ! m = sessions ! ?i"
    using assms(2) by (simp add: scan_order_rotate nth_rotate add.commute)
  have "?i < ?n" using assms(2) by (intro mod_less_divisor) linarith
  from takeWhile_sorted_upto [OF assms(1) this]
  have "scan_start (Some (sessions ! ?i)) sessions = Suc ?i mod ?n" by (simp add: scan_start_def)
  then have "scan_order (Some (sessions ! ?i)) sessions = rotate (Suc m) (scan_order last_id sessions)"
    by (simp only: scan_order_rotate rotate_on)
  then show ?thesis using i by simp
qed

lemma scan_sessions_stops:
  assumes "scan_sessions E sids h d = (res, h', d')" and "sids \<noteq> []"
    and "\<forall>sid. sy_write_status E (Inl sid) = Stored"
  shows "\<exists>m < length sids. res = session_batch E h d (sids ! m) \<and> (\<forall>j < m. session_batch E h d (sids ! j) = Inr None) \<and>
    (res = Inr None \<longrightarrow> Suc m = length sids) \<and> rs_last_session_id (hr_status h') = Some (sids ! m) \<and>
    sd_status d' = Some (hr_status h')"
  using assms(1,2)
proof (induction sids arbitrary: h d)
  case (Cons sid sids)
  define h1 where "h1 = h\<lparr>hr_status := (hr_status h)\<lparr>rs_last_session_id := Some sid\<rparr>\<rparr>"
  define d1 where "d1 = d\<lparr>sd_status := Some (hr_status h1)\<rparr>"
  have save: "save_status E (Inl sid) h1 d = (True, d1)" using assms(3) by (simp add: save_status_def d1_def)
  have sb: "session_batch E h1 d1 sid' = session_batch E h d sid'" for sid'
    by (rule session_batch_cong) (simp add: same_source_def h1_def d1_def)
  show ?case
  proof (cases "session_batch E h d sid = Inr None \<and> sids \<noteq> []")
    case True
    then have "scan_sessions E sids h1 d1 = (res, h', d')" using Cons.prems(1) save sb by (simp add: h1_def Let_def)
    from Cons.IH [OF this] True obtain m where "m < length sids" "res = session_batch E h d (sids ! m)"
      "\<forall>j < m. session_batch E h d (sids ! j) = Inr None" "res = Inr None \<longrightarrow> Suc m = length sids"
      "rs_last_session_id (hr_status h') = Some (sids ! m)" "sd_status d' = Some (hr_status h')"
      by (auto simp: sb)
    then show ?thesis using True by (intro exI [of _ "Suc m"]) (auto simp: nth_Cons split: nat.splits)
  next
    case False
    then have "res = session_batch E h d sid \<and> h' = h1 \<and> d' = d1 \<and> (res = Inr None \<longrightarrow> sids = [])"
      using Cons.prems(1) save sb
      by (cases "session_batch E h d sid") (auto simp: h1_def [symmetric] Let_def split: option.splits)
    then show ?thesis by (intro exI [of _ 0]) (auto simp: h1_def d1_def)
  qed
qed simp

text \<open>One scan serves the session or brings its turn nearer.\<close>

lemma next_batch_turn:
  assumes scan: "next_batch E h d = (res, h', d')" and sessions: "retained_sessions E d = Inr sessions"
    and sorted: "sorted_wrt (<) sessions" and sid: "sid \<in> set sessions"
    and stored: "\<forall>sid. sy_write_status E (Inl sid) = Stored"
  shows "(session_batch E h d sid = Inr None \<or> res = session_batch E h d sid \<or>
      turn (rs_last_session_id (hr_status h')) sessions sid < turn (rs_last_session_id (hr_status h)) sessions sid) \<and>
    sd_status d' = Some (hr_status h')"
proof -
  let ?h = "h\<lparr>hr_status := (hr_status h)\<lparr>rs_sessions_seen := length sessions\<rparr>\<rparr>"
  let ?order = "scan_order (rs_last_session_id (hr_status h)) sessions"
  have sb: "session_batch E ?h d sid' = session_batch E h d sid'" for sid'
    by (rule session_batch_cong) (simp add: same_source_def)
  have "sessions \<noteq> []" using sid by auto
  then have "scan_sessions E ?order ?h d = (res, h', d')" "?order \<noteq> []"
    using scan sessions by (simp_all add: next_batch_def scan_order_def)
  from scan_sessions_stops [OF this stored] obtain m
    where m: "m < length ?order" "res = session_batch E h d (?order ! m)"
      "\<forall>j < m. session_batch E h d (?order ! j) = Inr None" "rs_last_session_id (hr_status h') = Some (?order ! m)"
      "sd_status d' = Some (hr_status h')"
    by (auto simp: sb)
  define t where "t = turn (rs_last_session_id (hr_status h)) sessions sid"
  have at: "?order ! t = sid"
    using sid by (simp add: t_def turn_def nth_takeWhile_first)
  consider "t < m" | "t = m" | "m < t" by linarith
  then show ?thesis
  proof cases
    case 3
    have "m < length sessions" using m(1) by (simp add: scan_order_rotate)
    then have "turn (Some (?order ! m)) sessions sid = length (takeWhile (\<lambda>s. s \<noteq> sid) (rotate (Suc m) ?order))"
      by (simp only: turn_def scan_order_behind [OF sorted])
    also have "\<dots> < t"
      unfolding t_def turn_def using 3 sid by (intro takeWhile_rotate_behind) (simp_all add: t_def turn_def)
    finally have "turn (Some (?order ! m)) sessions sid < t" .
    then show ?thesis using m(4,5) by (simp add: t_def)
  qed (use m at in auto)
qed

text \<open>What is left of a round behind the scan keeps the place of the scan, in the process and on disk.\<close>

definition keeps_place :: "string option \<Rightarrow> host_replicator \<Rightarrow> sync_disk \<Rightarrow> bool" where
  "keeps_place place h d \<longleftrightarrow> rs_last_session_id (hr_status h) = place \<and>
     (\<exists>st. sd_status d = Some st \<and> rs_last_session_id st = place)"

lemma save_status_place:
  "keeps_place place h d \<Longrightarrow> rs_last_session_id (hr_status h') = place \<Longrightarrow>
     keeps_place place h' (snd (save_status E p h' d))"
  by (auto simp: keeps_place_def save_status_def split: state_write.split)

lemma record_failure_place:
  assumes "keeps_place place h d" and "record_failure E code h d = (res, h', d')"
  shows "keeps_place place h' d'"
  using assms save_status_place [OF assms(1)] by (auto simp: record_failure_def Let_def keeps_place_def)

lemma deliver_place:
  assumes place: "keeps_place place h d" and run: "deliver E b h d = (res, h', d')"
  shows "keeps_place place h' d'"
proof (cases "sy_send E (pb_request b)")
  case (Inl code)
  with run place show ?thesis using record_failure_place by (fastforce simp: deliver_def)
next
  case (Inr rp)
  define d1 where "d1 = d\<lparr>sd_acks := (sd_acks d)(pb_session_id b \<mapsto> advance_ack E b rp)\<rparr>"
  have d1: "keeps_place place h d1" using place by (simp add: keeps_place_def d1_def)
  have success: "keeps_place place h'' d''" if "record_success E b rp h d1 = (h'', d'')" for h'' d''
    using that d1 save_status_place [OF d1] by (auto simp: record_success_def Let_def keeps_place_def)
  show ?thesis
  proof (cases "ack_acceptable b rp")
    case False
    with Inr run place show ?thesis using record_failure_place by (fastforce simp: deliver_def)
  next
    case True
    with Inr run show ?thesis
      using record_failure_place [OF place] record_failure_place [OF d1] success
      by (auto simp: deliver_def Let_def d1_def [symmetric] split: state_write.splits)
  qed
qed

lemma load_status_place: "keeps_place place h d \<Longrightarrow> rs_last_session_id (hr_status (load_status E h d)) = place"
  by (auto simp: keeps_place_def load_status_def)

lemma sync_next_place:
  assumes run: "sync_next E h d = (res, h', d')" and lock: "sy_lock E = Inr True" and ready: "\<forall>s. res \<noteq> Inr (Backoff s)"
    and scan: "next_batch E (load_status E h d) d = (r2, h2, d2)" and status: "sd_status d2 = Some (hr_status h2)"
  shows "keeps_place (rs_last_session_id (hr_status h2)) h' d'"
proof -
  define h1 where "h1 = load_status E h d"
  define wait where "wait =
    (case hr_retry_at h1 of Some t \<Rightarrow> if sy_instant E AtStart < t then Some t else None | None \<Rightarrow> None)"
  have place: "keeps_place (rs_last_session_id (hr_status h2)) h2 d2" using status by (simp add: keeps_place_def)
  have "wait = None"
    using run ready lock by (cases wait) (auto simp: sync_next_def h1_def [symmetric] wait_def [symmetric] Let_def)
  note step = run [unfolded sync_next_def, folded h1_def, unfolded Let_def, folded wait_def] scan [folded h1_def] lock this
  consider (err) e where "r2 = Inl e" | (none) "r2 = Inr None" | (some) b where "r2 = Inr (Some b)"
    by (metis sum.exhaust option.exhaust)
  then show ?thesis
  proof cases
    case (err e)
    with step have "record_failure E (if e = identity_changed then IdentityConflict else LocalStore) h2 d2 = (res, h', d')"
      by simp
    with record_failure_place [OF place] show ?thesis by blast
  next
    case none
    with step place show ?thesis by simp
  next
    case (some b)
    define h3 where "h3 = h2\<lparr>hr_status := (hr_status h2)\<lparr>rs_last_attempt_at := Some (sy_unix_time E AtAttempt)\<rparr>\<rparr>"
    have "deliver E b h3 (snd (save_status E (Inr AtAttempt) h3 d2)) = (res, h', d')"
      using some step by (simp add: h3_def)
    moreover have "keeps_place (rs_last_session_id (hr_status h2)) h3 (snd (save_status E (Inr AtAttempt) h3 d2))"
      by (rule save_status_place [OF place]) (simp add: h3_def)
    ultimately show ?thesis using deliver_place by blast
  qed
qed

lemma strip_prefix_Some: "strip_prefix pre s = Some t \<Longrightarrow> s = pre @ t"
  by (metis append_take_drop_id option.distinct(1) option.inject strip_prefix_def)

lemma retained_sessions_strict:
  assumes "retained_sessions E d = Inr sessions" and "distinct (map fst (sd_entries d))"
  shows "sorted_wrt (<) sessions"
proof -
  have name: "fst entry = ''obs-'' @ sid @ ''.jsonl''" if found: "entry_session entry = Some sid" for entry sid
  proof -
    obtain s t where st: "strip_prefix ''obs-'' (fst entry) = Some s" "strip_suffix ''.jsonl'' s = Some t"
      and t: "(case (validate_session_id t, snd entry) of (Inr _, JFile _) \<Rightarrow> Some t | _ \<Rightarrow> None) = Some sid"
      using found by (auto simp: entry_session_def Option.bind_eq_Some_conv)
    from t have "t = sid" by (cases "validate_session_id t"; cases "snd entry") simp_all
    with st have "strip_prefix ''obs-'' (fst entry) = Some s" "strip_suffix ''.jsonl'' s = Some sid" by simp_all
    then show ?thesis using strip_prefix_Some strip_suffix_Some_iff by metis
  qed
  have "distinct (List.map_filter entry_session es)" if "distinct (map fst es)" for es
    using that
  proof (induction es)
    case (Cons entry es)
    have "sid \<notin> set (List.map_filter entry_session es)" if "entry_session entry = Some sid" for sid
      using Cons.prems name [OF that] name by (force simp: List.map_filter_def)
    with Cons show ?case by (auto simp: List.map_filter_simps split: option.split)
  qed (simp add: List.map_filter_simps)
  with assms show ?thesis by (auto simp: retained_sessions_def strict_sorted_iff elim!: and_then_InrE)
qed

lemma takeWhile_first_less: "x \<in> set xs \<Longrightarrow> length (takeWhile (\<lambda>s. s \<noteq> x) xs) < length xs"
  by (induction xs) auto

lemma turn_less: "sid \<in> set sessions \<Longrightarrow> turn place sessions sid < length sessions"
  using takeWhile_first_less [of sid "scan_order place sessions"] by (simp add: turn_def) (simp add: scan_order_rotate)

section \<open>Properties\<close>

text \<open>C27. No record is skipped. Whatever sequence of journal steps, agent restarts and replication
  rounds has happened, every record that the journal of the session still retains and whose revision
  is not above the cursor is held by the service; the cursor is never ahead of the journal, and no
  round moves it back, whatever the service answers.\<close>

theorem cursor_never_skips:
  assumes "source_run C sid h d cache log held" and "prepare io sid = Inr ()"
    and "list_observations C io sid \<lparr>lf_kind = None, lf_task_id = None, lf_after_revision = None, lf_limit = None\<rparr>
           (session_files d sid) = Inr (retained, corrupt)"
  shows "(\<forall>ob \<in> set retained. ob_revision ob \<le> cursor (read_ack (hr_host_id h) d sid) \<longrightarrow> ob_revision ob \<in> held) \<and>
    cursor (read_ack (hr_host_id h) d sid) \<le> length log \<and>
    (\<forall>E res h' d'. sync_next E h d = (res, h', d') \<longrightarrow>
       cursor (read_ack (hr_host_id h) d sid) \<le> cursor (read_ack (hr_host_id h') d' sid))"
proof -
  obtain k where k: "journal_inv C sid (session_files d sid) cache log k"
    "replicated log k (cursor (read_ack (hr_host_id h) d sid)) held"
    using source_run_replicated [OF assms(1)] by blast
  have "set retained \<subseteq> set (drop k log)"
    using list_observations_retained [OF k(1) assms(2)] assms(3) by (auto simp: Let_def)
  moreover have "cursor (read_ack (hr_host_id h) d sid) \<le> cursor (read_ack (hr_host_id h') d' sid)"
    if run: "sync_next E h d = (res, h', d')" for E res h' d'
  proof -
    have eff: "round_effect E h d (sent_batch E h d) h' d'" by (rule sync_next_effect [OF run])
    show ?thesis
    proof (cases "sd_acks d' = sd_acks d")
      case True
      then show ?thesis using eff read_ack_cong [of d' sid d] by (simp add: round_effect_def)
    next
      case False
      with eff obtain b rp where after: "acks_after E h d d' b rp" and host: "hr_host_id h' = hr_host_id h"
        by (auto simp: round_effect_def)
      then have "pb_previous_ack b = read_ack (hr_host_id h) d (pb_session_id b)"
        using session_batch_Some(2) by (auto simp: acks_after_def)
      then show ?thesis using read_ack_after [OF after, of sid] host by (auto simp: cursor_advance)
    qed
  qed
  ultimately show ?thesis using k(2) unfolding replicated_def by blast
qed

text \<open>C31. What one request holds. The batch for a session is the oldest part of what the journal
  lists behind the session's cursor, in order and each record once, as it may leave the host: at
  least one if any is pending, at most 32, together at most 512 KiB, and all of the one repository
  the request names. It ends before a listed record only when it holds 32, when that record belongs
  to another repository, or when it would not fit any more. What the journal lists is the log without
  its first \<open>k\<close> records, and the head the request reports is the number of records ever appended.\<close>

theorem batch_exact:
  assumes "journal_run (sy_codec E) sid (session_files d sid) cache log"
    and "session_batch E h d sid = Inr (Some b)" and "prepare io sid = Inr ()"
    and "list_observations (sy_codec E) io sid \<lparr>lf_kind = None, lf_task_id = None, lf_after_revision = None, lf_limit = None\<rparr>
           (session_files d sid) = Inr (retained, corrupt)"
  shows "let pending = filter (\<lambda>ob. cursor (read_ack (hr_host_id h) d sid) < ob_revision ob) retained;
      rq = pb_request b; n = length (sq_records rq)
    in corrupt = 0 \<and> (\<exists>k. retained = drop k log \<and> (log = [] \<or> k < length log)) \<and>
       sq_records rq = map (record_of E (hr_include_previews h)) (take n pending) \<and>
       n \<le> 32 \<and> (pending \<noteq> [] \<longrightarrow> n \<noteq> 0) \<and> batch_bytes E (sq_records rq) \<le> 512 * 1024 \<and>
       (\<forall>ob \<in> set (take n pending). ob_repository_key ob = sq_repository_key rq) \<and>
       (n < length pending \<longrightarrow> n = 32 \<or> ob_repository_key (pending ! n) \<noteq> sq_repository_key rq \<or>
          512 * 1024 < batch_bytes E (sq_records rq @ [record_of E (hr_include_previews h) (pending ! n)])) \<and>
       sq_source_head_revision rq = length log"
proof -
  obtain k where k: "journal_inv (sy_codec E) sid (session_files d sid) cache log k"
    using journal_run_inv [OF assms(1)] by blast
  have some: "log = [] \<or> k < length log" using k by (auto simp: journal_inv_def retained_ok_def split: if_splits)
  have listed: "retained = drop k log" "corrupt = 0"
    using list_observations_everything [OF k assms(3)] assms(4) by simp_all
  define pending where "pending = filter (\<lambda>ob. cursor (read_ack (hr_host_id h) d sid) < ob_revision ob) (drop k log)"
  obtain n where n: "n \<le> MAX_BATCH_RECORDS" "sq_records (pb_request b) = map (record_of E (hr_include_previews h)) (take n pending)"
    "\<forall>ob \<in> set (take n pending). ob_repository_key ob = sq_repository_key (pb_request b)"
    "pending \<noteq> [] \<longrightarrow> sq_records (pb_request b) \<noteq> []" "batch_bytes E (sq_records (pb_request b)) \<le> MAX_BATCH_BYTES"
    "sq_source_head_revision (pb_request b) = length log"
    using session_batch_exact [OF k assms(2)] unfolding Let_def pending_def by blast
  obtain rs where rs: "sq_records (pb_request b) = rs" by blast
  have sent: "rs = map (record_of E (hr_include_previews h)) (take (length rs) pending)"
    "\<forall>ob \<in> set (take (length rs) pending). ob_repository_key ob = sq_repository_key (pb_request b)"
    "length rs \<le> MAX_BATCH_RECORDS" "pending \<noteq> [] \<longrightarrow> rs \<noteq> []" "batch_bytes E rs \<le> MAX_BATCH_BYTES"
    using n by (auto simp: rs min_def)
  have "length rs = 32 \<or> length rs < min MAX_BATCH_RECORDS (length pending)" if "length rs < length pending"
    using that sent(3) by (auto simp: MAX_BATCH_RECORDS_def)
  then show ?thesis
    using session_batch_stops [OF k assms(2) pending_def] sent n(6) some
    unfolding listed Let_def pending_def [symmetric] rs MAX_BATCH_RECORDS_def MAX_BATCH_BYTES_def by auto
qed

text \<open>C28. Every session has its turn. Take as many rounds as there are sessions, each of which got
  the lock, was not in backoff and could store its place. In one of them the given session was up:
  the round sent the session's batch or reported the session's error, or the session had nothing to
  send. The journals may change between the rounds and other sessions may fail in every one.\<close>

theorem every_session_has_its_turn:
  assumes rounds: "\<forall>i < length sessions. sync_next (E i) (h i) (d i) = (res i, h (Suc i), d' i) \<and>
      sd_status (d (Suc i)) = sd_status (d' i) \<and> sy_lock (E i) = Inr True \<and> (\<forall>s. res i \<noteq> Inr (Backoff s)) \<and>
      retained_sessions (E i) (d i) = Inr sessions \<and> (\<forall>s. sy_write_status (E i) (Inl s) = Stored)"
    and names: "distinct (map fst (sd_entries (d 0)))" and sid: "sid \<in> set sessions"
  shows "\<exists>i < length sessions. session_batch (E i) (h i) (d i) sid = Inr None \<or>
    fst (next_batch (E i) (load_status (E i) (h i) (d i)) (d i)) = session_batch (E i) (h i) (d i) sid"
proof (rule ccontr)
  assume never: "\<not> ?thesis"
  let ?place = "\<lambda>i. rs_last_session_id (hr_status (load_status (E i) (h i) (d i)))"
  have "0 < length sessions" using sid by (cases sessions) auto
  then have sorted: "sorted_wrt (<) sessions" using retained_sessions_strict rounds names by blast
  have nearer: "turn (?place (Suc i)) sessions sid < turn (?place i) sessions sid" if i: "i < length sessions" for i
  proof -
    obtain r2 h2 d2 where scan: "next_batch (E i) (load_status (E i) (h i) (d i)) (d i) = (r2, h2, d2)" by (metis prod_cases3)
    have same: "session_batch (E i) (load_status (E i) (h i) (d i)) (d i) sid = session_batch (E i) (h i) (d i) sid"
      by (rule session_batch_cong [symmetric, OF load_status_source])
    from next_batch_turn [OF scan _ sorted sid] rounds i never scan same
    have less: "turn (rs_last_session_id (hr_status h2)) sessions sid < turn (?place i) sessions sid"
      and status: "sd_status d2 = Some (hr_status h2)" by fastforce+
    have "keeps_place (rs_last_session_id (hr_status h2)) (h (Suc i)) (d' i)"
      using sync_next_place [OF _ _ _ scan status] rounds i by blast
    then have "keeps_place (rs_last_session_id (hr_status h2)) (h (Suc i)) (d (Suc i))"
      using rounds i by (simp add: keeps_place_def)
    from load_status_place [OF this] less show ?thesis by simp
  qed
  have "turn (?place i) sessions sid + i \<le> turn (?place 0) sessions sid" if "i \<le> length sessions" for i
    using that
  proof (induction i)
    case (Suc i)
    with nearer [of i] show ?case by simp
  qed simp
  from this [of "length sessions"] turn_less [OF sid, of "?place 0"] show False by simp
qed

section \<open>Witnesses\<close>

definition sample_sync :: sync_env where
  "sample_sync =
     \<lparr>sy_codec = sample_codec, sy_display = (\<lambda>_. ''id''), sy_json_text = (\<lambda>_. ''{}''), sy_sha256_hex = (\<lambda>_. ''h''),
      sy_lock = Inr True, sy_directory = Inr (), sy_journal_io = (\<lambda>_. sample_io Whole), sy_unix_time = (\<lambda>_. 100),
      sy_instant = (\<lambda>_. 0), sy_write_status = (\<lambda>_. Stored), sy_write_ack = Stored,
      sy_send = (\<lambda>rq. Inr \<lparr>sp_session_id = sq_session_id rq, sp_acked_through_revision = 1,
        sp_committed_through_revision = 1, sp_cloud_head_seq = 7, sp_complete = True\<rparr>)\<rparr>"

definition sample_replicator :: "string option \<Rightarrow> nat \<Rightarrow> host_replicator" where
  "sample_replicator place seen =
     \<lparr>hr_host_id = ''m'', hr_include_previews = False, hr_retry_at = None, hr_retry_delay = INITIAL_RETRY_DELAY,
      hr_status = (default_status ''m'')\<lparr>rs_last_session_id := place, rs_sessions_seen := seen\<rparr>\<rparr>"

definition sample_disk :: "(string \<times> journal_node) list \<Rightarrow> replicator_status option \<Rightarrow> sync_disk" where
  "sample_disk entries st = \<lparr>sd_entries = entries, sd_metas = (\<lambda>_. None), sd_status = st, sd_acks = (\<lambda>_. None)\<rparr>"

abbreviation sample_journal :: "(string \<times> journal_node) list" where
  "sample_journal \<equiv> [(''obs-s.jsonl'', JFile (line_of sample_codec first_record))]"

lemma sample_valid [simp]: "validate_session_id ''s'' = Inr ()"
  using sample_journal_prepare [of Whole] by (simp add: prepare_def sample_io_def sample_session_def)

lemma sample_id [simp]: "se_id (sample_session []) = ''s''"
  by (simp add: sample_session_def)

lemma sample_read [simp]:
  "read_journal sample_codec (Some (JFile (line_of sample_codec ((sample_record (Suc 0))\<lparr>ob_revision := Suc 0\<rparr>)))) =
     Inr ([(sample_record (Suc 0))\<lparr>ob_revision := Suc 0\<rparr>], 0)"
proof -
  obtain k where k: "journal_inv sample_codec ''s'' (no_files\<lparr>jf_journal := Some (JFile (line_of sample_codec first_record))\<rparr>)
      \<lparr>jc_file_len = length (line_of sample_codec first_record), jc_revision = 1, jc_dedupe = [put_nat 1 \<mapsto> 1]\<rparr>
      [first_record] k"
    using journal_run_inv [OF sample_run] by auto
  then have "k = 0" by (simp add: journal_inv_def retained_ok_def)
  with k have "log_ok sample_codec ''s'' [first_record]" by (simp add: journal_inv_def)
  from read_journal_retained [OF this, of "no_files\<lparr>jf_journal := Some (JFile (line_of sample_codec first_record))\<rparr>" 0]
  show ?thesis by (simp add: journal_text_def)
qed

definition sample_batch :: pending_batch where
  "sample_batch =
     \<lparr>pb_request = \<lparr>sq_schema_version = 1, sq_session_id = ''s'', sq_repository_key = ob_repository_key (sample_record 1),
        sq_source_base_revision = 0, sq_source_head_revision = 1, sq_journal_degraded = False, sq_gap_count = 0,
        sq_records = [record_of sample_sync False first_record]\<rparr>,
      pb_previous_ack = fresh_ack ''m'' ''s'', pb_session_id = ''s''\<rparr>"

lemma sample_session_batch: "session_batch sample_sync (sample_replicator p n) (sample_disk sample_journal st) ''s'' = Inr (Some sample_batch)"
  using sample_journal_prepare [of Whole]
  by (simp add: session_batch_def Let_def read_ack_def sample_disk_def fresh_ack_def cursor_def sample_sync_def
      snapshot_def session_files_def sample_read read_meta_def default_meta_def sat_add_def u64_max_def
      sample_batch_def sample_replicator_def record_of_def MAX_BATCH_RECORDS_def MAX_BATCH_BYTES_def SYNC_SCHEMA_VERSION_def)

lemma sample_entry [simp]: "entry_session (''obs-s.jsonl'', JFile s) = Some ''s''"
  using strip_suffix_append [of "''.jsonl''" "''s''"] by (simp add: entry_session_def strip_prefix_def)

lemma sample_sessions:
  "retained_sessions sample_sync (sample_disk [(''obs-s.jsonl'', JFile s)] st) = Inr [''s'']"
  by (simp add: retained_sessions_def sample_sync_def sample_disk_def List.map_filter_simps)

lemma sample_scan:
  "next_batch sample_sync (sample_replicator None 0) (sample_disk sample_journal None) =
     (Inr (Some sample_batch), sample_replicator (Some ''s'') 1,
      sample_disk sample_journal (Some (hr_status (sample_replicator (Some ''s'') 1))))"
proof -
  have "sample_replicator (Some ''s'') 1 = (sample_replicator None 0)
      \<lparr>hr_status := (hr_status (sample_replicator None 0))\<lparr>rs_sessions_seen := 1, rs_last_session_id := Some ''s''\<rparr>\<rparr>"
    by (simp add: sample_replicator_def)
  moreover have "(sample_disk sample_journal None)\<lparr>sd_status := Some st\<rparr> = sample_disk sample_journal (Some st)" for st
    by (simp add: sample_disk_def)
  ultimately show ?thesis
    using sample_session_batch [of "Some ''s''" 1]
    by (simp add: next_batch_def sample_sessions scan_order_def save_status_def sample_sync_def [THEN arg_cong, of sy_write_status])
qed

lemma sample_round:
  "\<exists>h' d'. sync_next sample_sync (sample_replicator None 0) (sample_disk sample_journal None) =
     (Inr (Acked ''s'' 1 1), h', d') \<and> hr_host_id h' = ''m'' \<and> cursor (read_ack ''m'' d' ''s'') = 1"
proof -
  have sync: "sy_lock sample_sync = Inr True" "sy_write_status sample_sync p = Stored" "sy_write_ack sample_sync = Stored"
    "sy_send sample_sync rq = Inr \<lparr>sp_session_id = sq_session_id rq, sp_acked_through_revision = 1,
       sp_committed_through_revision = 1, sp_cloud_head_seq = 7, sp_complete = True\<rparr>" for p rq
    by (simp_all add: sample_sync_def)
  have batch: "ack_acceptable sample_batch \<lparr>sp_session_id = ''s'', sp_acked_through_revision = 1,
       sp_committed_through_revision = 1, sp_cloud_head_seq = 7, sp_complete = True\<rparr>"
    "sq_session_id (pb_request sample_batch) = ''s''" "pb_session_id sample_batch = ''s''"
    "length (sq_records (pb_request sample_batch)) = 1" "pb_previous_ack sample_batch = fresh_ack ''m'' ''s''"
    by (simp_all add: sample_batch_def ack_acceptable_def fresh_ack_def last_sent_revision_def record_of_def)
  have sent: "\<exists>h' d'. deliver sample_sync sample_batch h3 d3 = (Inr (Acked ''s'' 1 1), h', d') \<and>
      hr_host_id h' = hr_host_id h3 \<and> cursor (read_ack ''m'' d' ''s'') = 1" for h3 d3
    using batch by (simp add: deliver_def sync record_success_def Let_def advance_ack_def save_status_def
        fresh_ack_def read_ack_def cursor_def)
  have "load_status sample_sync (sample_replicator None 0) (sample_disk sample_journal None) = sample_replicator None 0"
    by (simp add: load_status_def sample_disk_def)
  moreover have "hr_retry_at (sample_replicator None 0) = None" "hr_host_id (sample_replicator p n) = ''m''" for p n
    by (simp_all add: sample_replicator_def)
  moreover define h3 where "h3 = (sample_replicator (Some ''s'') 1)
    \<lparr>hr_status := (hr_status (sample_replicator (Some ''s'') 1))\<lparr>rs_last_attempt_at := Some (sy_unix_time sample_sync AtAttempt)\<rparr>\<rparr>"
  ultimately have "hr_host_id h3 = ''m''" "sync_next sample_sync (sample_replicator None 0) (sample_disk sample_journal None) =
      deliver sample_sync sample_batch h3 (snd (save_status sample_sync (Inr AtAttempt) h3
        (sample_disk sample_journal (Some (hr_status (sample_replicator (Some ''s'') 1))))))"
    using sample_scan sync(1) by (simp_all add: sync_next_def Let_def)
  then show ?thesis using sent [of h3] by metis
qed

theorem cloud_observation_private_witness:
  "cloud_observation sample_sync ((sample_record 1)\<lparr>ob_repository := Some ''home'', ob_repository_key := None,
       ob_content := ErrorContent ''b''\<rparr>) False =
     cloud_observation sample_sync ((sample_record 1)\<lparr>ob_content := ErrorContent ''a''\<rparr>) False"
proof -
  let ?ob = "(sample_record 1)\<lparr>ob_content := ErrorContent ''a''\<rparr>"
  have "content_release sample_sync (ErrorContent ''b'') = content_release sample_sync (ob_content ?ob)"
    by (simp add: content_release_def sample_sync_def)
  from cloud_observation_private [OF this, of None "Some ''home''"] show ?thesis by simp
qed

theorem cursor_never_skips_witness:
  "\<exists>h d cache. source_run sample_codec ''s'' h d cache [first_record] {0, 1} \<and> cursor (read_ack (hr_host_id h) d ''s'') = 1 \<and>
     cursor (read_ack (hr_host_id h) d ''s'') \<le> length [first_record]"
proof -
  let ?h = "sample_replicator None 0" and ?d = "sample_disk sample_journal None"
  have files: "session_files (sample_disk [] None) ''s'' = no_files"
    "session_files ?d ''s'' = no_files\<lparr>jf_journal := Some (JFile (line_of sample_codec first_record))\<rparr>"
    by (simp_all add: session_files_def sample_disk_def)
  let ?cache = "\<lparr>jc_file_len = length (line_of sample_codec first_record), jc_revision = 1, jc_dedupe = [put_nat 1 \<mapsto> 1]\<rparr>"
  have step: "journal_step sample_codec ''s'' (session_files (sample_disk [] None) ''s'') default_cache []
      (session_files ?d ''s'') ?cache [first_record]"
    using journal_step.append [OF sample_untorn sample_append] unfolding files by simp
  have "source_run sample_codec ''s'' ?h (sample_disk [] None) default_cache [] {}"
    by (rule source_run.idle [OF files(1)]) (simp add: sample_disk_def)
  from source_run.journal [OF this step] have one: "source_run sample_codec ''s'' ?h ?d ?cache [first_record] {}"
    by (simp add: sample_disk_def)
  obtain h' d' where round: "sync_next sample_sync ?h ?d = (Inr (Acked ''s'' 1 1), h', d')" "hr_host_id h' = ''m''"
    "cursor (read_ack ''m'' d' ''s'') = 1" using sample_round by blast
  have codec: "sy_codec sample_sync = sample_codec" by (simp add: sample_sync_def)
  have "service_keeps sample_sync ?h ?d ''s'' {} {0, 1}"
    by (auto simp: service_keeps_def sample_sync_def)
  from source_run.round [OF one codec this round(1)]
  have run: "source_run sample_codec ''s'' h' d' ?cache [first_record] {0, 1}" .
  have prep: "prepare (sample_io Whole) ''s'' = Inr ()" using sample_journal_prepare [of Whole] by simp
  obtain k where k: "journal_inv sample_codec ''s'' (session_files d' ''s'') ?cache [first_record] k"
    using source_run_replicated [OF run] by blast
  from cursor_never_skips [OF run prep list_observations_retained [OF k prep, unfolded Let_def]]
  have "cursor (read_ack (hr_host_id h') d' ''s'') \<le> length [first_record]" by simp
  moreover have "cursor (read_ack (hr_host_id h') d' ''s'') = 1" using round(2,3) by simp
  ultimately show ?thesis using run by blast
qed

theorem batch_exact_witness:
  "\<exists>b. session_batch sample_sync (sample_replicator None 0) (sample_disk sample_journal None) ''s'' = Inr (Some b) \<and>
     sq_source_head_revision (pb_request b) = 1 \<and> batch_bytes sample_sync (sq_records (pb_request b)) \<le> 512 * 1024"
proof -
  have files: "session_files (sample_disk sample_journal None) ''s'' =
      no_files\<lparr>jf_journal := Some (JFile (line_of sample_codec first_record))\<rparr>"
    by (simp add: session_files_def sample_disk_def)
  have "journal_run (sy_codec sample_sync) ''s'' (session_files (sample_disk sample_journal None) ''s'')
     \<lparr>jc_file_len = length (line_of sample_codec first_record), jc_revision = 1, jc_dedupe = [put_nat 1 \<mapsto> 1]\<rparr> [first_record]"
    using sample_run unfolding files by (simp add: sample_sync_def)
  note run = this
  have prep: "prepare (sample_io Whole) ''s'' = Inr ()" using sample_journal_prepare [of Whole] by simp
  obtain k where k: "journal_inv (sy_codec sample_sync) ''s'' (session_files (sample_disk sample_journal None) ''s'')
     \<lparr>jc_file_len = length (line_of sample_codec first_record), jc_revision = 1, jc_dedupe = [put_nat 1 \<mapsto> 1]\<rparr> [first_record] k"
    using journal_run_inv [OF run] by blast
  from batch_exact [OF run sample_session_batch prep list_observations_everything [OF k prep]] sample_session_batch
  show ?thesis by (auto simp: Let_def)
qed

text \<open>A session whose journal is empty: every round finds nothing to send and changes nothing.\<close>

abbreviation quiet_disk :: sync_disk where
  "quiet_disk \<equiv> sample_disk [(''obs-s.jsonl'', JFile [])] (Some (hr_status (sample_replicator (Some ''s'') 1)))"

lemma quiet_batch: "session_batch sample_sync (sample_replicator (Some ''s'') 1) quiet_disk ''s'' = Inr None"
  using sample_journal_prepare [of Whole]
  by (simp add: session_batch_def Let_def read_ack_def sample_disk_def fresh_ack_def cursor_def sample_sync_def
      snapshot_def session_files_def read_meta_def default_meta_def sat_add_def u64_max_def sample_replicator_def
      read_journal_def utf8_valid_def str_lines_def)

lemma quiet_round:
  "sync_next sample_sync (sample_replicator (Some ''s'') 1) quiet_disk = (Inr NoWork, sample_replicator (Some ''s'') 1, quiet_disk)"
proof -
  let ?h = "sample_replicator (Some ''s'') 1"
  have "load_status sample_sync ?h quiet_disk = ?h"
    by (simp add: load_status_def sample_disk_def sample_replicator_def default_status_def next_delay_def resume_at_def)
  moreover have "next_batch sample_sync ?h quiet_disk = (Inr None, ?h, quiet_disk)"
  proof -
    have "?h\<lparr>hr_status := (hr_status ?h)\<lparr>rs_sessions_seen := 1, rs_last_session_id := Some ''s''\<rparr>\<rparr> = ?h"
      by (simp add: sample_replicator_def default_status_def)
    moreover have "quiet_disk\<lparr>sd_status := Some (hr_status ?h)\<rparr> = quiet_disk" by (simp add: sample_disk_def)
    moreover have "sy_write_status sample_sync p = Stored" for p by (simp add: sample_sync_def)
    ultimately show ?thesis
      using quiet_batch by (simp add: next_batch_def sample_sessions scan_order_def save_status_def Let_def)
  qed
  moreover have "hr_retry_at ?h = None" by (simp add: sample_replicator_def)
  moreover have "sy_lock sample_sync = Inr True" by (simp add: sample_sync_def)
  ultimately show ?thesis by (simp add: sync_next_def Let_def)
qed

theorem every_session_has_its_turn_witness:
  "retained_sessions sample_sync quiet_disk = Inr [''s''] \<and>
     (\<exists>i < length [''s'']. session_batch sample_sync (sample_replicator (Some ''s'') 1) quiet_disk ''s'' = Inr None \<or>
       fst (next_batch sample_sync (load_status sample_sync (sample_replicator (Some ''s'') 1) quiet_disk) quiet_disk) =
         session_batch sample_sync (sample_replicator (Some ''s'') 1) quiet_disk ''s'')"
proof -
  have "sd_entries quiet_disk = [(''obs-s.jsonl'', JFile [])]" "sy_lock sample_sync = Inr True"
    "sy_write_status sample_sync p = Stored" for p by (simp_all add: sample_disk_def sample_sync_def)
  then show ?thesis
    using every_session_has_its_turn [of "[''s'']" "\<lambda>_. sample_sync" "\<lambda>_. sample_replicator (Some ''s'') 1" "\<lambda>_. quiet_disk"
        "\<lambda>_. Inr NoWork" "\<lambda>_. quiet_disk" "''s''"] quiet_round sample_sessions
    by simp
qed

end
