(* ===== verification/Events_Checks.thy ===== *)
theory Events_Checks
  imports Json "HOL-Library.Sublist"
begin

text \<open>
  The checks of the event sender, \<^verbatim>\<open>src/src/events_sender.rs\<close>: which addresses are public, which
  URLs are safe, when two byte strings are equal, and which identifiers, states and timestamps an
  event may carry. Addresses are words of 32 and 128 bits; the URL parser belongs to the \<^verbatim>\<open>url\<close> crate
  and its result is the record \<open>url\<close>.
\<close>

unbundle bit_operations_syntax

section \<open>Addresses\<close>

datatype ip_addr = V4 "32 word" | V6 "128 word"

definition octet :: "32 word \<Rightarrow> nat \<Rightarrow> nat" where
  "octet ip i = unat (drop_bit (24 - 8 * i) ip) mod 256"

definition public_v4 :: "32 word \<Rightarrow> bool" where
  "public_v4 ip =
     (let a = octet ip 0; b = octet ip 1; c = octet ip 2
      in \<not> (a = 0
          \<or> a = 10
          \<or> (a = 100 \<and> 64 \<le> b \<and> b \<le> 127)
          \<or> a = 127
          \<or> (a = 169 \<and> b = 254)
          \<or> (a = 172 \<and> 16 \<le> b \<and> b \<le> 31)
          \<or> (a = 192 \<and> (b = 0 \<or> b = 168 \<or> (b = 88 \<and> c = 99)))
          \<or> (a = 198 \<and> (b = 18 \<or> b = 19 \<or> (b = 51 \<and> c = 100)))
          \<or> (a = 203 \<and> b = 0 \<and> c = 113)
          \<or> 224 \<le> a))"

text \<open>The same question in the OAuth client of the repository, \<^verbatim>\<open>src/src/local_oauth.rs\<close>.\<close>

definition is_public_ipv4 :: "32 word \<Rightarrow> bool" where
  "is_public_ipv4 ip =
     (let a = octet ip 0; b = octet ip 1; c = octet ip 2
      in if a = 0
            \<or> a = 10
            \<or> a = 127
            \<or> 224 \<le> a
            \<or> (a = 100 \<and> 64 \<le> b \<and> b \<le> 127)
            \<or> (a = 169 \<and> b = 254)
            \<or> (a = 172 \<and> 16 \<le> b \<and> b \<le> 31)
            \<or> (a = 192 \<and> b = 168)
            \<or> (a = 198 \<and> (b = 18 \<or> b = 19))
            \<or> (a = 192 \<and> b = 0 \<and> c = 0)
            \<or> (a = 192 \<and> b = 0 \<and> c = 2)
            \<or> (a = 192 \<and> b = 88 \<and> c = 99)
            \<or> (a = 198 \<and> b = 51 \<and> c = 100)
            \<or> (a = 203 \<and> b = 0 \<and> c = 113)
         then False else True)"

definition segment :: "128 word \<Rightarrow> nat \<Rightarrow> 16 word" where
  "segment ip i = ucast (drop_bit (112 - 16 * i) ip)"

definition to_ipv4_mapped :: "128 word \<Rightarrow> 32 word option" where
  "to_ipv4_mapped ip =
     (if list_all (\<lambda>i. segment ip i = 0) [0, 1, 2, 3, 4] \<and> segment ip 5 = 0xffff then Some (ucast ip) else None)"

definition public_v6 :: "128 word \<Rightarrow> bool" where
  "public_v6 ip =
     (case to_ipv4_mapped ip of
        Some mapped \<Rightarrow> public_v4 mapped
      | None \<Rightarrow>
          let first = segment ip 0
          in first AND 0xe000 = 0x2000
             \<and> \<not> (first = 0x2001 \<and> segment ip 1 AND 0xfe00 = 0)
             \<and> \<not> (first = 0x2001 \<and> segment ip 1 = 0x0db8)
             \<and> first \<noteq> 0x2002
             \<and> \<not> (first = 0x3fff \<and> segment ip 1 AND 0xf000 = 0))"

definition public_ip :: "ip_addr \<Rightarrow> bool" where
  "public_ip address = (case address of V4 ip \<Rightarrow> public_v4 ip | V6 ip \<Rightarrow> public_v6 ip)"

section \<open>URLs\<close>

datatype url_host = Domain string | HostV4 "32 word" | HostV6 "128 word"

record url =
  ul_scheme :: string
  ul_username :: string
  ul_password :: "string option"
  ul_host_str :: "string option"
  ul_host :: "url_host option"
  ul_port :: "16 word option"
  ul_fragment :: "string option"

definition port_or_known_default :: "url \<Rightarrow> 16 word option" where
  "port_or_known_default u =
     (case ul_port u of
        Some p \<Rightarrow> Some p
      | None \<Rightarrow>
          if ul_scheme u = ''http'' \<or> ul_scheme u = ''ws'' then Some 80
          else if ul_scheme u = ''https'' \<or> ul_scheme u = ''wss'' then Some 443
          else if ul_scheme u = ''ftp'' then Some 21
          else None)"

definition safe_url :: "(string \<Rightarrow> url option) \<Rightarrow> string \<Rightarrow> url option" where
  "safe_url parse s =
     (if 2048 < length s then None
      else Option.bind (parse s) (\<lambda>u.
           Option.bind (ul_host_str u) (\<lambda>host.
           if ul_scheme u \<noteq> ''https''
              \<or> (case ul_port u of Some p \<Rightarrow> p \<noteq> 443 | None \<Rightarrow> False)
              \<or> ul_username u \<noteq> []
              \<or> ul_password u \<noteq> None
              \<or> ul_fragment u \<noteq> None
              \<or> suffix ''.local'' host
              \<or> suffix ''.localhost'' host
              \<or> suffix ''.internal'' host
              \<or> host = ''localhost''
           then None else Some u)))"

section \<open>Comparison\<close>

definition COMPARISON_BOUND :: nat where "COMPARISON_BOUND = 4096"

definition byte_at :: "string \<Rightarrow> nat \<Rightarrow> nat" where
  "byte_at s i = (if i < length s then of_char (s ! i) else 0)"

definition constant_time_equal :: "string \<Rightarrow> string \<Rightarrow> bool" where
  "constant_time_equal left right =
     (let difference = length left XOR length right;
          difference = difference OR of_bool (COMPARISON_BOUND < length left \<or> COMPARISON_BOUND < length right)
      in foldl (\<lambda>d i. d OR (byte_at left i XOR byte_at right i)) difference [0..<COMPARISON_BOUND] = (0 :: nat))"

section \<open>Identifiers and states\<close>

definition is_ascii_digit :: "char \<Rightarrow> bool" where
  "is_ascii_digit c = (let b = of_char c :: nat in 48 \<le> b \<and> b \<le> 57)"

definition is_ascii_hexdigit :: "char \<Rightarrow> bool" where
  "is_ascii_hexdigit c = (let b = of_char c :: nat in is_ascii_digit c \<or> 65 \<le> b \<and> b \<le> 70 \<or> 97 \<le> b \<and> b \<le> 102)"

definition strip_lead :: "string \<Rightarrow> string \<Rightarrow> string option" where
  "strip_lead lead s = (if take (length lead) s = lead then Some (drop (length lead) s) else None)"

definition valid_digest_identifier :: "string \<Rightarrow> string \<Rightarrow> bool" where
  "valid_digest_identifier s lead =
     (case strip_lead lead s of
        None \<Rightarrow> False
      | Some digest \<Rightarrow> length digest = 64 \<and> list_all is_ascii_hexdigit digest)"

definition valid_host_id :: "string \<Rightarrow> bool" where
  "valid_host_id s \<longleftrightarrow>
     s \<noteq> [] \<and> length s \<le> 128 \<and> list_ex is_ascii_alphanumeric s
     \<and> list_all (\<lambda>c. is_ascii_alphanumeric c \<or> c \<in> set ''._-'') s"

definition valid_session_id :: "string \<Rightarrow> bool" where
  "valid_session_id s \<longleftrightarrow>
     s \<noteq> [] \<and> length s \<le> 64 \<and> s \<noteq> ''.'' \<and> s \<noteq> ''..''
     \<and> list_all (\<lambda>c. is_ascii_alphanumeric c \<or> c \<in> set ''._-'') s"

definition valid_job_id :: "string \<Rightarrow> bool" where
  "valid_job_id s \<longleftrightarrow>
     s \<noteq> [] \<and> length s \<le> 128 \<and> list_all (\<lambda>c. is_ascii_alphanumeric c \<or> c \<in> set ''._-:'') s"

definition valid_state :: "string \<Rightarrow> string \<Rightarrow> bool" where
  "valid_state name s =
     (if name = ''job.state.changed''
      then s \<in> set [''running'', ''completed'', ''failed'', ''stopped'', ''unknown'']
      else s \<in> set [''starting'', ''active'', ''stopping'', ''stopped'', ''crashed'', ''failed''])"

section \<open>Timestamps\<close>

fun digits_value :: "nat \<Rightarrow> string \<Rightarrow> nat" where
  "digits_value n [] = n"
| "digits_value n (c # s) = digits_value (n * 10 + (of_char c - 48)) s"

text \<open>\<^verbatim>\<open>str::parse::<u32>\<close>, which allows a leading plus sign.\<close>

definition parse_u32 :: "string \<Rightarrow> nat option" where
  "parse_u32 s =
     (let ds = (case s of c # cs \<Rightarrow> if c = CHR ''+'' then cs else s | [] \<Rightarrow> s)
      in if ds \<noteq> [] \<and> list_all is_ascii_digit ds \<and> digits_value 0 ds < 2 ^ 32 then Some (digits_value 0 ds) else None)"

definition number :: "string \<Rightarrow> nat \<Rightarrow> nat \<Rightarrow> nat" where
  "number s start stop = (case parse_u32 (drop start (take stop s)) of Some n \<Rightarrow> n | None \<Rightarrow> 0)"

definition month_days :: "nat \<Rightarrow> nat \<Rightarrow> nat" where
  "month_days year month =
     (let leap = year mod 4 = 0 \<and> (year mod 100 \<noteq> 0 \<or> year mod 400 = 0)
      in if month \<in> set [1, 3, 5, 7, 8, 10, 12] then 31
         else if month \<in> set [4, 6, 9, 11] then 30
         else if month = 2 then (if leap then 29 else 28)
         else 0)"

definition valid_utc_timestamp :: "string \<Rightarrow> bool" where
  "valid_utc_timestamp s =
     (if length s < 20 \<or> 35 < length s \<or> s ! 4 \<noteq> CHR ''-'' \<or> s ! 7 \<noteq> CHR ''-'' \<or> s ! 10 \<noteq> CHR ''T''
         \<or> s ! 13 \<noteq> CHR '':'' \<or> s ! 16 \<noteq> CHR '':'' \<or> last s \<noteq> CHR ''Z'' then False
      else if \<not> list_all (\<lambda>i. is_ascii_digit (s ! i)) [0, 1, 2, 3, 5, 6, 8, 9, 11, 12, 14, 15, 17, 18] then False
      else if 20 < length s \<and> (length s < 22 \<or> s ! 19 \<noteq> CHR ''.''
         \<or> \<not> list_all is_ascii_digit (drop 20 (butlast s))) then False
      else
        let year = number s 0 4; month = number s 5 7; day = number s 8 10
        in 0 < year \<and> 0 < day \<and> day \<le> month_days year month
           \<and> number s 11 13 \<le> 23 \<and> number s 14 16 \<le> 59 \<and> number s 17 19 \<le> 59)"

section \<open>Networks\<close>

text \<open>\<open>in_net\<close>: an address of \<open>w\<close> bits lies in the network \<open>base/len\<close>.\<close>

definition in_net :: "nat \<Rightarrow> nat \<Rightarrow> nat \<times> nat \<Rightarrow> bool" where
  "in_net w ip net = (case net of (base, len) \<Rightarrow> ip div 2 ^ (w - len) = base div 2 ^ (w - len))"

definition v4 :: "nat \<Rightarrow> nat \<Rightarrow> nat \<Rightarrow> nat \<Rightarrow> nat" where
  "v4 a b c d = ((a * 256 + b) * 256 + c) * 256 + d"

text \<open>The special-purpose networks as the repository's other address filters name them
  (\<^verbatim>\<open>is_public_ipv4\<close> and \<^verbatim>\<open>is_public_ipv6\<close> of \<^verbatim>\<open>src/src/local_oauth.rs\<close>,
  \<^verbatim>\<open>is_public_ip\<close> of \<^verbatim>\<open>src/src/fabric_browser.rs\<close>): this network, private use, shared address
  space, loopback, link local, IETF protocol assignments, documentation, 6to4 relays, benchmarking,
  multicast and reserved.\<close>

definition special_v4 :: "(nat \<times> nat) list" where
  "special_v4 =
     [(v4 0 0 0 0, 8), (v4 10 0 0 0, 8), (v4 100 64 0 0, 10), (v4 127 0 0 0, 8), (v4 169 254 0 0, 16),
      (v4 172 16 0 0, 12), (v4 192 0 0 0, 24), (v4 192 0 2 0, 24), (v4 192 88 99 0, 24), (v4 192 168 0 0, 16),
      (v4 198 18 0 0, 15), (v4 198 51 100 0, 24), (v4 203 0 113 0, 24), (v4 224 0 0 0, 3)]"

text \<open>What the sender refuses although most of it is ordinary address space: the condition
  \<^verbatim>\<open>b == 0\<close> of \<^verbatim>\<open>public_v4\<close> takes the whole block around the two /24 networks.\<close>

definition overblocked_v4 :: "nat \<times> nat" where
  "overblocked_v4 = (v4 192 0 0 0, 16)"

text \<open>Global unicast, and the special-purpose networks of IPv6: unspecified, loopback, the two
  translation prefixes, discard only, protocol assignments, documentation, 6to4, segment routing,
  unique local, link local, site local and multicast.\<close>

definition global_v6 :: "nat \<times> nat" where
  "global_v6 = (0x2000 * 2 ^ 112, 3)"

definition special_v6 :: "(nat \<times> nat) list" where
  "special_v6 =
     [(0, 128), (1, 128), (0x0064 * 2 ^ 112 + 0xff9b * 2 ^ 96, 96), (0x0064 * 2 ^ 112 + 0xff9b * 2 ^ 96 + 2 ^ 80, 48),
      (0x0100 * 2 ^ 112, 64), (0x0100 * 2 ^ 112 + 2 ^ 64, 64),
      (0x2001 * 2 ^ 112, 23), (0x2001 * 2 ^ 112 + 0x0db8 * 2 ^ 96, 32), (0x2002 * 2 ^ 112, 16), (0x3fff * 2 ^ 112, 20),
      (0x5f00 * 2 ^ 112, 16), (0xfc00 * 2 ^ 112, 7), (0xfe80 * 2 ^ 112, 10), (0xfec0 * 2 ^ 112, 10), (0xff00 * 2 ^ 112, 8)]"

definition mapped_v6 :: "nat \<times> nat" where
  "mapped_v6 = (0xffff * 2 ^ 32, 96)"

lemma cut256: "y < 256 \<Longrightarrow> (x * 256 + y) div 256 = (x :: nat)"
  by simp

lemma div_block: "0 < k \<Longrightarrow> b div k = j \<longleftrightarrow> j * k \<le> b \<and> b < Suc j * (k :: nat)"
proof -
  assume k: "0 < k"
  have "b div k = j \<longleftrightarrow> j \<le> b div k \<and> b div k < Suc j" by linarith
  also have "\<dots> \<longleftrightarrow> j * k \<le> b \<and> b < Suc j * k"
    using k by (simp only: less_eq_div_iff_mult_less_eq div_less_iff_less_mult)
  finally show ?thesis .
qed

lemma pair_unique:
  assumes "y < m" "y' < m"
  shows "x * m + y = x' * m + y' \<longleftrightarrow> x = x' \<and> y = (y' :: nat)"
proof
  assume eq: "x * m + y = x' * m + y'"
  have "(x * m + y) div m = x" "(x' * m + y') div m = x'" using assms by simp_all
  then have "x = x'" using eq by simp
  with eq show "x = x' \<and> y = y'" by simp
qed simp

lemmas pair256 = pair_unique [where m = 256]

lemma octets:
  fixes ip :: "32 word"
  obtains d where "unat ip = v4 (octet ip 0) (octet ip 1) (octet ip 2) d" "octet ip 0 < 256" "octet ip 1 < 256"
    "octet ip 2 < 256" "d < 256"
proof -
  let ?n = "unat ip"
  have n: "?n < 256 * 256 * 256 * 256" using unsigned_less [of ip] by simp
  have o: "octet ip 0 = ?n div 256 div 256 div 256" "octet ip 1 = ?n div 256 div 256 mod 256" "octet ip 2 = ?n div 256 mod 256"
    using n by (simp_all add: octet_def drop_bit_eq_div unat_div div_mult2_eq [symmetric] less_mult_imp_div_less)
  have "?n = v4 (octet ip 0) (octet ip 1) (octet ip 2) (?n mod 256)"
    unfolding o v4_def by (simp only: div_mult_mod_eq)
  moreover have "octet ip 0 < 256" unfolding o using n by (intro less_mult_imp_div_less)
  ultimately show thesis using that o by simp
qed

text \<open>What the leading bits of an address are in terms of its octets.\<close>

lemma v4_cuts:
  assumes "b < 256" "c < 256" "d < 256"
  shows "v4 a b c d div 2 ^ 8 = (a * 256 + b) * 256 + c" "v4 a b c d div 2 ^ 16 = a * 256 + b" "v4 a b c d div 2 ^ 24 = a"
    and "v4 a b c d div 2 ^ 17 = a * 128 + b div 2" "v4 a b c d div 2 ^ 20 = a * 16 + b div 16"
    and "v4 a b c d div 2 ^ 22 = a * 4 + b div 64" "v4 a b c d div 2 ^ 29 = a div 32"
proof -
  have d8: "v4 a b c d div 256 = (a * 256 + b) * 256 + c" unfolding v4_def by (rule cut256 [OF assms(3)])
  have d16: "v4 a b c d div 256 div 256 = a * 256 + b" unfolding d8 by (rule cut256 [OF assms(2)])
  have d24: "v4 a b c d div 256 div 256 div 256 = a" unfolding d16 by (rule cut256 [OF assms(1)])
  show "v4 a b c d div 2 ^ 8 = (a * 256 + b) * 256 + c" using d8 by simp
  show "v4 a b c d div 2 ^ 16 = a * 256 + b" using d16 by (simp add: div_mult2_eq [symmetric])
  show "v4 a b c d div 2 ^ 24 = a" using d24 by (simp add: div_mult2_eq [symmetric])
  have "v4 a b c d div 2 ^ 17 = v4 a b c d div 256 div 256 div 2" by (simp add: div_mult2_eq [symmetric])
  then show "v4 a b c d div 2 ^ 17 = a * 128 + b div 2" unfolding d16 by simp
  have "v4 a b c d div 2 ^ 20 = v4 a b c d div 256 div 256 div 16" by (simp add: div_mult2_eq [symmetric])
  then show "v4 a b c d div 2 ^ 20 = a * 16 + b div 16" unfolding d16 by simp
  have "v4 a b c d div 2 ^ 22 = v4 a b c d div 256 div 256 div 64" by (simp add: div_mult2_eq [symmetric])
  then show "v4 a b c d div 2 ^ 22 = a * 4 + b div 64" unfolding d16 by simp
  have "v4 a b c d div 2 ^ 29 = v4 a b c d div 256 div 256 div 256 div 32" by (simp add: div_mult2_eq [symmetric])
  then show "v4 a b c d div 2 ^ 29 = a div 32" unfolding d24 .
qed

text \<open>An address lies in a network exactly when its octets say so.\<close>

lemma v4_nets:
  fixes ip :: "32 word"
  shows "in_net 32 (unat ip) (v4 k 0 0 0, 8) \<longleftrightarrow> octet ip 0 = k"
    and "l < 256 \<Longrightarrow> in_net 32 (unat ip) (v4 k l 0 0, 16) \<longleftrightarrow> octet ip 0 = k \<and> octet ip 1 = l"
    and "l < 256 \<Longrightarrow> m < 256 \<Longrightarrow>
      in_net 32 (unat ip) (v4 k l m 0, 24) \<longleftrightarrow> octet ip 0 = k \<and> octet ip 1 = l \<and> octet ip 2 = m"
    and "in_net 32 (unat ip) (v4 100 64 0 0, 10) \<longleftrightarrow> octet ip 0 = 100 \<and> 64 \<le> octet ip 1 \<and> octet ip 1 \<le> 127"
    and "in_net 32 (unat ip) (v4 172 16 0 0, 12) \<longleftrightarrow> octet ip 0 = 172 \<and> 16 \<le> octet ip 1 \<and> octet ip 1 \<le> 31"
    and "in_net 32 (unat ip) (v4 198 18 0 0, 15) \<longleftrightarrow> octet ip 0 = 198 \<and> (octet ip 1 = 18 \<or> octet ip 1 = 19)"
    and "in_net 32 (unat ip) (v4 224 0 0 0, 3) \<longleftrightarrow> 224 \<le> octet ip 0"
proof -
  obtain d where ip: "unat ip = v4 (octet ip 0) (octet ip 1) (octet ip 2) d" and lt: "octet ip 0 < 256" "octet ip 1 < 256"
    "octet ip 2 < 256" "d < 256" by (rule octets)
  define a b c where abc: "a = octet ip 0" "b = octet ip 1" "c = octet ip 2"
  have lt': "a < 256" "b < 256" "c < 256" using lt by (simp_all add: abc)
  have ip: "unat ip = v4 a b c d" using ip by (simp add: abc)
  note cuts = v4_cuts [OF lt'(2,3) lt(4), of a]
  show "in_net 32 (unat ip) (v4 k 0 0 0, 8) \<longleftrightarrow> octet ip 0 = k"
    unfolding ip abc(1) [symmetric] in_net_def prod.case using cuts(3) v4_cuts(3) [of 0 0 0 k] by simp
  show "in_net 32 (unat ip) (v4 k l 0 0, 16) \<longleftrightarrow> octet ip 0 = k \<and> octet ip 1 = l" if "l < 256"
    unfolding ip abc(1,2) [symmetric] in_net_def prod.case
    using cuts(2) v4_cuts(2) [of l 0 0 k] pair256 [OF lt'(2) that] that by simp
  show "in_net 32 (unat ip) (v4 k l m 0, 24) \<longleftrightarrow> octet ip 0 = k \<and> octet ip 1 = l \<and> octet ip 2 = m"
    if "l < 256" "m < 256"
  proof -
    have "(a * 256 + b) * 256 + c = (k * 256 + l) * 256 + m \<longleftrightarrow> a = k \<and> b = l \<and> c = m"
      by (simp only: pair256 [OF lt'(2) that(1)] pair256 [OF lt'(3) that(2)] conj_assoc)
    moreover have "(32 :: nat) - 24 = 8" by simp
    ultimately show ?thesis unfolding ip abc [symmetric]
      by (simp only: in_net_def prod.case cuts(1) v4_cuts(1) [OF that zero_less_numeral])
  qed
  have "a * 4 + b div 64 = 100 * 4 + 1 \<longleftrightarrow> a = 100 \<and> 64 \<le> b \<and> b \<le> 127"
    using lt' pair_unique [of "b div 64" 4 1 a 100] div_block [of 64 b 1] by (auto simp: less_mult_imp_div_less)
  moreover have "a * 16 + b div 16 = 172 * 16 + 1 \<longleftrightarrow> a = 172 \<and> 16 \<le> b \<and> b \<le> 31"
    using lt' pair_unique [of "b div 16" 16 1 a 172] div_block [of 16 b 1] by (auto simp: less_mult_imp_div_less)
  moreover have "a * 128 + b div 2 = 198 * 128 + 9 \<longleftrightarrow> a = 198 \<and> (b = 18 \<or> b = 19)"
    using lt' pair_unique [of "b div 2" 128 9 a 198] div_block [of 2 b 9] by (auto simp: less_mult_imp_div_less)
  moreover have "a div 32 = 7 \<longleftrightarrow> 224 \<le> a" using lt' div_block [of 32 a 7] by auto
  ultimately show "in_net 32 (unat ip) (v4 100 64 0 0, 10) \<longleftrightarrow> octet ip 0 = 100 \<and> 64 \<le> octet ip 1 \<and> octet ip 1 \<le> 127"
    "in_net 32 (unat ip) (v4 172 16 0 0, 12) \<longleftrightarrow> octet ip 0 = 172 \<and> 16 \<le> octet ip 1 \<and> octet ip 1 \<le> 31"
    "in_net 32 (unat ip) (v4 198 18 0 0, 15) \<longleftrightarrow> octet ip 0 = 198 \<and> (octet ip 1 = 18 \<or> octet ip 1 = 19)"
    "in_net 32 (unat ip) (v4 224 0 0 0, 3) \<longleftrightarrow> 224 \<le> octet ip 0"
    unfolding ip abc [symmetric] in_net_def prod.case using cuts(4-7)
    by (simp_all add: v4_def)
qed

lemma public_v4_networks:
  "public_v4 ip \<longleftrightarrow>
     \<not> list_ex (in_net 32 (unat ip)) special_v4 \<and> \<not> in_net 32 (unat ip) overblocked_v4"
  unfolding public_v4_def Let_def special_v4_def overblocked_v4_def
  by (simp add: v4_nets) blast

text \<open>The filter of the OAuth client refuses the special-purpose networks and nothing else, so it is
  the sender alone that refuses the rest of the block.\<close>

lemma oauth_filter_networks: "is_public_ipv4 ip \<longleftrightarrow> \<not> list_ex (in_net 32 (unat ip)) special_v4"
  unfolding is_public_ipv4_def Let_def special_v4_def
  by (simp add: v4_nets)

lemma sender_refuses_ordinary_block:
  "public_v4 ip \<longleftrightarrow> is_public_ipv4 ip \<and> \<not> (octet ip 0 = 192 \<and> octet ip 1 = 0)"
  unfolding public_v4_networks oauth_filter_networks overblocked_v4_def by (simp only: v4_nets zero_less_numeral)

lemma ordinary_address_refused:
  "\<not> public_ip (V4 0xC0004001) \<and> is_public_ipv4 0xC0004001"
  by (simp add: public_ip_def public_v4_def is_public_ipv4_def octet_def Let_def)

lemma and_block: "(n :: nat) AND (2 ^ m - 1) * 2 ^ k = n div 2 ^ k mod 2 ^ m * 2 ^ k"
proof -
  have "(2 ^ m - 1) * 2 ^ k = push_bit k (mask m :: nat)" by (simp add: mask_eq_exp_minus_1 push_bit_eq_mult)
  moreover have "n AND push_bit k (mask m) = push_bit k (take_bit m (drop_bit k n))"
    by (rule bit_eqI) (auto simp: bit_simps)
  ultimately show ?thesis by (simp add: push_bit_eq_mult take_bit_eq_mod drop_bit_eq_div)
qed

lemma and_masks:
  fixes w :: "16 word"
  shows "w AND 0xe000 = 0x2000 \<longleftrightarrow> unat w div 2 ^ 13 = 1" "w AND 0xfe00 = 0 \<longleftrightarrow> unat w div 2 ^ 9 = 0" "w AND 0xf000 = 0 \<longleftrightarrow> unat w div 2 ^ 12 = 0"
proof -
  have w: "unat w < 2 ^ 16" using unsigned_less [of w] by simp
  have "unat (w AND 0xe000) = unat w div 2 ^ 13 * 2 ^ 13" "unat (w AND 0xfe00) = unat w div 2 ^ 9 * 2 ^ 9" "unat (w AND 0xf000) = unat w div 2 ^ 12 * 2 ^ 12"
    using and_block [of "unat w" 3 13] and_block [of "unat w" 7 9] and_block [of "unat w" 4 12] w
    by (simp_all add: unsigned_and_eq less_mult_imp_div_less)
  then show "w AND 0xe000 = 0x2000 \<longleftrightarrow> unat w div 2 ^ 13 = 1" "w AND 0xfe00 = 0 \<longleftrightarrow> unat w div 2 ^ 9 = 0" "w AND 0xf000 = 0 \<longleftrightarrow> unat w div 2 ^ 12 = 0"
    by (simp_all add: word_unat_eq_iff)
qed

lemma unat_segment: "unat (segment ip i) = unat ip div 2 ^ (112 - 16 * i) mod 2 ^ 16"
  by (simp add: segment_def unsigned_ucast_eq unat_drop_bit_eq take_bit_eq_mod) (simp add: drop_bit_eq_div)

lemma mapped_networks: "to_ipv4_mapped ip = (if in_net 128 (unat ip) mapped_v6 then Some (ucast ip) else None)"
proof -
  define m where "m = unat ip div 2 ^ 48"
  define m1 m2 m3 m4 where ms: "m1 = m div 2 ^ 16" "m2 = m1 div 2 ^ 16" "m3 = m2 div 2 ^ 16" "m4 = m3 div 2 ^ 16"
  have ip: "unat ip < 2 ^ 128" using unsigned_less [of ip] by simp
  have segs: "unat (segment ip 4) = m mod 2 ^ 16" "unat (segment ip 3) = m1 mod 2 ^ 16" "unat (segment ip 2) = m2 mod 2 ^ 16"
    "unat (segment ip 1) = m3 mod 2 ^ 16" "unat (segment ip 0) = m4 mod 2 ^ 16"
    by (simp_all add: unat_segment m_def ms div_mult2_eq [symmetric])
  have top: "m4 div 2 ^ 16 = 0" using ip by (simp add: m_def ms div_mult2_eq [symmetric])
  have zero: "x = 0 \<longleftrightarrow> x mod 2 ^ 16 = 0 \<and> x div 2 ^ 16 = 0" for x :: nat
    using div_mult_mod_eq [of x "2 ^ 16"] by auto
  have word0: "w = 0 \<longleftrightarrow> unat w = 0" for w :: "16 word" by (simp add: word_unat_eq_iff)
  have "m = 0 \<longleftrightarrow> m mod 2 ^ 16 = 0 \<and> m1 mod 2 ^ 16 = 0 \<and> m2 mod 2 ^ 16 = 0 \<and> m3 mod 2 ^ 16 = 0 \<and> m4 mod 2 ^ 16 = 0"
    unfolding zero [of m, folded ms] zero [of m1, folded ms] zero [of m2, folded ms] zero [of m3, folded ms] zero [of m4]
    using top by simp
  then have "m = 0 \<longleftrightarrow> list_all (\<lambda>i. segment ip i = 0) [0, 1, 2, 3, 4]"
    unfolding word0 list.pred_inject segs by auto
  moreover have "unat ip div 2 ^ 32 = m * 2 ^ 16 + unat (segment ip 5)"
  proof -
    have "m = unat ip div 2 ^ 32 div 2 ^ 16" by (simp add: m_def div_mult2_eq [symmetric])
    moreover have "unat (segment ip 5) = unat ip div 2 ^ 32 mod 2 ^ 16" by (simp add: unat_segment)
    ultimately show ?thesis by (simp only: div_mult_mod_eq)
  qed
  moreover have "unat (segment ip 5) < 2 ^ 16" using unsigned_less [of "segment ip 5"] by simp
  ultimately have "in_net 128 (unat ip) mapped_v6 \<longleftrightarrow> list_all (\<lambda>i. segment ip i = 0) [0, 1, 2, 3, 4] \<and> segment ip 5 = 0xffff"
    using pair_unique [of "unat (segment ip 5)" "2 ^ 16" "0xffff" m 0]
    by (simp add: in_net_def mapped_v6_def word_unat_eq_iff)
  then show ?thesis by (simp add: to_ipv4_mapped_def)
qed

text \<open>A network whose first three bits are not 001 holds no global unicast address.\<close>

lemma not_global:
  assumes "in_net 128 n (base, len)" "3 \<le> len" "len \<le> 128" "base div 2 ^ 125 \<noteq> 1"
  shows "\<not> in_net 128 n global_v6"
proof -
  have "x div 2 ^ 125 = x div 2 ^ (128 - len) div 2 ^ (len - 3)" for x :: nat
    using assms(2,3) by (simp add: div_mult2_eq [symmetric] power_add [symmetric])
  then have "n div 2 ^ 125 = base div 2 ^ 125" using assms(1) by (simp add: in_net_def)
  then show ?thesis using assms(4) by (simp add: in_net_def global_v6_def)
qed

lemma special_of_global:
  assumes "in_net 128 n global_v6"
  shows "list_ex (in_net 128 n) special_v6 \<longleftrightarrow>
    list_ex (in_net 128 n) [(0x2001 * 2 ^ 112, 23), (0x2001 * 2 ^ 112 + 0x0db8 * 2 ^ 96, 32), (0x2002 * 2 ^ 112, 16), (0x3fff * 2 ^ 112, 20)]"
proof -
  have out: "in_net 128 n (base, len) \<longleftrightarrow> False" if "3 \<le> len" "len \<le> 128" "base div 2 ^ 125 \<noteq> 1" for base len
    using not_global [OF _ that] assms by blast
  show ?thesis
    unfolding special_v6_def list_ex_Cons_iff list_ex_Nil_iff
    by (subst (1 2 3 4 5 6 11 12 13 14 15) out; simp)
qed

lemma public_v6_networks:
  "public_v6 ip \<longleftrightarrow>
     (if in_net 128 (unat ip) mapped_v6 then public_v4 (ucast ip)
      else in_net 128 (unat ip) global_v6 \<and> \<not> list_ex (in_net 128 (unat ip)) special_v6)"
proof -
  define a b where "a = unat (segment ip 0)" and "b = unat (segment ip 1)"
  have b: "b < 2 ^ 16" using unsigned_less [of "segment ip 1"] by (simp add: b_def)
  have "unat ip < 2 ^ 128" using unsigned_less [of ip] by simp
  then have a: "a = unat ip div 2 ^ 112" by (simp add: a_def unat_segment less_mult_imp_div_less)
  have ab: "unat ip div 2 ^ 96 = a * 2 ^ 16 + b"
  proof -
    have "a = unat ip div 2 ^ 96 div 2 ^ 16" by (simp add: a div_mult2_eq [symmetric])
    moreover have "b = unat ip div 2 ^ 96 mod 2 ^ 16" by (simp add: b_def unat_segment)
    ultimately show ?thesis by (simp only: div_mult_mod_eq)
  qed
  have "unat ip div 2 ^ 125 = a div 2 ^ 13" by (simp add: a div_mult2_eq [symmetric])
  moreover have "unat ip div 2 ^ 105 = a * 2 ^ 7 + b div 2 ^ 9"
  proof -
    have "unat ip div 2 ^ 105 = (a * 2 ^ 16 + b) div 2 ^ 9" unfolding ab [symmetric] by (simp add: div_mult2_eq [symmetric])
    then show ?thesis by simp
  qed
  moreover have "unat ip div 2 ^ 108 = a * 2 ^ 4 + b div 2 ^ 12"
  proof -
    have "unat ip div 2 ^ 108 = (a * 2 ^ 16 + b) div 2 ^ 12" unfolding ab [symmetric] by (simp add: div_mult2_eq [symmetric])
    then show ?thesis by simp
  qed
  ultimately have cuts: "unat ip div 2 ^ 125 = a div 2 ^ 13" "unat ip div 2 ^ 105 = a * 2 ^ 7 + b div 2 ^ 9"
    "unat ip div 2 ^ 108 = a * 2 ^ 4 + b div 2 ^ 12" by simp_all
  have net3: "in_net 128 (unat ip) global_v6 \<longleftrightarrow> a div 2 ^ 13 = 1"
    using cuts(1) by (simp add: in_net_def global_v6_def)
  have "b div 2 ^ 9 < 2 ^ 7" "b div 2 ^ 12 < 2 ^ 4" using b by (simp_all add: less_mult_imp_div_less)
  then have pairs: "a * 2 ^ 7 + b div 2 ^ 9 = 0x2001 * 2 ^ 7 + 0 \<longleftrightarrow> a = 0x2001 \<and> b div 2 ^ 9 = 0"
    "a * 2 ^ 4 + b div 2 ^ 12 = 0x3fff * 2 ^ 4 + 0 \<longleftrightarrow> a = 0x3fff \<and> b div 2 ^ 12 = 0"
    "a * 2 ^ 16 + b = 0x2001 * 2 ^ 16 + 0x0db8 \<longleftrightarrow> a = 0x2001 \<and> b = 0x0db8"
    using b by (simp_all only: pair_unique zero_less_numeral zero_less_power) (subst pair_unique, simp_all)
  have bases: "(0x2001 * 2 ^ 112) div 2 ^ 105 = (0x2001 * 2 ^ 7 + 0 :: nat)" "(0x3fff * 2 ^ 112) div 2 ^ 108 = (0x3fff * 2 ^ 4 + 0 :: nat)"
    "(0x2001 * 2 ^ 112 + 0x0db8 * 2 ^ 96) div 2 ^ 96 = (0x2001 * 2 ^ 16 + 0x0db8 :: nat)" "(0x2002 * 2 ^ 112) div 2 ^ 112 = (0x2002 :: nat)"
    and lens: "128 - 23 = (105 :: nat)" "128 - 20 = (108 :: nat)" "128 - 32 = (96 :: nat)" "128 - 16 = (112 :: nat)"
    by simp_all
  have nets: "in_net 128 (unat ip) (0x2001 * 2 ^ 112, 23) \<longleftrightarrow> a = 0x2001 \<and> b div 2 ^ 9 = 0"
    "in_net 128 (unat ip) (0x2001 * 2 ^ 112 + 0x0db8 * 2 ^ 96, 32) \<longleftrightarrow> a = 0x2001 \<and> b = 0x0db8"
    "in_net 128 (unat ip) (0x2002 * 2 ^ 112, 16) \<longleftrightarrow> a = 0x2002"
    "in_net 128 (unat ip) (0x3fff * 2 ^ 112, 20) \<longleftrightarrow> a = 0x3fff \<and> b div 2 ^ 12 = 0"
    unfolding in_net_def prod.case lens bases cuts ab a [symmetric] pairs by (rule refl)+
  have masks: "segment ip 0 AND 0xe000 = 0x2000 \<longleftrightarrow> a div 2 ^ 13 = 1" "segment ip 1 AND 0xfe00 = 0 \<longleftrightarrow> b div 2 ^ 9 = 0"
    "segment ip 1 AND 0xf000 = 0 \<longleftrightarrow> b div 2 ^ 12 = 0"
    unfolding a_def b_def by (rule and_masks)+
  have words: "segment ip 0 = 0x2001 \<longleftrightarrow> a = 0x2001" "segment ip 0 = 0x2002 \<longleftrightarrow> a = 0x2002"
    "segment ip 0 = 0x3fff \<longleftrightarrow> a = 0x3fff" "segment ip 1 = 0x0db8 \<longleftrightarrow> b = 0x0db8"
    by (simp_all add: word_unat_eq_iff a_def b_def)
  show ?thesis
    unfolding public_v6_def mapped_networks Let_def masks words net3 [symmetric]
    by (cases "in_net 128 (unat ip) mapped_v6"; cases "in_net 128 (unat ip) global_v6")
      (simp_all only: special_of_global if_True if_False simp_thms option.case list_ex_Cons_iff list_ex_Nil_iff nets, blast?)
qed

section \<open>Comparison and identifiers\<close>

lemma foldl_or_zero: "foldl (\<lambda>d i. d OR f i) a xs = 0 \<longleftrightarrow> a = (0 :: nat) \<and> (\<forall>i \<in> set xs. f i = 0)"
  by (induction xs arbitrary: a) (auto simp: or_eq_0_iff)

lemma xor_zero: "a XOR b = 0 \<longleftrightarrow> a = (b :: nat)"
  by (metis bit.conj_xor_distrib xor.assoc xor.left_neutral xor.right_neutral xor_self_eq)

lemma strip_lead_Some: "strip_lead lead s = Some t \<longleftrightarrow> s = lead @ t"
  by (auto simp: strip_lead_def append_eq_conv_conj) (metis append_take_drop_id)

lemma constant_time_equal_iff:
  "constant_time_equal left right \<longleftrightarrow> left = right \<and> length left \<le> COMPARISON_BOUND"
proof -
  have "constant_time_equal left right \<longleftrightarrow>
      length left = length right \<and> length left \<le> COMPARISON_BOUND \<and> length right \<le> COMPARISON_BOUND \<and>
      (\<forall>i < COMPARISON_BOUND. byte_at left i = byte_at right i)"
    unfolding constant_time_equal_def Let_def foldl_or_zero by (auto simp: or_eq_0_iff xor_zero)
  also have "\<dots> \<longleftrightarrow> left = right \<and> length left \<le> COMPARISON_BOUND"
    by (auto simp: byte_at_def list_eq_iff_nth_eq split: if_splits)
  finally show ?thesis .
qed

section \<open>Timestamps as dates\<close>

text \<open>A number in decimal with leading zeros.\<close>

fun padded :: "nat \<Rightarrow> nat \<Rightarrow> string" where
  "padded 0 n = []"
| "padded (Suc k) n = padded k (n div 10) @ [char_of (48 + n mod 10)]"

lemma padded_length [simp]: "length (padded k n) = k"
  by (induction k arbitrary: n) simp_all

lemma digit_char: "n < 10 \<Longrightarrow> is_ascii_digit (char_of (48 + n)) \<and> of_char (char_of (48 + n :: nat) :: char) = (48 + n :: nat)"
  by (simp add: is_ascii_digit_def Let_def)

lemma padded_digits: "list_all is_ascii_digit (padded k n)"
  using digit_char [of "m mod 10" for m] by (induction k arbitrary: n) auto

lemma digits_value_append: "digits_value n (s @ [c]) = digits_value n s * 10 + (of_char c - 48)"
  by (induction s arbitrary: n) simp_all

lemma digits_value_padded: "digits_value 0 (padded k n) = n mod 10 ^ k"
proof (induction k arbitrary: n)
  case (Suc k)
  have "n mod 10 ^ Suc k = n div 10 mod 10 ^ k * 10 + n mod 10"
    by (simp add: mod_mult2_eq mult.commute)
  with Suc digit_char [of "n mod 10"] show ?case by (simp add: digits_value_append)
qed simp

lemma digits_padded:
  "list_all is_ascii_digit s \<Longrightarrow> s = padded (length s) (digits_value 0 s)"
proof (induction s rule: rev_induct)
  case (snoc c s)
  then obtain v where v: "of_char c = 48 + (v :: nat)" "v < 10"
    by (auto simp: is_ascii_digit_def Let_def nat_le_iff_add)
  then have "char_of (48 + v) = c" by (metis char_of_char)
  moreover have "digits_value 0 (s @ [c]) div 10 = digits_value 0 s" "digits_value 0 (s @ [c]) mod 10 = v"
    using v by (simp_all add: digits_value_append)
  ultimately show ?case using snoc by simp
qed simp

lemma digits_value_bound: "list_all is_ascii_digit s \<Longrightarrow> digits_value 0 s < 10 ^ length s"
  using digits_padded [of s] digits_value_padded [of "length s" "digits_value 0 s"]
  by (metis mod_less_divisor zero_less_numeral zero_less_power)

definition gregorian_leap :: "nat \<Rightarrow> bool" where
  "gregorian_leap y \<longleftrightarrow> 4 dvd y \<and> (100 dvd y \<longrightarrow> 400 dvd y)"

definition month_lengths :: "nat \<Rightarrow> nat list" where
  "month_lengths y = [31, if gregorian_leap y then 29 else 28, 31, 30, 31, 30, 31, 31, 30, 31, 30, 31]"

text \<open>A point in time: a date of the Gregorian calendar, a time of the day and up to fourteen digits
  of a second.\<close>

record utc =
  ut_year :: nat
  ut_month :: nat
  ut_day :: nat
  ut_hour :: nat
  ut_minute :: nat
  ut_second :: nat
  ut_fraction :: string

definition utc_ok :: "utc \<Rightarrow> bool" where
  "utc_ok t \<longleftrightarrow> 1 \<le> ut_year t \<and> ut_year t \<le> 9999 \<and> 1 \<le> ut_month t \<and> ut_month t \<le> 12 \<and>
     1 \<le> ut_day t \<and> ut_day t \<le> month_lengths (ut_year t) ! (ut_month t - 1) \<and>
     ut_hour t < 24 \<and> ut_minute t < 60 \<and> ut_second t < 60 \<and>
     length (ut_fraction t) \<le> 14 \<and> list_all is_ascii_digit (ut_fraction t)"

definition utc_text :: "utc \<Rightarrow> string" where
  "utc_text t = padded 4 (ut_year t) @ ''-'' @ padded 2 (ut_month t) @ ''-'' @ padded 2 (ut_day t) @ ''T''
     @ padded 2 (ut_hour t) @ '':'' @ padded 2 (ut_minute t) @ '':'' @ padded 2 (ut_second t)
     @ (if ut_fraction t = [] then [] else ''.'' @ ut_fraction t) @ ''Z''"

lemma month_days_length:
  "month_days y m = (if 1 \<le> m \<and> m \<le> 12 then month_lengths y ! (m - 1) else 0)"
proof -
  have "m = 0 \<or> m = 1 \<or> m = 2 \<or> m = 3 \<or> m = 4 \<or> m = 5 \<or> m = 6 \<or> m = 7 \<or> m = 8 \<or> m = 9 \<or> m = 10 \<or> m = 11 \<or> m = 12 \<or> 12 < m"
    by arith
  moreover have "gregorian_leap y \<longleftrightarrow> y mod 4 = 0 \<and> (y mod 100 \<noteq> 0 \<or> y mod 400 = 0)"
    by (auto simp: gregorian_leap_def dvd_eq_mod_eq_0)
  ultimately show ?thesis by (elim disjE) (simp_all add: month_days_def month_lengths_def Let_def)
qed

lemma parse_digits:
  assumes "list_all is_ascii_digit s" "s \<noteq> []" "length s \<le> 4"
  shows "parse_u32 s = Some (digits_value 0 s)"
proof -
  have "digits_value 0 s < 10 ^ length s" using digits_value_bound [OF assms(1)] .
  also have "(10 :: nat) ^ length s \<le> 10 ^ 4" using assms(3) by (intro power_increasing) simp_all
  finally have "digits_value 0 s < 2 ^ 32" by simp
  moreover have "hd s \<noteq> CHR ''+''" using assms by (cases s) (auto simp: is_ascii_digit_def Let_def)
  ultimately show ?thesis using assms by (cases s) (simp_all add: parse_u32_def Let_def)
qed

definition all_digits :: "string \<Rightarrow> bool" where
  "all_digits s = list_all is_ascii_digit s"

text \<open>A text of at least nineteen characters, with its characters named.\<close>

lemma timestamp_chars:
  fixes y1 y2 y3 y4 m1 m2 d1 d2 h1 h2 i1 i2 s1 s2 a b c d t :: char
  assumes len: "0 < length rest" "length rest \<le> 16"
  defines "s \<equiv> [y1, y2, y3, y4, a, m1, m2, b, d1, d2, t, h1, h2, c, i1, i2, d, s1, s2] @ rest"
  shows "valid_utc_timestamp s \<longleftrightarrow>
    a = CHR ''-'' \<and> b = CHR ''-'' \<and> t = CHR ''T'' \<and> c = CHR '':'' \<and> d = CHR '':'' \<and> last rest = CHR ''Z'' \<and>
    all_digits [y1, y2, y3, y4] \<and> all_digits [m1, m2] \<and> all_digits [d1, d2] \<and> all_digits [h1, h2] \<and>
    all_digits [i1, i2] \<and> all_digits [s1, s2] \<and>
    (length rest = 1 \<or> 3 \<le> length rest \<and> hd rest = CHR ''.'' \<and> all_digits (drop 1 (butlast rest))) \<and>
    0 < digits_value 0 [y1, y2, y3, y4] \<and> 0 < digits_value 0 [d1, d2] \<and>
    digits_value 0 [d1, d2] \<le> month_days (digits_value 0 [y1, y2, y3, y4]) (digits_value 0 [m1, m2]) \<and>
    digits_value 0 [h1, h2] \<le> 23 \<and> digits_value 0 [i1, i2] \<le> 59 \<and> digits_value 0 [s1, s2] \<le> 59"
proof -
  have rest: "rest \<noteq> []" using len by auto
  have nums: "all_digits [y1, y2, y3, y4] \<Longrightarrow> number s 0 4 = digits_value 0 [y1, y2, y3, y4]"
    "all_digits [m1, m2] \<Longrightarrow> number s 5 7 = digits_value 0 [m1, m2]"
    "all_digits [d1, d2] \<Longrightarrow> number s 8 10 = digits_value 0 [d1, d2]"
    "all_digits [h1, h2] \<Longrightarrow> number s 11 13 = digits_value 0 [h1, h2]"
    "all_digits [i1, i2] \<Longrightarrow> number s 14 16 = digits_value 0 [i1, i2]"
    "all_digits [s1, s2] \<Longrightarrow> number s 17 19 = digits_value 0 [s1, s2]"
    using parse_digits unfolding number_def s_def all_digits_def by simp_all
  have at: "s ! 4 = a" "s ! 7 = b" "s ! 10 = t" "s ! 13 = c" "s ! 16 = d" "last s = last rest" "length s = 19 + length rest"
    "s ! 19 = hd rest" "drop 20 (butlast s) = drop 1 (butlast rest)"
    using rest unfolding s_def by (simp_all add: hd_conv_nth butlast_append)
  have digits: "list_all (\<lambda>i. is_ascii_digit (s ! i)) [0, 1, 2, 3, 5, 6, 8, 9, 11, 12, 14, 15, 17, 18] \<longleftrightarrow>
      all_digits [y1, y2, y3, y4] \<and> all_digits [m1, m2] \<and> all_digits [d1, d2] \<and> all_digits [h1, h2] \<and>
      all_digits [i1, i2] \<and> all_digits [s1, s2]"
    unfolding s_def all_digits_def by simp
  have ns: "\<not> 19 + n < 20" "\<not> 35 < 19 + n" "20 < 19 + n \<longleftrightarrow> n \<noteq> 1" "19 + n < 22 \<longleftrightarrow> n < 3"
    if "0 < n" "n \<le> 16" for n :: nat using that by auto
  note lens = ns [OF len]
  have odd: "length rest < 3 \<longleftrightarrow> \<not> 3 \<le> length rest" by auto
  show ?thesis
  proof (cases "all_digits [y1, y2, y3, y4] \<and> all_digits [m1, m2] \<and> all_digits [d1, d2] \<and> all_digits [h1, h2] \<and>
      all_digits [i1, i2] \<and> all_digits [s1, s2]")
    case True
    then have num: "number s 0 4 = digits_value 0 [y1, y2, y3, y4]" "number s 5 7 = digits_value 0 [m1, m2]"
      "number s 8 10 = digits_value 0 [d1, d2]" "number s 11 13 = digits_value 0 [h1, h2]"
      "number s 14 16 = digits_value 0 [i1, i2]" "number s 17 19 = digits_value 0 [s1, s2]"
      using nums by blast+
    show ?thesis
      unfolding valid_utc_timestamp_def at digits lens odd Let_def all_digits_def [symmetric] num
      using True by (simp only: if_True if_False simp_thms lens(1,2) split: if_split) blast
  next
    case False
    then show ?thesis
      unfolding valid_utc_timestamp_def at digits lens odd Let_def by (simp only: if_True if_False simp_thms lens(1,2) split: if_split) blast
  qed
qed

lemma padded_chars:
  "\<exists>a b. padded 2 n = [a, b]" "\<exists>a b c d. padded 4 n = [a, b, c, d]"
  using padded_length [of 2 n] padded_length [of 4 n]
  by (auto simp: numeral_2_eq_2 numeral_eq_Suc length_Suc_conv simp del: padded_length padded.simps)

lemma padded_all_digits: "all_digits (padded k n)"
  by (simp add: all_digits_def padded_digits)

lemma all_digits_padded: "all_digits s \<Longrightarrow> length s = k \<Longrightarrow> padded k (digits_value 0 s) = s"
  using digits_padded [of s] by (simp add: all_digits_def)

lemma nineteen_chars:
  "length xs = 19 \<Longrightarrow> \<exists>y1 y2 y3 y4 a m1 m2 b d1 d2 t h1 h2 c i1 i2 d s1 s2.
     xs = [y1, y2, y3, y4, a, m1, m2, b, d1, d2, t, h1, h2, c, i1, i2, d, s1, s2]"
  by (auto simp: numeral_eq_Suc length_Suc_conv)

lemma utc_text_valid:
  assumes "utc_ok t"
  shows "valid_utc_timestamp (utc_text t)"
proof -
  obtain y1 y2 y3 y4 where y: "padded 4 (ut_year t) = [y1, y2, y3, y4]" using padded_chars(2) by blast
  obtain m1 m2 where m: "padded 2 (ut_month t) = [m1, m2]" using padded_chars(1) by blast
  obtain d1 d2 where d: "padded 2 (ut_day t) = [d1, d2]" using padded_chars(1) by blast
  obtain h1 h2 where h: "padded 2 (ut_hour t) = [h1, h2]" using padded_chars(1) by blast
  obtain i1 i2 where i: "padded 2 (ut_minute t) = [i1, i2]" using padded_chars(1) by blast
  obtain s1 s2 where s: "padded 2 (ut_second t) = [s1, s2]" using padded_chars(1) by blast
  define rest where "rest = (if ut_fraction t = [] then [] else ''.'' @ ut_fraction t) @ ''Z''"
  have fraction: "0 < length rest" "length rest \<le> 16" "last rest = CHR ''Z''"
    "length rest = 1 \<or> 3 \<le> length rest \<and> hd rest = CHR ''.'' \<and> all_digits (drop 1 (butlast rest))"
    using assms by (cases "ut_fraction t"; auto simp: rest_def utc_ok_def all_digits_def butlast_append)+
  have dv: "digits_value 0 (padded 4 n) = n" if "n \<le> 9999" for n using that by (simp add: digits_value_padded)
  have dv2: "digits_value 0 (padded 2 n) = n" if "n < 100" for n using that by (simp add: digits_value_padded)
  have "ut_day t < 100"
    using assms month_days_length [of "ut_year t" "ut_month t"] by (auto simp: utc_ok_def month_days_def Let_def split: if_splits)
  then have dvs: "digits_value 0 [y1, y2, y3, y4] = ut_year t" "digits_value 0 [m1, m2] = ut_month t"
    "digits_value 0 [d1, d2] = ut_day t" "digits_value 0 [h1, h2] = ut_hour t" "digits_value 0 [i1, i2] = ut_minute t"
    "digits_value 0 [s1, s2] = ut_second t"
    using assms unfolding y [symmetric] m [symmetric] d [symmetric] h [symmetric] i [symmetric] s [symmetric]
    by (simp_all only: utc_ok_def dv dv2) (simp_all add: dv2)
  have digits: "all_digits [y1, y2, y3, y4]" "all_digits [m1, m2]" "all_digits [d1, d2]" "all_digits [h1, h2]"
    "all_digits [i1, i2]" "all_digits [s1, s2]"
    using padded_all_digits y m d h i s by metis+
  have shape: "utc_text t = [y1, y2, y3, y4, CHR ''-'', m1, m2, CHR ''-'', d1, d2, CHR ''T'', h1, h2, CHR '':'', i1, i2, CHR '':'', s1, s2] @ rest"
    by (simp add: utc_text_def rest_def y m d h i s)
  have "0 < ut_year t" "0 < ut_day t" "ut_day t \<le> month_days (ut_year t) (ut_month t)" "ut_hour t \<le> 23" "ut_minute t \<le> 59"
    "ut_second t \<le> 59" using assms month_days_length by (auto simp: utc_ok_def)
  then show ?thesis
    unfolding shape timestamp_chars [OF fraction(1,2)] dvs using fraction(3,4) digits by blast
qed

lemma fraction_text:
  assumes "0 < length rest" "length rest \<le> 16" "last rest = CHR ''Z''"
    and "length rest = 1 \<or> 3 \<le> length rest \<and> hd rest = CHR ''.'' \<and> all_digits (drop 1 (butlast rest))"
  shows "\<exists>fr. rest = (if fr = [] then [] else ''.'' @ fr) @ ''Z'' \<and> all_digits fr \<and> length fr \<le> 14"
proof -
  obtain front where rest: "rest = front @ ''Z''"
    using assms(1,3) by (metis append_butlast_last_id length_greater_0_conv)
  show ?thesis
  proof (cases front)
    case Nil
    with rest show ?thesis by (intro exI [of _ "[]"]) (simp add: all_digits_def)
  next
    case (Cons x fr)
    with rest assms show ?thesis by (intro exI [of _ fr]) (auto simp: all_digits_def)
  qed
qed

lemma valid_utc_text:
  assumes "valid_utc_timestamp s"
  shows "\<exists>t. utc_ok t \<and> s = utc_text t"
proof -
  have len: "20 \<le> length s" "length s \<le> 35" using assms by (auto simp: valid_utc_timestamp_def split: if_splits)
  define rest where "rest = drop 19 s"
  have "length (take 19 s) = 19" using len by simp
  from nineteen_chars [OF this] obtain y1 y2 y3 y4 a m1 m2 b d1 d2 t h1 h2 c i1 i2 d s1 s2
    where "take 19 s = [y1, y2, y3, y4, a, m1, m2, b, d1, d2, t, h1, h2, c, i1, i2, d, s1, s2]"
    by (elim exE) (rule that)
  then have s: "s = [y1, y2, y3, y4, a, m1, m2, b, d1, d2, t, h1, h2, c, i1, i2, d, s1, s2] @ rest"
    using append_take_drop_id [of 19 s] by (simp add: rest_def)
  have rest: "0 < length rest" "length rest \<le> 16" using len by (simp_all add: rest_def)
  define y mo da ho mi se where nums: "y = digits_value 0 [y1, y2, y3, y4]" "mo = digits_value 0 [m1, m2]" "da = digits_value 0 [d1, d2]"
    "ho = digits_value 0 [h1, h2]" "mi = digits_value 0 [i1, i2]" "se = digits_value 0 [s1, s2]"
  note ok = assms [unfolded s timestamp_chars [OF rest], folded nums]
  from ok have marks: "a = CHR ''-''" "b = CHR ''-''" "t = CHR ''T''" "c = CHR '':''" "d = CHR '':''" "last rest = CHR ''Z''" by blast+
  from ok have digits: "all_digits [y1, y2, y3, y4]" "all_digits [m1, m2]" "all_digits [d1, d2]" "all_digits [h1, h2]"
    "all_digits [i1, i2]" "all_digits [s1, s2]" by blast+
  from ok have dates: "0 < y" "0 < da" "da \<le> month_days y mo" "ho \<le> 23" "mi \<le> 59" "se \<le> 59" by blast+
  from ok have fraction: "length rest = 1 \<or> 3 \<le> length rest \<and> hd rest = CHR ''.'' \<and> all_digits (drop 1 (butlast rest))" by blast
  obtain fr where r: "rest = (if fr = [] then [] else ''.'' @ fr) @ ''Z''" and fr: "all_digits fr" "length fr \<le> 14"
    using fraction_text [OF rest marks(6) fraction] by blast
  define u where "u = \<lparr>ut_year = y, ut_month = mo, ut_day = da, ut_hour = ho, ut_minute = mi, ut_second = se, ut_fraction = fr\<rparr>"
  have "y < 10 ^ 4" using digits_value_bound [of "[y1, y2, y3, y4]"] digits(1) unfolding all_digits_def nums(1) by simp
  moreover have "1 \<le> mo \<and> mo \<le> 12" using dates(2,3) month_days_length [of y mo] by (auto split: if_splits)
  ultimately have "utc_ok u"
    using dates fr month_days_length [of y mo] by (auto simp: utc_ok_def u_def all_digits_def)
  moreover have pads: "padded 4 y = [y1, y2, y3, y4]" "padded 2 mo = [m1, m2]" "padded 2 da = [d1, d2]" "padded 2 ho = [h1, h2]"
    "padded 2 mi = [i1, i2]" "padded 2 se = [s1, s2]"
    unfolding nums
    by (rule all_digits_padded, rule digits, simp)+
  have "s = utc_text u"
    unfolding s r by (simp add: utc_text_def u_def pads marks)
  ultimately show ?thesis by blast
qed

section \<open>Properties\<close>

text \<open>C36. Which destinations are public. An IPv4 address passes exactly when it lies in none of the
  fourteen special-purpose networks and not in 192.0.0.0/16, of which only two /24 networks are
  special. An IPv6 address passes exactly when it maps an IPv4 address that passes, or is global
  unicast (2000::/3) outside every special-purpose network; address space outside 2000::/3 is refused
  whether or not it is special. On IPv4 this is the filter of the OAuth client less
  192.0.0.0/16.\<close>

theorem public_ip_exact:
  "(public_ip (V4 ip4) \<longleftrightarrow>
      \<not> list_ex (in_net 32 (unat ip4)) special_v4 \<and> \<not> in_net 32 (unat ip4) overblocked_v4) \<and>
   (public_ip (V4 ip4) \<longleftrightarrow> is_public_ipv4 ip4 \<and> \<not> (octet ip4 0 = 192 \<and> octet ip4 1 = 0)) \<and>
   (public_ip (V6 ip6) \<longleftrightarrow>
      (if in_net 128 (unat ip6) mapped_v6
       then \<not> list_ex (in_net 32 (unat ip6 mod 2 ^ 32)) special_v4 \<and> \<not> in_net 32 (unat ip6 mod 2 ^ 32) overblocked_v4
       else in_net 128 (unat ip6) global_v6 \<and> \<not> list_ex (in_net 128 (unat ip6)) special_v6))"
proof -
  have "unat (ucast ip6 :: 32 word) = unat ip6 mod 2 ^ 32" by (simp add: unsigned_ucast_eq take_bit_eq_mod)
  then show ?thesis
    using sender_refuses_ordinary_block [of ip4]
    by (simp only: public_ip_def ip_addr.case public_v4_networks [of "ucast ip6"] public_v4_networks [of ip4, symmetric] public_v6_networks)
qed

text \<open>The accepted timestamps are the texts of points in time: a text passes exactly when it is a
  date of the Gregorian calendar and a time of the day, written in full with an optional fraction of
  up to fourteen digits and a final \<^verbatim>\<open>Z\<close>.\<close>

theorem valid_utc_timestamp_exact: "valid_utc_timestamp s \<longleftrightarrow> (\<exists>t. utc_ok t \<and> s = utc_text t)"
  using valid_utc_text utc_text_valid by blast

text \<open>Two byte strings are found equal exactly when they are equal and not longer than the bound;
  no longer secret is ever accepted.\<close>

theorem constant_time_equal_exact:
  "constant_time_equal left right \<longleftrightarrow> left = right \<and> length left \<le> 4096"
  using constant_time_equal_iff by (simp add: COMPARISON_BOUND_def)

end
