(* ===== verification/Events_Sender.thy ===== *)
theory Events_Sender
  imports Events_Checks
begin

text \<open>
  The sender of event webhooks, \<^verbatim>\<open>src/src/events_sender.rs\<close>: the authenticated request is parsed, its
  URL, secrets and event are checked, the destination is resolved and checked, and one signed request
  is posted. What the handler does to the network is the list of its \<open>net_effect\<close>s. The JSON and Base64
  codecs, the URL parser, HMAC, UUIDs, name resolution, the clock and the HTTP client are the fields of
  \<open>sender_env\<close>.
\<close>

section \<open>The envelope\<close>

record send_envelope =
  se_kind :: string
  se_url :: string
  se_subscription_id :: string
  se_secret :: string
  se_previous_secret :: "string option"
  se_challenge :: "string option"
  se_event_body :: "string option"

record send_slots =
  es_kind :: "string option"
  es_url :: "string option"
  es_subscription_id :: "string option"
  es_secret :: "string option"
  es_previous_secret :: "string option option"
  es_challenge :: "string option option"
  es_event_body :: "string option option"

definition no_send_slots :: send_slots where
  "no_send_slots = \<lparr>es_kind = None, es_url = None, es_subscription_id = None, es_secret = None,
     es_previous_secret = None, es_challenge = None, es_event_body = None\<rparr>"

text \<open>A field may come once, and its value must have the type of the field.\<close>

definition fill :: "'a option \<Rightarrow> 'a option \<Rightarrow> ('a option \<Rightarrow> 's) \<Rightarrow> 's option" where
  "fill slot v put = (if slot = None then map_option (\<lambda>x. put (Some x)) v else None)"

definition send_field :: "string \<Rightarrow> json \<Rightarrow> send_slots \<Rightarrow> send_slots option" where
  "send_field k v s =
     (if k = ''kind'' then fill (es_kind s) (read_string v) (\<lambda>x. s\<lparr>es_kind := x\<rparr>)
      else if k = ''url'' then fill (es_url s) (read_string v) (\<lambda>x. s\<lparr>es_url := x\<rparr>)
      else if k = ''subscriptionId'' then fill (es_subscription_id s) (read_string v) (\<lambda>x. s\<lparr>es_subscription_id := x\<rparr>)
      else if k = ''secret'' then fill (es_secret s) (read_string v) (\<lambda>x. s\<lparr>es_secret := x\<rparr>)
      else if k = ''previousSecret'' then fill (es_previous_secret s) (read_option read_string v) (\<lambda>x. s\<lparr>es_previous_secret := x\<rparr>)
      else if k = ''challenge'' then fill (es_challenge s) (read_option read_string v) (\<lambda>x. s\<lparr>es_challenge := x\<rparr>)
      else if k = ''eventBody'' then fill (es_event_body s) (read_option read_string v) (\<lambda>x. s\<lparr>es_event_body := x\<rparr>)
      else None)"

definition send_of_slots :: "send_slots \<Rightarrow> send_envelope option" where
  "send_of_slots s =
     (case (es_kind s, es_url s, es_subscription_id s, es_secret s) of
        (Some k, Some u, Some i, Some x) \<Rightarrow>
          Some \<lparr>se_kind = k, se_url = u, se_subscription_id = i, se_secret = x,
            se_previous_secret = Option.bind (es_previous_secret s) id,
            se_challenge = Option.bind (es_challenge s) id,
            se_event_body = Option.bind (es_event_body s) id\<rparr>
      | _ \<Rightarrow> None)"

text \<open>The derived \<^verbatim>\<open>Deserialize\<close>: a map with the fields by name, or a sequence of exactly the seven
  fields in order.\<close>

definition send_of_seq :: "json list \<Rightarrow> send_envelope option" where
  "send_of_seq vs =
     (case vs of
        [k, u, i, x, p, c, b] \<Rightarrow>
          (case (read_string k, read_string u, read_string i, read_string x,
                 read_option read_string p, read_option read_string c, read_option read_string b) of
             (Some k, Some u, Some i, Some x, Some p, Some c, Some b) \<Rightarrow>
               Some \<lparr>se_kind = k, se_url = u, se_subscription_id = i, se_secret = x,
                 se_previous_secret = p, se_challenge = c, se_event_body = b\<rparr>
           | _ \<Rightarrow> None)
      | _ \<Rightarrow> None)"

definition deserialize_send :: "json \<Rightarrow> send_envelope option" where
  "deserialize_send v =
     (case v of
        JArray vs \<Rightarrow> send_of_seq vs
      | _ \<Rightarrow> deserialize_map send_field no_send_slots send_of_slots v)"

definition send_seen :: "send_slots \<Rightarrow> string \<Rightarrow> bool" where
  "send_seen s k =
     ((k = ''kind'' \<and> es_kind s \<noteq> None) \<or> (k = ''url'' \<and> es_url s \<noteq> None)
      \<or> (k = ''subscriptionId'' \<and> es_subscription_id s \<noteq> None) \<or> (k = ''secret'' \<and> es_secret s \<noteq> None)
      \<or> (k = ''previousSecret'' \<and> es_previous_secret s \<noteq> None) \<or> (k = ''challenge'' \<and> es_challenge s \<noteq> None)
      \<or> (k = ''eventBody'' \<and> es_event_body s \<noteq> None))"

lemma fill_Some: "fill slot v put = Some s \<longleftrightarrow> slot = None \<and> (\<exists>x. v = Some x \<and> s = put (Some x))"
  by (auto simp: fill_def)

lemma send_field_key:
  "send_field k v s = Some s' \<Longrightarrow> k = ''kind'' \<or> k = ''url'' \<or> k = ''subscriptionId'' \<or> k = ''secret''
     \<or> k = ''previousSecret'' \<or> k = ''challenge'' \<or> k = ''eventBody''"
  by (simp add: send_field_def split: if_splits)

lemma send_field_seen:
  assumes "send_field k v s = Some s'"
  shows "\<not> send_seen s k" "send_seen s' k' \<longleftrightarrow> k' = k \<or> send_seen s k'"
proof -
  show "\<not> send_seen s k"
    using send_field_key [OF assms] assms by (elim disjE) (simp_all add: send_field_def fill_Some send_seen_def)
  show "send_seen s' k' \<longleftrightarrow> k' = k \<or> send_seen s k'"
    using send_field_key [OF assms] assms
    by (elim disjE; cases "k' = k"; clarsimp simp: send_field_def fill_Some send_seen_def)
qed

interpretation send_visitor: field_visitor send_field send_seen
  by unfold_locales (simp add: send_field_seen fun_eq_iff)

text \<open>An object that is accepted has each of its fields once, no field of another name, and the four
  mandatory ones.\<close>

lemma accepted_envelope_fields:
  assumes "deserialize_send (JObject fs) = Some m"
  shows "distinct (map fst fs) \<and> {''kind'', ''url'', ''subscriptionId'', ''secret''} \<subseteq> set (map fst fs)
    \<and> set (map fst fs) \<subseteq> {''kind'', ''url'', ''subscriptionId'', ''secret'', ''previousSecret'', ''challenge'', ''eventBody''}"
proof -
  from assms obtain s where s: "visit_fields send_field fs no_send_slots = Some s" "send_of_slots s = Some m"
    by (auto simp: deserialize_send_def deserialize_map_Some_iff)
  have none: "\<not> send_seen no_send_slots k" for k by (simp add: send_seen_def no_send_slots_def)
  have seen: "distinct (map fst fs)" "\<And>k. send_seen s k \<longleftrightarrow> k \<in> set (map fst fs)"
    using send_visitor.visit_fields_seen [OF s(1)] none by blast+
  have mandatory: "send_seen s ''kind''" "send_seen s ''url''" "send_seen s ''subscriptionId''" "send_seen s ''secret''"
    using s(2) by (simp_all add: send_of_slots_def send_seen_def split: option.splits)
  have known: "k \<in> {''kind'', ''url'', ''subscriptionId'', ''secret'', ''previousSecret'', ''challenge'', ''eventBody''}"
    if "send_seen s k" for k using that unfolding send_seen_def by (elim disjE conjE) simp_all
  have "{''kind'', ''url'', ''subscriptionId'', ''secret''} \<subseteq> set (map fst fs)"
    unfolding insert_subset seen(2) [symmetric] using mandatory by (intro conjI empty_subsetI)
  moreover have "set (map fst fs) \<subseteq> {''kind'', ''url'', ''subscriptionId'', ''secret'', ''previousSecret'', ''challenge'', ''eventBody''}"
    by (rule subsetI, rule known) (simp only: seen(2))
  ultimately show ?thesis using seen(1) by (intro conjI)
qed

section \<open>The world of the sender\<close>

type_synonym header_list = "(string \<times> string) list"
type_synonym socket = "ip_addr \<times> 16 word"
type_synonym rejection = "nat \<times> string"

record webhook_request =
  wr_url :: url
  wr_host :: string
  wr_sockets :: "socket list"
  wr_headers :: header_list
  wr_body :: string

text \<open>The body of a response arrives in chunks; reading it may fail or take longer than the time
  allowed.\<close>

datatype chunk_event = Chunk string | Broken | Stalled

record webhook_response =
  rp_status :: nat
  rp_chunks :: "chunk_event list"

datatype net_effect = Lookup string "16 word" | Post webhook_request

record sender_env =
  sx_bearer :: string
  sx_document :: "string \<Rightarrow> json option"
  sx_value :: "string \<Rightarrow> json option"
  sx_to_vec :: "json \<Rightarrow> string"
  sx_url :: "string \<Rightarrow> url option"
  sx_decode :: "string \<Rightarrow> string option"
  sx_encode :: "string \<Rightarrow> string"
  sx_hmac :: "string \<Rightarrow> string \<Rightarrow> string"
  sx_uuid_ok :: "string \<Rightarrow> bool"
  sx_new_uuid :: string
  sx_lookup :: "string \<Rightarrow> 16 word \<Rightarrow> socket list option"
  sx_client :: "string \<Rightarrow> socket list \<Rightarrow> bool"
  sx_clock :: "nat option"
  sx_post :: "webhook_request \<Rightarrow> webhook_response option"

record send_result =
  sr_status :: nat
  sr_verified :: bool

record http_response =
  hr_status :: nat
  hr_body :: "json option"

definition MAX_BODY :: nat where "MAX_BODY = 262144"

definition MAX_RESPONSE :: nat where "MAX_RESPONSE = 4096"

section \<open>Authentication\<close>

text \<open>\<^verbatim>\<open>HeaderValue::to_str\<close>: visible ASCII and the horizontal tab.\<close>

definition to_str :: "string \<Rightarrow> string option" where
  "to_str v = (if list_all (\<lambda>c. let b = of_char c :: nat in 32 \<le> b \<and> b < 127 \<or> b = 9) v then Some v else None)"

definition header_text :: "header_list \<Rightarrow> string \<Rightarrow> string option" where
  "header_text headers name = Option.bind (map_of headers name) to_str"

definition authenticated :: "sender_env \<Rightarrow> header_list \<Rightarrow> bool" where
  "authenticated E headers =
     (let supplied = (case header_text headers ''authorization'' of Some v \<Rightarrow> v | None \<Rightarrow> []);
          expected = ''Bearer '' @ sx_bearer E
      in 32 \<le> length (sx_bearer E) \<and> constant_time_equal supplied expected)"

definition health :: "sender_env \<Rightarrow> header_list \<Rightarrow> nat" where
  "health E headers = (if authenticated E headers then 204 else 401)"

section \<open>Keys and signatures\<close>

definition signing_key :: "sender_env \<Rightarrow> string \<Rightarrow> string option" where
  "signing_key E s =
     Option.bind (strip_lead ''whsec_'' s) (\<lambda>encoded.
     Option.bind (sx_decode E encoded) (\<lambda>bytes.
     if 24 \<le> length bytes \<and> length bytes \<le> 64 \<and> sx_encode E bytes = encoded then Some bytes else None))"

definition transpose_option :: "'a option option \<Rightarrow> 'a option option" where
  "transpose_option v =
     (case v of Some (Some x) \<Rightarrow> Some (Some x) | Some None \<Rightarrow> None | None \<Rightarrow> Some None)"

definition signed_data :: "string \<Rightarrow> string \<Rightarrow> string \<Rightarrow> string" where
  "signed_data msg_id timestamp body = msg_id @ ''.'' @ timestamp @ ''.'' @ body"

definition signature :: "sender_env \<Rightarrow> string \<Rightarrow> string \<Rightarrow> string \<Rightarrow> string \<Rightarrow> string" where
  "signature E key msg_id timestamp body = ''v1,'' @ sx_encode E (sx_hmac E key (signed_data msg_id timestamp body))"

text \<open>\<^verbatim>\<open>join\<close> with a space.\<close>

fun join_space :: "string list \<Rightarrow> string" where
  "join_space [] = []"
| "join_space [s] = s"
| "join_space (s # t # ss) = s @ '' '' @ join_space (t # ss)"

section \<open>Events\<close>

definition str_field :: "json \<Rightarrow> string \<Rightarrow> string option" where
  "str_field v k = Option.bind (jget v k) as_str"

definition str_or_empty :: "json \<Rightarrow> string \<Rightarrow> string" where
  "str_or_empty v k = (case str_field v k of Some s \<Rightarrow> s | None \<Rightarrow> [])"

definition expected_keys :: "string \<Rightarrow> string list" where
  "expected_keys name =
     (if name = ''job.state.changed''
      then [''host_id'', ''session_id'', ''job_id'', ''previous_state'', ''state'', ''timestamp'']
      else [''host_id'', ''session_id'', ''previous_state'', ''state'', ''timestamp''])"

definition valid_event_data :: "string \<Rightarrow> json option \<Rightarrow> bool" where
  "valid_event_data name v =
     (case v of
        Some (JObject fs) \<Rightarrow>
          (let expected = expected_keys name; object = JObject fs
           in if length fs \<noteq> length expected \<or> list_ex (\<lambda>(k, _). k \<notin> set expected) fs then False
              else valid_host_id (str_or_empty object ''host_id'')
                   \<and> valid_session_id (str_or_empty object ''session_id'')
                   \<and> valid_state name (str_or_empty object ''state'')
                   \<and> valid_utc_timestamp (str_or_empty object ''timestamp'')
                   \<and> (case jget object ''previous_state'' of
                        None \<Rightarrow> False
                      | Some p \<Rightarrow> p = JNull \<or> (case as_str p of Some s \<Rightarrow> valid_state name s | None \<Rightarrow> False))
                   \<and> (name \<noteq> ''job.state.changed''
                      \<or> (case str_field object ''job_id'' of Some s \<Rightarrow> valid_job_id s | None \<Rightarrow> False)))
      | _ \<Rightarrow> False)"

text \<open>The checks of the parsed event body; the result is the event's id.\<close>

definition event_checks :: "json \<Rightarrow> rejection + string" where
  "event_checks event =
     and_then (ok_or (case str_field event ''eventId'' of
                        Some i \<Rightarrow> if valid_digest_identifier i ''evt_'' then Some i else None
                      | None \<Rightarrow> None) (400, ''invalid_event'')) (\<lambda>event_id.
     let name = str_or_empty event ''name''
     in if \<not> (name = ''job.state.changed'' \<or> name = ''session.state.changed'')
           \<or> \<not> valid_event_data name (jget event ''data'')
           \<or> \<not> (case str_field event ''timestamp'' of Some t \<Rightarrow> valid_utc_timestamp t | None \<Rightarrow> False)
           \<or> jget event ''timestamp'' \<noteq> Option.bind (jget event ''data'') (\<lambda>data. jget data ''timestamp'')
           \<or> jget event ''cursor'' \<noteq> Some JNull
           \<or> (case event of JObject fs \<Rightarrow> length fs \<noteq> 5 | _ \<Rightarrow> True)
        then Inl (400, ''invalid_event'') else Inr event_id)"

definition verification_body :: "sender_env \<Rightarrow> string \<Rightarrow> string" where
  "verification_body E challenge =
     sx_to_vec E (JObject [(''challenge'', JString challenge), (''type'', JString ''verification'')])"

text \<open>What is to be sent: the id of the message, its body, and the challenge the answer must echo.\<close>

definition message :: "sender_env \<Rightarrow> send_envelope \<Rightarrow> rejection + (string \<times> string \<times> string option)" where
  "message E m =
     (if se_kind m = ''verification'' \<and> se_previous_secret m = None \<and> se_event_body m = None then
        and_then (ok_or (case se_challenge m of
                           Some c \<Rightarrow> if sx_uuid_ok E c then Some c else None
                         | None \<Rightarrow> None) (400, ''invalid_challenge'')) (\<lambda>challenge.
        Inr (''msg_verification_'' @ sx_new_uuid E, verification_body E challenge, Some challenge))
      else if se_kind m = ''delivery'' \<and> se_challenge m = None then
        and_then (ok_or (se_event_body m) (400, ''invalid_event'')) (\<lambda>body.
        if MAX_BODY < length body then Inl (413, ''event_too_large'')
        else
          and_then (ok_or (sx_value E body) (400, ''invalid_event'')) (\<lambda>event.
          and_then (event_checks event) (\<lambda>event_id.
          Inr (event_id, body, None))))
      else Inl (400, ''invalid_envelope''))"

section \<open>Sending\<close>

definition resolve_public :: "sender_env \<Rightarrow> string \<Rightarrow> 16 word \<Rightarrow> socket list option" where
  "resolve_public E host port =
     Option.bind (sx_lookup E host port) (\<lambda>addresses.
     if addresses = [] \<or> 64 < length addresses \<or> list_ex (\<lambda>a. \<not> public_ip (fst a)) addresses then None
     else Some addresses)"

definition sockets_of :: "sender_env \<Rightarrow> url_host \<Rightarrow> 16 word \<Rightarrow> net_effect list \<times> (rejection + socket list)" where
  "sockets_of E host port =
     (case host of
        HostV4 ip \<Rightarrow> ([], Inr [(V4 ip, port)])
      | HostV6 ip \<Rightarrow> ([], Inr [(V6 ip, port)])
      | Domain d \<Rightarrow> ([Lookup d port], ok_or (resolve_public E d port) (400, ''invalid_address'')))"

fun read_chunks :: "string \<Rightarrow> chunk_event list \<Rightarrow> rejection + string" where
  "read_chunks received [] = Inr received"
| "read_chunks received (Broken # cs) = Inl (502, ''response_failed'')"
| "read_chunks received (Stalled # cs) = Inl (504, ''response_timeout'')"
| "read_chunks received (Chunk c # cs) =
     (if MAX_RESPONSE - length received < length c then Inl (502, ''response_too_large'')
      else read_chunks (received @ c) cs)"

definition finish_response :: "sender_env \<Rightarrow> webhook_response \<Rightarrow> string option \<Rightarrow> rejection + send_result" where
  "finish_response E response challenge =
     (let status = rp_status response
      in case challenge of
           None \<Rightarrow> Inr \<lparr>sr_status = status, sr_verified = False\<rparr>
         | Some c \<Rightarrow>
             and_then (read_chunks [] (rp_chunks response)) (\<lambda>received.
             let echoed = Option.bind (sx_value E received) (\<lambda>v. str_field v ''challenge'');
                 verified = 200 \<le> status \<and> status < 300 \<and>
                   (case echoed of Some e \<Rightarrow> constant_time_equal e c | None \<Rightarrow> False)
             in Inr \<lparr>sr_status = status, sr_verified = verified\<rparr>))"

text \<open>The checks made before the network is touched: the URL, the keys and the message.\<close>

definition checked_input ::
  "sender_env \<Rightarrow> header_list \<Rightarrow> send_envelope \<Rightarrow> rejection + (url \<times> string \<times> string option \<times> string \<times> string \<times> string option)" where
  "checked_input E headers input =
     ensure (authenticated E headers) (401, ''unauthorized'') (
     ensure (header_text headers ''content-type'' = Some ''application/json'') (415, ''invalid_content_type'') (
     and_then (ok_or (safe_url (sx_url E) (se_url input)) (400, ''invalid_url'')) (\<lambda>parsed.
     ensure (valid_digest_identifier (se_subscription_id input) ''sub_'') (400, ''invalid_subscription'') (
     and_then (ok_or (signing_key E (se_secret input)) (400, ''invalid_secret'')) (\<lambda>secret.
     and_then (ok_or (transpose_option (map_option (signing_key E) (se_previous_secret input))) (400, ''invalid_secret'')) (\<lambda>old.
     and_then (message E input) (\<lambda>(webhook_id, body, challenge).
     ensure (length body \<le> MAX_BODY) (413, ''event_too_large'') (
     Inr (parsed, secret, old, webhook_id, body, challenge)))))))))"

definition webhook_of ::
  "sender_env \<Rightarrow> string \<Rightarrow> url \<Rightarrow> string \<Rightarrow> socket list \<Rightarrow> string \<Rightarrow> string option \<Rightarrow> string \<Rightarrow> string \<Rightarrow> string \<Rightarrow> webhook_request" where
  "webhook_of E subscription_id parsed host sockets secret old webhook_id timestamp body =
     (let signatures = signature E secret webhook_id timestamp body #
            (case old of Some k \<Rightarrow> [signature E k webhook_id timestamp body] | None \<Rightarrow> [])
      in \<lparr>wr_url = parsed, wr_host = host, wr_sockets = sockets,
          wr_headers = [(''Content-Type'', ''application/json''), (''webhook-id'', webhook_id),
            (''webhook-timestamp'', timestamp), (''webhook-signature'', join_space signatures),
            (''X-MCP-Subscription-Id'', subscription_id)],
          wr_body = body\<rparr>)"

definition transmit ::
  "sender_env \<Rightarrow> send_envelope \<Rightarrow> url \<times> string \<times> string option \<times> string \<times> string \<times> string option \<Rightarrow> string \<Rightarrow> socket list \<Rightarrow>
   net_effect list \<times> (rejection + send_result)" where
  "transmit E input c host sockets =
     (case c of (parsed, secret, old, webhook_id, body, challenge) \<Rightarrow>
        if list_ex (\<lambda>s. \<not> public_ip (fst s)) sockets then ([], Inl (400, ''invalid_address''))
        else if \<not> sx_client E host sockets then ([], Inl (502, ''transport_unavailable''))
        else case sx_clock E of
               None \<Rightarrow> ([], Inl (500, ''clock_unavailable''))
             | Some seconds \<Rightarrow>
                 let request = webhook_of E (se_subscription_id input) parsed host sockets secret old webhook_id (decimal seconds) body
                 in ([Post request],
                     case sx_post E request of
                       None \<Rightarrow> Inl (502, ''delivery_failed'')
                     | Some response \<Rightarrow> finish_response E response challenge))"

definition send_checked :: "sender_env \<Rightarrow> header_list \<Rightarrow> send_envelope \<Rightarrow> net_effect list \<times> (rejection + send_result)" where
  "send_checked E headers input =
     (case checked_input E headers input of
        Inl e \<Rightarrow> ([], Inl e)
      | Inr c \<Rightarrow>
          (let parsed = fst c in
           case (ul_host_str parsed, port_or_known_default parsed, ul_host parsed) of
             (Some host, Some port, Some h) \<Rightarrow>
               (case sockets_of E h port of
                  (looked, Inl e) \<Rightarrow> (looked, Inl e)
                | (looked, Inr sockets) \<Rightarrow>
                    (case transmit E input c host sockets of (sent, r) \<Rightarrow> (looked @ sent, r)))
           | _ \<Rightarrow> ([], Inl (400, ''invalid_url''))))"

definition respond :: "rejection + send_result \<Rightarrow> http_response" where
  "respond result =
     (case result of
        Inr r \<Rightarrow> \<lparr>hr_status = 200,
          hr_body = Some (JObject [(''status'', juint (of_nat (sr_status r))), (''verified'', JBool (sr_verified r))])\<rparr>
      | Inl (status, code) \<Rightarrow> \<lparr>hr_status = status, hr_body = Some (JObject [(''error'', JString code)])\<rparr>)"

definition send :: "sender_env \<Rightarrow> header_list \<Rightarrow> string \<Rightarrow> net_effect list \<times> http_response" where
  "send E headers body =
     (case Option.bind (sx_document E body) deserialize_send of
        Some input \<Rightarrow> (case send_checked E headers input of (effects, r) \<Rightarrow> (effects, respond r))
      | None \<Rightarrow> ([], respond (Inl (400, ''invalid_envelope''))))"

text \<open>The body limit of the route: a larger body is refused before the handler runs.\<close>

definition route_send :: "sender_env \<Rightarrow> header_list \<Rightarrow> string \<Rightarrow> net_effect list \<times> http_response" where
  "route_send E headers body =
     (if 300 * 1024 < length body then ([], \<lparr>hr_status = 413, hr_body = None\<rparr>) else send E headers body)"

section \<open>What a request to the network says about the input\<close>

lemma effects_of_send: "fst (route_send E headers body) = [] \<or>
  (\<exists>input. Option.bind (sx_document E body) deserialize_send = Some input \<and> length body \<le> 300 * 1024 \<and>
     fst (route_send E headers body) = fst (send_checked E headers input))"
  by (auto simp: route_send_def send_def split: option.splits prod.splits)

lemma sockets_of_no_post: "sockets_of E h port = (looked, r) \<Longrightarrow> Post q \<notin> set looked"
  by (auto simp: sockets_of_def split: url_host.splits)

lemma posted:
  assumes "Post r \<in> set (fst (send_checked E headers input))"
  obtains parsed secret old webhook_id body challenge host port h looked sockets seconds where
    "checked_input E headers input = Inr (parsed, secret, old, webhook_id, body, challenge)"
    "ul_host_str parsed = Some host" "port_or_known_default parsed = Some port" "ul_host parsed = Some h"
    "sockets_of E h port = (looked, Inr sockets)" "list_all (\<lambda>s. public_ip (fst s)) sockets"
    "sx_client E host sockets" "sx_clock E = Some seconds"
    "r = webhook_of E (se_subscription_id input) parsed host sockets secret old webhook_id (decimal seconds) body"
    "send_checked E headers input = (looked @ [Post r],
       case sx_post E r of None \<Rightarrow> Inl (502, ''delivery_failed'') | Some response \<Rightarrow> finish_response E response challenge)"
proof -
  obtain c where c: "checked_input E headers input = Inr c"
    using assms by (auto simp: send_checked_def split: sum.splits)
  obtain parsed secret old webhook_id body challenge where c': "c = (parsed, secret, old, webhook_id, body, challenge)"
    by (cases c)
  obtain host port h where u: "ul_host_str parsed = Some host" "port_or_known_default parsed = Some port" "ul_host parsed = Some h"
    using assms by (auto simp: send_checked_def c c' split: option.splits)
  obtain looked sockets where s: "sockets_of E h port = (looked, Inr sockets)"
    using assms by (cases "sockets_of E h port"; cases "snd (sockets_of E h port)")
      (auto simp: send_checked_def c c' u sockets_of_no_post)
  have t: "Post r \<in> set (fst (transmit E input c host sockets))"
    "send_checked E headers input = (looked @ fst (transmit E input c host sockets), snd (transmit E input c host sockets))"
    using assms sockets_of_no_post [OF s] by (auto simp: send_checked_def c c' u s split: prod.splits)
  from t(1) have p: "list_all (\<lambda>s. public_ip (fst s)) sockets" "sx_client E host sockets"
    by (auto simp: transmit_def c' list_ex_iff list_all_iff split: if_splits)
  from t(1) p obtain seconds where k: "sx_clock E = Some seconds"
    by (auto simp: transmit_def c' split: if_splits option.splits)
  have r: "r = webhook_of E (se_subscription_id input) parsed host sockets secret old webhook_id (decimal seconds) body"
    using t(1) by (auto simp: transmit_def c' k Let_def split: if_splits)
  have n: "\<not> list_ex (\<lambda>s. \<not> public_ip (fst s)) sockets" using p(1) by (auto simp: list_ex_iff list_all_iff)
  have e: "send_checked E headers input = (looked @ [Post r],
       case sx_post E r of None \<Rightarrow> Inl (502, ''delivery_failed'') | Some response \<Rightarrow> finish_response E response challenge)"
    unfolding t(2) using p n by (simp add: transmit_def c' k Let_def r)
  show thesis using that [OF c [unfolded c'] u s p k r e] .
qed

lemma checked_input_Inr:
  "checked_input E headers input = Inr (parsed, secret, old, webhook_id, body, challenge) \<longleftrightarrow>
     authenticated E headers \<and> header_text headers ''content-type'' = Some ''application/json''
     \<and> safe_url (sx_url E) (se_url input) = Some parsed
     \<and> valid_digest_identifier (se_subscription_id input) ''sub_''
     \<and> signing_key E (se_secret input) = Some secret
     \<and> transpose_option (map_option (signing_key E) (se_previous_secret input)) = Some old
     \<and> message E input = Inr (webhook_id, body, challenge) \<and> length body \<le> MAX_BODY"
  by (auto simp: checked_input_def)

lemma authenticated_iff:
  "authenticated E headers \<longleftrightarrow>
     header_text headers ''authorization'' = Some (''Bearer '' @ sx_bearer E)
     \<and> 32 \<le> length (sx_bearer E) \<and> length (sx_bearer E) \<le> 4089"
  by (auto simp: authenticated_def constant_time_equal_iff COMPARISON_BOUND_def Let_def split: option.splits)

lemma header_text_Some: "header_text headers name = Some v \<Longrightarrow> map_of headers name = Some v"
  by (auto simp: header_text_def to_str_def bind_eq_Some_conv split: if_splits)

lemma safe_url_Some:
  assumes "safe_url parse s = Some u"
  shows "parse s = Some u" "length s \<le> 2048" "ul_scheme u = ''https''" "port_or_known_default u = Some 443"
    "ul_username u = []" "ul_password u = None" "ul_fragment u = None"
    "\<exists>host. ul_host_str u = Some host \<and> host \<noteq> ''localhost'' \<and> \<not> suffix ''.local'' host
       \<and> \<not> suffix ''.localhost'' host \<and> \<not> suffix ''.internal'' host"
  using assms
  by (auto simp: safe_url_def port_or_known_default_def bind_eq_Some_conv split: if_splits option.splits)

lemma sockets_of_found:
  "sockets_of E h port = (looked, Inr sockets) \<Longrightarrow> sockets \<noteq> [] \<and> length sockets \<le> 64 \<and> length looked \<le> 1"
  by (auto simp: sockets_of_def resolve_public_def ok_or_def bind_eq_Some_conv split: url_host.splits option.splits if_splits)

section \<open>The events that are forwarded\<close>

text \<open>A transition of a job or of a session, and its event as JSON. A \<^verbatim>\<open>serde_json::Value\<close> keeps the
  keys of an object in ascending order.\<close>

record state_change =
  tr_event_id :: string
  tr_host :: string
  tr_session :: string
  tr_job :: "string option"
  tr_previous :: "string option"
  tr_state :: string
  tr_timestamp :: string

definition tr_name :: "state_change \<Rightarrow> string" where
  "tr_name t = (case tr_job t of Some _ \<Rightarrow> ''job.state.changed'' | None \<Rightarrow> ''session.state.changed'')"

definition transition_ok :: "state_change \<Rightarrow> bool" where
  "transition_ok t \<longleftrightarrow>
     valid_digest_identifier (tr_event_id t) ''evt_'' \<and> valid_host_id (tr_host t) \<and> valid_session_id (tr_session t)
     \<and> pred_option valid_job_id (tr_job t) \<and> pred_option (valid_state (tr_name t)) (tr_previous t)
     \<and> valid_state (tr_name t) (tr_state t) \<and> valid_utc_timestamp (tr_timestamp t)"

definition data_json :: "state_change \<Rightarrow> json" where
  "data_json t = JObject (
     [(''host_id'', JString (tr_host t))] @
     (case tr_job t of Some j \<Rightarrow> [(''job_id'', JString j)] | None \<Rightarrow> []) @
     [(''previous_state'', jopt JString (tr_previous t)), (''session_id'', JString (tr_session t)),
      (''state'', JString (tr_state t)), (''timestamp'', JString (tr_timestamp t))])"

definition event_json :: "state_change \<Rightarrow> json" where
  "event_json t = JObject
     [(''cursor'', JNull), (''data'', data_json t), (''eventId'', JString (tr_event_id t)),
      (''name'', JString (tr_name t)), (''timestamp'', JString (tr_timestamp t))]"

definition keys_ascend :: "json \<Rightarrow> bool" where
  "keys_ascend v = (case v of JObject fs \<Rightarrow> ascending (map fst fs) | _ \<Rightarrow> True)"

definition value_order :: "json \<Rightarrow> bool" where
  "value_order v \<longleftrightarrow> keys_ascend v \<and> pred_option keys_ascend (jget v ''data'')"

text \<open>An object whose keys ascend is determined by the set of its keys and by what they map to.\<close>

lemma object_of_keys:
  assumes "ascending (map fst fs)" "ascending ks" "set (map fst fs) = set ks"
  shows "fs = map (\<lambda>k. (k, the (map_of fs k))) ks"
proof -
  have ks: "map fst fs = ks" using assms by (intro ascending_unique)
  have "(fst p, the (map_of fs (fst p))) = p" if "p \<in> set fs" for p
    using that assms(1) by (metis map_of_eq_Some_iff option.sel prod.collapse)
  then have "map (\<lambda>k. (k, the (map_of fs k))) (map fst fs) = fs"
    unfolding map_map comp_def by (rule map_idI)
  with ks show ?thesis by simp
qed

lemma keys_of_count:
  assumes "distinct (map fst fs)" "length fs = length ks" "set ks \<subseteq> set (map fst fs)" "distinct ks"
  shows "set (map fst fs) = set ks"
proof -
  have "card (set (map fst fs)) = length fs" using distinct_card [OF assms(1)] by simp
  moreover have "card (set ks) = length ks" using assms(4) by (rule distinct_card)
  ultimately show ?thesis using assms(2,3) by (intro card_subset_eq [symmetric]) auto
qed

lemma keys_of_inclusion:
  assumes "distinct (map fst fs)" "length fs = length ks" "set (map fst fs) \<subseteq> set ks" "distinct ks"
  shows "set (map fst fs) = set ks"
proof -
  have "card (set (map fst fs)) = length fs" using distinct_card [OF assms(1)] by simp
  moreover have "card (set ks) = length ks" using assms(4) by (rule distinct_card)
  ultimately show ?thesis using assms(2,3) by (intro card_subset_eq) auto
qed

lemma as_str_Some: "(case as_str v of Some s \<Rightarrow> P s | None \<Rightarrow> False) \<longleftrightarrow> (\<exists>s. v = JString s \<and> P s)"
  by (auto simp: as_str_def split: json.splits)

lemma str_or_empty_valid: "\<not> P [] \<Longrightarrow> P (str_or_empty v k) \<longleftrightarrow> (\<exists>s. jget v k = Some (JString s) \<and> P s)"
  by (auto simp: str_or_empty_def str_field_def bind_eq_Some_conv split: option.splits)

lemma valid_not_empty: "\<not> valid_host_id []" "\<not> valid_session_id []" "\<not> valid_state name []" "\<not> valid_utc_timestamp []"
  by (simp_all add: valid_host_id_def valid_session_id_def valid_state_def valid_utc_timestamp_def)

lemma data_json_keys:
  "data_json t = JObject fs \<Longrightarrow> name = tr_name t \<Longrightarrow> length fs = length (expected_keys name) \<and> list_all (\<lambda>(k, _). k \<in> set (expected_keys name)) fs"
  by (auto simp: data_json_def expected_keys_def tr_name_def split: option.splits)

text \<open>The data of an event is accepted exactly when it is the data of a transition.\<close>

definition data_ok :: "state_change \<Rightarrow> bool" where
  "data_ok t \<longleftrightarrow> valid_host_id (tr_host t) \<and> valid_session_id (tr_session t)
     \<and> pred_option valid_job_id (tr_job t) \<and> pred_option (valid_state (tr_name t)) (tr_previous t)
     \<and> valid_state (tr_name t) (tr_state t) \<and> valid_utc_timestamp (tr_timestamp t)"

lemma valid_event_data_json: "data_ok t \<Longrightarrow> valid_event_data (tr_name t) (Some (data_json t))"
  by (cases "tr_job t"; cases "tr_previous t")
    (simp_all add: valid_event_data_def data_json_def data_ok_def expected_keys_def tr_name_def str_or_empty_def str_field_def jopt_def)

lemma valid_event_data_fields:
  assumes "valid_event_data name (Some v)" "keys_ascend v"
  obtains fs host session state timestamp previous where "v = JObject fs" "set (map fst fs) = set (expected_keys name)"
    "ascending (map fst fs)"
    "map_of fs ''host_id'' = Some (JString host)" "map_of fs ''session_id'' = Some (JString session)"
    "map_of fs ''state'' = Some (JString state)" "map_of fs ''timestamp'' = Some (JString timestamp)"
    "map_of fs ''previous_state'' = Some (jopt JString previous)"
    "valid_host_id host" "valid_session_id session" "valid_state name state" "valid_utc_timestamp timestamp"
    "pred_option (valid_state name) previous"
    "name = ''job.state.changed'' \<longrightarrow> (\<exists>j. map_of fs ''job_id'' = Some (JString j) \<and> valid_job_id j)"
proof -
  from assms obtain fs where v: "v = JObject fs" and asc: "ascending (map fst fs)"
    by (auto simp: valid_event_data_def keys_ascend_def split: json.splits)
  note a = assms(1) [unfolded v valid_event_data_def, simplified, unfolded Let_def]
  have keys: "length fs = length (expected_keys name)" "set (map fst fs) \<subseteq> set (expected_keys name)"
    using a by (auto simp: list_ex_iff split: if_splits)
  have "distinct (expected_keys name)" by (simp add: expected_keys_def)
  then have set: "set (map fst fs) = set (expected_keys name)" using keys asc by (intro keys_of_inclusion) auto
  have c: "valid_host_id (str_or_empty (JObject fs) ''host_id'')" "valid_session_id (str_or_empty (JObject fs) ''session_id'')"
    "valid_state name (str_or_empty (JObject fs) ''state'')" "valid_utc_timestamp (str_or_empty (JObject fs) ''timestamp'')"
    and p: "case map_of fs ''previous_state'' of None \<Rightarrow> False
       | Some p \<Rightarrow> p = JNull \<or> (case as_str p of Some s \<Rightarrow> valid_state name s | None \<Rightarrow> False)"
    and j: "name = ''job.state.changed'' \<Longrightarrow> case str_field (JObject fs) ''job_id'' of Some s \<Rightarrow> valid_job_id s | None \<Rightarrow> False"
    using a by (simp_all split: if_splits)
  from p obtain q where q: "map_of fs ''previous_state'' = Some q" "q = JNull \<or> (\<exists>s. q = JString s \<and> valid_state name s)"
    by (auto simp: as_str_Some split: option.splits)
  then obtain previous where "map_of fs ''previous_state'' = Some (jopt JString previous)" "pred_option (valid_state name) previous"
    by (metis jopt_simps option.pred_inject)
  moreover have "name = ''job.state.changed'' \<Longrightarrow> \<exists>j. map_of fs ''job_id'' = Some (JString j) \<and> valid_job_id j"
    using j by (auto simp: str_field_def bind_eq_Some_conv split: option.splits)
  ultimately show thesis
    using c v set asc that by (auto simp: str_or_empty_valid valid_not_empty)
qed

lemma transition_ok_data: "transition_ok t \<longleftrightarrow> valid_digest_identifier (tr_event_id t) ''evt_'' \<and> data_ok t"
  by (auto simp: transition_ok_def data_ok_def)

lemma valid_event_data_transition:
  assumes "valid_event_data name (Some v)" "keys_ascend v" "name = ''job.state.changed'' \<or> name = ''session.state.changed''"
  obtains t where "v = data_json t" "data_ok t" "tr_name t = name" "tr_event_id t = i" "jget v ''timestamp'' = Some (JString (tr_timestamp t))"
proof -
  obtain fs host session state timestamp previous where f: "v = JObject fs" "set (map fst fs) = set (expected_keys name)"
    "ascending (map fst fs)"
    and m: "map_of fs ''host_id'' = Some (JString host)" "map_of fs ''session_id'' = Some (JString session)"
      "map_of fs ''state'' = Some (JString state)" "map_of fs ''timestamp'' = Some (JString timestamp)"
      "map_of fs ''previous_state'' = Some (jopt JString previous)"
    and ok: "valid_host_id host" "valid_session_id session" "valid_state name state" "valid_utc_timestamp timestamp"
      "pred_option (valid_state name) previous"
    and job: "name = ''job.state.changed'' \<longrightarrow> (\<exists>j. map_of fs ''job_id'' = Some (JString j) \<and> valid_job_id j)"
    using assms(1,2) by (rule valid_event_data_fields)
  show thesis
  proof (cases "name = ''job.state.changed''")
    case True
    with job obtain j where j: "map_of fs ''job_id'' = Some (JString j)" "valid_job_id j" by blast
    have "fs = map (\<lambda>k. (k, the (map_of fs k))) [''host_id'', ''job_id'', ''previous_state'', ''session_id'', ''state'', ''timestamp'']"
      using f(2,3) True by (intro object_of_keys) (auto simp: expected_keys_def less_list_code less_char_def)
    then have fs: "fs = [(''host_id'', JString host), (''job_id'', JString j), (''previous_state'', jopt JString previous),
        (''session_id'', JString session), (''state'', JString state), (''timestamp'', JString timestamp)]"
      by (simp only: list.map m j option.sel)
    show thesis
      by (rule that [of "\<lparr>tr_event_id = i, tr_host = host, tr_session = session, tr_job = Some j, tr_previous = previous,
            tr_state = state, tr_timestamp = timestamp\<rparr>"])
        (use f(1) ok j True m(4) in \<open>simp_all add: data_json_def data_ok_def tr_name_def fs\<close>)
  next
    case False
    have "fs = map (\<lambda>k. (k, the (map_of fs k))) [''host_id'', ''previous_state'', ''session_id'', ''state'', ''timestamp'']"
      using f(2,3) False by (intro object_of_keys) (auto simp: expected_keys_def less_list_code less_char_def)
    then have fs: "fs = [(''host_id'', JString host), (''previous_state'', jopt JString previous),
        (''session_id'', JString session), (''state'', JString state), (''timestamp'', JString timestamp)]"
      by (simp only: list.map m option.sel)
    show thesis
      by (rule that [of "\<lparr>tr_event_id = i, tr_host = host, tr_session = session, tr_job = None, tr_previous = previous,
            tr_state = state, tr_timestamp = timestamp\<rparr>"])
        (use f(1) ok False assms(3) m(4) in \<open>simp_all add: data_json_def data_ok_def tr_name_def fs\<close>)
  qed
qed

lemma event_json_accepted:
  assumes "transition_ok t"
  shows "event_checks (event_json t) = Inr (tr_event_id t)"
proof -
  have d: "valid_event_data (tr_name t) (Some (data_json t))" "jget (data_json t) ''timestamp'' = Some (JString (tr_timestamp t))"
    using assms valid_event_data_json by (auto simp: transition_ok_data data_json_def split: option.splits)
  have "tr_name t = ''job.state.changed'' \<or> tr_name t = ''session.state.changed''"
    by (simp add: tr_name_def split: option.splits)
  moreover have "valid_digest_identifier (tr_event_id t) ''evt_''" "valid_utc_timestamp (tr_timestamp t)"
    using assms by (simp_all add: transition_ok_def)
  ultimately show ?thesis using d
    by (simp add: event_checks_def event_json_def str_field_def str_or_empty_def Let_def)
qed

lemma event_checks_accepts:
  assumes "event_checks event = Inr i" "value_order event"
  obtains t where "transition_ok t" "event = event_json t" "i = tr_event_id t"
proof -
  define name where "name = str_or_empty event ''name''"
  have a: "jget event ''eventId'' = Some (JString i)" "valid_digest_identifier i ''evt_''"
    "name = ''job.state.changed'' \<or> name = ''session.state.changed''" "valid_event_data name (jget event ''data'')"
    "jget event ''timestamp'' = Option.bind (jget event ''data'') (\<lambda>data. jget data ''timestamp'')"
    "jget event ''cursor'' = Some JNull" "case event of JObject fs \<Rightarrow> length fs = 5 | _ \<Rightarrow> False"
    using assms(1) unfolding name_def
    by (auto simp: event_checks_def str_field_def bind_eq_Some_conv Let_def split: option.splits if_splits json.splits)
  from a(7) obtain fs where e: "event = JObject fs" and len: "length fs = 5" by (auto split: json.splits)
  from a(4) obtain d where d: "map_of fs ''data'' = Some d" "valid_event_data name (Some d)"
    by (cases "map_of fs ''data''") (auto simp: e valid_event_data_def)
  have asc: "ascending (map fst fs)" "keys_ascend d"
    using assms(2) d(1) by (simp_all add: value_order_def keys_ascend_def e)
  obtain t where t: "d = data_json t" "data_ok t" "tr_name t = name" "tr_event_id t = i" "jget d ''timestamp'' = Some (JString (tr_timestamp t))"
    using d(2) asc(2) a(3) by (rule valid_event_data_transition)
  have n: "map_of fs ''name'' = Some (JString name)"
    using a(3) by (auto simp: name_def e str_or_empty_def str_field_def bind_eq_Some_conv split: option.splits)
  have ts: "map_of fs ''timestamp'' = Some (JString (tr_timestamp t))" using a(5) d(1) t(5) by (simp add: e)
  let ?ks = "[''cursor'', ''data'', ''eventId'', ''name'', ''timestamp'']"
  have m: "map_of fs ''cursor'' = Some JNull" "map_of fs ''eventId'' = Some (JString i)" using a(1,6) by (simp_all add: e)
  have key: "k \<in> fst ` set fs" if "map_of fs k = Some v" for k v
    using that map_of_eq_None_iff [of fs k] by auto
  have "set ?ks \<subseteq> set (map fst fs)"
    using key [OF m(1)] key [OF m(2)] key [OF d(1)] key [OF n] key [OF ts] by simp
  then have "set (map fst fs) = set ?ks" using len asc(1) by (intro keys_of_count) auto
  then have "fs = map (\<lambda>k. (k, the (map_of fs k))) ?ks"
    using asc(1) by (intro object_of_keys) (auto simp: less_list_code less_char_def)
  then have "fs = [(''cursor'', JNull), (''data'', d), (''eventId'', JString i), (''name'', JString name), (''timestamp'', JString (tr_timestamp t))]"
    by (simp only: list.map m d(1) n ts option.sel)
  then have eq: "event = event_json t" by (simp add: e event_json_def t(1,3,4))
  have ok: "transition_ok t" unfolding transition_ok_data t(4) using a(2) t(2) by blast
  show thesis using ok eq t(4) [symmetric] by (rule that)
qed

section \<open>What is signed and what is verified\<close>

lemma split_unique:
  "x \<notin> set a \<Longrightarrow> x \<notin> set a' \<Longrightarrow> a @ x # b = a' @ x # b' \<longleftrightarrow> a = a' \<and> b = b'"
proof (induction a arbitrary: a')
  case Nil
  then show ?case by (cases a') auto
next
  case (Cons y a)
  then show ?case by (cases a') auto
qed

lemma signed_data_inject:
  assumes "CHR ''.'' \<notin> set i" "CHR ''.'' \<notin> set i'" "CHR ''.'' \<notin> set t" "CHR ''.'' \<notin> set t'"
  shows "signed_data i t b = signed_data i' t' b' \<longleftrightarrow> i = i' \<and> t = t' \<and> b = b'"
  using assms by (simp add: signed_data_def split_unique)

lemma hexdigit_no_dot: "\<not> is_ascii_hexdigit CHR ''.''"
  by (simp add: is_ascii_hexdigit_def is_ascii_digit_def)

lemma digest_no_dot: "valid_digest_identifier s lead \<Longrightarrow> CHR ''.'' \<notin> set lead \<Longrightarrow> CHR ''.'' \<notin> set s"
  by (auto simp: valid_digest_identifier_def strip_lead_Some list_all_iff hexdigit_no_dot split: option.splits)

lemma decimal_digits: "list_all is_ascii_digit (decimal n)"
proof (induction n rule: decimal.induct)
  case (1 n)
  then show ?case by (subst decimal.simps) (simp add: digit_char)
qed

lemma decimal_no_dot: "CHR ''.'' \<notin> set (decimal n)"
  using decimal_digits [of n] by (auto simp: list_all_iff is_ascii_digit_def)

lemma event_checks_id: "event_checks event = Inr i \<Longrightarrow> valid_digest_identifier i ''evt_''"
  by (auto simp: event_checks_def Let_def split: option.splits if_splits)

lemma message_no_dot:
  assumes "message E m = Inr (webhook_id, body, challenge)" "CHR ''.'' \<notin> set (sx_new_uuid E)"
  shows "CHR ''.'' \<notin> set webhook_id"
  using assms by (auto simp: message_def dest!: event_checks_id digest_no_dot split: if_splits)

lemma message_challenge:
  "message E m = Inr (webhook_id, body, challenge) \<Longrightarrow>
     (se_kind m = ''verification'' \<and> (\<exists>c. se_challenge m = Some c \<and> challenge = Some c)) \<or> (se_kind m = ''delivery'' \<and> challenge = None)"
  by (cases "se_challenge m") (auto simp: message_def split: if_splits)

lemma read_chunks_Inr:
  "length received \<le> MAX_RESPONSE \<Longrightarrow>
   read_chunks received cs = Inr out \<longleftrightarrow> (\<exists>bs. cs = map Chunk bs \<and> out = received @ concat bs \<and> length out \<le> MAX_RESPONSE)"
proof (induction received cs rule: read_chunks.induct)
  case (4 received c cs)
  show ?case
  proof (cases "MAX_RESPONSE - length received < length c")
    case True
    with "4.prems" show ?thesis by (auto simp: Cons_eq_map_conv)
  next
    case False
    with "4.prems" have "length (received @ c) \<le> MAX_RESPONSE" by simp
    from "4.IH" [OF False this] False show ?thesis by (auto simp: Cons_eq_map_conv)
  qed
qed (auto simp: Cons_eq_map_conv)

lemma accepted_posted:
  assumes "snd (send_checked E headers input) = Inr res"
  shows "\<exists>r. Post r \<in> set (fst (send_checked E headers input))"
proof -
  obtain parsed secret old webhook_id body challenge where c: "checked_input E headers input = Inr (parsed, secret, old, webhook_id, body, challenge)"
    using assms by (cases "checked_input E headers input") (auto simp: send_checked_def)
  obtain host port h where u: "ul_host_str parsed = Some host" "port_or_known_default parsed = Some port" "ul_host parsed = Some h"
    using assms by (auto simp: send_checked_def c split: option.splits)
  obtain looked sockets where s: "sockets_of E h port = (looked, Inr sockets)"
    using assms by (cases "sockets_of E h port"; cases "snd (sockets_of E h port)") (auto simp: send_checked_def c u)
  show ?thesis using assms
    by (auto simp: send_checked_def c u s transmit_def Let_def split: if_splits option.splits)
qed

lemma echoed_challenge:
  "(case Option.bind x (\<lambda>v. str_field v ''challenge'') of Some e \<Rightarrow> constant_time_equal e c | None \<Rightarrow> False) \<longleftrightarrow>
     (\<exists>v. x = Some v \<and> jget v ''challenge'' = Some (JString c) \<and> length c \<le> COMPARISON_BOUND)"
  by (auto simp: str_field_def bind_eq_Some_conv constant_time_equal_iff split: option.splits)

lemma finish_verified:
  "(\<exists>res. finish_response E response challenge = Inr res \<and> sr_verified res) \<longleftrightarrow>
     (\<exists>c bs v. challenge = Some c \<and> 200 \<le> rp_status response \<and> rp_status response < 300
        \<and> rp_chunks response = map Chunk bs \<and> length (concat bs) \<le> MAX_RESPONSE
        \<and> sx_value E (concat bs) = Some v \<and> jget v ''challenge'' = Some (JString c) \<and> length c \<le> COMPARISON_BOUND)"
proof (cases challenge)
  case (Some c)
  have "(\<exists>res. finish_response E response challenge = Inr res \<and> sr_verified res) \<longleftrightarrow>
      (\<exists>out. read_chunks [] (rp_chunks response) = Inr out \<and> 200 \<le> rp_status response \<and> rp_status response < 300
         \<and> (case Option.bind (sx_value E out) (\<lambda>v. str_field v ''challenge'') of Some e \<Rightarrow> constant_time_equal e c | None \<Rightarrow> False))"
    by (cases "read_chunks [] (rp_chunks response)") (simp_all add: finish_response_def Some Let_def)
  then show ?thesis by (auto simp: read_chunks_Inr echoed_challenge Some)
qed (simp add: finish_response_def)

section \<open>Properties of the sender\<close>

text \<open>C35. An event is forwarded exactly when it is the JSON of a valid transition: no field is missing,
  none is added, the two timestamps agree and the cursor is null. Everything else is an invalid event.\<close>

theorem event_checks_exact:
  assumes "value_order event"
  shows "(event_checks event = Inr i \<longleftrightarrow> (\<exists>t. transition_ok t \<and> event = event_json t \<and> i = tr_event_id t))
    \<and> (event_checks event = Inl e \<longrightarrow> e = (400, ''invalid_event''))"
proof
  show "event_checks event = Inr i \<longleftrightarrow> (\<exists>t. transition_ok t \<and> event = event_json t \<and> i = tr_event_id t)"
    using assms event_checks_accepts event_json_accepted by metis
  show "event_checks event = Inl e \<longrightarrow> e = (400, ''invalid_event'')"
    by (auto simp: event_checks_def Let_def ok_or_def and_then_def split: option.splits if_splits)
qed

text \<open>C33. A webhook is posted only for a request that carries the bearer of this sender, of at least 32
  bytes, and a JSON content type; it goes over HTTPS to port 443 of a URL without credentials or
  fragment, and only to addresses outside every special-purpose network; its body is bounded; and it is
  the only webhook of the request, preceded by at most one name lookup.\<close>

theorem posts_only_public:
  assumes "Post r \<in> set (fst (route_send E headers request))"
  shows "map_of headers ''authorization'' = Some (''Bearer '' @ sx_bearer E) \<and> 32 \<le> length (sx_bearer E)
    \<and> map_of headers ''content-type'' = Some ''application/json''
    \<and> ul_scheme (wr_url r) = ''https'' \<and> port_or_known_default (wr_url r) = Some 443
    \<and> ul_username (wr_url r) = [] \<and> ul_password (wr_url r) = None \<and> ul_fragment (wr_url r) = None
    \<and> ul_host_str (wr_url r) = Some (wr_host r)
    \<and> wr_sockets r \<noteq> [] \<and> (\<forall>s \<in> set (wr_sockets r). public_ip (fst s))
    \<and> length (wr_body r) \<le> 262144
    \<and> (\<exists>looked. length looked \<le> 1 \<and> fst (route_send E headers request) = looked @ [Post r] \<and> (\<forall>q. Post q \<notin> set looked))"
proof -
  obtain input where p: "Post r \<in> set (fst (send_checked E headers input))"
    and f: "fst (route_send E headers request) = fst (send_checked E headers input)"
    using assms effects_of_send [of E headers request] by auto
  obtain parsed secret old webhook_id body challenge host port h looked sockets seconds where
    c: "checked_input E headers input = Inr (parsed, secret, old, webhook_id, body, challenge)"
    and u: "ul_host_str parsed = Some host" "port_or_known_default parsed = Some port" "ul_host parsed = Some h"
    and s: "sockets_of E h port = (looked, Inr sockets)" "list_all (\<lambda>s. public_ip (fst s)) sockets"
    and "sx_client E host sockets" "sx_clock E = Some seconds"
    and r: "r = webhook_of E (se_subscription_id input) parsed host sockets secret old webhook_id (decimal seconds) body"
    and e: "send_checked E headers input = (looked @ [Post r],
       case sx_post E r of None \<Rightarrow> Inl (502, ''delivery_failed'') | Some response \<Rightarrow> finish_response E response challenge)"
    using p by (rule posted)
  note i = c [unfolded checked_input_Inr]
  have a: "map_of headers ''authorization'' = Some (''Bearer '' @ sx_bearer E)" "32 \<le> length (sx_bearer E)"
    "map_of headers ''content-type'' = Some ''application/json''"
    using i by (auto simp: authenticated_iff dest: header_text_Some)
  have w: "wr_url r = parsed" "wr_host r = host" "wr_sockets r = sockets" "wr_body r = body"
    by (simp_all add: r webhook_of_def Let_def)
  have k: "sockets \<noteq> []" "length looked \<le> 1" "\<forall>q. Post q \<notin> set looked"
    using sockets_of_found [OF s(1)] sockets_of_no_post [OF s(1)] by auto
  have b: "length body \<le> 262144" using i by (simp add: MAX_BODY_def)
  have url: "safe_url (sx_url E) (se_url input) = Some parsed" using i by blast
  show ?thesis
    unfolding w f e fst_conv using a k b u(1) s(2) safe_url_Some(3-7) [OF url] by (simp add: list_all_iff)
qed

text \<open>C38. A signature binds the id, the time and the body of its message: each signature of a webhook is
  made over exactly the id and the time that the webhook's headers carry and over its body, and the
  signed texts of two webhooks agree only when all three agree. A UUID contains no dot.\<close>

theorem signatures_bind_message:
  assumes "Post r \<in> set (fst (send_checked E headers input))" "Post r' \<in> set (fst (send_checked E' headers' input'))"
    and "CHR ''.'' \<notin> set (sx_new_uuid E)" "CHR ''.'' \<notin> set (sx_new_uuid E')"
  shows "\<exists>i t i' t' keys.
      map_of (wr_headers r) ''webhook-id'' = Some i \<and> map_of (wr_headers r) ''webhook-timestamp'' = Some t
    \<and> map_of (wr_headers r') ''webhook-id'' = Some i' \<and> map_of (wr_headers r') ''webhook-timestamp'' = Some t'
    \<and> map Some keys = map (signing_key E) (se_secret input # (case se_previous_secret input of Some s \<Rightarrow> [s] | None \<Rightarrow> []))
    \<and> map_of (wr_headers r) ''webhook-signature'' =
        Some (join_space (map (\<lambda>k. ''v1,'' @ sx_encode E (sx_hmac E k (signed_data i t (wr_body r)))) keys))
    \<and> (signed_data i t (wr_body r) = signed_data i' t' (wr_body r') \<longleftrightarrow> i = i' \<and> t = t' \<and> wr_body r = wr_body r')"
proof -
  obtain parsed secret old webhook_id body challenge host sockets seconds where
    c: "checked_input E headers input = Inr (parsed, secret, old, webhook_id, body, challenge)"
    and r: "r = webhook_of E (se_subscription_id input) parsed host sockets secret old webhook_id (decimal seconds) body"
    using assms(1) by (rule posted)
  obtain parsed' secret' old' webhook_id' body' challenge' host' sockets' seconds' where
    c': "checked_input E' headers' input' = Inr (parsed', secret', old', webhook_id', body', challenge')"
    and r': "r' = webhook_of E' (se_subscription_id input') parsed' host' sockets' secret' old' webhook_id' (decimal seconds') body'"
    using assms(2) by (rule posted)
  note i = c [unfolded checked_input_Inr] and i' = c' [unfolded checked_input_Inr]
  have n: "CHR ''.'' \<notin> set webhook_id" "CHR ''.'' \<notin> set webhook_id'"
    using message_no_dot assms(3,4) i i' by blast+
  have keys: "map Some (secret # (case old of Some k \<Rightarrow> [k] | None \<Rightarrow> [])) =
      map (signing_key E) (se_secret input # (case se_previous_secret input of Some s \<Rightarrow> [s] | None \<Rightarrow> []))"
    using i by (cases old; cases "se_previous_secret input") (auto simp: transpose_option_def split: option.splits)
  show ?thesis
    by (rule exI [of _ webhook_id], rule exI [of _ "decimal seconds"], rule exI [of _ webhook_id'],
        rule exI [of _ "decimal seconds'"], rule exI [of _ "secret # (case old of Some k \<Rightarrow> [k] | None \<Rightarrow> [])"])
      (use keys n in \<open>simp add: r r' webhook_of_def Let_def signature_def signed_data_inject decimal_no_dot split: option.splits\<close>)
qed

lemma posted_outcome:
  assumes "Post r \<in> set (fst (send_checked E headers input))"
  obtains challenge where "snd (send_checked E headers input) =
      (case sx_post E r of None \<Rightarrow> Inl (502, ''delivery_failed'') | Some response \<Rightarrow> finish_response E response challenge)"
    "(se_kind input = ''verification'' \<and> (\<exists>c. se_challenge input = Some c \<and> challenge = Some c)) \<or> (se_kind input = ''delivery'' \<and> challenge = None)"
    "\<And>q. Post q \<in> set (fst (send_checked E headers input)) \<longleftrightarrow> q = r"
proof -
  obtain parsed secret old webhook_id body challenge h port looked sockets where
    c: "checked_input E headers input = Inr (parsed, secret, old, webhook_id, body, challenge)"
    and s: "sockets_of E h port = (looked, Inr sockets)"
    and e: "send_checked E headers input = (looked @ [Post r],
       case sx_post E r of None \<Rightarrow> Inl (502, ''delivery_failed'') | Some response \<Rightarrow> finish_response E response challenge)"
    using assms by (rule posted)
  show thesis
  proof (rule that)
    show "snd (send_checked E headers input) =
      (case sx_post E r of None \<Rightarrow> Inl (502, ''delivery_failed'') | Some response \<Rightarrow> finish_response E response challenge)"
      by (simp add: e)
    show "(se_kind input = ''verification'' \<and> (\<exists>c. se_challenge input = Some c \<and> challenge = Some c)) \<or> (se_kind input = ''delivery'' \<and> challenge = None)"
      using c unfolding checked_input_Inr by (intro message_challenge) blast
    show "Post q \<in> set (fst (send_checked E headers input)) \<longleftrightarrow> q = r" for q
      using sockets_of_no_post [OF s] by (auto simp: e)
  qed
qed

text \<open>The answer to a delivery counts by its status alone; its body is not read.\<close>

lemma delivery_reports_status:
  assumes "Post r \<in> set (fst (send_checked E headers input))" "se_kind input = ''delivery''" "sx_post E r = Some response"
  shows "snd (send_checked E headers input) = Inr \<lparr>sr_status = rp_status response, sr_verified = False\<rparr>"
  using assms(1) by (rule posted_outcome) (use assms(2,3) in \<open>auto simp: finish_response_def\<close>)

text \<open>C39. A subscription is reported as verified exactly when a verification webhook was posted and
  answered with a success status and a whole body of at most 4096 bytes whose \<^verbatim>\<open>challenge\<close> is the
  challenge of the request.\<close>

theorem verified_exact:
  "(\<exists>res. snd (send_checked E headers input) = Inr res \<and> sr_verified res) \<longleftrightarrow>
     (\<exists>r response c bs v. Post r \<in> set (fst (send_checked E headers input)) \<and> sx_post E r = Some response
        \<and> se_kind input = ''verification'' \<and> se_challenge input = Some c \<and> length c \<le> 4096
        \<and> 200 \<le> rp_status response \<and> rp_status response < 300
        \<and> rp_chunks response = map Chunk bs \<and> length (concat bs) \<le> 4096
        \<and> sx_value E (concat bs) = Some v \<and> jget v ''challenge'' = Some (JString c))"
  (is "?verified \<longleftrightarrow> ?spec")
proof (cases "\<exists>r. Post r \<in> set (fst (send_checked E headers input))")
  case True
  then obtain r where p: "Post r \<in> set (fst (send_checked E headers input))" ..
  obtain challenge where e: "snd (send_checked E headers input) =
      (case sx_post E r of None \<Rightarrow> Inl (502, ''delivery_failed'') | Some response \<Rightarrow> finish_response E response challenge)"
    and m: "(se_kind input = ''verification'' \<and> (\<exists>c. se_challenge input = Some c \<and> challenge = Some c)) \<or> (se_kind input = ''delivery'' \<and> challenge = None)"
    and one: "\<And>q. Post q \<in> set (fst (send_checked E headers input)) \<longleftrightarrow> q = r"
    using p by (rule posted_outcome) blast
  have "?verified \<longleftrightarrow> (\<exists>response. sx_post E r = Some response \<and> (\<exists>res. finish_response E response challenge = Inr res \<and> sr_verified res))"
    by (auto simp: e split: option.splits)
  also have "\<dots> \<longleftrightarrow> ?spec"
    unfolding finish_verified one MAX_RESPONSE_def COMPARISON_BOUND_def using m by auto blast
  finally show ?thesis .
next
  case False
  then show ?thesis using accepted_posted by fastforce
qed

section \<open>An example\<close>

definition sample_transition :: state_change where
  "sample_transition = \<lparr>tr_event_id = ''evt_'' @ replicate 64 CHR ''a'', tr_host = ''h'', tr_session = ''s'', tr_job = None,
     tr_previous = None, tr_state = ''active'', tr_timestamp = ''2024-02-29T00:00:00Z''\<rparr>"

definition sample_url :: url where
  "sample_url = \<lparr>ul_scheme = ''https'', ul_username = [], ul_password = None, ul_host_str = Some ''8.8.8.8'',
     ul_host = Some (HostV4 0x08080808), ul_port = None, ul_fragment = None\<rparr>"

definition sample_input :: send_envelope where
  "sample_input = \<lparr>se_kind = ''delivery'', se_url = ''u'', se_subscription_id = ''sub_'' @ replicate 64 CHR ''0'',
     se_secret = ''whsec_k'', se_previous_secret = None, se_challenge = None, se_event_body = Some ''e''\<rparr>"

definition sample_sender :: sender_env where
  "sample_sender = \<lparr>sx_bearer = replicate 32 CHR ''b'',
     sx_document = (\<lambda>_. Some (JObject [(''kind'', JString (se_kind sample_input)), (''url'', JString (se_url sample_input)),
       (''subscriptionId'', JString (se_subscription_id sample_input)), (''secret'', JString (se_secret sample_input)),
       (''eventBody'', JString ''e'')])),
     sx_value = (\<lambda>_. Some (event_json sample_transition)), sx_to_vec = (\<lambda>_. ''{}''), sx_url = (\<lambda>_. Some sample_url),
     sx_decode = (\<lambda>_. Some (replicate 24 CHR ''k'')), sx_encode = (\<lambda>_. ''k''), sx_hmac = (\<lambda>k d. d),
     sx_uuid_ok = (\<lambda>_. True), sx_new_uuid = ''u'', sx_lookup = (\<lambda>_ _. None), sx_client = (\<lambda>_ _. True),
     sx_clock = Some 7, sx_post = (\<lambda>_. Some \<lparr>rp_status = 200, rp_chunks = []\<rparr>)\<rparr>"

definition sample_headers :: header_list where
  "sample_headers = [(''authorization'', ''Bearer '' @ replicate 32 CHR ''b''), (''content-type'', ''application/json'')]"

definition sample_webhook :: webhook_request where
  "sample_webhook = webhook_of sample_sender (se_subscription_id sample_input) sample_url ''8.8.8.8'' [(V4 0x08080808, 443)]
     (replicate 24 CHR ''k'') None (tr_event_id sample_transition) (decimal 7) ''e''"

lemma replicate_all: "list_all P (replicate n x) \<longleftrightarrow> n = 0 \<or> P x"
  by (auto simp: list_all_iff)

lemma sample_transition_ok: "transition_ok sample_transition"
  by (simp add: transition_ok_def sample_transition_def valid_digest_identifier_def strip_lead_Some strip_lead_def
    is_ascii_hexdigit_def is_ascii_digit_def valid_host_id_def valid_session_id_def is_ascii_alphanumeric_def tr_name_def
    valid_state_def valid_utc_timestamp_def number_def parse_u32_def month_days_def replicate_all)

lemma sample_value_order: "value_order (event_json sample_transition)"
  by (simp add: value_order_def keys_ascend_def event_json_def data_json_def sample_transition_def less_list_code less_char_def)

lemma sample_envelope: "Option.bind (sx_document sample_sender []) deserialize_send = Some sample_input"
  by (simp add: sample_sender_def sample_input_def deserialize_send_def deserialize_map_def send_field_def
    no_send_slots_def fill_def send_of_slots_def read_option_not_null)

lemma sample_checked:
  "checked_input sample_sender sample_headers sample_input =
     Inr (sample_url, replicate 24 CHR ''k'', None, tr_event_id sample_transition, ''e'', None)"
proof -
  have "authenticated sample_sender sample_headers" "header_text sample_headers ''content-type'' = Some ''application/json''"
    by (simp_all add: authenticated_iff header_text_def sample_headers_def sample_sender_def to_str_def replicate_all)
  moreover have "safe_url (sx_url sample_sender) (se_url sample_input) = Some sample_url"
    by (simp add: safe_url_def sample_sender_def sample_input_def sample_url_def suffix_def)
  moreover have "valid_digest_identifier (se_subscription_id sample_input) ''sub_''"
    by (simp add: valid_digest_identifier_def strip_lead_def sample_input_def is_ascii_hexdigit_def is_ascii_digit_def replicate_all)
  moreover have "signing_key sample_sender (se_secret sample_input) = Some (replicate 24 CHR ''k'')"
    by (simp add: signing_key_def sample_sender_def sample_input_def strip_lead_def)
  moreover have "message sample_sender sample_input = Inr (tr_event_id sample_transition, ''e'', None)"
    using event_json_accepted [OF sample_transition_ok] by (simp add: message_def sample_input_def sample_sender_def MAX_BODY_def)
  ultimately show ?thesis
    by (simp add: checked_input_def transpose_option_def sample_input_def MAX_BODY_def)
qed

lemma sample_posted: "send_checked sample_sender sample_headers sample_input =
  ([Post sample_webhook], Inr \<lparr>sr_status = 200, sr_verified = False\<rparr>)"
proof -
  have "public_ip (V4 0x08080808)" by (simp add: public_ip_def public_v4_def octet_def)
  then show ?thesis
    by (simp add: send_checked_def sample_checked sample_url_def port_or_known_default_def sockets_of_def transmit_def Let_def
      sample_webhook_def finish_response_def) (simp add: sample_sender_def sample_url_def finish_response_def)
qed

lemma sample_route: "fst (route_send sample_sender sample_headers []) = [Post sample_webhook]"
  by (simp add: route_send_def send_def sample_envelope sample_posted)

theorem event_checks_exact_witness:
  "event_checks (event_json sample_transition) = Inr (tr_event_id sample_transition)"
proof -
  have "event_checks (event_json sample_transition) = Inr (tr_event_id sample_transition) \<longleftrightarrow>
      (\<exists>t. transition_ok t \<and> event_json sample_transition = event_json t \<and> tr_event_id sample_transition = tr_event_id t)"
    using event_checks_exact [OF sample_value_order] by blast
  then show ?thesis using sample_transition_ok by blast
qed

theorem posts_only_public_witness:
  "wr_sockets sample_webhook \<noteq> [] \<and> list_all (\<lambda>s. public_ip (fst s)) (wr_sockets sample_webhook)"
  using posts_only_public [of sample_webhook sample_sender sample_headers "[]"] by (simp add: sample_route list_all_iff)

theorem signatures_bind_message_witness:
  "\<exists>i t. map_of (wr_headers sample_webhook) ''webhook-id'' = Some i \<and> map_of (wr_headers sample_webhook) ''webhook-timestamp'' = Some t"
proof -
  have "Post sample_webhook \<in> set (fst (send_checked sample_sender sample_headers sample_input))"
    "CHR ''.'' \<notin> set (sx_new_uuid sample_sender)"
    by (simp add: sample_posted, simp add: sample_sender_def)
  from signatures_bind_message [OF this(1,1) this(2,2)] show ?thesis by blast
qed

section \<open>Refusals\<close>

definition refusals :: "(nat \<times> string) list" where
  "refusals = [(400, ''invalid_envelope''), (401, ''unauthorized''), (415, ''invalid_content_type''), (400, ''invalid_url''),
     (400, ''invalid_subscription''), (400, ''invalid_secret''), (400, ''invalid_challenge''), (400, ''invalid_event''),
     (413, ''event_too_large''), (400, ''invalid_address''), (502, ''transport_unavailable''), (500, ''clock_unavailable''),
     (502, ''delivery_failed''), (502, ''response_failed''), (504, ''response_timeout''), (502, ''response_too_large'')]"

text \<open>\<open>refuses R m\<close>: when \<open>m\<close> is an error, it is one of \<open>R\<close>.\<close>

definition refuses :: "'e set \<Rightarrow> 'e + 'a \<Rightarrow> bool" where
  "refuses R m \<longleftrightarrow> (\<forall>e. m = Inl e \<longrightarrow> e \<in> R)"

lemma refuses_intro:
  "refuses R (Inr x)"
  "e \<in> R \<Longrightarrow> refuses R (Inl e)"
  "e \<in> R \<Longrightarrow> refuses R (ok_or v e)"
  "e \<in> R \<Longrightarrow> refuses R k \<Longrightarrow> refuses R (ensure b e k)"
  "refuses R m \<Longrightarrow> (\<And>x. refuses R (f x)) \<Longrightarrow> refuses R (and_then m f)"
  by (auto simp: refuses_def result_simps)

lemma refuses_if: "refuses R x \<Longrightarrow> refuses R y \<Longrightarrow> refuses R (if b then x else y)"
  by simp

lemma refusals_set:
  "set refusals = {(400, ''invalid_envelope''), (401, ''unauthorized''), (415, ''invalid_content_type''), (400, ''invalid_url''),
     (400, ''invalid_subscription''), (400, ''invalid_secret''), (400, ''invalid_challenge''), (400, ''invalid_event''),
     (413, ''event_too_large''), (400, ''invalid_address''), (502, ''transport_unavailable''), (500, ''clock_unavailable''),
     (502, ''delivery_failed''), (502, ''response_failed''), (504, ''response_timeout''), (502, ''response_too_large'')}"
  by (simp add: refusals_def)

lemma refuses_event: "refuses (set refusals) (event_checks event)"
  unfolding event_checks_def Let_def by (intro refuses_intro refuses_if) (simp_all add: refusals_set)

lemma refuses_message: "refuses (set refusals) (message E m)"
  unfolding message_def by (intro refuses_intro refuses_if refuses_event) (simp_all add: refusals_set)

lemma refuses_input: "refuses (set refusals) (checked_input E headers input)"
  unfolding checked_input_def split_def
  by (intro refuses_intro refuses_message) (simp_all add: refusals_set)

lemma refuses_read: "refuses (set refusals) (read_chunks received cs)"
  by (induction received cs rule: read_chunks.induct) (auto intro!: refuses_intro simp: refusals_set)

lemma refuses_finish: "refuses (set refusals) (finish_response E response challenge)"
  by (auto simp: finish_response_def Let_def intro!: refuses_intro refuses_read split: option.splits)

lemma refuses_transmit: "refuses (set refusals) (snd (transmit E input c host sockets))"
  by (cases c) (auto simp: transmit_def Let_def refusals_set [symmetric] intro!: refuses_intro refuses_finish split: option.splits; simp add: refusals_set)

lemma refuses_sockets: "refuses (set refusals) (snd (sockets_of E h port))"
  by (auto simp: sockets_of_def intro!: refuses_intro split: url_host.splits; simp add: refusals_set)

lemma refuses_send: "refuses (set refusals) (snd (send_checked E headers input))"
proof (cases "checked_input E headers input")
  case (Inl e)
  then show ?thesis using refuses_input [of E headers input] by (simp add: send_checked_def refuses_def)
next
  case (Inr c)
  have u: "refuses (set refusals) (Inl (400, ''invalid_url'') :: rejection + send_result)"
    by (rule refuses_intro) (simp add: refusals_set)
  show ?thesis
  proof (cases "(ul_host_str (fst c), port_or_known_default (fst c), ul_host (fst c))")
    case (fields host port h)
    then show ?thesis
      using u refuses_transmit [of E input c] refuses_sockets [of E "the h" "the port"]
      by (cases host; cases port; cases h; cases "sockets_of E (the h) (the port)"; cases "snd (sockets_of E (the h) (the port))")
        (simp_all add: send_checked_def Inr split_def refuses_def, metis prod.collapse)
  qed
qed

text \<open>What a caller without the bearer learns and causes: no name is looked up, nothing is posted,
  and the answer is one of three refusals. Every refusal of the sender is a fixed status with a
  fixed code, so no refusal repeats text of the request.\<close>

theorem strangers_refused:
  "(\<not> authenticated E headers \<longrightarrow>
      route_send E headers request \<in> {([], respond (Inl (401, ''unauthorized''))), ([], respond (Inl (400, ''invalid_envelope''))),
        ([], \<lparr>hr_status = 413, hr_body = None\<rparr>)})
   \<and> (hr_status (snd (route_send E headers request)) \<noteq> 200 \<longrightarrow>
      snd (route_send E headers request) \<in> insert \<lparr>hr_status = 413, hr_body = None\<rparr> (respond ` Inl ` set refusals))"
proof
  show "\<not> authenticated E headers \<longrightarrow>
      route_send E headers request \<in> {([], respond (Inl (401, ''unauthorized''))), ([], respond (Inl (400, ''invalid_envelope''))),
        ([], \<lparr>hr_status = 413, hr_body = None\<rparr>)}"
    by (auto simp: route_send_def send_def send_checked_def checked_input_def split: option.splits)
  have "respond r \<in> respond ` Inl ` set refusals" if "refuses (set refusals) r" "hr_status (respond r) \<noteq> 200" for r
  proof (cases r)
    case (Inl e)
    then show ?thesis using that(1) unfolding refuses_def by blast
  next
    case (Inr x)
    then show ?thesis using that(2) by (simp add: respond_def)
  qed
  moreover have "refuses (set refusals) (Inl (400, ''invalid_envelope'') :: rejection + send_result)"
    by (rule refuses_intro) (simp add: refusals_set)
  ultimately show "hr_status (snd (route_send E headers request)) \<noteq> 200 \<longrightarrow>
      snd (route_send E headers request) \<in> insert \<lparr>hr_status = 413, hr_body = None\<rparr> (respond ` Inl ` set refusals)"
    using refuses_send [of E headers]
    by (auto simp: route_send_def send_def split: option.splits prod.splits) (metis snd_conv)
qed

theorem strangers_refused_witness:
  "route_send sample_sender [] [] = ([], respond (Inl (401, ''unauthorized'')))"
proof -
  have n: "\<not> authenticated sample_sender []" by (simp add: authenticated_iff header_text_def)
  have "hr_status (snd (route_send sample_sender [] [])) = 401"
    by (simp add: route_send_def send_def sample_envelope send_checked_def checked_input_def n respond_def)
  with strangers_refused [of sample_sender "[]" "[]"] n show ?thesis by (auto simp: respond_def)
qed

end
