(* ===== verification/Events_Queue.thy ===== *)
theory Events_Queue
  imports Events_Checks Observation_Replicator Activity_Contract
begin

text \<open>
  The durable queue of state transitions on the host, \<^verbatim>\<open>src/src/events_host.rs\<close>: which transitions of
  a session or of a job become records, the bounded private directory they are kept in, and their
  delivery to the hosted service in batches of two from a rotating offset. A directory is its owner,
  its mode and its files in any order. The operating system, the JSON codec, the session view of the
  supervisor and the answers of the service are the fields of \<open>queue_env\<close>; an operation of the file
  system fails where \<open>qe_fails\<close> says so.
\<close>

unbundle bit_operations_syntax

section \<open>Data\<close>

definition MAX_PENDING :: nat where "MAX_PENDING = 256"

definition MAX_RECORD_BYTES :: nat where "MAX_RECORD_BYTES = 16 * 1024"

definition PENDING_LIFETIME :: nat where "PENDING_LIFETIME = 12 * 60 * 60 * 1000"

definition MAX_DELIVERY_BATCH :: nat where "MAX_DELIVERY_BATCH = 2"

text \<open>The part of \<^verbatim>\<open>SessionView\<close> this module reads.\<close>

record session_view =
  vw_host_id :: string
  vw_session_id :: string
  vw_status :: string
  vw_process_id :: u32
  vw_cwd :: string
  vw_permitted_directories :: "string list"
  vw_started_at :: u64
  vw_permission_mode :: permission_mode
  vw_yolo :: bool
  vw_restart_count :: u32

record broken_time =
  tm_year :: int
  tm_mon :: int
  tm_mday :: int
  tm_hour :: int
  tm_min :: int
  tm_sec :: int

record pending =
  pn_created_ms :: u64
  pn_body :: json

text \<open>\<open>qf_private\<close>: a regular file of this user with no permission for others.\<close>

record queue_file =
  qf_private :: bool
  qf_bytes :: string

record dir_meta =
  dm_directory :: bool
  dm_owned :: bool
  dm_mode :: nat

record host_queue =
  hq_meta :: dir_meta
  hq_files :: "(string \<times> queue_file) list"

record queue_store =
  qs_parent :: "dir_meta option"
  qs_root :: "dir_meta option"
  qs_hosts :: "string \<Rightarrow> host_queue option"

datatype queue_point =
    OpenDirectory | CreateDirectory | ChangeMode | OpenLock | TakeLock | ReadDirectory
  | CreateFile | WriteFile | SyncFile | SyncDirectory | OpenFile | ReadFile | RemoveFile

text \<open>An answer of the service; a chunk that cannot be read is absent.\<close>

record ack_response =
  ak_status :: nat
  ak_length :: "nat option"
  ak_chunks :: "string option list"

record queue_env =
  qe_state_dir :: bool
  qe_fails :: "queue_point \<Rightarrow> string \<Rightarrow> bool"
  qe_created_mode :: nat
  qe_written :: nat
  qe_now :: "string \<Rightarrow> u64 option"
  qe_new_uuid :: string
  qe_to_vec :: "json \<Rightarrow> string"
  qe_document :: "string \<Rightarrow> json option"
  qe_value :: "string \<Rightarrow> json option"
  qe_gmtime :: "int \<Rightarrow> broken_time option"
  qe_view :: "string \<Rightarrow> session_view option"
  qe_post :: "string \<Rightarrow> string \<times> json \<Rightarrow> ack_response option"

text \<open>An error of the operation, or a panic of the task that runs it.\<close>

datatype queue_error = Error anyhow | Panicked

section \<open>Transitions\<close>

definition fmt_width :: "nat \<Rightarrow> int \<Rightarrow> string" where
  "fmt_width w z =
     (let s = decimal (nat \<bar>z\<bar>)
      in if z < 0 then ''-'' @ replicate (w - 1 - length s) CHR ''0'' @ s else replicate (w - length s) CHR ''0'' @ s)"

definition timestamp :: "queue_env \<Rightarrow> u64 \<Rightarrow> queue_error + string" where
  "timestamp E ms =
     (case qe_gmtime E (int (unat ms div 1000)) of
        None \<Rightarrow> Inl (Error (Message ''invalid event time''))
      | Some tm \<Rightarrow>
          Inr (fmt_width 4 (tm_year tm + 1900) @ ''-'' @ fmt_width 2 (tm_mon tm + 1) @ ''-'' @ fmt_width 2 (tm_mday tm)
            @ ''T'' @ fmt_width 2 (tm_hour tm) @ '':'' @ fmt_width 2 (tm_min tm) @ '':'' @ fmt_width 2 (tm_sec tm)
            @ ''.'' @ fmt_width 3 (int (unat ms mod 1000)) @ ''Z''))"

text \<open>\<^verbatim>\<open>Path::to_str\<close>.\<close>

definition path_str :: "string \<Rightarrow> string option" where
  "path_str p = (if utf8_valid p then Some p else None)"

definition scope_text :: "string \<Rightarrow> queue_error + string" where
  "scope_text p = ok_or (path_str p) (Error (Message ''non-UTF8 event session scope''))"

definition transition_fields ::
  "session_view \<Rightarrow> string \<Rightarrow> string \<Rightarrow> string option \<Rightarrow> string \<Rightarrow> string \<Rightarrow> string list \<Rightarrow> (string \<times> json) list" where
  "transition_fields view name state job_id stamp cwd directories =
     (case job_id of Some j \<Rightarrow> [(''job_id'', JString j)] | None \<Rightarrow> []) @
     [(''name'', JString name), (''session_cwd'', JString cwd), (''session_id'', JString (vw_session_id view)),
      (''session_permission_mode'', JString (mode_as_str (vw_permission_mode view))),
      (''session_permitted_directories'', JArray (map JString directories)),
      (''session_process_id'', juint (ucast (vw_process_id view))),
      (''session_restart_count'', juint (ucast (vw_restart_count view))),
      (''session_started_at'', juint (vw_started_at view)), (''state'', JString state), (''timestamp'', JString stamp)]"

definition transition_body ::
  "queue_env \<Rightarrow> session_view \<Rightarrow> string \<Rightarrow> string \<Rightarrow> string option \<Rightarrow> u64 \<Rightarrow> queue_error + json option" where
  "transition_body E view name state job_id at_ms =
     (if vw_yolo view
         \<or> is_yolo (vw_permission_mode view)
         \<or> vw_started_at view = 0
         \<or> vw_process_id view = 0
         \<or> \<not> (vw_permission_mode view = Ask \<or> vw_permission_mode view = Agent)
         \<or> vw_permitted_directories view = []
         \<or> 32 < length (vw_permitted_directories view)
      then Inr None
      else
        and_then (ok_or (path_str (vw_cwd view)) (Error (Message ''non-UTF8 event session cwd''))) (\<lambda>cwd.
        and_then (collect_results scope_text (vw_permitted_directories view)) (\<lambda>directories.
        if 4096 < length cwd \<or> list_ex (\<lambda>p. 4096 < length p) directories then Inr None
        else
          and_then (timestamp E at_ms) (\<lambda>stamp.
          let body = JObject (transition_fields view name state job_id stamp cwd directories)
          in Inr (if length (qe_to_vec E body) \<le> 3500 then Some body else None)))))"

text \<open>The scope of the session in which a transition was recorded, compared with the session now.\<close>

definition same_scope :: "session_view \<Rightarrow> json \<Rightarrow> bool option" where
  "same_scope view body =
     (if vw_yolo view
         \<or> vw_status view \<notin> set [''starting'', ''active'', ''stopping'', ''stopped'', ''crashed'', ''failed'']
      then None
      else
        Option.bind (Option.bind (jget body ''session_started_at'') as_u64) (\<lambda>started.
        Option.bind (Option.bind (jget body ''session_process_id'') as_u64) (\<lambda>process.
        Option.bind (Option.bind (jget body ''session_restart_count'') as_u64) (\<lambda>restart.
        Option.bind (Option.bind (jget body ''session_permission_mode'') as_str) (\<lambda>mode.
        Option.bind (Option.bind (jget body ''session_cwd'') as_str) (\<lambda>cwd.
        Option.bind (Option.bind (jget body ''session_permitted_directories'') as_array) (\<lambda>dirs.
        if dirs = [] \<or> list_ex (\<lambda>p. as_str p = None) dirs then None
        else if started = vw_started_at view \<and> process = ucast (vw_process_id view) \<and> restart = ucast (vw_restart_count view)
             \<and> mode = mode_as_str (vw_permission_mode view) \<and> Some cwd = path_str (vw_cwd view)
        then (if list_all (\<lambda>p. path_str p \<noteq> None) (vw_permitted_directories view)
              then Some (dirs = map JString (vw_permitted_directories view)) else None)
        else Some False)))))))"

section \<open>The private directories\<close>

text \<open>A mode is the number of its twelve bits: 63 is \<^verbatim>\<open>0o077\<close> and 448 is \<^verbatim>\<open>0o700\<close>.\<close>

definition not_private :: queue_error where
  "not_private = Error (Message ''Fabric event queue is not private'')"

definition check_private_dir :: "queue_env \<Rightarrow> string \<Rightarrow> dir_meta option \<Rightarrow> queue_error + unit" where
  "check_private_dir E path m =
     and_then (ok_or m (Error NotFound)) (\<lambda>d.
     ensure (dm_directory d \<and> dm_owned d \<and> dm_mode d AND 63 = 0) not_private (
     ensure (\<not> qe_fails E OpenDirectory path) (Error NotFound) (
     ensure (dm_owned d) (Error (Message ''Fabric event queue owner changed'')) (Inr ()))))"

text \<open>The directory afterwards, and whether it may be used. A new directory gets mode 0700 less the
  bits the process masks.\<close>

definition ensure_private_dir :: "queue_env \<Rightarrow> string \<Rightarrow> dir_meta option \<Rightarrow> dir_meta option \<times> (queue_error + unit)" where
  "ensure_private_dir E path m =
     (case m of
        Some d \<Rightarrow>
          if \<not> (dm_directory d \<and> dm_owned d)
          then (m, Inl (Error (Message ''Fabric event queue path is not an owner directory'')))
          else if qe_fails E OpenDirectory path \<or> qe_fails E ChangeMode path then (m, Inl (Error NotFound))
          else (let d' = d\<lparr>dm_mode := 448\<rparr> in (Some d', check_private_dir E path (Some d')))
      | None \<Rightarrow>
          if qe_fails E CreateDirectory path then (None, Inl (Error NotFound))
          else
            let d = \<lparr>dm_directory = True, dm_owned = True, dm_mode = 448 AND qe_created_mode E\<rparr>
            in if qe_fails E OpenDirectory path \<or> qe_fails E ChangeMode path then (Some d, Inl (Error NotFound))
               else (let d' = d\<lparr>dm_mode := 448\<rparr> in (Some d', check_private_dir E path (Some d'))))"

text \<open>The store of the operator, below the state directory of the process.\<close>

definition operator_store :: "queue_env \<Rightarrow> queue_store \<Rightarrow> queue_error + unit" where
  "operator_store E S = ensure (qe_state_dir E) (Error NotFound) (check_private_dir E ''state'' (qs_parent S))"

definition put_host_meta :: "string \<Rightarrow> dir_meta option \<Rightarrow> queue_store \<Rightarrow> queue_store" where
  "put_host_meta host m S =
     S\<lparr>qs_hosts := (qs_hosts S)(host :=
       (case (m, qs_hosts S host) of
          (None, _) \<Rightarrow> None
        | (Some d, None) \<Rightarrow> Some \<lparr>hq_meta = d, hq_files = []\<rparr>
        | (Some d, Some q) \<Rightarrow> Some (q\<lparr>hq_meta := d\<rparr>)))\<rparr>"

definition host_dir :: "queue_env \<Rightarrow> string \<Rightarrow> queue_store \<Rightarrow> queue_store \<times> (queue_error + unit)" where
  "host_dir E host S =
     (case and_then (map_err Error (host_identity_validate host)) (\<lambda>_. check_private_dir E ''state'' (qs_parent S)) of
        Inl e \<Rightarrow> (S, Inl e)
      | Inr _ \<Rightarrow>
          (case ensure_private_dir E ''fabric-events'' (qs_root S) of
             (root, Inl e) \<Rightarrow> (S\<lparr>qs_root := root\<rparr>, Inl e)
           | (root, Inr _) \<Rightarrow>
               (let S1 = S\<lparr>qs_root := root\<rparr>
                in case ensure_private_dir E host (map_option hq_meta (qs_hosts S1 host)) of
                     (m, r) \<Rightarrow> (put_host_meta host m S1, r))))"

section \<open>Files of the queue\<close>

text \<open>The lock file is created when it is missing.\<close>

definition open_lock :: "(string \<times> queue_file) list \<Rightarrow> (string \<times> queue_file) list" where
  "open_lock files =
     (case map_of files ''.lock'' of
        Some _ \<Rightarrow> files
      | None \<Rightarrow> files @ [(''.lock'', \<lparr>qf_private = True, qf_bytes = []\<rparr>)])"

definition check_private_file :: "queue_file \<Rightarrow> queue_error + unit" where
  "check_private_file f =
     ensure (qf_private f) (Error (Message ''Fabric event queue file is not private'')) (Inr ())"

definition put_files :: "string \<Rightarrow> (string \<times> queue_file) list \<Rightarrow> queue_store \<Rightarrow> queue_store" where
  "put_files host files S =
     S\<lparr>qs_hosts := (qs_hosts S)(host := map_option (\<lambda>q. q\<lparr>hq_files := files\<rparr>) (qs_hosts S host))\<rparr>"

definition files_of :: "string \<Rightarrow> queue_store \<Rightarrow> (string \<times> queue_file) list" where
  "files_of host S = (case qs_hosts S host of Some q \<Rightarrow> hq_files q | None \<Rightarrow> [])"

definition with_queue_lock ::
  "queue_env \<Rightarrow> string \<Rightarrow> ((string \<times> queue_file) list \<Rightarrow> (string \<times> queue_file) list \<times> (queue_error + 'a)) \<Rightarrow>
   queue_store \<Rightarrow> queue_store \<times> (queue_error + 'a)" where
  "with_queue_lock E host operation S =
     (case host_dir E host S of
        (S1, Inl e) \<Rightarrow> (S1, Inl e)
      | (S1, Inr _) \<Rightarrow>
          if qe_fails E OpenLock ''.lock'' then (S1, Inl (Error NotFound))
          else
            (let files = open_lock (files_of host S1); S2 = put_files host files S1
             in case map_of files ''.lock'' of
                  None \<Rightarrow> (S2, Inl (Error NotFound))
                | Some lock \<Rightarrow>
                    (case check_private_file lock of
                       Inl e \<Rightarrow> (S2, Inl e)
                     | Inr _ \<Rightarrow>
                         if qe_fails E TakeLock ''.lock''
                         then (S2, Inl (Error (Message ''Fabric event queue lock unavailable'')))
                         else (case operation files of (files', r) \<Rightarrow> (put_files host files' S2, r)))))"

text \<open>\<^verbatim>\<open>Path::extension\<close> is \<^verbatim>\<open>json\<close>: a leading dot alone does not start an extension.\<close>

definition is_json_file :: "string \<Rightarrow> bool" where
  "is_json_file name \<longleftrightarrow> suffix ''.json'' name \<and> 5 < length name"

definition pending_paths :: "queue_env \<Rightarrow> (string \<times> queue_file) list \<Rightarrow> queue_error + string list" where
  "pending_paths E files =
     ensure (\<not> qe_fails E ReadDirectory []) (Error NotFound) (
     ensure (length files \<le> MAX_PENDING + 1) (Error (Message ''Fabric event queue directory exceeds entry limit'')) (
     Inr (sort (filter is_json_file (map fst files)))))"

definition pending_value :: "pending \<Rightarrow> json" where
  "pending_value p = JObject [(''created_ms'', juint (pn_created_ms p)), (''body'', pn_body p)]"

definition record_name :: "queue_env \<Rightarrow> u64 \<Rightarrow> string" where
  "record_name E created = fmt_width 20 (int (unat created)) @ ''-'' @ qe_new_uuid E @ ''.json''"

text \<open>What \<^verbatim>\<open>enqueue_in\<close> does under the lock. A write that fails leaves what was written.\<close>

definition store_record ::
  "queue_env \<Rightarrow> string \<Rightarrow> string \<Rightarrow> (string \<times> queue_file) list \<Rightarrow> (string \<times> queue_file) list \<times> (queue_error + unit)" where
  "store_record E name bytes files =
     (case and_then (pending_paths E files) (\<lambda>paths.
           ensure (length paths < MAX_PENDING) (Error (Message ''Fabric transition queue is full'')) (
           ensure (map_of files name = None \<and> \<not> qe_fails E CreateFile name) (Error NotFound) (Inr ()))) of
        Inl e \<Rightarrow> (files, Inl e)
      | Inr _ \<Rightarrow>
          if qe_fails E WriteFile name
          then (files @ [(name, \<lparr>qf_private = True, qf_bytes = take (qe_written E) bytes\<rparr>)], Inl (Error NotFound))
          else
            (files @ [(name, \<lparr>qf_private = True, qf_bytes = bytes\<rparr>)],
             ensure (\<not> qe_fails E SyncFile name \<and> \<not> qe_fails E SyncDirectory name) (Error NotFound) (Inr ())))"

definition enqueue_in :: "queue_env \<Rightarrow> string \<Rightarrow> json \<Rightarrow> queue_store \<Rightarrow> queue_store \<times> (queue_error + unit)" where
  "enqueue_in E host body S =
     (case qe_now E [] of
        None \<Rightarrow> (S, Inl (Error Malformed))
      | Some now \<Rightarrow>
          (let bytes = qe_to_vec E (pending_value \<lparr>pn_created_ms = now, pn_body = body\<rparr>)
           in if MAX_RECORD_BYTES < length bytes
              then (S, Inl (Error (Message ''Fabric transition exceeds queue record limit'')))
              else with_queue_lock E host (store_record E (record_name E now) bytes) S))"

definition enqueue :: "queue_env \<Rightarrow> string \<Rightarrow> json \<Rightarrow> queue_store \<Rightarrow> queue_store \<times> (queue_error + unit)" where
  "enqueue E host body S =
     (case operator_store E S of Inl e \<Rightarrow> (S, Inl e) | Inr _ \<Rightarrow> enqueue_in E host body S)"

section \<open>Recording transitions\<close>

definition lifecycle_state :: "activity_operation \<Rightarrow> activity_state \<Rightarrow> string option" where
  "lifecycle_state operation state =
     (if (operation = SessionStart \<or> operation = SessionRestart \<or> operation = SessionAutoRestart) \<and> state = activity_state.Completed
      then Some ''active''
      else if operation = SessionStop \<and> state = activity_state.Completed then Some ''stopped''
      else if operation = SessionCrash \<and> state = activity_state.Failed then Some ''crashed''
      else None)"

definition record_lifecycle :: "queue_env \<Rightarrow> activity_event \<Rightarrow> string \<Rightarrow> queue_store \<Rightarrow> queue_store \<times> (queue_error + unit)" where
  "record_lifecycle E event host S =
     (case lifecycle_state (ev_operation event) (ev_state event) of
        None \<Rightarrow> (S, Inr ())
      | Some expected \<Rightarrow>
          (case ev_session_id event of
             None \<Rightarrow> (S, Inr ())
           | Some sid \<Rightarrow>
               (case qe_view E sid of
                  None \<Rightarrow> (S, Inl (Error Malformed))
                | Some view \<Rightarrow>
                    if vw_host_id view \<noteq> host \<or> vw_status view \<noteq> expected then (S, Inr ())
                    else
                      (case transition_body E view ''session.state.changed'' (vw_status view) None (ev_timestamp_ms event) of
                         Inl e \<Rightarrow> (S, Inl e)
                       | Inr None \<Rightarrow> (S, Inr ())
                       | Inr (Some body) \<Rightarrow> enqueue E host body S))))"

definition record_stopped_job :: "queue_env \<Rightarrow> string \<Rightarrow> string \<Rightarrow> queue_store \<Rightarrow> queue_store \<times> (queue_error + unit)" where
  "record_stopped_job E sid job_id S =
     (case qe_view E sid of
        None \<Rightarrow> (S, Inl (Error Malformed))
      | Some view \<Rightarrow>
          if vw_status view \<noteq> ''active'' then (S, Inr ())
          else
            (case qe_now E [] of
               None \<Rightarrow> (S, Inl (Error Malformed))
             | Some now \<Rightarrow>
                 (case transition_body E view ''job.state.changed'' ''stopped'' (Some job_id) now of
                    Inl e \<Rightarrow> (S, Inl e)
                  | Inr None \<Rightarrow> (S, Inr ())
                  | Inr (Some body) \<Rightarrow> enqueue E (vw_host_id view) body S)))"

section \<open>Delivery\<close>

text \<open>The derived \<^verbatim>\<open>Deserialize\<close> of a record: a map with both fields, other fields ignored and
  neither repeated, or a sequence of the two.\<close>

definition pending_of :: "json \<Rightarrow> pending option" where
  "pending_of v =
     (case v of
        JObject fs \<Rightarrow>
          if length (filter (\<lambda>(k, _). k = ''created_ms'') fs) \<noteq> 1 \<or> length (filter (\<lambda>(k, _). k = ''body'') fs) \<noteq> 1 then None
          else Option.bind (Option.bind (map_of fs ''created_ms'') read_u64) (\<lambda>c.
               map_option (\<lambda>b. \<lparr>pn_created_ms = c, pn_body = b\<rparr>) (map_of fs ''body''))
      | JArray [c, b] \<Rightarrow> map_option (\<lambda>c. \<lparr>pn_created_ms = c, pn_body = b\<rparr>) (read_u64 c)
      | _ \<Rightarrow> None)"

text \<open>What \<^verbatim>\<open>deliver_pending_in\<close> reads under the lock. At most one byte more than a record may have is read.\<close>

definition load_record :: "queue_env \<Rightarrow> string \<Rightarrow> (string \<times> queue_file) list \<Rightarrow> queue_error + pending" where
  "load_record E path files =
     and_then (ok_or (map_of files path) (Error NotFound)) (\<lambda>f.
     ensure (\<not> qe_fails E OpenFile path) (Error NotFound) (
     and_then (check_private_file f) (\<lambda>_.
     ensure (\<not> qe_fails E ReadFile path) (Error NotFound) (
     let bytes = take (MAX_RECORD_BYTES + 1) (qf_bytes f)
     in ensure (length bytes \<le> MAX_RECORD_BYTES) (Error (Message ''Fabric event record is oversized'')) (
        ok_or (Option.bind (qe_document E bytes) pending_of) (Error Malformed))))))"

definition remove_record ::
  "queue_env \<Rightarrow> string \<Rightarrow> (string \<times> queue_file) list \<Rightarrow> (string \<times> queue_file) list \<times> (queue_error + unit)" where
  "remove_record E path files =
     (if map_of files path = None \<or> qe_fails E RemoveFile path then (files, Inl (Error NotFound))
      else (filter (\<lambda>(n, _). n \<noteq> path) files, Inr ()))"

definition expired :: "u64 \<Rightarrow> u64 \<Rightarrow> bool" where
  "expired now created \<longleftrightarrow> PENDING_LIFETIME \<le> unat now - unat created"

text \<open>\<^verbatim>\<open>body[key] = value\<close>: null becomes an object, any other value that is not an object panics.\<close>

definition set_key :: "string \<Rightarrow> json \<Rightarrow> json \<Rightarrow> queue_error + json" where
  "set_key k x v =
     (case v of
        JObject fs \<Rightarrow> Inr (JObject (btree_insert k x fs))
      | JNull \<Rightarrow> Inr (JObject [(k, x)])
      | _ \<Rightarrow> Inl Panicked)"

fun append_chunks :: "nat \<Rightarrow> string \<Rightarrow> string option list \<Rightarrow> string option" where
  "append_chunks limit body [] = Some body"
| "append_chunks limit body (None # cs) = None"
| "append_chunks limit body (Some c # cs) =
     (if length body + length c \<le> limit then append_chunks limit (body @ c) cs else None)"

definition read_bounded_body :: "ack_response \<Rightarrow> nat \<Rightarrow> string option" where
  "read_bounded_body response limit =
     (case ak_length response of
        Some n \<Rightarrow> if n \<le> limit then append_chunks limit [] (ak_chunks response) else None
      | None \<Rightarrow> append_chunks limit [] (ak_chunks response))"

definition is_success :: "nat \<Rightarrow> bool" where
  "is_success status \<longleftrightarrow> 200 \<le> status \<and> status < 300"

definition accepted :: "queue_env \<Rightarrow> ack_response \<Rightarrow> bool" where
  "accepted E response =
     (if is_success (ak_status response) then
        (case read_bounded_body response 1024 of
           Some bytes \<Rightarrow> (case qe_value E bytes of Some v \<Rightarrow> jget v ''accepted'' = Some (JBool True) | None \<Rightarrow> False)
         | None \<Rightarrow> False)
      else ak_status response = 400)"

text \<open>A conflict drops the record only when the session it names is on this host and has another scope.\<close>

definition obsolete :: "queue_env \<Rightarrow> string \<Rightarrow> json \<Rightarrow> bool" where
  "obsolete E host body =
     (case Option.bind (jget body ''session_id'') as_str of
        None \<Rightarrow> False
      | Some sid \<Rightarrow>
          (case qe_view E sid of
             None \<Rightarrow> False
           | Some view \<Rightarrow> vw_host_id view = host \<and> vw_session_id view = sid \<and> same_scope view body = Some False))"

definition settles :: "queue_env \<Rightarrow> string \<Rightarrow> json \<Rightarrow> ack_response \<Rightarrow> bool" where
  "settles E host body response =
     (if ak_status response = 409 then obsolete E host body else accepted E response)"

definition endpoint :: "string \<Rightarrow> string" where
  "endpoint host = ''/v1/hosts/'' @ host @ ''/events/transition''"

definition outgoing :: "string \<Rightarrow> u64 \<Rightarrow> json \<Rightarrow> queue_error + json" where
  "outgoing instance_id generation body =
     and_then (set_key ''generation'' (juint generation) body) (set_key ''host_instance_id'' (JString instance_id))"

text \<open>One turn of the loop: the store, the requests made and the result.\<close>

definition deliver_one ::
  "queue_env \<Rightarrow> string \<Rightarrow> string \<Rightarrow> u64 \<Rightarrow> string \<Rightarrow> queue_store \<Rightarrow> queue_store \<times> (string \<times> json) list \<times> (queue_error + unit)" where
  "deliver_one E host instance_id generation path S =
     (case with_queue_lock E host (\<lambda>files. (files, load_record E path files)) S of
        (S1, Inl e) \<Rightarrow> (S1, [], Inl e)
      | (S1, Inr record) \<Rightarrow>
          (case qe_now E path of
             None \<Rightarrow> (S1, [], Inl (Error Malformed))
           | Some now \<Rightarrow>
               if expired now (pn_created_ms record)
               then (case with_queue_lock E host (remove_record E path) S1 of (S2, r) \<Rightarrow> (S2, [], r))
               else
                 (case outgoing instance_id generation (pn_body record) of
                    Inl e \<Rightarrow> (S1, [], Inl e)
                  | Inr body \<Rightarrow>
                      (let request = (endpoint host, body)
                       in case qe_post E path request of
                            None \<Rightarrow> (S1, [request], Inr ())
                          | Some response \<Rightarrow>
                              if settles E host body response
                              then (case with_queue_lock E host (remove_record E path) S1 of (S2, r) \<Rightarrow> (S2, [request], r))
                              else (S1, [request], Inr ())))))"

fun deliver_each ::
  "queue_env \<Rightarrow> string \<Rightarrow> string \<Rightarrow> u64 \<Rightarrow> string list \<Rightarrow> queue_store \<Rightarrow> queue_store \<times> (string \<times> json) list \<times> (queue_error + unit)" where
  "deliver_each E host instance_id generation [] S = (S, [], Inr ())"
| "deliver_each E host instance_id generation (path # paths) S =
     (case deliver_one E host instance_id generation path S of
        (S1, sent, Inl e) \<Rightarrow> (S1, sent, Inl e)
      | (S1, sent, Inr _) \<Rightarrow>
          (case deliver_each E host instance_id generation paths S1 of (S2, sent', r) \<Rightarrow> (S2, sent @ sent', r)))"

text \<open>\<open>paths.iter().cycle().skip(offset).take(min 2 n)\<close>.\<close>

definition batch :: "u64 \<Rightarrow> string list \<Rightarrow> string list" where
  "batch offset paths = take (min MAX_DELIVERY_BATCH (length paths)) (rotate (unat offset mod length paths) paths)"

text \<open>The offset is shared by all deliveries of the process and wraps around; an empty queue leaves it.\<close>

definition deliver_pending_in ::
  "queue_env \<Rightarrow> string \<Rightarrow> string \<Rightarrow> u64 \<Rightarrow> u64 \<times> queue_store \<Rightarrow> (u64 \<times> queue_store) \<times> (string \<times> json) list \<times> (queue_error + unit)" where
  "deliver_pending_in E host instance_id generation st =
     (case st of (offset, S) \<Rightarrow>
        case with_queue_lock E host (\<lambda>files. (files, pending_paths E files)) S of
          (S1, Inl e) \<Rightarrow> ((offset, S1), [], Inl e)
        | (S1, Inr []) \<Rightarrow> ((offset, S1), [], Inr ())
        | (S1, Inr paths) \<Rightarrow>
            (case deliver_each E host instance_id generation (batch offset paths) S1 of
               (S2, sent, r) \<Rightarrow> ((offset + of_nat MAX_DELIVERY_BATCH, S2), sent, r)))"

definition deliver_pending ::
  "queue_env \<Rightarrow> string \<Rightarrow> string \<Rightarrow> u64 \<Rightarrow> u64 \<times> queue_store \<Rightarrow> (u64 \<times> queue_store) \<times> (string \<times> json) list \<times> (queue_error + unit)" where
  "deliver_pending E host instance_id generation st =
     (case operator_store E (snd st) of
        Inl e \<Rightarrow> (st, [], Inl e)
      | Inr _ \<Rightarrow> deliver_pending_in E host instance_id generation st)"

section \<open>What the lock keeps\<close>

lemma host_dir_files: "host_dir E host S = (S', r) \<Longrightarrow> files_of h S' = files_of h S"
  by (auto simp: host_dir_def files_of_def put_host_meta_def ensure_private_dir_def check_private_dir_def Let_def
    split: sum.splits prod.splits option.splits if_splits)

lemma host_dir_ready: "host_dir E host S = (S', Inr u) \<Longrightarrow> qs_hosts S' host \<noteq> None"
  by (auto simp: host_dir_def put_host_meta_def ensure_private_dir_def check_private_dir_def Let_def
    split: sum.splits prod.splits option.splits if_splits)

lemma files_of_put: "files_of h (put_files host files S) = (if h = host \<and> qs_hosts S host \<noteq> None then files else files_of h S)"
  by (auto simp: files_of_def put_files_def split: option.splits)

lemma put_files_host: "qs_hosts (put_files host files S) host \<noteq> None \<longleftrightarrow> qs_hosts S host \<noteq> None"
  by (simp add: put_files_def)

lemma open_lock_found: "map_of (open_lock files) ''.lock'' \<noteq> None"
  by (auto simp: open_lock_def map_add_def split: option.splits)

lemma open_lock_idem [simp]: "open_lock (open_lock files) = open_lock files"
  using open_lock_found [of files] by (auto simp: open_lock_def [of "open_lock files"] split: option.splits)

text \<open>Under the lock an operation either runs on the files of its own host, with the lock file among
  them, or the files stay as they are up to the lock file. No other host is touched.\<close>

lemma with_lock_cases:
  assumes "with_queue_lock E host operation S = (S', r)"
  obtains (blocked) e where "r = Inl e" "files_of host S' = files_of host S \<or> files_of host S' = open_lock (files_of host S)"
      "\<And>h. h \<noteq> host \<Longrightarrow> files_of h S' = files_of h S"
    | (held) "operation (open_lock (files_of host S)) = (files_of host S', r)" "\<And>h. h \<noteq> host \<Longrightarrow> files_of h S' = files_of h S"
proof -
  obtain S1 r1 where h: "host_dir E host S = (S1, r1)" by (cases "host_dir E host S")
  note f = host_dir_files [OF h]
  show thesis
  proof (cases r1)
    case (Inl e)
    with assms h f show thesis by (intro blocked [of e]) (auto simp: with_queue_lock_def)
  next
    case (Inr u)
    have q: "qs_hosts S1 host \<noteq> None" using host_dir_ready h Inr by blast
    let ?files = "open_lock (files_of host S)"
    let ?S2 = "put_files host ?files S1"
    have s2: "files_of host ?S2 = ?files" "\<And>h. h \<noteq> host \<Longrightarrow> files_of h ?S2 = files_of h S"
      using q f by (simp_all add: files_of_put)
    have s3: "qs_hosts ?S2 host \<noteq> None" unfolding put_files_host using q .
    obtain lock where lock: "map_of ?files ''.lock'' = Some lock" using open_lock_found by auto
    show thesis
    proof (cases "qe_fails E OpenLock ''.lock'' \<or> \<not> qf_private lock \<or> qe_fails E TakeLock ''.lock''")
      case True
      with assms h Inr f lock s2 show thesis
        by (intro blocked [of "projl r"]) (auto simp: with_queue_lock_def check_private_file_def ensure_def Let_def split: if_splits)
    next
      case False
      obtain files' r' where o: "operation ?files = (files', r')" by (cases "operation ?files")
      have "S' = put_files host files' ?S2" "r = r'"
        using assms h Inr f lock False o by (auto simp: with_queue_lock_def check_private_file_def Let_def)
      then show thesis using o s2 s3 by (intro held) (auto simp: files_of_put)
    qed
  qed
qed

lemma with_lock_other: "with_queue_lock E host operation S = (S', r) \<Longrightarrow> h \<noteq> host \<Longrightarrow> files_of h S' = files_of h S"
  by (erule with_lock_cases) auto

section \<open>The bound of the queue\<close>

definition queue_inv :: "(string \<times> queue_file) list \<Rightarrow> bool" where
  "queue_inv files \<longleftrightarrow> distinct (map fst files) \<and> length (filter is_json_file (map fst files)) \<le> MAX_PENDING
     \<and> set (map fst files) \<subseteq> insert ''.lock'' (Collect is_json_file) \<and> (\<forall>f \<in> snd ` set files. qf_private f)"

lemma lock_not_json [simp]: "\<not> is_json_file ''.lock''"
  by (simp add: is_json_file_def)

lemma queue_inv_Nil [simp]: "queue_inv []"
  by (simp add: queue_inv_def)

lemma queue_inv_open_lock [simp]: "queue_inv files \<Longrightarrow> queue_inv (open_lock files)"
  by (auto simp: queue_inv_def open_lock_def map_of_eq_None_iff split: option.splits)

lemma queue_inv_filter: "queue_inv files \<Longrightarrow> queue_inv (filter P files)"
proof -
  assume a: "queue_inv files"
  have "length (filter is_json_file (map fst (filter P files))) \<le> length (filter is_json_file (map fst files))"
    by (induction files) auto
  with a show ?thesis by (auto simp: queue_inv_def distinct_map_filter)
qed

lemma queue_inv_entries:
  assumes "queue_inv files"
  shows "length files \<le> MAX_PENDING + 1"
proof -
  have "length files = length (filter is_json_file (map fst files)) + length (filter (\<lambda>n. \<not> is_json_file n) (map fst files))"
    using sum_length_filter_compl [of is_json_file "map fst files"] by simp
  moreover have "length (filter (\<lambda>n. \<not> is_json_file n) (map fst files)) \<le> 1"
  proof -
    have "set (filter (\<lambda>n. \<not> is_json_file n) (map fst files)) \<subseteq> {''.lock''}" using assms by (auto simp: queue_inv_def)
    then have "card (set (filter (\<lambda>n. \<not> is_json_file n) (map fst files))) \<le> 1"
      using card_mono [of "{''.lock''}"] by fastforce
    moreover have "distinct (filter (\<lambda>n. \<not> is_json_file n) (map fst files))" using assms by (simp add: queue_inv_def)
    ultimately show ?thesis by (simp only: distinct_card)
  qed
  ultimately show ?thesis using assms by (simp add: queue_inv_def)
qed

lemma record_name_json: "is_json_file (record_name E created)"
  by (auto simp: is_json_file_def record_name_def suffix_def)

lemma queue_inv_append:
  "queue_inv files \<Longrightarrow> is_json_file name \<Longrightarrow> map_of files name = None \<Longrightarrow> qf_private f
   \<Longrightarrow> length (filter is_json_file (map fst files)) < MAX_PENDING \<Longrightarrow> queue_inv (files @ [(name, f)])"
  by (auto simp: queue_inv_def map_of_eq_None_iff)

lemma store_record_inv:
  assumes "queue_inv files" "is_json_file name"
  shows "queue_inv (fst (store_record E name bytes files))"
proof (cases "and_then (pending_paths E files) (\<lambda>paths.
           ensure (length paths < MAX_PENDING) (Error (Message ''Fabric transition queue is full'')) (
           ensure (map_of files name = None \<and> \<not> qe_fails E CreateFile name) (Error NotFound) (Inr ())))")
  case (Inl e)
  then show ?thesis using assms(1) by (simp add: store_record_def)
next
  case (Inr u)
  then have "length (filter is_json_file (map fst files)) < MAX_PENDING" "map_of files name = None"
    by (auto simp: pending_paths_def)
  then show ?thesis unfolding store_record_def Inr using assms by (simp add: queue_inv_append)
qed

lemma remove_record_inv: "queue_inv files \<Longrightarrow> queue_inv (fst (remove_record E path files))"
  by (simp add: remove_record_def queue_inv_filter)

text \<open>An operation under the lock keeps the invariant of every host when it keeps it of the files it is
  given.\<close>

lemma with_lock_inv:
  assumes "with_queue_lock E host operation S = (S', r)" "\<And>h. queue_inv (files_of h S)"
    and "\<And>files. queue_inv files \<Longrightarrow> queue_inv (fst (operation files))"
  shows "queue_inv (files_of h S')"
proof (cases "h = host")
  case True
  from assms(1) show ?thesis
  proof (cases rule: with_lock_cases)
    case blocked
    then show ?thesis using assms(2) True by (metis queue_inv_open_lock)
  next
    case held
    then show ?thesis using assms(2,3) True by (metis fst_conv queue_inv_open_lock)
  qed
qed (use assms(1,2) with_lock_other in metis)

lemma with_lock_read_inv:
  "with_queue_lock E host (\<lambda>files. (files, g files)) S = (S', r) \<Longrightarrow> (\<And>h. queue_inv (files_of h S)) \<Longrightarrow> queue_inv (files_of h S')"
  by (erule with_lock_inv) auto

lemma enqueue_inv:
  assumes "\<And>h. queue_inv (files_of h S)"
  shows "queue_inv (files_of h (fst (enqueue_in E host body S)))"
proof (cases "qe_now E []")
  case (Some now)
  let ?op = "store_record E (record_name E now) (qe_to_vec E (pending_value \<lparr>pn_created_ms = now, pn_body = body\<rparr>))"
  obtain S' r where l: "with_queue_lock E host ?op S = (S', r)" by fastforce
  have "queue_inv (files_of h S')"
    using l assms by (rule with_lock_inv) (simp add: store_record_inv record_name_json)
  then show ?thesis using assms l by (simp add: enqueue_in_def Some Let_def)
qed (use assms in \<open>simp add: enqueue_in_def\<close>)

lemma deliver_one_inv:
  assumes "deliver_one E host i g path S = (S', sent, r)" "\<And>h. queue_inv (files_of h S)"
  shows "queue_inv (files_of h S')"
proof -
  obtain S1 r1 where l: "with_queue_lock E host (\<lambda>files. (files, load_record E path files)) S = (S1, r1)" by fastforce
  have i1: "queue_inv (files_of h S1)" for h using l assms(2) by (rule with_lock_read_inv)
  obtain S2 r2 where m: "with_queue_lock E host (remove_record E path) S1 = (S2, r2)" by fastforce
  have i2: "queue_inv (files_of h S2)" for h using m i1 by (rule with_lock_inv) (simp add: remove_record_inv)
  have "S' = S1 \<or> S' = S2"
    using assms(1) by (auto simp: deliver_one_def l m Let_def split: sum.splits option.splits if_splits)
  then show ?thesis using i1 i2 by blast
qed

lemma deliver_each_inv:
  "deliver_each E host i g paths S = (S', sent, r) \<Longrightarrow> (\<And>h. queue_inv (files_of h S)) \<Longrightarrow> queue_inv (files_of h S')"
proof (induction paths arbitrary: S S' sent r)
  case (Cons path paths)
  obtain S1 sent1 r1 where d: "deliver_one E host i g path S = (S1, sent1, r1)" by (metis prod_cases3)
  have i1: "queue_inv (files_of h S1)" for h using d Cons.prems(2) by (rule deliver_one_inv)
  obtain S2 sent2 r2 where e: "deliver_each E host i g paths S1 = (S2, sent2, r2)" by (metis prod_cases3)
  from Cons.IH [OF e i1] i1 Cons.prems(1) show ?case by (cases r1) (auto simp: d e)
qed simp

lemma deliver_pending_inv:
  assumes "\<And>h. queue_inv (files_of h S)"
  shows "queue_inv (files_of h (snd (fst (deliver_pending_in E host i g (offset, S)))))"
proof -
  obtain S1 r1 where l: "with_queue_lock E host (\<lambda>files. (files, pending_paths E files)) S = (S1, r1)" by fastforce
  have i1: "queue_inv (files_of h S1)" for h using l assms by (rule with_lock_read_inv)
  have "\<And>paths. queue_inv (files_of h (fst (deliver_each E host i g (batch offset paths) S1)))"
    using deliver_each_inv i1 by (metis prod.collapse)
  then show ?thesis using i1
    by (auto simp: deliver_pending_in_def l split: sum.splits list.splits prod.splits) (metis fst_conv)
qed

text \<open>The steps of a host: recording a transition and delivering a batch, in any order, under any
  behaviour of the environment.\<close>

inductive queue_step :: "u64 \<times> queue_store \<Rightarrow> u64 \<times> queue_store \<Rightarrow> bool" where
  lifecycle: "queue_step (offset, S) (offset, fst (record_lifecycle E event host S))"
| stopped_job: "queue_step (offset, S) (offset, fst (record_stopped_job E sid job_id S))"
| delivery: "queue_step (offset, S) (fst (deliver_pending E host instance_id generation (offset, S)))"

lemma record_lifecycle_store: "fst (record_lifecycle E event host S) = S \<or> (\<exists>body. fst (record_lifecycle E event host S) = fst (enqueue_in E host body S))"
  by (auto simp: record_lifecycle_def enqueue_def split: option.splits sum.splits)

lemma record_stopped_job_store:
  "fst (record_stopped_job E sid job_id S) = S \<or> (\<exists>host body. fst (record_stopped_job E sid job_id S) = fst (enqueue_in E host body S))"
  by (auto simp: record_stopped_job_def enqueue_def split: option.splits sum.splits)

lemma queue_step_inv:
  "queue_step st st' \<Longrightarrow> (\<And>h. queue_inv (files_of h (snd st))) \<Longrightarrow> queue_inv (files_of h (snd st'))"
proof (induction rule: queue_step.induct)
  case (lifecycle offset S E event host)
  then show ?case using record_lifecycle_store [of E event host S] by (auto simp: enqueue_inv)
next
  case (stopped_job offset S E sid job_id)
  then show ?case using record_stopped_job_store [of E sid job_id S] by (auto simp: enqueue_inv)
next
  case (delivery offset S E host instance_id generation)
  then show ?case by (cases "operator_store E S") (simp_all add: deliver_pending_def deliver_pending_inv)
qed

lemma queue_run_inv:
  "queue_step\<^sup>*\<^sup>* st st' \<Longrightarrow> (\<And>h. queue_inv (files_of h (snd st))) \<Longrightarrow> queue_inv (files_of h (snd st'))"
proof (induction arbitrary: h rule: rtranclp_induct)
  case (step y z)
  then show ?case by (meson queue_step_inv)
qed

text \<open>C37. Whatever is recorded and delivered, a queue that started without a directory holds at most 256
  records and one more file, all of them private and with distinct names, so the limit on directory
  entries never stops a delivery: listing fails only when the file system does.\<close>

theorem queue_stays_bounded:
  assumes "queue_step\<^sup>*\<^sup>* (offset, \<lparr>qs_parent = parent, qs_root = None, qs_hosts = (\<lambda>_. None)\<rparr>) (offset', S)"
  shows "length (filter is_json_file (map fst (files_of host S))) \<le> 256 \<and> length (files_of host S) \<le> 257
    \<and> distinct (map fst (files_of host S)) \<and> list_all qf_private (map snd (files_of host S))
    \<and> (\<not> qe_fails E ReadDirectory [] \<longrightarrow> is_ok (pending_paths E (open_lock (files_of host S))))"
proof -
  have i: "queue_inv (files_of host S)"
    using queue_run_inv [OF assms] by (simp add: files_of_def)
  then have "is_ok (pending_paths E (open_lock (files_of host S)))" if "\<not> qe_fails E ReadDirectory []"
    using that queue_inv_entries [of "open_lock (files_of host S)"] by (simp add: pending_paths_def)
  then show ?thesis using i queue_inv_entries [OF i] by (auto simp: queue_inv_def MAX_PENDING_def list_all_iff)
qed

section \<open>No record is lost\<close>

lemma open_lock_other [simp]: "q \<noteq> ''.lock'' \<Longrightarrow> map_of (open_lock files) q = map_of files q"
  by (auto simp: open_lock_def map_add_def split: option.splits)

lemma with_lock_read_map:
  assumes "with_queue_lock E host (\<lambda>files. (files, g files)) S = (S', r)" "q \<noteq> ''.lock''"
  shows "map_of (files_of host S') q = map_of (files_of host S) q"
  using assms(1) by (cases rule: with_lock_cases) (use open_lock_other [OF assms(2), of "files_of host S"] in auto)

lemma with_lock_read_result:
  assumes "with_queue_lock E host (\<lambda>files. (files, g files)) S = (S', Inr x)"
  shows "g (open_lock (files_of host S)) = Inr x"
  using assms by (cases rule: with_lock_cases) auto

lemma with_lock_remove_map:
  assumes "with_queue_lock E host (remove_record E path) S = (S', r)" "q \<noteq> ''.lock''"
  shows "map_of (files_of host S') q = map_of (files_of host S) q \<or> q = path \<and> map_of (files_of host S') q = None"
  using assms(1)
proof (cases rule: with_lock_cases)
  case held
  have "map_of (filter (\<lambda>(n, _). n \<noteq> path) files) q = (if q = path then None else map_of files q)" for files :: "(string \<times> queue_file) list"
    by (induction files) auto
  note this [of "open_lock (files_of host S)"]
  with held open_lock_other [OF assms(2), of "files_of host S"] show ?thesis
    by (auto simp: remove_record_def split: if_splits)
qed (use open_lock_other [OF assms(2), of "files_of host S"] in auto)

lemma load_record_cong: "map_of files path = map_of files' path \<Longrightarrow> load_record E path files = load_record E path files'"
  by (simp add: load_record_def)

text \<open>Why the record \<open>f\<close> at \<open>path\<close> may go: it can be read, and its time is over, or it was sent with the
  generation and the instance of the link and the service answered that it accepts it, that it will
  never accept it, or that it conflicts with a session whose scope has changed since.\<close>

definition settled :: "queue_env \<Rightarrow> string \<Rightarrow> string \<Rightarrow> u64 \<Rightarrow> string \<Rightarrow> queue_file \<Rightarrow> (string \<times> json) list \<Rightarrow> bool" where
  "settled E host instance_id generation path f sent \<longleftrightarrow>
     (\<exists>p now. load_record E path [(path, f)] = Inr p \<and> qe_now E path = Some now \<and>
        (12 * 60 * 60 * 1000 \<le> unat now - unat (pn_created_ms p)
         \<or> (\<exists>body response. outgoing instance_id generation (pn_body p) = Inr body
              \<and> (''/v1/hosts/'' @ host @ ''/events/transition'', body) \<in> set sent
              \<and> qe_post E path (''/v1/hosts/'' @ host @ ''/events/transition'', body) = Some response
              \<and> (ak_status response = 400
                 \<or> ak_status response = 409 \<and> obsolete E host body
                 \<or> 200 \<le> ak_status response \<and> ak_status response < 300
                   \<and> (\<exists>bytes v. read_bounded_body response 1024 = Some bytes \<and> qe_value E bytes = Some v
                        \<and> jget v ''accepted'' = Some (JBool True))))))"

lemma settles_answer:
  "settles E host body response \<longleftrightarrow>
     ak_status response = 400 \<or> ak_status response = 409 \<and> obsolete E host body
     \<or> 200 \<le> ak_status response \<and> ak_status response < 300
       \<and> (\<exists>bytes v. read_bounded_body response 1024 = Some bytes \<and> qe_value E bytes = Some v
            \<and> jget v ''accepted'' = Some (JBool True))"
  by (auto simp: settles_def accepted_def is_success_def split: option.splits)

lemma settled_iff:
  "settled E host i g path f sent \<longleftrightarrow>
     (\<exists>p now. load_record E path [(path, f)] = Inr p \<and> qe_now E path = Some now \<and>
        (expired now (pn_created_ms p)
         \<or> (\<exists>body response. outgoing i g (pn_body p) = Inr body \<and> (endpoint host, body) \<in> set sent
              \<and> qe_post E path (endpoint host, body) = Some response \<and> settles E host body response)))"
  by (simp only: settled_def settles_answer endpoint_def expired_def PENDING_LIFETIME_def)

lemma settled_mono: "settled E host i g path f sent \<Longrightarrow> set sent \<subseteq> set sent' \<Longrightarrow> settled E host i g path f sent'"
  unfolding settled_def by blast

lemma deliver_one_keeps:
  assumes "deliver_one E host i g path S = (S', sent, r)" "map_of (files_of host S) q = Some f" "q \<noteq> ''.lock''"
  shows "map_of (files_of host S') q = Some f \<or> map_of (files_of host S') q = None \<and> q = path \<and> settled E host i g path f sent"
proof -
  obtain S1 r1 where l: "with_queue_lock E host (\<lambda>files. (files, load_record E path files)) S = (S1, r1)" by fastforce
  have q1: "map_of (files_of host S1) q = Some f" using with_lock_read_map [OF l assms(3)] assms(2) by simp
  obtain S2 r2 where m: "with_queue_lock E host (remove_record E path) S1 = (S2, r2)" by fastforce
  have q2: "map_of (files_of host S2) q = Some f \<or> q = path \<and> map_of (files_of host S2) q = None"
    using with_lock_remove_map [OF m assms(3)] q1 by simp
  consider "S' = S1" | p now where "S' = S2" "r1 = Inr p" "qe_now E path = Some now" "expired now (pn_created_ms p)"
    | p now body response where "S' = S2" "r1 = Inr p" "qe_now E path = Some now" "outgoing i g (pn_body p) = Inr body"
        "sent = [(endpoint host, body)]" "qe_post E path (endpoint host, body) = Some response" "settles E host body response"
    using assms(1) by (auto simp: deliver_one_def l m Let_def split: sum.splits option.splits if_splits)
  then show ?thesis
  proof cases
    case 1
    then show ?thesis using q1 by simp
  next
    case 2
    have "load_record E path [(path, f)] = Inr p" if "q = path"
      using with_lock_read_result [OF l [unfolded 2(2)]] assms(2,3) that
      by (subst load_record_cong [of _ _ "open_lock (files_of host S)"]) auto
    then have "settled E host i g path f sent" if "q = path"
      using 2 that unfolding settled_iff by blast
    then show ?thesis using q2 2(1) by auto
  next
    case 3
    have "load_record E path [(path, f)] = Inr p" if "q = path"
      using with_lock_read_result [OF l [unfolded 3(2)]] assms(2,3) that
      by (subst load_record_cong [of _ _ "open_lock (files_of host S)"]) auto
    then have "settled E host i g path f sent" if "q = path"
      using 3(3-7) that unfolding settled_iff by auto
    then show ?thesis using q2 3(1) by auto
  qed
qed

lemma deliver_one_absent:
  assumes "deliver_one E host i g path S = (S', sent, r)" "map_of (files_of host S) q = None" "q \<noteq> ''.lock''"
  shows "map_of (files_of host S') q = None"
proof -
  obtain S1 r1 where l: "with_queue_lock E host (\<lambda>files. (files, load_record E path files)) S = (S1, r1)" by fastforce
  have q1: "map_of (files_of host S1) q = None" using with_lock_read_map [OF l assms(3)] assms(2) by simp
  obtain S2 r2 where m: "with_queue_lock E host (remove_record E path) S1 = (S2, r2)" by fastforce
  have q2: "map_of (files_of host S2) q = None" using with_lock_remove_map [OF m assms(3)] q1 by auto
  show ?thesis using assms(1) q1 q2 by (auto simp: deliver_one_def l m Let_def split: sum.splits option.splits if_splits)
qed

lemma deliver_each_absent:
  "deliver_each E host i g paths S = (S', sent, r) \<Longrightarrow> map_of (files_of host S) q = None \<Longrightarrow> q \<noteq> ''.lock''
   \<Longrightarrow> map_of (files_of host S') q = None"
proof (induction paths arbitrary: S S' sent r)
  case (Cons path paths)
  obtain S1 sent1 r1 where d: "deliver_one E host i g path S = (S1, sent1, r1)" by (metis prod_cases3)
  obtain S2 sent2 r2 where e: "deliver_each E host i g paths S1 = (S2, sent2, r2)" by (metis prod_cases3)
  from Cons.IH [OF e] deliver_one_absent [OF d] Cons.prems show ?case by (cases r1) (auto simp: d e)
qed simp

lemma deliver_each_keeps:
  "deliver_each E host i g paths S = (S', sent, r) \<Longrightarrow> map_of (files_of host S) q = Some f \<Longrightarrow> q \<noteq> ''.lock''
   \<Longrightarrow> map_of (files_of host S') q = Some f \<or> map_of (files_of host S') q = None \<and> q \<in> set paths \<and> settled E host i g q f sent"
proof (induction paths arbitrary: S S' sent r)
  case (Cons path paths)
  obtain S1 sent1 r1 where d: "deliver_one E host i g path S = (S1, sent1, r1)" by (metis prod_cases3)
  obtain S2 sent2 r2 where e: "deliver_each E host i g paths S1 = (S2, sent2, r2)" by (metis prod_cases3)
  have "S' = S1 \<and> sent = sent1 \<or> S' = S2 \<and> sent = sent1 @ sent2"
    using Cons.prems(1) by (cases r1) (auto simp: d e)
  moreover have one: "map_of (files_of host S1) q = Some f \<or> map_of (files_of host S1) q = None \<and> q = path \<and> settled E host i g path f sent1"
    using d Cons.prems(2,3) by (rule deliver_one_keeps)
  moreover have "map_of (files_of host S1) q = Some f \<Longrightarrow>
      map_of (files_of host S2) q = Some f \<or> map_of (files_of host S2) q = None \<and> q \<in> set paths \<and> settled E host i g q f sent2"
    using Cons.IH [OF e _ Cons.prems(3)] .
  moreover have "map_of (files_of host S1) q = None \<Longrightarrow> map_of (files_of host S2) q = None"
    using deliver_each_absent [OF e _ Cons.prems(3)] .
  ultimately show ?case
    using settled_mono [of E host i g q f sent1 "sent1 @ sent2"] settled_mono [of E host i g q f sent2 "sent1 @ sent2"] by fastforce
qed simp

text \<open>C34. A pending record stays in the queue, byte for byte, until it is settled: a delivery removes it
  only when it has expired or when it was sent and the service accepted it, refused it for good, or
  reported a conflict with a session whose scope has changed. Nothing else in the queue changes.\<close>

theorem delivery_loses_nothing:
  assumes "deliver_pending_in E host instance_id generation (offset, S) = ((offset', S'), sent, r)"
    and "map_of (files_of host S) path = Some f" "is_json_file path"
  shows "map_of (files_of host S') path = Some f
    \<or> map_of (files_of host S') path = None \<and> settled E host instance_id generation path f sent"
proof -
  have p: "path \<noteq> ''.lock''" using assms(3) lock_not_json by metis
  obtain S1 r1 where l: "with_queue_lock E host (\<lambda>files. (files, pending_paths E files)) S = (S1, r1)" by fastforce
  have q1: "map_of (files_of host S1) path = Some f" using with_lock_read_map [OF l p] assms(2) by simp
  show ?thesis
  proof (cases "\<exists>x xs. r1 = Inr (x # xs)")
    case True
    then obtain x xs where r1: "r1 = Inr (x # xs)" by blast
    obtain S2 sent2 r2 where e: "deliver_each E host instance_id generation (batch offset (x # xs)) S1 = (S2, sent2, r2)"
      by (metis prod_cases3)
    have "S' = S2" "sent = sent2" using assms(1) by (auto simp: deliver_pending_in_def l r1 e)
    then show ?thesis using deliver_each_keeps [OF e q1 p] by auto
  next
    case False
    then have "S' = S1" using assms(1) by (auto simp: deliver_pending_in_def l split: sum.splits list.splits)
    then show ?thesis using q1 by blast
  qed
qed

section \<open>An example\<close>

definition sample_queue_env :: queue_env where
  "sample_queue_env = \<lparr>qe_state_dir = True, qe_fails = (\<lambda>_ _. False), qe_created_mode = 448, qe_written = 0, qe_now = (\<lambda>_. Some 7),
     qe_new_uuid = ''u'', qe_to_vec = (\<lambda>_. ''r''),
     qe_document = (\<lambda>s. if s = ''r'' then Some (pending_value \<lparr>pn_created_ms = 7, pn_body = JObject []\<rparr>) else None),
     qe_value = (\<lambda>_. None), qe_gmtime = (\<lambda>_. None), qe_view = (\<lambda>_. None),
     qe_post = (\<lambda>_ _. Some \<lparr>ak_status = 400, ak_length = None, ak_chunks = []\<rparr>)\<rparr>"

definition sample_private :: dir_meta where
  "sample_private = \<lparr>dm_directory = True, dm_owned = True, dm_mode = 448\<rparr>"

definition sample_queue :: "(string \<times> queue_file) list \<Rightarrow> queue_store" where
  "sample_queue files = \<lparr>qs_parent = Some sample_private, qs_root = Some sample_private,
     qs_hosts = (\<lambda>h. if h = ''h'' then Some \<lparr>hq_meta = sample_private, hq_files = files\<rparr> else None)\<rparr>"

definition sample_record_file :: queue_file where
  "sample_record_file = \<lparr>qf_private = True, qf_bytes = ''r''\<rparr>"

lemma sample_private_ok: "check_private_dir sample_queue_env p (Some sample_private) = Inr ()"
  by (simp add: check_private_dir_def sample_private_def sample_queue_env_def)

lemma sample_host_dir: "host_dir sample_queue_env ''h'' (sample_queue files) = (sample_queue files, Inr ())"
proof -
  have m: "sample_private\<lparr>dm_mode := 448\<rparr> = sample_private" "dm_directory sample_private" "dm_owned sample_private"
    by (simp_all add: sample_private_def)
  have e: "ensure_private_dir sample_queue_env p (Some sample_private) = (Some sample_private, Inr ())" for p
    using m sample_private_ok by (simp add: ensure_private_dir_def Let_def) (simp add: sample_queue_env_def)
  have v: "host_identity_validate ''h'' = Inr ''h''"
    by (simp add: host_identity_validate_def MAX_HOST_ID_BYTES_def alnum_byte_def)
  show ?thesis
    by (simp add: host_dir_def v sample_queue_def sample_private_ok e put_host_meta_def Let_def fun_eq_iff)
qed

lemma sample_lock:
  "with_queue_lock sample_queue_env ''h'' operation (sample_queue ((''.lock'', sample_record_file) # files)) =
     (case operation ((''.lock'', sample_record_file) # files) of (files', r) \<Rightarrow> (sample_queue files', r))"
proof -
  have f: "files_of ''h'' (sample_queue files) = files" "put_files ''h'' files' (sample_queue files) = sample_queue files'" for files files'
    by (simp_all add: files_of_def sample_queue_def put_files_def fun_eq_iff)
  have o: "open_lock ((''.lock'', sample_record_file) # files) = (''.lock'', sample_record_file) # files"
    by (simp add: open_lock_def)
  show ?thesis
    by (simp add: with_queue_lock_def sample_host_dir f o check_private_file_def Let_def split: prod.split)
      (simp add: sample_record_file_def sample_queue_env_def f)
qed

lemma sample_deliver_one:
  "deliver_one sample_queue_env ''h'' ''i'' 1 ''a.json'' (sample_queue [(''.lock'', sample_record_file), (''a.json'', sample_record_file)]) =
     (sample_queue [(''.lock'', sample_record_file)], [(endpoint ''h'', JObject [(''generation'', juint 1), (''host_instance_id'', JString ''i'')])], Inr ())"
proof -
  have l: "load_record sample_queue_env ''a.json'' [(''.lock'', sample_record_file), (''a.json'', sample_record_file)] =
      Inr \<lparr>pn_created_ms = 7, pn_body = JObject []\<rparr>"
    by (simp add: load_record_def sample_queue_env_def sample_record_file_def check_private_file_def MAX_RECORD_BYTES_def
      pending_value_def pending_of_def Let_def)
  have o: "outgoing ''i'' 1 (JObject []) = Inr (JObject [(''generation'', juint 1), (''host_instance_id'', JString ''i'')])"
    by (simp add: outgoing_def set_key_def)
  have s: "settles sample_queue_env ''h'' b \<lparr>ak_status = 400, ak_length = None, ak_chunks = []\<rparr>" for b
    by (simp add: settles_def accepted_def is_success_def)
  have env: "qe_now sample_queue_env p = Some 7" "qe_post sample_queue_env p q = Some \<lparr>ak_status = 400, ak_length = None, ak_chunks = []\<rparr>"
    "\<not> qe_fails sample_queue_env k p" for p q k
    by (simp_all add: sample_queue_env_def)
  show ?thesis
    by (simp add: deliver_one_def sample_lock l o s env expired_def PENDING_LIFETIME_def Let_def remove_record_def)
qed

lemma sample_delivery:
  "deliver_pending_in sample_queue_env ''h'' ''i'' 1 (0, sample_queue [(''.lock'', sample_record_file), (''a.json'', sample_record_file)]) =
     ((2, sample_queue [(''.lock'', sample_record_file)]), [(endpoint ''h'', JObject [(''generation'', juint 1), (''host_instance_id'', JString ''i'')])], Inr ())"
proof -
  have p: "pending_paths sample_queue_env [(''.lock'', sample_record_file), (''a.json'', sample_record_file)] = Inr [''a.json'']"
    by (simp add: pending_paths_def sample_queue_env_def MAX_PENDING_def is_json_file_def suffix_def)
  have b: "batch 0 [''a.json''] = [''a.json'']" by (simp add: batch_def MAX_DELIVERY_BATCH_def)
  show ?thesis
    by (simp add: deliver_pending_in_def sample_lock p b sample_deliver_one MAX_DELIVERY_BATCH_def)
qed

theorem delivery_loses_nothing_witness:
  "map_of (files_of ''h'' (sample_queue [(''.lock'', sample_record_file)])) ''a.json'' = None \<and>
   settled sample_queue_env ''h'' ''i'' 1 ''a.json'' sample_record_file
     [(endpoint ''h'', JObject [(''generation'', juint 1), (''host_instance_id'', JString ''i'')])]"
proof -
  have j: "is_json_file ''a.json''" by (simp add: is_json_file_def suffix_def Cons_eq_append_conv)
  from delivery_loses_nothing [OF sample_delivery _ j, of sample_record_file]
  show ?thesis by (simp add: files_of_def sample_queue_def)
qed

theorem queue_stays_bounded_witness:
  "length (files_of ''h'' (fst (record_stopped_job sample_queue_env ''s'' ''j'' \<lparr>qs_parent = None, qs_root = None, qs_hosts = (\<lambda>_. None)\<rparr>))) \<le> 257"
  using queue_stays_bounded [OF r_into_rtranclp [of queue_step, OF queue_step.stopped_job]] by blast

section \<open>A torn record\<close>

fun deliver_rounds ::
  "string \<Rightarrow> string \<Rightarrow> u64 \<Rightarrow> queue_env list \<Rightarrow> u64 \<times> queue_store \<Rightarrow> (u64 \<times> queue_store) \<times> (string \<times> json) list" where
  "deliver_rounds host instance_id generation [] st = (st, [])"
| "deliver_rounds host instance_id generation (E # Es) st =
     (case deliver_pending E host instance_id generation st of
        (st', sent, _) \<Rightarrow>
          (case deliver_rounds host instance_id generation Es st' of (st'', sent') \<Rightarrow> (st'', sent @ sent')))"

lemma open_lock_names: "filter is_json_file (map fst (open_lock files)) = filter is_json_file (map fst files)"
  by (simp add: open_lock_def split: option.splits)

definition stuck :: "string \<Rightarrow> string \<Rightarrow> string \<Rightarrow> queue_file \<Rightarrow> u64 \<times> queue_store \<Rightarrow> bool" where
  "stuck host a b f st \<longleftrightarrow> even (unat (fst st)) \<and> sort (filter is_json_file (map fst (files_of host (snd st)))) = [a, b]
     \<and> map_of (files_of host (snd st)) a = Some f"

lemma stuck_json: "stuck host a b f st \<Longrightarrow> a \<noteq> ''.lock''"
proof -
  assume "stuck host a b f st"
  then have "set (sort (filter is_json_file (map fst (files_of host (snd st))))) = {a, b}" by (simp add: stuck_def)
  then have "is_json_file a" by (auto simp: set_eq_iff)
  then show ?thesis using lock_not_json by metis
qed

lemma stuck_files:
  assumes "stuck host a b f (offset, S)" "files_of host S' = files_of host S \<or> files_of host S' = open_lock (files_of host S)"
  shows "stuck host a b f (offset, S')"
  using assms(2) stuck_json [OF assms(1)] assms(1) by (auto simp: stuck_def open_lock_names)

lemma with_lock_read_files:
  assumes "with_queue_lock E host (\<lambda>files. (files, g files)) S = (S', r)"
  shows "files_of host S' = files_of host S \<or> files_of host S' = open_lock (files_of host S)"
  using assms by (cases rule: with_lock_cases) auto

lemma stuck_next: "stuck host a b f (offset, S) \<Longrightarrow> stuck host a b f (offset + 2, S)"
proof -
  assume "stuck host a b f (offset, S)"
  moreover have "even (unat (offset + 2)) \<longleftrightarrow> even (unat offset)"
    by (simp add: unat_word_ariths dvd_mod_iff)
  ultimately show ?thesis by (simp add: stuck_def)
qed

lemma stuck_batch:
  assumes "even (unat offset)"
  shows "batch offset [a, b] = [a, b]"
proof -
  have "unat offset mod Suc (Suc 0) = 0" using assms by presburger
  then show ?thesis by (simp add: batch_def MAX_DELIVERY_BATCH_def)
qed

lemma stuck_one:
  assumes "stuck host a b f (offset, S)" "\<not> is_ok (load_record E a [(a, f)])"
  obtains S' e where "deliver_one E host i g a S = (S', [], Inl e)" "stuck host a b f (offset, S')"
proof -
  obtain S1 r1 where l: "with_queue_lock E host (\<lambda>files. (files, load_record E a files)) S = (S1, r1)" by fastforce
  have "load_record E a (open_lock (files_of host S)) = load_record E a [(a, f)]"
    using assms(1) stuck_json [OF assms(1)] by (intro load_record_cong) (simp add: stuck_def)
  moreover have "load_record E a (open_lock (files_of host S)) = Inr p" if "r1 = Inr p" for p
    by (rule with_lock_read_result [OF l [unfolded that]])
  ultimately obtain e where "r1 = Inl e" using assms(2) unfolding is_ok_iff by (metis sum.exhaust)
  then have "deliver_one E host i g a S = (S1, [], Inl e)" by (simp add: deliver_one_def l)
  then show thesis using that stuck_files [OF assms(1) with_lock_read_files [OF l]] by blast
qed

lemma stuck_round:
  assumes "stuck host a b f (offset, S)" "\<not> is_ok (load_record E a [(a, f)])"
  obtains st' r where "deliver_pending E host i g (offset, S) = (st', [], r)" "stuck host a b f st'"
proof (cases "operator_store E S")
  case (Inl e)
  then show thesis using that [of "(offset, S)"] assms(1) by (simp add: deliver_pending_def)
next
  case ready: (Inr u)
  obtain S1 r1 where l: "with_queue_lock E host (\<lambda>files. (files, pending_paths E files)) S = (S1, r1)" by fastforce
  have s1: "stuck host a b f (offset, S1)" using stuck_files [OF assms(1) with_lock_read_files [OF l]] .
  show thesis
  proof (cases r1)
    case (Inl e)
    then show thesis using that s1 by (simp add: deliver_pending_def ready deliver_pending_in_def l)
  next
    case (Inr paths)
    then have "pending_paths E (open_lock (files_of host S)) = Inr paths"
      by (intro with_lock_read_result [OF l [unfolded Inr]])
    then have paths: "paths = [a, b]"
      using assms(1) by (auto simp: pending_paths_def open_lock_names stuck_def)
    obtain S2 e where d: "deliver_one E host i g a S1 = (S2, [], Inl e)" and s2: "stuck host a b f (offset, S2)"
      using s1 assms(2) by (rule stuck_one)
    have "even (unat offset)" using assms(1) by (simp add: stuck_def)
    then have "deliver_pending E host i g (offset, S) = ((offset + 2, S2), [], Inl e)"
      by (simp add: deliver_pending_def ready deliver_pending_in_def l Inr paths stuck_batch d MAX_DELIVERY_BATCH_def)
    then show thesis using that stuck_next [OF s2] by blast
  qed
qed

text \<open>C40. A record that cannot be read starves the record behind it. While the pending records are one
  that cannot be read, such as one torn by a failed write, and a readable one behind it, and the offset
  is even, as it is from the start of the process on, no delivery ever sends the second record, whatever
  the service would answer: every batch starts at the torn record and ends there.\<close>

theorem torn_record_starves_next:
  assumes "even (unat offset)" "sort (filter is_json_file (map fst (files_of host S))) = [a, b]"
    and "map_of (files_of host S) a = Some f" "\<forall>E \<in> set Es. \<not> is_ok (load_record E a [(a, f)])"
  shows "snd (deliver_rounds host instance_id generation Es (offset, S)) = []"
proof -
  have "stuck host a b f st \<Longrightarrow> snd (deliver_rounds host instance_id generation Es st) = []" for st
    using assms(4)
  proof (induction Es arbitrary: st)
    case (Cons E Es)
    obtain offset S where st: "st = (offset, S)" by fastforce
    have E: "\<not> is_ok (load_record E a [(a, f)])" using Cons.prems(2) by simp
    obtain st' r where d: "deliver_pending E host instance_id generation (offset, S) = (st', [], r)" and s: "stuck host a b f st'"
      using Cons.prems(1) E unfolding st by (rule stuck_round)
    have "snd (deliver_rounds host instance_id generation Es st') = []" using Cons.IH s Cons.prems(2) by simp
    then show ?case by (simp add: st d split: prod.split)
  qed simp
  then show ?thesis using assms(1-3) by (simp add: stuck_def)
qed

text \<open>A write that fails leaves such a record: here nothing was written.\<close>

lemma failed_write_tears:
  "store_record (sample_queue_env\<lparr>qe_fails := (\<lambda>point _. point = WriteFile)\<rparr>) ''a.json'' ''r'' [] =
     ([(''a.json'', \<lparr>qf_private = True, qf_bytes = []\<rparr>)], Inl (Error NotFound))"
  by (simp add: store_record_def pending_paths_def sample_queue_env_def MAX_PENDING_def)

theorem torn_record_starves_next_witness:
  "snd (deliver_rounds ''h'' ''i'' 1 [sample_queue_env, sample_queue_env]
     (0, sample_queue [(''a.json'', \<lparr>qf_private = True, qf_bytes = []\<rparr>), (''b.json'', sample_record_file)])) = []
   \<and> is_ok (load_record sample_queue_env ''b.json'' [(''b.json'', sample_record_file)])"
proof
  let ?files = "[(''a.json'', \<lparr>qf_private = True, qf_bytes = []\<rparr>), (''b.json'', sample_record_file)]"
  have f: "files_of ''h'' (sample_queue ?files) = ?files" by (simp add: files_of_def sample_queue_def)
  have j: "is_json_file ''a.json''" "is_json_file ''b.json''" by (simp_all add: is_json_file_def suffix_def Cons_eq_append_conv)
  have p: "sort (filter is_json_file (map fst (files_of ''h'' (sample_queue ?files)))) = [''a.json'', ''b.json'']"
    by (simp add: f j less_eq_list_code less_char_def)
  have t: "\<not> is_ok (load_record sample_queue_env ''a.json'' [(''a.json'', \<lparr>qf_private = True, qf_bytes = []\<rparr>)])"
    by (simp add: load_record_def sample_queue_env_def check_private_file_def MAX_RECORD_BYTES_def Let_def)
  then have u: "\<forall>E \<in> set [sample_queue_env, sample_queue_env].
      \<not> is_ok (load_record E ''a.json'' [(''a.json'', \<lparr>qf_private = True, qf_bytes = []\<rparr>)])" by (simp only: list.set ball_simps simp_thms)
  show "snd (deliver_rounds ''h'' ''i'' 1 [sample_queue_env, sample_queue_env] (0, sample_queue ?files)) = []"
    by (rule torn_record_starves_next [OF _ p _ u]) (simp_all add: f)
  show "is_ok (load_record sample_queue_env ''b.json'' [(''b.json'', sample_record_file)])"
    by (simp add: load_record_def sample_queue_env_def sample_record_file_def check_private_file_def MAX_RECORD_BYTES_def
      pending_value_def pending_of_def Let_def)
qed

end
