(* ===== verification/Spec2Isabelle.thy ===== *)
theory Spec2Isabelle
  imports Activity_Codec Activity_Scope Activity_Broker Delivery_Start Upgrade_Activity Session_Grants
    Pending_Interaction Observation_Replicator Events_Sender Events_Queue
begin

text \<open>
  Verification of the coordination core of temote-mcp, the host that lets coding agents work on a
  machine under a person's control. The Rust sources are under \<^verbatim>\<open>src/src\<close>.

  \<^bold>\<open>The program.\<close> Frontends (MCP, the command line, the local control plane) turn a request into an
  operation on a coding-agent backend. \<^verbatim>\<open>orchestration.rs\<close> parses it, checks admission, asks for
  approval, dispatches it and records what happened. Every operation reports its progress through an
  activity scope to the activity broker, which numbers the events, retains the newest ones and feeds
  subscribers. Work is organised in Changes: \<^verbatim>\<open>change.rs\<close> keeps one versioned record per Change in a
  directory, and \<^verbatim>\<open>delivery.rs\<close> plans and tracks the delivery of verified Changes as pull requests. A
  delivery is started by \<^verbatim>\<open>change_delivery_start\<close>, where store, receipts and task boundary meet. Each
  session has metadata with a permission mode, permitted directories and grants (\<^verbatim>\<open>config.rs\<close>), changed
  by the commands of its runtime (\<^verbatim>\<open>approvals.rs\<close>). The installed program replaces itself by an upgrade
  transaction (\<^verbatim>\<open>upgrade_transaction.rs\<close>): a parent admits it, a detached child owns it, and a
  coordinator drives it through its phases (\<^verbatim>\<open>upgrade_coordinator.rs\<close>). What was asked and what came
  of it is kept in a journal per session (\<^verbatim>\<open>observation.rs\<close>), which an agent replicates to the hosted
  service (\<^verbatim>\<open>observation/replicator.rs\<close>). State transitions of sessions and jobs are queued on the host
  and handed to the service (\<^verbatim>\<open>events_host.rs\<close>); a separate sender posts them to subscribers as signed
  webhooks (\<^verbatim>\<open>events_sender.rs\<close>).

  \<^bold>\<open>Theories.\<close>
  \<^item> \<open>Prelude\<close>, \<open>Json\<close>: results, checked machine integers, UTF-8 strings, sorted lists, JSON values; the
    locales \<open>wire_enum\<close> (an enum with a wire spelling) and \<open>field_visitor\<close>, \<open>visitor_slot\<close> (a strict
    deserializer), which the contract theories interpret.
  \<^item> \<open>Activity_Operation\<close>, \<open>Activity_Contract\<close>, \<open>Activity_Codec\<close> (\<^verbatim>\<open>activity/contract.rs\<close>): the
    vocabulary, validation and wire format of activity events. The codec is a strict round trip.
  \<^item> \<open>Activity_Scope\<close> (\<^verbatim>\<open>activity/scope.rs\<close>): the lifecycle of one operation. The emitted updates
    follow the transition table, a terminal scope is frozen, durations are exact.
  \<^item> \<open>Activity_History\<close> (\<^verbatim>\<open>activity/history.rs\<close>): bounded retention; its contract is the locale
    \<open>retention\<close>. Eviction is minimal and the tail is the newest events; what is retained is determined by the
    published log.
  \<^item> \<open>Activity_Broker\<close> (\<^verbatim>\<open>activity/broker.rs\<close>): numbering, publication, snapshot and live delivery;
    reachable brokers are an inductive relation. Numbers are contiguous, valid updates are
    accepted, a subscription replays exactly the newest matching retained events and then delivers
    exactly the matching live ones, with exact gaps.
  \<^item> \<open>Change_Record\<close>, \<open>Change_Format\<close>, \<open>Change_Store\<close> (\<^verbatim>\<open>change.rs\<close>): the records and every operation of
    the store; \<open>versioned_store\<close> is the compare-and-swap contract, \<open>change_inv\<close> the invariant of a
    record and \<open>advances\<close> how a record may move. \<open>Change_Format\<close> is a concrete text format that
    meets the laws asked of serde, used by the witnesses. No lost update, exclusive writer, fresh
    verification, idempotent creation.
  \<^item> \<open>Delivery_Plan\<close>, \<open>Delivery\<close> (\<^verbatim>\<open>delivery.rs\<close>): planning as the loops of the source and the receipt
    operations. Parents first, planning succeeds exactly on acyclic deliverable sets, a delivery is
    claimed once, only verified work is accepted, reconciliation is exact.
  \<^item> \<open>Task_Requests\<close> (\<^verbatim>\<open>orchestration/requests.rs\<close>): the typed request boundary. The accepted requests
    are exactly the well-formed ones, and unsupported actions are told apart from bad payloads.
  \<^item> \<open>Approval_Policy\<close> (\<^verbatim>\<open>approvals.rs\<close>): the permission-mode policy and the captured environment.
    A child sees exactly the captured values, restart contexts are exact.
  \<^item> \<open>Task_Approval\<close>, \<open>Task_List\<close> (\<^verbatim>\<open>orchestration.rs\<close>): approval texts and metadata, and the merged
    task list; \<open>bounded_text\<close> is the contract of the two truncating renderers. Approvals cannot be
    forged, describe the operation and leave out task text; the merged list is the newest of all
    stores.
  \<^item> \<open>Task_Wait\<close> (\<^verbatim>\<open>orchestration/wait.rs\<close>): the bounded wait as a total function over every timing:
    what it returns and how often it probes.
  \<^item> \<open>Task_Invoke\<close> (\<^verbatim>\<open>orchestration.rs\<close>): \<^verbatim>\<open>invoke\<close> as a run with its effects in order. Nothing is
    dispatched without its gates, at most once, and never after a denial.
  \<^item> \<open>Delivery_Start\<close> (\<^verbatim>\<open>orchestration.rs\<close>): the start of a delivery across store, receipts and tasks:
    at most once and only while admitted.
  \<^item> \<open>Upgrade_Transaction\<close>, \<open>Upgrade_Store\<close> (\<^verbatim>\<open>upgrade_transaction.rs\<close>): states, record, validation, the
    directory of records with its locks, the repair scan; a concrete record format for the witnesses.
    Written records read back, loading fails closed.
  \<^item> \<open>Upgrade_Coordinator\<close> (\<^verbatim>\<open>upgrade_transaction.rs\<close>): the commit barrier and the coordinator, every
    effect logged; \<open>upgrade_step\<close> and \<open>upgrade_trace\<close> are the contract it refines. A crash at any point
    leaves a readable record in the contract's state; phases run in order, each recorded before the
    next; a decided run returns with a terminal record, or with the error of a write that the validation
    of the record, its size limit or the disk refused.
  \<^item> \<open>Upgrade_Apply\<close> (\<^verbatim>\<open>upgrade_coordinator.rs\<close>): admission, the parent's \<^verbatim>\<open>prepare_apply\<close> and the
    child's \<^verbatim>\<open>run_child\<close>. One transaction owns the runtime, and phases run only with the parent's
    commit and only in the approved program.
  \<^item> \<open>Upgrade_Activity\<close> (\<^verbatim>\<open>upgrade_coordinator.rs\<close>): the phases of the concrete executor and the activity
    updates, joined to the activity contract: an upgrade reports one well-formed lifecycle.
  \<^item> \<open>Session_Grants\<close> (\<^verbatim>\<open>config.rs\<close>, \<^verbatim>\<open>approvals.rs\<close>): session metadata, grants and the runtime commands.
    A saved session passes the content checks of a load and loads again exactly when its text has at
    most 64 KiB, grants are applied exactly, and a refused grant is nevertheless kept.
  \<^item> \<open>Pending_Interaction\<close> (\<^verbatim>\<open>pending_interaction.rs\<close>): the bounded summary of pending interactions. Its
    revision identifies its content, and a reader is never told none without a fresh observation.
  \<^item> \<open>Observation_Record\<close>, \<open>Observation_Journal\<close> (\<^verbatim>\<open>observation.rs\<close>, \<^verbatim>\<open>observation/store.rs\<close>): what is
    recorded of a task operation, and the journal as the text of a file with its dedupe cache,
    compaction and sidecar; \<open>journal_run\<close> are its runs. Records are sanitised and bounded, the journal
    refines an append-only log, an untorn append is recorded exactly once, and a torn line swallows
    the record behind it.
  \<^item> \<open>Observation_Replicator\<close> (\<^verbatim>\<open>observation/replicator.rs\<close>): the batches, the cursor, the scan over the
    sessions and the retry state; \<open>source_run\<close> interleaves the journal, the agent and a service that
    keeps \<open>service_keeps\<close>, the contract of \<^verbatim>\<open>docs/gateway.md\<close>. No record is skipped, a batch is the longest bounded run of
    the records retained behind the cursor, every session has its turn, and labels and text stay on the host.
  \<^item> \<open>Events_Checks\<close>, \<open>Events_Sender\<close> (\<^verbatim>\<open>events_sender.rs\<close>): the checks on addresses, URLs, identifiers and
    timestamps against reference definitions, and the handler with its effects on the network. The
    addresses are compared with the special-purpose networks that the repository's other address filters
    name: none of them is posted to, and the ordinary addresses that are refused are named exactly. Only an
    authenticated caller causes a webhook, it goes only to public addresses, its signature binds its id,
    time and body, exactly the valid transitions are forwarded, and verification means the echoed challenge.
  \<^item> \<open>Events_Queue\<close> (\<^verbatim>\<open>events_host.rs\<close>): the queue of transitions as private directories and files;
    \<open>queue_step\<close> are its steps under any environment. The queue is bounded, no record is lost before it
    is settled, and a record that cannot be read can starve the one behind it.
  \<^item> This theory: the invariants of the Change store under any interleaving of store and delivery
    operations.

  \<^bold>\<open>Conventions.\<close> A fallible function returns a sum, \<open>Inl\<close> being the error; errors that are told apart
  are datatypes, \<^verbatim>\<open>anyhow\<close> errors their message. A \<^verbatim>\<open>u64\<close> is a 64-bit word and checked additions are
  written out; lengths are natural numbers. A \<^verbatim>\<open>str\<close> is the list of its bytes. A critical section
  under a lock is one step; where a lock outlives a step it is part of the state. The operations of
  \<open>Delivery\<close> take the store's lock several times: they are given the store each of their sections sees
  (a \<open>timeline\<close>), and in \<open>system_run\<close> anything may run between two of them. Written records of an
  upgrade are durable against the death of a process, not of the machine, because the directory is never
  synced. Loops are total
  functions with termination proofs; there is no fuel. A wait that never ends (a transport that
  neither decides nor disappears) is the result \<open>None\<close>.
  Third-party behaviour is an argument: serde text encoding, UUID parsing and printing, SHA-256
  fingerprints, tokio channels and timers, each with the documented laws as named hypotheses. What
  stands outside a theory's sources (coding-agent backends, the approval console, checks on bound
  Changes, the file system's answer to a write, the platform calls of an upgrade phase, name resolution
  and the HTTP client) enters as the answers it gives, for instance in \<open>surroundings\<close>,
  \<open>delivery_surroundings\<close>, \<open>apply_host\<close>, \<open>upgrade_platform\<close>, \<open>sender_env\<close> and \<open>queue_env\<close>.

  \<^bold>\<open>Not modelled.\<close> The clients of the agent servers, the MCP and HTTP servers, process supervision,
  sandboxing and git are driven by child processes, sockets and operating-system calls, of which only
  the calls appear in the sources. Authentication rests on third-party cryptography. Rendering of
  events, the command line and diagnostics are text and file handling around the parts above.
  Friction records and task outcomes have logic of their own and are open extensions.
\<close>

section \<open>The store under every operation\<close>

text \<open>The system as far as it touches the Change store: operations of the store itself
  (\<^verbatim>\<open>src/src/change.rs\<close>) and of the delivery layer above it (\<^verbatim>\<open>src/src/delivery.rs\<close>), by any
  caller, in any order. A run is the history of the stores it went through. An operation of the store is
  one critical section on the newest store. An operation of the delivery layer takes the lock several
  times: its sections saw stores \<open>hist ! at k\<close> of the history, in order, the last one the newest store,
  and anything else may have run in between, other delivery operations at any of their sections included.
  Failed operations change nothing and are not listed.\<close>

inductive system_run :: "(delivery_step list \<Rightarrow> string) \<Rightarrow> (string \<Rightarrow> bool) \<Rightarrow> change_serde \<Rightarrow>
  change_store \<Rightarrow> change_store list \<Rightarrow> bool"
  for fingerprint uuid_ok S st where
  start: "system_run fingerprint uuid_ok S st [st]"
| by_change: "system_run fingerprint uuid_ok S st hist \<Longrightarrow> change_step S (last hist) st' \<Longrightarrow>
    system_run fingerprint uuid_ok S st (hist @ [st'])"
| by_delivery: "system_run fingerprint uuid_ok S st hist \<Longrightarrow> mono at \<Longrightarrow> (\<And>k. at k < length hist) \<Longrightarrow>
    Suc (at n) = length hist \<Longrightarrow> delivery_op fingerprint uuid_ok S (\<lambda>k. hist ! at k) n st' \<Longrightarrow>
    system_run fingerprint uuid_ok S st (hist @ [st'])"

definition history_ok :: "change_serde \<Rightarrow> change_store list \<Rightarrow> bool" where
  "history_ok S hist \<longleftrightarrow> hist \<noteq> [] \<and> list_all (store_inv S) hist \<and> sorted_wrt (store_evolves S) hist"

lemma history_ok_inv: "history_ok S hist \<Longrightarrow> k < length hist \<Longrightarrow> store_inv S (hist ! k)"
  by (simp add: history_ok_def list_all_length)

lemma history_ok_evolves:
  "history_ok S hist \<Longrightarrow> j \<le> k \<Longrightarrow> k < length hist \<Longrightarrow> store_evolves S (hist ! j) (hist ! k)"
  by (cases "j = k") (simp_all add: history_ok_def sorted_wrt_nth_less store_evolves_refl)

lemma history_ok_extend:
  assumes ok: "history_ok S hist" and new: "store_inv S st'" "store_evolves S (last hist) st'"
  shows "history_ok S (hist @ [st'])"
proof -
  have "store_evolves S x st'" if "x \<in> set hist" for x
  proof -
    from that obtain j where j: "j < length hist" "x = hist ! j" by (auto simp: in_set_conv_nth)
    with history_ok_evolves [OF ok, of j "length hist - 1"] ok have "store_evolves S x (last hist)"
      by (simp add: history_ok_def last_conv_nth)
    from store_evolves_trans [OF this new(2)] show ?thesis .
  qed
  with ok new(1) show ?thesis by (simp add: history_ok_def sorted_wrt_append)
qed

lemma system_run_history:
  assumes "system_run fingerprint uuid_ok S st hist" and "store_inv S st"
  shows "history_ok S hist"
  using assms
proof (induction rule: system_run.induct)
  case start
  then show ?case by (simp add: history_ok_def)
next
  case (by_change hist st')
  then have ok: "history_ok S hist" by simp
  then have "store_inv S (last hist)" by (simp add: history_ok_def list_all_iff)
  with change_step_preserves [OF by_change(2)] change_step_versioned [OF by_change(2)] show ?case
    by (intro history_ok_extend [OF ok]) (simp_all add: store_evolves_def)
next
  case (by_delivery hist at n st')
  then have ok: "history_ok S hist" by simp
  have "timeline S (\<lambda>k. hist ! at k)"
    using history_ok_inv [OF ok] history_ok_evolves [OF ok] by_delivery(2,3) by (simp add: timeline_def mono_def)
  moreover have "hist ! at n = last hist"
    using ok by (simp add: history_ok_def last_conv_nth flip: by_delivery(4))
  ultimately show ?case
    using delivery_op_preserves [OF by_delivery(5)] by (intro history_ok_extend [OF ok]) simp_all
qed

text \<open>C11. However the operations of the store and of the delivery layer interleave, starting from an
  empty directory, every stored record stays readable and consistent: executions are at most
  128 with strictly increasing generations, a writer lease belongs to a recorded execution and
  carries the current generation, a verification is never from another task revision or from the
  future, a completed delivery has its branch and pull request. No two Changes ever share a
  workspace or a task.\<close>

theorem system_store_invariant:
  assumes "change_serde_ok S" and "system_run fingerprint uuid_ok S \<lparr>cs_scope = sc, cs_files = []\<rparr> hist"
    and "st \<in> set hist"
  shows "(\<forall>i \<in> fst ` set (cs_files st). \<exists>r. holds_record S st i r \<and> change_inv r) \<and>
    (\<forall>i j r q w. holds_record S st i r \<and> holds_record S st j q \<and>
       cr_workspace_id r = Some w \<and> cr_workspace_id q = Some w \<longrightarrow> i = j) \<and>
    (\<forall>i j r q. holds_record S st i r \<and> holds_record S st j q \<and> cr_task_id r = cr_task_id q \<longrightarrow> i = j)"
proof -
  from system_run_history [OF assms(2) store_inv_empty [OF assms(1)]] assms(3) have "store_inv S st"
    by (simp add: history_ok_def list_all_iff)
  then show ?thesis unfolding store_inv_def by (elim conjE) (intro conjI)
qed

text \<open>C12. Writer leases are fencing tokens. If a Change has a lease now and had one earlier, then it
  is the same lease or its generation is strictly larger, so no lease is ever issued twice. This holds
  between any two moments \<open>j \<le> k\<close> of a run, whatever operations are under way at either. Along
  the way the identity of the Change, its workspace and its recorded executions persist, and its
  revision and task revision never go back.\<close>

theorem system_leases_fence:
  assumes "store_inv S st" and "system_run fingerprint uuid_ok S st hist"
    and "j \<le> k" "k < length hist" and "holds_record S (hist ! j) i r"
  shows "\<exists>r'. holds_record S (hist ! k) i r' \<and> same_identity r r' \<and> cr_revision r \<le> cr_revision r' \<and>
    cr_task_record_revision r \<le> cr_task_record_revision r' \<and>
    (\<exists>es. cr_executions r' = cr_executions r @ es) \<and>
    (\<forall>w. cr_workspace_id r = Some w \<longrightarrow> cr_workspace_id r' = Some w) \<and>
    (\<forall>lease lease'. cr_writer r = Some lease \<and> cr_writer r' = Some lease' \<longrightarrow>
       lease' = lease \<or> wl_generation lease < wl_generation lease')"
proof -
  note ok = system_run_history [OF assms(2,1)]
  from assms(3,4) have inv: "store_inv S (hist ! j)" by (intro history_ok_inv [OF ok]) simp
  from history_ok_evolves [OF ok assms(3,4)] assms(5) obtain r' where
    r': "holds_record S (hist ! k) i r'" and adv: "advances r r'" by (auto simp: store_evolves_def store_advances_def)
  have "lease' = lease \<or> wl_generation lease < wl_generation lease'"
    if "cr_writer r = Some lease" "cr_writer r' = Some lease'" for lease lease'
    using adv that store_inv_record [OF inv assms(5)]
    by (fastforce simp: advances_def change_inv_def writer_ok_def)
  with r' adv show ?thesis by (auto simp: advances_def)
qed

lemma sample_system:
  "system_run (\<lambda>_. ''f'') (\<lambda>_. True) sample_format \<lparr>cs_scope = sample_scope, cs_files = []\<rparr>
     [\<lparr>cs_scope = sample_scope, cs_files = []\<rparr>,
      sample_store (new_record sample_scope ''c1'' ''t1'' None None OriginMain)]"
  using by_change [OF start, of sample_format "\<lparr>cs_scope = sample_scope, cs_files = []\<rparr>"]
    change_step.intros(1) [OF sample_create] by simp

theorem system_store_invariant_witness:
  "\<exists>r. holds_record sample_format (sample_store (new_record sample_scope ''c1'' ''t1'' None None OriginMain)) ''c1'' r \<and>
     change_inv r"
proof -
  have "''c1'' \<in> fst ` set (cs_files (sample_store (new_record sample_scope ''c1'' ''t1'' None None OriginMain)))"
    by (simp add: sample_store_def new_record_def)
  with system_store_invariant [OF sample_format_ok sample_system, of
      "sample_store (new_record sample_scope ''c1'' ''t1'' None None OriginMain)"]
  show ?thesis by auto
qed

lemma sample_system_handoff:
  "system_run (\<lambda>_. ''f'') (\<lambda>_. True) sample_format (sample_store (sample_change None 0 None 4))
     [sample_store (sample_change None 0 None 4),
      sample_store (sample_change (Some \<lparr>wl_execution_id = ''e1'', wl_generation = 1\<rparr>) 1 None 5)]"
  using by_change [OF start, of sample_format "sample_store (sample_change None 0 None 4)"]
    change_step.intros(10) [OF sample_handoff] by simp

theorem system_leases_fence_witness:
  "\<exists>r'. holds_record sample_format
      (sample_store (sample_change (Some \<lparr>wl_execution_id = ''e1'', wl_generation = 1\<rparr>) 1 None 5)) ''c1'' r' \<and>
    same_identity (sample_change None 0 None 4) r'"
proof -
  have "holds_record sample_format (sample_store (sample_change None 0 None 4)) ''c1'' (sample_change None 0 None 4)"
    using sample_holds [OF sample_change_fits(1)] by simp
  with system_leases_fence [OF sample_inv sample_system_handoff, of 0 1 "''c1''"] show ?thesis by auto
qed

end
